(* ===== verification/Omen_Prelude.thy ===== *)
theory Omen_Prelude
  imports Main "HOL-Library.Word" "HOL-Library.Char_ord" "HOL-Library.List_Lexorder"
    "HOL-Library.Product_Lexorder"
begin

unbundle bit_operations_syntax

text \<open>
  Shared vocabulary of the development. Machine integers of the source keep their width as
  words; a Rust \<^verbatim>\<open>String\<close> is the list of its UTF-8 bytes (\<^typ>\<open>string\<close>, whose characters are
  bytes, so that \<^term>\<open>length\<close> is Rust's \<^verbatim>\<open>len\<close>); \<^verbatim>\<open>Result<T, E>\<close> is \<^typ>\<open>'e + 'a\<close> with
  the error on the left. The theory collects what the components use of Rust's language and
  standard library: \<^verbatim>\<open>?\<close> and \<^verbatim>\<open>collect\<close> on results, big-endian integer bytes, UTF-8
  validation, \<^verbatim>\<open>trim().is_empty()\<close>, \<^verbatim>\<open>windows(2)\<close> order checks and \<^verbatim>\<open>binary_search\<close>, each
  with the lemmas the component proofs rest on.
\<close>

type_synonym u8 = "8 word"
type_synonym u16 = "16 word"
type_synonym u32 = "32 word"
type_synonym u64 = "64 word"
type_synonym i64 = "64 word"
type_synonym bytes = "8 word list"

named_theorems codec_simps \<open>definitions unfolded by the encoder and decoder proofs\<close>
named_theorems valid_simps \<open>characterisations of successful validation\<close>

section \<open>Results\<close>

definition and_then :: "'e + 'a \<Rightarrow> ('a \<Rightarrow> 'e + 'b) \<Rightarrow> 'e + 'b" where
  "and_then r f = (case r of Inl e \<Rightarrow> Inl e | Inr x \<Rightarrow> f x)"

definition map_err :: "('e \<Rightarrow> 'f) \<Rightarrow> 'e + 'a \<Rightarrow> 'f + 'a" where
  "map_err g r = (case r of Inl e \<Rightarrow> Inl (g e) | Inr x \<Rightarrow> Inr x)"

definition ok_or :: "'e \<Rightarrow> 'a option \<Rightarrow> 'e + 'a" where
  "ok_or e x = (case x of None \<Rightarrow> Inl e | Some y \<Rightarrow> Inr y)"

definition is_ok :: "'e + 'a \<Rightarrow> bool" where
  "is_ok r = (case r of Inl _ \<Rightarrow> False | Inr _ \<Rightarrow> True)"

definition reject_if :: "bool \<Rightarrow> 'e \<Rightarrow> 'e + unit" where
  "reject_if b e = (if b then Inl e else Inr ())"

fun collect_results :: "('a \<Rightarrow> 'e + 'b) \<Rightarrow> 'a list \<Rightarrow> 'e + 'b list" where
  "collect_results f [] = Inr []"
| "collect_results f (x # xs) =
     and_then (f x) (\<lambda>y. and_then (collect_results f xs) (\<lambda>ys. Inr (y # ys)))"

fun for_each_ok :: "('a \<Rightarrow> 'e + unit) \<Rightarrow> 'a list \<Rightarrow> 'e + unit" where
  "for_each_ok f [] = Inr ()"
| "for_each_ok f (x # xs) = and_then (f x) (\<lambda>_. for_each_ok f xs)"

lemma and_then_simps [simp]:
  "and_then (Inl e) f = Inl e"
  "and_then (Inr x) f = f x"
  by (simp_all add: and_then_def)

lemma and_then_eq_Inr [simp]: "and_then r f = Inr y \<longleftrightarrow> (\<exists>x. r = Inr x \<and> f x = Inr y)"
  by (cases r) auto

lemma and_then_eq_Inl: "and_then r f = Inl e \<longleftrightarrow> r = Inl e \<or> (\<exists>x. r = Inr x \<and> f x = Inl e)"
  by (cases r) auto

lemma and_then_assoc: "and_then (and_then r f) g = and_then r (\<lambda>x. and_then (f x) g)"
  by (cases r) auto

lemma map_err_simps [simp]:
  "map_err g (Inl e) = Inl (g e)"
  "map_err g (Inr x) = Inr x"
  by (simp_all add: map_err_def)

lemma map_err_eq_Inr [simp]: "map_err g r = Inr y \<longleftrightarrow> r = Inr y"
  by (cases r) auto

lemma ok_or_simps [simp]:
  "ok_or e None = Inl e"
  "ok_or e (Some x) = Inr x"
  by (simp_all add: ok_or_def)

lemma ok_or_eq_Inr [simp]: "ok_or e x = Inr y \<longleftrightarrow> x = Some y"
  by (cases x) auto

lemma is_ok_simps [simp]:
  "is_ok (Inl e) = False"
  "is_ok (Inr x) = True"
  by (simp_all add: is_ok_def)

lemma is_ok_iff: "is_ok r \<longleftrightarrow> (\<exists>x. r = Inr x)"
  by (cases r) auto

lemma reject_if_simps [simp]:
  "reject_if b e = Inr u \<longleftrightarrow> \<not> b"
  "reject_if b e = Inl e' \<longleftrightarrow> b \<and> e' = e"
  by (auto simp: reject_if_def)

lemma reject_if_False [simp]: "reject_if False e = Inr ()"
  and reject_if_True [simp]: "reject_if True e = Inl e"
  by (simp_all add: reject_if_def)

lemma collect_results_eq_Inr:
  "collect_results f xs = Inr ys \<longleftrightarrow> list_all2 (\<lambda>x y. f x = Inr y) xs ys"
proof (induction xs arbitrary: ys)
  case Nil
  then show ?case by auto
next
  case (Cons x xs)
  then show ?case by (cases ys) auto
qed

lemma collect_results_map:
  assumes "\<And>x. x \<in> set xs \<Longrightarrow> f (g x) = Inr x"
  shows "collect_results f (map g xs) = Inr xs"
  using assms by (induction xs) auto

lemma collect_results_length: "collect_results f xs = Inr ys \<Longrightarrow> length ys = length xs"
  by (auto simp: collect_results_eq_Inr dest: list_all2_lengthD)

lemma collect_results_roundtrip:
  assumes "collect_results f xs = Inr ys"
    and "\<And>x y. x \<in> set xs \<Longrightarrow> f x = Inr y \<Longrightarrow> g y = Inr x"
  shows "collect_results g ys = Inr xs"
  using assms
proof (induction xs arbitrary: ys)
  case Nil
  then show ?case by simp
next
  case (Cons x xs)
  then show ?case by fastforce
qed

lemma collect_results_total:
  assumes "\<And>x. x \<in> set xs \<Longrightarrow> \<exists>y. f x = Inr y"
  shows "\<exists>ys. collect_results f xs = Inr ys"
  using assms by (induction xs) fastforce+

lemma collect_results_exact:
  assumes "\<And>x y. f x = Inr y \<longleftrightarrow> P y \<and> x = g y"
  shows "collect_results f xs = Inr ys \<longleftrightarrow> (\<forall>y\<in>set ys. P y) \<and> xs = map g ys"
  using assms
proof (induction xs arbitrary: ys)
  case Nil
  then show ?case by auto
next
  case (Cons x xs)
  then show ?case by (cases ys) auto
qed

lemma collect_results_in_set:
  "collect_results f xs = Inr ys \<Longrightarrow> y \<in> set ys \<Longrightarrow> \<exists>x\<in>set xs. f x = Inr y"
proof (induction xs arbitrary: ys)
  case Nil
  then show ?case by simp
next
  case (Cons x xs)
  then show ?case by auto
qed

lemma for_each_ok_eq_Inr [simp]: "for_each_ok f xs = Inr u \<longleftrightarrow> (\<forall>x\<in>set xs. f x = Inr ())"
  by (induction xs) auto

section \<open>Order checks over adjacent elements, and binary search\<close>

text \<open>\<^verbatim>\<open>xs.windows(2).any(|pair| !(pair[0] < pair[1]))\<close>, negated.\<close>

fun windows_ok :: "('a \<Rightarrow> 'a \<Rightarrow> bool) \<Rightarrow> 'a list \<Rightarrow> bool" where
  "windows_ok r (x # y # zs) = (r x y \<and> windows_ok r (y # zs))"
| "windows_ok r _ = True"

lemma windows_ok_sorted_wrt: "transp r \<Longrightarrow> windows_ok r xs \<longleftrightarrow> sorted_wrt r xs"
  by (induction r xs rule: windows_ok.induct) (auto dest: transpD)

lemma windows_ok_less [simp]:
  "windows_ok (\<lambda>x y. f x < (f y :: 'b :: linorder)) xs \<longleftrightarrow> sorted_wrt (<) (map f xs)"
proof -
  have "transp (\<lambda>x y. f x < f y)" by (auto intro: transpI)
  then show ?thesis by (simp add: windows_ok_sorted_wrt sorted_wrt_map)
qed

lemma windows_ok_greater [simp]:
  "windows_ok (\<lambda>x y. f y < (f x :: 'b :: linorder)) xs \<longleftrightarrow> sorted_wrt (>) (map f xs)"
proof -
  have "transp (\<lambda>x y. f y < f x)" by (auto intro: transpI)
  then show ?thesis by (simp add: windows_ok_sorted_wrt sorted_wrt_map)
qed

lemma windows_ok_less_id [simp]:
  "windows_ok (\<lambda>x y. x < (y :: 'b :: linorder)) xs \<longleftrightarrow> sorted_wrt (<) xs"
  using windows_ok_less [of id xs] by simp

text \<open>
  \<^verbatim>\<open>slice::binary_search\<close>: bisection of a sorted slice. Only its success is used by the
  source, always on a slice that an order check has just accepted.
\<close>

function bisect :: "'a :: linorder list \<Rightarrow> 'a \<Rightarrow> nat \<Rightarrow> nat \<Rightarrow> bool" where
  "bisect xs v lo hi =
     (if lo < hi then
        let mid = lo + (hi - lo) div 2 in
        if xs ! mid = v then True
        else if xs ! mid < v then bisect xs v (Suc mid) hi
        else bisect xs v lo mid
      else False)"
  by pat_completeness auto
termination
  by (relation "measure (\<lambda>(xs, v, lo, hi). hi - lo)") (auto simp: Let_def)

declare bisect.simps [simp del]

definition binary_search_found :: "'a :: linorder list \<Rightarrow> 'a \<Rightarrow> bool" where
  "binary_search_found xs v = bisect xs v 0 (length xs)"

lemma bisect_correct:
  assumes "sorted_wrt (<) xs" and "hi \<le> length xs"
  shows "bisect xs v lo hi \<longleftrightarrow> (\<exists>i. lo \<le> i \<and> i < hi \<and> xs ! i = v)"
  using assms
proof (induction xs v lo hi rule: bisect.induct)
  case (1 xs v lo hi)
  define mid where "mid = lo + (hi - lo) div 2"
  have inc: "xs ! i < xs ! j" if "i < j" "j < hi" for i j
    using 1(3,4) that by (simp add: sorted_wrt_iff_nth_less)
  show ?case
  proof (cases "lo < hi")
    case False
    then show ?thesis by (simp add: bisect.simps [of xs v lo hi])
  next
    case True
    then have mid: "lo \<le> mid" "mid < hi" by (auto simp: mid_def)
    consider "xs ! mid = v" | "xs ! mid < v" | "v < xs ! mid" by fastforce
    then show ?thesis
    proof cases
      case 1
      then have "bisect xs v lo hi" using True
        by (simp add: bisect.simps [of xs v lo hi] Let_def mid_def)
      then show ?thesis using 1 mid by blast
    next
      case 2
      then have "bisect xs v lo hi = bisect xs v (Suc mid) hi"
        using True by (auto simp: bisect.simps [of xs v lo hi] Let_def mid_def)
      also have "\<dots> \<longleftrightarrow> (\<exists>i. Suc mid \<le> i \<and> i < hi \<and> xs ! i = v)"
        using 1(1) [OF True mid_def] 2 1(3,4) by simp
      also have "\<dots> \<longleftrightarrow> (\<exists>i. lo \<le> i \<and> i < hi \<and> xs ! i = v)"
      proof (intro iffI; elim exE conjE)
        fix i assume i: "lo \<le> i" "i < hi" "xs ! i = v"
        have "\<not> i \<le> mid" using inc [of i mid] 2 mid i by (cases "i = mid") auto
        then show "\<exists>i. Suc mid \<le> i \<and> i < hi \<and> xs ! i = v" using i by (intro exI [of _ i]) simp
      next
        fix i assume "Suc mid \<le> i" "i < hi" "xs ! i = v"
        then show "\<exists>i. lo \<le> i \<and> i < hi \<and> xs ! i = v" using mid by (intro exI [of _ i]) simp
      qed
      finally show ?thesis .
    next
      case 3
      then have "bisect xs v lo hi = bisect xs v lo mid"
        using True by (auto simp: bisect.simps [of xs v lo hi] Let_def mid_def)
      also have "\<dots> \<longleftrightarrow> (\<exists>i. lo \<le> i \<and> i < mid \<and> xs ! i = v)"
        using 1(2) [OF True mid_def] 3 1(3,4) mid by auto
      also have "\<dots> \<longleftrightarrow> (\<exists>i. lo \<le> i \<and> i < hi \<and> xs ! i = v)"
      proof (intro iffI; elim exE conjE)
        fix i assume i: "lo \<le> i" "i < hi" "xs ! i = v"
        have "\<not> mid \<le> i" using inc [of mid i] 3 mid i by (cases "i = mid") auto
        then show "\<exists>i. lo \<le> i \<and> i < mid \<and> xs ! i = v" using i by (intro exI [of _ i]) simp
      next
        fix i assume "lo \<le> i" "i < mid" "xs ! i = v"
        then show "\<exists>i. lo \<le> i \<and> i < hi \<and> xs ! i = v" using mid by (intro exI [of _ i]) simp
      qed
      finally show ?thesis .
    qed
  qed
qed

lemma binary_search_found_iff [simp]:
  "sorted_wrt (<) xs \<Longrightarrow> binary_search_found xs v \<longleftrightarrow> v \<in> set xs"
  by (auto simp: binary_search_found_def bisect_correct in_set_conv_nth)

section \<open>Big-endian integers\<close>

fun be_bytes :: "nat \<Rightarrow> nat \<Rightarrow> bytes" where
  "be_bytes 0 x = []"
| "be_bytes (Suc n) x = word_of_nat (x div 256 ^ n) # be_bytes n x"

definition from_be :: "bytes \<Rightarrow> nat" where
  "from_be bs = foldl (\<lambda>acc b. acc * 256 + unat b) 0 bs"

lemma length_be_bytes [simp]: "length (be_bytes n x) = n"
  by (induction n) auto

lemma from_be_Nil [simp]: "from_be [] = 0"
  by (simp add: from_be_def)

lemma foldl_be: "foldl (\<lambda>acc b. acc * 256 + unat (b :: u8)) a bs = a * 256 ^ length bs + from_be bs"
proof (induction bs arbitrary: a)
  case Nil
  then show ?case by (simp add: from_be_def)
next
  case (Cons b bs)
  show ?case using Cons [of "a * 256 + unat b"] Cons [of "unat b"]
    by (simp add: from_be_def algebra_simps)
qed

lemma from_be_Cons: "from_be (b # bs) = unat b * 256 ^ length bs + from_be bs"
  using foldl_be [of "unat b" bs] by (simp add: from_be_def)

lemma from_be_less: "from_be bs < 256 ^ length bs"
proof (induction bs)
  case Nil
  then show ?case by simp
next
  case (Cons b bs)
  have "unat b < 256" using unsigned_less [of b, where ?'a = nat] by simp
  then have "(unat b + 1) * 256 ^ length bs \<le> (256 :: nat) * 256 ^ length bs"
    by (intro mult_le_mono1) simp
  then have "from_be (b # bs) < (256 :: nat) * 256 ^ length bs"
    using Cons by (simp only: from_be_Cons add_mult_distrib)
  then show ?case by simp
qed

lemma from_be_be_bytes_mod: "from_be (be_bytes n x) = x mod 256 ^ n"
proof (induction n)
  case 0
  then show ?case by simp
next
  case (Suc n)
  have "x mod 256 ^ Suc n = 256 ^ n * (x div 256 ^ n mod 256) + x mod 256 ^ n"
    using mod_mult2_eq [of x "256 ^ n" 256] by (simp add: mult.commute)
  then show ?case using Suc
    by (simp add: from_be_Cons unsigned_of_nat take_bit_eq_mod mult.commute)
qed

lemma from_be_be_bytes [simp]: "x < 256 ^ n \<Longrightarrow> from_be (be_bytes n x) = x"
  by (simp add: from_be_be_bytes_mod)

lemma be_bytes_inj: "be_bytes n x = be_bytes n y \<Longrightarrow> x < 256 ^ n \<Longrightarrow> y < 256 ^ n \<Longrightarrow> x = y"
  by (metis from_be_be_bytes)

lemma be_bytes_mod: "be_bytes n (x mod 256 ^ m) = be_bytes n x" if "n \<le> m"
  using that
proof (induction n)
  case 0
  then show ?case by simp
next
  case (Suc n)
  have "(256 :: nat) ^ m = 256 ^ n * 256 ^ (m - n)"
    using Suc.prems by (metis Suc_leD le_add_diff_inverse power_add)
  then have "x mod 256 ^ m div 256 ^ n = x div 256 ^ n mod 256 ^ (m - n)"
    by (simp add: mod_mult2_eq)
  moreover have "(256 :: nat) dvd 256 ^ (m - n)"
    using Suc.prems by (metis dvd_power Suc_diff_le diff_is_0_eq less_Suc_eq_le not_less zero_less_diff)
  ultimately have "(word_of_nat (x mod 256 ^ m div 256 ^ n) :: u8) = word_of_nat (x div 256 ^ n)"
    by (auto simp: word_of_nat_eq_iff take_bit_eq_mod mod_mod_cancel)
  then show ?case using Suc by simp
qed

lemma be_bytes_from_be [simp]: "be_bytes (length bs) (from_be bs) = bs"
proof (induction bs)
  case Nil
  then show ?case by simp
next
  case (Cons b bs)
  have lt: "from_be bs < 256 ^ length bs" by (rule from_be_less)
  have "from_be (b # bs) div 256 ^ length bs = unat b"
    using lt by (simp add: from_be_Cons)
  moreover have "be_bytes (length bs) (from_be (b # bs)) = be_bytes (length bs) (from_be bs)"
    using be_bytes_mod [of "length bs" "length bs" "from_be (b # bs)"] lt
    by (simp add: from_be_Cons)
  ultimately show ?case using Cons by simp
qed

abbreviation u16_be :: "u16 \<Rightarrow> bytes" where "u16_be x \<equiv> be_bytes 2 (unat x)"
abbreviation u32_be :: "u32 \<Rightarrow> bytes" where "u32_be x \<equiv> be_bytes 4 (unat x)"
abbreviation u64_be :: "u64 \<Rightarrow> bytes" where "u64_be x \<equiv> be_bytes 8 (unat x)"

lemma u16_be_bound: "unat (x :: u16) < 256 ^ 2"
  and u32_be_bound: "unat (y :: u32) < 256 ^ 4"
  and u64_be_bound: "unat (z :: u64) < 256 ^ 8"
  using unsigned_less [of x, where ?'a = nat] unsigned_less [of y, where ?'a = nat] unsigned_less [of z, where ?'a = nat] by simp_all

lemma u16_be_inj [simp]: "u16_be x = u16_be y \<longleftrightarrow> x = y"
  and u32_be_inj [simp]: "u32_be v = u32_be w \<longleftrightarrow> v = w"
  and u64_be_inj [simp]: "u64_be p = u64_be q \<longleftrightarrow> p = q"
  using be_bytes_inj [OF _ u16_be_bound u16_be_bound]
    be_bytes_inj [OF _ u32_be_bound u32_be_bound]
    be_bytes_inj [OF _ u64_be_bound u64_be_bound] by (auto simp only: word_unat_eq_iff)

section \<open>Integer conversions\<close>

text \<open>\<^verbatim>\<open>u32::try_from(u64)\<close>, \<^verbatim>\<open>u16::try_from(u64)\<close>, \<^verbatim>\<open>i64::try_from(u64)\<close>, and the sign of an
  \<^verbatim>\<open>i64\<close> held as its two's-complement word.\<close>

definition usize_saturating_add :: "nat \<Rightarrow> nat \<Rightarrow> nat" where
  "usize_saturating_add a b = min (a + b) (2 ^ 64 - 1)"

lemma usize_saturating_add_le: "b < 2 ^ 64 - 1 \<Longrightarrow> usize_saturating_add m n \<le> b \<longleftrightarrow> m + n \<le> b"
  by (auto simp: usize_saturating_add_def min_def)

lemma usize_saturating_add_exact: "m + n < 2 ^ 64 \<Longrightarrow> usize_saturating_add m n = m + n"
  by (simp add: usize_saturating_add_def)

text \<open>Decimal digits, as \<^verbatim>\<open>format!\<close> writes an unsigned integer.\<close>

fun show_nat :: "nat \<Rightarrow> string" where
  "show_nat n =
     (if n < 10 then [char_of (48 + n)] else show_nat (n div 10) @ [char_of (48 + n mod 10)])"

declare show_nat.simps [simp del]

definition u32_try_from :: "u64 \<Rightarrow> u32 option" where
  "u32_try_from x = (if unat x < 2 ^ 32 then Some (ucast x) else None)"

definition u16_try_from :: "u64 \<Rightarrow> u16 option" where
  "u16_try_from x = (if unat x < 2 ^ 16 then Some (ucast x) else None)"

definition i64_try_from :: "u64 \<Rightarrow> i64 option" where
  "i64_try_from x = (if unat x < 2 ^ 63 then Some x else None)"

definition i64_neg :: "i64 \<Rightarrow> bool" where
  "i64_neg x = (sint x < 0)"

lemma unat_ucast_u32_u64 [simp]: "unat (ucast (x :: u32) :: u64) = unat x"
  using unsigned_less [of x, where ?'a = nat] by (simp add: unsigned_ucast_eq take_bit_nat_eq_self)

lemma unat_ucast_u16_u64 [simp]: "unat (ucast (x :: u16) :: u64) = unat x"
  using unsigned_less [of x, where ?'a = nat] by (simp add: unsigned_ucast_eq take_bit_nat_eq_self)

lemma unat_ucast_u8_u64 [simp]: "unat (ucast (x :: u8) :: u64) = unat x"
  using unsigned_less [of x, where ?'a = nat] by (simp add: unsigned_ucast_eq take_bit_nat_eq_self)

lemma ucast_u32_u64_inj [simp]: "(ucast (x :: u32) :: u64) = ucast y \<longleftrightarrow> x = y"
  by (metis unat_ucast_u32_u64 word_unat_eq_iff)

lemma ucast_u64_u32_ucast [simp]: "(ucast (ucast (x :: u32) :: u64) :: u32) = x"
  by (rule ucast_up_ucast_id) (simp add: is_up)

lemma u32_try_from_ucast [simp]: "u32_try_from (ucast x) = Some x"
  using unsigned_less [of x, where ?'a = nat] by (simp add: u32_try_from_def)

lemma u32_try_from_Some: "u32_try_from x = Some y \<Longrightarrow> x = ucast y"
  by (rule unsigned_word_eqI [where ?'a = nat])
    (auto simp: u32_try_from_def unsigned_ucast_eq take_bit_nat_eq_self split: if_splits)

lemma u32_try_from_eq_Some: "u32_try_from x = Some y \<longleftrightarrow> x = ucast y"
  using u32_try_from_Some by auto

lemma ucast_u64_u16_ucast [simp]: "(ucast (ucast (x :: u16) :: u64) :: u16) = x"
  by (rule ucast_up_ucast_id) (simp add: is_up)

lemma ucast_u64_u8_ucast [simp]: "(ucast (ucast (x :: u8) :: u64) :: u8) = x"
  by (rule ucast_up_ucast_id) (simp add: is_up)

lemma u16_try_from_ucast [simp]: "u16_try_from (ucast x) = Some x"
  using unsigned_less [of x, where ?'a = nat] by (simp add: u16_try_from_def)

lemma u16_try_from_Some: "u16_try_from x = Some y \<Longrightarrow> x = ucast y"
  by (rule unsigned_word_eqI [where ?'a = nat])
    (auto simp: u16_try_from_def unsigned_ucast_eq unsigned_take_bit_eq take_bit_nat_eq_self
      split: if_splits)

lemma u16_try_from_eq_Some: "u16_try_from x = Some y \<longleftrightarrow> x = ucast y"
  using u16_try_from_Some by auto

lemma i64_neg_iff: "i64_neg x \<longleftrightarrow> 2 ^ 63 \<le> unat x"
proof -
  have lt: "unat x < 2 ^ 64" using unsigned_less [of x, where ?'a = nat] by simp
  have "i64_neg x \<longleftrightarrow> bit x 63"
    using bit_last_iff [of x] by (simp add: i64_neg_def)
  also have "\<dots> \<longleftrightarrow> odd (unat x div 2 ^ 63)"
    using bit_unsigned_iff [where ?'a = nat, of x 63] by (simp add: bit_iff_odd)
  also have "\<dots> \<longleftrightarrow> 2 ^ 63 \<le> unat x"
  proof (cases "unat x < 2 ^ 63")
    case False
    then have "unat x div 2 ^ 63 = 1" using lt by (simp add: div_nat_eqI)
    then show ?thesis using False by simp
  qed simp
  finally show ?thesis .
qed

lemma i64_try_from_eq: "i64_try_from x = (if i64_neg x then None else Some x)"
  by (simp add: i64_try_from_def i64_neg_iff)

section \<open>Bit masks\<close>

lemma and_not_mask_eq_0: "x AND NOT (mask n) = 0 \<longleftrightarrow> take_bit n x = (x :: 'a :: len word)"
  by (auto simp: bit_eq_iff bit_simps)

lemma and_not_mask_unat: "x AND NOT (mask n) = 0 \<longleftrightarrow> unat (x :: 'a :: len word) < 2 ^ n"
proof -
  have "x AND NOT (mask n) = 0 \<longleftrightarrow> take_bit n (unat x) = unat x"
    unfolding and_not_mask_eq_0 by (simp add: word_unat_eq_iff unsigned_take_bit_eq)
  then show ?thesis by (simp add: take_bit_nat_eq_self_iff)
qed

section \<open>UTF-8 strings\<close>

text \<open>
  A Rust \<^verbatim>\<open>String\<close> holds well-formed UTF-8. \<open>utf8_chars\<close> decodes a byte sequence into its
  scalar values and fails exactly where \<^verbatim>\<open>str::from_utf8\<close> does (overlong forms, surrogates,
  values above \<^verbatim>\<open>U+10FFFF\<close>, stray or missing continuation bytes).
\<close>

definition as_bytes :: "string \<Rightarrow> bytes" where
  "as_bytes s = map of_char s"

definition of_bytes :: "bytes \<Rightarrow> string" where
  "of_bytes bs = map (\<lambda>b. char_of (unat b)) bs"

definition utf8_cont :: "u8 \<Rightarrow> bool" where
  "utf8_cont b = (0x80 \<le> b \<and> b \<le> 0xBF)"

definition utf8_cont3 :: "u8 \<Rightarrow> u8 \<Rightarrow> bool" where
  "utf8_cont3 b c = (if b = 0xE0 then 0xA0 \<le> c \<and> c \<le> 0xBF
     else if b = 0xED then 0x80 \<le> c \<and> c \<le> 0x9F else utf8_cont c)"

definition utf8_cont4 :: "u8 \<Rightarrow> u8 \<Rightarrow> bool" where
  "utf8_cont4 b c = (if b = 0xF0 then 0x90 \<le> c \<and> c \<le> 0xBF
     else if b = 0xF4 then 0x80 \<le> c \<and> c \<le> 0x8F else utf8_cont c)"

fun utf8_chars :: "bytes \<Rightarrow> nat list option" where
  "utf8_chars [] = Some []"
| "utf8_chars (b # bs) =
     (if b \<le> 0x7F then map_option ((#) (unat b)) (utf8_chars bs)
      else if 0xC2 \<le> b \<and> b \<le> 0xDF then
        (case bs of
           c # cs \<Rightarrow>
             if utf8_cont c
             then map_option ((#) ((unat b - 0xC0) * 64 + (unat c - 0x80))) (utf8_chars cs)
             else None
         | _ \<Rightarrow> None)
      else if 0xE0 \<le> b \<and> b \<le> 0xEF then
        (case bs of
           c # d # ds \<Rightarrow>
             if utf8_cont3 b c \<and> utf8_cont d
             then map_option ((#) ((unat b - 0xE0) * 4096 + (unat c - 0x80) * 64 + (unat d - 0x80)))
               (utf8_chars ds)
             else None
         | _ \<Rightarrow> None)
      else if 0xF0 \<le> b \<and> b \<le> 0xF4 then
        (case bs of
           c # d # e # es \<Rightarrow>
             if utf8_cont4 b c \<and> utf8_cont d \<and> utf8_cont e
             then map_option ((#) ((unat b - 0xF0) * 262144 + (unat c - 0x80) * 4096
                 + (unat d - 0x80) * 64 + (unat e - 0x80)))
               (utf8_chars es)
             else None
         | _ \<Rightarrow> None)
      else None)"

definition utf8_valid :: "bytes \<Rightarrow> bool" where
  "utf8_valid bs = (utf8_chars bs \<noteq> None)"

text \<open>\<^verbatim>\<open>str::from_utf8(bytes)\<close>, and the well-formedness every \<^verbatim>\<open>String\<close> of the source has.\<close>

definition from_utf8 :: "bytes \<Rightarrow> string option" where
  "from_utf8 bs = (if utf8_valid bs then Some (of_bytes bs) else None)"

definition wf_str :: "string \<Rightarrow> bool" where
  "wf_str s = utf8_valid (as_bytes s)"

text \<open>The \<^verbatim>\<open>White_Space\<close> scalar values, which \<^verbatim>\<open>char::is_whitespace\<close> and \<^verbatim>\<open>str::trim\<close> use.\<close>

definition white_space :: "nat \<Rightarrow> bool" where
  "white_space c = (9 \<le> c \<and> c \<le> 13 \<or> c = 0x20 \<or> c = 0x85 \<or> c = 0xA0 \<or> c = 0x1680
     \<or> 0x2000 \<le> c \<and> c \<le> 0x200A \<or> c = 0x2028 \<or> c = 0x2029 \<or> c = 0x202F \<or> c = 0x205F
     \<or> c = 0x3000)"

definition trim_is_empty :: "string \<Rightarrow> bool" where
  "trim_is_empty s =
     (case utf8_chars (as_bytes s) of Some cs \<Rightarrow> list_all white_space cs | None \<Rightarrow> False)"

text \<open>Dropping a prefix and a suffix, as \<^verbatim>\<open>trim_matches\<close> does.\<close>

definition trim_both :: "('a \<Rightarrow> bool) \<Rightarrow> 'a list \<Rightarrow> 'a list" where
  "trim_both p xs = rev (dropWhile p (rev (dropWhile p xs)))"

lemma set_trim_both: "set (trim_both p xs) \<subseteq> set xs"
proof -
  have "set (dropWhile p ys) \<subseteq> set ys" for ys by (auto dest: set_dropWhileD)
  from this [of "rev (dropWhile p xs)"] this [of xs] show ?thesis by (simp add: trim_both_def)
qed

lemma length_as_bytes [simp]: "length (as_bytes s) = length s"
  by (simp add: as_bytes_def)

lemma as_bytes_eq_Nil [simp]: "as_bytes s = [] \<longleftrightarrow> s = []"
  by (simp add: as_bytes_def)

lemma unat_of_char [simp]: "unat (of_char c :: u8) = of_char c"
proof -
  have "(of_char c :: u8) = word_of_nat (of_char c)" by (simp add: of_nat_of_char)
  then show ?thesis by (simp add: unsigned_of_nat take_bit_eq_mod)
qed

lemma of_char_char_of_unat [simp]: "(of_char (char_of (unat b)) :: u8) = b"
  by (rule unsigned_word_eqI [where ?'a = nat])
    (use unsigned_less [of b, where ?'a = nat] in simp)

lemma of_bytes_as_bytes [simp]: "of_bytes (as_bytes s) = s"
  by (simp add: as_bytes_def of_bytes_def comp_def map_idI)

lemma as_bytes_of_bytes [simp]: "as_bytes (of_bytes bs) = bs"
  by (simp add: as_bytes_def of_bytes_def comp_def map_idI)

lemma as_bytes_inj [simp]: "as_bytes s = as_bytes t \<longleftrightarrow> s = t"
  by (metis of_bytes_as_bytes)

lemma from_utf8_as_bytes [simp]: "wf_str s \<Longrightarrow> from_utf8 (as_bytes s) = Some s"
  by (simp add: from_utf8_def wf_str_def)

lemma from_utf8_SomeD: "from_utf8 bs = Some s \<Longrightarrow> bs = as_bytes s \<and> wf_str s"
  by (auto simp: from_utf8_def wf_str_def split: if_splits)

lemma find_SomeD: "find p xs = Some x \<Longrightarrow> x \<in> set xs \<and> p x"
  by (induction xs) (auto split: if_splits)

end
