(* ===== verification/Wire_Types.thy ===== *)
theory Wire_Types
  imports Omen_Prelude
begin

text \<open>
  The wire vocabulary of the shared protocol crate
  (\<^verbatim>\<open>src/server/crates/omenchat-protocol/src/lib.rs\<close>): operation, event and error codes, the
  frame with its body and value types, and the two code parsers. Constructors keep the names of
  the source; the ones that clash with HOL carry a prefix (\<^verbatim>\<open>Compression::None\<close>, the frame
  values).
\<close>

section \<open>Code enumerations\<close>

type_synonym RoomId = u32
type_synonym UserId = u32
type_synonym EventId = u64
type_synonym Seq = u32
type_synonym Revision = u64

definition PROTOCOL_VERSION :: u8 where "PROTOCOL_VERSION = 1"

definition PROTOCOL_NAME :: string where "PROTOCOL_NAME = ''omenchat-v0.1''"

datatype Compression = CompressionNone | Bzip2

primrec compression_code :: "Compression \<Rightarrow> u8" where
  "compression_code CompressionNone = 0"
| "compression_code Bzip2 = 1"

datatype (plugins only: code size) ChatOp =
      SessionOpen | SessionAccept | SessionReject | JoinRoom | JoinAccept | PartRoom
    | RoomSubscribe | RoomUnsubscribe | RoomMessage | RoomAction | RoomNotice | RoomEvent
    | MessageAck | RoomReaction | ReactionAck | ReactionEvent | ReactionSnapshotInline
    | ReactionSnapshotResource | UserListSnapshotInline | UserListSnapshotResource | UserDelta
    | RoomDelta | RoleDelta | RoomMessageRevision | MessageRevisionAck | MessageRevisionEvent
    | MessageRevisionSnapshotInline | MessageRevisionSnapshotResource | HistoryBefore
    | HistoryInline | HistoryResourceOffer | HistoryEnd | HistoryRecent | HistoryCurrent
    | RoomPin | PinAck | PinEvent | PinSnapshot | Command | CommandResult
    | ModerationAuditBefore | ModerationAuditInline | ModerationAuditResource
    | ModerationAuditEnd | ContactRequest | ContactOffer | ContactAccept | ContactReject
    | UploadOffer | UploadAccept | UploadReject | UploadComplete | UploadFetch
    | UploadResourceOffer | UploadInlineChunk | NicknameColourSet | NicknameColourAck
    | NicknameColourEvent | Error | Ping | Pong

primrec op_code :: "ChatOp \<Rightarrow> u16" where
  "op_code SessionOpen = 1"
| "op_code SessionAccept = 2"
| "op_code SessionReject = 3"
| "op_code JoinRoom = 10"
| "op_code JoinAccept = 11"
| "op_code PartRoom = 12"
| "op_code RoomSubscribe = 13"
| "op_code RoomUnsubscribe = 14"
| "op_code RoomMessage = 20"
| "op_code RoomAction = 21"
| "op_code RoomNotice = 22"
| "op_code RoomEvent = 23"
| "op_code MessageAck = 24"
| "op_code RoomReaction = 25"
| "op_code ReactionAck = 26"
| "op_code ReactionEvent = 27"
| "op_code ReactionSnapshotInline = 28"
| "op_code ReactionSnapshotResource = 29"
| "op_code UserListSnapshotInline = 30"
| "op_code UserListSnapshotResource = 31"
| "op_code UserDelta = 32"
| "op_code RoomDelta = 33"
| "op_code RoleDelta = 34"
| "op_code RoomMessageRevision = 35"
| "op_code MessageRevisionAck = 36"
| "op_code MessageRevisionEvent = 37"
| "op_code MessageRevisionSnapshotInline = 38"
| "op_code MessageRevisionSnapshotResource = 39"
| "op_code HistoryBefore = 40"
| "op_code HistoryInline = 41"
| "op_code HistoryResourceOffer = 42"
| "op_code HistoryEnd = 43"
| "op_code HistoryRecent = 44"
| "op_code HistoryCurrent = 45"
| "op_code RoomPin = 46"
| "op_code PinAck = 47"
| "op_code PinEvent = 48"
| "op_code PinSnapshot = 49"
| "op_code Command = 50"
| "op_code CommandResult = 51"
| "op_code ModerationAuditBefore = 52"
| "op_code ModerationAuditInline = 53"
| "op_code ModerationAuditResource = 54"
| "op_code ModerationAuditEnd = 55"
| "op_code ContactRequest = 60"
| "op_code ContactOffer = 61"
| "op_code ContactAccept = 62"
| "op_code ContactReject = 63"
| "op_code UploadOffer = 70"
| "op_code UploadAccept = 71"
| "op_code UploadReject = 72"
| "op_code UploadComplete = 73"
| "op_code UploadFetch = 74"
| "op_code UploadResourceOffer = 75"
| "op_code UploadInlineChunk = 76"
| "op_code NicknameColourSet = 77"
| "op_code NicknameColourAck = 78"
| "op_code NicknameColourEvent = 79"
| "op_code Error = 90"
| "op_code Ping = 100"
| "op_code Pong = 101"

datatype ProtocolError =
    UnknownOp u64
  | UnknownCompression u64
  | MalformedFrame string

text \<open>The arms of \<^verbatim>\<open>TryFrom<u64> for ChatOp\<close>, in the order of the source.\<close>

definition chat_op_table :: "(nat \<times> ChatOp) list" where
  "chat_op_table = [
    (1, SessionOpen), (2, SessionAccept), (3, SessionReject), (10, JoinRoom), (11, JoinAccept),
    (12, PartRoom), (13, RoomSubscribe), (14, RoomUnsubscribe), (20, RoomMessage),
    (21, RoomAction), (22, RoomNotice), (23, RoomEvent), (24, MessageAck), (25, RoomReaction),
    (26, ReactionAck), (27, ReactionEvent), (28, ReactionSnapshotInline),
    (29, ReactionSnapshotResource), (30, UserListSnapshotInline),
    (31, UserListSnapshotResource), (32, UserDelta), (33, RoomDelta), (34, RoleDelta),
    (35, RoomMessageRevision), (36, MessageRevisionAck), (37, MessageRevisionEvent),
    (38, MessageRevisionSnapshotInline), (39, MessageRevisionSnapshotResource),
    (40, HistoryBefore), (41, HistoryInline), (42, HistoryResourceOffer), (43, HistoryEnd),
    (44, HistoryRecent), (45, HistoryCurrent), (46, RoomPin), (47, PinAck), (48, PinEvent),
    (49, PinSnapshot), (50, Command), (51, CommandResult), (52, ModerationAuditBefore),
    (53, ModerationAuditInline), (54, ModerationAuditResource), (55, ModerationAuditEnd),
    (60, ContactRequest), (61, ContactOffer), (62, ContactAccept), (63, ContactReject),
    (70, UploadOffer), (71, UploadAccept), (72, UploadReject), (73, UploadComplete),
    (74, UploadFetch), (75, UploadResourceOffer), (76, UploadInlineChunk),
    (77, NicknameColourSet), (78, NicknameColourAck), (79, NicknameColourEvent), (90, Error),
    (100, Ping), (101, Pong)]"

definition chat_op_try_from :: "u64 \<Rightarrow> ProtocolError + ChatOp" where
  "chat_op_try_from value =
     (case map_of chat_op_table (unat value) of
        Some op \<Rightarrow> Inr op
      | None \<Rightarrow> Inl (UnknownOp value))"

definition compression_try_from :: "u64 \<Rightarrow> ProtocolError + Compression" where
  "compression_try_from value =
     (if value = 0 then Inr CompressionNone
      else if value = 1 then Inr Bzip2
      else Inl (UnknownCompression value))"

datatype RoomEventCode =
      UserJoined | UserParted | UserQuit | UserKicked | UserBanned | UserUnbanned | TopicSet
    | ModeChanged | RoleChanged | MessageEdited | MessageDeleted | EventRoomNotice

primrec room_event_code :: "RoomEventCode \<Rightarrow> u16" where
  "room_event_code UserJoined = 1"
| "room_event_code UserParted = 2"
| "room_event_code UserQuit = 3"
| "room_event_code UserKicked = 4"
| "room_event_code UserBanned = 5"
| "room_event_code UserUnbanned = 6"
| "room_event_code TopicSet = 7"
| "room_event_code ModeChanged = 8"
| "room_event_code RoleChanged = 9"
| "room_event_code MessageEdited = 10"
| "room_event_code MessageDeleted = 11"
| "room_event_code EventRoomNotice = 12"

datatype ChatErrorCode =
      PermissionDenied | NotJoined | RoomNotFound | UserNotFound | RateLimited
    | HistoryUnavailable | MalformedFrameCode | UnsupportedProtocolVersion
    | CompressionUnsupported | ResourceUnavailable | DurableMutationNotNegotiated
    | DurableMutationMalformed | DurableMutationConflict | DurableMutationResultExpired
    | DurableMutationStoreBusy | RoomPolicyRestricted | SlowModeActive

primrec chat_error_code :: "ChatErrorCode \<Rightarrow> u16" where
  "chat_error_code PermissionDenied = 1001"
| "chat_error_code NotJoined = 1002"
| "chat_error_code RoomNotFound = 1003"
| "chat_error_code UserNotFound = 1004"
| "chat_error_code RateLimited = 1005"
| "chat_error_code HistoryUnavailable = 1006"
| "chat_error_code MalformedFrameCode = 1007"
| "chat_error_code UnsupportedProtocolVersion = 1008"
| "chat_error_code CompressionUnsupported = 1009"
| "chat_error_code ResourceUnavailable = 1010"
| "chat_error_code DurableMutationNotNegotiated = 1011"
| "chat_error_code DurableMutationMalformed = 1012"
| "chat_error_code DurableMutationConflict = 1013"
| "chat_error_code DurableMutationResultExpired = 1014"
| "chat_error_code DurableMutationStoreBusy = 1015"
| "chat_error_code RoomPolicyRestricted = 1016"
| "chat_error_code SlowModeActive = 1017"

section \<open>Frames\<close>

datatype FrameValue =
    FNil
  | FBool bool
  | FU64 u64
  | FI64 i64
  | FString string
  | FBytes bytes
  | FArray "FrameValue list"

datatype FrameBody =
    Empty
  | Text string
  | Fields "FrameValue list"

record Frame =
  fr_version :: u8
  fr_op :: ChatOp
  fr_flags :: u16
  fr_seq :: Seq
  fr_room_id :: "RoomId option"
  fr_body :: FrameBody

definition frame_new :: "ChatOp \<Rightarrow> Seq \<Rightarrow> RoomId option \<Rightarrow> FrameBody \<Rightarrow> Frame" where
  "frame_new op seq room_id body =
     \<lparr>fr_version = PROTOCOL_VERSION, fr_op = op, fr_flags = 0, fr_seq = seq,
      fr_room_id = room_id, fr_body = body\<rparr>"

section \<open>The code parsers invert the discriminants\<close>

lemma chat_op_try_from_code [simp]: "chat_op_try_from (ucast (op_code op)) = Inr op"
  by (cases op) (simp_all add: chat_op_try_from_def chat_op_table_def)

lemma op_code_inj: "op_code a = op_code b \<Longrightarrow> a = b"
  by (metis chat_op_try_from_code sum.inject(2))

lemma chat_op_table_codes: "list_all (\<lambda>(n, op). n = unat (op_code op)) chat_op_table"
  by (simp add: chat_op_table_def)

lemma chat_op_table_code: "(n, op) \<in> set chat_op_table \<Longrightarrow> n = unat (op_code op)"
  using chat_op_table_codes by (auto simp: list_all_iff)

lemma chat_op_try_from_Inr: "chat_op_try_from v = Inr op \<longleftrightarrow> v = ucast (op_code op)"
proof
  assume "chat_op_try_from v = Inr op"
  then have "(unat v, op) \<in> set chat_op_table"
    by (auto simp: chat_op_try_from_def dest: map_of_SomeD split: option.splits)
  then have "unat v = unat (ucast (op_code op) :: u64)" by (simp add: chat_op_table_code)
  then show "v = ucast (op_code op)" by (simp add: word_unat_eq_iff)
qed simp

lemma compression_try_from_Inr:
  "compression_try_from v = Inr c \<longleftrightarrow> v = ucast (compression_code c)"
  by (cases c) (auto simp: compression_try_from_def)

end
