(* ===== verification/Codec_Contract.thy ===== *)
theory Codec_Contract
  imports Wire_Types
begin

text \<open>
  The interface every message kind of the protocol crate offers to its callers: an encoder and
  a decoder between the message and a wire shape (a frame body, a frame value or raw bytes), and
  the set of well-formed messages. \<open>message_codec\<close> is the contract of a kind whose decoder may
  accept several shapes of one message (a timestamp sent as signed integer); \<open>strict_codec\<close>
  is the contract of a kind with exactly one accepted shape per message. Each message theory
  interprets one of them on its own definitions.
\<close>

locale message_codec =
  fixes enc :: "'m \<Rightarrow> 'e + 'w"
    and dec :: "'w \<Rightarrow> 'e + 'm"
    and valid :: "'m \<Rightarrow> bool"
  assumes enc_total: "valid m \<Longrightarrow> \<exists>w. enc m = Inr w"
    and dec_enc: "valid m \<Longrightarrow> enc m = Inr w \<Longrightarrow> dec w = Inr m"
    and dec_valid: "dec w = Inr m \<Longrightarrow> valid m"
begin

lemma roundtrip: "valid m \<Longrightarrow> and_then (enc m) dec = Inr m"
  using enc_total dec_enc by fastforce

lemma enc_inj:
  assumes "valid m" "valid n" "enc m = Inr w" "enc n = Inr w"
  shows "m = n"
  using dec_enc [OF assms(1,3)] dec_enc [OF assms(2,4)] by simp

text \<open>Relaying an accepted message: it is encodable, and the relayed shape decodes to it.\<close>

lemma relay: "dec w = Inr m \<Longrightarrow> \<exists>w'. enc m = Inr w' \<and> dec w' = Inr m"
  using dec_valid enc_total dec_enc by blast

lemma range_dec: "(\<exists>w. dec w = Inr m) \<longleftrightarrow> valid m"
  using dec_valid enc_total dec_enc by blast

end

locale strict_codec = message_codec +
  assumes enc_dec: "dec w = Inr m \<Longrightarrow> enc m = Inr w"
begin

lemma dec_iff: "dec w = Inr m \<longleftrightarrow> valid m \<and> enc m = Inr w"
  using dec_valid enc_dec dec_enc by blast

lemma dec_inj: "dec w = Inr m \<Longrightarrow> dec w' = Inr m \<Longrightarrow> w = w'"
  by (metis enc_dec sum.inject(2))

end

end
