(* ===== verification/Durable.thy ===== *)
theory Durable
  imports Codec_Contract
begin

text \<open>
  Durable mutations (\<^verbatim>\<open>omenchat-protocol/src/durable.rs\<close>): fixed-size identifiers, the mutation
  envelope and the canonical request hash. The hasher of the \<^verbatim>\<open>CanonicalWriter\<close> is represented
  by the byte stream it has been fed; SHA-256 itself is third-party code and enters
  \<open>canonical_mutation_request_hash\<close> as the parameter \<open>sha256\<close>. The pure encoding \<open>canon_value\<close>
  is the specification the bounded writer refines.
\<close>

section \<open>Identifiers and errors\<close>

definition DURABLE_MUTATION_CAPABILITY :: string where
  "DURABLE_MUTATION_CAPABILITY = ''durable-mutations-v1''"

definition DURABLE_NOTICE_ACK_CAPABILITY :: string where
  "DURABLE_NOTICE_ACK_CAPABILITY = ''durable-room-notice-ack-v1''"

definition DURABLE_MUTATION_ENVELOPE_TAG :: string where
  "DURABLE_MUTATION_ENVELOPE_TAG = ''durable-mutation-v1''"

definition CLIENT_INSTANCE_ID_BYTES :: nat where "CLIENT_INSTANCE_ID_BYTES = 16"
definition MUTATION_ID_BYTES :: nat where "MUTATION_ID_BYTES = 16"
definition REQUEST_HASH_BYTES :: nat where "REQUEST_HASH_BYTES = 32"

definition CANONICAL_DOMAIN :: bytes where
  "CANONICAL_DOMAIN = as_bytes ''omenchat durable mutation v1'' @ [0]"

definition CANONICAL_MAX_BYTES :: nat where "CANONICAL_MAX_BYTES = 1024 * 1024"
definition CANONICAL_MAX_SCALAR_BYTES :: nat where "CANONICAL_MAX_SCALAR_BYTES = 512 * 1024"
definition CANONICAL_MAX_CONTAINER_ITEMS :: nat where "CANONICAL_MAX_CONTAINER_ITEMS = 4096"
definition CANONICAL_MAX_TOTAL_VALUES :: nat where "CANONICAL_MAX_TOTAL_VALUES = 8192"
definition CANONICAL_MAX_DEPTH :: nat where "CANONICAL_MAX_DEPTH = 16"

lemmas canonical_limits = CANONICAL_MAX_BYTES_def CANONICAL_MAX_SCALAR_BYTES_def
  CANONICAL_MAX_CONTAINER_ITEMS_def CANONICAL_MAX_TOTAL_VALUES_def CANONICAL_MAX_DEPTH_def

datatype DurableMutationError =
    IdentifierLength string nat nat
  | Envelope string
  | ScalarLimit
  | ContainerLimit
  | ValueLimit
  | DepthLimit
  | ByteLimit

text \<open>The \<^verbatim>\<open>TryFrom<&[u8]>\<close> of the macro \<^verbatim>\<open>fixed_identifier\<close>, and its three instances.\<close>

definition fixed_identifier :: "string \<Rightarrow> nat \<Rightarrow> bytes \<Rightarrow> DurableMutationError + bytes" where
  "fixed_identifier label len bs =
     (if length bs = len then Inr bs else Inl (IdentifierLength label len (length bs)))"

definition client_instance_id_try_from :: "bytes \<Rightarrow> DurableMutationError + bytes" where
  "client_instance_id_try_from = fixed_identifier ''client_instance_id'' CLIENT_INSTANCE_ID_BYTES"

definition mutation_id_try_from :: "bytes \<Rightarrow> DurableMutationError + bytes" where
  "mutation_id_try_from = fixed_identifier ''mutation_id'' MUTATION_ID_BYTES"

definition request_hash_try_from :: "bytes \<Rightarrow> DurableMutationError + bytes" where
  "request_hash_try_from = fixed_identifier ''request_hash'' REQUEST_HASH_BYTES"

lemma fixed_identifier_Inr [simp]:
  "client_instance_id_try_from bs = Inr i \<longleftrightarrow> i = bs \<and> length bs = 16"
  "mutation_id_try_from bs = Inr i \<longleftrightarrow> i = bs \<and> length bs = 16"
  "request_hash_try_from bs = Inr i \<longleftrightarrow> i = bs \<and> length bs = 32"
  by (auto simp: client_instance_id_try_from_def mutation_id_try_from_def request_hash_try_from_def
      fixed_identifier_def CLIENT_INSTANCE_ID_BYTES_def MUTATION_ID_BYTES_def REQUEST_HASH_BYTES_def)

section \<open>The canonical writer\<close>

record CanonicalWriter =
  cw_hasher :: bytes
  cw_bytes :: nat
  cw_values :: nat

definition canonical_writer_default :: CanonicalWriter where
  "canonical_writer_default = \<lparr>cw_hasher = [], cw_bytes = 0, cw_values = 0\<rparr>"

definition writer_bytes :: "CanonicalWriter \<Rightarrow> bytes \<Rightarrow> DurableMutationError + CanonicalWriter" where
  "writer_bytes w bs =
     (let n = cw_bytes w + length bs in
      if n \<ge> 2 ^ 64 then Inl ByteLimit
      else if n > CANONICAL_MAX_BYTES then Inl ByteLimit
      else Inr (w\<lparr>cw_hasher := cw_hasher w @ bs, cw_bytes := n\<rparr>))"

definition writer_length :: "CanonicalWriter \<Rightarrow> nat \<Rightarrow> DurableMutationError + CanonicalWriter" where
  "writer_length w value = writer_bytes w (be_bytes 8 value)"

definition writer_scalar :: "CanonicalWriter \<Rightarrow> u8 \<Rightarrow> bytes \<Rightarrow> DurableMutationError + CanonicalWriter" where
  "writer_scalar w tag value =
     (if length value > CANONICAL_MAX_SCALAR_BYTES then Inl ScalarLimit
      else and_then (writer_bytes w [tag]) (\<lambda>w.
           and_then (writer_length w (length value)) (\<lambda>w.
           writer_bytes w value)))"

definition writer_container :: "CanonicalWriter \<Rightarrow> nat \<Rightarrow> DurableMutationError + CanonicalWriter" where
  "writer_container w items =
     (if items > CANONICAL_MAX_CONTAINER_ITEMS then Inl ContainerLimit else writer_length w items)"

definition writer_enter :: "CanonicalWriter \<Rightarrow> nat \<Rightarrow> DurableMutationError + CanonicalWriter" where
  "writer_enter w depth =
     (if depth > CANONICAL_MAX_DEPTH then Inl DepthLimit
      else let n = min (cw_values w + 1) (2 ^ 64 - 1) in
        if n > CANONICAL_MAX_TOTAL_VALUES then Inl ValueLimit else Inr (w\<lparr>cw_values := n\<rparr>))"

fun writer_value :: "CanonicalWriter \<Rightarrow> FrameValue \<Rightarrow> nat \<Rightarrow> DurableMutationError + CanonicalWriter"
and writer_values :: "CanonicalWriter \<Rightarrow> FrameValue list \<Rightarrow> nat \<Rightarrow> DurableMutationError + CanonicalWriter"
where
  "writer_value w v depth =
     and_then (writer_enter w depth) (\<lambda>w.
       case v of
         FNil \<Rightarrow> writer_bytes w [0]
       | FBool b \<Rightarrow> writer_bytes w [1, if b then 1 else 0]
       | FU64 x \<Rightarrow> and_then (writer_bytes w [2]) (\<lambda>w. writer_bytes w (u64_be x))
       | FI64 x \<Rightarrow> and_then (writer_bytes w [3]) (\<lambda>w. writer_bytes w (u64_be x))
       | FString s \<Rightarrow> writer_scalar w 4 (as_bytes s)
       | FBytes bs \<Rightarrow> writer_scalar w 5 bs
       | FArray vs \<Rightarrow>
           and_then (writer_bytes w [6]) (\<lambda>w.
           and_then (writer_container w (length vs)) (\<lambda>w.
           writer_values w vs (depth + 1))))"
| "writer_values w [] depth = Inr w"
| "writer_values w (v # vs) depth =
     and_then (writer_value w v depth) (\<lambda>w. writer_values w vs depth)"

definition writer_text_body :: "CanonicalWriter \<Rightarrow> string \<Rightarrow> DurableMutationError + CanonicalWriter" where
  "writer_text_body w text = writer_scalar w 1 (as_bytes text)"

definition writer_fields_body ::
    "CanonicalWriter \<Rightarrow> FrameValue list \<Rightarrow> DurableMutationError + CanonicalWriter" where
  "writer_fields_body w vs =
     and_then (writer_bytes w [2]) (\<lambda>w.
     and_then (writer_container w (length vs)) (\<lambda>w.
     writer_values w vs 1))"

definition writer_body :: "CanonicalWriter \<Rightarrow> FrameBody \<Rightarrow> DurableMutationError + CanonicalWriter" where
  "writer_body w body =
     (case body of
        Empty \<Rightarrow> writer_bytes w [0]
      | Text text \<Rightarrow> writer_text_body w text
      | Fields vs \<Rightarrow> writer_fields_body w vs)"

definition writer_finish :: "(bytes \<Rightarrow> bytes) \<Rightarrow> CanonicalWriter \<Rightarrow> bytes" where
  "writer_finish sha256 w = sha256 (cw_hasher w)"

definition canonical_request_writer ::
    "ChatOp \<Rightarrow> RoomId option \<Rightarrow> FrameBody \<Rightarrow> DurableMutationError + CanonicalWriter" where
  "canonical_request_writer op room_id body =
     and_then (writer_bytes canonical_writer_default CANONICAL_DOMAIN) (\<lambda>w.
     and_then (writer_bytes w [PROTOCOL_VERSION]) (\<lambda>w.
     and_then (writer_bytes w (u16_be (op_code op))) (\<lambda>w.
     and_then
       (case room_id of
          Some room \<Rightarrow> and_then (writer_bytes w [1]) (\<lambda>w. writer_bytes w (u32_be room))
        | None \<Rightarrow> writer_bytes w [0]) (\<lambda>w.
     writer_body w body))))"

definition canonical_mutation_request_hash ::
    "(bytes \<Rightarrow> bytes) \<Rightarrow> ChatOp \<Rightarrow> RoomId option \<Rightarrow> FrameBody \<Rightarrow> DurableMutationError + bytes" where
  "canonical_mutation_request_hash sha256 op room_id body =
     and_then (canonical_request_writer op room_id body) (\<lambda>w. Inr (writer_finish sha256 w))"

definition validate_canonical_body :: "FrameBody \<Rightarrow> DurableMutationError + unit" where
  "validate_canonical_body body =
     and_then (writer_body canonical_writer_default body) (\<lambda>_. Inr ())"

definition validate_canonical_text :: "string \<Rightarrow> DurableMutationError + unit" where
  "validate_canonical_text text =
     and_then (writer_text_body canonical_writer_default text) (\<lambda>_. Inr ())"

definition validate_canonical_fields :: "FrameValue list \<Rightarrow> DurableMutationError + unit" where
  "validate_canonical_fields vs =
     and_then (writer_fields_body canonical_writer_default vs) (\<lambda>_. Inr ())"

section \<open>The mutation envelope\<close>

record DurableMutationEnvelope =
  de_mutation_id :: bytes
  de_request_hash :: bytes
  de_body :: FrameBody

definition legacy_body_parts :: "FrameBody \<Rightarrow> u64 \<times> FrameValue" where
  "legacy_body_parts body =
     (case body of
        Empty \<Rightarrow> (0, FNil)
      | Text text \<Rightarrow> (1, FString text)
      | Fields vs \<Rightarrow> (2, FArray vs))"

definition envelope_into_frame_body :: "DurableMutationEnvelope \<Rightarrow> DurableMutationError + FrameBody" where
  "envelope_into_frame_body e =
     and_then (validate_canonical_body (de_body e)) (\<lambda>_.
       let (kind, value) = legacy_body_parts (de_body e) in
       Inr (Fields [FString DURABLE_MUTATION_ENVELOPE_TAG, FBytes (de_mutation_id e),
         FBytes (de_request_hash e), FU64 kind, value]))"

definition envelope_legacy_body :: "FrameValue \<Rightarrow> FrameValue \<Rightarrow> DurableMutationError + FrameBody" where
  "envelope_legacy_body kind value =
     (let bad = Inl (Envelope ''durable mutation legacy body kind and value do not agree'') in
      case kind of
        FU64 k \<Rightarrow>
          (if k = 0 then (case value of FNil \<Rightarrow> Inr Empty | _ \<Rightarrow> bad)
           else if k = 1 then
             (case value of
                FString text \<Rightarrow> and_then (validate_canonical_text text) (\<lambda>_. Inr (Text text))
              | _ \<Rightarrow> bad)
           else if k = 2 then
             (case value of
                FArray vs \<Rightarrow> and_then (validate_canonical_fields vs) (\<lambda>_. Inr (Fields vs))
              | _ \<Rightarrow> bad)
           else bad)
      | _ \<Rightarrow> bad)"

definition envelope_from_frame_body :: "FrameBody \<Rightarrow> DurableMutationError + DurableMutationEnvelope" where
  "envelope_from_frame_body body =
     (case body of
        Fields fs \<Rightarrow>
          (case fs of
             [tag, mid, hash, kind, value] \<Rightarrow>
               if tag \<noteq> FString DURABLE_MUTATION_ENVELOPE_TAG
               then Inl (Envelope ''durable mutation envelope tag is invalid'')
               else
                 and_then (case mid of
                     FBytes bs \<Rightarrow> mutation_id_try_from bs
                   | _ \<Rightarrow> Inl (Envelope ''durable mutation id must be binary'')) (\<lambda>mutation_id.
                 and_then (case hash of
                     FBytes bs \<Rightarrow> request_hash_try_from bs
                   | _ \<Rightarrow> Inl (Envelope ''durable request hash must be binary'')) (\<lambda>request_hash.
                 and_then (envelope_legacy_body kind value) (\<lambda>body.
                 Inr \<lparr>de_mutation_id = mutation_id, de_request_hash = request_hash, de_body = body\<rparr>)))
           | _ \<Rightarrow> Inl (Envelope ''durable mutation envelope must contain exactly five fields''))
      | _ \<Rightarrow> Inl (Envelope ''durable mutation envelope must be a fields body''))"

section \<open>The canonical encoding as specification\<close>

text \<open>The byte stream of a value when no limit is hit, and the limits themselves.\<close>

definition canon_scalar :: "u8 \<Rightarrow> bytes \<Rightarrow> bytes" where
  "canon_scalar tag bs = tag # be_bytes 8 (length bs) @ bs"

fun canon_value :: "FrameValue \<Rightarrow> bytes" where
  "canon_value FNil = [0]"
| "canon_value (FBool b) = [1, if b then 1 else 0]"
| "canon_value (FU64 x) = 2 # u64_be x"
| "canon_value (FI64 x) = 3 # u64_be x"
| "canon_value (FString s) = canon_scalar 4 (as_bytes s)"
| "canon_value (FBytes bs) = canon_scalar 5 bs"
| "canon_value (FArray vs) = 6 # be_bytes 8 (length vs) @ concat (map canon_value vs)"

definition canon_body :: "FrameBody \<Rightarrow> bytes" where
  "canon_body body =
     (case body of
        Empty \<Rightarrow> [0]
      | Text text \<Rightarrow> canon_scalar 1 (as_bytes text)
      | Fields vs \<Rightarrow> 2 # be_bytes 8 (length vs) @ concat (map canon_value vs))"

definition canon_request :: "ChatOp \<Rightarrow> RoomId option \<Rightarrow> FrameBody \<Rightarrow> bytes" where
  "canon_request op room_id body =
     CANONICAL_DOMAIN @ [PROTOCOL_VERSION] @ u16_be (op_code op)
     @ (case room_id of Some room \<Rightarrow> 1 # u32_be room | None \<Rightarrow> [0]) @ canon_body body"

fun value_count :: "FrameValue \<Rightarrow> nat" where
  "value_count (FArray vs) = Suc (sum_list (map value_count vs))"
| "value_count _ = 1"

fun canon_shape_ok :: "nat \<Rightarrow> FrameValue \<Rightarrow> bool" where
  "canon_shape_ok d (FString s) = (d \<le> CANONICAL_MAX_DEPTH \<and> length s \<le> CANONICAL_MAX_SCALAR_BYTES)"
| "canon_shape_ok d (FBytes bs) = (d \<le> CANONICAL_MAX_DEPTH \<and> length bs \<le> CANONICAL_MAX_SCALAR_BYTES)"
| "canon_shape_ok d (FArray vs) =
     (d \<le> CANONICAL_MAX_DEPTH \<and> length vs \<le> CANONICAL_MAX_CONTAINER_ITEMS
      \<and> list_all (canon_shape_ok (d + 1)) vs)"
| "canon_shape_ok d _ = (d \<le> CANONICAL_MAX_DEPTH)"

definition body_value_count :: "FrameBody \<Rightarrow> nat" where
  "body_value_count body = (case body of Fields vs \<Rightarrow> sum_list (map value_count vs) | _ \<Rightarrow> 0)"

definition body_shape_ok :: "FrameBody \<Rightarrow> bool" where
  "body_shape_ok body =
     (case body of
        Empty \<Rightarrow> True
      | Text text \<Rightarrow> length text \<le> CANONICAL_MAX_SCALAR_BYTES
      | Fields vs \<Rightarrow> length vs \<le> CANONICAL_MAX_CONTAINER_ITEMS \<and> list_all (canon_shape_ok 1) vs)"

definition canonical_body_ok :: "FrameBody \<Rightarrow> bool" where
  "canonical_body_ok body \<longleftrightarrow> body_shape_ok body \<and> body_value_count body \<le> CANONICAL_MAX_TOTAL_VALUES
     \<and> length (canon_body body) \<le> CANONICAL_MAX_BYTES"

section \<open>The writer refines the specification\<close>

definition writer_inv :: "CanonicalWriter \<Rightarrow> bool" where
  "writer_inv w \<longleftrightarrow> cw_bytes w = length (cw_hasher w) \<and> cw_bytes w \<le> CANONICAL_MAX_BYTES
     \<and> cw_values w \<le> CANONICAL_MAX_TOTAL_VALUES"

definition writer_adv :: "CanonicalWriter \<Rightarrow> bytes \<Rightarrow> nat \<Rightarrow> CanonicalWriter" where
  "writer_adv w bs n = w\<lparr>cw_hasher := cw_hasher w @ bs, cw_bytes := cw_bytes w + length bs,
     cw_values := cw_values w + n\<rparr>"

definition writer_fits :: "CanonicalWriter \<Rightarrow> bytes \<Rightarrow> nat \<Rightarrow> bool" where
  "writer_fits w bs n \<longleftrightarrow> cw_bytes w + length bs \<le> CANONICAL_MAX_BYTES
     \<and> cw_values w + n \<le> CANONICAL_MAX_TOTAL_VALUES"

lemma writer_inv_default [simp]: "writer_inv canonical_writer_default"
  by (simp add: writer_inv_def canonical_writer_default_def)

lemma writer_adv_adv [simp]: "writer_adv (writer_adv w a m) b n = writer_adv w (a @ b) (m + n)"
  by (simp add: writer_adv_def)

lemma writer_adv_0 [simp]: "writer_adv w [] 0 = w"
  by (simp add: writer_adv_def)

lemma writer_fits_adv [simp]:
  "writer_fits (writer_adv w a m) b n \<longleftrightarrow> writer_fits w (a @ b) (m + n)"
  by (simp add: writer_fits_def writer_adv_def add.assoc)

lemma writer_inv_adv: "writer_inv w \<Longrightarrow> writer_fits w bs n \<Longrightarrow> writer_inv (writer_adv w bs n)"
  by (simp add: writer_inv_def writer_fits_def writer_adv_def)

lemma writer_fits_prefix: "writer_fits w (a @ b) (m + n) \<Longrightarrow> writer_fits w a m"
  by (simp add: writer_fits_def)

lemma writer_inv_fits0: "writer_inv w \<Longrightarrow> writer_fits w [] 0"
  by (simp add: writer_fits_def writer_inv_def)

text \<open>
  The contract of one writer step: from every consistent state it succeeds exactly when its
  condition holds and its output fits the remaining budgets, and then it has appended that
  output. Steps compose by appending.
\<close>

definition writes ::
    "(CanonicalWriter \<Rightarrow> DurableMutationError + CanonicalWriter) \<Rightarrow> bool \<Rightarrow> bytes \<Rightarrow> nat \<Rightarrow> bool" where
  "writes f P bs n \<longleftrightarrow> (\<forall>w w'. writer_inv w \<longrightarrow>
     (f w = Inr w' \<longleftrightarrow> P \<and> writer_fits w bs n \<and> w' = writer_adv w bs n))"

lemma writesD:
  "writes f P bs n \<Longrightarrow> writer_inv w \<Longrightarrow>
     f w = Inr w' \<longleftrightarrow> P \<and> writer_fits w bs n \<and> w' = writer_adv w bs n"
  by (simp add: writes_def)

lemma writes_bytes: "writes (\<lambda>w. writer_bytes w bs) True bs 0"
  by (auto simp: writes_def writer_bytes_def Let_def writer_fits_def writer_adv_def writer_inv_def
      canonical_limits)

lemma writes_enter: "writes (\<lambda>w. writer_enter w d) (d \<le> CANONICAL_MAX_DEPTH) [] 1"
  by (auto simp: writes_def writer_enter_def Let_def writer_fits_def writer_adv_def
      writer_inv_def canonical_limits)

lemma writes_skip: "writes (\<lambda>w. Inr w) True [] 0"
  by (auto simp: writes_def writer_inv_fits0)

lemma writes_seq:
  assumes f: "writes f P a m" and g: "writes g Q b n"
  shows "writes (\<lambda>w. and_then (f w) g) (P \<and> Q) (a @ b) (m + n)"
  unfolding writes_def
proof (intro allI impI)
  fix w w' assume inv: "writer_inv w"
  have "and_then (f w) g = Inr w' \<longleftrightarrow> P \<and> writer_fits w a m \<and> g (writer_adv w a m) = Inr w'"
    using writesD [OF f inv] by auto
  also have "\<dots> \<longleftrightarrow> (P \<and> Q) \<and> writer_fits w (a @ b) (m + n) \<and> w' = writer_adv w (a @ b) (m + n)"
    using writesD [OF g writer_inv_adv [OF inv], of a m w'] writer_fits_prefix [of w a b m n]
    by auto
  finally show "and_then (f w) g = Inr w' \<longleftrightarrow>
      (P \<and> Q) \<and> writer_fits w (a @ b) (m + n) \<and> w' = writer_adv w (a @ b) (m + n)" .
qed

lemma writes_guard: "writes f P bs n \<Longrightarrow> writes (\<lambda>w. if c then Inl e else f w) (\<not> c \<and> P) bs n"
  by (auto simp: writes_def)

lemma writes_cong: "writes f P bs n \<Longrightarrow> P = Q \<Longrightarrow> bs = cs \<Longrightarrow> n = m \<Longrightarrow> writes f Q cs m"
  by simp

lemma writes_scalar:
  "writes (\<lambda>w. writer_scalar w tag bs) (length bs \<le> CANONICAL_MAX_SCALAR_BYTES) (canon_scalar tag bs) 0"
  unfolding writer_scalar_def writer_length_def
  by (rule writes_cong, rule writes_guard, (rule writes_seq writes_bytes)+)
    (auto simp: canon_scalar_def)

lemma writes_container:
  "writes (\<lambda>w. writer_container w n) (n \<le> CANONICAL_MAX_CONTAINER_ITEMS) (be_bytes 8 n) 0"
  unfolding writer_container_def writer_length_def
  by (rule writes_cong, rule writes_guard, rule writes_bytes) auto

lemma writes_values:
  assumes "\<And>v. v \<in> set vs \<Longrightarrow> writes (\<lambda>w. writer_value w v d) (canon_shape_ok d v) (canon_value v) (value_count v)"
  shows "writes (\<lambda>w. writer_values w vs d) (list_all (canon_shape_ok d) vs)
     (concat (map canon_value vs)) (sum_list (map value_count vs))"
  using assms
proof (induction vs)
  case Nil
  then show ?case by (simp add: writes_skip)
next
  case (Cons v vs)
  have "writes (\<lambda>w. and_then (writer_value w v d) (\<lambda>w. writer_values w vs d))
      (canon_shape_ok d v \<and> list_all (canon_shape_ok d) vs)
      (canon_value v @ concat (map canon_value vs)) (value_count v + sum_list (map value_count vs))"
    by (rule writes_seq) (use Cons in auto)
  then show ?case by (simp del: writer_value.simps)
qed

lemma writes_value:
  "writes (\<lambda>w. writer_value w v d) (canon_shape_ok d v) (canon_value v) (value_count v)"
proof (induction v arbitrary: d)
  case (FArray vs)
  have body: "writes (\<lambda>w. and_then (writer_bytes w [6]) (\<lambda>w.
      and_then (writer_container w (length vs)) (\<lambda>w. writer_values w vs (d + 1))))
      (True \<and> length vs \<le> CANONICAL_MAX_CONTAINER_ITEMS \<and> list_all (canon_shape_ok (d + 1)) vs)
      ([6] @ be_bytes 8 (length vs) @ concat (map canon_value vs))
      (0 + (0 + sum_list (map value_count vs)))"
    by (intro writes_seq writes_bytes writes_container writes_values FArray)
  show ?case
    by (subst writer_value.simps, simp del: writer_values.simps,
        rule writes_cong, rule writes_seq [OF writes_enter body [simplified]]) auto
qed (subst writer_value.simps, simp only: FrameValue.case, rule writes_cong,
    (rule writes_seq writes_enter writes_bytes writes_scalar)+, (auto)[3])+

lemma writes_body:
  "writes (\<lambda>w. writer_body w body) (body_shape_ok body) (canon_body body) (body_value_count body)"
proof (cases body)
  case (Fields vs)
  show ?thesis
    unfolding writer_body_def writer_fields_body_def Fields FrameBody.case
    by (rule writes_cong, (rule writes_seq writes_bytes writes_container writes_values writes_value)+)
      (auto simp: body_shape_ok_def canon_body_def body_value_count_def)
qed (simp_all add: writer_body_def writer_text_body_def body_shape_ok_def canon_body_def
    body_value_count_def writes_bytes writes_cong [OF writes_scalar])

lemma writes_request:
  "writes (\<lambda>w.
     and_then (writer_bytes w CANONICAL_DOMAIN) (\<lambda>w.
     and_then (writer_bytes w [PROTOCOL_VERSION]) (\<lambda>w.
     and_then (writer_bytes w (u16_be (op_code op))) (\<lambda>w.
     and_then
       (case room_id of
          Some room \<Rightarrow> and_then (writer_bytes w [1]) (\<lambda>w. writer_bytes w (u32_be room))
        | None \<Rightarrow> writer_bytes w [0]) (\<lambda>w.
     writer_body w body)))))
   (body_shape_ok body) (canon_request op room_id body) (body_value_count body)"
proof (cases room_id)
  case None
  show ?thesis unfolding None option.case
    by (rule writes_cong, (rule writes_seq writes_bytes writes_body)+) (auto simp: canon_request_def)
next
  case (Some room)
  show ?thesis unfolding Some option.case
    by (rule writes_cong, (rule writes_seq writes_bytes writes_body)+) (auto simp: canon_request_def)
qed

lemma writer_fits_default:
  "writer_fits canonical_writer_default bs n \<longleftrightarrow>
     length bs \<le> CANONICAL_MAX_BYTES \<and> n \<le> CANONICAL_MAX_TOTAL_VALUES"
  by (simp add: writer_fits_def canonical_writer_default_def)

lemma writer_adv_default:
  "writer_adv canonical_writer_default bs n = \<lparr>cw_hasher = bs, cw_bytes = length bs, cw_values = n\<rparr>"
  by (simp add: writer_adv_def canonical_writer_default_def)

lemma canonical_request_writer_Inr:
  "canonical_request_writer op room_id body = Inr w \<longleftrightarrow>
     body_shape_ok body \<and> body_value_count body \<le> CANONICAL_MAX_TOTAL_VALUES
     \<and> length (canon_request op room_id body) \<le> CANONICAL_MAX_BYTES
     \<and> w = \<lparr>cw_hasher = canon_request op room_id body,
         cw_bytes = length (canon_request op room_id body), cw_values = body_value_count body\<rparr>"
  unfolding canonical_request_writer_def writesD [OF writes_request writer_inv_default]
  by (auto simp: writer_fits_default writer_adv_default)

lemma validate_canonical_body_Inr [valid_simps]:
  "validate_canonical_body body = Inr u \<longleftrightarrow> canonical_body_ok body"
  using writesD [OF writes_body [of body] writer_inv_default]
  by (auto simp: validate_canonical_body_def canonical_body_ok_def writer_fits_default)

lemma validate_canonical_text_Inr [valid_simps]:
  "validate_canonical_text text = Inr u \<longleftrightarrow> canonical_body_ok (Text text)"
  using validate_canonical_body_Inr [of "Text text"]
  by (simp add: validate_canonical_body_def validate_canonical_text_def writer_body_def)

lemma validate_canonical_fields_Inr [valid_simps]:
  "validate_canonical_fields vs = Inr u \<longleftrightarrow> canonical_body_ok (Fields vs)"
  using validate_canonical_body_Inr [of "Fields vs"]
  by (simp add: validate_canonical_body_def validate_canonical_fields_def writer_body_def)

section \<open>The canonical encoding is uniquely readable\<close>

lemma be_bytes_append_eq:
  assumes "be_bytes k m @ a = be_bytes k n @ b" "m < 256 ^ k" "n < 256 ^ k"
  shows "m = n \<and> a = b"
proof -
  from assms(1) have "be_bytes k m = be_bytes k n \<and> a = b" by (simp add: append_eq_append_conv)
  then show ?thesis using be_bytes_inj assms(2,3) by blast
qed

lemma canon_scalar_append_eq:
  assumes "canon_scalar t a @ r = canon_scalar t b @ s"
    and "length a \<le> CANONICAL_MAX_SCALAR_BYTES" "length b \<le> CANONICAL_MAX_SCALAR_BYTES"
  shows "a = b \<and> r = s"
proof -
  from assms(1) have "be_bytes 8 (length a) @ (a @ r) = be_bytes 8 (length b) @ (b @ s)"
    by (simp add: canon_scalar_def)
  then have "length a = length b \<and> a @ r = b @ s"
    by (rule be_bytes_append_eq) (use assms(2,3) in \<open>simp_all add: canonical_limits\<close>)
  then show ?thesis by (metis append_eq_append_conv)
qed

definition canon_readable :: "FrameValue \<Rightarrow> bool" where
  "canon_readable v \<longleftrightarrow> (\<forall>d v' r r'. canon_shape_ok d v \<longrightarrow> canon_shape_ok d v' \<longrightarrow>
     canon_value v @ r = canon_value v' @ r' \<longrightarrow> v = v' \<and> r = r')"

lemma canon_readableD:
  "canon_readable v \<Longrightarrow> canon_shape_ok d v \<Longrightarrow> canon_shape_ok d v' \<Longrightarrow>
     canon_value v @ r = canon_value v' @ r' \<Longrightarrow> v = v' \<and> r = r'"
  unfolding canon_readable_def by blast

lemma canon_values_append_eq:
  assumes "length vs = length vs'" "\<forall>v\<in>set vs. canon_readable v"
    and "list_all (canon_shape_ok d) vs" "list_all (canon_shape_ok d) vs'"
    and "concat (map canon_value vs) @ r = concat (map canon_value vs') @ r'"
  shows "vs = vs' \<and> r = r'"
  using assms
proof (induction vs vs' rule: list_induct2)
  case Nil
  then show ?case by simp
next
  case (Cons v vs v' vs')
  from Cons.prems have "v = v' \<and> concat (map canon_value vs) @ r = concat (map canon_value vs') @ r'"
    by (intro canon_readableD [of v d]) simp_all
  then show ?case using Cons by simp
qed

lemma canon_array_append_eq:
  assumes "\<forall>v\<in>set vs. canon_readable v"
    and "length vs \<le> CANONICAL_MAX_CONTAINER_ITEMS" "length vs' \<le> CANONICAL_MAX_CONTAINER_ITEMS"
    and "list_all (canon_shape_ok d) vs" "list_all (canon_shape_ok d) vs'"
    and "be_bytes 8 (length vs) @ concat (map canon_value vs) @ r =
      be_bytes 8 (length vs') @ concat (map canon_value vs') @ r'"
  shows "vs = vs' \<and> r = r'"
proof -
  have "length vs = length vs' \<and> concat (map canon_value vs) @ r = concat (map canon_value vs') @ r'"
    by (rule be_bytes_append_eq [OF assms(6)]) (use assms(2,3) in \<open>simp_all add: canonical_limits\<close>)
  then show ?thesis using canon_values_append_eq assms(1,4,5) by blast
qed

lemma canon_readable: "canon_readable v"
proof (induction v)
  case (FArray vs)
  show ?case unfolding canon_readable_def
  proof (intro allI impI)
    fix d v' r r'
    assume ok: "canon_shape_ok d (FArray vs)" "canon_shape_ok d v'"
      and eq: "canon_value (FArray vs) @ r = canon_value v' @ r'"
    from eq obtain vs' where v': "v' = FArray vs'"
      by (cases v') (auto simp: canon_scalar_def)
    have "vs = vs' \<and> r = r'"
      by (rule canon_array_append_eq [where d = "d + 1"]) (use FArray ok eq v' in auto)
    then show "FArray vs = v' \<and> r = r'" using v' by simp
  qed
next
  case (FString s)
  show ?case unfolding canon_readable_def
  proof (intro allI impI)
    fix d v' r r'
    assume ok: "canon_shape_ok d (FString s)" "canon_shape_ok d v'"
      and eq: "canon_value (FString s) @ r = canon_value v' @ r'"
    from eq obtain s' where v': "v' = FString s'"
      by (cases v') (auto simp: canon_scalar_def)
    have "as_bytes s = as_bytes s' \<and> r = r'"
      by (rule canon_scalar_append_eq [of 4]) (use ok eq v' in auto)
    then show "FString s = v' \<and> r = r'" using v' by simp
  qed
next
  case (FBytes bs)
  show ?case unfolding canon_readable_def
  proof (intro allI impI)
    fix d v' r r'
    assume ok: "canon_shape_ok d (FBytes bs)" "canon_shape_ok d v'"
      and eq: "canon_value (FBytes bs) @ r = canon_value v' @ r'"
    from eq obtain bs' where v': "v' = FBytes bs'"
      by (cases v') (auto simp: canon_scalar_def)
    have "bs = bs' \<and> r = r'"
      by (rule canon_scalar_append_eq [of 5]) (use ok eq v' in auto)
    then show "FBytes bs = v' \<and> r = r'" using v' by simp
  qed
next
  case FNil
  have "v' = FNil" if "canon_value FNil @ r = canon_value v' @ r'" for v' r r'
    using that by (cases v') (auto simp: canon_scalar_def)
  then show ?case by (fastforce simp: canon_readable_def)
next
  case (FBool b)
  have "v' = FBool b" if "canon_value (FBool b) @ r = canon_value v' @ r'" for v' r r'
    using that by (cases v') (auto simp: canon_scalar_def split: if_splits)
  then show ?case by (fastforce simp: canon_readable_def)
next
  case (FU64 x)
  have "v' = FU64 x" if "canon_value (FU64 x) @ r = canon_value v' @ r'" for v' r r'
    using that by (cases v') (auto simp: canon_scalar_def append_eq_append_conv)
  then show ?case by (fastforce simp: canon_readable_def)
next
  case (FI64 x)
  have "v' = FI64 x" if "canon_value (FI64 x) @ r = canon_value v' @ r'" for v' r r'
    using that by (cases v') (auto simp: canon_scalar_def append_eq_append_conv)
  then show ?case by (fastforce simp: canon_readable_def)
qed

lemma canon_body_inj:
  assumes "body_shape_ok a" "body_shape_ok b" "canon_body a = canon_body b"
  shows "a = b"
proof (cases a)
  case Empty
  then show ?thesis using assms by (cases b) (auto simp: canon_body_def canon_scalar_def)
next
  case (Text s)
  then obtain t where b: "b = Text t"
    using assms by (cases b) (auto simp: canon_body_def canon_scalar_def)
  have "as_bytes s = as_bytes t \<and> ([] :: bytes) = []"
    by (rule canon_scalar_append_eq [of 1])
      (use assms Text b in \<open>auto simp: canon_body_def body_shape_ok_def\<close>)
  then show ?thesis using Text b by simp
next
  case (Fields vs)
  then obtain vs' where b: "b = Fields vs'"
    using assms by (cases b) (auto simp: canon_body_def canon_scalar_def)
  have "vs = vs' \<and> ([] :: bytes) = []"
    by (rule canon_array_append_eq [where d = 1])
      (use assms Fields b canon_readable in \<open>auto simp: canon_body_def body_shape_ok_def\<close>)
  then show ?thesis using Fields b by simp
qed

lemma canon_request_inj:
  assumes "body_shape_ok a" "body_shape_ok b"
    and "canon_request op room a = canon_request op' room' b"
  shows "op = op' \<and> room = room' \<and> a = b"
proof -
  let ?room = "\<lambda>room :: RoomId option. case room of Some r \<Rightarrow> 1 # u32_be r | None \<Rightarrow> [0]"
  from assms(3) have "u16_be (op_code op) @ ?room room @ canon_body a =
      u16_be (op_code op') @ ?room room' @ canon_body b"
    by (simp add: canon_request_def)
  then have "u16_be (op_code op) = u16_be (op_code op')"
    and rest: "?room room @ canon_body a = ?room room' @ canon_body b"
    by (simp_all add: append_eq_append_conv)
  then have "op = op'" by (simp add: op_code_inj)
  moreover have "room = room' \<and> canon_body a = canon_body b"
    using rest by (cases room; cases room') (auto simp: append_eq_append_conv)
  ultimately show ?thesis using canon_body_inj assms(1,2) by blast
qed

section \<open>The envelope contract\<close>

definition envelope_valid :: "DurableMutationEnvelope \<Rightarrow> bool" where
  "envelope_valid e \<longleftrightarrow> length (de_mutation_id e) = MUTATION_ID_BYTES
     \<and> length (de_request_hash e) = REQUEST_HASH_BYTES \<and> canonical_body_ok (de_body e)"

lemma envelope_into_Inr:
  "envelope_into_frame_body e = Inr b \<longleftrightarrow> canonical_body_ok (de_body e)
     \<and> b = Fields [FString DURABLE_MUTATION_ENVELOPE_TAG, FBytes (de_mutation_id e),
         FBytes (de_request_hash e), FU64 (fst (legacy_body_parts (de_body e))),
         snd (legacy_body_parts (de_body e))]"
  by (auto simp: envelope_into_frame_body_def valid_simps split: prod.splits)

lemma envelope_legacy_body_Inr:
  "envelope_legacy_body kind v = Inr body \<longleftrightarrow>
     canonical_body_ok body \<and> kind = FU64 (fst (legacy_body_parts body))
     \<and> v = snd (legacy_body_parts body)"
proof -
  have "canonical_body_ok Empty"
    by (simp add: canonical_body_ok_def body_shape_ok_def body_value_count_def canon_body_def
        canonical_limits)
  then show ?thesis
    by (cases kind; cases v; cases body)
      (auto simp: envelope_legacy_body_def legacy_body_parts_def valid_simps Let_def split: if_splits)
qed

lemma envelope_from_Inr:
  "envelope_from_frame_body b = Inr e \<longleftrightarrow> envelope_valid e \<and> envelope_into_frame_body e = Inr b"
proof
  assume "envelope_from_frame_body b = Inr e"
  then show "envelope_valid e \<and> envelope_into_frame_body e = Inr b"
    by (auto simp: envelope_from_frame_body_def envelope_into_Inr envelope_valid_def
        envelope_legacy_body_Inr MUTATION_ID_BYTES_def REQUEST_HASH_BYTES_def
        split: FrameBody.splits list.splits if_splits FrameValue.splits)
next
  assume "envelope_valid e \<and> envelope_into_frame_body e = Inr b"
  then show "envelope_from_frame_body b = Inr e"
    by (auto simp: envelope_from_frame_body_def envelope_into_Inr envelope_valid_def
        envelope_legacy_body_Inr MUTATION_ID_BYTES_def REQUEST_HASH_BYTES_def)
qed

interpretation envelope: strict_codec envelope_into_frame_body envelope_from_frame_body envelope_valid
  by unfold_locales (auto simp: envelope_from_Inr envelope_into_Inr envelope_valid_def)

section \<open>Properties\<close>

text \<open>
  C2: the bounded writer computes exactly the hash of the canonical encoding of the request, and
  it succeeds exactly for the requests within the five limits (depth, container, scalar, total
  value and byte limits): no accepted request is truncated and none within the limits is refused.
\<close>

theorem canonical_request_hash_spec:
  "canonical_mutation_request_hash sha256 op room_id body = Inr h \<longleftrightarrow>
     body_shape_ok body \<and> body_value_count body \<le> CANONICAL_MAX_TOTAL_VALUES
     \<and> length (canon_request op room_id body) \<le> CANONICAL_MAX_BYTES
     \<and> h = sha256 (canon_request op room_id body)"
  by (auto simp: canonical_mutation_request_hash_def canonical_request_writer_Inr writer_finish_def)

text \<open>
  C3: the request hash binds the whole request. Two requests with one hash are the same
  operation on the same room with the same body, unless their two canonical streams are
  themselves a collision of SHA-256.
\<close>

theorem canonical_request_hash_binding:
  assumes "canonical_mutation_request_hash sha256 op room_id body = Inr h"
    and "canonical_mutation_request_hash sha256 op' room_id' body' = Inr h"
  shows "(op = op' \<and> room_id = room_id' \<and> body = body')
     \<or> (canon_request op room_id body \<noteq> canon_request op' room_id' body'
        \<and> sha256 (canon_request op room_id body) = sha256 (canon_request op' room_id' body'))"
proof -
  from assms have ok: "body_shape_ok body" "body_shape_ok body'"
    and h: "h = sha256 (canon_request op room_id body)" "h = sha256 (canon_request op' room_id' body')"
    by (auto simp: canonical_mutation_request_hash_def canonical_request_writer_Inr writer_finish_def)
  show ?thesis
  proof (cases "canon_request op room_id body = canon_request op' room_id' body'")
    case True
    then show ?thesis using canon_request_inj [OF ok] by blast
  next
    case False
    then show ?thesis using h by simp
  qed
qed

theorem canonical_request_hash_binding_witness:
  "canonical_mutation_request_hash (\<lambda>bs. bs) PartRoom (Some 7) Empty
     = Inr (canon_request PartRoom (Some 7) Empty)
   \<and> ((PartRoom = PartRoom \<and> Some 7 = Some (7 :: RoomId) \<and> Empty = Empty)
     \<or> (canon_request PartRoom (Some 7) Empty \<noteq> canon_request PartRoom (Some 7) Empty
        \<and> canon_request PartRoom (Some 7) Empty = canon_request PartRoom (Some 7) Empty))"
proof -
  have h: "canonical_mutation_request_hash (\<lambda>bs. bs) PartRoom (Some 7) Empty
     = Inr (canon_request PartRoom (Some 7) Empty)"
    by (simp add: canonical_mutation_request_hash_def canonical_request_writer_Inr writer_finish_def
        body_shape_ok_def body_value_count_def canon_request_def canon_body_def CANONICAL_DOMAIN_def
        canonical_limits)
  show ?thesis using h canonical_request_hash_binding [OF h h] by blast
qed

text \<open>
  the envelope codec is an exact inverse pair on the valid envelopes (a 16-byte mutation id,
  a 32-byte hash and a body within the canonical limits): a body is accepted exactly when it is
  the encoding of the envelope it decodes to.
\<close>

theorem envelope_codec_exact:
  "envelope_from_frame_body b = Inr e \<longleftrightarrow> envelope_valid e \<and> envelope_into_frame_body e = Inr b"
  by (rule envelope.dec_iff)

end
