(* ===== verification/Rich_Message.thy ===== *)
theory Rich_Message
  imports Codec_Contract
begin

text \<open>
  Replies and mentions (\<^verbatim>\<open>omenchat-protocol/src/rich_message.rs\<close>): the message body of the
  reply/mention extension and the two fields appended to a room event. Mention lists are
  canonical, that is strictly increasing and free of the user id zero.
\<close>

section \<open>Constants, errors and data\<close>

definition REPLY_MENTIONS_CAPABILITY :: string where
  "REPLY_MENTIONS_CAPABILITY = ''reply-mentions-v1''"

definition REPLY_MENTIONS_BODY_TAG :: string where
  "REPLY_MENTIONS_BODY_TAG = ''reply-mentions-v1''"

definition RICH_MESSAGE_BODY_MAX_BYTES :: nat where "RICH_MESSAGE_BODY_MAX_BYTES = 512 * 1024"
definition RICH_MESSAGE_MAX_MENTIONS :: nat where "RICH_MESSAGE_MAX_MENTIONS = 16"
definition LEGACY_ROOM_EVENT_FIELDS :: nat where "LEGACY_ROOM_EVENT_FIELDS = 6"
definition RICH_ROOM_EVENT_FIELDS :: nat where "RICH_ROOM_EVENT_FIELDS = 8"

datatype RichMessageError =
    InvalidRequestShape | InvalidRequestTag | EmptyBody | BodyTooLarge | InvalidReplyReference
  | InvalidMentionShape | InvalidMentionId | TooManyMentions | NonCanonicalMentions
  | EmptyMetadata | InvalidEventShape

record ReplyReference =
  rr_room_id :: RoomId
  rr_event_id :: EventId

record RichMessageBody =
  rm_body :: string
  rm_reply_to :: "ReplyReference option"
  rm_mentioned_user_ids :: "UserId list"

record RichMessageEventMetadata =
  em_reply_to_event_id :: "EventId option"
  em_mentioned_user_ids :: "UserId list"

section \<open>Validation\<close>

definition rich_validate_body :: "string \<Rightarrow> RichMessageError + unit" where
  "rich_validate_body body =
     (if trim_is_empty body then Inl EmptyBody
      else if length body > RICH_MESSAGE_BODY_MAX_BYTES then Inl BodyTooLarge
      else Inr ())"

definition validate_metadata_present :: "bool \<Rightarrow> UserId list \<Rightarrow> RichMessageError + unit" where
  "validate_metadata_present has_reply mentions =
     (if \<not> has_reply \<and> mentions = [] then Inl EmptyMetadata else Inr ())"

definition validate_mentions :: "UserId list \<Rightarrow> RichMessageError + unit" where
  "validate_mentions mentions =
     (if length mentions > RICH_MESSAGE_MAX_MENTIONS then Inl TooManyMentions
      else if 0 \<in> set mentions then Inl InvalidMentionId
      else if \<not> windows_ok (\<lambda>a b. a < b) mentions then Inl NonCanonicalMentions
      else Inr ())"

definition validate_event_metadata :: "RichMessageEventMetadata \<Rightarrow> RichMessageError + unit" where
  "validate_event_metadata metadata =
     (if em_reply_to_event_id metadata = Some 0 then Inl InvalidReplyReference
      else and_then (validate_metadata_present (em_reply_to_event_id metadata \<noteq> None)
               (em_mentioned_user_ids metadata)) (\<lambda>_.
           validate_mentions (em_mentioned_user_ids metadata)))"

section \<open>Encoding and parsing\<close>

definition mentions_value :: "UserId list \<Rightarrow> FrameValue" where
  "mentions_value mentions = FArray (map (\<lambda>user_id. FU64 (ucast user_id)) mentions)"

definition parse_mention :: "FrameValue \<Rightarrow> RichMessageError + UserId" where
  "parse_mention v =
     (case v of
        FU64 user_id \<Rightarrow> ok_or InvalidMentionId (u32_try_from user_id)
      | _ \<Rightarrow> Inl InvalidMentionShape)"

definition parse_mentions :: "FrameValue \<Rightarrow> RichMessageError + UserId list" where
  "parse_mentions v =
     (case v of
        FArray vs \<Rightarrow>
          if length vs > RICH_MESSAGE_MAX_MENTIONS then Inl TooManyMentions
          else and_then (collect_results parse_mention vs) (\<lambda>mentions.
               and_then (validate_mentions mentions) (\<lambda>_. Inr mentions))
      | _ \<Rightarrow> Inl InvalidMentionShape)"

definition parse_reply_reference :: "FrameValue \<Rightarrow> RichMessageError + ReplyReference option" where
  "parse_reply_reference v =
     (case v of
        FNil \<Rightarrow> Inr None
      | FArray [FU64 room_id, FU64 event_id] \<Rightarrow>
          and_then (ok_or InvalidReplyReference (u32_try_from room_id)) (\<lambda>room_id.
            if room_id = 0 \<or> event_id = 0 then Inl InvalidReplyReference
            else Inr (Some \<lparr>rr_room_id = room_id, rr_event_id = event_id\<rparr>))
      | _ \<Rightarrow> Inl InvalidReplyReference)"

definition reply_value :: "ReplyReference option \<Rightarrow> FrameValue" where
  "reply_value r =
     (case r of
        None \<Rightarrow> FNil
      | Some reference \<Rightarrow> FArray [FU64 (ucast (rr_room_id reference)), FU64 (rr_event_id reference)])"

definition rich_message_into_frame_body :: "RichMessageBody \<Rightarrow> RichMessageError + FrameBody" where
  "rich_message_into_frame_body m =
     and_then (rich_validate_body (rm_body m)) (\<lambda>_.
     and_then (validate_metadata_present (rm_reply_to m \<noteq> None) (rm_mentioned_user_ids m)) (\<lambda>_.
     and_then (validate_mentions (rm_mentioned_user_ids m)) (\<lambda>_.
       let reply_to = reply_value (rm_reply_to m) in
       if (case rm_reply_to m of
             Some reference \<Rightarrow> rr_room_id reference = 0 \<or> rr_event_id reference = 0
           | None \<Rightarrow> False)
       then Inl InvalidReplyReference
       else Inr (Fields [FString (rm_body m), FString REPLY_MENTIONS_BODY_TAG, reply_to,
         mentions_value (rm_mentioned_user_ids m)]))))"

definition rich_message_from_frame_body :: "FrameBody \<Rightarrow> RichMessageError + RichMessageBody" where
  "rich_message_from_frame_body body =
     (case body of
        Fields [FString message, FString tag, reply, mentions] \<Rightarrow>
          if tag \<noteq> REPLY_MENTIONS_BODY_TAG then Inl InvalidRequestTag
          else
            and_then (rich_validate_body message) (\<lambda>_.
            and_then (parse_reply_reference reply) (\<lambda>reply_to.
            and_then (parse_mentions mentions) (\<lambda>mentioned_user_ids.
            and_then (validate_metadata_present (reply_to \<noteq> None) mentioned_user_ids) (\<lambda>_.
            Inr \<lparr>rm_body = message, rm_reply_to = reply_to,
              rm_mentioned_user_ids = mentioned_user_ids\<rparr>))))
      | _ \<Rightarrow> Inl InvalidRequestShape)"

definition append_rich_message_event_metadata ::
    "FrameValue list \<Rightarrow> RichMessageEventMetadata \<Rightarrow> RichMessageError + FrameValue list" where
  "append_rich_message_event_metadata fs metadata =
     (if length fs \<noteq> LEGACY_ROOM_EVENT_FIELDS then Inl InvalidEventShape
      else and_then (validate_event_metadata metadata) (\<lambda>_.
        Inr (fs @ [case em_reply_to_event_id metadata of Some e \<Rightarrow> FU64 e | None \<Rightarrow> FNil,
          mentions_value (em_mentioned_user_ids metadata)])))"

definition parse_rich_message_event_metadata ::
    "FrameValue list \<Rightarrow> RichMessageError + RichMessageEventMetadata option" where
  "parse_rich_message_event_metadata fs =
     (if length fs = LEGACY_ROOM_EVENT_FIELDS then Inr None
      else if length fs \<noteq> RICH_ROOM_EVENT_FIELDS then Inl InvalidEventShape
      else
        and_then
          (case fs ! LEGACY_ROOM_EVENT_FIELDS of
             FNil \<Rightarrow> Inr None
           | FU64 event_id \<Rightarrow> if event_id = 0 then Inl InvalidReplyReference else Inr (Some event_id)
           | _ \<Rightarrow> Inl InvalidEventShape) (\<lambda>reply_to_event_id.
        and_then (parse_mentions (fs ! (LEGACY_ROOM_EVENT_FIELDS + 1))) (\<lambda>mentioned_user_ids.
          let metadata = \<lparr>em_reply_to_event_id = reply_to_event_id,
            em_mentioned_user_ids = mentioned_user_ids\<rparr> in
          and_then (validate_event_metadata metadata) (\<lambda>_. Inr (Some metadata)))))"

section \<open>Valid messages\<close>

definition mentions_valid :: "UserId list \<Rightarrow> bool" where
  "mentions_valid mentions \<longleftrightarrow>
     length mentions \<le> 16 \<and> sorted_wrt (<) mentions \<and> 0 \<notin> set mentions"

definition reply_valid :: "ReplyReference option \<Rightarrow> bool" where
  "reply_valid r \<longleftrightarrow> (\<forall>ref. r = Some ref \<longrightarrow> rr_room_id ref \<noteq> 0 \<and> rr_event_id ref \<noteq> 0)"

definition rich_message_valid :: "RichMessageBody \<Rightarrow> bool" where
  "rich_message_valid m \<longleftrightarrow>
     \<not> trim_is_empty (rm_body m) \<and> length (rm_body m) \<le> 524288
     \<and> reply_valid (rm_reply_to m) \<and> mentions_valid (rm_mentioned_user_ids m)
     \<and> (rm_reply_to m \<noteq> None \<or> rm_mentioned_user_ids m \<noteq> [])"

definition event_metadata_valid :: "RichMessageEventMetadata \<Rightarrow> bool" where
  "event_metadata_valid m \<longleftrightarrow>
     em_reply_to_event_id m \<noteq> Some 0 \<and> mentions_valid (em_mentioned_user_ids m)
     \<and> (em_reply_to_event_id m \<noteq> None \<or> em_mentioned_user_ids m \<noteq> [])"

lemma rich_validate_Inr [valid_simps]:
  "rich_validate_body body = Inr u \<longleftrightarrow> \<not> trim_is_empty body \<and> length body \<le> 524288"
  "validate_metadata_present has_reply mentions = Inr u \<longleftrightarrow> has_reply \<or> mentions \<noteq> []"
  "validate_mentions mentions = Inr u \<longleftrightarrow> mentions_valid mentions"
  "validate_event_metadata m = Inr u \<longleftrightarrow> event_metadata_valid m"
  by (auto simp: rich_validate_body_def validate_metadata_present_def validate_mentions_def
      mentions_valid_def validate_event_metadata_def event_metadata_valid_def
      RICH_MESSAGE_BODY_MAX_BYTES_def RICH_MESSAGE_MAX_MENTIONS_def)

lemma parse_mention_Inr: "parse_mention v = Inr user_id \<longleftrightarrow> v = FU64 (ucast user_id)"
  by (cases v) (auto simp: parse_mention_def u32_try_from_eq_Some)

lemma parse_mentions_Inr:
  "parse_mentions v = Inr mentions \<longleftrightarrow> mentions_valid mentions \<and> v = mentions_value mentions"
proof (cases v)
  case (FArray vs)
  have "collect_results parse_mention vs = Inr mentions
      \<longleftrightarrow> vs = map (\<lambda>user_id. FU64 (ucast user_id)) mentions"
    using collect_results_exact [of parse_mention "\<lambda>_. True"] by (simp add: parse_mention_Inr)
  then show ?thesis using FArray
    by (auto simp: parse_mentions_def valid_simps mentions_value_def mentions_valid_def
        RICH_MESSAGE_MAX_MENTIONS_def)
qed (auto simp: parse_mentions_def mentions_value_def)

lemma parse_reply_reference_Inr:
  "parse_reply_reference v = Inr r \<longleftrightarrow> reply_valid r \<and> v = reply_value r"
proof
  assume "parse_reply_reference v = Inr r"
  then show "reply_valid r \<and> v = reply_value r"
    by (auto simp: parse_reply_reference_def reply_valid_def reply_value_def u32_try_from_eq_Some
        split: FrameValue.split_asm list.split_asm if_split_asm)
next
  assume "reply_valid r \<and> v = reply_value r"
  then show "parse_reply_reference v = Inr r"
    by (cases r) (auto simp: parse_reply_reference_def reply_valid_def reply_value_def)
qed

lemma parse_values [simp]:
  "mentions_valid mentions \<Longrightarrow> parse_mentions (mentions_value mentions) = Inr mentions"
  "reply_valid r \<Longrightarrow> parse_reply_reference (reply_value r) = Inr r"
  by (simp_all add: parse_mentions_Inr parse_reply_reference_Inr)

lemma rich_message_into_Inr:
  "rich_message_into_frame_body m = Inr b \<longleftrightarrow> rich_message_valid m
     \<and> b = Fields [FString (rm_body m), FString REPLY_MENTIONS_BODY_TAG,
         reply_value (rm_reply_to m), mentions_value (rm_mentioned_user_ids m)]"
  by (auto simp: rich_message_into_frame_body_def rich_message_valid_def reply_valid_def valid_simps
      split: option.splits)

lemma rich_message_from_Inr:
  "rich_message_from_frame_body b = Inr m \<longleftrightarrow>
     rich_message_valid m \<and> rich_message_into_frame_body m = Inr b"
proof
  assume "rich_message_from_frame_body b = Inr m"
  then show "rich_message_valid m \<and> rich_message_into_frame_body m = Inr b"
    by (auto simp: rich_message_from_frame_body_def rich_message_into_Inr rich_message_valid_def
        valid_simps parse_mentions_Inr parse_reply_reference_Inr
        split: FrameBody.splits list.splits FrameValue.splits if_splits)
next
  assume "rich_message_valid m \<and> rich_message_into_frame_body m = Inr b"
  then show "rich_message_from_frame_body b = Inr m"
    by (auto simp: rich_message_from_frame_body_def rich_message_into_Inr rich_message_valid_def
        valid_simps)
qed

interpretation rich: strict_codec rich_message_into_frame_body rich_message_from_frame_body
    rich_message_valid
  by unfold_locales (auto simp: rich_message_from_Inr rich_message_into_Inr)

lemma append_event_metadata_Inr:
  "append_rich_message_event_metadata fs m = Inr fs' \<longleftrightarrow> length fs = 6 \<and> event_metadata_valid m
     \<and> fs' = fs @ [case em_reply_to_event_id m of Some e \<Rightarrow> FU64 e | None \<Rightarrow> FNil,
         mentions_value (em_mentioned_user_ids m)]"
  by (auto simp: append_rich_message_event_metadata_def valid_simps LEGACY_ROOM_EVENT_FIELDS_def)

lemma length_8_split:
  assumes "length fs = 8"
  obtains gs a b where "fs = gs @ [a, b]" "length gs = 6"
proof
  show "fs = take 6 fs @ [fs ! 6, fs ! 7]"
    using assms id_take_nth_drop [of 6 fs] id_take_nth_drop [of 7 fs]
    by (simp add: list_eq_iff_nth_eq nth_append less_Suc_eq numeral_eq_Suc)
qed (use assms in simp)

lemma parse_event_metadata_Inr:
  "parse_rich_message_event_metadata fs = Inr (Some m) \<longleftrightarrow>
     (\<exists>gs. append_rich_message_event_metadata gs m = Inr fs)"
proof
  assume parse: "parse_rich_message_event_metadata fs = Inr (Some m)"
  then have "length fs = 8"
    by (auto simp: parse_rich_message_event_metadata_def RICH_ROOM_EVENT_FIELDS_def split: if_splits)
  then obtain gs a b where fs: "fs = gs @ [a, b]" "length gs = 6" by (rule length_8_split)
  then have "append_rich_message_event_metadata gs m = Inr fs" using parse
    by (auto simp: parse_rich_message_event_metadata_def append_event_metadata_Inr nth_append
        LEGACY_ROOM_EVENT_FIELDS_def RICH_ROOM_EVENT_FIELDS_def valid_simps parse_mentions_Inr
        Let_def split: FrameValue.splits if_splits option.splits)
  then show "\<exists>gs. append_rich_message_event_metadata gs m = Inr fs" ..
next
  assume "\<exists>gs. append_rich_message_event_metadata gs m = Inr fs"
  then show "parse_rich_message_event_metadata fs = Inr (Some m)"
    by (auto simp: parse_rich_message_event_metadata_def append_event_metadata_Inr nth_append
        LEGACY_ROOM_EVENT_FIELDS_def RICH_ROOM_EVENT_FIELDS_def valid_simps
        event_metadata_valid_def Let_def split: option.splits)
qed

section \<open>Properties\<close>

text \<open>
  the reply/mention body codec accepts a frame body exactly when it is the encoding of the
  message it decodes to, and every accepted message is valid: a non-blank body of at most
  512 KiB, a reply reference without a zero id, at most sixteen strictly increasing non-zero
  mention ids, and a reply or at least one mention.
\<close>

theorem rich_message_codec_exact:
  "rich_message_from_frame_body b = Inr m \<longleftrightarrow>
     rich_message_valid m \<and> rich_message_into_frame_body m = Inr b"
  by (rule rich.dec_iff)

text \<open>
  a room event carries reply/mention metadata exactly when it is a six-field legacy event
  with that metadata appended; the six-field event itself parses as one without metadata, so a
  legacy reader and a rich reader agree on the first six fields.
\<close>

theorem rich_event_metadata_exact:
  "(parse_rich_message_event_metadata fs = Inr (Some m) \<longleftrightarrow>
      (\<exists>gs. append_rich_message_event_metadata gs m = Inr fs))
   \<and> (parse_rich_message_event_metadata fs = Inr None \<longleftrightarrow> length fs = LEGACY_ROOM_EVENT_FIELDS)"
proof -
  have "parse_rich_message_event_metadata fs = Inr None \<longleftrightarrow> length fs = LEGACY_ROOM_EVENT_FIELDS"
    by (auto simp: parse_rich_message_event_metadata_def Let_def split: if_splits)
  then show ?thesis by (simp add: parse_event_metadata_Inr)
qed

end
