(* ===== verification/Nickname_Colours.thy ===== *)
theory Nickname_Colours
  imports Durable
begin

text \<open>
  Nickname colours (\<^verbatim>\<open>omenchat-protocol/src/nickname_colours.rs\<close>): the 24-bit colour type and
  the bodies of the set request, its acknowledgement and the event that announces a change.
\<close>

section \<open>Colours\<close>

definition NICKNAME_COLOURS_CAPABILITY :: string where
  "NICKNAME_COLOURS_CAPABILITY = ''nickname-colours-v1''"

definition RGB24_MAX :: u32 where "RGB24_MAX = 0x00FFFFFF"

datatype NicknameColourError =
    InvalidColourType | RgbOverflow | InvalidSetShape | InvalidAckShape | InvalidEventShape
  | InvalidUserId | ColourDurable DurableMutationError

type_synonym Rgb24 = u32

definition rgb24_new :: "u32 \<Rightarrow> NicknameColourError + Rgb24" where
  "rgb24_new v = (if v \<le> RGB24_MAX then Inr v else Inl RgbOverflow)"

definition rgb24_try_from :: "u64 \<Rightarrow> NicknameColourError + Rgb24" where
  "rgb24_try_from v = and_then (ok_or RgbOverflow (u32_try_from v)) rgb24_new"

definition colour_value :: "Rgb24 option \<Rightarrow> FrameValue" where
  "colour_value colour = (case colour of Some c \<Rightarrow> FU64 (ucast c) | None \<Rightarrow> FNil)"

definition parse_colour :: "FrameValue \<Rightarrow> NicknameColourError + Rgb24 option" where
  "parse_colour v =
     (case v of
        FNil \<Rightarrow> Inr None
      | FU64 x \<Rightarrow> and_then (rgb24_try_from x) (\<lambda>c. Inr (Some c))
      | _ \<Rightarrow> Inl InvalidColourType)"

section \<open>Set, acknowledgement and event\<close>

record NicknameColourSet =
  ncs_colour :: "Rgb24 option"

record NicknameColourAck =
  nca_mutation_id :: bytes
  nca_profile_revision :: Revision
  nca_colour :: "Rgb24 option"

record NicknameColourEvent =
  nce_user_id :: UserId
  nce_profile_revision :: Revision
  nce_colour :: "Rgb24 option"

definition colour_set_into_frame_body :: "NicknameColourSet \<Rightarrow> FrameBody" where
  "colour_set_into_frame_body m = Fields [colour_value (ncs_colour m)]"

definition colour_set_from_frame_body :: "FrameBody \<Rightarrow> NicknameColourError + NicknameColourSet" where
  "colour_set_from_frame_body body =
     (case body of
        Fields [colour] \<Rightarrow> and_then (parse_colour colour) (\<lambda>c. Inr \<lparr>ncs_colour = c\<rparr>)
      | _ \<Rightarrow> Inl InvalidSetShape)"

definition colour_ack_into_frame_body :: "NicknameColourAck \<Rightarrow> FrameBody" where
  "colour_ack_into_frame_body m =
     Fields [FBytes (nca_mutation_id m), FU64 (nca_profile_revision m), colour_value (nca_colour m)]"

definition colour_ack_from_frame_body :: "FrameBody \<Rightarrow> NicknameColourError + NicknameColourAck" where
  "colour_ack_from_frame_body body =
     (case body of
        Fields [FBytes mutation_id, FU64 profile_revision, colour] \<Rightarrow>
          and_then (map_err ColourDurable (mutation_id_try_from mutation_id)) (\<lambda>i.
          and_then (parse_colour colour) (\<lambda>c.
          Inr \<lparr>nca_mutation_id = i, nca_profile_revision = profile_revision, nca_colour = c\<rparr>))
      | _ \<Rightarrow> Inl InvalidAckShape)"

definition colour_event_into_frame_body :: "NicknameColourEvent \<Rightarrow> NicknameColourError + FrameBody" where
  "colour_event_into_frame_body m =
     (if nce_user_id m = 0 then Inl InvalidUserId
      else Inr (Fields [FU64 (ucast (nce_user_id m)), FU64 (nce_profile_revision m),
        colour_value (nce_colour m)]))"

definition colour_event_from_frame_body :: "FrameBody \<Rightarrow> NicknameColourError + NicknameColourEvent" where
  "colour_event_from_frame_body body =
     (case body of
        Fields [FU64 user_id, FU64 profile_revision, colour] \<Rightarrow>
          and_then (ok_or InvalidUserId (u32_try_from user_id)) (\<lambda>user_id.
          if user_id = 0 then Inl InvalidUserId
          else and_then (parse_colour colour) (\<lambda>c.
            Inr \<lparr>nce_user_id = user_id, nce_profile_revision = profile_revision, nce_colour = c\<rparr>))
      | _ \<Rightarrow> Inl InvalidEventShape)"

section \<open>The three codecs\<close>

definition colour_valid :: "Rgb24 option \<Rightarrow> bool" where
  "colour_valid colour \<longleftrightarrow> (\<forall>c. colour = Some c \<longrightarrow> c \<le> RGB24_MAX)"

definition colour_ack_valid :: "NicknameColourAck \<Rightarrow> bool" where
  "colour_ack_valid m \<longleftrightarrow> length (nca_mutation_id m) = 16 \<and> colour_valid (nca_colour m)"

definition colour_event_valid :: "NicknameColourEvent \<Rightarrow> bool" where
  "colour_event_valid m \<longleftrightarrow> nce_user_id m \<noteq> 0 \<and> colour_valid (nce_colour m)"

lemma rgb24_try_from_Inr: "rgb24_try_from v = Inr c \<longleftrightarrow> c \<le> RGB24_MAX \<and> v = ucast c"
  by (auto simp: rgb24_try_from_def rgb24_new_def u32_try_from_eq_Some split: if_splits)

lemma parse_colour_Inr: "parse_colour v = Inr c \<longleftrightarrow> colour_valid c \<and> v = colour_value c"
  by (cases v; cases c)
    (auto simp: parse_colour_def colour_value_def colour_valid_def rgb24_try_from_Inr)

lemma parse_colour_value [simp]: "colour_valid c \<Longrightarrow> parse_colour (colour_value c) = Inr c"
  by (simp add: parse_colour_Inr)

lemma colour_set_from_Inr:
  "colour_set_from_frame_body b = Inr m \<longleftrightarrow>
     colour_valid (ncs_colour m) \<and> b = colour_set_into_frame_body m"
proof
  assume "colour_set_from_frame_body b = Inr m"
  then show "colour_valid (ncs_colour m) \<and> b = colour_set_into_frame_body m"
    by (auto simp: colour_set_from_frame_body_def colour_set_into_frame_body_def parse_colour_Inr
        split: FrameBody.split_asm list.split_asm)
qed (auto simp: colour_set_from_frame_body_def colour_set_into_frame_body_def)

lemma colour_ack_from_Inr:
  "colour_ack_from_frame_body b = Inr m \<longleftrightarrow>
     colour_ack_valid m \<and> b = colour_ack_into_frame_body m"
proof
  assume "colour_ack_from_frame_body b = Inr m"
  then show "colour_ack_valid m \<and> b = colour_ack_into_frame_body m"
    by (auto simp: colour_ack_from_frame_body_def colour_ack_into_frame_body_def parse_colour_Inr
        colour_ack_valid_def split: FrameBody.split_asm list.split_asm FrameValue.split_asm)
qed (auto simp: colour_ack_from_frame_body_def colour_ack_into_frame_body_def colour_ack_valid_def)

lemma colour_event_into_Inr:
  "colour_event_into_frame_body m = Inr b \<longleftrightarrow> nce_user_id m \<noteq> 0
     \<and> b = Fields [FU64 (ucast (nce_user_id m)), FU64 (nce_profile_revision m),
         colour_value (nce_colour m)]"
  by (auto simp: colour_event_into_frame_body_def)

lemma colour_event_from_Inr:
  "colour_event_from_frame_body b = Inr m \<longleftrightarrow>
     colour_event_valid m \<and> colour_event_into_frame_body m = Inr b"
proof
  assume "colour_event_from_frame_body b = Inr m"
  then show "colour_event_valid m \<and> colour_event_into_frame_body m = Inr b"
    by (auto simp: colour_event_from_frame_body_def colour_event_into_Inr parse_colour_Inr
        colour_event_valid_def u32_try_from_eq_Some
        split: FrameBody.split_asm list.split_asm FrameValue.split_asm if_split_asm)
qed (auto simp: colour_event_from_frame_body_def colour_event_into_Inr colour_event_valid_def)

interpretation colour_set: strict_codec "\<lambda>m. Inr (colour_set_into_frame_body m)"
    colour_set_from_frame_body "\<lambda>m. colour_valid (ncs_colour m)"
  by unfold_locales (auto simp: colour_set_from_Inr)

interpretation colour_ack: strict_codec "\<lambda>m. Inr (colour_ack_into_frame_body m)"
    colour_ack_from_frame_body colour_ack_valid
  by unfold_locales (auto simp: colour_ack_from_Inr)

interpretation colour_event: strict_codec colour_event_into_frame_body
    colour_event_from_frame_body colour_event_valid
  by unfold_locales (auto simp: colour_event_from_Inr colour_event_into_Inr colour_event_valid_def)

section \<open>Properties\<close>

text \<open>
  the three nickname-colour codecs are exact: each body is accepted exactly when it encodes
  the message it decodes to, and an accepted colour never exceeds 0xFFFFFF, an accepted mutation
  id has sixteen bytes and an announced user id is not zero.
\<close>

theorem nickname_colour_codecs_exact:
  "(colour_set_from_frame_body b = Inr s \<longleftrightarrow>
      colour_valid (ncs_colour s) \<and> Inr (colour_set_into_frame_body s) = (Inr b :: unit + FrameBody))
   \<and> (colour_ack_from_frame_body b = Inr a \<longleftrightarrow>
      colour_ack_valid a \<and> Inr (colour_ack_into_frame_body a) = (Inr b :: unit + FrameBody))
   \<and> (colour_event_from_frame_body b = Inr e \<longleftrightarrow>
      colour_event_valid e \<and> colour_event_into_frame_body e = Inr b)"
  using colour_set.dec_iff colour_ack.dec_iff colour_event.dec_iff by auto

end
