(* ===== verification/Wire_Fields.thy ===== *)
theory Wire_Fields
  imports Codec_Contract
begin

text \<open>
  The field parsers that the message modules of \<^verbatim>\<open>omenchat-protocol\<close> repeat, each copy with the
  error type of its module: non-zero checks, user ids, optional event ids, optional strings,
  timestamps and lists of event ids. They take the module's error values as arguments, and their
  lemmas say which frame values they accept. A module's own helper is an instance of one of them.
\<close>

section \<open>Fields\<close>

definition nonzero_or :: "'e \<Rightarrow> 'a :: zero \<Rightarrow> 'e + unit" where
  "nonzero_or err x = (if x = 0 then Inl err else Inr ())"

definition u32_id_field :: "'e \<Rightarrow> u64 \<Rightarrow> 'e + u32" where
  "u32_id_field err v =
     and_then (ok_or err (u32_try_from v)) (\<lambda>i. and_then (nonzero_or err i) (\<lambda>_. Inr i))"

definition optional_u64_value :: "u64 option \<Rightarrow> FrameValue" where
  "optional_u64_value x = (case x of Some v \<Rightarrow> FU64 v | None \<Rightarrow> FNil)"

definition optional_string_value :: "string option \<Rightarrow> FrameValue" where
  "optional_string_value x = (case x of Some v \<Rightarrow> FString v | None \<Rightarrow> FNil)"

definition optional_event_id_field :: "'e \<Rightarrow> 'e \<Rightarrow> FrameValue \<Rightarrow> 'e + u64 option" where
  "optional_event_id_field zero_err shape_err v =
     (case v of
        FNil \<Rightarrow> Inr None
      | FU64 event_id \<Rightarrow> and_then (nonzero_or zero_err event_id) (\<lambda>_. Inr (Some event_id))
      | _ \<Rightarrow> Inl shape_err)"

definition event_id_item :: "'e \<Rightarrow> 'e \<Rightarrow> FrameValue \<Rightarrow> 'e + u64" where
  "event_id_item zero_err shape_err v =
     (case v of
        FU64 event_id \<Rightarrow> and_then (nonzero_or zero_err event_id) (\<lambda>_. Inr event_id)
      | _ \<Rightarrow> Inl shape_err)"

definition nonneg_or :: "'e \<Rightarrow> i64 \<Rightarrow> 'e + unit" where
  "nonneg_or err t = (if i64_neg t then Inl err else Inr ())"

definition timestamp_to_field :: "'e \<Rightarrow> i64 \<Rightarrow> 'e + FrameValue" where
  "timestamp_to_field err t = and_then (nonneg_or err t) (\<lambda>_. Inr (FU64 t))"

definition timestamp_field :: "'e \<Rightarrow> FrameValue \<Rightarrow> 'e + i64" where
  "timestamp_field err v =
     (case v of
        FU64 x \<Rightarrow> ok_or err (i64_try_from x)
      | FI64 x \<Rightarrow> and_then (nonneg_or err x) (\<lambda>_. Inr x)
      | _ \<Rightarrow> Inl err)"

section \<open>What the fields accept\<close>

text \<open>A timestamp is sent unsigned and accepted unsigned or signed.\<close>

definition timestamp_forms :: "i64 \<Rightarrow> FrameValue set" where
  "timestamp_forms t = {FU64 t, FI64 t}"

lemma nonzero_or_Inr [valid_simps]: "nonzero_or err x = Inr u \<longleftrightarrow> x \<noteq> 0"
  by (simp add: nonzero_or_def)

lemma is_ok_nonzero_or [simp]: "is_ok (nonzero_or err x) \<longleftrightarrow> x \<noteq> 0"
  by (simp add: nonzero_or_def)

lemma nonneg_or_Inr [valid_simps]: "nonneg_or err t = Inr u \<longleftrightarrow> \<not> i64_neg t"
  by (simp add: nonneg_or_def)

lemma u32_id_field_Inr [codec_simps]: "u32_id_field err v = Inr i \<longleftrightarrow> i \<noteq> 0 \<and> v = ucast i"
  by (auto simp: u32_id_field_def u32_try_from_eq_Some valid_simps)

lemma u32_id_field_ucast [simp]: "i \<noteq> 0 \<Longrightarrow> u32_id_field err (ucast i) = Inr i"
  by (simp add: codec_simps)

lemma optional_event_id_field_Inr [codec_simps]:
  "optional_event_id_field z s v = Inr r \<longleftrightarrow> r \<noteq> Some 0 \<and> v = optional_u64_value r"
  by (cases v; cases r) (auto simp: optional_event_id_field_def optional_u64_value_def valid_simps)

lemma optional_event_id_field_value [simp]:
  "r \<noteq> Some 0 \<Longrightarrow> optional_event_id_field z s (optional_u64_value r) = Inr r"
  by (simp add: codec_simps)

lemma optional_value_inject [simp]:
  "optional_u64_value x = optional_u64_value y \<longleftrightarrow> x = y"
  "optional_string_value p = optional_string_value q \<longleftrightarrow> p = q"
  by (auto simp: optional_u64_value_def optional_string_value_def split: option.splits)

lemma event_id_item_Inr: "event_id_item z s v = Inr i \<longleftrightarrow> i \<noteq> 0 \<and> v = FU64 i"
  by (cases v) (auto simp: event_id_item_def valid_simps)

lemma event_id_items_Inr [codec_simps]:
  "collect_results (event_id_item z s) vs = Inr ids \<longleftrightarrow> 0 \<notin> set ids \<and> vs = map FU64 ids"
  using collect_results_exact [of "event_id_item z s" "\<lambda>i. i \<noteq> 0" FU64]
  by (auto simp: event_id_item_Inr)

lemma event_id_items_map [simp]:
  "0 \<notin> set ids \<Longrightarrow> collect_results (event_id_item z s) (map FU64 ids) = Inr ids"
  by (simp add: codec_simps)

lemma timestamp_to_field_Inr [codec_simps]:
  "timestamp_to_field err t = Inr v \<longleftrightarrow> \<not> i64_neg t \<and> v = FU64 t"
  by (auto simp: timestamp_to_field_def valid_simps)

lemma timestamp_to_field_nonneg [simp]:
  "\<not> i64_neg t \<Longrightarrow> timestamp_to_field err t = Inr (FU64 t)"
  by (simp add: codec_simps)

lemma timestamp_field_Inr [codec_simps]:
  "timestamp_field err v = Inr t \<longleftrightarrow> \<not> i64_neg t \<and> v \<in> timestamp_forms t"
  by (cases v) (auto simp: timestamp_field_def timestamp_forms_def i64_try_from_eq valid_simps)

lemma timestamp_field_nonneg [simp]:
  "\<not> i64_neg t \<Longrightarrow> v \<in> timestamp_forms t \<Longrightarrow> timestamp_field err v = Inr t"
  by (simp add: codec_simps)

lemma FU64_timestamp_form [simp]: "FU64 t \<in> timestamp_forms t"
  by (simp add: timestamp_forms_def)

section \<open>Lists of snapshot entries\<close>

text \<open>An entry parser that accepts a set of forms per entry, lifted to the entry list.\<close>

lemma collect_results_forms:
  assumes "\<And>v x. f v = Inr x \<longleftrightarrow> P x \<and> v \<in> F x"
  shows "collect_results f vs = Inr xs \<longleftrightarrow> (\<forall>x\<in>set xs. P x) \<and> list_all2 (\<lambda>x v. v \<in> F x) xs vs"
  unfolding collect_results_eq_Inr assms
  by (auto simp: list_all2_conv_all_nth all_set_conv_all_nth)

lemma collect_results_enc:
  assumes "\<And>x. x \<in> set xs \<Longrightarrow> f x = Inr (g x)"
  shows "collect_results f xs = Inr (map g xs)"
  using assms by (induction xs) auto

end
