(* ===== verification/Reactions.thy ===== *)
theory Reactions
  imports Wire_Fields
begin

text \<open>
  Reactions (\<^verbatim>\<open>omenchat-protocol/src/reactions.rs\<close>): the fixed token catalogue, the request, its
  acknowledgement, the live event and the snapshot of the reactions of a set of events.
\<close>

section \<open>Constants, tokens and actions\<close>

definition REACTIONS_CAPABILITY :: string where "REACTIONS_CAPABILITY = ''reactions-v1''"
definition REACTION_BODY_TAG :: string where "REACTION_BODY_TAG = ''reaction-v1''"
definition REACTION_SNAPSHOT_BODY_TAG :: string where
  "REACTION_SNAPSHOT_BODY_TAG = ''reaction-snapshot-v1''"
definition REACTION_TOKEN_MAX_BYTES :: nat where "REACTION_TOKEN_MAX_BYTES = 16"
definition REACTION_SNAPSHOT_MAX_TARGETS :: nat where "REACTION_SNAPSHOT_MAX_TARGETS = 256"
definition REACTION_SNAPSHOT_MAX_ENTRIES :: nat where "REACTION_SNAPSHOT_MAX_ENTRIES = 1024"

datatype ReactionToken =
    ThumbsUp | Heart | Laugh | Surprised | Sad | ThumbsDown | Celebrate | Question

datatype ReactionAction = Add | Remove

datatype ReactionError =
    InvalidRequestShape | InvalidRequestTag | InvalidEventId | InvalidUserId | TokenTooLong
  | UnknownToken | UnknownAction | InvalidAckShape | InvalidAckResult | InvalidEventShape
  | InvalidTimestamp | InvalidSnapshotShape | InvalidSnapshotTag | TooManySnapshotTargets
  | TooManySnapshotEntries | NonCanonicalSnapshotTargets | NonCanonicalSnapshotEntries
  | SnapshotEntryOutsideTargets

definition reaction_token_ALL :: "ReactionToken list" where
  "reaction_token_ALL =
     [ThumbsUp, Heart, Laugh, Surprised, Sad, ThumbsDown, Celebrate, Question]"

primrec reaction_token_as_str :: "ReactionToken \<Rightarrow> string" where
  "reaction_token_as_str ThumbsUp = ''thumbs_up''"
| "reaction_token_as_str Heart = ''heart''"
| "reaction_token_as_str Laugh = ''laugh''"
| "reaction_token_as_str Surprised = ''surprised''"
| "reaction_token_as_str Sad = ''sad''"
| "reaction_token_as_str ThumbsDown = ''thumbs_down''"
| "reaction_token_as_str Celebrate = ''celebrate''"
| "reaction_token_as_str Question = ''question''"

definition reaction_token_try_from :: "string \<Rightarrow> ReactionError + ReactionToken" where
  "reaction_token_try_from v =
     (if v = ''thumbs_up'' then Inr ThumbsUp
      else if v = ''heart'' then Inr Heart
      else if v = ''laugh'' then Inr Laugh
      else if v = ''surprised'' then Inr Surprised
      else if v = ''sad'' then Inr Sad
      else if v = ''thumbs_down'' then Inr ThumbsDown
      else if v = ''celebrate'' then Inr Celebrate
      else if v = ''question'' then Inr Question
      else Inl UnknownToken)"

primrec reaction_action_code :: "ReactionAction \<Rightarrow> u64" where
  "reaction_action_code Add = 1"
| "reaction_action_code Remove = 2"

definition reaction_action_try_from :: "u64 \<Rightarrow> ReactionError + ReactionAction" where
  "reaction_action_try_from v =
     (if v = 1 then Inr Add else if v = 2 then Inr Remove else Inl UnknownAction)"

section \<open>Fields\<close>

definition reaction_token_value :: "ReactionToken \<Rightarrow> FrameValue" where
  "reaction_token_value token = FString (reaction_token_as_str token)"

definition reaction_parse_token :: "string \<Rightarrow> ReactionError + ReactionToken" where
  "reaction_parse_token token =
     (if length token > REACTION_TOKEN_MAX_BYTES then Inl TokenTooLong
      else reaction_token_try_from token)"

definition reaction_validate_event_id :: "EventId \<Rightarrow> ReactionError + unit" where
  "reaction_validate_event_id = nonzero_or InvalidEventId"

definition reaction_validate_user_id :: "UserId \<Rightarrow> ReactionError + unit" where
  "reaction_validate_user_id = nonzero_or InvalidUserId"

definition reaction_parse_user_id :: "u64 \<Rightarrow> ReactionError + UserId" where
  "reaction_parse_user_id = u32_id_field InvalidUserId"

definition reaction_parse_optional_event_id :: "FrameValue \<Rightarrow> ReactionError + EventId option" where
  "reaction_parse_optional_event_id = optional_event_id_field InvalidEventId InvalidAckShape"

definition reaction_validate_timestamp :: "i64 \<Rightarrow> ReactionError + unit" where
  "reaction_validate_timestamp = nonneg_or InvalidTimestamp"

definition reaction_timestamp_value :: "i64 \<Rightarrow> ReactionError + FrameValue" where
  "reaction_timestamp_value = timestamp_to_field InvalidTimestamp"

definition reaction_parse_timestamp :: "FrameValue \<Rightarrow> ReactionError + i64" where
  "reaction_parse_timestamp = timestamp_field InvalidTimestamp"

lemmas reaction_fields = reaction_validate_event_id_def reaction_validate_user_id_def
  reaction_parse_user_id_def reaction_parse_optional_event_id_def reaction_validate_timestamp_def
  reaction_timestamp_value_def reaction_parse_timestamp_def

section \<open>Request\<close>

record ReactionRequest =
  rq_target_event_id :: EventId
  rq_token :: ReactionToken
  rq_action :: ReactionAction

definition reaction_request_into_frame_body :: "ReactionRequest \<Rightarrow> ReactionError + FrameBody" where
  "reaction_request_into_frame_body m =
     and_then (reaction_validate_event_id (rq_target_event_id m)) (\<lambda>_.
     Inr (Fields [FString REACTION_BODY_TAG, FU64 (rq_target_event_id m),
       reaction_token_value (rq_token m), FU64 (reaction_action_code (rq_action m))]))"

definition reaction_request_from_frame_body :: "FrameBody \<Rightarrow> ReactionError + ReactionRequest" where
  "reaction_request_from_frame_body body =
     (case body of
        Fields [FString tag, FU64 target_event_id, FString token, FU64 action] \<Rightarrow>
          if tag \<noteq> REACTION_BODY_TAG then Inl InvalidRequestTag
          else
            and_then (reaction_validate_event_id target_event_id) (\<lambda>_.
            and_then (reaction_parse_token token) (\<lambda>token.
            and_then (reaction_action_try_from action) (\<lambda>action.
            Inr \<lparr>rq_target_event_id = target_event_id, rq_token = token, rq_action = action\<rparr>)))
      | _ \<Rightarrow> Inl InvalidRequestShape)"

section \<open>Acknowledgement\<close>

record ReactionAck =
  ra_target_event_id :: EventId
  ra_actor_user_id :: UserId
  ra_token :: ReactionToken
  ra_action :: ReactionAction
  ra_changed :: bool
  ra_reaction_event_id :: "EventId option"

definition reaction_ack_validate :: "ReactionAck \<Rightarrow> ReactionError + unit" where
  "reaction_ack_validate m =
     and_then (reaction_validate_event_id (ra_target_event_id m)) (\<lambda>_.
     and_then (reaction_validate_user_id (ra_actor_user_id m)) (\<lambda>_.
     if ra_changed m \<noteq> (ra_reaction_event_id m \<noteq> None) then Inl InvalidAckResult
     else (case ra_reaction_event_id m of
         Some event_id \<Rightarrow> and_then (reaction_validate_event_id event_id) (\<lambda>_. Inr ())
       | None \<Rightarrow> Inr ())))"

definition reaction_ack_into_frame_body :: "ReactionAck \<Rightarrow> ReactionError + FrameBody" where
  "reaction_ack_into_frame_body m =
     and_then (reaction_ack_validate m) (\<lambda>_.
     Inr (Fields [FU64 (ra_target_event_id m), FU64 (ucast (ra_actor_user_id m)),
       reaction_token_value (ra_token m), FU64 (reaction_action_code (ra_action m)),
       FBool (ra_changed m), optional_u64_value (ra_reaction_event_id m)]))"

definition reaction_ack_from_frame_body :: "FrameBody \<Rightarrow> ReactionError + ReactionAck" where
  "reaction_ack_from_frame_body body =
     (case body of
        Fields [FU64 target_event_id, FU64 actor_user_id, FString token, FU64 action,
            FBool changed, reaction_event_id] \<Rightarrow>
          and_then (reaction_parse_user_id actor_user_id) (\<lambda>actor_user_id.
          and_then (reaction_parse_token token) (\<lambda>token.
          and_then (reaction_action_try_from action) (\<lambda>action.
          and_then (reaction_parse_optional_event_id reaction_event_id) (\<lambda>reaction_event_id.
          let ack = \<lparr>ra_target_event_id = target_event_id, ra_actor_user_id = actor_user_id,
            ra_token = token, ra_action = action, ra_changed = changed,
            ra_reaction_event_id = reaction_event_id\<rparr> in
          and_then (reaction_ack_validate ack) (\<lambda>_. Inr ack)))))
      | _ \<Rightarrow> Inl InvalidAckShape)"

section \<open>Event\<close>

record ReactionEvent =
  re_reaction_event_id :: EventId
  re_target_event_id :: EventId
  re_actor_user_id :: UserId
  re_token :: ReactionToken
  re_action :: ReactionAction
  re_at_unix :: i64

definition reaction_event_validate :: "ReactionEvent \<Rightarrow> ReactionError + unit" where
  "reaction_event_validate m =
     and_then (reaction_validate_event_id (re_reaction_event_id m)) (\<lambda>_.
     and_then (reaction_validate_event_id (re_target_event_id m)) (\<lambda>_.
     and_then (reaction_validate_user_id (re_actor_user_id m)) (\<lambda>_.
     reaction_validate_timestamp (re_at_unix m))))"

definition reaction_event_into_frame_body :: "ReactionEvent \<Rightarrow> ReactionError + FrameBody" where
  "reaction_event_into_frame_body m =
     and_then (reaction_event_validate m) (\<lambda>_.
     and_then (reaction_timestamp_value (re_at_unix m)) (\<lambda>at_unix.
     Inr (Fields [FU64 (re_reaction_event_id m), FU64 (re_target_event_id m),
       FU64 (ucast (re_actor_user_id m)), reaction_token_value (re_token m),
       FU64 (reaction_action_code (re_action m)), at_unix])))"

definition reaction_event_from_frame_body :: "FrameBody \<Rightarrow> ReactionError + ReactionEvent" where
  "reaction_event_from_frame_body body =
     (case body of
        Fields [FU64 reaction_event_id, FU64 target_event_id, FU64 actor_user_id, FString token,
            FU64 action, at_unix] \<Rightarrow>
          and_then (reaction_parse_user_id actor_user_id) (\<lambda>actor_user_id.
          and_then (reaction_parse_token token) (\<lambda>token.
          and_then (reaction_action_try_from action) (\<lambda>action.
          and_then (reaction_parse_timestamp at_unix) (\<lambda>at_unix.
          let event = \<lparr>re_reaction_event_id = reaction_event_id,
            re_target_event_id = target_event_id, re_actor_user_id = actor_user_id,
            re_token = token, re_action = action, re_at_unix = at_unix\<rparr> in
          and_then (reaction_event_validate event) (\<lambda>_. Inr event)))))
      | _ \<Rightarrow> Inl InvalidEventShape)"

section \<open>Snapshot\<close>

record ReactionSnapshotEntry =
  rs_target_event_id :: EventId
  rs_actor_user_id :: UserId
  rs_token :: ReactionToken
  rs_created_at_unix :: i64

record ReactionSnapshot =
  rs_target_event_ids :: "EventId list"
  rs_entries :: "ReactionSnapshotEntry list"

definition reaction_snapshot_sort_key :: "ReactionSnapshotEntry \<Rightarrow> EventId \<times> string \<times> UserId" where
  "reaction_snapshot_sort_key entry =
     (rs_target_event_id entry, reaction_token_as_str (rs_token entry), rs_actor_user_id entry)"

definition reaction_snapshot_validate :: "ReactionSnapshot \<Rightarrow> ReactionError + unit" where
  "reaction_snapshot_validate m =
     (if length (rs_target_event_ids m) > REACTION_SNAPSHOT_MAX_TARGETS
      then Inl TooManySnapshotTargets
      else if length (rs_entries m) > REACTION_SNAPSHOT_MAX_ENTRIES
      then Inl TooManySnapshotEntries
      else if \<exists>event_id\<in>set (rs_target_event_ids m). \<not> is_ok (reaction_validate_event_id event_id)
      then Inl InvalidEventId
      else if \<not> windows_ok (\<lambda>a b. a < b) (rs_target_event_ids m)
      then Inl NonCanonicalSnapshotTargets
      else
        and_then (for_each_ok (\<lambda>entry.
            and_then (reaction_validate_event_id (rs_target_event_id entry)) (\<lambda>_.
            and_then (reaction_validate_user_id (rs_actor_user_id entry)) (\<lambda>_.
            and_then (reaction_validate_timestamp (rs_created_at_unix entry)) (\<lambda>_.
            if \<not> binary_search_found (rs_target_event_ids m) (rs_target_event_id entry)
            then Inl SnapshotEntryOutsideTargets else Inr ())))) (rs_entries m)) (\<lambda>_.
        if \<not> windows_ok (\<lambda>a b. reaction_snapshot_sort_key a < reaction_snapshot_sort_key b)
            (rs_entries m)
        then Inl NonCanonicalSnapshotEntries
        else Inr ()))"

definition reaction_snapshot_entry_value :: "ReactionSnapshotEntry \<Rightarrow> ReactionError + FrameValue" where
  "reaction_snapshot_entry_value entry =
     and_then (reaction_timestamp_value (rs_created_at_unix entry)) (\<lambda>created_at.
     Inr (FArray [FU64 (rs_target_event_id entry), FU64 (ucast (rs_actor_user_id entry)),
       reaction_token_value (rs_token entry), created_at]))"

definition reaction_parse_snapshot_entry :: "FrameValue \<Rightarrow> ReactionError + ReactionSnapshotEntry" where
  "reaction_parse_snapshot_entry v =
     (case v of
        FArray [FU64 target_event_id, FU64 actor_user_id, FString token, created_at_unix] \<Rightarrow>
          and_then (reaction_parse_user_id actor_user_id) (\<lambda>actor_user_id.
          and_then (reaction_parse_token token) (\<lambda>token.
          and_then (reaction_parse_timestamp created_at_unix) (\<lambda>created_at_unix.
          Inr \<lparr>rs_target_event_id = target_event_id, rs_actor_user_id = actor_user_id,
            rs_token = token, rs_created_at_unix = created_at_unix\<rparr>)))
      | _ \<Rightarrow> Inl InvalidSnapshotShape)"

definition reaction_snapshot_into_frame_body :: "ReactionSnapshot \<Rightarrow> ReactionError + FrameBody" where
  "reaction_snapshot_into_frame_body m =
     and_then (reaction_snapshot_validate m) (\<lambda>_.
     and_then (collect_results reaction_snapshot_entry_value (rs_entries m)) (\<lambda>entries.
     Inr (Fields [FString REACTION_SNAPSHOT_BODY_TAG, FArray (map FU64 (rs_target_event_ids m)),
       FArray entries])))"

definition reaction_snapshot_from_frame_body :: "FrameBody \<Rightarrow> ReactionError + ReactionSnapshot" where
  "reaction_snapshot_from_frame_body body =
     (case body of
        Fields [FString tag, FArray target_values, FArray entry_values] \<Rightarrow>
          if tag \<noteq> REACTION_SNAPSHOT_BODY_TAG then Inl InvalidSnapshotTag
          else if length target_values > REACTION_SNAPSHOT_MAX_TARGETS
          then Inl TooManySnapshotTargets
          else if length entry_values > REACTION_SNAPSHOT_MAX_ENTRIES
          then Inl TooManySnapshotEntries
          else
            and_then (collect_results (event_id_item InvalidEventId InvalidSnapshotShape)
              target_values) (\<lambda>target_event_ids.
            and_then (collect_results reaction_parse_snapshot_entry entry_values) (\<lambda>entries.
            let snapshot = \<lparr>rs_target_event_ids = target_event_ids, rs_entries = entries\<rparr> in
            and_then (reaction_snapshot_validate snapshot) (\<lambda>_. Inr snapshot)))
      | _ \<Rightarrow> Inl InvalidSnapshotShape)"

section \<open>Tokens and actions\<close>

lemma reaction_token_try_from_Inr:
  "reaction_token_try_from v = Inr token \<longleftrightarrow> v = reaction_token_as_str token"
  by (cases token) (auto simp: reaction_token_try_from_def)

lemma reaction_token_length: "length (reaction_token_as_str token) \<le> REACTION_TOKEN_MAX_BYTES"
  by (cases token) (simp_all add: REACTION_TOKEN_MAX_BYTES_def)

lemma reaction_parse_token_Inr [codec_simps]:
  "reaction_parse_token v = Inr token \<longleftrightarrow> v = reaction_token_as_str token"
  using reaction_token_length [of token]
  by (auto simp: reaction_parse_token_def reaction_token_try_from_Inr)

lemma reaction_parse_token_as_str [simp]: "reaction_parse_token (reaction_token_as_str t) = Inr t"
  by (simp add: codec_simps)

lemma reaction_action_try_from_Inr [codec_simps]:
  "reaction_action_try_from v = Inr action \<longleftrightarrow> v = reaction_action_code action"
  by (cases action) (auto simp: reaction_action_try_from_def)

lemma reaction_action_try_from_code [simp]: "reaction_action_try_from (reaction_action_code a) = Inr a"
  by (simp add: codec_simps)

lemma reaction_token_ALL_set: "set reaction_token_ALL = UNIV"
  by (auto simp: reaction_token_ALL_def intro: ReactionToken.exhaust)

section \<open>Valid messages and the bodies they have\<close>

definition reaction_ack_valid :: "ReactionAck \<Rightarrow> bool" where
  "reaction_ack_valid m \<longleftrightarrow> ra_target_event_id m \<noteq> 0 \<and> ra_actor_user_id m \<noteq> 0
     \<and> ra_changed m = (ra_reaction_event_id m \<noteq> None) \<and> ra_reaction_event_id m \<noteq> Some 0"

definition reaction_event_valid :: "ReactionEvent \<Rightarrow> bool" where
  "reaction_event_valid m \<longleftrightarrow> re_reaction_event_id m \<noteq> 0 \<and> re_target_event_id m \<noteq> 0
     \<and> re_actor_user_id m \<noteq> 0 \<and> \<not> i64_neg (re_at_unix m)"

definition reaction_event_body :: "ReactionEvent \<Rightarrow> FrameValue \<Rightarrow> FrameBody" where
  "reaction_event_body m at = Fields [FU64 (re_reaction_event_id m), FU64 (re_target_event_id m),
     FU64 (ucast (re_actor_user_id m)), reaction_token_value (re_token m),
     FU64 (reaction_action_code (re_action m)), at]"

definition reaction_entry_valid :: "ReactionSnapshotEntry \<Rightarrow> bool" where
  "reaction_entry_valid e \<longleftrightarrow> rs_target_event_id e \<noteq> 0 \<and> rs_actor_user_id e \<noteq> 0
     \<and> \<not> i64_neg (rs_created_at_unix e)"

definition reaction_entry_forms :: "ReactionSnapshotEntry \<Rightarrow> FrameValue set" where
  "reaction_entry_forms e =
     (\<lambda>at. FArray [FU64 (rs_target_event_id e), FU64 (ucast (rs_actor_user_id e)),
        reaction_token_value (rs_token e), at]) ` timestamp_forms (rs_created_at_unix e)"

definition reaction_snapshot_valid :: "ReactionSnapshot \<Rightarrow> bool" where
  "reaction_snapshot_valid m \<longleftrightarrow>
     length (rs_target_event_ids m) \<le> 256 \<and> length (rs_entries m) \<le> 1024
     \<and> 0 \<notin> set (rs_target_event_ids m) \<and> sorted_wrt (<) (rs_target_event_ids m)
     \<and> sorted_wrt (<) (map reaction_snapshot_sort_key (rs_entries m))
     \<and> (\<forall>e\<in>set (rs_entries m). reaction_entry_valid e
          \<and> rs_target_event_id e \<in> set (rs_target_event_ids m))"

lemma reaction_validate_Inr [valid_simps]:
  "reaction_ack_validate a = Inr u \<longleftrightarrow> reaction_ack_valid a"
  "reaction_event_validate e = Inr u \<longleftrightarrow> reaction_event_valid e"
  "reaction_snapshot_validate s = Inr u \<longleftrightarrow> reaction_snapshot_valid s"
  by (auto simp: reaction_ack_validate_def reaction_ack_valid_def reaction_event_validate_def
      reaction_event_valid_def reaction_snapshot_validate_def reaction_snapshot_valid_def
      reaction_entry_valid_def reaction_fields valid_simps REACTION_SNAPSHOT_MAX_TARGETS_def
      REACTION_SNAPSHOT_MAX_ENTRIES_def split: option.splits)

lemma reaction_request_into_Inr:
  "reaction_request_into_frame_body m = Inr b \<longleftrightarrow> rq_target_event_id m \<noteq> 0
     \<and> b = Fields [FString REACTION_BODY_TAG, FU64 (rq_target_event_id m),
         reaction_token_value (rq_token m), FU64 (reaction_action_code (rq_action m))]"
  by (auto simp: reaction_request_into_frame_body_def reaction_fields valid_simps)

lemma reaction_request_from_Inr:
  "reaction_request_from_frame_body b = Inr m \<longleftrightarrow>
     rq_target_event_id m \<noteq> 0 \<and> reaction_request_into_frame_body m = Inr b"
proof
  assume "reaction_request_from_frame_body b = Inr m"
  then show "rq_target_event_id m \<noteq> 0 \<and> reaction_request_into_frame_body m = Inr b"
    unfolding reaction_request_into_Inr
    by (auto simp: reaction_request_from_frame_body_def reaction_fields valid_simps codec_simps
        reaction_token_value_def
        split: FrameBody.split_asm list.split_asm FrameValue.split_asm if_split_asm)
qed (auto simp: reaction_request_from_frame_body_def reaction_request_into_Inr reaction_fields
    valid_simps reaction_token_value_def)

interpretation reaction_request: strict_codec reaction_request_into_frame_body
    reaction_request_from_frame_body "\<lambda>m. rq_target_event_id m \<noteq> 0"
  by unfold_locales (auto simp: reaction_request_from_Inr reaction_request_into_Inr)

lemma reaction_ack_into_Inr:
  "reaction_ack_into_frame_body m = Inr b \<longleftrightarrow> reaction_ack_valid m
     \<and> b = Fields [FU64 (ra_target_event_id m), FU64 (ucast (ra_actor_user_id m)),
       reaction_token_value (ra_token m), FU64 (reaction_action_code (ra_action m)),
       FBool (ra_changed m), optional_u64_value (ra_reaction_event_id m)]"
  by (auto simp: reaction_ack_into_frame_body_def valid_simps)

lemma reaction_ack_from_Inr:
  "reaction_ack_from_frame_body b = Inr m \<longleftrightarrow>
     reaction_ack_valid m \<and> reaction_ack_into_frame_body m = Inr b"
proof
  assume "reaction_ack_from_frame_body b = Inr m"
  then show "reaction_ack_valid m \<and> reaction_ack_into_frame_body m = Inr b"
    unfolding reaction_ack_into_Inr
    by (auto simp: reaction_ack_from_frame_body_def reaction_fields valid_simps codec_simps
        reaction_token_value_def Let_def
        split: FrameBody.split_asm list.split_asm FrameValue.split_asm)
next
  assume "reaction_ack_valid m \<and> reaction_ack_into_frame_body m = Inr b"
  moreover from this have "ra_actor_user_id m \<noteq> 0" "ra_reaction_event_id m \<noteq> Some 0"
    by (auto simp: reaction_ack_valid_def)
  ultimately show "reaction_ack_from_frame_body b = Inr m"
    by (cases m, auto simp: reaction_ack_from_frame_body_def reaction_ack_into_Inr reaction_fields
        reaction_token_value_def valid_simps Let_def)
qed

interpretation reaction_ack: strict_codec reaction_ack_into_frame_body
    reaction_ack_from_frame_body reaction_ack_valid
  by unfold_locales (auto simp: reaction_ack_from_Inr reaction_ack_into_Inr)

lemma reaction_event_into_Inr:
  "reaction_event_into_frame_body m = Inr b \<longleftrightarrow>
     reaction_event_valid m \<and> b = reaction_event_body m (FU64 (re_at_unix m))"
  by (auto simp: reaction_event_into_frame_body_def reaction_event_body_def reaction_fields
      reaction_event_valid_def valid_simps codec_simps)

lemma reaction_event_from_Inr:
  "reaction_event_from_frame_body b = Inr m \<longleftrightarrow>
     reaction_event_valid m \<and> b \<in> reaction_event_body m ` timestamp_forms (re_at_unix m)"
proof
  assume "reaction_event_from_frame_body b = Inr m"
  then show "reaction_event_valid m \<and> b \<in> reaction_event_body m ` timestamp_forms (re_at_unix m)"
    by (auto simp: reaction_event_from_frame_body_def reaction_fields valid_simps codec_simps
        reaction_token_value_def reaction_event_body_def Let_def
        split: FrameBody.split_asm list.split_asm FrameValue.split_asm)
next
  assume "reaction_event_valid m \<and> b \<in> reaction_event_body m ` timestamp_forms (re_at_unix m)"
  moreover from this have "re_actor_user_id m \<noteq> 0" "\<not> i64_neg (re_at_unix m)"
    by (auto simp: reaction_event_valid_def)
  ultimately show "reaction_event_from_frame_body b = Inr m"
    by (cases m, auto simp: reaction_event_from_frame_body_def reaction_fields reaction_token_value_def
        reaction_event_body_def valid_simps Let_def)
qed

interpretation reaction_event: message_codec reaction_event_into_frame_body
    reaction_event_from_frame_body reaction_event_valid
  by unfold_locales (auto simp: reaction_event_from_Inr reaction_event_into_Inr)

lemma reaction_parse_snapshot_entry_Inr:
  "reaction_parse_snapshot_entry v = Inr e \<longleftrightarrow>
     (rs_actor_user_id e \<noteq> 0 \<and> \<not> i64_neg (rs_created_at_unix e)) \<and> v \<in> reaction_entry_forms e"
proof
  assume "reaction_parse_snapshot_entry v = Inr e"
  then show "(rs_actor_user_id e \<noteq> 0 \<and> \<not> i64_neg (rs_created_at_unix e)) \<and> v \<in> reaction_entry_forms e"
    by (auto simp: reaction_parse_snapshot_entry_def reaction_fields codec_simps
        reaction_token_value_def reaction_entry_forms_def
        split: list.split_asm FrameValue.split_asm)
qed (auto simp: reaction_parse_snapshot_entry_def reaction_fields reaction_token_value_def
    reaction_entry_forms_def)

lemma reaction_snapshot_entries_Inr:
  "collect_results reaction_parse_snapshot_entry vs = Inr es \<longleftrightarrow>
     (\<forall>e\<in>set es. rs_actor_user_id e \<noteq> 0 \<and> \<not> i64_neg (rs_created_at_unix e))
     \<and> list_all2 (\<lambda>e v. v \<in> reaction_entry_forms e) es vs"
  by (rule collect_results_forms) (rule reaction_parse_snapshot_entry_Inr)

lemma reaction_snapshot_from_Inr:
  "reaction_snapshot_from_frame_body b = Inr m \<longleftrightarrow> reaction_snapshot_valid m
     \<and> (\<exists>vs. list_all2 (\<lambda>e v. v \<in> reaction_entry_forms e) (rs_entries m) vs
          \<and> b = Fields [FString REACTION_SNAPSHOT_BODY_TAG,
              FArray (map FU64 (rs_target_event_ids m)), FArray vs])"
  (is "_ \<longleftrightarrow> ?valid \<and> (\<exists>vs. ?forms vs \<and> b = ?body vs)")
proof
  assume "reaction_snapshot_from_frame_body b = Inr m"
  then show "?valid \<and> (\<exists>vs. ?forms vs \<and> b = ?body vs)"
    by (auto simp: reaction_snapshot_from_frame_body_def valid_simps codec_simps Let_def
        reaction_snapshot_entries_Inr
        split: FrameBody.split_asm list.split_asm FrameValue.split_asm if_split_asm)
next
  assume R: "?valid \<and> (\<exists>vs. ?forms vs \<and> b = ?body vs)"
  then obtain vs where vs: "?forms vs" "b = ?body vs" by blast
  have "collect_results reaction_parse_snapshot_entry vs = Inr (rs_entries m)"
    using R vs by (auto simp: reaction_snapshot_entries_Inr reaction_snapshot_valid_def
        reaction_entry_valid_def)
  moreover have "length vs = length (rs_entries m)" using vs by (auto dest: list_all2_lengthD)
  moreover have "0 \<notin> set (rs_target_event_ids m)" using R by (simp add: reaction_snapshot_valid_def)
  ultimately show "reaction_snapshot_from_frame_body b = Inr m" using R vs
    by (auto simp: reaction_snapshot_from_frame_body_def valid_simps Let_def
        reaction_snapshot_valid_def REACTION_SNAPSHOT_MAX_TARGETS_def
        REACTION_SNAPSHOT_MAX_ENTRIES_def)
qed

definition reaction_entry_value :: "ReactionSnapshotEntry \<Rightarrow> FrameValue" where
  "reaction_entry_value e = FArray [FU64 (rs_target_event_id e),
     FU64 (ucast (rs_actor_user_id e)), reaction_token_value (rs_token e),
     FU64 (rs_created_at_unix e)]"

lemma reaction_snapshot_into_Inr:
  "reaction_snapshot_into_frame_body m = Inr b \<longleftrightarrow> reaction_snapshot_valid m
     \<and> b = Fields [FString REACTION_SNAPSHOT_BODY_TAG, FArray (map FU64 (rs_target_event_ids m)),
         FArray (map reaction_entry_value (rs_entries m))]"
proof (cases "reaction_snapshot_valid m")
  case True
  then have "collect_results reaction_snapshot_entry_value (rs_entries m)
      = Inr (map reaction_entry_value (rs_entries m))"
    by (intro collect_results_enc)
      (auto simp: reaction_snapshot_entry_value_def reaction_fields reaction_entry_value_def
        reaction_snapshot_valid_def reaction_entry_valid_def)
  then show ?thesis using True by (auto simp: reaction_snapshot_into_frame_body_def valid_simps)
qed (auto simp: reaction_snapshot_into_frame_body_def valid_simps)

lemma reaction_entry_value_form: "reaction_entry_value e \<in> reaction_entry_forms e"
  by (auto simp: reaction_entry_value_def reaction_entry_forms_def)

interpretation reaction_snapshot: message_codec reaction_snapshot_into_frame_body
    reaction_snapshot_from_frame_body reaction_snapshot_valid
  by unfold_locales
    (auto simp: reaction_snapshot_from_Inr reaction_snapshot_into_Inr reaction_entry_value_form
      list_all2_map2 list_all2_same)

section \<open>Properties\<close>

text \<open>
  request and acknowledgement codecs are exact inverse pairs on the valid messages; in
  particular an accepted acknowledgement names an event exactly when it reports a change.
\<close>

theorem reaction_request_ack_exact:
  "(reaction_request_from_frame_body b = Inr r \<longleftrightarrow>
      rq_target_event_id r \<noteq> 0 \<and> reaction_request_into_frame_body r = Inr b)
   \<and> (reaction_ack_from_frame_body b = Inr a \<longleftrightarrow>
      reaction_ack_valid a \<and> reaction_ack_into_frame_body a = Inr b)"
  using reaction_request.dec_iff reaction_ack.dec_iff by auto

text \<open>
  an event body is accepted exactly for a valid event, and only in the encoder's shape with
  the timestamp unsigned or signed; the encoder's own output is the unsigned one.
\<close>

theorem reaction_event_accepts:
  "(reaction_event_from_frame_body b = Inr m \<longleftrightarrow>
      reaction_event_valid m \<and> b \<in> reaction_event_body m ` {FU64 (re_at_unix m), FI64 (re_at_unix m)})
   \<and> (reaction_event_into_frame_body m = Inr b \<longleftrightarrow>
      reaction_event_valid m \<and> b = reaction_event_body m (FU64 (re_at_unix m)))"
  using reaction_event_from_Inr reaction_event_into_Inr by (simp add: timestamp_forms_def)

text \<open>
  an accepted reaction snapshot has at most 256 distinct targets and 1,024 entries, its
  entries name only those targets, and no two entries are the same reaction of the same user to
  the same event.
\<close>

theorem reaction_snapshot_accepted:
  assumes "reaction_snapshot_from_frame_body b = Inr m"
  shows "length (rs_target_event_ids m) \<le> REACTION_SNAPSHOT_MAX_TARGETS
     \<and> length (rs_entries m) \<le> REACTION_SNAPSHOT_MAX_ENTRIES
     \<and> distinct (rs_target_event_ids m) \<and> 0 \<notin> set (rs_target_event_ids m)
     \<and> rs_target_event_id ` set (rs_entries m) \<subseteq> set (rs_target_event_ids m)
     \<and> distinct (map (\<lambda>e. (rs_target_event_id e, rs_token e, rs_actor_user_id e)) (rs_entries m))"
proof -
  have v: "reaction_snapshot_valid m" by (rule reaction_snapshot.dec_valid [OF assms])
  then have "distinct (map reaction_snapshot_sort_key (rs_entries m))"
    and "distinct (rs_target_event_ids m)"
    by (auto simp: reaction_snapshot_valid_def strict_sorted_iff)
  then have "distinct (map (\<lambda>e. (rs_target_event_id e, rs_token e, rs_actor_user_id e)) (rs_entries m))"
    by (auto simp: distinct_map inj_on_def reaction_snapshot_sort_key_def)
  then show ?thesis using v \<open>distinct (rs_target_event_ids m)\<close>
    by (auto simp: reaction_snapshot_valid_def REACTION_SNAPSHOT_MAX_TARGETS_def
        REACTION_SNAPSHOT_MAX_ENTRIES_def)
qed

definition reaction_snapshot_sample :: ReactionSnapshot where
  "reaction_snapshot_sample = \<lparr>rs_target_event_ids = [3, 9], rs_entries =
     [\<lparr>rs_target_event_id = 3, rs_actor_user_id = 1, rs_token = Heart, rs_created_at_unix = 5\<rparr>]\<rparr>"

theorem reaction_snapshot_accepted_witness:
  "length (rs_target_event_ids reaction_snapshot_sample) \<le> REACTION_SNAPSHOT_MAX_TARGETS
   \<and> distinct (rs_target_event_ids reaction_snapshot_sample)"
proof -
  have "reaction_snapshot_valid reaction_snapshot_sample"
    by (simp add: reaction_snapshot_valid_def reaction_snapshot_sample_def reaction_entry_valid_def
        i64_neg_iff)
  then obtain b where "reaction_snapshot_from_frame_body b = Inr reaction_snapshot_sample"
    using reaction_snapshot.range_dec by blast
  from reaction_snapshot_accepted [OF this] show ?thesis by blast
qed

end
