(* ===== verification/Pins.thy ===== *)
theory Pins
  imports Wire_Fields
begin

text \<open>
  Room pins (\<^verbatim>\<open>omenchat-protocol/src/pins.rs\<close>): request, acknowledgement, event and snapshot of
  the pinned events among a set of targets.
\<close>

section \<open>Constants, actions and fields\<close>

definition ROOM_PINS_CAPABILITY :: string where "ROOM_PINS_CAPABILITY = ''room-pins-v1''"
definition ROOM_PIN_BODY_TAG :: string where "ROOM_PIN_BODY_TAG = ''room-pin-v1''"
definition ROOM_PIN_SNAPSHOT_BODY_TAG :: string where
  "ROOM_PIN_SNAPSHOT_BODY_TAG = ''room-pin-snapshot-v1''"
definition ROOM_PIN_SNAPSHOT_MAX_TARGETS :: nat where "ROOM_PIN_SNAPSHOT_MAX_TARGETS = 256"
definition ROOM_PIN_SNAPSHOT_MAX_ENTRIES :: nat where "ROOM_PIN_SNAPSHOT_MAX_ENTRIES = 64"

datatype PinAction = Pin | Unpin

datatype PinError =
    InvalidRequestShape | InvalidRequestTag | InvalidEventId | InvalidUserId | UnknownAction
  | InvalidAckShape | InvalidAckResult | InvalidEventShape | InvalidTimestamp
  | InvalidSnapshotShape | InvalidSnapshotTag | TooManySnapshotTargets | TooManySnapshotEntries
  | NonCanonicalSnapshotTargets | NonCanonicalSnapshotEntries | SnapshotEntryOutsideTargets

primrec pin_action_code :: "PinAction \<Rightarrow> u64" where
  "pin_action_code Pin = 1"
| "pin_action_code Unpin = 2"

definition pin_action_try_from :: "u64 \<Rightarrow> PinError + PinAction" where
  "pin_action_try_from v =
     (if v = 1 then Inr Pin else if v = 2 then Inr Unpin else Inl UnknownAction)"

definition pin_validate_event_id :: "EventId \<Rightarrow> PinError + unit" where
  "pin_validate_event_id = nonzero_or InvalidEventId"

definition pin_validate_user_id :: "UserId \<Rightarrow> PinError + unit" where
  "pin_validate_user_id = nonzero_or InvalidUserId"

definition pin_parse_user_id :: "u64 \<Rightarrow> PinError + UserId" where
  "pin_parse_user_id = u32_id_field InvalidUserId"

definition pin_parse_optional_event_id :: "FrameValue \<Rightarrow> PinError + EventId option" where
  "pin_parse_optional_event_id = optional_event_id_field InvalidEventId InvalidAckShape"

definition pin_validate_timestamp :: "i64 \<Rightarrow> PinError + unit" where
  "pin_validate_timestamp = nonneg_or InvalidTimestamp"

definition pin_timestamp_value :: "i64 \<Rightarrow> PinError + FrameValue" where
  "pin_timestamp_value = timestamp_to_field InvalidTimestamp"

definition pin_parse_timestamp :: "FrameValue \<Rightarrow> PinError + i64" where
  "pin_parse_timestamp = timestamp_field InvalidTimestamp"

lemmas pin_fields = pin_validate_event_id_def pin_validate_user_id_def pin_parse_user_id_def
  pin_parse_optional_event_id_def pin_validate_timestamp_def pin_timestamp_value_def
  pin_parse_timestamp_def

section \<open>Request\<close>

record PinRequest =
  pq_target_event_id :: EventId
  pq_action :: PinAction

definition pin_request_into_frame_body :: "PinRequest \<Rightarrow> PinError + FrameBody" where
  "pin_request_into_frame_body m =
     and_then (pin_validate_event_id (pq_target_event_id m)) (\<lambda>_.
     Inr (Fields [FString ROOM_PIN_BODY_TAG, FU64 (pq_target_event_id m),
       FU64 (pin_action_code (pq_action m))]))"

definition pin_request_from_frame_body :: "FrameBody \<Rightarrow> PinError + PinRequest" where
  "pin_request_from_frame_body body =
     (case body of
        Fields [FString tag, FU64 target_event_id, FU64 action] \<Rightarrow>
          if tag \<noteq> ROOM_PIN_BODY_TAG then Inl InvalidRequestTag
          else
            and_then (pin_validate_event_id target_event_id) (\<lambda>_.
            and_then (pin_action_try_from action) (\<lambda>action.
            Inr \<lparr>pq_target_event_id = target_event_id, pq_action = action\<rparr>))
      | _ \<Rightarrow> Inl InvalidRequestShape)"

section \<open>Acknowledgement\<close>

record PinAck =
  pa_target_event_id :: EventId
  pa_action :: PinAction
  pa_actor_user_id :: UserId
  pa_changed :: bool
  pa_pin_event_id :: "EventId option"

definition pin_ack_validate :: "PinAck \<Rightarrow> PinError + unit" where
  "pin_ack_validate m =
     and_then (pin_validate_event_id (pa_target_event_id m)) (\<lambda>_.
     and_then (pin_validate_user_id (pa_actor_user_id m)) (\<lambda>_.
     if pa_changed m \<noteq> (pa_pin_event_id m \<noteq> None) then Inl InvalidAckResult
     else (case pa_pin_event_id m of
         Some event_id \<Rightarrow> and_then (pin_validate_event_id event_id) (\<lambda>_. Inr ())
       | None \<Rightarrow> Inr ())))"

definition pin_ack_into_frame_body :: "PinAck \<Rightarrow> PinError + FrameBody" where
  "pin_ack_into_frame_body m =
     and_then (pin_ack_validate m) (\<lambda>_.
     Inr (Fields [FU64 (pa_target_event_id m), FU64 (pin_action_code (pa_action m)),
       FU64 (ucast (pa_actor_user_id m)), FBool (pa_changed m),
       optional_u64_value (pa_pin_event_id m)]))"

definition pin_ack_from_frame_body :: "FrameBody \<Rightarrow> PinError + PinAck" where
  "pin_ack_from_frame_body body =
     (case body of
        Fields [FU64 target_event_id, FU64 action, FU64 actor_user_id, FBool changed,
            pin_event_id] \<Rightarrow>
          and_then (pin_action_try_from action) (\<lambda>action.
          and_then (pin_parse_user_id actor_user_id) (\<lambda>actor_user_id.
          and_then (pin_parse_optional_event_id pin_event_id) (\<lambda>pin_event_id.
          let ack = \<lparr>pa_target_event_id = target_event_id, pa_action = action,
            pa_actor_user_id = actor_user_id, pa_changed = changed,
            pa_pin_event_id = pin_event_id\<rparr> in
          and_then (pin_ack_validate ack) (\<lambda>_. Inr ack))))
      | _ \<Rightarrow> Inl InvalidAckShape)"

section \<open>Event\<close>

record PinEvent =
  pe_pin_event_id :: EventId
  pe_target_event_id :: EventId
  pe_action :: PinAction
  pe_actor_user_id :: UserId
  pe_at_unix :: i64

definition pin_event_validate :: "PinEvent \<Rightarrow> PinError + unit" where
  "pin_event_validate m =
     and_then (pin_validate_event_id (pe_pin_event_id m)) (\<lambda>_.
     and_then (pin_validate_event_id (pe_target_event_id m)) (\<lambda>_.
     and_then (pin_validate_user_id (pe_actor_user_id m)) (\<lambda>_.
     pin_validate_timestamp (pe_at_unix m))))"

definition pin_event_into_frame_body :: "PinEvent \<Rightarrow> PinError + FrameBody" where
  "pin_event_into_frame_body m =
     and_then (pin_event_validate m) (\<lambda>_.
     and_then (pin_timestamp_value (pe_at_unix m)) (\<lambda>at_unix.
     Inr (Fields [FU64 (pe_pin_event_id m), FU64 (pe_target_event_id m),
       FU64 (pin_action_code (pe_action m)), FU64 (ucast (pe_actor_user_id m)), at_unix])))"

definition pin_event_from_frame_body :: "FrameBody \<Rightarrow> PinError + PinEvent" where
  "pin_event_from_frame_body body =
     (case body of
        Fields [FU64 pin_event_id, FU64 target_event_id, FU64 action, FU64 actor_user_id,
            at_unix] \<Rightarrow>
          and_then (pin_action_try_from action) (\<lambda>action.
          and_then (pin_parse_user_id actor_user_id) (\<lambda>actor_user_id.
          and_then (pin_parse_timestamp at_unix) (\<lambda>at_unix.
          let event = \<lparr>pe_pin_event_id = pin_event_id, pe_target_event_id = target_event_id,
            pe_action = action, pe_actor_user_id = actor_user_id, pe_at_unix = at_unix\<rparr> in
          and_then (pin_event_validate event) (\<lambda>_. Inr event))))
      | _ \<Rightarrow> Inl InvalidEventShape)"

section \<open>Snapshot\<close>

record PinSnapshotEntry =
  ps_target_event_id :: EventId
  ps_pin_event_id :: EventId
  ps_actor_user_id :: UserId
  ps_pinned_at_unix :: i64

record PinSnapshot =
  ps_target_event_ids :: "EventId list"
  ps_entries :: "PinSnapshotEntry list"

definition pin_snapshot_validate :: "PinSnapshot \<Rightarrow> PinError + unit" where
  "pin_snapshot_validate m =
     (if length (ps_target_event_ids m) > ROOM_PIN_SNAPSHOT_MAX_TARGETS
      then Inl TooManySnapshotTargets
      else if length (ps_entries m) > ROOM_PIN_SNAPSHOT_MAX_ENTRIES
      then Inl TooManySnapshotEntries
      else if \<exists>event_id\<in>set (ps_target_event_ids m). \<not> is_ok (pin_validate_event_id event_id)
      then Inl InvalidEventId
      else if \<not> windows_ok (\<lambda>a b. a < b) (ps_target_event_ids m)
      then Inl NonCanonicalSnapshotTargets
      else
        and_then (for_each_ok (\<lambda>entry.
            and_then (pin_validate_event_id (ps_target_event_id entry)) (\<lambda>_.
            and_then (pin_validate_event_id (ps_pin_event_id entry)) (\<lambda>_.
            and_then (pin_validate_user_id (ps_actor_user_id entry)) (\<lambda>_.
            and_then (pin_validate_timestamp (ps_pinned_at_unix entry)) (\<lambda>_.
            if \<not> binary_search_found (ps_target_event_ids m) (ps_target_event_id entry)
            then Inl SnapshotEntryOutsideTargets else Inr ()))))) (ps_entries m)) (\<lambda>_.
        if \<not> windows_ok (\<lambda>a b. ps_target_event_id a < ps_target_event_id b) (ps_entries m)
        then Inl NonCanonicalSnapshotEntries
        else Inr ()))"

definition pin_snapshot_entry_value :: "PinSnapshotEntry \<Rightarrow> PinError + FrameValue" where
  "pin_snapshot_entry_value entry =
     and_then (pin_timestamp_value (ps_pinned_at_unix entry)) (\<lambda>pinned_at.
     Inr (FArray [FU64 (ps_target_event_id entry), FU64 (ps_pin_event_id entry),
       FU64 (ucast (ps_actor_user_id entry)), pinned_at]))"

definition pin_parse_snapshot_entry :: "FrameValue \<Rightarrow> PinError + PinSnapshotEntry" where
  "pin_parse_snapshot_entry v =
     (case v of
        FArray [FU64 target_event_id, FU64 pin_event_id, FU64 actor_user_id, pinned_at_unix] \<Rightarrow>
          and_then (pin_parse_user_id actor_user_id) (\<lambda>actor_user_id.
          and_then (pin_parse_timestamp pinned_at_unix) (\<lambda>pinned_at_unix.
          Inr \<lparr>ps_target_event_id = target_event_id, ps_pin_event_id = pin_event_id,
            ps_actor_user_id = actor_user_id, ps_pinned_at_unix = pinned_at_unix\<rparr>))
      | _ \<Rightarrow> Inl InvalidSnapshotShape)"

definition pin_snapshot_into_frame_body :: "PinSnapshot \<Rightarrow> PinError + FrameBody" where
  "pin_snapshot_into_frame_body m =
     and_then (pin_snapshot_validate m) (\<lambda>_.
     and_then (collect_results pin_snapshot_entry_value (ps_entries m)) (\<lambda>entries.
     Inr (Fields [FString ROOM_PIN_SNAPSHOT_BODY_TAG, FArray (map FU64 (ps_target_event_ids m)),
       FArray entries])))"

definition pin_snapshot_from_frame_body :: "FrameBody \<Rightarrow> PinError + PinSnapshot" where
  "pin_snapshot_from_frame_body body =
     (case body of
        Fields [FString tag, FArray target_values, FArray entry_values] \<Rightarrow>
          if tag \<noteq> ROOM_PIN_SNAPSHOT_BODY_TAG then Inl InvalidSnapshotTag
          else if length target_values > ROOM_PIN_SNAPSHOT_MAX_TARGETS
          then Inl TooManySnapshotTargets
          else if length entry_values > ROOM_PIN_SNAPSHOT_MAX_ENTRIES
          then Inl TooManySnapshotEntries
          else
            and_then (collect_results (event_id_item InvalidEventId InvalidSnapshotShape)
              target_values) (\<lambda>target_event_ids.
            and_then (collect_results pin_parse_snapshot_entry entry_values) (\<lambda>entries.
            let snapshot = \<lparr>ps_target_event_ids = target_event_ids, ps_entries = entries\<rparr> in
            and_then (pin_snapshot_validate snapshot) (\<lambda>_. Inr snapshot)))
      | _ \<Rightarrow> Inl InvalidSnapshotShape)"

section \<open>Valid messages and the bodies they have\<close>

definition pin_ack_valid :: "PinAck \<Rightarrow> bool" where
  "pin_ack_valid m \<longleftrightarrow> pa_target_event_id m \<noteq> 0 \<and> pa_actor_user_id m \<noteq> 0
     \<and> pa_changed m = (pa_pin_event_id m \<noteq> None) \<and> pa_pin_event_id m \<noteq> Some 0"

definition pin_event_valid :: "PinEvent \<Rightarrow> bool" where
  "pin_event_valid m \<longleftrightarrow> pe_pin_event_id m \<noteq> 0 \<and> pe_target_event_id m \<noteq> 0
     \<and> pe_actor_user_id m \<noteq> 0 \<and> \<not> i64_neg (pe_at_unix m)"

definition pin_event_body :: "PinEvent \<Rightarrow> FrameValue \<Rightarrow> FrameBody" where
  "pin_event_body m at = Fields [FU64 (pe_pin_event_id m), FU64 (pe_target_event_id m),
     FU64 (pin_action_code (pe_action m)), FU64 (ucast (pe_actor_user_id m)), at]"

definition pin_entry_body :: "PinSnapshotEntry \<Rightarrow> FrameValue \<Rightarrow> FrameValue" where
  "pin_entry_body e at = FArray [FU64 (ps_target_event_id e), FU64 (ps_pin_event_id e),
     FU64 (ucast (ps_actor_user_id e)), at]"

definition pin_entry_valid :: "PinSnapshotEntry \<Rightarrow> bool" where
  "pin_entry_valid e \<longleftrightarrow> ps_target_event_id e \<noteq> 0 \<and> ps_pin_event_id e \<noteq> 0
     \<and> ps_actor_user_id e \<noteq> 0 \<and> \<not> i64_neg (ps_pinned_at_unix e)"

definition pin_entry_forms :: "PinSnapshotEntry \<Rightarrow> FrameValue set" where
  "pin_entry_forms e = pin_entry_body e ` timestamp_forms (ps_pinned_at_unix e)"

definition pin_snapshot_valid :: "PinSnapshot \<Rightarrow> bool" where
  "pin_snapshot_valid m \<longleftrightarrow>
     length (ps_target_event_ids m) \<le> 256 \<and> length (ps_entries m) \<le> 64
     \<and> 0 \<notin> set (ps_target_event_ids m) \<and> sorted_wrt (<) (ps_target_event_ids m)
     \<and> sorted_wrt (<) (map ps_target_event_id (ps_entries m))
     \<and> (\<forall>e\<in>set (ps_entries m). pin_entry_valid e
          \<and> ps_target_event_id e \<in> set (ps_target_event_ids m))"

lemma pin_action_try_from_Inr [codec_simps]:
  "pin_action_try_from v = Inr action \<longleftrightarrow> v = pin_action_code action"
  by (cases action) (auto simp: pin_action_try_from_def)

lemma pin_action_try_from_code [simp]: "pin_action_try_from (pin_action_code a) = Inr a"
  by (simp add: codec_simps)

lemma pin_validate_Inr [valid_simps]:
  "pin_ack_validate a = Inr u \<longleftrightarrow> pin_ack_valid a"
  "pin_event_validate e = Inr u \<longleftrightarrow> pin_event_valid e"
  "pin_snapshot_validate s = Inr u \<longleftrightarrow> pin_snapshot_valid s"
  by (auto simp: pin_ack_validate_def pin_ack_valid_def pin_event_validate_def pin_event_valid_def
      pin_snapshot_validate_def pin_snapshot_valid_def pin_entry_valid_def pin_fields valid_simps
      ROOM_PIN_SNAPSHOT_MAX_TARGETS_def ROOM_PIN_SNAPSHOT_MAX_ENTRIES_def split: option.splits)

section \<open>The four codecs\<close>

lemma pin_request_into_Inr:
  "pin_request_into_frame_body m = Inr b \<longleftrightarrow> pq_target_event_id m \<noteq> 0
     \<and> b = Fields [FString ROOM_PIN_BODY_TAG, FU64 (pq_target_event_id m),
         FU64 (pin_action_code (pq_action m))]"
  by (auto simp: pin_request_into_frame_body_def pin_fields valid_simps)

lemma pin_request_from_Inr:
  "pin_request_from_frame_body b = Inr m \<longleftrightarrow>
     pq_target_event_id m \<noteq> 0 \<and> pin_request_into_frame_body m = Inr b"
proof
  assume "pin_request_from_frame_body b = Inr m"
  then show "pq_target_event_id m \<noteq> 0 \<and> pin_request_into_frame_body m = Inr b"
    unfolding pin_request_into_Inr
    by (auto simp: pin_request_from_frame_body_def pin_fields valid_simps codec_simps
        split: FrameBody.split_asm list.split_asm FrameValue.split_asm if_split_asm)
qed (auto simp: pin_request_from_frame_body_def pin_request_into_Inr pin_fields valid_simps)

interpretation pin_request: strict_codec pin_request_into_frame_body pin_request_from_frame_body
    "\<lambda>m. pq_target_event_id m \<noteq> 0"
  by unfold_locales (auto simp: pin_request_from_Inr pin_request_into_Inr)

lemma pin_ack_into_Inr:
  "pin_ack_into_frame_body m = Inr b \<longleftrightarrow> pin_ack_valid m
     \<and> b = Fields [FU64 (pa_target_event_id m), FU64 (pin_action_code (pa_action m)),
       FU64 (ucast (pa_actor_user_id m)), FBool (pa_changed m),
       optional_u64_value (pa_pin_event_id m)]"
  by (auto simp: pin_ack_into_frame_body_def valid_simps)

lemma pin_ack_from_Inr:
  "pin_ack_from_frame_body b = Inr m \<longleftrightarrow> pin_ack_valid m \<and> pin_ack_into_frame_body m = Inr b"
proof
  assume "pin_ack_from_frame_body b = Inr m"
  then show "pin_ack_valid m \<and> pin_ack_into_frame_body m = Inr b"
    unfolding pin_ack_into_Inr
    by (auto simp: pin_ack_from_frame_body_def pin_fields valid_simps codec_simps Let_def
        split: FrameBody.split_asm list.split_asm FrameValue.split_asm)
next
  assume "pin_ack_valid m \<and> pin_ack_into_frame_body m = Inr b"
  moreover from this have "pa_actor_user_id m \<noteq> 0" "pa_pin_event_id m \<noteq> Some 0"
    by (auto simp: pin_ack_valid_def)
  ultimately show "pin_ack_from_frame_body b = Inr m"
    by (cases m, auto simp: pin_ack_from_frame_body_def pin_ack_into_Inr pin_fields valid_simps
        Let_def)
qed

interpretation pin_ack: strict_codec pin_ack_into_frame_body pin_ack_from_frame_body pin_ack_valid
  by unfold_locales (auto simp: pin_ack_from_Inr pin_ack_into_Inr)

lemma pin_event_into_Inr:
  "pin_event_into_frame_body m = Inr b \<longleftrightarrow>
     pin_event_valid m \<and> b = pin_event_body m (FU64 (pe_at_unix m))"
  by (auto simp: pin_event_into_frame_body_def pin_event_body_def pin_fields pin_event_valid_def
      valid_simps codec_simps)

lemma pin_event_from_Inr:
  "pin_event_from_frame_body b = Inr m \<longleftrightarrow>
     pin_event_valid m \<and> b \<in> pin_event_body m ` timestamp_forms (pe_at_unix m)"
proof
  assume "pin_event_from_frame_body b = Inr m"
  then show "pin_event_valid m \<and> b \<in> pin_event_body m ` timestamp_forms (pe_at_unix m)"
    by (auto simp: pin_event_from_frame_body_def pin_fields valid_simps codec_simps
        pin_event_body_def Let_def
        split: FrameBody.split_asm list.split_asm FrameValue.split_asm)
next
  assume "pin_event_valid m \<and> b \<in> pin_event_body m ` timestamp_forms (pe_at_unix m)"
  moreover from this have "pe_actor_user_id m \<noteq> 0" "\<not> i64_neg (pe_at_unix m)"
    by (auto simp: pin_event_valid_def)
  ultimately show "pin_event_from_frame_body b = Inr m"
    by (cases m, auto simp: pin_event_from_frame_body_def pin_fields pin_event_body_def
        valid_simps Let_def)
qed

interpretation pin_event: message_codec pin_event_into_frame_body pin_event_from_frame_body
    pin_event_valid
  by unfold_locales (auto simp: pin_event_from_Inr pin_event_into_Inr)

lemma pin_parse_snapshot_entry_Inr:
  "pin_parse_snapshot_entry v = Inr e \<longleftrightarrow>
     (ps_actor_user_id e \<noteq> 0 \<and> \<not> i64_neg (ps_pinned_at_unix e)) \<and> v \<in> pin_entry_forms e"
proof
  assume "pin_parse_snapshot_entry v = Inr e"
  then show "(ps_actor_user_id e \<noteq> 0 \<and> \<not> i64_neg (ps_pinned_at_unix e)) \<and> v \<in> pin_entry_forms e"
    by (auto simp: pin_parse_snapshot_entry_def pin_fields codec_simps pin_entry_forms_def
        pin_entry_body_def split: list.split_asm FrameValue.split_asm)
qed (auto simp: pin_parse_snapshot_entry_def pin_fields pin_entry_forms_def pin_entry_body_def)

lemma pin_snapshot_entries_Inr:
  "collect_results pin_parse_snapshot_entry vs = Inr es \<longleftrightarrow>
     (\<forall>e\<in>set es. ps_actor_user_id e \<noteq> 0 \<and> \<not> i64_neg (ps_pinned_at_unix e))
     \<and> list_all2 (\<lambda>e v. v \<in> pin_entry_forms e) es vs"
  by (rule collect_results_forms) (rule pin_parse_snapshot_entry_Inr)

lemma pin_snapshot_from_Inr:
  "pin_snapshot_from_frame_body b = Inr m \<longleftrightarrow> pin_snapshot_valid m
     \<and> (\<exists>vs. list_all2 (\<lambda>e v. v \<in> pin_entry_forms e) (ps_entries m) vs
          \<and> b = Fields [FString ROOM_PIN_SNAPSHOT_BODY_TAG,
              FArray (map FU64 (ps_target_event_ids m)), FArray vs])"
  (is "_ \<longleftrightarrow> ?valid \<and> (\<exists>vs. ?forms vs \<and> b = ?body vs)")
proof
  assume "pin_snapshot_from_frame_body b = Inr m"
  then show "?valid \<and> (\<exists>vs. ?forms vs \<and> b = ?body vs)"
    by (auto simp: pin_snapshot_from_frame_body_def valid_simps codec_simps Let_def
        pin_snapshot_entries_Inr
        split: FrameBody.split_asm list.split_asm FrameValue.split_asm if_split_asm)
next
  assume R: "?valid \<and> (\<exists>vs. ?forms vs \<and> b = ?body vs)"
  then obtain vs where vs: "?forms vs" "b = ?body vs" by blast
  have "collect_results pin_parse_snapshot_entry vs = Inr (ps_entries m)"
    using R vs by (auto simp: pin_snapshot_entries_Inr pin_snapshot_valid_def pin_entry_valid_def)
  moreover have "length vs = length (ps_entries m)" using vs by (auto dest: list_all2_lengthD)
  moreover have "0 \<notin> set (ps_target_event_ids m)" using R by (simp add: pin_snapshot_valid_def)
  ultimately show "pin_snapshot_from_frame_body b = Inr m" using R vs
    by (auto simp: pin_snapshot_from_frame_body_def valid_simps Let_def pin_snapshot_valid_def
        ROOM_PIN_SNAPSHOT_MAX_TARGETS_def ROOM_PIN_SNAPSHOT_MAX_ENTRIES_def)
qed

lemma pin_snapshot_into_Inr:
  "pin_snapshot_into_frame_body m = Inr b \<longleftrightarrow> pin_snapshot_valid m
     \<and> b = Fields [FString ROOM_PIN_SNAPSHOT_BODY_TAG, FArray (map FU64 (ps_target_event_ids m)),
         FArray (map (\<lambda>e. pin_entry_body e (FU64 (ps_pinned_at_unix e))) (ps_entries m))]"
proof (cases "pin_snapshot_valid m")
  case True
  then have "collect_results pin_snapshot_entry_value (ps_entries m)
      = Inr (map (\<lambda>e. pin_entry_body e (FU64 (ps_pinned_at_unix e))) (ps_entries m))"
    by (intro collect_results_enc)
      (auto simp: pin_snapshot_entry_value_def pin_fields pin_entry_body_def pin_snapshot_valid_def
        pin_entry_valid_def)
  then show ?thesis using True by (auto simp: pin_snapshot_into_frame_body_def valid_simps)
qed (auto simp: pin_snapshot_into_frame_body_def valid_simps)

interpretation pin_snapshot: message_codec pin_snapshot_into_frame_body
    pin_snapshot_from_frame_body pin_snapshot_valid
  by unfold_locales
    (auto simp: pin_snapshot_from_Inr pin_snapshot_into_Inr pin_entry_forms_def list_all2_map2
      list_all2_same)

section \<open>Properties\<close>

text \<open>
  request, acknowledgement and event codecs accept exactly the valid messages, in the shape
  the encoder produces (an event's timestamp also as a signed integer).
\<close>

theorem pin_message_codecs_exact:
  "(pin_request_from_frame_body b = Inr r \<longleftrightarrow>
      pq_target_event_id r \<noteq> 0 \<and> pin_request_into_frame_body r = Inr b)
   \<and> (pin_ack_from_frame_body b = Inr a \<longleftrightarrow> pin_ack_valid a \<and> pin_ack_into_frame_body a = Inr b)
   \<and> (pin_event_from_frame_body b = Inr e \<longleftrightarrow>
      pin_event_valid e \<and> b \<in> pin_event_body e ` {FU64 (pe_at_unix e), FI64 (pe_at_unix e)})"
  using pin_request.dec_iff pin_ack.dec_iff pin_event_from_Inr by (simp add: timestamp_forms_def)

text \<open>
  a valid pin snapshot survives encoding and decoding, and everything the decoder accepts is
  valid: no more than 256 increasing targets and 64 entries, one per target and each for one of
  the targets.
\<close>

theorem pin_snapshot_roundtrip:
  "(pin_snapshot_valid m \<longleftrightarrow>
      and_then (pin_snapshot_into_frame_body m) pin_snapshot_from_frame_body = Inr m)
   \<and> (pin_snapshot_valid m \<longleftrightarrow> (\<exists>b. pin_snapshot_from_frame_body b = Inr m))"
  using pin_snapshot.roundtrip pin_snapshot.range_dec [of m] pin_snapshot.dec_valid
  by (metis and_then_eq_Inr)

end
