(* ===== verification/Message_Revisions.thy ===== *)
theory Message_Revisions
  imports Wire_Fields
begin

text \<open>
  Message revisions (\<^verbatim>\<open>omenchat-protocol/src/message_revisions.rs\<close>): corrections and tombstones
  of earlier messages, with request, acknowledgement, event and snapshot.
\<close>

section \<open>Constants, actions and errors\<close>

definition MESSAGE_REVISIONS_CAPABILITY :: string where
  "MESSAGE_REVISIONS_CAPABILITY = ''message-revisions-v1''"
definition MESSAGE_REVISION_BODY_TAG :: string where
  "MESSAGE_REVISION_BODY_TAG = ''message-revision-v1''"
definition MESSAGE_REVISION_SNAPSHOT_BODY_TAG :: string where
  "MESSAGE_REVISION_SNAPSHOT_BODY_TAG = ''message-revision-snapshot-v1''"
definition MESSAGE_REVISION_MAX_REPLACEMENT_BYTES :: nat where
  "MESSAGE_REVISION_MAX_REPLACEMENT_BYTES = 262144"
definition MESSAGE_REVISION_MAX_ACTOR_DISPLAY_BYTES :: nat where
  "MESSAGE_REVISION_MAX_ACTOR_DISPLAY_BYTES = 256"
definition MESSAGE_REVISION_MAX_NUMBER :: u64 where "MESSAGE_REVISION_MAX_NUMBER = 9"
definition MESSAGE_REVISION_SNAPSHOT_MAX_TARGETS :: nat where
  "MESSAGE_REVISION_SNAPSHOT_MAX_TARGETS = 256"
definition MESSAGE_REVISION_SNAPSHOT_MAX_ENTRIES :: nat where
  "MESSAGE_REVISION_SNAPSHOT_MAX_ENTRIES = 256"

lemmas revision_limits = MESSAGE_REVISION_MAX_REPLACEMENT_BYTES_def
  MESSAGE_REVISION_MAX_ACTOR_DISPLAY_BYTES_def MESSAGE_REVISION_MAX_NUMBER_def
  MESSAGE_REVISION_SNAPSHOT_MAX_TARGETS_def MESSAGE_REVISION_SNAPSHOT_MAX_ENTRIES_def

datatype MessageRevisionAction = Correct | Tombstone

datatype MessageRevisionError =
    InvalidRequestShape | InvalidRequestTag | InvalidEventId | InvalidUserId | UnknownAction
  | EmptyReplacement | ReplacementTooLong | ActionReplacementMismatch | InvalidOptionalString
  | ActorDisplayTooLong | InvalidAckShape | InvalidAckResult | InvalidEventShape
  | InvalidTimestamp | InvalidRevisionNumber | InvalidSnapshotShape | InvalidSnapshotTag
  | TooManySnapshotTargets | TooManySnapshotEntries | NonCanonicalSnapshotTargets
  | NonCanonicalSnapshotEntries | SnapshotEntryOutsideTargets

datatype MessageRevisionField = Replacement | ActorDisplay

primrec revision_action_code :: "MessageRevisionAction \<Rightarrow> u64" where
  "revision_action_code Correct = 1"
| "revision_action_code Tombstone = 2"

definition revision_action_try_from :: "u64 \<Rightarrow> MessageRevisionError + MessageRevisionAction" where
  "revision_action_try_from v =
     (if v = 1 then Inr Correct else if v = 2 then Inr Tombstone else Inl UnknownAction)"

section \<open>Fields\<close>

definition revision_parse_optional_string ::
    "FrameValue \<Rightarrow> MessageRevisionField \<Rightarrow> MessageRevisionError + string option" where
  "revision_parse_optional_string v field =
     (case v of
        FNil \<Rightarrow> Inr None
      | FString s \<Rightarrow>
          if field = Replacement \<and> length s > MESSAGE_REVISION_MAX_REPLACEMENT_BYTES
          then Inl ReplacementTooLong
          else if field = ActorDisplay \<and> length s > MESSAGE_REVISION_MAX_ACTOR_DISPLAY_BYTES
          then Inl ActorDisplayTooLong
          else Inr (Some s)
      | _ \<Rightarrow> Inl InvalidOptionalString)"

definition revision_validate_replacement ::
    "MessageRevisionAction \<Rightarrow> string option \<Rightarrow> MessageRevisionError + unit" where
  "revision_validate_replacement action replacement =
     (case (action, replacement) of
        (Correct, Some v) \<Rightarrow>
          if v = [] then Inl EmptyReplacement
          else if length v > MESSAGE_REVISION_MAX_REPLACEMENT_BYTES then Inl ReplacementTooLong
          else Inr ()
      | (Tombstone, None) \<Rightarrow> Inr ()
      | _ \<Rightarrow> Inl ActionReplacementMismatch)"

definition revision_validate_actor_display_name :: "string option \<Rightarrow> MessageRevisionError + unit" where
  "revision_validate_actor_display_name v =
     (if (case v of Some s \<Rightarrow> length s > MESSAGE_REVISION_MAX_ACTOR_DISPLAY_BYTES | None \<Rightarrow> False)
      then Inl ActorDisplayTooLong else Inr ())"

definition revision_validate_number :: "u64 \<Rightarrow> MessageRevisionError + unit" where
  "revision_validate_number n =
     (if 1 \<le> n \<and> n \<le> MESSAGE_REVISION_MAX_NUMBER then Inr () else Inl InvalidRevisionNumber)"

definition revision_validate_event_id :: "EventId \<Rightarrow> MessageRevisionError + unit" where
  "revision_validate_event_id = nonzero_or InvalidEventId"

definition revision_validate_user_id :: "UserId \<Rightarrow> MessageRevisionError + unit" where
  "revision_validate_user_id = nonzero_or InvalidUserId"

definition revision_parse_user_id :: "u64 \<Rightarrow> MessageRevisionError + UserId" where
  "revision_parse_user_id = u32_id_field InvalidUserId"

definition revision_parse_optional_event_id ::
    "FrameValue \<Rightarrow> MessageRevisionError + EventId option" where
  "revision_parse_optional_event_id = optional_event_id_field InvalidEventId InvalidAckShape"

definition revision_validate_timestamp :: "i64 \<Rightarrow> MessageRevisionError + unit" where
  "revision_validate_timestamp = nonneg_or InvalidTimestamp"

definition revision_timestamp_value :: "i64 \<Rightarrow> MessageRevisionError + FrameValue" where
  "revision_timestamp_value = timestamp_to_field InvalidTimestamp"

definition revision_parse_timestamp :: "FrameValue \<Rightarrow> MessageRevisionError + i64" where
  "revision_parse_timestamp = timestamp_field InvalidTimestamp"

lemmas revision_fields = revision_validate_event_id_def revision_validate_user_id_def
  revision_parse_user_id_def revision_parse_optional_event_id_def revision_validate_timestamp_def
  revision_timestamp_value_def revision_parse_timestamp_def

section \<open>Request\<close>

record MessageRevisionRequest =
  mq_target_event_id :: EventId
  mq_action :: MessageRevisionAction
  mq_replacement :: "string option"

definition revision_request_validate :: "MessageRevisionRequest \<Rightarrow> MessageRevisionError + unit" where
  "revision_request_validate m =
     and_then (revision_validate_event_id (mq_target_event_id m)) (\<lambda>_.
     revision_validate_replacement (mq_action m) (mq_replacement m))"

definition revision_request_into_frame_body ::
    "MessageRevisionRequest \<Rightarrow> MessageRevisionError + FrameBody" where
  "revision_request_into_frame_body m =
     and_then (revision_request_validate m) (\<lambda>_.
     Inr (Fields [FString MESSAGE_REVISION_BODY_TAG, FU64 (mq_target_event_id m),
       FU64 (revision_action_code (mq_action m)), optional_string_value (mq_replacement m)]))"

definition revision_request_from_frame_body ::
    "FrameBody \<Rightarrow> MessageRevisionError + MessageRevisionRequest" where
  "revision_request_from_frame_body body =
     (case body of
        Fields [FString tag, FU64 target_event_id, FU64 action, replacement] \<Rightarrow>
          if tag \<noteq> MESSAGE_REVISION_BODY_TAG then Inl InvalidRequestTag
          else
            and_then (revision_action_try_from action) (\<lambda>action.
            and_then (revision_parse_optional_string replacement Replacement) (\<lambda>replacement.
            let request = \<lparr>mq_target_event_id = target_event_id, mq_action = action,
              mq_replacement = replacement\<rparr> in
            and_then (revision_request_validate request) (\<lambda>_. Inr request)))
      | _ \<Rightarrow> Inl InvalidRequestShape)"

section \<open>Acknowledgement\<close>

record MessageRevisionAck =
  ma_target_event_id :: EventId
  ma_action :: MessageRevisionAction
  ma_actor_user_id :: UserId
  ma_changed :: bool
  ma_revision_event_id :: "EventId option"
  ma_revision_number :: u64

definition revision_ack_validate :: "MessageRevisionAck \<Rightarrow> MessageRevisionError + unit" where
  "revision_ack_validate m =
     and_then (revision_validate_event_id (ma_target_event_id m)) (\<lambda>_.
     and_then (revision_validate_user_id (ma_actor_user_id m)) (\<lambda>_.
     and_then (revision_validate_number (ma_revision_number m)) (\<lambda>_.
     if ma_changed m \<noteq> (ma_revision_event_id m \<noteq> None) then Inl InvalidAckResult else Inr ())))"

definition revision_ack_into_frame_body ::
    "MessageRevisionAck \<Rightarrow> MessageRevisionError + FrameBody" where
  "revision_ack_into_frame_body m =
     and_then (revision_ack_validate m) (\<lambda>_.
     Inr (Fields [FU64 (ma_target_event_id m), FU64 (revision_action_code (ma_action m)),
       FU64 (ucast (ma_actor_user_id m)), FBool (ma_changed m),
       optional_u64_value (ma_revision_event_id m), FU64 (ma_revision_number m)]))"

definition revision_ack_from_frame_body ::
    "FrameBody \<Rightarrow> MessageRevisionError + MessageRevisionAck" where
  "revision_ack_from_frame_body body =
     (case body of
        Fields [FU64 target_event_id, FU64 action, FU64 actor_user_id, FBool changed,
            revision_event_id, FU64 revision_number] \<Rightarrow>
          and_then (revision_action_try_from action) (\<lambda>action.
          and_then (revision_parse_user_id actor_user_id) (\<lambda>actor_user_id.
          and_then (revision_parse_optional_event_id revision_event_id) (\<lambda>revision_event_id.
          let ack = \<lparr>ma_target_event_id = target_event_id, ma_action = action,
            ma_actor_user_id = actor_user_id, ma_changed = changed,
            ma_revision_event_id = revision_event_id, ma_revision_number = revision_number\<rparr> in
          and_then (revision_ack_validate ack) (\<lambda>_. Inr ack))))
      | _ \<Rightarrow> Inl InvalidAckShape)"

section \<open>Event\<close>

record MessageRevisionEvent =
  me_revision_event_id :: EventId
  me_target_event_id :: EventId
  me_action :: MessageRevisionAction
  me_actor_user_id :: UserId
  me_at_unix :: i64
  me_replacement :: "string option"
  me_revision_number :: u64
  me_actor_display_name :: "string option"

definition revision_event_validate :: "MessageRevisionEvent \<Rightarrow> MessageRevisionError + unit" where
  "revision_event_validate m =
     and_then (revision_validate_event_id (me_revision_event_id m)) (\<lambda>_.
     and_then (revision_validate_event_id (me_target_event_id m)) (\<lambda>_.
     and_then (revision_validate_user_id (me_actor_user_id m)) (\<lambda>_.
     and_then (revision_validate_timestamp (me_at_unix m)) (\<lambda>_.
     and_then (revision_validate_number (me_revision_number m)) (\<lambda>_.
     and_then (revision_validate_replacement (me_action m) (me_replacement m)) (\<lambda>_.
     revision_validate_actor_display_name (me_actor_display_name m)))))))"

definition revision_event_into_frame_body ::
    "MessageRevisionEvent \<Rightarrow> MessageRevisionError + FrameBody" where
  "revision_event_into_frame_body m =
     and_then (revision_event_validate m) (\<lambda>_.
     and_then (revision_timestamp_value (me_at_unix m)) (\<lambda>at_unix.
     Inr (Fields [FU64 (me_revision_event_id m), FU64 (me_target_event_id m),
       FU64 (revision_action_code (me_action m)), FU64 (ucast (me_actor_user_id m)), at_unix,
       optional_string_value (me_replacement m), FU64 (me_revision_number m),
       optional_string_value (me_actor_display_name m)])))"

definition revision_event_from_frame_body ::
    "FrameBody \<Rightarrow> MessageRevisionError + MessageRevisionEvent" where
  "revision_event_from_frame_body body =
     (case body of
        Fields [FU64 revision_event_id, FU64 target_event_id, FU64 action, FU64 actor_user_id,
            at_unix, replacement, FU64 revision_number, actor_display_name] \<Rightarrow>
          and_then (revision_action_try_from action) (\<lambda>action.
          and_then (revision_parse_user_id actor_user_id) (\<lambda>actor_user_id.
          and_then (revision_parse_timestamp at_unix) (\<lambda>at_unix.
          and_then (revision_parse_optional_string replacement Replacement) (\<lambda>replacement.
          and_then (revision_parse_optional_string actor_display_name ActorDisplay)
            (\<lambda>actor_display_name.
          let event = \<lparr>me_revision_event_id = revision_event_id,
            me_target_event_id = target_event_id, me_action = action,
            me_actor_user_id = actor_user_id, me_at_unix = at_unix, me_replacement = replacement,
            me_revision_number = revision_number, me_actor_display_name = actor_display_name\<rparr> in
          and_then (revision_event_validate event) (\<lambda>_. Inr event))))))
      | _ \<Rightarrow> Inl InvalidEventShape)"

section \<open>Snapshot\<close>

record MessageRevisionSnapshotEntry =
  ms_target_event_id :: EventId
  ms_latest_revision_event_id :: EventId
  ms_action :: MessageRevisionAction
  ms_actor_user_id :: UserId
  ms_at_unix :: i64
  ms_replacement :: "string option"
  ms_revision_number :: u64

record MessageRevisionSnapshot =
  ms_target_event_ids :: "EventId list"
  ms_entries :: "MessageRevisionSnapshotEntry list"

definition revision_entry_validate ::
    "MessageRevisionSnapshotEntry \<Rightarrow> MessageRevisionError + unit" where
  "revision_entry_validate e =
     and_then (revision_validate_event_id (ms_target_event_id e)) (\<lambda>_.
     and_then (revision_validate_event_id (ms_latest_revision_event_id e)) (\<lambda>_.
     and_then (revision_validate_user_id (ms_actor_user_id e)) (\<lambda>_.
     and_then (revision_validate_timestamp (ms_at_unix e)) (\<lambda>_.
     and_then (revision_validate_number (ms_revision_number e)) (\<lambda>_.
     revision_validate_replacement (ms_action e) (ms_replacement e))))))"

definition revision_entry_into_value ::
    "MessageRevisionSnapshotEntry \<Rightarrow> MessageRevisionError + FrameValue" where
  "revision_entry_into_value e =
     and_then (revision_entry_validate e) (\<lambda>_.
     and_then (revision_timestamp_value (ms_at_unix e)) (\<lambda>at_unix.
     Inr (FArray [FU64 (ms_target_event_id e), FU64 (ms_latest_revision_event_id e),
       FU64 (revision_action_code (ms_action e)), FU64 (ucast (ms_actor_user_id e)), at_unix,
       optional_string_value (ms_replacement e), FU64 (ms_revision_number e)])))"

definition revision_entry_from_value ::
    "FrameValue \<Rightarrow> MessageRevisionError + MessageRevisionSnapshotEntry" where
  "revision_entry_from_value v =
     (case v of
        FArray [FU64 target_event_id, FU64 latest_revision_event_id, FU64 action,
            FU64 actor_user_id, at_unix, replacement, FU64 revision_number] \<Rightarrow>
          and_then (revision_action_try_from action) (\<lambda>action.
          and_then (revision_parse_user_id actor_user_id) (\<lambda>actor_user_id.
          and_then (revision_parse_timestamp at_unix) (\<lambda>at_unix.
          and_then (revision_parse_optional_string replacement Replacement) (\<lambda>replacement.
          let entry = \<lparr>ms_target_event_id = target_event_id,
            ms_latest_revision_event_id = latest_revision_event_id, ms_action = action,
            ms_actor_user_id = actor_user_id, ms_at_unix = at_unix, ms_replacement = replacement,
            ms_revision_number = revision_number\<rparr> in
          and_then (revision_entry_validate entry) (\<lambda>_. Inr entry)))))
      | _ \<Rightarrow> Inl InvalidSnapshotShape)"

definition revision_snapshot_validate :: "MessageRevisionSnapshot \<Rightarrow> MessageRevisionError + unit" where
  "revision_snapshot_validate m =
     (if length (ms_target_event_ids m) > MESSAGE_REVISION_SNAPSHOT_MAX_TARGETS
      then Inl TooManySnapshotTargets
      else if length (ms_entries m) > MESSAGE_REVISION_SNAPSHOT_MAX_ENTRIES
      then Inl TooManySnapshotEntries
      else if \<exists>event_id\<in>set (ms_target_event_ids m). \<not> is_ok (revision_validate_event_id event_id)
      then Inl InvalidEventId
      else if \<not> windows_ok (\<lambda>a b. a < b) (ms_target_event_ids m)
      then Inl NonCanonicalSnapshotTargets
      else
        and_then (for_each_ok (\<lambda>entry.
            and_then (revision_entry_validate entry) (\<lambda>_.
            if \<not> binary_search_found (ms_target_event_ids m) (ms_target_event_id entry)
            then Inl SnapshotEntryOutsideTargets else Inr ())) (ms_entries m)) (\<lambda>_.
        if \<not> windows_ok (\<lambda>a b. ms_target_event_id a < ms_target_event_id b) (ms_entries m)
        then Inl NonCanonicalSnapshotEntries
        else Inr ()))"

definition revision_snapshot_into_frame_body ::
    "MessageRevisionSnapshot \<Rightarrow> MessageRevisionError + FrameBody" where
  "revision_snapshot_into_frame_body m =
     and_then (revision_snapshot_validate m) (\<lambda>_.
     and_then (collect_results revision_entry_into_value (ms_entries m)) (\<lambda>entries.
     Inr (Fields [FString MESSAGE_REVISION_SNAPSHOT_BODY_TAG,
       FArray (map FU64 (ms_target_event_ids m)), FArray entries])))"

definition revision_snapshot_from_frame_body ::
    "FrameBody \<Rightarrow> MessageRevisionError + MessageRevisionSnapshot" where
  "revision_snapshot_from_frame_body body =
     (case body of
        Fields [FString tag, FArray targets, FArray entries] \<Rightarrow>
          if tag \<noteq> MESSAGE_REVISION_SNAPSHOT_BODY_TAG then Inl InvalidSnapshotTag
          else if length targets > MESSAGE_REVISION_SNAPSHOT_MAX_TARGETS
          then Inl TooManySnapshotTargets
          else if length entries > MESSAGE_REVISION_SNAPSHOT_MAX_ENTRIES
          then Inl TooManySnapshotEntries
          else
            and_then (collect_results (event_id_item InvalidEventId InvalidSnapshotShape) targets)
              (\<lambda>target_event_ids.
            and_then (collect_results revision_entry_from_value entries) (\<lambda>entries.
            let snapshot = \<lparr>ms_target_event_ids = target_event_ids, ms_entries = entries\<rparr> in
            and_then (revision_snapshot_validate snapshot) (\<lambda>_. Inr snapshot)))
      | _ \<Rightarrow> Inl InvalidSnapshotShape)"

section \<open>Valid messages and the bodies they have\<close>

definition replacement_valid :: "MessageRevisionAction \<Rightarrow> string option \<Rightarrow> bool" where
  "replacement_valid action r \<longleftrightarrow>
     (case r of
        Some s \<Rightarrow> action = Correct \<and> s \<noteq> [] \<and> length s \<le> 262144
      | None \<Rightarrow> action = Tombstone)"

definition display_valid :: "string option \<Rightarrow> bool" where
  "display_valid d \<longleftrightarrow> (\<forall>s. d = Some s \<longrightarrow> length s \<le> 256)"

definition revision_request_valid :: "MessageRevisionRequest \<Rightarrow> bool" where
  "revision_request_valid m \<longleftrightarrow>
     mq_target_event_id m \<noteq> 0 \<and> replacement_valid (mq_action m) (mq_replacement m)"

definition revision_ack_encodable :: "MessageRevisionAck \<Rightarrow> bool" where
  "revision_ack_encodable m \<longleftrightarrow> ma_target_event_id m \<noteq> 0 \<and> ma_actor_user_id m \<noteq> 0
     \<and> 1 \<le> ma_revision_number m \<and> ma_revision_number m \<le> 9
     \<and> ma_changed m = (ma_revision_event_id m \<noteq> None)"

definition revision_ack_valid :: "MessageRevisionAck \<Rightarrow> bool" where
  "revision_ack_valid m \<longleftrightarrow> revision_ack_encodable m \<and> ma_revision_event_id m \<noteq> Some 0"

definition revision_event_valid :: "MessageRevisionEvent \<Rightarrow> bool" where
  "revision_event_valid m \<longleftrightarrow> me_revision_event_id m \<noteq> 0 \<and> me_target_event_id m \<noteq> 0
     \<and> me_actor_user_id m \<noteq> 0 \<and> \<not> i64_neg (me_at_unix m)
     \<and> 1 \<le> me_revision_number m \<and> me_revision_number m \<le> 9
     \<and> replacement_valid (me_action m) (me_replacement m) \<and> display_valid (me_actor_display_name m)"

definition revision_event_body :: "MessageRevisionEvent \<Rightarrow> FrameValue \<Rightarrow> FrameBody" where
  "revision_event_body m at = Fields [FU64 (me_revision_event_id m), FU64 (me_target_event_id m),
     FU64 (revision_action_code (me_action m)), FU64 (ucast (me_actor_user_id m)), at,
     optional_string_value (me_replacement m), FU64 (me_revision_number m),
     optional_string_value (me_actor_display_name m)]"

definition revision_entry_valid :: "MessageRevisionSnapshotEntry \<Rightarrow> bool" where
  "revision_entry_valid e \<longleftrightarrow> ms_target_event_id e \<noteq> 0 \<and> ms_latest_revision_event_id e \<noteq> 0
     \<and> ms_actor_user_id e \<noteq> 0 \<and> \<not> i64_neg (ms_at_unix e)
     \<and> 1 \<le> ms_revision_number e \<and> ms_revision_number e \<le> 9
     \<and> replacement_valid (ms_action e) (ms_replacement e)"

definition revision_entry_body :: "MessageRevisionSnapshotEntry \<Rightarrow> FrameValue \<Rightarrow> FrameValue" where
  "revision_entry_body e at = FArray [FU64 (ms_target_event_id e),
     FU64 (ms_latest_revision_event_id e), FU64 (revision_action_code (ms_action e)),
     FU64 (ucast (ms_actor_user_id e)), at, optional_string_value (ms_replacement e),
     FU64 (ms_revision_number e)]"

definition revision_entry_forms :: "MessageRevisionSnapshotEntry \<Rightarrow> FrameValue set" where
  "revision_entry_forms e = revision_entry_body e ` timestamp_forms (ms_at_unix e)"

definition revision_snapshot_valid :: "MessageRevisionSnapshot \<Rightarrow> bool" where
  "revision_snapshot_valid m \<longleftrightarrow>
     length (ms_target_event_ids m) \<le> 256 \<and> length (ms_entries m) \<le> 256
     \<and> 0 \<notin> set (ms_target_event_ids m) \<and> sorted_wrt (<) (ms_target_event_ids m)
     \<and> sorted_wrt (<) (map ms_target_event_id (ms_entries m))
     \<and> (\<forall>e\<in>set (ms_entries m). revision_entry_valid e
          \<and> ms_target_event_id e \<in> set (ms_target_event_ids m))"

lemma revision_action_try_from_Inr [codec_simps]:
  "revision_action_try_from v = Inr action \<longleftrightarrow> v = revision_action_code action"
  by (cases action) (auto simp: revision_action_try_from_def)

lemma revision_action_try_from_code [simp]:
  "revision_action_try_from (revision_action_code a) = Inr a"
  by (simp add: codec_simps)

lemma revision_field_Inr [valid_simps]:
  "revision_validate_replacement action r = Inr u \<longleftrightarrow> replacement_valid action r"
  "revision_validate_actor_display_name d = Inr u \<longleftrightarrow> display_valid d"
  "revision_validate_number n = Inr u \<longleftrightarrow> 1 \<le> n \<and> n \<le> 9"
  by (auto simp: revision_validate_replacement_def replacement_valid_def revision_limits
      revision_validate_actor_display_name_def display_valid_def revision_validate_number_def
      split: option.splits MessageRevisionAction.splits)

lemma revision_validate_Inr [valid_simps]:
  "revision_request_validate r = Inr u \<longleftrightarrow> revision_request_valid r"
  "revision_ack_validate a = Inr u \<longleftrightarrow> revision_ack_encodable a"
  "revision_event_validate e = Inr u \<longleftrightarrow> revision_event_valid e"
  "revision_entry_validate x = Inr u \<longleftrightarrow> revision_entry_valid x"
  by (auto simp: revision_request_validate_def revision_request_valid_def revision_ack_validate_def
      revision_ack_encodable_def revision_event_validate_def revision_event_valid_def
      revision_entry_validate_def revision_entry_valid_def revision_fields valid_simps)

lemma revision_snapshot_validate_Inr [valid_simps]:
  "revision_snapshot_validate s = Inr u \<longleftrightarrow> revision_snapshot_valid s"
  by (auto simp: revision_snapshot_validate_def revision_snapshot_valid_def revision_fields
      valid_simps revision_limits)

lemma revision_parse_optional_string_Inr [codec_simps]:
  "revision_parse_optional_string v Replacement = Inr r \<longleftrightarrow>
     (\<forall>s. r = Some s \<longrightarrow> length s \<le> 262144) \<and> v = optional_string_value r"
  "revision_parse_optional_string v ActorDisplay = Inr r \<longleftrightarrow>
     display_valid r \<and> v = optional_string_value r"
  by (cases v; cases r;
      auto simp: revision_parse_optional_string_def display_valid_def optional_string_value_def
        revision_limits)+

lemma revision_parse_optional_string_value [simp]:
  "replacement_valid a r \<Longrightarrow>
     revision_parse_optional_string (optional_string_value r) Replacement = Inr r"
  "display_valid d \<Longrightarrow>
     revision_parse_optional_string (optional_string_value d) ActorDisplay = Inr d"
  by (auto simp: codec_simps replacement_valid_def)

section \<open>The four codecs\<close>

lemma revision_request_into_Inr:
  "revision_request_into_frame_body m = Inr b \<longleftrightarrow> revision_request_valid m
     \<and> b = Fields [FString MESSAGE_REVISION_BODY_TAG, FU64 (mq_target_event_id m),
         FU64 (revision_action_code (mq_action m)), optional_string_value (mq_replacement m)]"
  by (auto simp: revision_request_into_frame_body_def valid_simps)

lemma revision_request_from_Inr:
  "revision_request_from_frame_body b = Inr m \<longleftrightarrow>
     revision_request_valid m \<and> revision_request_into_frame_body m = Inr b"
proof
  assume "revision_request_from_frame_body b = Inr m"
  then show "revision_request_valid m \<and> revision_request_into_frame_body m = Inr b"
    unfolding revision_request_into_Inr
    by (auto simp: revision_request_from_frame_body_def valid_simps codec_simps Let_def
        split: FrameBody.split_asm list.split_asm FrameValue.split_asm if_split_asm)
next
  assume "revision_request_valid m \<and> revision_request_into_frame_body m = Inr b"
  moreover from this have "replacement_valid (mq_action m) (mq_replacement m)"
    by (simp add: revision_request_valid_def)
  ultimately show "revision_request_from_frame_body b = Inr m"
    by (cases m, auto simp: revision_request_from_frame_body_def revision_request_into_Inr
        valid_simps Let_def)
qed

interpretation revision_request: strict_codec revision_request_into_frame_body
    revision_request_from_frame_body revision_request_valid
  by unfold_locales (auto simp: revision_request_from_Inr revision_request_into_Inr)

lemma revision_ack_into_Inr:
  "revision_ack_into_frame_body m = Inr b \<longleftrightarrow> revision_ack_encodable m
     \<and> b = Fields [FU64 (ma_target_event_id m), FU64 (revision_action_code (ma_action m)),
       FU64 (ucast (ma_actor_user_id m)), FBool (ma_changed m),
       optional_u64_value (ma_revision_event_id m), FU64 (ma_revision_number m)]"
  by (auto simp: revision_ack_into_frame_body_def valid_simps)

lemma revision_ack_from_Inr:
  "revision_ack_from_frame_body b = Inr m \<longleftrightarrow>
     revision_ack_valid m \<and> revision_ack_into_frame_body m = Inr b"
proof
  assume "revision_ack_from_frame_body b = Inr m"
  then show "revision_ack_valid m \<and> revision_ack_into_frame_body m = Inr b"
    unfolding revision_ack_into_Inr revision_ack_valid_def
    by (auto simp: revision_ack_from_frame_body_def revision_fields valid_simps codec_simps Let_def
        split: FrameBody.split_asm list.split_asm FrameValue.split_asm)
next
  assume "revision_ack_valid m \<and> revision_ack_into_frame_body m = Inr b"
  moreover from this have "ma_actor_user_id m \<noteq> 0" "ma_revision_event_id m \<noteq> Some 0"
    by (auto simp: revision_ack_valid_def revision_ack_encodable_def)
  ultimately show "revision_ack_from_frame_body b = Inr m"
    by (cases m, auto simp: revision_ack_from_frame_body_def revision_ack_into_Inr revision_fields
        valid_simps Let_def)
qed

interpretation revision_ack: strict_codec revision_ack_into_frame_body
    revision_ack_from_frame_body revision_ack_valid
  by unfold_locales
    (auto simp: revision_ack_from_Inr revision_ack_into_Inr revision_ack_valid_def)

lemma revision_event_into_Inr:
  "revision_event_into_frame_body m = Inr b \<longleftrightarrow>
     revision_event_valid m \<and> b = revision_event_body m (FU64 (me_at_unix m))"
  by (auto simp: revision_event_into_frame_body_def revision_event_body_def revision_fields
      revision_event_valid_def valid_simps codec_simps)

lemma revision_event_from_Inr:
  "revision_event_from_frame_body b = Inr m \<longleftrightarrow>
     revision_event_valid m \<and> b \<in> revision_event_body m ` timestamp_forms (me_at_unix m)"
proof
  assume "revision_event_from_frame_body b = Inr m"
  then show "revision_event_valid m \<and> b \<in> revision_event_body m ` timestamp_forms (me_at_unix m)"
    by (auto simp: revision_event_from_frame_body_def revision_fields valid_simps codec_simps
        revision_event_body_def Let_def
        split: FrameBody.split_asm list.split_asm FrameValue.split_asm)
next
  assume "revision_event_valid m \<and> b \<in> revision_event_body m ` timestamp_forms (me_at_unix m)"
  moreover from this have "me_actor_user_id m \<noteq> 0" "\<not> i64_neg (me_at_unix m)"
    "replacement_valid (me_action m) (me_replacement m)" "display_valid (me_actor_display_name m)"
    by (auto simp: revision_event_valid_def)
  ultimately show "revision_event_from_frame_body b = Inr m"
    by (cases m, auto simp: revision_event_from_frame_body_def revision_fields
        revision_event_body_def valid_simps Let_def)
qed

interpretation revision_event: message_codec revision_event_into_frame_body
    revision_event_from_frame_body revision_event_valid
  by unfold_locales (auto simp: revision_event_from_Inr revision_event_into_Inr)

lemma revision_entry_from_Inr:
  "revision_entry_from_value v = Inr e \<longleftrightarrow> revision_entry_valid e \<and> v \<in> revision_entry_forms e"
proof
  assume "revision_entry_from_value v = Inr e"
  then show "revision_entry_valid e \<and> v \<in> revision_entry_forms e"
    by (auto simp: revision_entry_from_value_def revision_fields codec_simps valid_simps Let_def
        revision_entry_forms_def revision_entry_body_def
        split: list.split_asm FrameValue.split_asm)
next
  assume "revision_entry_valid e \<and> v \<in> revision_entry_forms e"
  moreover from this have "ms_actor_user_id e \<noteq> 0" "\<not> i64_neg (ms_at_unix e)"
    "replacement_valid (ms_action e) (ms_replacement e)"
    by (auto simp: revision_entry_valid_def)
  ultimately show "revision_entry_from_value v = Inr e"
    by (cases e, auto simp: revision_entry_from_value_def revision_fields valid_simps Let_def
        revision_entry_forms_def revision_entry_body_def)
qed

lemma revision_entries_Inr:
  "collect_results revision_entry_from_value vs = Inr es \<longleftrightarrow>
     (\<forall>e\<in>set es. revision_entry_valid e) \<and> list_all2 (\<lambda>e v. v \<in> revision_entry_forms e) es vs"
  by (rule collect_results_forms) (rule revision_entry_from_Inr)

lemma revision_snapshot_from_Inr:
  "revision_snapshot_from_frame_body b = Inr m \<longleftrightarrow> revision_snapshot_valid m
     \<and> (\<exists>vs. list_all2 (\<lambda>e v. v \<in> revision_entry_forms e) (ms_entries m) vs
          \<and> b = Fields [FString MESSAGE_REVISION_SNAPSHOT_BODY_TAG,
              FArray (map FU64 (ms_target_event_ids m)), FArray vs])"
  (is "_ \<longleftrightarrow> ?valid \<and> (\<exists>vs. ?forms vs \<and> b = ?body vs)")
proof
  assume "revision_snapshot_from_frame_body b = Inr m"
  then show "?valid \<and> (\<exists>vs. ?forms vs \<and> b = ?body vs)"
    by (auto simp: revision_snapshot_from_frame_body_def valid_simps codec_simps Let_def
        revision_entries_Inr
        split: FrameBody.split_asm list.split_asm FrameValue.split_asm if_split_asm)
next
  assume R: "?valid \<and> (\<exists>vs. ?forms vs \<and> b = ?body vs)"
  then obtain vs where vs: "?forms vs" "b = ?body vs" by blast
  have "collect_results revision_entry_from_value vs = Inr (ms_entries m)"
    using R vs by (auto simp: revision_entries_Inr revision_snapshot_valid_def)
  moreover have "length vs = length (ms_entries m)" using vs by (auto dest: list_all2_lengthD)
  moreover have "0 \<notin> set (ms_target_event_ids m)" using R by (simp add: revision_snapshot_valid_def)
  ultimately show "revision_snapshot_from_frame_body b = Inr m" using R vs
    by (auto simp: revision_snapshot_from_frame_body_def valid_simps Let_def
        revision_snapshot_valid_def revision_limits)
qed

lemma revision_snapshot_into_Inr:
  "revision_snapshot_into_frame_body m = Inr b \<longleftrightarrow> revision_snapshot_valid m
     \<and> b = Fields [FString MESSAGE_REVISION_SNAPSHOT_BODY_TAG,
         FArray (map FU64 (ms_target_event_ids m)),
         FArray (map (\<lambda>e. revision_entry_body e (FU64 (ms_at_unix e))) (ms_entries m))]"
proof (cases "revision_snapshot_valid m")
  case True
  have "revision_entry_into_value e = Inr (revision_entry_body e (FU64 (ms_at_unix e)))"
    if "revision_entry_valid e" for e
    using that by (auto simp: revision_entry_into_value_def revision_fields revision_entry_body_def
        revision_entry_valid_def valid_simps codec_simps)
  then have "collect_results revision_entry_into_value (ms_entries m)
      = Inr (map (\<lambda>e. revision_entry_body e (FU64 (ms_at_unix e))) (ms_entries m))"
    using True by (intro collect_results_enc) (auto simp: revision_snapshot_valid_def)
  then show ?thesis using True by (auto simp: revision_snapshot_into_frame_body_def valid_simps)
qed (auto simp: revision_snapshot_into_frame_body_def valid_simps)

interpretation revision_snapshot: message_codec revision_snapshot_into_frame_body
    revision_snapshot_from_frame_body revision_snapshot_valid
  by unfold_locales
    (auto simp: revision_snapshot_from_Inr revision_snapshot_into_Inr revision_entry_forms_def
      list_all2_map2 list_all2_same)

section \<open>Properties\<close>

text \<open>
  an accepted revision request or event is a correction with a non-empty replacement of at
  most 256 KiB, or a tombstone without one, of a non-zero event; the request codec is exact, and
  an event body is accepted only in the encoder's shape (its timestamp unsigned or signed).
\<close>

theorem revision_message_codecs_exact:
  "(revision_request_from_frame_body b = Inr r \<longleftrightarrow>
      revision_request_valid r \<and> revision_request_into_frame_body r = Inr b)
   \<and> (revision_event_from_frame_body b = Inr e \<longleftrightarrow>
      revision_event_valid e
      \<and> b \<in> revision_event_body e ` {FU64 (me_at_unix e), FI64 (me_at_unix e)})"
  using revision_request.dec_iff revision_event_from_Inr by (simp add: timestamp_forms_def)

text \<open>
  the acknowledgement codec round trips every acknowledgement whose revision event id is not
  zero, but the encoder also accepts one that reports the event id zero, and then produces a body
  that the decoder rejects: unlike the reaction and pin acknowledgements, validation does not
  look at the reported id.
\<close>

theorem revision_ack_zero_event_id:
  "(revision_ack_from_frame_body b = Inr a \<longleftrightarrow>
      revision_ack_valid a \<and> revision_ack_into_frame_body a = Inr b)
   \<and> and_then (revision_ack_into_frame_body \<lparr>ma_target_event_id = 5, ma_action = Tombstone,
        ma_actor_user_id = 7, ma_changed = True, ma_revision_event_id = Some 0,
        ma_revision_number = 1\<rparr>) revision_ack_from_frame_body = Inl InvalidEventId"
proof
  show "revision_ack_from_frame_body b = Inr a \<longleftrightarrow>
      revision_ack_valid a \<and> revision_ack_into_frame_body a = Inr b"
    by (rule revision_ack.dec_iff)
  show "and_then (revision_ack_into_frame_body \<lparr>ma_target_event_id = 5, ma_action = Tombstone,
        ma_actor_user_id = 7, ma_changed = True, ma_revision_event_id = Some 0,
        ma_revision_number = 1\<rparr>) revision_ack_from_frame_body = Inl InvalidEventId"
    by (simp add: revision_ack_into_frame_body_def revision_ack_validate_def revision_fields
        revision_validate_number_def revision_limits nonzero_or_def revision_ack_from_frame_body_def
        revision_action_try_from_def u32_id_field_def u32_try_from_def optional_event_id_field_def
        optional_u64_value_def)
qed

text \<open>
  a valid revision snapshot survives encoding and decoding, and everything the decoder
  accepts is valid: at most 256 increasing targets, one entry per target at most, each a valid
  revision of one of them with a revision number from one to nine.
\<close>

theorem revision_snapshot_roundtrip:
  "(revision_snapshot_valid m \<longleftrightarrow>
      and_then (revision_snapshot_into_frame_body m) revision_snapshot_from_frame_body = Inr m)
   \<and> (revision_snapshot_valid m \<longleftrightarrow> (\<exists>b. revision_snapshot_from_frame_body b = Inr m))"
  using revision_snapshot.roundtrip revision_snapshot.range_dec [of m] revision_snapshot.dec_valid
  by (metis and_then_eq_Inr)

end
