(* ===== verification/Moderation_Audit.thy ===== *)
theory Moderation_Audit
  imports Wire_Fields
begin

unbundle bit_operations_syntax

text \<open>
  The moderation audit log (\<^verbatim>\<open>omenchat-protocol/src/moderation_audit.rs\<close>): page requests, the
  ten-field record with its action/result consistency rules, and pages of records, newest first.
\<close>

section \<open>Constants, actions and errors\<close>

definition MODERATION_AUDIT_CAPABILITY :: string where
  "MODERATION_AUDIT_CAPABILITY = ''moderation-audit-v1''"
definition MODERATION_AUDIT_REQUEST_BODY_TAG :: string where
  "MODERATION_AUDIT_REQUEST_BODY_TAG = ''moderation-audit-v1''"
definition MODERATION_AUDIT_PAGE_MAX_ENTRIES :: nat where "MODERATION_AUDIT_PAGE_MAX_ENTRIES = 256"
definition MODERATION_AUDIT_DISPLAY_NAME_MAX_BYTES :: nat where
  "MODERATION_AUDIT_DISPLAY_NAME_MAX_BYTES = 256"
definition MODERATION_AUDIT_PAGE_MAX_RETAINED_BYTES :: nat where
  "MODERATION_AUDIT_PAGE_MAX_RETAINED_BYTES = 512 * 1024"
definition MODERATION_AUDIT_ROLE_BITS_MASK :: u64 where "MODERATION_AUDIT_ROLE_BITS_MASK = 7"
definition MODERATION_AUDIT_STATUS_BITS_MASK :: u32 where "MODERATION_AUDIT_STATUS_BITS_MASK = 3"
definition MODERATION_AUDIT_RETAINED_ROW_OVERHEAD_BYTES :: nat where
  "MODERATION_AUDIT_RETAINED_ROW_OVERHEAD_BYTES = 64"

lemmas audit_limits = MODERATION_AUDIT_PAGE_MAX_ENTRIES_def
  MODERATION_AUDIT_DISPLAY_NAME_MAX_BYTES_def MODERATION_AUDIT_PAGE_MAX_RETAINED_BYTES_def
  MODERATION_AUDIT_RETAINED_ROW_OVERHEAD_BYTES_def

datatype ModerationAuditAction = Kick | Ban | Unban | Mute | Unmute | RoleChange

datatype ModerationAuditError =
    InvalidRequestShape | InvalidRequestTag | InvalidPageLimit | InvalidAuditId | InvalidRoomId
  | InvalidUserId | UnknownAction | InvalidRecordShape | MissingTarget | InvalidDisplayName
  | InvalidTimestamp | ActionResultMismatch | InvalidRoleBits | InvalidStatusBits
  | TooManyPageEntries | PageBytesExceeded | NonCanonicalPageOrder | PageRoomMismatch

primrec audit_action_code :: "ModerationAuditAction \<Rightarrow> u64" where
  "audit_action_code Kick = 1"
| "audit_action_code Ban = 2"
| "audit_action_code Unban = 3"
| "audit_action_code Mute = 4"
| "audit_action_code Unmute = 5"
| "audit_action_code RoleChange = 6"

definition audit_action_try_from :: "u64 \<Rightarrow> ModerationAuditError + ModerationAuditAction" where
  "audit_action_try_from v =
     (if v = 1 then Inr Kick else if v = 2 then Inr Ban else if v = 3 then Inr Unban
      else if v = 4 then Inr Mute else if v = 5 then Inr Unmute else if v = 6 then Inr RoleChange
      else Inl UnknownAction)"

section \<open>Fields\<close>

definition audit_validate_event_id :: "EventId \<Rightarrow> ModerationAuditError + unit" where
  "audit_validate_event_id = nonzero_or InvalidAuditId"

definition audit_validate_room_id :: "RoomId \<Rightarrow> ModerationAuditError + unit" where
  "audit_validate_room_id = nonzero_or InvalidRoomId"

definition audit_validate_user_id :: "UserId \<Rightarrow> ModerationAuditError + unit" where
  "audit_validate_user_id = nonzero_or InvalidUserId"

definition audit_parse_room_id :: "u64 \<Rightarrow> ModerationAuditError + RoomId" where
  "audit_parse_room_id = u32_id_field InvalidRoomId"

definition audit_parse_user_id :: "u64 \<Rightarrow> ModerationAuditError + UserId" where
  "audit_parse_user_id = u32_id_field InvalidUserId"

definition optional_u32_value :: "u32 option \<Rightarrow> FrameValue" where
  "optional_u32_value v = (case v of Some i \<Rightarrow> FU64 (ucast i) | None \<Rightarrow> FNil)"

definition audit_parse_optional_event_id :: "FrameValue \<Rightarrow> ModerationAuditError + EventId option" where
  "audit_parse_optional_event_id = optional_event_id_field InvalidAuditId InvalidRequestShape"

definition audit_parse_optional_user_id :: "FrameValue \<Rightarrow> ModerationAuditError + UserId option" where
  "audit_parse_optional_user_id v =
     (case v of
        FNil \<Rightarrow> Inr None
      | FU64 user_id \<Rightarrow> and_then (audit_parse_user_id user_id) (\<lambda>i. Inr (Some i))
      | _ \<Rightarrow> Inl InvalidRecordShape)"

definition audit_parse_optional_string :: "FrameValue \<Rightarrow> ModerationAuditError + string option" where
  "audit_parse_optional_string v =
     (case v of FNil \<Rightarrow> Inr None | FString s \<Rightarrow> Inr (Some s) | _ \<Rightarrow> Inl InvalidRecordShape)"

definition audit_parse_optional_role_bits :: "FrameValue \<Rightarrow> ModerationAuditError + u64 option" where
  "audit_parse_optional_role_bits v =
     (case v of
        FNil \<Rightarrow> Inr None
      | FU64 bits \<Rightarrow>
          if bits AND NOT MODERATION_AUDIT_ROLE_BITS_MASK = 0 then Inr (Some bits)
          else Inl InvalidRoleBits
      | _ \<Rightarrow> Inl InvalidRecordShape)"

definition audit_parse_optional_status_bits :: "FrameValue \<Rightarrow> ModerationAuditError + u32 option" where
  "audit_parse_optional_status_bits v =
     (case v of
        FNil \<Rightarrow> Inr None
      | FU64 bits \<Rightarrow>
          and_then (ok_or InvalidStatusBits (u32_try_from bits)) (\<lambda>bits.
          if bits AND NOT MODERATION_AUDIT_STATUS_BITS_MASK \<noteq> 0 then Inl InvalidStatusBits
          else Inr (Some bits))
      | _ \<Rightarrow> Inl InvalidRecordShape)"

definition audit_validate_display_name :: "string \<Rightarrow> ModerationAuditError + unit" where
  "audit_validate_display_name v =
     (if v = [] \<or> length v > MODERATION_AUDIT_DISPLAY_NAME_MAX_BYTES then Inl InvalidDisplayName
      else Inr ())"

definition audit_validate_timestamp :: "i64 \<Rightarrow> ModerationAuditError + unit" where
  "audit_validate_timestamp = nonneg_or InvalidTimestamp"

definition audit_timestamp_value :: "i64 \<Rightarrow> ModerationAuditError + FrameValue" where
  "audit_timestamp_value = timestamp_to_field InvalidTimestamp"

definition audit_parse_timestamp :: "FrameValue \<Rightarrow> ModerationAuditError + i64" where
  "audit_parse_timestamp = timestamp_field InvalidTimestamp"

lemmas audit_fields = audit_validate_event_id_def audit_validate_room_id_def
  audit_validate_user_id_def audit_parse_room_id_def audit_parse_user_id_def
  audit_parse_optional_event_id_def audit_validate_timestamp_def audit_timestamp_value_def
  audit_parse_timestamp_def

section \<open>Page request\<close>

record ModerationAuditRequest =
  aq_before_audit_id :: "EventId option"
  aq_limit :: u16

definition audit_request_validate :: "ModerationAuditRequest \<Rightarrow> ModerationAuditError + unit" where
  "audit_request_validate m =
     and_then
       (case aq_before_audit_id m of
          Some audit_id \<Rightarrow> audit_validate_event_id audit_id
        | None \<Rightarrow> Inr ()) (\<lambda>_.
     if aq_limit m = 0 \<or> unat (aq_limit m) > MODERATION_AUDIT_PAGE_MAX_ENTRIES
     then Inl InvalidPageLimit else Inr ())"

definition audit_request_into_frame_body ::
    "ModerationAuditRequest \<Rightarrow> ModerationAuditError + FrameBody" where
  "audit_request_into_frame_body m =
     and_then (audit_request_validate m) (\<lambda>_.
     Inr (Fields [FString MODERATION_AUDIT_REQUEST_BODY_TAG,
       optional_u64_value (aq_before_audit_id m), FU64 (ucast (aq_limit m))]))"

definition audit_request_from_frame_body ::
    "FrameBody \<Rightarrow> ModerationAuditError + ModerationAuditRequest" where
  "audit_request_from_frame_body body =
     (case body of
        Fields [FString tag, before_audit_id, FU64 limit] \<Rightarrow>
          if tag \<noteq> MODERATION_AUDIT_REQUEST_BODY_TAG then Inl InvalidRequestTag
          else
            and_then (audit_parse_optional_event_id before_audit_id) (\<lambda>before_audit_id.
            and_then (ok_or InvalidPageLimit (u16_try_from limit)) (\<lambda>limit.
            let request = \<lparr>aq_before_audit_id = before_audit_id, aq_limit = limit\<rparr> in
            and_then (audit_request_validate request) (\<lambda>_. Inr request)))
      | _ \<Rightarrow> Inl InvalidRequestShape)"

section \<open>Record\<close>

record ModerationAuditRecord =
  ar_audit_id :: EventId
  ar_room_id :: RoomId
  ar_actor_user_id :: UserId
  ar_actor_display_name_at_action :: string
  ar_target_user_id :: "UserId option"
  ar_target_display_name_at_action :: "string option"
  ar_action :: ModerationAuditAction
  ar_committed_at_unix :: i64
  ar_result_role_bits :: "u64 option"
  ar_result_status_bits :: "u32 option"

text \<open>The last two \<^verbatim>\<open>match\<close> blocks of \<^verbatim>\<open>validate\<close>: presence of the result fields, then their bits.\<close>

definition audit_result_presence ::
    "ModerationAuditAction \<Rightarrow> u64 option \<Rightarrow> u32 option \<Rightarrow> ModerationAuditError + unit" where
  "audit_result_presence action role status =
     (case action of
        Kick \<Rightarrow> reject_if (role \<noteq> None \<or> status \<noteq> None) ActionResultMismatch
      | RoleChange \<Rightarrow> reject_if (role = None \<or> status \<noteq> None) ActionResultMismatch
      | _ \<Rightarrow> reject_if (role \<noteq> None \<or> status = None) ActionResultMismatch)"

definition audit_result_bits ::
    "ModerationAuditAction \<Rightarrow> u64 option \<Rightarrow> u32 option \<Rightarrow> ModerationAuditError + unit" where
  "audit_result_bits action role status =
     (if (case role of Some bits \<Rightarrow> bits AND NOT MODERATION_AUDIT_ROLE_BITS_MASK \<noteq> 0 | None \<Rightarrow> False)
      then Inl InvalidRoleBits
      else if (case status of Some bits \<Rightarrow> bits AND NOT MODERATION_AUDIT_STATUS_BITS_MASK \<noteq> 0
                 | None \<Rightarrow> False)
      then Inl InvalidStatusBits
      else
        (case (action, role, status) of
           (Ban, _, Some bits) \<Rightarrow> reject_if (bits AND 1 = 0) ActionResultMismatch
         | (Unban, _, Some bits) \<Rightarrow> reject_if (bits AND 1 \<noteq> 0) ActionResultMismatch
         | (Mute, _, Some bits) \<Rightarrow> reject_if (bits AND 2 = 0) ActionResultMismatch
         | (Unmute, _, Some bits) \<Rightarrow> reject_if (bits AND 2 \<noteq> 0) ActionResultMismatch
         | (RoleChange, Some bits, _) \<Rightarrow>
             reject_if (\<not> (bits = 0 \<or> bits = 1 \<or> bits = 3 \<or> bits = 7)) ActionResultMismatch
         | _ \<Rightarrow> Inr ()))"

definition audit_record_validate :: "ModerationAuditRecord \<Rightarrow> ModerationAuditError + unit" where
  "audit_record_validate m =
     and_then (audit_validate_event_id (ar_audit_id m)) (\<lambda>_.
     and_then (audit_validate_room_id (ar_room_id m)) (\<lambda>_.
     and_then (audit_validate_user_id (ar_actor_user_id m)) (\<lambda>_.
     and_then (audit_validate_display_name (ar_actor_display_name_at_action m)) (\<lambda>_.
     and_then (ok_or MissingTarget (ar_target_user_id m)) (\<lambda>target_user_id.
     and_then (audit_validate_user_id target_user_id) (\<lambda>_.
     and_then (ok_or MissingTarget (ar_target_display_name_at_action m)) (\<lambda>target_display_name.
     and_then (audit_validate_display_name target_display_name) (\<lambda>_.
     and_then (audit_validate_timestamp (ar_committed_at_unix m)) (\<lambda>_.
     and_then (audit_result_presence (ar_action m) (ar_result_role_bits m) (ar_result_status_bits m))
       (\<lambda>_.
     audit_result_bits (ar_action m) (ar_result_role_bits m) (ar_result_status_bits m)))))))))))"

definition audit_record_into_frame_value ::
    "ModerationAuditRecord \<Rightarrow> ModerationAuditError + FrameValue" where
  "audit_record_into_frame_value m =
     and_then (audit_record_validate m) (\<lambda>_.
     and_then (audit_timestamp_value (ar_committed_at_unix m)) (\<lambda>committed_at.
     Inr (FArray [FU64 (ar_audit_id m), FU64 (ucast (ar_room_id m)),
       FU64 (ucast (ar_actor_user_id m)), FString (ar_actor_display_name_at_action m),
       optional_u32_value (ar_target_user_id m),
       optional_string_value (ar_target_display_name_at_action m),
       FU64 (audit_action_code (ar_action m)), committed_at,
       optional_u64_value (ar_result_role_bits m),
       optional_u32_value (ar_result_status_bits m)])))"

definition audit_record_from_frame_value ::
    "FrameValue \<Rightarrow> ModerationAuditError + ModerationAuditRecord" where
  "audit_record_from_frame_value v =
     (case v of
        FArray [FU64 audit_id, FU64 room_id, FU64 actor_user_id, FString actor_display_name,
            target_user_id, target_display_name, FU64 action, committed_at, result_role_bits,
            result_status_bits] \<Rightarrow>
          and_then (audit_parse_room_id room_id) (\<lambda>room_id.
          and_then (audit_parse_user_id actor_user_id) (\<lambda>actor_user_id.
          and_then (audit_parse_optional_user_id target_user_id) (\<lambda>target_user_id.
          and_then (audit_parse_optional_string target_display_name) (\<lambda>target_display_name.
          and_then (audit_action_try_from action) (\<lambda>action.
          and_then (audit_parse_timestamp committed_at) (\<lambda>committed_at.
          and_then (audit_parse_optional_role_bits result_role_bits) (\<lambda>result_role_bits.
          and_then (audit_parse_optional_status_bits result_status_bits) (\<lambda>result_status_bits.
          let record = \<lparr>ar_audit_id = audit_id, ar_room_id = room_id,
            ar_actor_user_id = actor_user_id,
            ar_actor_display_name_at_action = actor_display_name,
            ar_target_user_id = target_user_id,
            ar_target_display_name_at_action = target_display_name, ar_action = action,
            ar_committed_at_unix = committed_at, ar_result_role_bits = result_role_bits,
            ar_result_status_bits = result_status_bits\<rparr> in
          and_then (audit_record_validate record) (\<lambda>_. Inr record)))))))))
      | _ \<Rightarrow> Inl InvalidRecordShape)"

definition audit_retained_bytes :: "ModerationAuditRecord \<Rightarrow> nat" where
  "audit_retained_bytes m =
     usize_saturating_add
       (usize_saturating_add MODERATION_AUDIT_RETAINED_ROW_OVERHEAD_BYTES
          (length (ar_actor_display_name_at_action m)))
       (case ar_target_display_name_at_action m of None \<Rightarrow> 0 | Some s \<Rightarrow> length s)"

section \<open>Page\<close>

record ModerationAuditPage =
  ap_records :: "ModerationAuditRecord list"

text \<open>The accumulation loop of \<^verbatim>\<open>ModerationAuditPage::validate\<close>.\<close>

fun audit_page_loop :: "nat \<Rightarrow> ModerationAuditRecord list \<Rightarrow> ModerationAuditError + unit" where
  "audit_page_loop retained [] = Inr ()"
| "audit_page_loop retained (r # rs) =
     and_then (audit_record_validate r) (\<lambda>_.
       let retained = usize_saturating_add retained (audit_retained_bytes r) in
       if retained > MODERATION_AUDIT_PAGE_MAX_RETAINED_BYTES then Inl PageBytesExceeded
       else audit_page_loop retained rs)"

definition audit_page_validate :: "ModerationAuditPage \<Rightarrow> ModerationAuditError + unit" where
  "audit_page_validate m =
     (if length (ap_records m) > MODERATION_AUDIT_PAGE_MAX_ENTRIES then Inl TooManyPageEntries
      else and_then (audit_page_loop 0 (ap_records m)) (\<lambda>_.
        if \<not> windows_ok (\<lambda>a b. ar_audit_id b < ar_audit_id a) (ap_records m)
        then Inl NonCanonicalPageOrder
        else Inr ()))"

definition audit_page_validate_room ::
    "ModerationAuditPage \<Rightarrow> RoomId \<Rightarrow> ModerationAuditError + unit" where
  "audit_page_validate_room m room_id =
     and_then (audit_validate_room_id room_id) (\<lambda>_.
     if \<exists>r\<in>set (ap_records m). ar_room_id r \<noteq> room_id then Inl PageRoomMismatch else Inr ())"

definition audit_page_into_frame_values ::
    "ModerationAuditPage \<Rightarrow> ModerationAuditError + FrameValue list" where
  "audit_page_into_frame_values m =
     and_then (audit_page_validate m) (\<lambda>_.
     collect_results audit_record_into_frame_value (ap_records m))"

definition audit_page_from_frame_values ::
    "FrameValue list \<Rightarrow> ModerationAuditError + ModerationAuditPage" where
  "audit_page_from_frame_values vs =
     (if length vs > MODERATION_AUDIT_PAGE_MAX_ENTRIES then Inl TooManyPageEntries
      else and_then (collect_results audit_record_from_frame_value vs) (\<lambda>records.
        let page = \<lparr>ap_records = records\<rparr> in
        and_then (audit_page_validate page) (\<lambda>_. Inr page)))"

section \<open>Valid messages and the values they have\<close>

definition audit_request_valid :: "ModerationAuditRequest \<Rightarrow> bool" where
  "audit_request_valid m \<longleftrightarrow> aq_before_audit_id m \<noteq> Some 0
     \<and> 0 < unat (aq_limit m) \<and> unat (aq_limit m) \<le> 256"

text \<open>The results each action may report: bit 0 of the status is the ban, bit 1 the mute.\<close>

definition audit_result_ok :: "ModerationAuditAction \<Rightarrow> u64 option \<Rightarrow> u32 option \<Rightarrow> bool" where
  "audit_result_ok action role status \<longleftrightarrow>
     (case action of
        Kick \<Rightarrow> role = None \<and> status = None
      | Ban \<Rightarrow> role = None \<and> status \<in> {Some 1, Some 3}
      | Unban \<Rightarrow> role = None \<and> status \<in> {Some 0, Some 2}
      | Mute \<Rightarrow> role = None \<and> status \<in> {Some 2, Some 3}
      | Unmute \<Rightarrow> role = None \<and> status \<in> {Some 0, Some 1}
      | RoleChange \<Rightarrow> role \<in> {Some 0, Some 1, Some 3, Some 7} \<and> status = None)"

definition audit_name_ok :: "string \<Rightarrow> bool" where
  "audit_name_ok s \<longleftrightarrow> s \<noteq> [] \<and> length s \<le> 256"

definition audit_record_valid :: "ModerationAuditRecord \<Rightarrow> bool" where
  "audit_record_valid m \<longleftrightarrow> ar_audit_id m \<noteq> 0 \<and> ar_room_id m \<noteq> 0 \<and> ar_actor_user_id m \<noteq> 0
     \<and> audit_name_ok (ar_actor_display_name_at_action m)
     \<and> (\<exists>u. u \<noteq> 0 \<and> ar_target_user_id m = Some u)
     \<and> (\<exists>s. audit_name_ok s \<and> ar_target_display_name_at_action m = Some s)
     \<and> \<not> i64_neg (ar_committed_at_unix m)
     \<and> audit_result_ok (ar_action m) (ar_result_role_bits m) (ar_result_status_bits m)"

definition audit_record_value :: "ModerationAuditRecord \<Rightarrow> FrameValue \<Rightarrow> FrameValue" where
  "audit_record_value m at = FArray [FU64 (ar_audit_id m), FU64 (ucast (ar_room_id m)),
     FU64 (ucast (ar_actor_user_id m)), FString (ar_actor_display_name_at_action m),
     optional_u32_value (ar_target_user_id m),
     optional_string_value (ar_target_display_name_at_action m),
     FU64 (audit_action_code (ar_action m)), at, optional_u64_value (ar_result_role_bits m),
     optional_u32_value (ar_result_status_bits m)]"

definition audit_page_valid :: "ModerationAuditPage \<Rightarrow> bool" where
  "audit_page_valid m \<longleftrightarrow> length (ap_records m) \<le> 256
     \<and> (\<forall>r\<in>set (ap_records m). audit_record_valid r)
     \<and> sorted_wrt (>) (map ar_audit_id (ap_records m))"

lemma audit_action_try_from_Inr [codec_simps]:
  "audit_action_try_from v = Inr action \<longleftrightarrow> v = audit_action_code action"
  by (cases action) (auto simp: audit_action_try_from_def)

lemma audit_action_try_from_code [simp]: "audit_action_try_from (audit_action_code a) = Inr a"
  by (simp add: codec_simps)

lemma status_mask: "x AND NOT MODERATION_AUDIT_STATUS_BITS_MASK = 0 \<longleftrightarrow> x \<in> {0, 1, 2, 3}"
proof -
  have "x AND NOT MODERATION_AUDIT_STATUS_BITS_MASK = 0 \<longleftrightarrow> unat x < 4"
    using and_not_mask_unat [of x 2]
    by (simp add: mask_eq_exp_minus_1 MODERATION_AUDIT_STATUS_BITS_MASK_def)
  also have "\<dots> \<longleftrightarrow> unat x = 0 \<or> unat x = 1 \<or> unat x = 2 \<or> unat x = 3" by linarith
  finally show ?thesis by (simp only: word_unat_eq_iff insert_iff empty_iff) simp
qed

lemma audit_result_Inr:
  "audit_result_presence a r s = Inr u \<and> audit_result_bits a r s = Inr u \<longleftrightarrow> audit_result_ok a r s"
  by (cases a; cases r; cases s)
    (auto simp: audit_result_presence_def audit_result_bits_def audit_result_ok_def status_mask
      MODERATION_AUDIT_ROLE_BITS_MASK_def)

lemma audit_request_validate_Inr [valid_simps]:
  "audit_request_validate m = Inr u \<longleftrightarrow> audit_request_valid m"
  by (auto simp: audit_request_validate_def audit_request_valid_def audit_fields valid_simps
      audit_limits unat_eq_0 [symmetric] split: option.splits)

lemma audit_validate_display_name_Inr [valid_simps]:
  "audit_validate_display_name v = Inr u \<longleftrightarrow> audit_name_ok v"
  by (auto simp: audit_validate_display_name_def audit_name_ok_def audit_limits)

lemma audit_record_validate_Inr [valid_simps]:
  "audit_record_validate m = Inr u \<longleftrightarrow> audit_record_valid m"
  using audit_result_Inr [of "ar_action m" "ar_result_role_bits m" "ar_result_status_bits m"]
  by (auto simp: audit_record_validate_def audit_record_valid_def audit_fields valid_simps)

lemma audit_record_validate_not_bytes: "audit_record_validate m \<noteq> Inl PageBytesExceeded"
  by (auto simp: audit_record_validate_def audit_result_presence_def audit_result_bits_def
      audit_validate_display_name_def audit_fields nonzero_or_def nonneg_or_def and_then_eq_Inl
      reject_if_def ok_or_def split: ModerationAuditAction.splits option.splits if_splits)

lemma audit_retained_bound: "audit_record_valid r \<Longrightarrow> audit_retained_bytes r \<le> 576"
  by (auto simp: audit_record_valid_def audit_retained_bytes_def audit_name_ok_def
      usize_saturating_add_def audit_limits)

text \<open>No valid page reaches the byte limit, so the loop only checks the records.\<close>

lemma audit_page_loop_Inr:
  assumes "retained + 576 * length rs \<le> 524288"
  shows "audit_page_loop retained rs = Inr u \<longleftrightarrow> (\<forall>r\<in>set rs. audit_record_valid r)"
  using assms
proof (induction rs arbitrary: retained)
  case Nil
  then show ?case by simp
next
  case (Cons r rs)
  show ?case
  proof (cases "audit_record_valid r")
    case True
    have le: "retained + audit_retained_bytes r + 576 * length rs \<le> 524288"
      using audit_retained_bound [OF True] Cons.prems by simp
    then show ?thesis using True Cons.IH [OF le]
      by (simp add: usize_saturating_add_def valid_simps audit_limits)
  qed (simp add: valid_simps)
qed

lemma audit_page_validate_Inr [valid_simps]: "audit_page_validate m = Inr u \<longleftrightarrow> audit_page_valid m"
  by (auto simp: audit_page_validate_def audit_page_valid_def audit_page_loop_Inr audit_limits)

lemma audit_page_loop_bytes:
  assumes "retained + 576 * length rs \<le> 524288"
  shows "audit_page_loop retained rs \<noteq> Inl PageBytesExceeded"
  using assms
proof (induction rs arbitrary: retained)
  case Nil
  then show ?case by simp
next
  case (Cons r rs)
  have "audit_record_validate r \<noteq> Inl PageBytesExceeded" by (rule audit_record_validate_not_bytes)
  moreover have "audit_page_loop (retained + audit_retained_bytes r) rs \<noteq> Inl PageBytesExceeded"
    if "audit_record_valid r"
    using audit_retained_bound [OF that] Cons.prems by (intro Cons.IH) simp
  ultimately show ?case using Cons.prems audit_retained_bound [of r]
    by (auto simp: usize_saturating_add_def valid_simps audit_limits Let_def and_then_eq_Inl)
qed

lemma audit_page_bytes_unreachable: "audit_page_validate m \<noteq> Inl PageBytesExceeded"
  using audit_page_loop_bytes [of 0 "ap_records m"]
  by (auto simp: audit_page_validate_def audit_limits and_then_eq_Inl split: if_splits)

lemma sorted_wrt_greater_distinct: "sorted_wrt (>) (xs :: 'a :: linorder list) \<Longrightarrow> distinct xs"
  by (induction xs) auto

lemma sum_list_const_fun: "sum_list (map (\<lambda>_. c) xs) = length xs * (c :: nat)"
  by (induction xs) auto

section \<open>The request codec\<close>

lemma audit_request_into_Inr:
  "audit_request_into_frame_body m = Inr b \<longleftrightarrow> audit_request_valid m
     \<and> b = Fields [FString MODERATION_AUDIT_REQUEST_BODY_TAG,
         optional_u64_value (aq_before_audit_id m), FU64 (ucast (aq_limit m))]"
  by (auto simp: audit_request_into_frame_body_def valid_simps)

lemma audit_request_from_Inr:
  "audit_request_from_frame_body b = Inr m \<longleftrightarrow>
     audit_request_valid m \<and> audit_request_into_frame_body m = Inr b"
proof
  assume "audit_request_from_frame_body b = Inr m"
  then show "audit_request_valid m \<and> audit_request_into_frame_body m = Inr b"
    unfolding audit_request_into_Inr
    by (auto simp: audit_request_from_frame_body_def audit_fields valid_simps codec_simps Let_def
        u16_try_from_eq_Some
        split: FrameBody.split_asm list.split_asm FrameValue.split_asm if_split_asm)
next
  assume "audit_request_valid m \<and> audit_request_into_frame_body m = Inr b"
  moreover from this have "aq_before_audit_id m \<noteq> Some 0" by (simp add: audit_request_valid_def)
  ultimately show "audit_request_from_frame_body b = Inr m"
    by (cases m, auto simp: audit_request_from_frame_body_def audit_request_into_Inr audit_fields
        valid_simps Let_def)
qed

interpretation audit_request: strict_codec audit_request_into_frame_body
    audit_request_from_frame_body audit_request_valid
  by unfold_locales (auto simp: audit_request_from_Inr audit_request_into_Inr)

section \<open>The record codec\<close>

lemma optional_u32_value_inject [simp]: "optional_u32_value x = optional_u32_value y \<longleftrightarrow> x = y"
  by (auto simp: optional_u32_value_def split: option.splits)

lemma audit_parse_optional_Inr [codec_simps]:
  "audit_parse_optional_user_id v = Inr i \<longleftrightarrow> i \<noteq> Some 0 \<and> v = optional_u32_value i"
  "audit_parse_optional_string v = Inr s \<longleftrightarrow> v = optional_string_value s"
  "audit_parse_optional_role_bits v = Inr r \<longleftrightarrow>
     (\<forall>bits. r = Some bits \<longrightarrow> bits AND NOT MODERATION_AUDIT_ROLE_BITS_MASK = 0)
     \<and> v = optional_u64_value r"
  "audit_parse_optional_status_bits v = Inr st \<longleftrightarrow>
     (\<forall>bits. st = Some bits \<longrightarrow> bits AND NOT MODERATION_AUDIT_STATUS_BITS_MASK = 0)
     \<and> v = optional_u32_value st"
     apply (cases v; cases i; auto simp: audit_parse_optional_user_id_def optional_u32_value_def
        audit_fields codec_simps)
    apply (cases v; cases s; auto simp: audit_parse_optional_string_def optional_string_value_def)
   apply (cases v; cases r; auto simp: audit_parse_optional_role_bits_def optional_u64_value_def
      split: if_splits)
  apply (cases v; cases st; auto simp: audit_parse_optional_status_bits_def optional_u32_value_def
      u32_try_from_eq_Some split: if_splits)
  done

lemma audit_result_ok_masks:
  assumes "audit_result_ok a r s"
  shows "audit_parse_optional_role_bits (optional_u64_value r) = Inr r"
    and "audit_parse_optional_status_bits (optional_u32_value s) = Inr s"
  using assms
  by (cases a; auto simp: codec_simps audit_result_ok_def status_mask
      MODERATION_AUDIT_ROLE_BITS_MASK_def)+

lemma audit_record_into_Inr:
  "audit_record_into_frame_value m = Inr v \<longleftrightarrow>
     audit_record_valid m \<and> v = audit_record_value m (FU64 (ar_committed_at_unix m))"
  by (auto simp: audit_record_into_frame_value_def audit_record_value_def audit_fields
      audit_record_valid_def valid_simps codec_simps)

lemma audit_record_from_Inr:
  "audit_record_from_frame_value v = Inr m \<longleftrightarrow>
     audit_record_valid m \<and> v \<in> audit_record_value m ` timestamp_forms (ar_committed_at_unix m)"
proof
  assume "audit_record_from_frame_value v = Inr m"
  then show "audit_record_valid m
      \<and> v \<in> audit_record_value m ` timestamp_forms (ar_committed_at_unix m)"
    by (auto simp: audit_record_from_frame_value_def audit_fields valid_simps codec_simps
        audit_record_value_def Let_def
        split: list.split_asm FrameValue.split_asm)
next
  assume "audit_record_valid m \<and> v \<in> audit_record_value m ` timestamp_forms (ar_committed_at_unix m)"
  moreover from this have "ar_room_id m \<noteq> 0" "ar_actor_user_id m \<noteq> 0"
    "audit_parse_optional_user_id (optional_u32_value (ar_target_user_id m))
       = Inr (ar_target_user_id m)"
    "audit_parse_optional_string (optional_string_value (ar_target_display_name_at_action m))
       = Inr (ar_target_display_name_at_action m)"
    "\<not> i64_neg (ar_committed_at_unix m)"
    "audit_parse_optional_role_bits (optional_u64_value (ar_result_role_bits m))
       = Inr (ar_result_role_bits m)"
    "audit_parse_optional_status_bits (optional_u32_value (ar_result_status_bits m))
       = Inr (ar_result_status_bits m)"
    by (auto simp: audit_record_valid_def audit_result_ok_masks
        audit_parse_optional_Inr(1,2))
  ultimately show "audit_record_from_frame_value v = Inr m"
    by (cases m, auto simp: audit_record_from_frame_value_def audit_fields audit_record_value_def
        valid_simps Let_def)
qed

interpretation audit_record: message_codec audit_record_into_frame_value
    audit_record_from_frame_value audit_record_valid
  by unfold_locales (auto simp: audit_record_from_Inr audit_record_into_Inr)

section \<open>The page codec\<close>

lemma audit_page_from_Inr:
  "audit_page_from_frame_values vs = Inr m \<longleftrightarrow> audit_page_valid m
     \<and> list_all2 (\<lambda>r v. v \<in> audit_record_value r ` timestamp_forms (ar_committed_at_unix r))
         (ap_records m) vs"
proof -
  have "collect_results audit_record_from_frame_value vs = Inr rs \<longleftrightarrow>
      (\<forall>r\<in>set rs. audit_record_valid r)
      \<and> list_all2 (\<lambda>r v. v \<in> audit_record_value r ` timestamp_forms (ar_committed_at_unix r)) rs vs"
    for rs
    by (rule collect_results_forms) (rule audit_record_from_Inr)
  then show ?thesis
    by (cases m)
      (auto simp: audit_page_from_frame_values_def valid_simps audit_page_valid_def audit_limits
        Let_def dest: list_all2_lengthD)
qed

lemma audit_page_into_Inr:
  "audit_page_into_frame_values m = Inr vs \<longleftrightarrow> audit_page_valid m
     \<and> vs = map (\<lambda>r. audit_record_value r (FU64 (ar_committed_at_unix r))) (ap_records m)"
proof (cases "audit_page_valid m")
  case True
  then have "collect_results audit_record_into_frame_value (ap_records m)
      = Inr (map (\<lambda>r. audit_record_value r (FU64 (ar_committed_at_unix r))) (ap_records m))"
    by (intro collect_results_enc) (auto simp: audit_record_into_Inr audit_page_valid_def)
  then show ?thesis using True by (auto simp: audit_page_into_frame_values_def valid_simps)
qed (auto simp: audit_page_into_frame_values_def valid_simps)

interpretation audit_page: message_codec audit_page_into_frame_values
    audit_page_from_frame_values audit_page_valid
  by unfold_locales
    (auto simp: audit_page_from_Inr audit_page_into_Inr list_all2_map2 list_all2_same)

section \<open>Properties\<close>

text \<open>
  the audit page request codec is exact; an accepted request asks for one to 256 records and
  never from audit id zero.
\<close>

theorem audit_request_codec_exact:
  "audit_request_from_frame_body b = Inr m \<longleftrightarrow>
     audit_request_valid m \<and> audit_request_into_frame_body m = Inr b"
  by (rule audit_request.dec_iff)

text \<open>
  the result bits of an accepted record agree with its action: a ban reports the ban bit and
  an unban its absence, a mute the mute bit and an unmute its absence, a role change one of the
  four role sets and a kick nothing; and the target is always named.
\<close>

theorem audit_record_accepted:
  assumes "audit_record_from_frame_value v = Inr m"
  shows "audit_result_ok (ar_action m) (ar_result_role_bits m) (ar_result_status_bits m)
     \<and> ar_target_user_id m \<notin> {None, Some 0} \<and> ar_target_display_name_at_action m \<noteq> None
     \<and> ar_room_id m \<noteq> 0 \<and> (\<exists>v'. audit_record_into_frame_value m = Inr v')"
  using audit_record.dec_valid [OF assms] audit_record.enc_total [of m]
  by (auto simp: audit_record_valid_def)

definition audit_record_sample :: ModerationAuditRecord where
  "audit_record_sample = \<lparr>ar_audit_id = 12, ar_room_id = 3, ar_actor_user_id = 4,
     ar_actor_display_name_at_action = ''op'', ar_target_user_id = Some 9,
     ar_target_display_name_at_action = Some ''guest'', ar_action = Ban,
     ar_committed_at_unix = 1000, ar_result_role_bits = None, ar_result_status_bits = Some 1\<rparr>"

lemma audit_record_sample_valid: "audit_record_valid audit_record_sample"
  by (simp add: audit_record_valid_def audit_record_sample_def audit_name_ok_def audit_result_ok_def
      i64_neg_iff)

theorem audit_record_accepted_witness:
  "audit_result_ok (ar_action audit_record_sample) (ar_result_role_bits audit_record_sample)
     (ar_result_status_bits audit_record_sample)"
proof -
  obtain v where "audit_record_from_frame_value v = Inr audit_record_sample"
    using audit_record.range_dec audit_record_sample_valid by blast
  from audit_record_accepted [OF this] show ?thesis by blast
qed

text \<open>
  a valid page survives encoding and decoding, and an accepted page holds at most 256 valid
  records with distinct, strictly decreasing ids whose retained size stays below the byte limit.
  The limit itself can never be the reason for a rejection.
\<close>

theorem audit_page_bounds:
  "(audit_page_valid m \<longleftrightarrow>
      and_then (audit_page_into_frame_values m) audit_page_from_frame_values = Inr m)
   \<and> audit_page_validate m \<noteq> Inl PageBytesExceeded
   \<and> (audit_page_from_frame_values vs = Inr m \<longrightarrow>
      sorted_wrt (>) (map ar_audit_id (ap_records m)) \<and> distinct (map ar_audit_id (ap_records m))
      \<and> length (ap_records m) \<le> MODERATION_AUDIT_PAGE_MAX_ENTRIES
      \<and> sum_list (map audit_retained_bytes (ap_records m)) \<le> 256 * 576)"
proof (intro conjI impI)
  show "audit_page_valid m \<longleftrightarrow>
      and_then (audit_page_into_frame_values m) audit_page_from_frame_values = Inr m"
    using audit_page.roundtrip audit_page.dec_valid by (metis and_then_eq_Inr)
  show "audit_page_validate m \<noteq> Inl PageBytesExceeded"
    by (rule audit_page_bytes_unreachable)
  assume "audit_page_from_frame_values vs = Inr m"
  then have v: "audit_page_valid m" by (rule audit_page.dec_valid)
  then show "sorted_wrt (>) (map ar_audit_id (ap_records m))"
    "length (ap_records m) \<le> MODERATION_AUDIT_PAGE_MAX_ENTRIES"
    by (auto simp: audit_page_valid_def audit_limits)
  then show "distinct (map ar_audit_id (ap_records m))"
    by (simp add: sorted_wrt_greater_distinct)
  have "sum_list (map audit_retained_bytes (ap_records m)) \<le> length (ap_records m) * 576"
    using sum_list_mono [of "ap_records m" audit_retained_bytes "\<lambda>_. 576"] v audit_retained_bound
    by (auto simp: audit_page_valid_def sum_list_const_fun)
  then show "sum_list (map audit_retained_bytes (ap_records m)) \<le> 256 * 576"
    using v by (auto simp: audit_page_valid_def)
qed

theorem audit_page_bounds_witness:
  "sum_list (map audit_retained_bytes (ap_records \<lparr>ap_records = [audit_record_sample]\<rparr>)) \<le> 256 * 576"
proof -
  have "audit_page_valid \<lparr>ap_records = [audit_record_sample]\<rparr>"
    using audit_record_sample_valid by (simp add: audit_page_valid_def)
  then obtain vs where "audit_page_from_frame_values vs = Inr \<lparr>ap_records = [audit_record_sample]\<rparr>"
    using audit_page.range_dec by blast
  then show ?thesis
    using audit_page_bounds [of "\<lparr>ap_records = [audit_record_sample]\<rparr>" vs] by blast
qed

end
