(* ===== verification/Room_Policy.thy ===== *)
theory Room_Policy
  imports Wire_Fields
begin

unbundle bit_operations_syntax

text \<open>
  Room policies (\<^verbatim>\<open>omenchat-protocol/src/room_policy.rs\<close>): the catalogue entry of a room in the
  four shapes that a session may have negotiated, the policy projection built from it, and the
  upload ceiling that follows from room and server configuration.
\<close>

section \<open>Constants and data\<close>

definition ANNOUNCEMENT_ROOMS_CAPABILITY :: string where
  "ANNOUNCEMENT_ROOMS_CAPABILITY = ''announcement-rooms-v1''"
definition ROOM_SLOW_MODE_CAPABILITY :: string where
  "ROOM_SLOW_MODE_CAPABILITY = ''room-slow-mode-v1''"
definition ROOM_MEDIA_POLICY_CAPABILITY :: string where
  "ROOM_MEDIA_POLICY_CAPABILITY = ''room-media-policy-v1''"
definition ROOM_POLICY_ANNOUNCEMENT :: u64 where "ROOM_POLICY_ANNOUNCEMENT = 0x01"
definition ROOM_POLICY_KNOWN_MASK :: u64 where "ROOM_POLICY_KNOWN_MASK = ROOM_POLICY_ANNOUNCEMENT"
definition ROOM_SLOW_MODE_MAX_SECONDS :: u32 where "ROOM_SLOW_MODE_MAX_SECONDS = 86400"
definition ROOM_UPLOAD_MAX_FILE_BYTES :: u64 where
  "ROOM_UPLOAD_MAX_FILE_BYTES = 10 * 1024 * 1024"
definition ROOM_NAME_MAX_BYTES :: nat where "ROOM_NAME_MAX_BYTES = 64"
definition ROOM_TOPIC_MAX_BYTES :: nat where "ROOM_TOPIC_MAX_BYTES = 4 * 1024"
definition LEGACY_ROOM_VALUE_FIELDS :: nat where "LEGACY_ROOM_VALUE_FIELDS = 4"
definition POLICY_ROOM_VALUE_FIELDS :: nat where "POLICY_ROOM_VALUE_FIELDS = 5"
definition SLOW_MODE_ROOM_VALUE_FIELDS :: nat where "SLOW_MODE_ROOM_VALUE_FIELDS = 6"
definition MEDIA_POLICY_ROOM_VALUE_FIELDS :: nat where "MEDIA_POLICY_ROOM_VALUE_FIELDS = 7"

datatype RoomCatalogShape = Legacy | PolicyBits | SlowMode | MediaPolicy

datatype RoomUploadPolicyProjection = Inherit | Disabled | MaximumFileBytes u64

record RoomPolicyProjection =
  pp_policy_bits :: u64
  pp_slow_mode_seconds :: u32
  pp_upload_policy :: "RoomUploadPolicyProjection option"

datatype RoomUploadRejectReason = UploadDisabled | FileSizeCeilingExceeded

datatype RoomMediaUploadRejectCode = UploadsDisabled | FileSizeExceeded

datatype RoomPolicyError =
    InvalidShape | InvalidRoomId | InvalidName | InvalidTopic | UnknownPolicyBits u64
  | InvalidSlowMode | InvalidUploadMaxFileBytes | UnknownUploadRejectCode u64

record RoomCatalogEntry =
  rc_room_id :: RoomId
  rc_name :: string
  rc_topic :: "string option"
  rc_room_revision :: Revision
  rc_policy_bits :: u64
  rc_slow_mode_seconds :: u32
  rc_upload_max_file_bytes :: "u64 option"

section \<open>Upload rejection codes\<close>

primrec upload_reject_reason_code :: "RoomUploadRejectReason \<Rightarrow> u64" where
  "upload_reject_reason_code UploadDisabled = 1"
| "upload_reject_reason_code FileSizeCeilingExceeded = 2"

definition upload_reject_reason_from_code :: "u64 \<Rightarrow> RoomUploadRejectReason option" where
  "upload_reject_reason_from_code code =
     (if code = 1 then Some UploadDisabled
      else if code = 2 then Some FileSizeCeilingExceeded else None)"

primrec media_upload_reject_code :: "RoomMediaUploadRejectCode \<Rightarrow> u64" where
  "media_upload_reject_code UploadsDisabled = 1"
| "media_upload_reject_code FileSizeExceeded = 2"

definition media_upload_reject_try_from :: "u64 \<Rightarrow> RoomPolicyError + RoomMediaUploadRejectCode" where
  "media_upload_reject_try_from v =
     (if v = 1 then Inr UploadsDisabled
      else if v = 2 then Inr FileSizeExceeded else Inl (UnknownUploadRejectCode v))"

section \<open>Policy projections\<close>

definition from_configured_max_file_bytes ::
    "u64 option \<Rightarrow> RoomPolicyError + RoomUploadPolicyProjection" where
  "from_configured_max_file_bytes configured =
     (case configured of
        None \<Rightarrow> Inr Inherit
      | Some bytes \<Rightarrow>
          if bytes = 0 then Inr Disabled
          else if bytes \<le> ROOM_UPLOAD_MAX_FILE_BYTES then Inr (MaximumFileBytes bytes)
          else Inl InvalidUploadMaxFileBytes)"

primrec configured_max_file_bytes :: "RoomUploadPolicyProjection \<Rightarrow> u64 option" where
  "configured_max_file_bytes Inherit = None"
| "configured_max_file_bytes Disabled = Some 0"
| "configured_max_file_bytes (MaximumFileBytes bytes) = Some bytes"

definition effective_max_file_bytes :: "RoomUploadPolicyProjection \<Rightarrow> u64 \<Rightarrow> u64 option" where
  "effective_max_file_bytes policy global_max_file_bytes =
     (if global_max_file_bytes = 0 then None
      else (case policy of
          Inherit \<Rightarrow> Some global_max_file_bytes
        | Disabled \<Rightarrow> None
        | MaximumFileBytes bytes \<Rightarrow> Some (min bytes global_max_file_bytes)))"

definition uploads_disabled :: "RoomUploadPolicyProjection \<Rightarrow> bool" where
  "uploads_disabled policy = (policy = Disabled)"

definition policy_new_with_upload ::
    "u64 \<Rightarrow> u32 \<Rightarrow> u64 option option \<Rightarrow> RoomPolicyError + RoomPolicyProjection" where
  "policy_new_with_upload policy_bits slow_mode_seconds upload_max_file_bytes =
     (if policy_bits AND NOT ROOM_POLICY_KNOWN_MASK \<noteq> 0 then Inl (UnknownPolicyBits policy_bits)
      else if slow_mode_seconds > ROOM_SLOW_MODE_MAX_SECONDS then Inl InvalidSlowMode
      else
        and_then
          (case upload_max_file_bytes of
             None \<Rightarrow> Inr None
           | Some configured \<Rightarrow>
               and_then (from_configured_max_file_bytes configured) (\<lambda>p. Inr (Some p)))
          (\<lambda>upload_policy.
        Inr \<lparr>pp_policy_bits = policy_bits, pp_slow_mode_seconds = slow_mode_seconds,
          pp_upload_policy = upload_policy\<rparr>))"

definition policy_new :: "u64 \<Rightarrow> u32 \<Rightarrow> RoomPolicyError + RoomPolicyProjection" where
  "policy_new policy_bits slow_mode_seconds =
     policy_new_with_upload policy_bits slow_mode_seconds None"

definition policy_announcement_only :: "RoomPolicyProjection \<Rightarrow> bool" where
  "policy_announcement_only p = (pp_policy_bits p AND ROOM_POLICY_ANNOUNCEMENT \<noteq> 0)"

definition policy_slow_mode_enabled :: "RoomPolicyProjection \<Rightarrow> bool" where
  "policy_slow_mode_enabled p = (pp_slow_mode_seconds p \<noteq> 0)"

section \<open>Catalogue entries\<close>

definition room_entry_announcement_only :: "RoomCatalogEntry \<Rightarrow> bool" where
  "room_entry_announcement_only m = (rc_policy_bits m AND ROOM_POLICY_ANNOUNCEMENT \<noteq> 0)"

definition room_entry_policy_projection :: "RoomCatalogEntry \<Rightarrow> RoomPolicyError + RoomPolicyProjection" where
  "room_entry_policy_projection m = policy_new (rc_policy_bits m) (rc_slow_mode_seconds m)"

definition policy_projection_for_shape ::
    "RoomCatalogEntry \<Rightarrow> RoomCatalogShape \<Rightarrow> RoomPolicyError + RoomPolicyProjection option" where
  "policy_projection_for_shape m shape =
     (case shape of
        Legacy \<Rightarrow> Inr None
      | MediaPolicy \<Rightarrow>
          and_then (policy_new_with_upload (rc_policy_bits m) (rc_slow_mode_seconds m)
            (Some (rc_upload_max_file_bytes m))) (\<lambda>p. Inr (Some p))
      | _ \<Rightarrow> and_then (room_entry_policy_projection m) (\<lambda>p. Inr (Some p)))"

definition room_entry_validate :: "RoomCatalogEntry \<Rightarrow> RoomPolicyError + unit" where
  "room_entry_validate m =
     (if rc_room_id m = 0 then Inl InvalidRoomId
      else if trim_is_empty (rc_name m) \<or> length (rc_name m) > ROOM_NAME_MAX_BYTES
      then Inl InvalidName
      else if (case rc_topic m of
          Some topic \<Rightarrow> trim_is_empty topic \<or> length topic > ROOM_TOPIC_MAX_BYTES
        | None \<Rightarrow> False)
      then Inl InvalidTopic
      else if rc_policy_bits m AND NOT ROOM_POLICY_KNOWN_MASK \<noteq> 0
      then Inl (UnknownPolicyBits (rc_policy_bits m))
      else if rc_slow_mode_seconds m > ROOM_SLOW_MODE_MAX_SECONDS then Inl InvalidSlowMode
      else if (case rc_upload_max_file_bytes m of
          Some bytes \<Rightarrow> bytes > ROOM_UPLOAD_MAX_FILE_BYTES
        | None \<Rightarrow> False)
      then Inl InvalidUploadMaxFileBytes
      else Inr ())"

definition room_entry_into_value_for_shape ::
    "RoomCatalogEntry \<Rightarrow> RoomCatalogShape \<Rightarrow> RoomPolicyError + FrameValue" where
  "room_entry_into_value_for_shape m shape =
     and_then (room_entry_validate m) (\<lambda>_.
       Inr (FArray (
         [FU64 (ucast (rc_room_id m)), FString (rc_name m), optional_string_value (rc_topic m),
          FU64 (rc_room_revision m)]
         @ (if shape \<noteq> Legacy then [FU64 (rc_policy_bits m)] else [])
         @ (if shape = SlowMode \<or> shape = MediaPolicy
            then [FU64 (ucast (rc_slow_mode_seconds m))] else [])
         @ (if shape = MediaPolicy
            then [optional_u64_value (rc_upload_max_file_bytes m)] else []))))"

definition room_entry_into_value :: "RoomCatalogEntry \<Rightarrow> bool \<Rightarrow> RoomPolicyError + FrameValue" where
  "room_entry_into_value m policy_negotiated =
     room_entry_into_value_for_shape m (if policy_negotiated then PolicyBits else Legacy)"

definition shape_value_fields :: "RoomCatalogShape \<Rightarrow> nat" where
  "shape_value_fields shape =
     (case shape of
        Legacy \<Rightarrow> LEGACY_ROOM_VALUE_FIELDS
      | PolicyBits \<Rightarrow> POLICY_ROOM_VALUE_FIELDS
      | SlowMode \<Rightarrow> SLOW_MODE_ROOM_VALUE_FIELDS
      | MediaPolicy \<Rightarrow> MEDIA_POLICY_ROOM_VALUE_FIELDS)"

text \<open>The \<^verbatim>\<open>match (shape, rest)\<close> over the optional trailing fields.\<close>

definition shape_rest ::
    "RoomCatalogShape \<Rightarrow> FrameValue list \<Rightarrow> RoomPolicyError + (u64 \<times> u32 \<times> u64 option)" where
  "shape_rest shape rest =
     (case (shape, rest) of
        (Legacy, []) \<Rightarrow> Inr (0, 0, None)
      | (PolicyBits, [FU64 policy_bits]) \<Rightarrow> Inr (policy_bits, 0, None)
      | (SlowMode, [FU64 policy_bits, FU64 slow_mode_seconds]) \<Rightarrow>
          and_then (ok_or InvalidSlowMode (u32_try_from slow_mode_seconds)) (\<lambda>s.
          Inr (policy_bits, s, None))
      | (MediaPolicy, [FU64 policy_bits, FU64 slow_mode_seconds, upload_max_file_bytes]) \<Rightarrow>
          and_then (ok_or InvalidSlowMode (u32_try_from slow_mode_seconds)) (\<lambda>s.
          and_then (case upload_max_file_bytes of
              FNil \<Rightarrow> Inr None
            | FU64 bytes \<Rightarrow> Inr (Some bytes)
            | _ \<Rightarrow> Inl InvalidUploadMaxFileBytes) (\<lambda>u.
          Inr (policy_bits, s, u)))
      | _ \<Rightarrow> Inl InvalidShape)"

definition room_entry_from_value_for_shape ::
    "FrameValue \<Rightarrow> RoomCatalogShape \<Rightarrow> RoomPolicyError + RoomCatalogEntry" where
  "room_entry_from_value_for_shape v shape =
     (case v of
        FArray fs \<Rightarrow>
          if length fs \<noteq> shape_value_fields shape then Inl InvalidShape
          else
            (case fs of
               FU64 room_id # FString name # topic # FU64 room_revision # rest \<Rightarrow>
                 and_then (shape_rest shape rest)
                   (\<lambda>(policy_bits, slow_mode_seconds, upload_max_file_bytes).
                 and_then (ok_or InvalidRoomId (u32_try_from room_id)) (\<lambda>room_id.
                 and_then (case topic of
                     FNil \<Rightarrow> Inr None
                   | FString topic \<Rightarrow> Inr (Some topic)
                   | _ \<Rightarrow> Inl InvalidShape) (\<lambda>topic.
                 let entry = \<lparr>rc_room_id = room_id, rc_name = name, rc_topic = topic,
                   rc_room_revision = room_revision, rc_policy_bits = policy_bits,
                   rc_slow_mode_seconds = slow_mode_seconds,
                   rc_upload_max_file_bytes = upload_max_file_bytes\<rparr> in
                 and_then (room_entry_validate entry) (\<lambda>_. Inr entry))))
             | _ \<Rightarrow> Inl InvalidShape)
      | _ \<Rightarrow> Inl InvalidShape)"

definition room_entry_from_value :: "FrameValue \<Rightarrow> bool \<Rightarrow> RoomPolicyError + RoomCatalogEntry" where
  "room_entry_from_value v policy_negotiated =
     room_entry_from_value_for_shape v (if policy_negotiated then PolicyBits else Legacy)"

section \<open>What an entry looks like in a shape\<close>

text \<open>
  A shape carries only part of the entry. \<open>entry_fits\<close> says that the parts the shape does not
  carry have the defaults that a reader of that shape assumes.
\<close>

definition entry_fits :: "RoomCatalogShape \<Rightarrow> RoomCatalogEntry \<Rightarrow> bool" where
  "entry_fits shape m \<longleftrightarrow>
     (shape = Legacy \<longrightarrow> rc_policy_bits m = 0)
     \<and> (shape \<in> {Legacy, PolicyBits} \<longrightarrow> rc_slow_mode_seconds m = 0)
     \<and> (shape \<noteq> MediaPolicy \<longrightarrow> rc_upload_max_file_bytes m = None)"

definition strip_to_shape :: "RoomCatalogShape \<Rightarrow> RoomCatalogEntry \<Rightarrow> RoomCatalogEntry" where
  "strip_to_shape shape m = m\<lparr>
     rc_policy_bits := if shape = Legacy then 0 else rc_policy_bits m,
     rc_slow_mode_seconds := if shape \<in> {Legacy, PolicyBits} then 0 else rc_slow_mode_seconds m,
     rc_upload_max_file_bytes := if shape = MediaPolicy then rc_upload_max_file_bytes m else None\<rparr>"

definition room_entry_valid :: "RoomCatalogEntry \<Rightarrow> bool" where
  "room_entry_valid m \<longleftrightarrow> rc_room_id m \<noteq> 0
     \<and> \<not> trim_is_empty (rc_name m) \<and> length (rc_name m) \<le> 64
     \<and> (\<forall>t. rc_topic m = Some t \<longrightarrow> \<not> trim_is_empty t \<and> length t \<le> 4096)
     \<and> rc_policy_bits m \<in> {0, 1} \<and> rc_slow_mode_seconds m \<le> 86400
     \<and> (\<forall>bytes. rc_upload_max_file_bytes m = Some bytes \<longrightarrow> bytes \<le> ROOM_UPLOAD_MAX_FILE_BYTES)"

lemma policy_mask: "x AND NOT ROOM_POLICY_KNOWN_MASK = 0 \<longleftrightarrow> x \<in> {0, 1}"
proof -
  have "x AND NOT ROOM_POLICY_KNOWN_MASK = 0 \<longleftrightarrow> unat x < 2"
    using and_not_mask_unat [of x 1]
    by (simp add: ROOM_POLICY_KNOWN_MASK_def ROOM_POLICY_ANNOUNCEMENT_def)
  also have "\<dots> \<longleftrightarrow> unat x = 0 \<or> unat x = 1" by linarith
  finally show ?thesis by (simp only: word_unat_eq_iff insert_iff empty_iff) simp
qed

lemma room_entry_validate_Inr [valid_simps]: "room_entry_validate m = Inr u \<longleftrightarrow> room_entry_valid m"
  by (auto simp: room_entry_validate_def room_entry_valid_def policy_mask ROOM_NAME_MAX_BYTES_def
      ROOM_TOPIC_MAX_BYTES_def ROOM_SLOW_MODE_MAX_SECONDS_def split: option.splits)

definition room_entry_value :: "RoomCatalogShape \<Rightarrow> RoomCatalogEntry \<Rightarrow> FrameValue" where
  "room_entry_value shape m = FArray (
     [FU64 (ucast (rc_room_id m)), FString (rc_name m), optional_string_value (rc_topic m),
      FU64 (rc_room_revision m)]
     @ (case shape of
          Legacy \<Rightarrow> []
        | PolicyBits \<Rightarrow> [FU64 (rc_policy_bits m)]
        | SlowMode \<Rightarrow> [FU64 (rc_policy_bits m), FU64 (ucast (rc_slow_mode_seconds m))]
        | MediaPolicy \<Rightarrow> [FU64 (rc_policy_bits m), FU64 (ucast (rc_slow_mode_seconds m)),
            optional_u64_value (rc_upload_max_file_bytes m)]))"

lemmas shape_fields = shape_value_fields_def LEGACY_ROOM_VALUE_FIELDS_def
  POLICY_ROOM_VALUE_FIELDS_def SLOW_MODE_ROOM_VALUE_FIELDS_def MEDIA_POLICY_ROOM_VALUE_FIELDS_def

lemma room_entry_into_Inr:
  "room_entry_into_value_for_shape m shape = Inr v \<longleftrightarrow>
     room_entry_valid m \<and> v = room_entry_value shape m"
  by (cases shape)
    (auto simp: room_entry_into_value_for_shape_def room_entry_value_def valid_simps)

lemma shape_rest_Inr:
  "shape_rest shape rest = Inr (p, s, u) \<longleftrightarrow>
     (case shape of
        Legacy \<Rightarrow> rest = [] \<and> p = 0 \<and> s = 0 \<and> u = None
      | PolicyBits \<Rightarrow> rest = [FU64 p] \<and> s = 0 \<and> u = None
      | SlowMode \<Rightarrow> rest = [FU64 p, FU64 (ucast s)] \<and> u = None
      | MediaPolicy \<Rightarrow> rest = [FU64 p, FU64 (ucast s), optional_u64_value u])"
  by (cases shape)
    (auto simp: shape_rest_def optional_u64_value_def u32_try_from_eq_Some
      split: list.splits FrameValue.splits option.splits)

lemma optional_string_case_Inr:
  "(case v of FNil \<Rightarrow> Inr None | FString t \<Rightarrow> Inr (Some t) | _ \<Rightarrow> Inl e) = Inr r \<longleftrightarrow>
     v = optional_string_value r"
  by (cases v; cases r) (auto simp: optional_string_value_def)

lemma room_entry_from_Inr:
  "room_entry_from_value_for_shape v shape = Inr m \<longleftrightarrow>
     (room_entry_valid m \<and> entry_fits shape m) \<and> room_entry_into_value_for_shape m shape = Inr v"
proof
  assume "room_entry_from_value_for_shape v shape = Inr m"
  then obtain rest where
    v: "v = FArray (FU64 (ucast (rc_room_id m)) # FString (rc_name m)
        # optional_string_value (rc_topic m) # FU64 (rc_room_revision m) # rest)"
    and rest: "shape_rest shape rest = Inr (rc_policy_bits m, rc_slow_mode_seconds m,
        rc_upload_max_file_bytes m)"
    and ok: "room_entry_valid m"
    by (auto simp: room_entry_from_value_for_shape_def valid_simps u32_try_from_eq_Some Let_def
        optional_string_value_def
        split: FrameValue.split_asm list.split_asm if_split_asm prod.split_asm)
  then show "(room_entry_valid m \<and> entry_fits shape m)
      \<and> room_entry_into_value_for_shape m shape = Inr v"
    by (cases shape)
      (auto simp: room_entry_into_Inr room_entry_value_def shape_rest_Inr entry_fits_def)
next
  assume R: "(room_entry_valid m \<and> entry_fits shape m)
      \<and> room_entry_into_value_for_shape m shape = Inr v"
  then show "room_entry_from_value_for_shape v shape = Inr m"
    by (cases shape; cases m)
      (auto simp: room_entry_from_value_for_shape_def room_entry_into_Inr room_entry_value_def
        shape_rest_def entry_fits_def shape_fields valid_simps optional_string_case_Inr Let_def
        optional_string_value_def optional_u64_value_def split: option.splits)
qed

interpretation room_entry: strict_codec "\<lambda>m. room_entry_into_value_for_shape m shape"
    "\<lambda>v. room_entry_from_value_for_shape v shape" "\<lambda>m. room_entry_valid m \<and> entry_fits shape m"
  for shape
  by unfold_locales (auto simp: room_entry_from_Inr room_entry_into_Inr)

lemma strip_valid: "room_entry_valid m \<Longrightarrow> room_entry_valid (strip_to_shape shape m)"
  by (auto simp: room_entry_valid_def strip_to_shape_def)

lemma strip_fits: "entry_fits shape (strip_to_shape shape m)"
  by (auto simp: entry_fits_def strip_to_shape_def)

lemma strip_value: "room_entry_value shape (strip_to_shape shape m) = room_entry_value shape m"
  by (cases shape) (auto simp: room_entry_value_def strip_to_shape_def)

lemma from_configured_Inr:
  "from_configured_max_file_bytes c = Inr p \<Longrightarrow>
     configured_max_file_bytes p = c \<and> p \<noteq> MaximumFileBytes 0"
  by (auto simp: from_configured_max_file_bytes_def split: option.splits if_splits)

lemma policy_new_total:
  assumes "room_entry_valid m"
  shows "\<exists>p. policy_new_with_upload (rc_policy_bits m) (rc_slow_mode_seconds m) None = Inr p"
    and "\<exists>p. policy_new_with_upload (rc_policy_bits m) (rc_slow_mode_seconds m)
      (Some (rc_upload_max_file_bytes m)) = Inr p"
  using assms
  by (auto simp: policy_new_with_upload_def policy_mask room_entry_valid_def
      ROOM_SLOW_MODE_MAX_SECONDS_def from_configured_max_file_bytes_def split: option.splits)

section \<open>Properties\<close>

text \<open>
  for each of the four negotiated shapes the catalogue codec is exact on the valid entries
  whose uncarried fields have their defaults.
\<close>

theorem room_entry_codec_exact:
  "room_entry_from_value_for_shape v shape = Inr m \<longleftrightarrow>
     (room_entry_valid m \<and> entry_fits shape m) \<and> room_entry_into_value_for_shape m shape = Inr v"
  by (rule room_entry.dec_iff)

text \<open>
  sending any valid entry in an older shape gives the receiver that entry with the fields the
  shape does not carry reset to their defaults, never an error and never another value.
\<close>

theorem room_entry_downgrade:
  assumes "room_entry_valid m"
  shows "and_then (room_entry_into_value_for_shape m shape)
      (\<lambda>v. room_entry_from_value_for_shape v shape) = Inr (strip_to_shape shape m)"
proof -
  have "room_entry_into_value_for_shape m shape
      = room_entry_into_value_for_shape (strip_to_shape shape m) shape"
  proof -
    have "room_entry_into_value_for_shape m shape = Inr (room_entry_value shape m)"
      using assms by (simp add: room_entry_into_Inr)
    moreover have "room_entry_into_value_for_shape (strip_to_shape shape m) shape
        = Inr (room_entry_value shape m)"
      using strip_valid [OF assms] by (simp add: room_entry_into_Inr strip_value)
    ultimately show ?thesis by simp
  qed
  then show ?thesis
    using room_entry.roundtrip [of "strip_to_shape shape m" shape] strip_valid [OF assms] strip_fits
    by simp
qed

definition room_entry_sample :: RoomCatalogEntry where
  "room_entry_sample = \<lparr>rc_room_id = 2, rc_name = ''ops'', rc_topic = None, rc_room_revision = 8,
     rc_policy_bits = 1, rc_slow_mode_seconds = 30, rc_upload_max_file_bytes = Some 1024\<rparr>"

lemma room_entry_sample_valid: "room_entry_valid room_entry_sample"
  by (simp add: room_entry_valid_def room_entry_sample_def ROOM_UPLOAD_MAX_FILE_BYTES_def
      trim_is_empty_def as_bytes_def white_space_def of_char_def)

theorem room_entry_downgrade_witness:
  "and_then (room_entry_into_value_for_shape room_entry_sample Legacy)
      (\<lambda>v. room_entry_from_value_for_shape v Legacy) = Inr (strip_to_shape Legacy room_entry_sample)"
  by (rule room_entry_downgrade [OF room_entry_sample_valid])

text \<open>
  every entry the decoder accepts has a policy projection in its shape, so building the
  projection of a received room cannot fail.
\<close>

theorem room_policy_projection_total:
  assumes "room_entry_from_value_for_shape v shape = Inr m"
  shows "\<exists>p. policy_projection_for_shape m shape = Inr p"
proof -
  have "room_entry_valid m" using room_entry.dec_valid [OF assms] by blast
  from policy_new_total [OF this] show ?thesis
    by (auto simp: policy_projection_for_shape_def room_entry_policy_projection_def policy_new_def
        split: RoomCatalogShape.splits)
qed

theorem room_policy_projection_total_witness:
  "\<exists>p. policy_projection_for_shape (strip_to_shape SlowMode room_entry_sample) SlowMode = Inr p"
proof -
  have "room_entry_valid (strip_to_shape SlowMode room_entry_sample)
      \<and> entry_fits SlowMode (strip_to_shape SlowMode room_entry_sample)"
    using strip_valid [OF room_entry_sample_valid] strip_fits by blast
  then obtain v where
    "room_entry_from_value_for_shape v SlowMode = Inr (strip_to_shape SlowMode room_entry_sample)"
    using room_entry.range_dec [of SlowMode] by blast
  then show ?thesis by (rule room_policy_projection_total)
qed

text \<open>
  the effective upload ceiling is positive and never above the server's limit nor above the
  room's own; uploads are refused exactly when the server or the room sets its limit to zero.
\<close>

theorem effective_upload_ceiling:
  assumes "from_configured_max_file_bytes configured = Inr policy"
  shows "(effective_max_file_bytes policy global_max = Some bytes \<longrightarrow>
       0 < bytes \<and> bytes \<le> global_max \<and> (\<forall>own. configured = Some own \<longrightarrow> bytes \<le> own))
     \<and> (effective_max_file_bytes policy global_max = None \<longleftrightarrow> global_max = 0 \<or> configured = Some 0)
     \<and> configured_max_file_bytes policy = configured"
proof -
  have "p = 0" if "p \<le> 0" for p :: u64 using that by simp
  then show ?thesis using from_configured_Inr [OF assms]
    by (cases policy)
      (auto simp: effective_max_file_bytes_def word_neq_0_conv min_def split: if_splits)
qed

theorem effective_upload_ceiling_witness:
  "effective_max_file_bytes (MaximumFileBytes 4096) 1000 = Some 1000 \<and> (0 :: u64) < 1000"
proof -
  have "from_configured_max_file_bytes (Some 4096) = Inr (MaximumFileBytes 4096)"
    by (simp add: from_configured_max_file_bytes_def ROOM_UPLOAD_MAX_FILE_BYTES_def)
  moreover have "effective_max_file_bytes (MaximumFileBytes 4096) 1000 = Some 1000"
    by (simp add: effective_max_file_bytes_def)
  ultimately show ?thesis using effective_upload_ceiling [of "Some 4096"] by blast
qed

end
