(* ===== verification/Negotiation.thy ===== *)
theory Negotiation
  imports Durable Rich_Message Reactions Message_Revisions Nickname_Colours Room_Policy
begin

text \<open>
  Session negotiation (\<^verbatim>\<open>omenchat-protocol/src/negotiation.rs\<close>): the capability list and client
  instance id that extend the legacy SESSION_OPEN body, and the capability list that extends
  SESSION_ACCEPT. The theory imports the message modules for their capability names.
\<close>

section \<open>Constants, errors and data\<close>

definition SESSION_CAPABILITY_MAX_ITEMS :: nat where "SESSION_CAPABILITY_MAX_ITEMS = 64"
definition SESSION_CAPABILITY_MAX_BYTES :: nat where "SESSION_CAPABILITY_MAX_BYTES = 128"
definition SESSION_OPEN_PROTOCOL_INDEX :: nat where "SESSION_OPEN_PROTOCOL_INDEX = 0"
definition SESSION_OPEN_LXMF_DESTINATION_INDEX :: nat where "SESSION_OPEN_LXMF_DESTINATION_INDEX = 2"
definition SESSION_OPEN_CAPABILITIES_INDEX :: nat where "SESSION_OPEN_CAPABILITIES_INDEX = 3"
definition SESSION_OPEN_CLIENT_INSTANCE_INDEX :: nat where "SESSION_OPEN_CLIENT_INSTANCE_INDEX = 4"
definition SESSION_ACCEPT_CAPABILITIES_INDEX :: nat where "SESSION_ACCEPT_CAPABILITIES_INDEX = 6"

lemmas session_indices = SESSION_OPEN_PROTOCOL_INDEX_def SESSION_OPEN_LXMF_DESTINATION_INDEX_def
  SESSION_OPEN_CAPABILITIES_INDEX_def SESSION_OPEN_CLIENT_INSTANCE_INDEX_def
  SESSION_ACCEPT_CAPABILITIES_INDEX_def

datatype SessionNegotiationError =
    ProtocolName
  | Malformed string
  | CapabilityCount
  | CapabilityName
  | DuplicateCapability
  | MissingCapabilityDependency
  | MissingReactionsDependency
  | MissingMessageRevisionsDependency
  | MissingNicknameColoursDependency
  | MissingSlowModeDependency
  | MissingMediaPolicyDependency
  | SessionDurable DurableMutationError

record SessionOpenNegotiation =
  so_requested_capabilities :: "string list"
  so_client_instance_id :: "bytes option"

record SessionAcceptNegotiation =
  sa_accepted_capabilities :: "string list"

text \<open>\<^verbatim>\<open>slice::get\<close>.\<close>

definition slice_get :: "'a list \<Rightarrow> nat \<Rightarrow> 'a option" where
  "slice_get xs i = (if i < length xs then Some (xs ! i) else None)"

section \<open>Capability lists\<close>

definition capability_byte :: "char \<Rightarrow> bool" where
  "capability_byte c =
     (let b = (of_char c :: nat) in
      (0x30 \<le> b \<and> b \<le> 0x39) \<or> (0x41 \<le> b \<and> b \<le> 0x5A) \<or> (0x61 \<le> b \<and> b \<le> 0x7A)
      \<or> c = CHR ''-'' \<or> c = CHR ''_'' \<or> c = CHR ''.'')"

definition validate_capability_name :: "string \<Rightarrow> SessionNegotiationError + unit" where
  "validate_capability_name capability =
     (if capability = [] \<or> length capability > SESSION_CAPABILITY_MAX_BYTES
         \<or> \<not> list_all capability_byte capability
      then Inl CapabilityName else Inr ())"

fun collect_unique_capabilities ::
    "string list \<Rightarrow> string set \<Rightarrow> SessionNegotiationError + string set" where
  "collect_unique_capabilities [] unique = Inr unique"
| "collect_unique_capabilities (c # cs) unique =
     and_then (validate_capability_name c) (\<lambda>_.
       if c \<in> unique then Inl DuplicateCapability
       else collect_unique_capabilities cs (insert c unique))"

definition validate_capability_list :: "string list \<Rightarrow> SessionNegotiationError + unit" where
  "validate_capability_list capabilities =
     (if length capabilities > SESSION_CAPABILITY_MAX_ITEMS then Inl CapabilityCount
      else
        and_then (collect_unique_capabilities capabilities {}) (\<lambda>unique.
        if REPLY_MENTIONS_CAPABILITY \<in> unique \<and> DURABLE_MUTATION_CAPABILITY \<notin> unique
        then Inl MissingCapabilityDependency
        else if REACTIONS_CAPABILITY \<in> unique \<and> DURABLE_MUTATION_CAPABILITY \<notin> unique
        then Inl MissingReactionsDependency
        else if MESSAGE_REVISIONS_CAPABILITY \<in> unique \<and> DURABLE_MUTATION_CAPABILITY \<notin> unique
        then Inl MissingMessageRevisionsDependency
        else if NICKNAME_COLOURS_CAPABILITY \<in> unique \<and> DURABLE_MUTATION_CAPABILITY \<notin> unique
        then Inl MissingNicknameColoursDependency
        else if ROOM_SLOW_MODE_CAPABILITY \<in> unique \<and> DURABLE_MUTATION_CAPABILITY \<notin> unique
        then Inl MissingSlowModeDependency
        else if ROOM_MEDIA_POLICY_CAPABILITY \<in> unique
            \<and> (ANNOUNCEMENT_ROOMS_CAPABILITY \<notin> unique \<or> ROOM_SLOW_MODE_CAPABILITY \<notin> unique)
        then Inl MissingMediaPolicyDependency
        else Inr ()))"

definition capabilities_value :: "string list \<Rightarrow> FrameValue" where
  "capabilities_value capabilities = FArray (map FString capabilities)"

definition parse_capability :: "FrameValue \<Rightarrow> SessionNegotiationError + string" where
  "parse_capability v =
     (case v of
        FString capability \<Rightarrow> and_then (validate_capability_name capability) (\<lambda>_. Inr capability)
      | _ \<Rightarrow> Inl (Malformed ''capability names must be strings''))"

definition parse_capabilities :: "FrameValue \<Rightarrow> SessionNegotiationError + string list" where
  "parse_capabilities v =
     (case v of
        FArray vs \<Rightarrow>
          if length vs > SESSION_CAPABILITY_MAX_ITEMS then Inl CapabilityCount
          else
            and_then (collect_results parse_capability vs) (\<lambda>capabilities.
            and_then (validate_capability_list capabilities) (\<lambda>_. Inr capabilities))
      | _ \<Rightarrow> Inl (Malformed ''capabilities must be an array''))"

section \<open>Parsing\<close>

definition validate_protocol_field :: "FrameValue list \<Rightarrow> SessionNegotiationError + unit" where
  "validate_protocol_field fs =
     (if slice_get fs SESSION_OPEN_PROTOCOL_INDEX = Some (FString PROTOCOL_NAME) then Inr ()
      else Inl ProtocolName)"

definition parse_session_open_negotiation ::
    "FrameBody \<Rightarrow> SessionNegotiationError + SessionOpenNegotiation option" where
  "parse_session_open_negotiation body =
     (case body of
        Fields fs \<Rightarrow>
          (let capabilities = slice_get fs SESSION_OPEN_CAPABILITIES_INDEX;
               client_instance = slice_get fs SESSION_OPEN_CLIENT_INSTANCE_INDEX in
           if capabilities = None \<and> client_instance = None then Inr None
           else
             and_then (validate_protocol_field fs) (\<lambda>_.
             and_then (ok_or (Malformed ''client instance requires a capability array'')
               capabilities) (\<lambda>capabilities.
             and_then (parse_capabilities capabilities) (\<lambda>requested_capabilities.
             and_then
               (case client_instance of
                  None \<Rightarrow> Inr None
                | Some FNil \<Rightarrow> Inr None
                | Some (FBytes bs) \<Rightarrow>
                    and_then (map_err SessionDurable (client_instance_id_try_from bs))
                      (\<lambda>i. Inr (Some i))
                | Some _ \<Rightarrow> Inl (Malformed ''client instance id must be binary or nil''))
               (\<lambda>client_instance_id.
             if DURABLE_MUTATION_CAPABILITY \<in> set requested_capabilities
                 \<and> client_instance_id = None
             then Inl (Malformed ''durable mutation capability requires a client instance id'')
             else Inr (Some \<lparr>so_requested_capabilities = requested_capabilities,
               so_client_instance_id = client_instance_id\<rparr>))))))
      | _ \<Rightarrow> Inr None)"

definition parse_session_accept_negotiation ::
    "FrameBody \<Rightarrow> SessionNegotiationError + SessionAcceptNegotiation option" where
  "parse_session_accept_negotiation body =
     (case body of
        Fields fs \<Rightarrow>
          (case slice_get fs SESSION_ACCEPT_CAPABILITIES_INDEX of
             None \<Rightarrow> Inr None
           | Some capabilities \<Rightarrow>
               and_then (validate_protocol_field fs) (\<lambda>_.
               and_then (parse_capabilities capabilities) (\<lambda>accepted_capabilities.
               Inr (Some \<lparr>sa_accepted_capabilities = accepted_capabilities\<rparr>))))
      | _ \<Rightarrow> Inr None)"

section \<open>Building\<close>

text \<open>\<^verbatim>\<open>while fields.len() < n { fields.push(Nil) }\<close>.\<close>

definition pad_nil :: "nat \<Rightarrow> FrameValue list \<Rightarrow> FrameValue list" where
  "pad_nil n fs = fs @ replicate (n - length fs) FNil"

definition session_open_base :: "FrameBody \<Rightarrow> FrameValue list" where
  "session_open_base body =
     (case body of
        Empty \<Rightarrow> [FString PROTOCOL_NAME]
      | Text display_name \<Rightarrow> [FString PROTOCOL_NAME, FString display_name]
      | Fields fs \<Rightarrow> fs)"

definition with_session_open_negotiation ::
    "FrameBody \<Rightarrow> SessionOpenNegotiation \<Rightarrow> SessionNegotiationError + FrameBody" where
  "with_session_open_negotiation body negotiation =
     and_then (validate_capability_list (so_requested_capabilities negotiation)) (\<lambda>_.
     if DURABLE_MUTATION_CAPABILITY \<in> set (so_requested_capabilities negotiation)
         \<and> so_client_instance_id negotiation = None
     then Inl (Malformed ''durable mutation capability requires a client instance id'')
     else
       let fs = session_open_base body in
       if length fs > SESSION_OPEN_CAPABILITIES_INDEX
       then Inl (Malformed ''session open already contains negotiation fields'')
       else
         and_then
           (if fs = [] then Inr (fs @ [FString PROTOCOL_NAME])
            else if fs ! SESSION_OPEN_PROTOCOL_INDEX \<noteq> FString PROTOCOL_NAME
            then Inl ProtocolName
            else Inr fs) (\<lambda>fs.
         Inr (Fields (pad_nil (SESSION_OPEN_LXMF_DESTINATION_INDEX + 1) fs
           @ [capabilities_value (so_requested_capabilities negotiation),
              case so_client_instance_id negotiation of Some i \<Rightarrow> FBytes i | None \<Rightarrow> FNil]))))"

definition with_session_accept_negotiation ::
    "FrameBody \<Rightarrow> SessionAcceptNegotiation \<Rightarrow> SessionNegotiationError + FrameBody" where
  "with_session_accept_negotiation body negotiation =
     and_then (validate_capability_list (sa_accepted_capabilities negotiation)) (\<lambda>_.
     case body of
       Fields fs \<Rightarrow>
         if length fs > SESSION_ACCEPT_CAPABILITIES_INDEX
         then Inl (Malformed ''session accept already contains negotiation fields'')
         else
           and_then (validate_protocol_field fs) (\<lambda>_.
           Inr (Fields (pad_nil SESSION_ACCEPT_CAPABILITIES_INDEX fs
             @ [capabilities_value (sa_accepted_capabilities negotiation)])))
     | _ \<Rightarrow> Inl (Malformed ''session accept negotiation requires a fields body''))"

section \<open>Valid capability lists\<close>

text \<open>Which capabilities a capability needs.\<close>

definition capability_needs :: "(string \<times> string) list" where
  "capability_needs =
     [(REPLY_MENTIONS_CAPABILITY, DURABLE_MUTATION_CAPABILITY),
      (REACTIONS_CAPABILITY, DURABLE_MUTATION_CAPABILITY),
      (MESSAGE_REVISIONS_CAPABILITY, DURABLE_MUTATION_CAPABILITY),
      (NICKNAME_COLOURS_CAPABILITY, DURABLE_MUTATION_CAPABILITY),
      (ROOM_SLOW_MODE_CAPABILITY, DURABLE_MUTATION_CAPABILITY),
      (ROOM_MEDIA_POLICY_CAPABILITY, ANNOUNCEMENT_ROOMS_CAPABILITY),
      (ROOM_MEDIA_POLICY_CAPABILITY, ROOM_SLOW_MODE_CAPABILITY)]"

definition capability_name_ok :: "string \<Rightarrow> bool" where
  "capability_name_ok c \<longleftrightarrow> c \<noteq> [] \<and> length c \<le> 128 \<and> list_all capability_byte c"

definition capabilities_ok :: "string list \<Rightarrow> bool" where
  "capabilities_ok cs \<longleftrightarrow> length cs \<le> 64 \<and> distinct cs \<and> list_all capability_name_ok cs
     \<and> (\<forall>(c, needed) \<in> set capability_needs. c \<in> set cs \<longrightarrow> needed \<in> set cs)"

definition session_open_valid :: "SessionOpenNegotiation \<Rightarrow> bool" where
  "session_open_valid n \<longleftrightarrow> capabilities_ok (so_requested_capabilities n)
     \<and> (\<forall>i. so_client_instance_id n = Some i \<longrightarrow> length i = CLIENT_INSTANCE_ID_BYTES)
     \<and> (DURABLE_MUTATION_CAPABILITY \<in> set (so_requested_capabilities n) \<longrightarrow>
          so_client_instance_id n \<noteq> None)"

lemma validate_capability_name_Inr [valid_simps]:
  "validate_capability_name c = Inr u \<longleftrightarrow> capability_name_ok c"
  by (auto simp: validate_capability_name_def capability_name_ok_def SESSION_CAPABILITY_MAX_BYTES_def)

lemma collect_unique_Inr:
  "collect_unique_capabilities cs unique = Inr r \<longleftrightarrow>
     list_all capability_name_ok cs \<and> distinct cs \<and> set cs \<inter> unique = {} \<and> r = set cs \<union> unique"
  by (induction cs arbitrary: unique) (auto simp: valid_simps)

lemma validate_capability_list_Inr [valid_simps]:
  "validate_capability_list cs = Inr u \<longleftrightarrow> capabilities_ok cs"
  by (auto simp: validate_capability_list_def capabilities_ok_def collect_unique_Inr
      SESSION_CAPABILITY_MAX_ITEMS_def capability_needs_def)

lemma parse_capability_Inr: "parse_capability v = Inr c \<longleftrightarrow> capability_name_ok c \<and> v = FString c"
  by (cases v) (auto simp: parse_capability_def valid_simps)

lemma parse_capabilities_Inr [codec_simps]:
  "parse_capabilities v = Inr cs \<longleftrightarrow> capabilities_ok cs \<and> v = capabilities_value cs"
proof (cases v)
  case (FArray vs)
  have "collect_results parse_capability vs = Inr cs \<longleftrightarrow>
      (\<forall>c\<in>set cs. capability_name_ok c) \<and> vs = map FString cs" for cs
    by (rule collect_results_exact) (rule parse_capability_Inr)
  then show ?thesis using FArray
    by (auto simp: parse_capabilities_def capabilities_value_def valid_simps capabilities_ok_def
        SESSION_CAPABILITY_MAX_ITEMS_def list_all_iff)
qed (auto simp: parse_capabilities_def capabilities_value_def)

lemma parse_capabilities_value [simp]:
  "capabilities_ok cs \<Longrightarrow> parse_capabilities (capabilities_value cs) = Inr cs"
  by (simp add: codec_simps)

section \<open>Building and parsing\<close>

lemma nth_pad_nil [simp]: "i < length fs \<Longrightarrow> pad_nil n fs ! i = fs ! i"
  by (simp add: pad_nil_def nth_append)

lemma length_pad_nil [simp]: "length (pad_nil n fs) = max n (length fs)"
  by (simp add: pad_nil_def)

lemma with_open_shape:
  assumes "with_session_open_negotiation body n = Inr b"
  obtains fs where "b = Fields (fs @ [capabilities_value (so_requested_capabilities n),
      case so_client_instance_id n of Some i \<Rightarrow> FBytes i | None \<Rightarrow> FNil])"
    "length fs = 3" "fs ! 0 = FString PROTOCOL_NAME" "capabilities_ok (so_requested_capabilities n)"
    "DURABLE_MUTATION_CAPABILITY \<in> set (so_requested_capabilities n) \<Longrightarrow>
      so_client_instance_id n \<noteq> None"
    "take (length (session_open_base body)) fs = session_open_base body"
  using assms
  by (auto simp: with_session_open_negotiation_def session_indices valid_simps Let_def pad_nil_def
      nth_append neq_Nil_conv split: if_splits)

lemma with_accept_shape:
  assumes "with_session_accept_negotiation body n = Inr b"
  obtains fs where "b = Fields (fs @ [capabilities_value (sa_accepted_capabilities n)])"
    "length fs = 6" "fs ! 0 = FString PROTOCOL_NAME" "capabilities_ok (sa_accepted_capabilities n)"
  using assms
  by (auto simp: with_session_accept_negotiation_def session_indices valid_simps slice_get_def
      validate_protocol_field_def split: if_splits FrameBody.splits)

lemma parse_open_built:
  assumes "length fs = 3" "fs ! 0 = FString PROTOCOL_NAME" "session_open_valid n"
  shows "parse_session_open_negotiation (Fields (fs @
     [capabilities_value (so_requested_capabilities n),
      case so_client_instance_id n of Some i \<Rightarrow> FBytes i | None \<Rightarrow> FNil])) = Inr (Some n)"
  using assms
  by (cases n)
    (auto simp: parse_session_open_negotiation_def slice_get_def session_indices nth_append
      validate_protocol_field_def session_open_valid_def CLIENT_INSTANCE_ID_BYTES_def
      split: option.splits)

lemma parse_open_valid:
  "parse_session_open_negotiation b = Inr (Some n) \<Longrightarrow> session_open_valid n"
  by (auto simp: parse_session_open_negotiation_def session_open_valid_def codec_simps Let_def
      CLIENT_INSTANCE_ID_BYTES_def split: FrameBody.splits if_splits option.splits FrameValue.splits)

section \<open>Properties\<close>

text \<open>
  every capability list that either side accepts, and every list it is willing to send, has
  at most 64 distinct well-formed names and contains whatever its capabilities depend on; and no
  such list is refused.
\<close>

theorem capability_list_exact:
  "(validate_capability_list cs = Inr () \<longleftrightarrow> capabilities_ok cs)
   \<and> (parse_capabilities v = Inr cs \<longleftrightarrow> capabilities_ok cs \<and> v = capabilities_value cs)"
  by (simp add: valid_simps codec_simps)

text \<open>
  the negotiation fields that a client adds to any SESSION_OPEN body are read back by the
  server as the same capabilities and client instance, the legacy fields that precede them are
  kept, and whatever a server accepts is valid: in particular durable mutations are never
  negotiated without a sixteen-byte client instance id.
\<close>

theorem session_open_negotiation_roundtrip:
  assumes "with_session_open_negotiation body n = Inr b"
    and "\<forall>i. so_client_instance_id n = Some i \<longrightarrow> length i = CLIENT_INSTANCE_ID_BYTES"
  shows "parse_session_open_negotiation b = Inr (Some n) \<and> session_open_valid n
     \<and> (\<exists>fs. b = Fields fs \<and> length fs = 5
          \<and> take (length (session_open_base body)) fs = session_open_base body)"
proof -
  from assms(1) obtain fs where b: "b = Fields (fs @
      [capabilities_value (so_requested_capabilities n),
       case so_client_instance_id n of Some i \<Rightarrow> FBytes i | None \<Rightarrow> FNil])"
    and fs: "length fs = 3" "fs ! 0 = FString PROTOCOL_NAME"
    and ok: "capabilities_ok (so_requested_capabilities n)"
      "DURABLE_MUTATION_CAPABILITY \<in> set (so_requested_capabilities n) \<Longrightarrow>
        so_client_instance_id n \<noteq> None"
    and keep: "take (length (session_open_base body)) fs = session_open_base body"
    by (rule with_open_shape) blast
  have valid: "session_open_valid n" using ok assms(2) by (simp add: session_open_valid_def)
  moreover have "length (session_open_base body) \<le> 3"
    using keep fs(1) by (metis length_take min.cobounded1)
  ultimately show ?thesis using parse_open_built [OF fs valid] b fs(1) keep by simp
qed

definition session_open_sample :: SessionOpenNegotiation where
  "session_open_sample = \<lparr>so_requested_capabilities =
     [DURABLE_MUTATION_CAPABILITY, REACTIONS_CAPABILITY], so_client_instance_id = Some (replicate 16 7)\<rparr>"

lemma session_open_sample_ok: "capabilities_ok (so_requested_capabilities session_open_sample)"
  by (simp add: capabilities_ok_def session_open_sample_def capability_needs_def
      DURABLE_MUTATION_CAPABILITY_def REACTIONS_CAPABILITY_def REPLY_MENTIONS_CAPABILITY_def
      MESSAGE_REVISIONS_CAPABILITY_def NICKNAME_COLOURS_CAPABILITY_def ROOM_SLOW_MODE_CAPABILITY_def
      ROOM_MEDIA_POLICY_CAPABILITY_def capability_name_ok_def capability_byte_def of_char_def)

theorem session_open_negotiation_roundtrip_witness:
  "\<exists>b. with_session_open_negotiation (Text ''ada'') session_open_sample = Inr b
     \<and> parse_session_open_negotiation b = Inr (Some session_open_sample)"
proof -
  have "validate_capability_list (so_requested_capabilities session_open_sample) = Inr ()"
    using session_open_sample_ok by (simp add: valid_simps)
  then obtain b where b: "with_session_open_negotiation (Text ''ada'') session_open_sample = Inr b"
    by (auto simp: with_session_open_negotiation_def session_open_base_def session_indices Let_def
        session_open_sample_def)
  moreover have "\<forall>i. so_client_instance_id session_open_sample = Some i \<longrightarrow>
      length i = CLIENT_INSTANCE_ID_BYTES"
    by (simp add: session_open_sample_def CLIENT_INSTANCE_ID_BYTES_def)
  ultimately show ?thesis using session_open_negotiation_roundtrip by blast
qed

text \<open>
  what a server parses out of SESSION_OPEN is always a valid negotiation, and a body without
  the negotiation positions is the legacy session with no negotiation at all.
\<close>

theorem session_open_parse_valid:
  "(\<forall>n. parse_session_open_negotiation b = Inr (Some n) \<longrightarrow> session_open_valid n)
   \<and> parse_session_open_negotiation (Text name) = Inr None
   \<and> (length fs \<le> SESSION_OPEN_CAPABILITIES_INDEX \<longrightarrow>
      parse_session_open_negotiation (Fields fs) = Inr None)"
  using parse_open_valid
  by (auto simp: parse_session_open_negotiation_def slice_get_def session_indices)

theorem session_open_parse_valid_witness:
  "parse_session_open_negotiation (Fields [FString PROTOCOL_NAME]) = Inr None"
  using session_open_parse_valid [where fs = "[FString PROTOCOL_NAME]"]
  by (simp add: session_indices)

text \<open>
  the capabilities that a server appends to SESSION_ACCEPT are what the client reads back.
\<close>

theorem session_accept_negotiation_roundtrip:
  assumes "with_session_accept_negotiation body n = Inr b"
  shows "parse_session_accept_negotiation b = Inr (Some n) \<and> capabilities_ok (sa_accepted_capabilities n)"
proof -
  from assms obtain fs where "b = Fields (fs @ [capabilities_value (sa_accepted_capabilities n)])"
    "length fs = 6" "fs ! 0 = FString PROTOCOL_NAME" "capabilities_ok (sa_accepted_capabilities n)"
    by (rule with_accept_shape)
  then show ?thesis
    by (cases n)
      (auto simp: parse_session_accept_negotiation_def slice_get_def session_indices nth_append
        validate_protocol_field_def)
qed

theorem session_accept_negotiation_roundtrip_witness:
  "\<exists>b. with_session_accept_negotiation (Fields [FString PROTOCOL_NAME])
       \<lparr>sa_accepted_capabilities = so_requested_capabilities session_open_sample\<rparr> = Inr b
     \<and> parse_session_accept_negotiation b
       = Inr (Some \<lparr>sa_accepted_capabilities = so_requested_capabilities session_open_sample\<rparr>)"
proof -
  have "validate_capability_list (so_requested_capabilities session_open_sample) = Inr ()"
    using session_open_sample_ok by (simp add: valid_simps)
  then obtain b where "with_session_accept_negotiation (Fields [FString PROTOCOL_NAME])
      \<lparr>sa_accepted_capabilities = so_requested_capabilities session_open_sample\<rparr> = Inr b"
    by (auto simp: with_session_accept_negotiation_def session_indices validate_protocol_field_def
        slice_get_def)
  then show ?thesis using session_accept_negotiation_roundtrip by blast
qed

end
