(* ===== verification/Msgpack.thy ===== *)
theory Msgpack
  imports Omen_Prelude
begin

unbundle bit_operations_syntax

text \<open>
  The bounded MessagePack scanner: \<^verbatim>\<open>MsgpackScanner\<close> of \<^verbatim>\<open>server/src/protocol/codec.rs\<close> and its
  twin in the browser's \<^verbatim>\<open>src/msgpack.rs\<close>. Every inbound frame and batch passes it before the
  third-party reader sees a byte. The first part of the theory states the MessagePack format as
  the relation \<open>mp_encodes\<close> between values and byte strings; the second is the scanner, which
  walks the bytes with an offset and a value counter and builds nothing; the third proves that it
  accepts exactly the encodings of values within the limits.
\<close>

section \<open>The MessagePack format\<close>

text \<open>The values of \<^verbatim>\<open>rmpv::Value\<close>; a string holds raw bytes, floats hold their bits.\<close>

datatype Value =
    VNil
  | VBoolean bool
  | VInteger int
  | VF32 bytes
  | VF64 bytes
  | VString bytes
  | VBinary bytes
  | VExt u8 bytes
  | VArray "Value list"
  | VMap "(Value \<times> Value) list"

text \<open>A marker byte followed by an unsigned big-endian length of one of the given widths.\<close>

definition mp_len_head :: "(u8 \<times> nat) list \<Rightarrow> nat \<Rightarrow> bytes \<Rightarrow> bool" where
  "mp_len_head formats n h \<longleftrightarrow> (\<exists>(m, w)\<in>set formats. n < 256 ^ w \<and> h = m # be_bytes w n)"

definition mp_str_head :: "nat \<Rightarrow> bytes \<Rightarrow> bool" where
  "mp_str_head n h \<longleftrightarrow> n < 32 \<and> h = [0xA0 + word_of_nat n]
     \<or> mp_len_head [(0xD9, 1), (0xDA, 2), (0xDB, 4)] n h"

definition mp_bin_head :: "nat \<Rightarrow> bytes \<Rightarrow> bool" where
  "mp_bin_head n h \<longleftrightarrow> mp_len_head [(0xC4, 1), (0xC5, 2), (0xC6, 4)] n h"

definition mp_ext_head :: "nat \<Rightarrow> bytes \<Rightarrow> bool" where
  "mp_ext_head n h \<longleftrightarrow>
     (n, h) \<in> {(1, [0xD4]), (2, [0xD5]), (4, [0xD6]), (8, [0xD7]), (16, [0xD8])}
     \<or> mp_len_head [(0xC7, 1), (0xC8, 2), (0xC9, 4)] n h"

definition mp_array_head :: "nat \<Rightarrow> bytes \<Rightarrow> bool" where
  "mp_array_head n h \<longleftrightarrow> n < 16 \<and> h = [0x90 + word_of_nat n]
     \<or> mp_len_head [(0xDC, 2), (0xDD, 4)] n h"

definition mp_map_head :: "nat \<Rightarrow> bytes \<Rightarrow> bool" where
  "mp_map_head n h \<longleftrightarrow> n < 16 \<and> h = [0x80 + word_of_nat n]
     \<or> mp_len_head [(0xDE, 2), (0xDF, 4)] n h"

definition mp_uint_formats :: "(u8 \<times> nat) list" where
  "mp_uint_formats = [(0xCC, 1), (0xCD, 2), (0xCE, 4), (0xCF, 8)]"

definition mp_int_formats :: "(u8 \<times> nat) list" where
  "mp_int_formats = [(0xD0, 1), (0xD1, 2), (0xD2, 4), (0xD3, 8)]"

definition mp_integer :: "int \<Rightarrow> bytes \<Rightarrow> bool" where
  "mp_integer i bs \<longleftrightarrow>
     0 \<le> i \<and> i < 128 \<and> bs = [word_of_int i]
     \<or> -32 \<le> i \<and> i < 0 \<and> bs = [word_of_int i]
     \<or> (\<exists>(m, w)\<in>set mp_uint_formats. 0 \<le> i \<and> i < 256 ^ w \<and> bs = m # be_bytes w (nat i))
     \<or> (\<exists>(m, w)\<in>set mp_int_formats. - (256 ^ w) \<le> 2 * i \<and> 2 * i < 256 ^ w
          \<and> bs = m # be_bytes w (nat (i mod 256 ^ w)))"

inductive mp_encodes :: "Value \<Rightarrow> bytes \<Rightarrow> bool" where
  nil: "mp_encodes VNil [0xC0]"
| boolean: "mp_encodes (VBoolean b) [if b then 0xC3 else 0xC2]"
| integer: "mp_integer i bs \<Longrightarrow> mp_encodes (VInteger i) bs"
| f32: "length bits = 4 \<Longrightarrow> mp_encodes (VF32 bits) (0xCA # bits)"
| f64: "length bits = 8 \<Longrightarrow> mp_encodes (VF64 bits) (0xCB # bits)"
| str: "mp_str_head (length s) h \<Longrightarrow> mp_encodes (VString s) (h @ s)"
| bin: "mp_bin_head (length b) h \<Longrightarrow> mp_encodes (VBinary b) (h @ b)"
| ext: "mp_ext_head (length b) h \<Longrightarrow> mp_encodes (VExt ty b) (h @ ty # b)"
| array: "mp_array_head (length vs) h \<Longrightarrow> list_all2 mp_encodes vs bss \<Longrightarrow>
    mp_encodes (VArray vs) (h @ concat bss)"
| map: "mp_map_head (length kvs) h \<Longrightarrow>
    list_all2 mp_encodes (concat (map (\<lambda>(k, v). [k, v]) kvs)) bss \<Longrightarrow>
    mp_encodes (VMap kvs) (h @ concat bss)"

section \<open>The scanner\<close>

record MsgpackLimits =
  max_scalar_bytes :: nat
  max_container_items :: nat
  max_total_values :: nat
  max_nesting_depth :: nat

record MsgpackScanner =
  sc_offset :: nat
  sc_values :: nat

definition usize_saturate :: "nat \<Rightarrow> nat" where "usize_saturate n = min n (2 ^ 64 - 1)"

definition scan_take :: "bytes \<Rightarrow> nat \<Rightarrow> MsgpackScanner \<Rightarrow> string + (bytes \<times> MsgpackScanner)" where
  "scan_take bs len st =
     (let e = sc_offset st + len in
      if e \<ge> 2 ^ 64 then Inl ''MessagePack length overflow''
      else if e > length bs then Inl ''truncated MessagePack value''
      else Inr (take len (drop (sc_offset st) bs), st\<lparr>sc_offset := e\<rparr>))"

definition scan_skip :: "bytes \<Rightarrow> nat \<Rightarrow> MsgpackScanner \<Rightarrow> string + MsgpackScanner" where
  "scan_skip bs len st = and_then (scan_take bs len st) (\<lambda>(_, st). Inr st)"

definition scan_take_u8 :: "bytes \<Rightarrow> MsgpackScanner \<Rightarrow> string + (u8 \<times> MsgpackScanner)" where
  "scan_take_u8 bs st = and_then (scan_take bs 1 st) (\<lambda>(b, st). Inr (b ! 0, st))"

definition scan_read_uint :: "bytes \<Rightarrow> nat \<Rightarrow> MsgpackScanner \<Rightarrow> string + (nat \<times> MsgpackScanner)" where
  "scan_read_uint bs width st =
     and_then (scan_take bs width st) (\<lambda>(b, st).
       let value = foldl (\<lambda>value byte. push_bit 8 value OR ucast byte) (0 :: u64) b in
       Inr (unat value, st))"

definition scan_scalar ::
    "bytes \<Rightarrow> MsgpackLimits \<Rightarrow> nat \<Rightarrow> MsgpackScanner \<Rightarrow> string + MsgpackScanner" where
  "scan_scalar bs lim len st =
     (if len > max_scalar_bytes lim then Inl ''MessagePack scalar limit exceeded''
      else scan_skip bs len st)"

text \<open>The arms of \<^verbatim>\<open>match marker\<close>: what follows the marker byte.\<close>

datatype MarkerArm =
    Done
  | Container nat
  | Scalar nat
  | Reserved
  | ScalarLen nat nat
  | Skip nat
  | ContainerLen nat nat

definition marker_arm :: "u8 \<Rightarrow> MarkerArm" where
  "marker_arm m =
     (if m \<le> 0x7F \<or> m = 0xC0 \<or> m = 0xC2 \<or> m = 0xC3 \<or> 0xE0 \<le> m then Done
      else if m \<le> 0x8F then Container (unat (m AND 0x0F) * 2)
      else if m \<le> 0x9F then Container (unat (m AND 0x0F))
      else if m \<le> 0xBF then Scalar (unat (m AND 0x1F))
      else if m = 0xC1 then Reserved
      else if m = 0xC4 \<or> m = 0xD9 then ScalarLen 1 0
      else if m = 0xC5 \<or> m = 0xDA then ScalarLen 2 0
      else if m = 0xC6 \<or> m = 0xDB then ScalarLen 4 0
      else if m = 0xC7 then ScalarLen 1 1
      else if m = 0xC8 then ScalarLen 2 1
      else if m = 0xC9 then ScalarLen 4 1
      else if m = 0xCA then Skip 4
      else if m = 0xCB then Skip 8
      else if m = 0xCC \<or> m = 0xD0 then Skip 1
      else if m = 0xCD \<or> m = 0xD1 then Skip 2
      else if m = 0xCE \<or> m = 0xD2 then Skip 4
      else if m = 0xCF \<or> m = 0xD3 then Skip 8
      else if m = 0xD4 then Skip 2
      else if m = 0xD5 then Skip 3
      else if m = 0xD6 then Skip 5
      else if m = 0xD7 then Skip 9
      else if m = 0xD8 then Skip 17
      else if m = 0xDC then ContainerLen 2 1
      else if m = 0xDD then ContainerLen 4 1
      else if m = 0xDE then ContainerLen 2 2
      else ContainerLen 4 2)"

text \<open>\<^verbatim>\<open>value\<close> and \<^verbatim>\<open>container\<close>, with the loop over the items of a container.\<close>

function (sequential) scan_value ::
    "bytes \<Rightarrow> MsgpackLimits \<Rightarrow> nat \<Rightarrow> MsgpackScanner \<Rightarrow> string + MsgpackScanner"
and scan_container ::
    "bytes \<Rightarrow> MsgpackLimits \<Rightarrow> nat \<Rightarrow> nat \<Rightarrow> MsgpackScanner \<Rightarrow> string + MsgpackScanner"
and scan_items ::
    "bytes \<Rightarrow> MsgpackLimits \<Rightarrow> nat \<Rightarrow> nat \<Rightarrow> MsgpackScanner \<Rightarrow> string + MsgpackScanner"
where
  "scan_value bs lim depth st =
     (if depth > max_nesting_depth lim then Inl ''MessagePack nesting limit exceeded''
      else
        let st = st\<lparr>sc_values := usize_saturate (sc_values st + 1)\<rparr> in
        if sc_values st > max_total_values lim then Inl ''MessagePack value limit exceeded''
        else
          and_then (scan_take_u8 bs st) (\<lambda>(marker, st).
            case marker_arm marker of
              Done \<Rightarrow> Inr st
            | Container items \<Rightarrow> scan_container bs lim items depth st
            | Scalar len \<Rightarrow> scan_scalar bs lim len st
            | Reserved \<Rightarrow> Inl ''reserved MessagePack marker''
            | ScalarLen width extra \<Rightarrow>
                and_then (scan_read_uint bs width st) (\<lambda>(len, st).
                scan_scalar bs lim (usize_saturate (len + extra)) st)
            | Skip len \<Rightarrow> scan_skip bs len st
            | ContainerLen width factor \<Rightarrow>
                and_then (scan_read_uint bs width st) (\<lambda>(len, st).
                scan_container bs lim (usize_saturate (len * factor)) depth st)))"
| "scan_container bs lim items depth st =
     (if items > max_container_items lim then Inl ''MessagePack container limit exceeded''
      else scan_items bs lim items (depth + 1) st)"
| "scan_items bs lim 0 depth st = Inr st"
| "scan_items bs lim (Suc n) depth st =
     and_then (scan_value bs lim depth st) (\<lambda>st. scan_items bs lim n depth st)"
  by pat_completeness auto
termination
  by (relation "measures [
      \<lambda>x. case x of Inl (bs, lim, d, st) \<Rightarrow> 3 * (max_nesting_depth lim + 1 - d)
        | Inr (Inl (bs, lim, n, d, st)) \<Rightarrow> 3 * (max_nesting_depth lim - d) + 2
        | Inr (Inr (bs, lim, n, d, st)) \<Rightarrow> 3 * (max_nesting_depth lim + 1 - d) + 1,
      \<lambda>x. case x of Inr (Inr (bs, lim, n, d, st)) \<Rightarrow> Suc n | _ \<Rightarrow> 0]")
    auto

declare scan_value.simps [simp del] scan_container.simps [simp del]

definition validate_msgpack_with_limits ::
    "bytes \<Rightarrow> nat \<Rightarrow> MsgpackLimits \<Rightarrow> string + unit" where
  "validate_msgpack_with_limits bs max_bytes lim =
     (if length bs > max_bytes then Inl ''MessagePack byte limit exceeded''
      else
        and_then (scan_value bs lim 0 \<lparr>sc_offset = 0, sc_values = 0\<rparr>) (\<lambda>st.
        if sc_offset st \<noteq> length bs then Inl ''trailing MessagePack data'' else Inr ()))"

section \<open>Values within limits\<close>

fun mp_children :: "Value \<Rightarrow> Value list" where
  "mp_children (VArray vs) = vs"
| "mp_children (VMap kvs) = concat (map (\<lambda>(k, v). [k, v]) kvs)"
| "mp_children _ = []"

fun mp_scalar_len :: "Value \<Rightarrow> nat" where
  "mp_scalar_len (VString s) = length s"
| "mp_scalar_len (VBinary b) = length b"
| "mp_scalar_len (VExt ty b) = length b + 1"
| "mp_scalar_len _ = 0"

lemma mp_children_size: "c \<in> set (mp_children v) \<Longrightarrow> size c < size v"
proof (cases v)
  case (VArray vs)
  then show "c \<in> set (mp_children v) \<Longrightarrow> size c < size v"
    using size_list_estimation' [of c vs "size c" size] by fastforce
next
  case (VMap kvs)
  assume "c \<in> set (mp_children v)"
  then obtain a b where ab: "(a, b) \<in> set kvs" "c = a \<or> c = b" using VMap by auto
  have "size a + size b \<le> size_prod size size (a, b)" by simp
  then show "size c < size v"
    using ab VMap size_list_estimation' [of "(a, b)" kvs "size c" "size_prod size size"] by fastforce
qed auto

function mp_count :: "Value \<Rightarrow> nat" where
  "mp_count v = 1 + sum_list (map mp_count (mp_children v))"
  by pat_completeness auto
termination by (relation "measure size") (auto simp: mp_children_size)

function mp_within :: "MsgpackLimits \<Rightarrow> nat \<Rightarrow> Value \<Rightarrow> bool" where
  "mp_within lim depth v \<longleftrightarrow>
     depth \<le> max_nesting_depth lim \<and> mp_scalar_len v \<le> max_scalar_bytes lim
     \<and> length (mp_children v) \<le> max_container_items lim
     \<and> (\<forall>c\<in>set (mp_children v). mp_within lim (depth + 1) c)"
  by pat_completeness auto
termination by (relation "measure (\<lambda>(lim, depth, v). size v)") (auto simp: mp_children_size)

declare mp_count.simps [simp del] mp_within.simps [simp del]

section \<open>Marker bytes and value shapes\<close>

text \<open>What may follow a marker: the bytes \<open>p\<close>, then the encodings of \<open>n\<close> items.\<close>

definition mp_shape :: "u8 \<Rightarrow> bytes \<Rightarrow> nat \<Rightarrow> nat \<Rightarrow> bool" where
  "mp_shape m p n k \<longleftrightarrow>
     (case marker_arm m of
        Done \<Rightarrow> p = [] \<and> n = 0 \<and> k = 0
      | Container items \<Rightarrow> p = [] \<and> n = items \<and> k = 0
      | Scalar len \<Rightarrow> length p = len \<and> n = 0 \<and> k = len
      | Reserved \<Rightarrow> False
      | ScalarLen w x \<Rightarrow> n = 0 \<and> (\<exists>l q. p = l @ q \<and> length l = w \<and> length q = from_be l + x
            \<and> k = length q)
      | Skip len \<Rightarrow> length p = len \<and> n = 0 \<and> k \<le> 17
      | ContainerLen w f \<Rightarrow> length p = w \<and> n = from_be p * f \<and> k = 0)"

lemma signed_be:
  assumes "length p = w"
  shows "\<exists>i :: int. - (256 ^ w) \<le> 2 * i \<and> 2 * i < 256 ^ w \<and> p = be_bytes w (nat (i mod 256 ^ w))"
proof -
  define n where "n = from_be p"
  have "n < 256 ^ w" using from_be_less [of p] assms by (simp add: n_def)
  then have "int n < int (256 ^ w)" by (simp only: of_nat_less_iff)
  then have lt: "int n < 256 ^ w" by simp
  have p: "p = be_bytes w n" using be_bytes_from_be [of p] assms by (simp add: n_def)
  show ?thesis
  proof (cases "2 * int n < 256 ^ w")
    case True
    then show ?thesis using lt p by (intro exI [of _ "int n"]) simp
  next
    case False
    have "(int n - 256 ^ w) mod 256 ^ w = int n" using lt by simp
    moreover have "2 * (a - b) < b" if "a < b" "0 < b" for a b :: int using that by simp
    from this [OF lt] have "2 * (int n - 256 ^ w) < 256 ^ w" by simp
    moreover have "- b \<le> 2 * (a - b)" if "\<not> 2 * a < b" for a b :: int using that by simp
    then have "- (256 ^ w) \<le> 2 * (int n - 256 ^ w)" using False by blast
    ultimately show ?thesis using p by (intro exI [of _ "int n - 256 ^ w"]) simp
  qed
qed

lemma nibble: "unat (m AND 0x0F :: u8) = unat m mod 16" "unat (m AND 0x1F :: u8) = unat m mod 32"
proof -
  have "m AND 0x0F = take_bit 4 m" "m AND 0x1F = take_bit 5 m"
    by (simp_all add: take_bit_eq_mask mask_eq_exp_minus_1)
  then have "unat (m AND 0x0F) = take_bit 4 (unat m)" "unat (m AND 0x1F) = take_bit 5 (unat m)"
    by (simp_all only: unsigned_take_bit_eq)
  then show "unat (m AND 0x0F :: u8) = unat m mod 16" "unat (m AND 0x1F :: u8) = unat m mod 32"
    by (simp_all add: take_bit_eq_mod)
qed

lemma mod_marker [simp]:
  "k < 32 \<Longrightarrow> (160 + k) mod 32 = (k :: nat)"
  "k < 16 \<Longrightarrow> (128 + k) mod 16 = (k :: nat)"
  "k < 16 \<Longrightarrow> (144 + k) mod 16 = (k :: nat)"
  using mod_mult_self3 [of 5 32 k] mod_mult_self3 [of 8 16 k] mod_mult_self3 [of 9 16 k] by simp_all

lemma marker_offset:
  assumes "unat (b :: u8) + n = unat m"
  shows "b + word_of_nat n = m"
proof -
  have "unat m < 256" using unsigned_less [of m, where ?'a = nat] by simp
  then have "unat (b + word_of_nat n) = unat m"
    using assms by (simp add: unat_word_ariths unsigned_of_nat take_bit_eq_mod mod_simps)
  then show ?thesis by (simp add: word_unat_eq_iff)
qed

lemma unat_of_nat_u8: "word_of_nat (unat (m :: u8)) = m"
  by simp

lemma u8_le_unat: "(a :: u8) \<le> b \<longleftrightarrow> unat a \<le> unat b"
  by (simp add: word_le_nat_alt)


subsection \<open>The marker table, by arm\<close>

lemma marker_Scalar:
  "marker_arm m = Scalar n \<longleftrightarrow> n < 32 \<and> m = 0xA0 + word_of_nat n"
proof
  assume arm: "marker_arm m = Scalar n"
  have "\<not> m \<le> 0x9F \<and> m \<le> 0xBF \<and> n = unat (m AND 0x1F)"
    using arm unfolding marker_arm_def by (simp split: if_split_asm)
  then have le: "0xA0 \<le> unat m" "unat m \<le> 0xBF" and n: "n = unat m mod 32"
    by (auto simp: u8_le_unat nibble)
  define k where "k = unat m - 0xA0"
  have k: "unat m = 0xA0 + k" "k < 32" using le by (auto simp: k_def)
  then have "n = k" using n by simp
  then show "n < 32 \<and> m = 0xA0 + word_of_nat n" using k marker_offset [of "0xA0" k m] by simp
next
  assume R: "n < 32 \<and> m = 0xA0 + word_of_nat n"
  then have "unat m = 0xA0 + n"
    by (simp add: unat_word_ariths unsigned_of_nat take_bit_eq_mod mod_simps)
  then show "marker_arm m = Scalar n"
    using R by (simp add: marker_arm_def u8_le_unat word_unat_eq_iff nibble)
qed

lemma marker_Container:
  "marker_arm m = Container n \<longleftrightarrow>
     (\<exists>k<16. m = 0x80 + word_of_nat k \<and> n = k * 2 \<or> m = 0x90 + word_of_nat k \<and> n = k)"
proof
  assume arm: "marker_arm m = Container n"
  then consider "\<not> m \<le> 0x7F" "m \<le> 0x8F" "n = unat (m AND 0x0F) * 2"
    | "\<not> m \<le> 0x8F" "m \<le> 0x9F" "n = unat (m AND 0x0F)"
    unfolding marker_arm_def by (simp split: if_split_asm)
  then show "\<exists>k<16. m = 0x80 + word_of_nat k \<and> n = k * 2 \<or> m = 0x90 + word_of_nat k \<and> n = k"
  proof cases
    case 1
    define k where "k = unat m - 0x80"
    have k: "unat m = 0x80 + k" "k < 16" using 1(1,2) by (auto simp: k_def u8_le_unat)
    then show ?thesis using 1(3) marker_offset [of "0x80" k m] by (auto simp: nibble)
  next
    case 2
    define k where "k = unat m - 0x90"
    have k: "unat m = 0x90 + k" "k < 16" using 2(1,2) by (auto simp: k_def u8_le_unat)
    then show ?thesis using 2(3) marker_offset [of "0x90" k m] by (auto simp: nibble)
  qed
next
  assume "\<exists>k<16. m = 0x80 + word_of_nat k \<and> n = k * 2 \<or> m = 0x90 + word_of_nat k \<and> n = k"
  then obtain k where k: "k < 16"
    and m: "m = 0x80 + word_of_nat k \<and> n = k * 2 \<or> m = 0x90 + word_of_nat k \<and> n = k" by blast
  then have "unat m = 0x80 + k \<and> n = k * 2 \<or> unat m = 0x90 + k \<and> n = k"
    by (auto simp: unat_word_ariths unsigned_of_nat take_bit_eq_mod mod_simps)
  then show "marker_arm m = Container n"
    using k by (elim disjE conjE) (simp_all add: marker_arm_def u8_le_unat word_unat_eq_iff nibble)
qed

lemma marker_ScalarLen:
  "marker_arm m = ScalarLen w x \<longleftrightarrow> (m, w, x) \<in> set [(0xC4, 1, 0), (0xD9, 1, 0), (0xC5, 2, 0),
     (0xDA, 2, 0), (0xC6, 4, 0), (0xDB, 4, 0), (0xC7, 1, 1), (0xC8, 2, 1), (0xC9, 4, 1)]"
proof
  assume "marker_arm m = ScalarLen w x"
  then show "(m, w, x) \<in> set [(0xC4, 1, 0), (0xD9, 1, 0), (0xC5, 2, 0), (0xDA, 2, 0),
      (0xC6, 4, 0), (0xDB, 4, 0), (0xC7, 1, 1), (0xC8, 2, 1), (0xC9, 4, 1)]"
    unfolding marker_arm_def by (simp split: if_split_asm)
qed (auto simp: marker_arm_def)

lemma marker_Skip:
  "marker_arm m = Skip n \<longleftrightarrow> (m, n) \<in> set ([(0xCA, 4), (0xCB, 8), (0xD4, 2), (0xD5, 3), (0xD6, 5),
     (0xD7, 9), (0xD8, 17)] @ mp_uint_formats @ mp_int_formats)"
proof
  assume "marker_arm m = Skip n"
  then show "(m, n) \<in> set ([(0xCA, 4), (0xCB, 8), (0xD4, 2), (0xD5, 3), (0xD6, 5),
      (0xD7, 9), (0xD8, 17)] @ mp_uint_formats @ mp_int_formats)"
    unfolding marker_arm_def mp_uint_formats_def mp_int_formats_def by (simp split: if_split_asm)
qed (auto simp: marker_arm_def mp_uint_formats_def mp_int_formats_def)

lemma marker_ContainerLen:
  assumes "marker_arm m = ContainerLen w f"
  shows "(m, w, f) \<in> set [(0xDC, 2, 1), (0xDD, 4, 1), (0xDE, 2, 2), (0xDF, 4, 2)]"
proof -
  consider "(m, w, f) \<in> set [(0xDC, 2, 1), (0xDD, 4, 1), (0xDE, 2, 2)]"
    | "\<not> m \<le> 0xBF" "\<not> 0xE0 \<le> m" "w = 4" "f = 2"
      "m \<notin> set (map word_of_nat [0xC0..<0xDF])"
    using assms unfolding marker_arm_def by (simp add: upt_rec_numeral split: if_split_asm)
  then show ?thesis
  proof cases
    case 2
    have "0xC0 \<le> unat m" "unat m < 0xE0" using 2(1,2) by (simp_all add: u8_le_unat)
    moreover have "unat m \<notin> set [0xC0..<0xDF]" using 2(5) by (metis image_eqI list.set_map unat_of_nat_u8)
    then have "\<not> (0xC0 \<le> unat m \<and> unat m < 0xDF)"
      by (simp only: set_upt atLeastLessThan_iff not_False_eq_True)
    ultimately have "unat m = 0xDF" by linarith
    then have "m = 0xDF" by (simp add: word_unat_eq_iff)
    then show ?thesis using 2(3,4) by simp
  qed auto
qed

subsection \<open>Every marker begins a value\<close>

lemma arm_Done: "marker_arm m = Done \<Longrightarrow> \<exists>v. mp_encodes v [m] \<and> mp_children v = [] \<and> mp_scalar_len v = 0"
proof -
  assume "marker_arm m = Done"
  then consider "m \<le> 0x7F" | "m = 0xC0" | "m = 0xC2" | "m = 0xC3" | "0xE0 \<le> m"
    by (auto simp: marker_arm_def split: if_splits)
  then show ?thesis
  proof cases
    case 1
    then have "mp_integer (uint m) [m]"
      by (simp add: mp_integer_def word_le_def)
    then show ?thesis using integer by fastforce
  next
    case 2
    then show ?thesis using nil by fastforce
  next
    case 3
    then show ?thesis using boolean [of False] by fastforce
  next
    case 4
    then show ?thesis using boolean [of True] by fastforce
  next
    case 5
    have "uint m < 256" using unsigned_less [of m, where ?'a = int] by simp
    moreover have "(word_of_int (uint m - 256) :: u8) = m"
      by simp
    ultimately have "mp_integer (uint m - 256) [m]" using 5
      by (simp add: mp_integer_def word_le_def)
    then show ?thesis using integer by fastforce
  qed
qed

lemma arm_Scalar:
  assumes "marker_arm m = Scalar n" "length p = n"
  shows "mp_encodes (VString p) (m # p)"
proof -
  have "n < 32" "m = 0xA0 + word_of_nat n" using assms(1) by (auto simp: marker_Scalar)
  then have "mp_str_head (length p) [m]" using assms(2) by (auto simp: mp_str_head_def)
  from str [OF this] show ?thesis by simp
qed

lemma len_headI: "(m, w) \<in> set formats \<Longrightarrow> length l = w \<Longrightarrow> mp_len_head formats (from_be l) (m # l)"
  unfolding mp_len_head_def using from_be_less [of l] be_bytes_from_be [of l]
  by (intro bexI [of _ "(m, w)"]) auto

lemma arm_ScalarLen:
  assumes "marker_arm m = ScalarLen w x" "length l = w" "length q = from_be l + x"
  shows "\<exists>v. mp_encodes v (m # l @ q) \<and> mp_children v = [] \<and> mp_scalar_len v = length q"
proof -
  consider "x = 0" "(m, w) \<in> set [(0xD9, 1), (0xDA, 2), (0xDB, 4)]"
    | "x = 0" "(m, w) \<in> set [(0xC4, 1), (0xC5, 2), (0xC6, 4)]"
    | "x = 1" "(m, w) \<in> set [(0xC7, 1), (0xC8, 2), (0xC9, 4)]"
    using assms(1) by (auto simp: marker_ScalarLen)
  then show ?thesis
  proof cases
    case 1
    then have "mp_str_head (length q) (m # l)"
      using len_headI [OF 1(2) assms(2)] assms(3) by (simp add: mp_str_head_def)
    from str [OF this] show ?thesis by (intro exI [of _ "VString q"]) simp
  next
    case 2
    then have "mp_bin_head (length q) (m # l)"
      using len_headI [OF 2(2) assms(2)] assms(3) by (simp add: mp_bin_head_def)
    from bin [OF this] show ?thesis by (intro exI [of _ "VBinary q"]) simp
  next
    case 3
    then obtain ty b where q: "q = ty # b" "length b = from_be l" using assms(3) by (cases q) auto
    then have "mp_ext_head (length b) (m # l)"
      using len_headI [OF 3(2) assms(2)] by (simp add: mp_ext_head_def)
    from ext [OF this, of ty] show ?thesis using q by (intro exI [of _ "VExt ty b"]) simp
  qed
qed

lemma arm_Skip:
  assumes "marker_arm m = Skip n" "length p = n"
  shows "\<exists>v. mp_encodes v (m # p) \<and> mp_children v = [] \<and> mp_scalar_len v \<le> 17"
proof -
  consider "m = 0xCA" "n = 4" | "m = 0xCB" "n = 8" | "(m, n) \<in> set mp_uint_formats"
    | "(m, n) \<in> set mp_int_formats"
    | "(n - 1, [m]) \<in> {(1, [0xD4]), (2, [0xD5]), (4, [0xD6]), (8, [0xD7]), (16, [0xD8])}" "n \<le> 17" "n \<noteq> 0"
    using assms(1) by (auto simp: marker_Skip)
  then show ?thesis
  proof cases
    case 1
    then show ?thesis using f32 [of p] assms(2) by fastforce
  next
    case 2
    then show ?thesis using f64 [of p] assms(2) by fastforce
  next
    case 3
    have "int (from_be p) < int (256 ^ n)" using from_be_less [of p] assms(2) by (simp only: of_nat_less_iff)
    then have "mp_integer (int (from_be p)) (m # p)"
      unfolding mp_integer_def using 3 be_bytes_from_be [of p] assms(2)
      by (intro disjI2 disjI1 bexI [OF _ 3]) simp
    then show ?thesis using integer by fastforce
  next
    case 4
    obtain i :: int where "- (256 ^ n) \<le> 2 * i" "2 * i < 256 ^ n" "p = be_bytes n (nat (i mod 256 ^ n))"
      using signed_be [OF assms(2)] by blast
    then have "mp_integer i (m # p)"
      unfolding mp_integer_def by (intro disjI2 bexI [OF _ 4]) simp
    then show ?thesis using integer by fastforce
  next
    case 5
    obtain ty b where p: "p = ty # b" using assms(2) 5(3) by (cases p) auto
    then have "n - 1 = length b" using assms(2) by auto
    then have "mp_ext_head (length b) [m]" using 5(1) by (simp add: mp_ext_head_def)
    from ext [OF this, of ty] show ?thesis
      using p 5(2) assms(2) by (intro exI [of _ "VExt ty b"]) simp
  qed
qed

fun pair_up :: "'a list \<Rightarrow> ('a \<times> 'a) list" where
  "pair_up (k # v # kvs) = (k, v) # pair_up kvs"
| "pair_up _ = []"

lemma concat_pair_up: "even (length xs) \<Longrightarrow> concat (map (\<lambda>(k, v). [k, v]) (pair_up xs)) = xs"
  by (induction xs rule: pair_up.induct) auto

lemma length_pair_up: "length (pair_up xs) = length xs div 2"
  by (induction xs rule: pair_up.induct) auto

lemma arm_Container:
  assumes "marker_arm m = Container n" "list_all2 mp_encodes vs es" "length es = n"
  shows "\<exists>v. mp_encodes v (m # concat es) \<and> mp_children v = vs \<and> mp_scalar_len v = 0"
proof -
  have len: "length vs = n" using assms(2,3) by (auto dest: list_all2_lengthD)
  from assms(1) obtain k where k: "k < 16"
    and m: "m = 0x80 + word_of_nat k \<and> n = k * 2 \<or> m = 0x90 + word_of_nat k \<and> n = k"
    by (auto simp: marker_Container)
  from m show ?thesis
  proof
    assume "m = 0x80 + word_of_nat k \<and> n = k * 2"
    then have "mp_map_head (length (pair_up vs)) [m]"
      using k len by (simp add: mp_map_head_def length_pair_up)
    from map [OF this, of es] show ?thesis
      using assms(2) len \<open>m = 0x80 + word_of_nat k \<and> n = k * 2\<close>
      by (intro exI [of _ "VMap (pair_up vs)"]) (simp add: concat_pair_up)
  next
    assume "m = 0x90 + word_of_nat k \<and> n = k"
    then have "mp_array_head (length vs) [m]" using k len by (simp add: mp_array_head_def)
    from array [OF this assms(2)] show ?thesis by (intro exI [of _ "VArray vs"]) simp
  qed
qed

lemma arm_ContainerLen:
  assumes "marker_arm m = ContainerLen w f" "list_all2 mp_encodes vs es" "length l = w"
    and "length es = from_be l * f"
  shows "\<exists>v. mp_encodes v (m # l @ concat es) \<and> mp_children v = vs \<and> mp_scalar_len v = 0"
proof -
  have len: "length vs = from_be l * f" using assms(2,4) by (auto dest: list_all2_lengthD)
  from marker_ContainerLen [OF assms(1)]
  consider "f = 1" "(m, w) \<in> set [(0xDC, 2), (0xDD, 4)]" | "f = 2" "(m, w) \<in> set [(0xDE, 2), (0xDF, 4)]"
    by auto
  then show ?thesis
  proof cases
    case 1
    then have "mp_array_head (length vs) (m # l)"
      using len_headI [OF 1(2) assms(3)] len by (simp add: mp_array_head_def)
    from array [OF this assms(2)] show ?thesis by (intro exI [of _ "VArray vs"]) simp
  next
    case 2
    then have "mp_map_head (length (pair_up vs)) (m # l)"
      using len_headI [OF 2(2) assms(3)] len by (simp add: mp_map_head_def length_pair_up)
    from map [OF this, of es] show ?thesis
      using assms(2) len 2(1) by (intro exI [of _ "VMap (pair_up vs)"]) (simp add: concat_pair_up)
  qed
qed

lemma shape_value:
  assumes "mp_shape m p (length es) k" "list_all2 mp_encodes vs es"
  shows "\<exists>v. mp_encodes v (m # p @ concat es) \<and> mp_children v = vs
    \<and> mp_scalar_len v \<le> max 17 k"
proof (cases "marker_arm m")
  case Done
  then show ?thesis using assms arm_Done [OF Done] by (auto simp: mp_shape_def)
next
  case (Container n)
  then show ?thesis using assms arm_Container [OF Container assms(2)]
    by (auto simp: mp_shape_def)
next
  case (Scalar n)
  then show ?thesis using assms arm_Scalar [OF Scalar, of p]
    by (auto simp: mp_shape_def intro!: exI [of _ "VString p"])
next
  case Reserved
  then show ?thesis using assms by (simp add: mp_shape_def)
next
  case (ScalarLen w x)
  then obtain l q where "p = l @ q" "length l = w" "length q = from_be l + x" "es = []" "k = length q"
    using assms(1) by (auto simp: mp_shape_def)
  then show ?thesis using arm_ScalarLen [OF ScalarLen, of l q] assms(2) by fastforce
next
  case (Skip n)
  then show ?thesis using assms arm_Skip [OF Skip, of p]
    by (auto simp: mp_shape_def le_max_iff_disj)
next
  case (ContainerLen w f)
  then show ?thesis using assms arm_ContainerLen [OF ContainerLen assms(2), of p]
    by (auto simp: mp_shape_def)
qed

subsection \<open>Every value begins with a marker\<close>

text \<open>The value that a marker, the bytes after it and its items stand for.\<close>

definition mp_signed :: "nat \<Rightarrow> nat \<Rightarrow> int" where
  "mp_signed w n = (if 2 * n < 256 ^ w then int n else int n - 256 ^ w)"

definition mp_build :: "u8 \<Rightarrow> bytes \<Rightarrow> Value list \<Rightarrow> Value" where
  "mp_build m p vs =
     (if m \<le> 0x7F then VInteger (uint m)
      else if 0xE0 \<le> m then VInteger (uint m - 256)
      else if m \<le> 0x8F then VMap (pair_up vs)
      else if m \<le> 0x9F then VArray vs
      else if m \<le> 0xBF then VString p
      else if m = 0xC0 then VNil
      else if m = 0xC2 then VBoolean False
      else if m = 0xC3 then VBoolean True
      else if m = 0xC4 then VBinary (drop 1 p)
      else if m = 0xC5 then VBinary (drop 2 p)
      else if m = 0xC6 then VBinary (drop 4 p)
      else if m = 0xC7 then VExt (p ! 1) (drop 2 p)
      else if m = 0xC8 then VExt (p ! 2) (drop 3 p)
      else if m = 0xC9 then VExt (p ! 4) (drop 5 p)
      else if m = 0xCA then VF32 p
      else if m = 0xCB then VF64 p
      else if m \<le> 0xCF then VInteger (int (from_be p))
      else if m \<le> 0xD3 then VInteger (mp_signed (length p) (from_be p))
      else if m \<le> 0xD8 then VExt (p ! 0) (drop 1 p)
      else if m = 0xD9 then VString (drop 1 p)
      else if m = 0xDA then VString (drop 2 p)
      else if m = 0xDB then VString (drop 4 p)
      else if m = 0xDC \<or> m = 0xDD then VArray vs
      else VMap (pair_up vs))"

lemma pair_up_concat [simp]: "pair_up (concat (map (\<lambda>(k, v). [k, v]) kvs)) = kvs"
  by (induction kvs) auto

lemma mp_signed_mod:
  assumes "- (256 ^ w) \<le> 2 * i" "2 * i < 256 ^ w"
  shows "mp_signed w (nat (i mod 256 ^ w)) = i"
proof (cases "0 \<le> i")
  case True
  then have "i mod 256 ^ w = i" using assms by (intro mod_pos_pos_trivial) auto
  moreover have "2 * nat i < 256 ^ w"
    using True assms(2) by (metis nat_less_numeral_power_cancel_iff nat_mult_distrib nat_numeral zero_le_numeral)
  ultimately show ?thesis using True by (simp add: mp_signed_def)
next
  case False
  have "(i + 256 ^ w) mod 256 ^ w = i + 256 ^ w"
    using False assms by (intro mod_pos_pos_trivial) auto
  then have mod: "i mod 256 ^ w = i + 256 ^ w" by simp
  moreover have "0 \<le> i + 256 ^ w" using assms(1) False by simp
  moreover have "\<not> 2 * nat (i + 256 ^ w) < 256 ^ w"
  proof
    assume "2 * nat (i + 256 ^ w) < 256 ^ w"
    then have "int (2 * nat (i + 256 ^ w)) < int (256 ^ w)" by (simp only: of_nat_less_iff)
    then show False using \<open>0 \<le> i + 256 ^ w\<close> assms(1) by simp
  qed
  ultimately show ?thesis by (simp add: mp_signed_def)
qed

lemma marker_unat:
  "n < 32 \<Longrightarrow> unat (0xA0 + word_of_nat n :: u8) = 0xA0 + n"
  "n < 16 \<Longrightarrow> unat (0x90 + word_of_nat n :: u8) = 0x90 + n"
  "n < 16 \<Longrightarrow> unat (0x80 + word_of_nat n :: u8) = 0x80 + n"
  by (simp_all add: unat_word_ariths unsigned_of_nat take_bit_eq_mod mod_simps)

lemma mp_build_range:
  "n < 32 \<Longrightarrow> mp_build (0xA0 + word_of_nat n) p vs = VString p"
  "n < 16 \<Longrightarrow> mp_build (0x90 + word_of_nat n) p vs = VArray vs"
  "n < 16 \<Longrightarrow> mp_build (0x80 + word_of_nat n) p vs = VMap (pair_up vs)"
  by (simp_all add: mp_build_def u8_le_unat marker_unat)

lemma mp_build_str:
  "(m, w) \<in> set [(0xD9, 1), (0xDA, 2), (0xDB, 4)] \<Longrightarrow> length l = w \<Longrightarrow> mp_build m (l @ q) vs = VString q"
  by (simp, elim disjE conjE; simp add: mp_build_def)

lemma mp_build_bin:
  "(m, w) \<in> set [(0xC4, 1), (0xC5, 2), (0xC6, 4)] \<Longrightarrow> length l = w \<Longrightarrow> mp_build m (l @ q) vs = VBinary q"
  by (simp, elim disjE conjE; simp add: mp_build_def)

lemma mp_build_ext:
  "(m, w) \<in> set [(0xC7, 1), (0xC8, 2), (0xC9, 4)] \<Longrightarrow> length l = w \<Longrightarrow>
     mp_build m (l @ ty # q) vs = VExt ty q"
  by (simp, elim disjE conjE; simp add: mp_build_def nth_append)

lemma mp_build_fixext:
  "(n, [m]) \<in> {(1, [0xD4]), (2, [0xD5]), (4, [0xD6]), (8, [0xD7]), (16, [0xD8])} \<Longrightarrow>
     mp_build m (ty # q) vs = VExt ty q"
  by (simp, elim disjE conjE; simp add: mp_build_def)

lemma mp_build_container:
  "(m, w) \<in> set [(0xDC, 2), (0xDD, 4)] \<Longrightarrow> mp_build m p vs = VArray vs"
  "(m, w) \<in> set [(0xDE, 2), (0xDF, 4)] \<Longrightarrow> mp_build m p vs = VMap (pair_up vs)"
  by (simp, elim disjE conjE; simp add: mp_build_def)+

lemma mp_build_int:
  "(m, w) \<in> set mp_uint_formats \<Longrightarrow> mp_build m p vs = VInteger (int (from_be p))"
  "(m, w) \<in> set mp_int_formats \<Longrightarrow> mp_build m p vs = VInteger (mp_signed (length p) (from_be p))"
  by (simp add: mp_uint_formats_def mp_int_formats_def, elim disjE conjE; simp add: mp_build_def)+

lemma mp_len_headE:
  assumes "mp_len_head formats n h"
  obtains m w where "(m, w) \<in> set formats" "n < 256 ^ w" "h = m # be_bytes w n"
  using assms by (auto simp: mp_len_head_def)

lemma len_shape:
  assumes "n < 256 ^ w"
  shows "marker_arm m = ScalarLen w x \<Longrightarrow> length q = n + x \<Longrightarrow>
      mp_shape m (be_bytes w n @ q) 0 (length q)"
    and "marker_arm m = ContainerLen w f \<Longrightarrow> length es = n * f \<Longrightarrow> mp_shape m (be_bytes w n) (length es) 0"
proof -
  show "mp_shape m (be_bytes w n @ q) 0 (length q)"
    if "marker_arm m = ScalarLen w x" "length q = n + x"
    using that assms unfolding mp_shape_def
    by (simp, intro exI [of _ "be_bytes w n"] exI [of _ q]) simp
qed (simp add: mp_shape_def assms)

text \<open>A value taken apart: marker, following bytes and the encodings of its items.\<close>

definition mp_parts :: "Value \<Rightarrow> bytes \<Rightarrow> u8 \<Rightarrow> bytes \<Rightarrow> bytes list \<Rightarrow> bool" where
  "mp_parts v e m p es \<longleftrightarrow> e = m # p @ concat es \<and> mp_shape m p (length es) (mp_scalar_len v)
     \<and> list_all2 mp_encodes (mp_children v) es \<and> v = mp_build m p (mp_children v)"

lemma len_head_arm:
  assumes "mp_len_head formats n h" and "\<forall>(m, w)\<in>set formats. marker_arm m = A w"
  shows "\<exists>m w. (m, w) \<in> set formats \<and> marker_arm m = A w \<and> n < 256 ^ w \<and> h = m # be_bytes w n"
proof -
  from assms(1) obtain m w where "(m, w) \<in> set formats" "n < 256 ^ w" "h = m # be_bytes w n"
    by (rule mp_len_headE)
  then show ?thesis using assms(2) by blast
qed

lemma format_arms:
  "\<forall>(m, w)\<in>set [(0xD9, 1), (0xDA, 2), (0xDB, 4)]. marker_arm m = ScalarLen w 0"
  "\<forall>(m, w)\<in>set [(0xC4, 1), (0xC5, 2), (0xC6, 4)]. marker_arm m = ScalarLen w 0"
  "\<forall>(m, w)\<in>set [(0xC7, 1), (0xC8, 2), (0xC9, 4)]. marker_arm m = ScalarLen w 1"
  "\<forall>(m, w)\<in>set [(0xDC, 2), (0xDD, 4)]. marker_arm m = ContainerLen w 1"
  "\<forall>(m, w)\<in>set [(0xDE, 2), (0xDF, 4)]. marker_arm m = ContainerLen w 2"
  by (simp_all add: marker_arm_def)

lemma fixext_arms:
  "(n, h) \<in> {(1, [0xD4]), (2, [0xD5]), (4, [0xD6]), (8, [0xD7]), (16, [0xD8])} \<Longrightarrow>
     \<exists>m. marker_arm m = Skip (n + 1) \<and> n \<le> 16 \<and> h = [m]"
  by (cases h) (auto simp: marker_Skip)

lemma parts_fixint:
  assumes "-32 \<le> i" "i < 128"
  shows "mp_parts (VInteger i) [word_of_int i] (word_of_int i) [] []"
proof (cases "0 \<le> i")
  case True
  then have u: "uint (word_of_int i :: u8) = i"
    using assms by (simp add: uint_word_of_int_eq take_bit_int_eq_self)
  then have "word_of_int i \<le> (0x7F :: u8)" using assms by (simp add: word_le_def)
  then show ?thesis using u by (simp add: mp_parts_def mp_shape_def marker_arm_def mp_build_def)
next
  case False
  have "(i + 256) mod 256 = i + 256" using False assms by (intro mod_pos_pos_trivial) simp_all
  then have u: "uint (word_of_int i :: u8) = i + 256"
    by (simp add: uint_word_of_int_eq take_bit_eq_mod)
  then have "0xE0 \<le> (word_of_int i :: u8)" "\<not> word_of_int i \<le> (0x7F :: u8)"
    using assms False by (simp_all add: word_le_def)
  then show ?thesis using u by (simp add: mp_parts_def mp_shape_def marker_arm_def mp_build_def)
qed

lemma parts_integer:
  assumes "mp_integer i e"
  shows "\<exists>m p es. mp_parts (VInteger i) e m p es"
proof -
  consider "-32 \<le> i" "i < 128" "e = [word_of_int i]"
    | m w where "(m, w) \<in> set mp_uint_formats" "0 \<le> i" "i < 256 ^ w" "e = m # be_bytes w (nat i)"
    | m w where "(m, w) \<in> set mp_int_formats" "- (256 ^ w) \<le> 2 * i" "2 * i < 256 ^ w"
      "e = m # be_bytes w (nat (i mod 256 ^ w))"
    using assms unfolding mp_integer_def by force
  then show ?thesis
  proof cases
    case 1
    then show ?thesis using parts_fixint by blast
  next
    case (2 m w)
    have "nat i < 256 ^ w" using 2(2,3) by (simp add: nat_less_iff)
    then have "from_be (be_bytes w (nat i)) = nat i" by simp
    moreover have "marker_arm m = Skip w" using 2(1) by (auto simp: marker_Skip)
    ultimately have "mp_parts (VInteger i) e m (be_bytes w (nat i)) []"
      using 2 by (simp add: mp_parts_def mp_shape_def mp_build_int(1) [OF 2(1)])
    then show ?thesis by blast
  next
    case (3 m w)
    have "nat (i mod 256 ^ w) < 256 ^ w" by (simp add: nat_less_iff)
    then have "mp_signed w (from_be (be_bytes w (nat (i mod 256 ^ w)))) = i"
      using mp_signed_mod [OF 3(2,3)] by simp
    moreover have "marker_arm m = Skip w" using 3(1) by (auto simp: marker_Skip)
    ultimately have "mp_parts (VInteger i) e m (be_bytes w (nat (i mod 256 ^ w))) []"
      using 3 by (simp add: mp_parts_def mp_shape_def mp_build_int(2) [OF 3(1)])
    then show ?thesis by blast
  qed
qed

lemma parts_str:
  assumes "mp_str_head (length s) h"
  shows "\<exists>m p es. mp_parts (VString s) (h @ s) m p es"
proof (cases "length s < 32 \<and> h = [0xA0 + word_of_nat (length s)]")
  case True
  then have "marker_arm (0xA0 + word_of_nat (length s)) = Scalar (length s)"
    by (auto simp: marker_Scalar)
  then have "mp_parts (VString s) (h @ s) (0xA0 + word_of_nat (length s)) s []"
    using True by (simp add: mp_parts_def mp_shape_def mp_build_range)
  then show ?thesis by blast
next
  case False
  then obtain m w where m: "(m, w) \<in> set [(0xD9, 1), (0xDA, 2), (0xDB, 4)]"
    "marker_arm m = ScalarLen w 0" "length s < 256 ^ w" "h = m # be_bytes w (length s)"
    using assms len_head_arm [OF _ format_arms(1)] unfolding mp_str_head_def by blast
  then have "mp_parts (VString s) (h @ s) m (be_bytes w (length s) @ s) []"
    using len_shape(1) [OF m(3,2), of s] by (simp add: mp_parts_def mp_build_str [OF m(1)])
  then show ?thesis by blast
qed

lemma parts_bin:
  assumes "mp_bin_head (length b) h"
  shows "\<exists>m p es. mp_parts (VBinary b) (h @ b) m p es"
proof -
  obtain m w where m: "(m, w) \<in> set [(0xC4, 1), (0xC5, 2), (0xC6, 4)]"
    "marker_arm m = ScalarLen w 0" "length b < 256 ^ w" "h = m # be_bytes w (length b)"
    using assms len_head_arm [OF _ format_arms(2)] unfolding mp_bin_head_def by blast
  then have "mp_parts (VBinary b) (h @ b) m (be_bytes w (length b) @ b) []"
    using len_shape(1) [OF m(3,2), of b] by (simp add: mp_parts_def mp_build_bin [OF m(1)])
  then show ?thesis by blast
qed

lemma parts_ext:
  assumes "mp_ext_head (length b) h"
  shows "\<exists>m p es. mp_parts (VExt ty b) (h @ ty # b) m p es"
proof (cases "(length b, h) \<in> {(1, [0xD4]), (2, [0xD5]), (4, [0xD6]), (8, [0xD7]), (16, [0xD8])}")
  case True
  then obtain m where m: "marker_arm m = Skip (length b + 1)" "length b \<le> 16" "h = [m]"
    using fixext_arms by blast
  then have "mp_parts (VExt ty b) (h @ ty # b) m (ty # b) []"
    using True mp_build_fixext [of "length b" m ty b] by (simp add: mp_parts_def mp_shape_def)
  then show ?thesis by blast
next
  case False
  then obtain m w where m: "(m, w) \<in> set [(0xC7, 1), (0xC8, 2), (0xC9, 4)]"
    "marker_arm m = ScalarLen w 1" "length b < 256 ^ w" "h = m # be_bytes w (length b)"
    using assms len_head_arm [OF _ format_arms(3)] unfolding mp_ext_head_def by blast
  then have "mp_parts (VExt ty b) (h @ ty # b) m (be_bytes w (length b) @ ty # b) []"
    using len_shape(1) [OF m(3,2), of "ty # b"] by (simp add: mp_parts_def mp_build_ext [OF m(1)])
  then show ?thesis by blast
qed

lemma parts_array:
  assumes "mp_array_head (length vs) h" "list_all2 mp_encodes vs bss"
  shows "\<exists>m p es. mp_parts (VArray vs) (h @ concat bss) m p es"
proof (cases "length vs < 16 \<and> h = [0x90 + word_of_nat (length vs)]")
  case True
  then have "marker_arm (0x90 + word_of_nat (length vs)) = Container (length vs)"
    by (auto simp: marker_Container)
  then have "mp_parts (VArray vs) (h @ concat bss) (0x90 + word_of_nat (length vs)) [] bss"
    using True assms(2) list_all2_lengthD [OF assms(2)]
    by (simp add: mp_parts_def mp_shape_def mp_build_range)
  then show ?thesis by blast
next
  case False
  then obtain m w where m: "(m, w) \<in> set [(0xDC, 2), (0xDD, 4)]"
    "marker_arm m = ContainerLen w 1" "length vs < 256 ^ w" "h = m # be_bytes w (length vs)"
    using assms(1) len_head_arm [OF _ format_arms(4)] unfolding mp_array_head_def by blast
  then have "mp_parts (VArray vs) (h @ concat bss) m (be_bytes w (length vs)) bss"
    using len_shape(2) [OF m(3,2), of bss] assms(2) list_all2_lengthD [OF assms(2)]
    by (simp add: mp_parts_def mp_build_container(1) [OF m(1)])
  then show ?thesis by blast
qed

lemma length_concat_pairs: "length (concat (map (\<lambda>(k, v). [k, v]) kvs)) = length kvs * 2"
  by (induction kvs) auto

lemma parts_map:
  assumes "mp_map_head (length kvs) h" "list_all2 mp_encodes (mp_children (VMap kvs)) bss"
  shows "\<exists>m p es. mp_parts (VMap kvs) (h @ concat bss) m p es"
proof -
  have len: "length bss = length kvs * 2"
    using list_all2_lengthD [OF assms(2)] length_concat_pairs [of kvs] by simp
  show ?thesis
  proof (cases "length kvs < 16 \<and> h = [0x80 + word_of_nat (length kvs)]")
    case True
    then have "marker_arm (0x80 + word_of_nat (length kvs)) = Container (length kvs * 2)"
      by (auto simp: marker_Container)
    then have "mp_parts (VMap kvs) (h @ concat bss) (0x80 + word_of_nat (length kvs)) [] bss"
      using True assms(2) len by (simp add: mp_parts_def mp_shape_def mp_build_range)
    then show ?thesis by blast
  next
    case False
    then obtain m w where m: "(m, w) \<in> set [(0xDE, 2), (0xDF, 4)]"
      "marker_arm m = ContainerLen w 2" "length kvs < 256 ^ w" "h = m # be_bytes w (length kvs)"
      using assms(1) len_head_arm [OF _ format_arms(5)] unfolding mp_map_head_def by blast
    then have "mp_parts (VMap kvs) (h @ concat bss) m (be_bytes w (length kvs)) bss"
      using len_shape(2) [OF m(3,2), of bss] assms(2) len
      by (simp add: mp_parts_def mp_build_container(2) [OF m(1)])
    then show ?thesis by blast
  qed
qed

lemma value_parts:
  assumes "mp_encodes v e"
  shows "\<exists>m p es. mp_parts v e m p es"
  using assms
proof cases
  case nil
  then have "mp_parts v e 0xC0 [] []"
    by (simp add: mp_parts_def mp_shape_def marker_arm_def mp_build_def)
  then show ?thesis by blast
next
  case (boolean b)
  then have "mp_parts v e (if b then 0xC3 else 0xC2) [] []"
    by (simp add: mp_parts_def mp_shape_def marker_arm_def mp_build_def)
  then show ?thesis by blast
next
  case (f32 bits)
  then have "mp_parts v e 0xCA bits []"
    by (simp add: mp_parts_def mp_shape_def marker_arm_def mp_build_def)
  then show ?thesis by blast
next
  case (f64 bits)
  then have "mp_parts v e 0xCB bits []"
    by (simp add: mp_parts_def mp_shape_def marker_arm_def mp_build_def)
  then show ?thesis by blast
qed (auto intro: parts_integer parts_str parts_bin parts_ext parts_array parts_map)

section \<open>The scanner's steps\<close>

lemma scan_take_Inr:
  assumes "length bs < 2 ^ 64"
  shows "scan_take bs n st = Inr r \<longleftrightarrow> sc_offset st + n \<le> length bs
     \<and> r = (take n (drop (sc_offset st) bs), st\<lparr>sc_offset := sc_offset st + n\<rparr>)"
  using assms by (auto simp: scan_take_def Let_def split: if_splits)

lemma scan_skip_Inr:
  "length bs < 2 ^ 64 \<Longrightarrow> scan_skip bs n st = Inr st' \<longleftrightarrow>
     sc_offset st + n \<le> length bs \<and> st' = st\<lparr>sc_offset := sc_offset st + n\<rparr>"
  by (auto simp: scan_skip_def scan_take_Inr)

lemma scan_take_u8_Inr:
  "length bs < 2 ^ 64 \<Longrightarrow> scan_take_u8 bs st = Inr r \<longleftrightarrow> sc_offset st < length bs
     \<and> r = (bs ! sc_offset st, st\<lparr>sc_offset := sc_offset st + 1\<rparr>)"
  by (auto simp: scan_take_u8_def scan_take_Inr)

lemma u64_shift_or:
  assumes "unat (a :: u64) * 256 + 255 < 2 ^ 64"
  shows "unat (push_bit 8 a OR ucast (b :: u8)) = unat a * 256 + unat b"
proof -
  have "bit b n \<Longrightarrow> n < 8" for n using bit_imp_le_length [of b n] by simp
  then have "push_bit 8 a AND ucast b = 0"
    by (auto simp: bit_eq_iff bit_simps) (meson leD)
  then have or: "push_bit 8 a OR ucast b = push_bit 8 a + ucast b"
    by (simp add: disjunctive_add_eq_or)
  have "unat b < 256" using unsigned_less [of b, where ?'a = nat] by simp
  moreover have "unat (push_bit 8 a) = unat a * 256"
    using assms by (simp add: push_bit_eq_mult unat_word_ariths)
  ultimately show ?thesis using assms unfolding or by (simp add: unat_word_ariths)
qed

lemma fold_uint:
  assumes "unat a * 256 ^ length bs + from_be bs < 2 ^ 64"
  shows "unat (foldl (\<lambda>v byte. push_bit 8 v OR ucast (byte :: u8)) (a :: u64) bs)
    = unat a * 256 ^ length bs + from_be bs"
  using assms
proof (induction bs arbitrary: a)
  case Nil
  then show ?case by simp
next
  case (Cons b bs)
  have eq: "unat a * 256 ^ length (b # bs) + from_be (b # bs)
      = (unat a * 256 + unat b) * 256 ^ length bs + from_be bs"
    by (simp add: from_be_Cons algebra_simps)
  have "unat a * 256 + unat b \<le> (unat a * 256 + unat b) * 256 ^ length bs" by simp
  then have "unat a * 256 < 2 ^ 64" using Cons.prems unfolding eq by linarith
  then have step: "unat (push_bit 8 a OR ucast b) = unat a * 256 + unat b"
    by (intro u64_shift_or) simp
  show ?case using Cons.IH [of "push_bit 8 a OR ucast b"] Cons.prems unfolding eq step by (simp add: step)
qed

lemma scan_read_uint_Inr:
  assumes "length bs < 2 ^ 64" "w \<le> 4"
  shows "scan_read_uint bs w st = Inr r \<longleftrightarrow> sc_offset st + w \<le> length bs
     \<and> r = (from_be (take w (drop (sc_offset st) bs)), st\<lparr>sc_offset := sc_offset st + w\<rparr>)"
proof -
  have "unat (foldl (\<lambda>v byte. push_bit 8 v OR ucast byte) (0 :: u64) l) = from_be l"
    if "length l \<le> 4" for l :: bytes
  proof -
    have "from_be l < 256 ^ length l" by (rule from_be_less)
    also have "(256 :: nat) ^ length l \<le> 256 ^ 4" using that by (intro power_increasing) auto
    finally show ?thesis using fold_uint [of 0 l] by simp
  qed
  then show ?thesis using assms
    by (auto simp: scan_read_uint_def scan_take_Inr)
qed

section \<open>One value is its head and its items\<close>

definition limits_ok :: "MsgpackLimits \<Rightarrow> bool" where
  "limits_ok lim \<longleftrightarrow> 17 \<le> max_scalar_bytes lim \<and> max_total_values lim < 2 ^ 64 - 1
     \<and> max_scalar_bytes lim < 2 ^ 64 - 1 \<and> max_container_items lim < 2 ^ 64 - 1"

lemma usize_saturate_le: "b < 2 ^ 64 - 1 \<Longrightarrow> usize_saturate n \<le> b \<longleftrightarrow> n \<le> b"
  by (auto simp: usize_saturate_def min_def)

lemma usize_saturate_id: "n < 2 ^ 64 \<Longrightarrow> usize_saturate n = n"
  by (simp add: usize_saturate_def)

lemma marker_widths:
  "marker_arm m = ScalarLen w x \<Longrightarrow> w \<le> 4"
  "marker_arm m = ContainerLen w f \<Longrightarrow> w \<le> 4"
  using marker_ContainerLen [of m w f] by (auto simp: marker_ScalarLen)

text \<open>The steps after the marker, at the offset that follows it.\<close>

definition scan_arm ::
    "bytes \<Rightarrow> MsgpackLimits \<Rightarrow> nat \<Rightarrow> u8 \<Rightarrow> MsgpackScanner \<Rightarrow> string + MsgpackScanner" where
  "scan_arm bs lim depth marker st =
     (case marker_arm marker of
        Done \<Rightarrow> Inr st
      | Container items \<Rightarrow> scan_container bs lim items depth st
      | Scalar len \<Rightarrow> scan_scalar bs lim len st
      | Reserved \<Rightarrow> Inl ''reserved MessagePack marker''
      | ScalarLen width extra \<Rightarrow>
          and_then (scan_read_uint bs width st) (\<lambda>(len, st).
          scan_scalar bs lim (usize_saturate (len + extra)) st)
      | Skip len \<Rightarrow> scan_skip bs len st
      | ContainerLen width factor \<Rightarrow>
          and_then (scan_read_uint bs width st) (\<lambda>(len, st).
          scan_container bs lim (usize_saturate (len * factor)) depth st))"

lemma scan_value_arm:
  assumes "length bs < 2 ^ 64" "limits_ok lim"
  shows "scan_value bs lim depth st = Inr st' \<longleftrightarrow>
     depth \<le> max_nesting_depth lim \<and> sc_values st < max_total_values lim \<and> sc_offset st < length bs
     \<and> scan_arm bs lim depth (bs ! sc_offset st)
          \<lparr>sc_offset = sc_offset st + 1, sc_values = sc_values st + 1\<rparr> = Inr st'"
proof -
  let ?n = "usize_saturate (sc_values st + 1)"
  have eq: "scan_value bs lim depth st =
      (if depth > max_nesting_depth lim then Inl ''MessagePack nesting limit exceeded''
       else if ?n > max_total_values lim then Inl ''MessagePack value limit exceeded''
       else and_then (scan_take_u8 bs (st\<lparr>sc_values := ?n\<rparr>)) (\<lambda>(m, st). scan_arm bs lim depth m st))"
    by (simp add: scan_value.simps [of bs lim depth st] scan_arm_def [abs_def] Let_def)
  have le: "?n \<le> max_total_values lim \<longleftrightarrow> sc_values st < max_total_values lim"
    using assms(2) usize_saturate_le [of "max_total_values lim" "sc_values st + 1"]
    by (auto simp: limits_ok_def)
  show ?thesis
  proof (cases "sc_values st < max_total_values lim")
    case True
    then have "?n = sc_values st + 1"
      using assms(2) by (intro usize_saturate_id) (simp add: limits_ok_def)
    moreover obtain a b where "st = \<lparr>sc_offset = a, sc_values = b\<rparr>" by (cases st)
    ultimately show ?thesis using True le
      unfolding eq by (auto simp: scan_take_u8_Inr [OF assms(1)])
  next
    case False
    then show ?thesis using le by (simp add: eq)
  qed
qed

lemma scan_scalar_Inr:
  "length bs < 2 ^ 64 \<Longrightarrow> scan_scalar bs lim len st = Inr st' \<longleftrightarrow> len \<le> max_scalar_bytes lim
     \<and> sc_offset st + len \<le> length bs \<and> st' = st\<lparr>sc_offset := sc_offset st + len\<rparr>"
  by (auto simp: scan_scalar_def scan_skip_Inr)

text \<open>The bytes \<open>p\<close> found at the scanner's offset.\<close>

definition at_offset :: "bytes \<Rightarrow> MsgpackScanner \<Rightarrow> bytes \<Rightarrow> bool" where
  "at_offset bs st p \<longleftrightarrow> sc_offset st + length p \<le> length bs
     \<and> take (length p) (drop (sc_offset st) bs) = p"

lemma at_offset_Nil [simp]: "at_offset bs st [] \<longleftrightarrow> sc_offset st \<le> length bs"
  by (simp add: at_offset_def)

lemma at_offset_append:
  "at_offset bs st (p @ q) \<longleftrightarrow>
     at_offset bs st p \<and> at_offset bs (st\<lparr>sc_offset := sc_offset st + length p\<rparr>) q"
  by (auto simp: at_offset_def take_add add.commute)

lemma at_offset_take: "sc_offset st + n \<le> length bs \<Longrightarrow> at_offset bs st (take n (drop (sc_offset st) bs))"
  by (simp add: at_offset_def min_def)

lemma scan_arm_shape:
  assumes len: "length bs < 2 ^ 64" and lim: "limits_ok lim" and off: "sc_offset st \<le> length bs"
  shows "scan_arm bs lim depth m st = Inr st' \<longleftrightarrow>
     (\<exists>p n k. mp_shape m p n k \<and> k \<le> max_scalar_bytes lim \<and> n \<le> max_container_items lim
        \<and> at_offset bs st p
        \<and> scan_items bs lim n (depth + 1) (st\<lparr>sc_offset := sc_offset st + length p\<rparr>) = Inr st')"
proof (cases "marker_arm m")
  case Done
  then show ?thesis using off by (auto simp: scan_arm_def mp_shape_def)
next
  case (Container n)
  then show ?thesis using off by (auto simp: scan_arm_def mp_shape_def scan_container.simps)
next
  case (Scalar n)
  then show ?thesis using len
    by (auto simp: scan_arm_def mp_shape_def scan_scalar_Inr at_offset_def
        intro!: exI [of _ "take n (drop (sc_offset st) bs)"])
next
  case Reserved
  then show ?thesis by (simp add: scan_arm_def mp_shape_def)
next
  case (ScalarLen w x)
  then have w: "w \<le> 4" by (rule marker_widths)
  let ?l = "take w (drop (sc_offset st) bs)"
  have sat: "usize_saturate n \<le> max_scalar_bytes lim \<longleftrightarrow> n \<le> max_scalar_bytes lim"
    "n \<le> max_scalar_bytes lim \<Longrightarrow> usize_saturate n = n" for n
    using lim usize_saturate_le [of "max_scalar_bytes lim" n]
    by (auto simp: limits_ok_def usize_saturate_def)
  have "scan_arm bs lim depth m st = Inr st' \<longleftrightarrow> sc_offset st + w \<le> length bs
      \<and> from_be ?l + x \<le> max_scalar_bytes lim \<and> sc_offset st + w + (from_be ?l + x) \<le> length bs
      \<and> st' = st\<lparr>sc_offset := sc_offset st + w + (from_be ?l + x)\<rparr>"
    by (auto simp: scan_arm_def ScalarLen scan_read_uint_Inr [OF len w] scan_scalar_Inr [OF len] sat)
  also have "\<dots> \<longleftrightarrow> (\<exists>l q. length l = w \<and> length q = from_be l + x \<and> length q \<le> max_scalar_bytes lim
      \<and> at_offset bs st (l @ q) \<and> st\<lparr>sc_offset := sc_offset st + length (l @ q)\<rparr> = st')"
    (is "?L \<longleftrightarrow> ?R")
  proof
    assume L: ?L
    define q where "q = take (from_be ?l + x) (drop (sc_offset st + w) bs)"
    have q: "length ?l = w" "length q = from_be ?l + x" using L by (auto simp: q_def)
    moreover have "at_offset bs st ?l" "at_offset bs (st\<lparr>sc_offset := sc_offset st + w\<rparr>) q"
      using L at_offset_take [of st w bs] at_offset_take [of "st\<lparr>sc_offset := sc_offset st + w\<rparr>"]
      by (auto simp: q_def)
    ultimately have "at_offset bs st (?l @ q)" unfolding at_offset_append by simp
    then show ?R using L q by (intro exI [of _ ?l] exI conjI) auto
  next
    assume ?R
    then obtain l q where "length l = w" "length q = from_be l + x"
      "length q \<le> max_scalar_bytes lim" "at_offset bs st (l @ q)"
      "st\<lparr>sc_offset := sc_offset st + length (l @ q)\<rparr> = st'" by blast
    moreover from this have "?l = l" by (simp add: at_offset_append) (auto simp: at_offset_def)
    ultimately show ?L by (auto simp: at_offset_def)
  qed
  also have "\<dots> \<longleftrightarrow> (\<exists>p n k. mp_shape m p n k \<and> k \<le> max_scalar_bytes lim \<and> n \<le> max_container_items lim
        \<and> at_offset bs st p
        \<and> scan_items bs lim n (depth + 1) (st\<lparr>sc_offset := sc_offset st + length p\<rparr>) = Inr st')"
    unfolding mp_shape_def ScalarLen MarkerArm.case by force
  finally show ?thesis .
next
  case (Skip n)
  have "17 \<le> max_scalar_bytes lim" using lim by (simp add: limits_ok_def)
  then show ?thesis using len Skip
    by (auto simp: scan_arm_def mp_shape_def scan_skip_Inr at_offset_def
        intro!: exI [of _ "take n (drop (sc_offset st) bs)"] exI [of _ 0])
next
  case (ContainerLen w f)
  then have w: "w \<le> 4" by (rule marker_widths)
  have sat: "max_container_items lim < usize_saturate n \<longleftrightarrow> max_container_items lim < n"
    "n \<le> max_container_items lim \<Longrightarrow> usize_saturate n = n" for n
    using lim usize_saturate_le [of "max_container_items lim" n]
    by (auto simp: limits_ok_def usize_saturate_def)
  let ?l = "take w (drop (sc_offset st) bs)"
  have "scan_arm bs lim depth m st = Inr st' \<longleftrightarrow> sc_offset st + w \<le> length bs
      \<and> from_be ?l * f \<le> max_container_items lim
      \<and> scan_items bs lim (from_be ?l * f) (depth + 1) (st\<lparr>sc_offset := sc_offset st + w\<rparr>) = Inr st'"
    by (auto simp: scan_arm_def ContainerLen scan_read_uint_Inr [OF len w] scan_container.simps sat)
  also have "\<dots> \<longleftrightarrow> (\<exists>p. length p = w \<and> from_be p * f \<le> max_container_items lim
      \<and> at_offset bs st p
      \<and> scan_items bs lim (from_be p * f) (depth + 1) (st\<lparr>sc_offset := sc_offset st + length p\<rparr>) = Inr st')"
    (is "?L \<longleftrightarrow> ?R")
  proof
    assume L: ?L
    then have l: "length ?l = w" by auto
    have "at_offset bs st ?l" using L by (intro at_offset_take) blast
    with L show ?R by (intro exI [of _ ?l], unfold l) blast
  next
    assume ?R
    then show ?L by (auto simp: at_offset_def)
  qed
  also have "\<dots> \<longleftrightarrow> (\<exists>p n k. mp_shape m p n k \<and> k \<le> max_scalar_bytes lim \<and> n \<le> max_container_items lim
        \<and> at_offset bs st p
        \<and> scan_items bs lim n (depth + 1) (st\<lparr>sc_offset := sc_offset st + length p\<rparr>) = Inr st')"
    by (simp add: mp_shape_def ContainerLen)
  finally show ?thesis .
qed

section \<open>Soundness and completeness\<close>

text \<open>The scanner moved over the bytes \<open>e\<close>, which hold \<open>c\<close> values.\<close>

definition scanned :: "bytes \<Rightarrow> MsgpackScanner \<Rightarrow> MsgpackScanner \<Rightarrow> bytes \<Rightarrow> nat \<Rightarrow> bool" where
  "scanned bs st st' e c \<longleftrightarrow> at_offset bs st e
     \<and> st' = \<lparr>sc_offset = sc_offset st + length e, sc_values = sc_values st + c\<rparr>"

lemma scanned_trans:
  "scanned bs st st1 e c \<Longrightarrow> scanned bs st1 st2 f d \<Longrightarrow> scanned bs st st2 (e @ f) (c + d)"
  unfolding scanned_def at_offset_append by (auto simp: at_offset_def)

lemma scanned_refl [simp]: "sc_offset st \<le> length bs \<Longrightarrow> scanned bs st st [] 0"
  by (simp add: scanned_def)

lemma scanned_offset: "scanned bs st st' e c \<Longrightarrow> sc_offset st' \<le> length bs"
  by (auto simp: scanned_def at_offset_def)

lemma scan_value_shape:
  assumes "length bs < 2 ^ 64" "limits_ok lim"
  shows "scan_value bs lim depth st = Inr st' \<longleftrightarrow>
     depth \<le> max_nesting_depth lim \<and> sc_values st < max_total_values lim
     \<and> (\<exists>m p n k st1. mp_shape m p n k \<and> k \<le> max_scalar_bytes lim \<and> n \<le> max_container_items lim
        \<and> scanned bs st st1 (m # p) 1 \<and> scan_items bs lim n (depth + 1) st1 = Inr st')"
proof -
  let ?st = "\<lparr>sc_offset = sc_offset st + 1, sc_values = sc_values st + 1\<rparr>"
  have head: "scanned bs st st1 (m # p) 1 \<longleftrightarrow> sc_offset st < length bs \<and> bs ! sc_offset st = m
      \<and> at_offset bs ?st p \<and> st1 = ?st\<lparr>sc_offset := sc_offset ?st + length p\<rparr>" for st1 m p
  proof -
    have "at_offset bs st (m # p) \<longleftrightarrow>
        at_offset bs st [m] \<and> at_offset bs (st\<lparr>sc_offset := sc_offset st + 1\<rparr>) p"
      using at_offset_append [of bs st "[m]" p] by simp
    moreover have "at_offset bs st [m] \<longleftrightarrow> sc_offset st < length bs \<and> bs ! sc_offset st = m"
      by (auto simp: at_offset_def take_Suc_conv_app_nth)
    ultimately show ?thesis by (auto simp: scanned_def at_offset_def)
  qed
  show ?thesis
  proof (cases "sc_offset st < length bs")
    case True
    then have "sc_offset ?st \<le> length bs" by simp
    from scan_arm_shape [OF assms this] show ?thesis
      unfolding scan_value_arm [OF assms] head using True by auto
  next
    case False
    then show ?thesis unfolding scan_value_arm [OF assms] head by simp
  qed
qed

text \<open>Items: a list of values, each as the value scanner sees it.\<close>

lemma scan_items_sound:
  assumes step: "\<And>st st'. sc_offset st \<le> length bs \<Longrightarrow> scan_value bs lim d st = Inr st' \<Longrightarrow>
      \<exists>v e. mp_encodes v e \<and> mp_within lim d v \<and> scanned bs st st' e (mp_count v)
        \<and> sc_values st' \<le> max_total_values lim"
    and "sc_offset st \<le> length bs" "sc_values st \<le> max_total_values lim"
    and "scan_items bs lim n d st = Inr st'"
  shows "\<exists>vs es. length es = n \<and> list_all2 mp_encodes vs es \<and> (\<forall>v\<in>set vs. mp_within lim d v)
    \<and> scanned bs st st' (concat es) (sum_list (map mp_count vs)) \<and> sc_values st' \<le> max_total_values lim"
  using assms(2-)
proof (induction n arbitrary: st)
  case 0
  then show ?case by (intro exI [of _ "[]"]) simp
next
  case (Suc n)
  then obtain st1 where v: "scan_value bs lim d st = Inr st1"
    and rest: "scan_items bs lim n d st1 = Inr st'" by auto
  from step [OF Suc.prems(1) v] obtain v e where v: "mp_encodes v e" "mp_within lim d v"
    "scanned bs st st1 e (mp_count v)" "sc_values st1 \<le> max_total_values lim" by blast
  from Suc.IH [OF scanned_offset [OF v(3)] v(4) rest] obtain vs es where
    "length es = n" "list_all2 mp_encodes vs es" "\<forall>v\<in>set vs. mp_within lim d v"
    "scanned bs st1 st' (concat es) (sum_list (map mp_count vs))" "sc_values st' \<le> max_total_values lim"
    by blast
  then show ?case using v scanned_trans [OF v(3)]
    by (intro exI [of _ "v # vs"] exI [of _ "e # es"]) auto
qed

lemma scan_value_sound:
  assumes "length bs < 2 ^ 64" "limits_ok lim"
    and "sc_offset st \<le> length bs" "scan_value bs lim d st = Inr st'"
  shows "\<exists>v e. mp_encodes v e \<and> mp_within lim d v \<and> scanned bs st st' e (mp_count v)
    \<and> sc_values st' \<le> max_total_values lim"
  using assms(3,4)
proof (induction "max_nesting_depth lim + 1 - d" arbitrary: d st st' rule: less_induct)
  case less
  from less.prems(2) obtain m p n k st1 where d: "d \<le> max_nesting_depth lim"
    and vals: "sc_values st < max_total_values lim"
    and sh: "mp_shape m p n k" "k \<le> max_scalar_bytes lim" "n \<le> max_container_items lim"
    and st1: "scanned bs st st1 (m # p) 1" and rest: "scan_items bs lim n (d + 1) st1 = Inr st'"
    unfolding scan_value_shape [OF assms(1,2)] by blast
  have "sc_values st1 \<le> max_total_values lim" using st1 vals by (simp add: scanned_def)
  moreover have "\<exists>v e. mp_encodes v e \<and> mp_within lim (d + 1) v
      \<and> scanned bs st st' e (mp_count v) \<and> sc_values st' \<le> max_total_values lim"
    if "sc_offset st \<le> length bs" "scan_value bs lim (d + 1) st = Inr st'" for st st'
    using less.hyps [of "d + 1" st st'] d that by simp
  ultimately obtain vs es where es: "length es = n" "list_all2 mp_encodes vs es"
    "\<forall>v\<in>set vs. mp_within lim (d + 1) v"
    "scanned bs st1 st' (concat es) (sum_list (map mp_count vs))" "sc_values st' \<le> max_total_values lim"
    using scan_items_sound [OF _ scanned_offset [OF st1] _ rest] by blast
  have "mp_shape m p (length es) k" using sh(1) es(1) by simp
  from shape_value [OF this es(2)] obtain v where v: "mp_encodes v (m # p @ concat es)"
    "mp_children v = vs" "mp_scalar_len v \<le> max 17 k" by blast
  moreover have "length vs = n" using es(1,2) by (auto dest: list_all2_lengthD)
  moreover have "17 \<le> max_scalar_bytes lim" using assms(2) by (simp add: limits_ok_def)
  ultimately have "mp_within lim d v" using d sh es(3) by (subst mp_within.simps) simp
  moreover have "mp_count v = 1 + sum_list (map mp_count vs)" using v by (simp add: mp_count.simps)
  ultimately show ?case using v(1) es(5) scanned_trans [OF st1 es(4)]
    by (intro exI [of _ v] exI [of _ "m # p @ concat es"]) simp
qed

lemma scan_items_complete:
  assumes step: "\<And>v e st. v \<in> set vs \<Longrightarrow> mp_encodes v e \<Longrightarrow> at_offset bs st e \<Longrightarrow>
      sc_values st + mp_count v \<le> max_total_values lim \<Longrightarrow>
      \<exists>st'. scan_value bs lim d st = Inr st' \<and> scanned bs st st' e (mp_count v)"
    and "list_all2 mp_encodes vs es" "at_offset bs st (concat es)"
    and "sc_values st + sum_list (map mp_count vs) \<le> max_total_values lim"
  shows "\<exists>st'. scan_items bs lim (length es) d st = Inr st'
    \<and> scanned bs st st' (concat es) (sum_list (map mp_count vs))"
  using assms(2,1,3,4)
proof (induction vs es arbitrary: st rule: list_all2_induct)
  case Nil
  then show ?case by (intro exI [of _ st]) simp
next
  case (Cons v vs e es)
  have at: "at_offset bs st e" using Cons.prems(2) by (simp add: at_offset_append)
  from Cons.prems(1) [of v e st] Cons.hyps(1) at Cons.prems(3) obtain st1 where
    st1: "scan_value bs lim d st = Inr st1" "scanned bs st st1 e (mp_count v)" by auto
  have "\<exists>st'. scan_items bs lim (length es) d st1 = Inr st'
      \<and> scanned bs st1 st' (concat es) (sum_list (map mp_count vs))"
  proof (rule Cons.IH)
    show "at_offset bs st1 (concat es)"
      using Cons.prems(2) st1(2) unfolding concat.simps at_offset_append
      by (auto simp: scanned_def at_offset_def)
    show "sc_values st1 + sum_list (map mp_count vs) \<le> max_total_values lim"
      using Cons.prems(3) st1(2) by (simp add: scanned_def)
  qed (use Cons.prems(1) in auto)
  then show ?case using st1 scanned_trans [OF st1(2)] by auto
qed

lemma scan_value_complete:
  assumes "length bs < 2 ^ 64" "limits_ok lim"
    and "mp_encodes v e" "mp_within lim d v" "at_offset bs st e"
    and "sc_values st + mp_count v \<le> max_total_values lim"
  shows "\<exists>st'. scan_value bs lim d st = Inr st' \<and> scanned bs st st' e (mp_count v)"
  using assms(3-)
proof (induction "size v" arbitrary: v e d st rule: less_induct)
  case less
  obtain m p es where e: "e = m # p @ concat es"
    and sh: "mp_shape m p (length es) (mp_scalar_len v)"
    and all: "list_all2 mp_encodes (mp_children v) es"
    using value_parts [OF less.prems(1)] unfolding mp_parts_def by blast
  have within: "d \<le> max_nesting_depth lim" "mp_scalar_len v \<le> max_scalar_bytes lim"
    "length (mp_children v) \<le> max_container_items lim"
    "\<And>c. c \<in> set (mp_children v) \<Longrightarrow> mp_within lim (d + 1) c"
    using less.prems(2) mp_within.simps [of lim d v] by auto
  have count: "mp_count v = 1 + sum_list (map mp_count (mp_children v))" by (rule mp_count.simps)
  define st1 where "st1 = \<lparr>sc_offset = sc_offset st + length (m # p), sc_values = sc_values st + 1\<rparr>"
  have at: "at_offset bs st (m # p)" "at_offset bs st1 (concat es)"
    using less.prems(3) at_offset_append [of bs st "m # p" "concat es"]
    by (auto simp: e st1_def at_offset_def)
  then have st1: "scanned bs st st1 (m # p) 1" by (simp add: scanned_def st1_def)
  have "\<exists>st'. scan_items bs lim (length es) (d + 1) st1 = Inr st'
      \<and> scanned bs st1 st' (concat es) (sum_list (map mp_count (mp_children v)))"
  proof (rule scan_items_complete [OF _ all at(2)])
    show "sc_values st1 + sum_list (map mp_count (mp_children v)) \<le> max_total_values lim"
      using less.prems(4) count by (simp add: st1_def)
  next
    fix c ce st
    assume "c \<in> set (mp_children v)" "mp_encodes c ce" "at_offset bs st ce"
      "sc_values st + mp_count c \<le> max_total_values lim"
    then show "\<exists>st'. scan_value bs lim (d + 1) st = Inr st' \<and> scanned bs st st' ce (mp_count c)"
      using less.hyps [of c ce "d + 1" st] mp_children_size within(4) by blast
  qed
  then obtain st' where st': "scan_items bs lim (length es) (d + 1) st1 = Inr st'"
    "scanned bs st1 st' (concat es) (sum_list (map mp_count (mp_children v)))" by blast
  have "length es = length (mp_children v)" using all by (auto dest: list_all2_lengthD)
  then have "scan_value bs lim d st = Inr st'"
    unfolding scan_value_shape [OF assms(1,2)]
    using within sh st1 st'(1) less.prems(4) count by (intro conjI exI) auto
  then show ?case using scanned_trans [OF st1 st'(2)] by (intro exI [of _ st']) (simp add: e count)
qed

lemma validate_msgpack_iff:
  assumes "length bs < 2 ^ 64" "limits_ok lim"
  shows "validate_msgpack_with_limits bs max_bytes lim = Inr () \<longleftrightarrow> length bs \<le> max_bytes
     \<and> (\<exists>v. mp_encodes v bs \<and> mp_within lim 0 v \<and> mp_count v \<le> max_total_values lim)"
    (is "?L \<longleftrightarrow> ?R")
proof
  let ?st = "\<lparr>sc_offset = 0, sc_values = 0\<rparr>"
  assume ?L
  then obtain st where st: "scan_value bs lim 0 ?st = Inr st" "sc_offset st = length bs"
    and le: "length bs \<le> max_bytes"
    by (auto simp: validate_msgpack_with_limits_def split: if_splits)
  from scan_value_sound [OF assms _ st(1)] obtain v e where "mp_encodes v e" "mp_within lim 0 v"
    "scanned bs ?st st e (mp_count v)" "sc_values st \<le> max_total_values lim" by auto
  moreover from this(3) st(2) have "e = bs" by (auto simp: scanned_def at_offset_def)
  ultimately show ?R using le by (auto simp: scanned_def)
next
  let ?st = "\<lparr>sc_offset = 0, sc_values = 0\<rparr>"
  assume ?R
  then obtain v where v: "mp_encodes v bs" "mp_within lim 0 v" "mp_count v \<le> max_total_values lim"
    and le: "length bs \<le> max_bytes" by blast
  have "at_offset bs ?st bs" by (simp add: at_offset_def)
  from scan_value_complete [OF assms v(1,2) this] v(3) obtain st where
    "scan_value bs lim 0 ?st = Inr st" "scanned bs ?st st bs (mp_count v)" by auto
  then show ?L using le by (simp add: validate_msgpack_with_limits_def scanned_def)
qed

section \<open>Properties\<close>

text \<open>
  C1: the scanner accepts a byte string exactly when it is one complete MessagePack value, with
  nothing after it, that keeps within the byte limit, the scalar, container and depth limits and
  the limit on the total number of values. In particular every length field is checked before it
  is used, no input makes the scanner read past the end, and no value within the limits is refused.
\<close>

theorem msgpack_scanner_exact:
  assumes "length bs < 2 ^ 64" "limits_ok lim"
  shows "validate_msgpack_with_limits bs max_bytes lim = Inr () \<longleftrightarrow> length bs \<le> max_bytes
     \<and> (\<exists>v. mp_encodes v bs \<and> mp_within lim 0 v \<and> mp_count v \<le> max_total_values lim)"
  by (rule validate_msgpack_iff [OF assms])

theorem msgpack_scanner_exact_witness:
  "validate_msgpack_with_limits [0x91, 0xC0] 16 \<lparr>max_scalar_bytes = 64, max_container_items = 4,
     max_total_values = 2, max_nesting_depth = 1\<rparr> = Inr ()"
proof -
  let ?lim = "\<lparr>max_scalar_bytes = 64, max_container_items = 4, max_total_values = 2, max_nesting_depth = 1\<rparr>"
  let ?bs = "[0x91, 0xC0] :: u8 list"
  have "mp_encodes (VArray [VNil]) ([0x91] @ concat [[0xC0]])"
    by (intro mp_encodes.array) (auto simp: mp_array_head_def intro: mp_encodes.nil)
  then have e: "mp_encodes (VArray [VNil]) ?bs" by simp
  have w: "mp_within ?lim 0 (VArray [VNil])" "mp_count (VArray [VNil]) \<le> max_total_values ?lim"
    by (simp_all add: mp_within.simps [of _ _ "VArray [VNil]"] mp_within.simps [of _ _ VNil]
        mp_count.simps [of "VArray [VNil]"] mp_count.simps [of VNil])
  have "limits_ok ?lim" "length ?bs < 2 ^ 64" "length ?bs \<le> 16" by (simp_all add: limits_ok_def)
  then show ?thesis
    using e w by (subst msgpack_scanner_exact) blast+
qed

end
