(* ===== verification/Msgpack_Values.thy ===== *)
theory Msgpack_Values
  imports Msgpack
begin

text \<open>
  A reader and a writer of the MessagePack format of \<open>Msgpack\<close>. The reader shows that the format is
  unambiguous, the writer that every value with an encoding has a shortest one; together they stand for
  what the frame codec asks of the third-party library.
\<close>

section \<open>Reading\<close>

text \<open>What follows a marker: the bytes that belong to it, the number of items, and the rest.\<close>

definition mp_split :: "u8 \<Rightarrow> bytes \<Rightarrow> (bytes \<times> nat \<times> bytes) option" where
  "mp_split m bs =
     (case marker_arm m of
        Done \<Rightarrow> Some ([], 0, bs)
      | Container n \<Rightarrow> Some ([], n, bs)
      | Scalar len \<Rightarrow> if length bs < len then None else Some (take len bs, 0, drop len bs)
      | Reserved \<Rightarrow> None
      | ScalarLen w x \<Rightarrow>
          let n = w + from_be (take w bs) + x in
          if length bs < n then None else Some (take n bs, 0, drop n bs)
      | Skip len \<Rightarrow> if length bs < len then None else Some (take len bs, 0, drop len bs)
      | ContainerLen w f \<Rightarrow>
          if length bs < w then None else Some (take w bs, from_be (take w bs) * f, drop w bs))"

fun mp_read :: "nat \<Rightarrow> bytes \<Rightarrow> (Value \<times> bytes) option"
and mp_read_items :: "nat \<Rightarrow> nat \<Rightarrow> bytes \<Rightarrow> (Value list \<times> bytes) option" where
  "mp_read 0 bs = None"
| "mp_read (Suc fuel) [] = None"
| "mp_read (Suc fuel) (m # bs) =
     (case mp_split m bs of
        None \<Rightarrow> None
      | Some (p, n, rest) \<Rightarrow>
          (case mp_read_items fuel n rest of
             None \<Rightarrow> None
           | Some (vs, rest) \<Rightarrow> Some (mp_build m p vs, rest)))"
| "mp_read_items fuel 0 bs = Some ([], bs)"
| "mp_read_items fuel (Suc n) bs =
     (case mp_read fuel bs of
        None \<Rightarrow> None
      | Some (v, rest) \<Rightarrow>
          (case mp_read_items fuel n rest of
             None \<Rightarrow> None
           | Some (vs, rest) \<Rightarrow> Some (v # vs, rest)))"

lemma split_shape: "mp_shape m p n k \<Longrightarrow> mp_split m (p @ rest) = Some (p, n, rest)"
  by (auto simp: mp_shape_def mp_split_def Let_def split: MarkerArm.splits)

text \<open>As many steps as there are bytes are enough.\<close>

lemma mp_read_correct: "mp_encodes v e \<Longrightarrow> length e \<le> fuel \<Longrightarrow> mp_read fuel (e @ rest) = Some (v, rest)"
proof (induction fuel arbitrary: v e rest)
  case 0
  then show ?case using value_parts [OF 0(1)] by (auto simp: mp_parts_def)
next
  case (Suc fuel)
  obtain m p es where parts: "e = m # p @ concat es" "mp_shape m p (length es) (mp_scalar_len v)"
      "list_all2 mp_encodes (mp_children v) es" "v = mp_build m p (mp_children v)"
    using value_parts [OF Suc(2)] by (auto simp: mp_parts_def)
  have items: "mp_read_items fuel (length es) (concat es @ rest) = Some (vs, rest)"
    if "list_all2 mp_encodes vs es" "length (concat es) \<le> fuel" for vs es
    using that
  proof (induction vs es arbitrary: rest rule: list_all2_induct)
    case (Cons v vs e es)
    have "mp_read fuel (e @ concat es @ rest) = Some (v, concat es @ rest)" using Suc.IH Cons(1,4) by simp
    then show ?case using Cons by simp
  qed simp
  have "length (concat es) \<le> fuel" using Suc(3) parts(1) by simp
  from items [OF parts(3) this] show ?case
    using split_shape [OF parts(2), of "concat es @ rest"] parts(1,4) by simp
qed

lemma mp_encodes_unique: "mp_encodes v e \<Longrightarrow> mp_encodes v' e \<Longrightarrow> v = v'"
  using mp_read_correct [of v e "length e" "[]"] mp_read_correct [of v' e "length e" "[]"] by simp

section \<open>Writing\<close>

definition write_len :: "(u8 \<times> nat) list \<Rightarrow> nat \<Rightarrow> bytes" where
  "write_len formats n = (case find (\<lambda>(m, w). n < 256 ^ w) formats of Some (m, w) \<Rightarrow> m # be_bytes w n | None \<Rightarrow> [])"

definition write_int :: "int \<Rightarrow> bytes" where
  "write_int i =
     (if - 32 \<le> i \<and> i < 128 then [word_of_int i]
      else if 0 \<le> i then write_len mp_uint_formats (nat i)
      else
        case find (\<lambda>(m, w). - (256 ^ w) \<le> 2 * i) mp_int_formats of
          Some (m, w) \<Rightarrow> m # be_bytes w (nat (i mod 256 ^ w))
        | None \<Rightarrow> [])"

fun write_head :: "Value \<Rightarrow> bytes" where
  "write_head VNil = [0xC0]"
| "write_head (VBoolean b) = [if b then 0xC3 else 0xC2]"
| "write_head (VInteger i) = write_int i"
| "write_head (VF32 bits) = 0xCA # bits"
| "write_head (VF64 bits) = 0xCB # bits"
| "write_head (VString s) =
     (if length s < 32 then [0xA0 + word_of_nat (length s)] else write_len [(0xD9, 1), (0xDA, 2), (0xDB, 4)] (length s)) @ s"
| "write_head (VBinary b) = write_len [(0xC4, 1), (0xC5, 2), (0xC6, 4)] (length b) @ b"
| "write_head (VExt ty b) =
     (case find (\<lambda>(n, h). length b = n) [(1, [0xD4]), (2, [0xD5]), (4, [0xD6]), (8, [0xD7]), (16, [0xD8])] of
        Some (n, h) \<Rightarrow> h
      | None \<Rightarrow> write_len [(0xC7, 1), (0xC8, 2), (0xC9, 4)] (length b)) @ ty # b"
| "write_head (VArray vs) =
     (if length vs < 16 then [0x90 + word_of_nat (length vs)] else write_len [(0xDC, 2), (0xDD, 4)] (length vs))"
| "write_head (VMap kvs) =
     (if length kvs < 16 then [0x80 + word_of_nat (length kvs)] else write_len [(0xDE, 2), (0xDF, 4)] (length kvs))"

function mp_write :: "Value \<Rightarrow> bytes" where
  "mp_write v = write_head v @ concat (map mp_write (mp_children v))"
  by pat_completeness auto
termination by (relation "measure size") (auto simp: mp_children_size)

declare mp_write.simps [simp del]

lemma write_len_head: "mp_len_head formats n h \<Longrightarrow> mp_len_head formats n (write_len formats n)"
proof -
  assume "mp_len_head formats n h"
  then obtain m w where "(m, w) \<in> set formats" "n < 256 ^ w" by (rule mp_len_headE)
  then have "find (\<lambda>(m, w). n < 256 ^ w) formats \<noteq> None" by (auto simp: find_None_iff)
  then obtain m' w' where found: "find (\<lambda>(m, w). n < 256 ^ w) formats = Some (m', w')" by auto
  then have "(m', w') \<in> set formats" "n < 256 ^ w'" by (auto dest: find_SomeD)
  then show ?thesis using found by (auto simp: write_len_def mp_len_head_def)
qed

lemma write_int_encodes: "mp_integer i bs \<Longrightarrow> mp_integer i (write_int i)"
proof -
  assume given: "mp_integer i bs"
  consider "- 32 \<le> i" "i < 128" | "128 \<le> i" | "i < - 32" by linarith
  then show ?thesis
  proof cases
    case 1
    then show ?thesis by (auto simp: mp_integer_def write_int_def)
  next
    case 2
    have "\<exists>(m, w)\<in>set mp_uint_formats. i < 256 ^ w"
      using given 2 by (auto simp: mp_integer_def mp_uint_formats_def mp_int_formats_def)
    then obtain m w where "(m, w) \<in> set mp_uint_formats" "nat i < 256 ^ w" using 2 by (auto simp: nat_less_iff)
    then have "mp_len_head mp_uint_formats (nat i) (m # be_bytes w (nat i))" by (auto simp: mp_len_head_def)
    then have "mp_len_head mp_uint_formats (nat i) (write_len mp_uint_formats (nat i))" by (rule write_len_head)
    then show ?thesis using 2 by (auto simp: mp_integer_def write_int_def mp_len_head_def nat_less_iff)
  next
    case 3
    have "\<exists>(m, w)\<in>set mp_int_formats. - (256 ^ w) \<le> 2 * i" using given 3 by (auto simp: mp_integer_def)
    then have "find (\<lambda>(m, w). - (256 ^ w) \<le> 2 * i) mp_int_formats \<noteq> None" by (auto simp: find_None_iff)
    then obtain m w where found: "find (\<lambda>(m, w). - (256 ^ w) \<le> 2 * i) mp_int_formats = Some (m, w)" by auto
    then have "(m, w) \<in> set mp_int_formats" "- (256 ^ w) \<le> 2 * i" by (auto dest: find_SomeD)
    moreover have "2 * i < 256 ^ w"
    proof -
      have "(0 :: int) < 256 ^ w" by simp
      then show ?thesis using 3 by linarith
    qed
    ultimately show ?thesis using 3 found by (auto simp: mp_integer_def write_int_def)
  qed
qed

lemma mp_write_leaf: "mp_children v = [] \<Longrightarrow> mp_write v = write_head v"
  by (simp add: mp_write.simps)

lemma mp_write_encodes: "mp_encodes v e \<Longrightarrow> mp_encodes v (mp_write v)"
proof (induction v arbitrary: e rule: measure_induct_rule [of size])
  case (less v)
  have items: "list_all2 mp_encodes (mp_children v) (map mp_write (mp_children v))" if "list_all2 mp_encodes (mp_children v) bss" for bss
    using that less(1) mp_children_size
    by (auto simp: list_all2_conv_all_nth in_set_conv_nth) (metis nth_mem)
  from less(2) show ?case
  proof cases
    case (boolean b)
    then show ?thesis using mp_encodes.boolean [of b] by (simp add: mp_write_leaf)
  next
    case (integer i)
    then show ?thesis using write_int_encodes by (auto simp: mp_write_leaf intro: mp_encodes.integer)
  next
    case (str s h)
    then have "mp_str_head (length s) (if length s < 32 then [0xA0 + word_of_nat (length s)] else write_len [(0xD9, 1), (0xDA, 2), (0xDB, 4)] (length s))"
      using write_len_head by (auto simp: mp_str_head_def)
    from mp_encodes.str [OF this] show ?thesis using str by (simp add: mp_write_leaf)
  next
    case (bin b h)
    then show ?thesis using write_len_head [of _ "length b" h] by (auto simp: mp_write_leaf mp_bin_head_def intro!: mp_encodes.bin)
  next
    case (ext b h ty)
    have "mp_ext_head (length b) (case find (\<lambda>(n, h). length b = n) [(1, [0xD4]), (2, [0xD5]), (4, [0xD6]), (8, [0xD7]), (16, [0xD8])] of
        Some (n, h) \<Rightarrow> h | None \<Rightarrow> write_len [(0xC7, 1), (0xC8, 2), (0xC9, 4)] (length b))"
      using ext(3) write_len_head by (auto simp: mp_ext_head_def)
    from mp_encodes.ext [OF this, of ty] show ?thesis using ext(1) by (simp add: mp_write_leaf)
  next
    case (array vs h bss)
    have "mp_array_head (length vs) (write_head v)"
      using array(3) write_len_head by (auto simp: array(1) mp_array_head_def)
    from mp_encodes.array [OF this items [of bss, unfolded array(1), simplified]] show ?thesis
      using array by (simp add: mp_write.simps [of "VArray vs"])
  next
    case (map kvs h bss)
    have "mp_map_head (length kvs) (write_head v)"
      using map(3) write_len_head by (auto simp: map(1) mp_map_head_def)
    from mp_encodes.map [OF this items [of bss, unfolded map(1), simplified]] show ?thesis
      using map by (simp add: mp_write.simps [of "VMap kvs"])
  qed (auto simp: mp_write_leaf intro: mp_encodes.intros)
qed

end
