(* ===== verification/Frame_Codec.thy ===== *)
theory Frame_Codec
  imports Msgpack_Values Wire_Types
begin

text \<open>
  The frame codec of the server (\<^verbatim>\<open>server/src/protocol/codec.rs\<close>): frames as six-item MessagePack arrays. The
  third-party writer and reader of MessagePack values are the parameter \<open>MessagePackLib\<close>; what the codec relies
  on is that the writer produces an encoding of the value and the reader reads back the encodings of values nested
  at most 16 deep, the depth that the scanner lets pass.
\<close>

definition MAX_FRAME_BYTES :: nat where "MAX_FRAME_BYTES = 1024 * 1024"
definition MAX_SCALAR_BYTES :: nat where "MAX_SCALAR_BYTES = 512 * 1024"
definition MAX_CONTAINER_ITEMS :: nat where "MAX_CONTAINER_ITEMS = 4096"
definition MAX_TOTAL_VALUES :: nat where "MAX_TOTAL_VALUES = 8192"
definition MAX_NESTING_DEPTH :: nat where "MAX_NESTING_DEPTH = 16"

datatype CodecError = CodecProtocol ProtocolError | CodecEncode string | CodecDecode string

record MessagePackLib =
  ml_write :: "Value \<Rightarrow> string + bytes"
  ml_read :: "bytes \<Rightarrow> string + Value"

definition frame_limits :: MsgpackLimits where
  "frame_limits = \<lparr>max_scalar_bytes = MAX_SCALAR_BYTES, max_container_items = MAX_CONTAINER_ITEMS,
     max_total_values = MAX_TOTAL_VALUES, max_nesting_depth = MAX_NESTING_DEPTH\<rparr>"

definition validate_msgpack :: "bytes \<Rightarrow> CodecError + unit" where
  "validate_msgpack bytes = map_err CodecDecode (validate_msgpack_with_limits bytes MAX_FRAME_BYTES frame_limits)"

fun frame_value_to_value_ref :: "FrameValue \<Rightarrow> Value" where
  "frame_value_to_value_ref FNil = VNil"
| "frame_value_to_value_ref (FBool b) = VBoolean b"
| "frame_value_to_value_ref (FU64 n) = VInteger (uint n)"
| "frame_value_to_value_ref (FI64 n) = VInteger (sint n)"
| "frame_value_to_value_ref (FString s) = VString (as_bytes s)"
| "frame_value_to_value_ref (FBytes b) = VBinary b"
| "frame_value_to_value_ref (FArray vs) = VArray (map frame_value_to_value_ref vs)"

definition body_to_value_ref :: "FrameBody \<Rightarrow> Value" where
  "body_to_value_ref body =
     (case body of
        Empty \<Rightarrow> VNil
      | Text s \<Rightarrow> VString (as_bytes s)
      | Fields vs \<Rightarrow> VArray (map frame_value_to_value_ref vs))"

definition frame_to_value :: "Frame \<Rightarrow> Value" where
  "frame_to_value frame =
     VArray [VInteger (uint (fr_version frame)), VInteger (uint (op_code (fr_op frame))), VInteger (uint (fr_flags frame)),
       VInteger (uint (fr_seq frame)), (case fr_room_id frame of Some room_id \<Rightarrow> VInteger (uint room_id) | None \<Rightarrow> VNil),
       body_to_value_ref (fr_body frame)]"

definition encode_frame :: "MessagePackLib \<Rightarrow> Frame \<Rightarrow> CodecError + bytes" where
  "encode_frame lib frame = map_err CodecEncode (ml_write lib (frame_to_value frame))"

text \<open>\<^verbatim>\<open>as_u64\<close> and \<^verbatim>\<open>as_i64\<close> of an integer, and the text of a string: empty when it is not UTF-8.\<close>

definition value_as_u64 :: "Value \<Rightarrow> string \<Rightarrow> CodecError + u64" where
  "value_as_u64 value field =
     (case value of
        VInteger i \<Rightarrow> if 0 \<le> i \<and> i < 2 ^ 64 then Inr (word_of_int i) else Inl (CodecProtocol (MalformedFrame field))
      | _ \<Rightarrow> Inl (CodecProtocol (MalformedFrame field)))"

definition string_value :: "bytes \<Rightarrow> string" where
  "string_value bs = (case from_utf8 bs of Some s \<Rightarrow> s | None \<Rightarrow> [])"

lemma collect_results_cong [fundef_cong]:
  "xs = ys \<Longrightarrow> (\<And>x. x \<in> set ys \<Longrightarrow> f x = g x) \<Longrightarrow> collect_results f xs = collect_results g ys"
  by (induction ys arbitrary: xs) auto

fun value_to_frame_value :: "Value \<Rightarrow> CodecError + FrameValue" where
  "value_to_frame_value VNil = Inr FNil"
| "value_to_frame_value (VBoolean b) = Inr (FBool b)"
| "value_to_frame_value (VInteger i) =
     (if 0 \<le> i \<and> i < 2 ^ 64 then Inr (FU64 (word_of_int i))
      else if - (2 ^ 63) \<le> i \<and> i < 2 ^ 63 then Inr (FI64 (word_of_int i))
      else Inl (CodecProtocol (MalformedFrame ''integer does not fit supported range'')))"
| "value_to_frame_value (VString s) = Inr (FString (string_value s))"
| "value_to_frame_value (VBinary b) = Inr (FBytes b)"
| "value_to_frame_value (VArray vs) = and_then (collect_results value_to_frame_value vs) (\<lambda>vs. Inr (FArray vs))"
| "value_to_frame_value _ = Inl (CodecProtocol (MalformedFrame ''unsupported nested value''))"

definition value_to_body :: "Value \<Rightarrow> CodecError + FrameBody" where
  "value_to_body value =
     (case value of
        VNil \<Rightarrow> Inr Empty
      | VString s \<Rightarrow> Inr (Text (string_value s))
      | VArray vs \<Rightarrow> and_then (collect_results value_to_frame_value vs) (\<lambda>vs. Inr (Fields vs))
      | _ \<Rightarrow> Inl (CodecProtocol (MalformedFrame ''unsupported frame body shape'')))"

definition frame_of_value :: "Value \<Rightarrow> CodecError + Frame" where
  "frame_of_value value =
     (case value of
        VArray [v0, v1, v2, v3, v4, v5] \<Rightarrow>
          and_then (value_as_u64 v0 ''version'') (\<lambda>version.
          and_then (value_as_u64 v1 ''op'') (\<lambda>code.
          and_then (map_err CodecProtocol (chat_op_try_from code)) (\<lambda>op.
          and_then (value_as_u64 v2 ''flags'') (\<lambda>flags.
          and_then (value_as_u64 v3 ''seq'') (\<lambda>seq.
          and_then (case v4 of VNil \<Rightarrow> Inr None | v \<Rightarrow> and_then (value_as_u64 v ''room_id'') (\<lambda>room_id. Inr (Some (ucast room_id)))) (\<lambda>room_id.
          and_then (value_to_body v5) (\<lambda>body.
          Inr \<lparr>fr_version = ucast version, fr_op = op, fr_flags = ucast flags, fr_seq = ucast seq, fr_room_id = room_id, fr_body = body\<rparr>)))))))
      | _ \<Rightarrow> Inl (CodecProtocol (MalformedFrame ''expected six-item frame array'')))"

definition decode_frame :: "MessagePackLib \<Rightarrow> bytes \<Rightarrow> CodecError + Frame" where
  "decode_frame lib bytes =
     and_then (validate_msgpack bytes) (\<lambda>_.
     and_then (map_err CodecDecode (ml_read lib bytes)) frame_of_value)"

section \<open>What the library promises\<close>

definition messagepack_lib :: "MessagePackLib \<Rightarrow> bool" where
  "messagepack_lib lib \<longleftrightarrow>
     (\<forall>v. (\<exists>bs. mp_encodes v bs) \<longrightarrow> (\<exists>bs. ml_write lib v = Inr bs \<and> mp_encodes v bs))
     \<and> (\<forall>v bs lim. mp_encodes v bs \<and> mp_within lim 0 v \<and> max_nesting_depth lim \<le> 16 \<longrightarrow> ml_read lib bs = Inr v)"

definition reference_lib :: MessagePackLib where
  "reference_lib = \<lparr>ml_write = (\<lambda>v. Inr (mp_write v)),
     ml_read = (\<lambda>bs. case mp_read (length bs) bs of Some (v, _) \<Rightarrow> Inr v | None \<Rightarrow> Inl ''invalid value'')\<rparr>"

lemma reference_lib_ok: "messagepack_lib reference_lib"
  using mp_read_correct [where rest = "[]"] mp_write_encodes by (auto simp: messagepack_lib_def reference_lib_def)

section \<open>Values\<close>

text \<open>What a value is after a trip: a non-negative signed integer comes back unsigned.\<close>

fun normal_value :: "FrameValue \<Rightarrow> FrameValue" where
  "normal_value (FI64 n) = (if 0 \<le> sint n then FU64 n else FI64 n)"
| "normal_value (FArray vs) = FArray (map normal_value vs)"
| "normal_value v = v"

fun value_wf :: "FrameValue \<Rightarrow> bool" where
  "value_wf (FString s) \<longleftrightarrow> wf_str s"
| "value_wf (FArray vs) \<longleftrightarrow> list_all value_wf vs"
| "value_wf _ \<longleftrightarrow> True"

fun normal_body :: "FrameBody \<Rightarrow> FrameBody" where
  "normal_body (Fields vs) = Fields (map normal_value vs)"
| "normal_body body = body"

fun body_wf :: "FrameBody \<Rightarrow> bool" where
  "body_wf (Text s) \<longleftrightarrow> wf_str s"
| "body_wf (Fields vs) \<longleftrightarrow> list_all value_wf vs"
| "body_wf Empty \<longleftrightarrow> True"

definition frame_normal :: "Frame \<Rightarrow> Frame" where
  "frame_normal f = f\<lparr>fr_body := normal_body (fr_body f)\<rparr>"

lemma string_value_text [simp]: "wf_str s \<Longrightarrow> string_value (as_bytes s) = s"
  by (simp add: string_value_def from_utf8_def wf_str_def)

lemma collect_results_map_to:
  "(\<And>x. x \<in> set xs \<Longrightarrow> f (g x) = Inr (h x)) \<Longrightarrow> collect_results f (map g xs) = Inr (map h xs)"
  by (induction xs) auto

lemma value_roundtrip: "value_wf v \<Longrightarrow> value_to_frame_value (frame_value_to_value_ref v) = Inr (normal_value v)"
proof (induction v)
  case (FU64 n)
  then show ?case using uint_lt2p [of n] by simp
next
  case (FI64 n)
  then show ?case using sint_lt [of n] sint_ge [of n] by simp
next
  case (FArray vs)
  then show ?case by (simp add: collect_results_map_to list_all_iff)
qed simp_all

lemma body_roundtrip: "body_wf body \<Longrightarrow> value_to_body (body_to_value_ref body) = Inr (normal_body body)"
  by (cases body) (auto simp: value_to_body_def body_to_value_ref_def collect_results_map_to value_roundtrip list_all_iff)

lemma value_as_u64_word [simp]:
  "LENGTH('a) \<le> 64 \<Longrightarrow> value_as_u64 (VInteger (uint (x :: 'a :: len word))) field = Inr (ucast x)"
proof -
  assume "LENGTH('a) \<le> 64"
  then have "(2 :: int) ^ LENGTH('a) \<le> 2 ^ 64" by (intro power_increasing) auto
  then have "uint x < 2 ^ 64" using uint_lt2p [of x] by linarith
  then show ?thesis by (simp add: value_as_u64_def)
qed

lemma frame_roundtrip: "body_wf (fr_body f) \<Longrightarrow> frame_of_value (frame_to_value f) = Inr (frame_normal f)"
  by (cases "fr_room_id f") (simp_all add: frame_of_value_def frame_to_value_def body_roundtrip frame_normal_def)

section \<open>Frames within the limits\<close>

lemmas codec_limits = frame_limits_def MAX_FRAME_BYTES_def MAX_SCALAR_BYTES_def MAX_CONTAINER_ITEMS_def MAX_TOTAL_VALUES_def
  MAX_NESTING_DEPTH_def

lemma frame_limits_depth: "max_nesting_depth frame_limits \<le> 16"
  by (simp add: codec_limits)

lemma frame_limits_ok: "limits_ok frame_limits"
  by (simp add: limits_ok_def codec_limits)

lemma within_parts:
  "mp_within lim d v \<Longrightarrow> mp_scalar_len v \<le> max_scalar_bytes lim"
  "mp_within lim d v \<Longrightarrow> length (mp_children v) \<le> max_container_items lim"
  "mp_within lim d v \<Longrightarrow> c \<in> set (mp_children v) \<Longrightarrow> mp_within lim (d + 1) c"
  by (simp_all add: mp_within.simps [of lim d v])

lemma leaf_count: "mp_children v = [] \<Longrightarrow> mp_count v = 1"
  by (simp add: mp_count.simps [of v])

lemma leaf_within: "mp_children v = [] \<Longrightarrow> mp_within lim d v \<longleftrightarrow> d \<le> max_nesting_depth lim \<and> mp_scalar_len v \<le> max_scalar_bytes lim"
  by (simp add: mp_within.simps [of lim d v])

lemma array_encodable:
  assumes "\<And>v. v \<in> set vs \<Longrightarrow> \<exists>bs. mp_encodes v bs" "length vs < 2 ^ 32"
  shows "\<exists>bs. mp_encodes (VArray vs) bs"
proof -
  have "mp_encodes v (mp_write v)" if "v \<in> set vs" for v using assms(1) [OF that] mp_write_encodes by blast
  then have "list_all2 mp_encodes vs (map mp_write vs)" by (simp add: list_all2_conv_all_nth)
  moreover have "mp_array_head (length vs) (0xDD # be_bytes 4 (length vs))"
    using assms(2) by (simp add: mp_array_head_def mp_len_head_def codec_limits)
  ultimately show ?thesis using mp_encodes.array by blast
qed

lemma word_encodable: "0 \<le> i \<Longrightarrow> i < 2 ^ 64 \<Longrightarrow> \<exists>bs. mp_encodes (VInteger i) bs" "- (2 ^ 63) \<le> i \<Longrightarrow> i < 2 ^ 63 \<Longrightarrow> \<exists>bs. mp_encodes (VInteger i) bs"
  by (rule exI [of _ "0xCF # be_bytes 8 (nat i)"], rule mp_encodes.integer, simp add: mp_integer_def mp_uint_formats_def)
    (rule exI [of _ "0xD3 # be_bytes 8 (nat (i mod 256 ^ 8))"], rule mp_encodes.integer, simp add: mp_integer_def mp_int_formats_def)

lemma string_encodable: "length s < 2 ^ 32 \<Longrightarrow> \<exists>bs. mp_encodes (VString s) bs" "length s < 2 ^ 32 \<Longrightarrow> \<exists>bs. mp_encodes (VBinary s) bs"
  by (rule exI, rule mp_encodes.str [of _ "0xDB # be_bytes 4 (length s)"], simp add: mp_str_head_def mp_len_head_def codec_limits)
    (rule exI, rule mp_encodes.bin [of _ "0xC6 # be_bytes 4 (length s)"], simp add: mp_bin_head_def mp_len_head_def codec_limits)

lemma uint_encodable: "LENGTH('a) \<le> 64 \<Longrightarrow> \<exists>bs. mp_encodes (VInteger (uint (x :: 'a :: len word))) bs"
proof -
  assume "LENGTH('a) \<le> 64"
  then have "(2 :: int) ^ LENGTH('a) \<le> 2 ^ 64" by (intro power_increasing) auto
  then have "uint x < 2 ^ 64" using uint_lt2p [of x] by linarith
  then show ?thesis by (intro word_encodable(1)) simp_all
qed

definition limits32 :: "MsgpackLimits \<Rightarrow> bool" where
  "limits32 lim \<longleftrightarrow> max_scalar_bytes lim < 2 ^ 32 \<and> max_container_items lim < 2 ^ 32"

lemma value_encodable:
  assumes "limits32 lim"
  shows "mp_within lim d (frame_value_to_value_ref v) \<Longrightarrow> \<exists>bs. mp_encodes (frame_value_to_value_ref v) bs"
proof (induction v arbitrary: d)
  case (FArray vs)
  have "\<exists>bs. mp_encodes (frame_value_to_value_ref v) bs" if "v \<in> set vs" for v
    using FArray(1) [OF that] within_parts(3) [OF FArray(2), of "frame_value_to_value_ref v"] that by simp
  then show ?case using within_parts(2) [OF FArray(2)] assms by (auto simp: limits32_def intro!: array_encodable)
next
  case (FU64 n)
  show ?case by (simp add: uint_encodable)
next
  case (FI64 n)
  then show ?case using sint_lt [of n] sint_ge [of n] by (simp add: word_encodable(2))
next
  case (FString s)
  then show ?case using within_parts(1) [OF FString] assms by (simp add: limits32_def string_encodable)
next
  case (FBytes b)
  then show ?case using within_parts(1) [OF FBytes] assms by (simp add: limits32_def string_encodable)
qed (auto intro: mp_encodes.intros)

lemma frame_limits32: "limits32 frame_limits"
  by (simp add: limits32_def codec_limits)

lemma frame_encodable: "mp_within frame_limits 0 (frame_to_value f) \<Longrightarrow> \<exists>bs. mp_encodes (frame_to_value f) bs"
proof -
  assume within: "mp_within frame_limits 0 (frame_to_value f)"
  have body: "mp_within frame_limits 1 (body_to_value_ref (fr_body f))"
    using within_parts(3) [OF within, of "body_to_value_ref (fr_body f)"] by (simp add: frame_to_value_def)
  have "\<exists>bs. mp_encodes (body_to_value_ref (fr_body f)) bs"
  proof (cases "fr_body f")
    case Empty
    then show ?thesis using mp_encodes.nil by (auto simp: body_to_value_ref_def)
  next
    case (Text s)
    then show ?thesis using within_parts(1) [OF body] by (simp add: body_to_value_ref_def codec_limits string_encodable)
  next
    case (Fields vs)
    then show ?thesis
      using value_encodable [OF frame_limits32, of 1 "FArray vs"] body by (simp add: body_to_value_ref_def)
  qed
  moreover have "\<exists>bs. mp_encodes VNil bs" using mp_encodes.nil by blast
  ultimately show ?thesis
    unfolding frame_to_value_def by (intro array_encodable) (auto simp: codec_limits uint_encodable split: option.splits)
qed

lemma validate_msgpack_frame:
  "validate_msgpack bs = Inr () \<longleftrightarrow> length bs \<le> MAX_FRAME_BYTES
     \<and> (\<exists>v. mp_encodes v bs \<and> mp_within frame_limits 0 v \<and> mp_count v \<le> MAX_TOTAL_VALUES)"
proof (cases "length bs \<le> MAX_FRAME_BYTES")
  case True
  then have "length bs < 2 ^ 64" by (simp add: codec_limits)
  from validate_msgpack_iff [OF this frame_limits_ok] show ?thesis by (simp add: validate_msgpack_def frame_limits_def)
qed (simp add: validate_msgpack_def validate_msgpack_with_limits_def)

lemma decode_frame_iff:
  assumes "messagepack_lib lib"
  shows "decode_frame lib bs = Inr f \<longleftrightarrow> length bs \<le> MAX_FRAME_BYTES
    \<and> (\<exists>v. mp_encodes v bs \<and> mp_within frame_limits 0 v \<and> mp_count v \<le> MAX_TOTAL_VALUES \<and> frame_of_value v = Inr f)"
proof -
  have "ml_read lib bs = Inr v" if "mp_encodes v bs" "mp_within frame_limits 0 v" for v
    using assms that frame_limits_depth unfolding messagepack_lib_def by blast
  then show ?thesis by (fastforce simp: decode_frame_def validate_msgpack_frame)
qed

text \<open>
  C4: a frame whose texts are UTF-8 and that is within the limits on depth, sizes and number of values is
  encoded, and when the bytes are within the frame limit they decode to the same frame, with
  non-negative signed integers read as unsigned ones.
\<close>

theorem frame_codec_roundtrip:
  assumes "messagepack_lib lib" "body_wf (fr_body f)" "mp_within frame_limits 0 (frame_to_value f)"
    "mp_count (frame_to_value f) \<le> MAX_TOTAL_VALUES"
  shows "\<exists>bs. encode_frame lib f = Inr bs \<and> (length bs \<le> MAX_FRAME_BYTES \<longrightarrow> decode_frame lib bs = Inr (frame_normal f))"
proof -
  obtain bs where "ml_write lib (frame_to_value f) = Inr bs" "mp_encodes (frame_to_value f) bs"
    using assms(1) frame_encodable [OF assms(3)] unfolding messagepack_lib_def by blast
  then show ?thesis
    using assms frame_roundtrip [OF assms(2)] by (auto simp: encode_frame_def decode_frame_iff)
qed

definition sample_frame :: Frame where
  "sample_frame = frame_new Ping 1 (Some 5) (Fields [FString ''hi'', FI64 7])"

lemmas sample_frame_value = sample_frame_def frame_new_def frame_to_value_def body_to_value_ref_def

lemma sample_frame_within: "mp_within frame_limits 0 (frame_to_value sample_frame)" "mp_count (frame_to_value sample_frame) \<le> MAX_TOTAL_VALUES"
  by (simp_all add: sample_frame_value mp_within.simps [of _ _ "VArray _"] mp_count.simps [of "VArray _"] leaf_within leaf_count codec_limits)

theorem frame_codec_roundtrip_witness:
  "\<exists>bs. encode_frame reference_lib sample_frame = Inr bs
     \<and> (length bs \<le> MAX_FRAME_BYTES \<longrightarrow> decode_frame reference_lib bs = Inr (frame_normal sample_frame))"
  by (rule frame_codec_roundtrip [OF reference_lib_ok _ sample_frame_within]) code_simp

section \<open>Decoded frames\<close>

lemma string_value_wf: "wf_str (string_value bs)" "length (string_value bs) \<le> length bs"
proof -
  show "length (string_value bs) \<le> length bs" by (simp add: string_value_def from_utf8_def of_bytes_def split: option.split)
  show "wf_str (string_value bs)"
    by (simp add: string_value_def from_utf8_def wf_str_def split: option.split) (simp add: utf8_valid_def as_bytes_def)
qed

lemma collect_list_all2: "collect_results f xs = Inr ys \<Longrightarrow> list_all2 (\<lambda>x y. x \<in> set xs \<and> y \<in> set ys \<and> f x = Inr y) xs ys"
  by (auto simp: collect_results_eq_Inr list_all2_conv_all_nth)

text \<open>A decoded value is in normal form and within the limits that the bytes kept.\<close>

lemma decoded_value:
  "value_to_frame_value v = Inr fv \<Longrightarrow> value_wf fv \<and> normal_value fv = fv \<and> mp_count (frame_value_to_value_ref fv) = mp_count v
     \<and> (\<forall>lim d. mp_within lim d v \<longrightarrow> mp_within lim d (frame_value_to_value_ref fv))"
proof (induction v arbitrary: fv rule: value_to_frame_value.induct)
  case (3 i)
  have "sint (word_of_int i :: i64) = i" if "- (2 ^ 63) \<le> i" "i < 2 ^ 63"
    using that by (simp add: signed_of_int signed_take_bit_int_eq_self)
  then show ?case using 3 by (auto simp: leaf_count leaf_within split: if_splits)
next
  case (4 s)
  then show ?case using string_value_wf [of s] by (auto simp: leaf_count leaf_within)
next
  case (6 vs)
  obtain fvs where fvs: "collect_results value_to_frame_value vs = Inr fvs" "fv = FArray fvs" using 6(2) by auto
  have each: "list_all2 (\<lambda>v fv. value_wf fv \<and> normal_value fv = fv \<and> mp_count (frame_value_to_value_ref fv) = mp_count v
     \<and> (\<forall>lim d. mp_within lim d v \<longrightarrow> mp_within lim d (frame_value_to_value_ref fv))) vs fvs"
    by (rule list_all2_mono [OF collect_list_all2 [OF fvs(1)]]) (use 6(1) in blast)
  have "map (\<lambda>x. mp_count (frame_value_to_value_ref x)) fvs = map mp_count vs"
    using each by (induction rule: list_all2_induct) auto
  moreover have "list_all value_wf fvs" "map normal_value fvs = fvs"
    using each by (induction rule: list_all2_induct) auto
  moreover have "\<forall>fv\<in>set fvs. mp_within lim d (frame_value_to_value_ref fv)" if "\<forall>v\<in>set vs. mp_within lim d v" for lim d
    using each that by (induction rule: list_all2_induct) auto
  moreover have "length fvs = length vs" using each by (simp add: list_all2_lengthD)
  ultimately show ?case
    by (auto simp: fvs(2) mp_count.simps [of "VArray _"] mp_within.simps [of _ _ "VArray _"] comp_def)
qed (auto simp: leaf_count leaf_within)

lemma decoded_body:
  assumes "value_to_body v = Inr body"
  shows "body_wf body \<and> normal_body body = body \<and> mp_count (body_to_value_ref body) = mp_count v
    \<and> (\<forall>lim d. mp_within lim d v \<longrightarrow> mp_within lim d (body_to_value_ref body))"
proof (cases v)
  case (VArray vs)
  then obtain fvs where "value_to_frame_value v = Inr (FArray fvs)" "body = Fields fvs" using assms by (auto simp: value_to_body_def)
  then show ?thesis using decoded_value [of v "FArray fvs"] by (simp add: body_to_value_ref_def)
next
  case (VString s)
  then show ?thesis
    using assms string_value_wf [of s] by (auto simp: value_to_body_def body_to_value_ref_def leaf_count leaf_within)
qed (use assms in \<open>auto simp: value_to_body_def body_to_value_ref_def\<close>)

lemma frame_of_value_parts:
  assumes "frame_of_value v = Inr f"
  obtains v0 v1 v2 v3 v4 v5 where "v = VArray [v0, v1, v2, v3, v4, v5]" "value_to_body v5 = Inr (fr_body f)"
    "\<forall>u\<in>{v0, v1, v2, v3}. \<exists>i. u = VInteger i" "v4 = VNil \<and> fr_room_id f = None \<or> (\<exists>i. v4 = VInteger i \<and> fr_room_id f \<noteq> None)"
proof -
  have number: "\<exists>i. u = VInteger i" if "value_as_u64 u field = Inr n" for u field n
    using that by (auto simp: value_as_u64_def split: Value.splits)
  obtain v0 v1 v2 v3 v4 v5 where v: "v = VArray [v0, v1, v2, v3, v4, v5]"
    using assms by (auto simp: frame_of_value_def split: Value.splits list.splits)
  have "v4 = VNil \<and> fr_room_id f = None \<or> (\<exists>i. v4 = VInteger i \<and> fr_room_id f \<noteq> None)"
    using assms number by (cases v4) (auto simp: frame_of_value_def v)
  then show thesis using that [OF v] assms number by (auto simp: frame_of_value_def v)
qed


lemma sample_frame_decodes: "decode_frame reference_lib (mp_write (frame_to_value sample_frame)) = Inr (frame_normal sample_frame)"
proof -
  have "mp_encodes (frame_to_value sample_frame) (mp_write (frame_to_value sample_frame))"
    using frame_encodable [OF sample_frame_within(1)] mp_write_encodes by blast
  moreover have "length (mp_write (frame_to_value sample_frame)) \<le> MAX_FRAME_BYTES"
    by (simp add: sample_frame_value mp_write.simps [of "VArray _"] mp_write_leaf write_int_def op_code_def PROTOCOL_VERSION_def codec_limits)
  moreover have "frame_of_value (frame_to_value sample_frame) = Inr (frame_normal sample_frame)"
    by (rule frame_roundtrip) code_simp
  ultimately show ?thesis using sample_frame_within unfolding decode_frame_iff [OF reference_lib_ok] by blast
qed


text \<open>
  numbers that do not fit their field are cut down to it, and a text that is not UTF-8 becomes empty: the
  version, flags, sequence number and room of a decoded frame are those of the bytes modulo 256, 65536 and
  4294967296, so a frame for room 4294967301 in version 257 is taken for room 5 in version 1.
\<close>

theorem frame_decode_truncates:
  assumes "messagepack_lib lib" "length bs \<le> MAX_FRAME_BYTES" "length text \<le> MAX_SCALAR_BYTES"
    and "mp_encodes (VArray [VInteger (uint (version :: u64)), VInteger (uint (op_code op)), VInteger (uint (flags :: u64)),
       VInteger (uint (seq :: u64)), VInteger (uint (room :: u64)), VString text]) bs"
  shows "decode_frame lib bs = Inr \<lparr>fr_version = ucast version, fr_op = op, fr_flags = ucast flags, fr_seq = ucast seq,
     fr_room_id = Some (ucast room), fr_body = Text (if utf8_valid text then of_bytes text else [])\<rparr>"
proof -
  define v where "v = VArray [VInteger (uint version), VInteger (uint (op_code op)), VInteger (uint flags),
       VInteger (uint seq), VInteger (uint room), VString text]"
  have "mp_within frame_limits 0 v" "mp_count v \<le> MAX_TOTAL_VALUES"
    using assms(3) by (simp_all add: v_def mp_within.simps [of _ _ "VArray _"] mp_count.simps [of "VArray _"] leaf_within leaf_count codec_limits)
  moreover have "frame_of_value v = Inr \<lparr>fr_version = ucast version, fr_op = op, fr_flags = ucast flags, fr_seq = ucast seq,
     fr_room_id = Some (ucast room), fr_body = Text (if utf8_valid text then of_bytes text else [])\<rparr>"
    by (simp add: v_def frame_of_value_def value_to_body_def string_value_def from_utf8_def)
  ultimately show ?thesis
    using assms(2,4) unfolding decode_frame_iff [OF assms(1)] v_def [symmetric] by blast
qed

theorem frame_decode_truncates_witness:
  "decode_frame reference_lib (mp_write (VArray [VInteger 257, VInteger (uint (op_code Ping)), VInteger 0, VInteger 0, VInteger 4294967301, VString [0xFF]]))
   = Inr \<lparr>fr_version = 1, fr_op = Ping, fr_flags = 0, fr_seq = 0, fr_room_id = Some 5, fr_body = Text []\<rparr>"
proof -
  define v where "v = VArray [VInteger (uint (257 :: u64)), VInteger (uint (op_code Ping)), VInteger (uint (0 :: u64)),
       VInteger (uint (0 :: u64)), VInteger (uint (4294967301 :: u64)), VString [0xFF]]"
  have "\<exists>bs. mp_encodes v bs"
    unfolding v_def by (rule array_encodable) (auto simp: codec_limits string_encodable intro: word_encodable uint_encodable)
  then have encodes: "mp_encodes v (mp_write v)" using mp_write_encodes by blast
  have size: "length (mp_write v) \<le> MAX_FRAME_BYTES" "length [0xFF :: u8] \<le> MAX_SCALAR_BYTES"
    by (simp_all add: v_def mp_write.simps [of "VArray _"] mp_write_leaf write_int_def write_len_def mp_uint_formats_def op_code_def codec_limits)
  have "\<not> utf8_valid [0xFF]" by code_simp
  then show ?thesis
    using frame_decode_truncates [OF reference_lib_ok size [unfolded v_def] encodes [unfolded v_def]] by (simp add: v_def)
qed

end
