(* ===== verification/Batch_Codec.thy ===== *)
theory Batch_Codec
  imports Frame_Codec
begin

text \<open>
  Batches of values for history and snapshots (\<^verbatim>\<open>server/src/protocol/batch.rs\<close>): values as one MessagePack array,
  compressed with bzip2, with the promised length checked against what the stream really holds, and the
  offers of resources. The bzip2 crate is the parameter \<open>BzipLib\<close>: what the encoder writes, and what the
  decoder of a byte string yields before it ends or fails.
\<close>

definition MAX_BATCH_COMPRESSED_BYTES :: nat where "MAX_BATCH_COMPRESSED_BYTES = 4 * 1024 * 1024"
definition MAX_BATCH_UNCOMPRESSED_BYTES :: nat where "MAX_BATCH_UNCOMPRESSED_BYTES = 4 * 1024 * 1024"
definition MAX_BATCH_CONTAINER_ITEMS :: nat where "MAX_BATCH_CONTAINER_ITEMS = 16 * 1024"
definition MAX_BATCH_TOTAL_VALUES :: nat where "MAX_BATCH_TOTAL_VALUES = 64 * 1024"
definition MAX_BATCH_NESTING_DEPTH :: nat where "MAX_BATCH_NESTING_DEPTH = 16"

record ResourceOffer =
  ro_resource_id :: string
  ro_compression :: Compression
  ro_uncompressed_len :: u64
  ro_compressed_len :: u64
  ro_purpose :: string

record CompressedBatch =
  cb_compression :: Compression
  cb_uncompressed_len :: u64
  cb_bytes :: bytes

datatype BatchError =
    BatchProtocol ProtocolError
  | BatchEncode string
  | BatchDecode string
  | BatchCompression string

record BzipLib =
  bz_compress :: "bytes \<Rightarrow> string + bytes"
  bz_stream :: "bytes \<Rightarrow> bytes \<times> string option"

section \<open>Values\<close>

definition batch_field_as_u64 :: "FrameValue \<Rightarrow> string \<Rightarrow> ProtocolError + u64" where
  "batch_field_as_u64 value field =
     (case value of
        FU64 n \<Rightarrow> Inr n
      | FI64 n \<Rightarrow> if 0 \<le> sint n then Inr n else Inl (MalformedFrame field)
      | _ \<Rightarrow> Inl (MalformedFrame field))"

definition batch_field_as_bytes :: "FrameValue \<Rightarrow> string \<Rightarrow> ProtocolError + bytes" where
  "batch_field_as_bytes value field = (case value of FBytes b \<Rightarrow> Inr b | _ \<Rightarrow> Inl (MalformedFrame field))"

definition batch_field_as_string :: "FrameValue \<Rightarrow> string \<Rightarrow> ProtocolError + string" where
  "batch_field_as_string value field = (case value of FString s \<Rightarrow> Inr s | _ \<Rightarrow> Inl (MalformedFrame field))"

fun batch_value_ref :: "FrameValue \<Rightarrow> Value" where
  "batch_value_ref FNil = VNil"
| "batch_value_ref (FBool b) = VBoolean b"
| "batch_value_ref (FU64 n) = VInteger (uint n)"
| "batch_value_ref (FI64 n) = VInteger (sint n)"
| "batch_value_ref (FString s) = VString (as_bytes s)"
| "batch_value_ref (FBytes b) = VBinary b"
| "batch_value_ref (FArray vs) = VArray (map batch_value_ref vs)"

fun batch_frame_value :: "Value \<Rightarrow> BatchError + FrameValue" where
  "batch_frame_value VNil = Inr FNil"
| "batch_frame_value (VBoolean b) = Inr (FBool b)"
| "batch_frame_value (VInteger i) =
     (if 0 \<le> i \<and> i < 2 ^ 64 then Inr (FU64 (word_of_int i))
      else if - (2 ^ 63) \<le> i \<and> i < 2 ^ 63 then Inr (FI64 (word_of_int i))
      else Inl (BatchProtocol (MalformedFrame ''integer does not fit supported range'')))"
| "batch_frame_value (VString s) = Inr (FString (string_value s))"
| "batch_frame_value (VBinary b) = Inr (FBytes b)"
| "batch_frame_value (VArray vs) = and_then (collect_results batch_frame_value vs) (\<lambda>vs. Inr (FArray vs))"
| "batch_frame_value _ = Inl (BatchProtocol (MalformedFrame ''unsupported nested value''))"

definition encode_values :: "MessagePackLib \<Rightarrow> FrameValue list \<Rightarrow> BatchError + bytes" where
  "encode_values lib values = map_err BatchEncode (ml_write lib (VArray (map batch_value_ref values)))"

definition batch_limits :: MsgpackLimits where
  "batch_limits = \<lparr>max_scalar_bytes = MAX_BATCH_COMPRESSED_BYTES, max_container_items = MAX_BATCH_CONTAINER_ITEMS,
     max_total_values = MAX_BATCH_TOTAL_VALUES, max_nesting_depth = MAX_BATCH_NESTING_DEPTH\<rparr>"

definition decode_values :: "MessagePackLib \<Rightarrow> bytes \<Rightarrow> BatchError + FrameValue list" where
  "decode_values lib bytes =
     and_then (map_err (\<lambda>error. BatchDecode (''MessagePack decode failed: '' @ error))
       (validate_msgpack_with_limits bytes MAX_BATCH_UNCOMPRESSED_BYTES batch_limits)) (\<lambda>_.
     and_then (map_err BatchDecode (ml_read lib bytes)) (\<lambda>value.
     case value of
       VArray values \<Rightarrow> collect_results batch_frame_value values
     | _ \<Rightarrow> Inl (BatchProtocol (MalformedFrame ''expected batch array''))))"

section \<open>Compression\<close>

definition compress_bzip2 :: "BzipLib \<Rightarrow> bytes \<Rightarrow> BatchError + bytes" where
  "compress_bzip2 bz bytes = map_err BatchCompression (bz_compress bz bytes)"

text \<open>\<^verbatim>\<open>take\<close> and \<^verbatim>\<open>read_to_end\<close>: the first bytes of the stream, or the failure that comes before them.\<close>

definition read_limited :: "bytes \<times> string option \<Rightarrow> nat \<Rightarrow> string + bytes" where
  "read_limited stream limit =
     (if limit \<le> length (fst stream) then Inr (take limit (fst stream))
      else case snd stream of Some error \<Rightarrow> Inl error | None \<Rightarrow> Inr (fst stream))"

definition decompress_bzip2 :: "BzipLib \<Rightarrow> bytes \<Rightarrow> nat \<Rightarrow> BatchError + bytes" where
  "decompress_bzip2 bz bytes expected_len =
     and_then (map_err BatchCompression (read_limited (bz_stream bz bytes) (usize_saturating_add expected_len 1))) (\<lambda>out.
     if length out \<noteq> expected_len then Inl (BatchProtocol (MalformedFrame ''batch length mismatch'')) else Inr out)"

definition compressed_values_batch :: "MessagePackLib \<Rightarrow> BzipLib \<Rightarrow> FrameValue list \<Rightarrow> BatchError + CompressedBatch" where
  "compressed_values_batch lib bz values =
     and_then (encode_values lib values) (\<lambda>raw.
     and_then (compress_bzip2 bz raw) (\<lambda>compressed.
     Inr \<lparr>cb_compression = Bzip2, cb_uncompressed_len = word_of_nat (length raw), cb_bytes = compressed\<rparr>))"

definition compressed_values_body :: "MessagePackLib \<Rightarrow> BzipLib \<Rightarrow> FrameValue list \<Rightarrow> BatchError + FrameBody" where
  "compressed_values_body lib bz values =
     and_then (compressed_values_batch lib bz values) (\<lambda>batch.
     Inr (Fields [FU64 (ucast (compression_code (cb_compression batch))), FU64 (cb_uncompressed_len batch), FBytes (cb_bytes batch)]))"

definition compressed_values_payload :: "MessagePackLib \<Rightarrow> BzipLib \<Rightarrow> FrameValue list \<Rightarrow> BatchError + bytes" where
  "compressed_values_payload lib bz values =
     and_then (compressed_values_body lib bz values) (\<lambda>body.
     case body of
       Fields items \<Rightarrow> encode_values lib items
     | _ \<Rightarrow> Inl (BatchProtocol (MalformedFrame ''expected compressed batch fields'')))"

definition decode_compressed_values_body :: "MessagePackLib \<Rightarrow> BzipLib \<Rightarrow> FrameBody \<Rightarrow> BatchError + FrameValue list" where
  "decode_compressed_values_body lib bz body =
     (case body of
        Fields items \<Rightarrow>
          if length items \<noteq> 3 then Inl (BatchProtocol (MalformedFrame ''expected three compressed batch fields''))
          else
            and_then (map_err BatchProtocol (batch_field_as_u64 (items ! 0) ''compression'')) (\<lambda>compression.
            and_then (map_err BatchProtocol (batch_field_as_u64 (items ! 1) ''uncompressed_len'')) (\<lambda>uncompressed_len.
            and_then (map_err BatchProtocol (batch_field_as_bytes (items ! 2) ''payload'')) (\<lambda>payload.
            let expected_len = unat uncompressed_len in
            if expected_len > MAX_BATCH_UNCOMPRESSED_BYTES then Inl (BatchDecode ''batch exceeds uncompressed byte limit'')
            else if length payload > MAX_BATCH_COMPRESSED_BYTES then Inl (BatchDecode ''batch exceeds compressed byte limit'')
            else
              and_then (map_err BatchProtocol (compression_try_from compression)) (\<lambda>compression.
              and_then (case compression of CompressionNone \<Rightarrow> Inr payload | Bzip2 \<Rightarrow> decompress_bzip2 bz payload expected_len) (\<lambda>decoded.
              if word_of_nat (length decoded) \<noteq> uncompressed_len then Inl (BatchProtocol (MalformedFrame ''batch length mismatch''))
              else decode_values lib decoded)))))
      | _ \<Rightarrow> Inl (BatchProtocol (MalformedFrame ''expected compressed batch fields'')))"

definition decode_compressed_values_payload :: "MessagePackLib \<Rightarrow> BzipLib \<Rightarrow> bytes \<Rightarrow> BatchError + FrameValue list" where
  "decode_compressed_values_payload lib bz bytes =
     and_then (decode_values lib bytes) (\<lambda>items. decode_compressed_values_body lib bz (Fields items))"

definition encoded_compressed_len :: "MessagePackLib \<Rightarrow> BzipLib \<Rightarrow> FrameValue list \<Rightarrow> BatchError + nat \<times> nat" where
  "encoded_compressed_len lib bz values =
     and_then (compressed_values_batch lib bz values) (\<lambda>batch. Inr (unat (cb_uncompressed_len batch), length (cb_bytes batch)))"

section \<open>Resource offers\<close>

definition resource_offer_body :: "ResourceOffer \<Rightarrow> FrameBody" where
  "resource_offer_body offer =
     Fields [FString (ro_resource_id offer), FU64 (ucast (compression_code (ro_compression offer))),
       FU64 (ro_uncompressed_len offer), FU64 (ro_compressed_len offer), FString (ro_purpose offer)]"

definition decode_resource_offer_body :: "FrameBody \<Rightarrow> BatchError + ResourceOffer" where
  "decode_resource_offer_body body =
     (case body of
        Fields items \<Rightarrow>
          if length items \<noteq> 5 then Inl (BatchProtocol (MalformedFrame ''expected five resource offer fields''))
          else
            map_err BatchProtocol (
            and_then (batch_field_as_string (items ! 0) ''resource_id'') (\<lambda>resource_id.
            and_then (and_then (batch_field_as_u64 (items ! 1) ''compression'') compression_try_from) (\<lambda>compression.
            and_then (batch_field_as_u64 (items ! 2) ''uncompressed_len'') (\<lambda>uncompressed_len.
            and_then (batch_field_as_u64 (items ! 3) ''compressed_len'') (\<lambda>compressed_len.
            and_then (batch_field_as_string (items ! 4) ''purpose'') (\<lambda>purpose.
            Inr \<lparr>ro_resource_id = resource_id, ro_compression = compression, ro_uncompressed_len = uncompressed_len,
              ro_compressed_len = compressed_len, ro_purpose = purpose\<rparr>))))))
      | _ \<Rightarrow> Inl (BatchProtocol (MalformedFrame ''expected resource offer fields'')))"

section \<open>The same values as in frames\<close>

lemma batch_value_ref_frame: "batch_value_ref = frame_value_to_value_ref"
proof
  show "batch_value_ref v = frame_value_to_value_ref v" for v by (induction v) simp_all
qed

lemma collect_results_Inr_eq:
  "(\<And>x y. x \<in> set xs \<Longrightarrow> f x = Inr y \<longleftrightarrow> g x = Inr y) \<Longrightarrow> collect_results f xs = Inr ys \<longleftrightarrow> collect_results g xs = Inr ys"
  by (induction xs arbitrary: ys) auto

text \<open>The copy of the conversion accepts the values of the frame codec; only its errors are of another type.\<close>

lemma batch_frame_value_frame: "batch_frame_value v = Inr fv \<longleftrightarrow> value_to_frame_value v = Inr fv"
proof (induction v arbitrary: fv rule: value_to_frame_value.induct)
  case (6 vs)
  then have "collect_results batch_frame_value vs = Inr fvs \<longleftrightarrow> collect_results value_to_frame_value vs = Inr fvs" for fvs
    by (intro collect_results_Inr_eq) blast
  then show ?case by simp
qed auto

lemmas batch_consts = batch_limits_def MAX_BATCH_COMPRESSED_BYTES_def MAX_BATCH_UNCOMPRESSED_BYTES_def MAX_BATCH_CONTAINER_ITEMS_def
  MAX_BATCH_TOTAL_VALUES_def MAX_BATCH_NESTING_DEPTH_def

lemma batch_limits_facts: "limits_ok batch_limits" "limits32 batch_limits" "max_nesting_depth batch_limits \<le> 16"
  by (simp_all add: limits_ok_def limits32_def batch_consts)

lemma batch_array_values:
  "collect_results batch_frame_value vs = Inr fvs \<longleftrightarrow> value_to_frame_value (VArray vs) = Inr (FArray fvs)"
  using collect_results_Inr_eq [of vs batch_frame_value value_to_frame_value fvs] batch_frame_value_frame by simp

lemma decode_values_iff:
  assumes "messagepack_lib lib"
  shows "decode_values lib bs = Inr fvs \<longleftrightarrow> length bs \<le> MAX_BATCH_UNCOMPRESSED_BYTES
    \<and> (\<exists>v. mp_encodes v bs \<and> mp_within batch_limits 0 v \<and> mp_count v \<le> MAX_BATCH_TOTAL_VALUES
         \<and> value_to_frame_value v = Inr (FArray fvs))"
proof (cases "length bs \<le> MAX_BATCH_UNCOMPRESSED_BYTES")
  case True
  then have "length bs < 2 ^ 64" by (simp add: batch_consts)
  note valid = validate_msgpack_iff [OF this batch_limits_facts(1)]
  have read: "ml_read lib bs = Inr v" if "mp_encodes v bs" "mp_within batch_limits 0 v" for v
    using assms that batch_limits_facts(3) unfolding messagepack_lib_def by blast
  have array: "(case v of VArray vs \<Rightarrow> collect_results batch_frame_value vs
      | _ \<Rightarrow> Inl (BatchProtocol (MalformedFrame ''expected batch array''))) = Inr fvs \<longleftrightarrow> value_to_frame_value v = Inr (FArray fvs)" for v
    by (cases v) (auto simp: batch_array_values)
  show ?thesis
    using valid [of MAX_BATCH_UNCOMPRESSED_BYTES] read True
    by (auto simp: decode_values_def array [symmetric] batch_limits_def)

qed (simp add: decode_values_def validate_msgpack_with_limits_def)

section \<open>Batches come back\<close>

definition bzip_lib :: "BzipLib \<Rightarrow> bool" where
  "bzip_lib bz \<longleftrightarrow> (\<forall>bs. \<exists>c. bz_compress bz bs = Inr c \<and> bz_stream bz c = (bs, None))"

text \<open>Values a batch can carry.\<close>

definition batch_ok :: "FrameValue list \<Rightarrow> bool" where
  "batch_ok values \<longleftrightarrow> list_all value_wf values \<and> mp_within batch_limits 0 (VArray (map batch_value_ref values))
     \<and> mp_count (VArray (map batch_value_ref values)) \<le> MAX_BATCH_TOTAL_VALUES"

lemma values_roundtrip:
  assumes "messagepack_lib lib" "batch_ok values"
  obtains raw where "encode_values lib values = Inr raw"
    "length raw \<le> MAX_BATCH_UNCOMPRESSED_BYTES \<Longrightarrow> decode_values lib raw = Inr (map normal_value values)"
proof -
  define v where "v = frame_value_to_value_ref (FArray values)"
  have v: "VArray (map batch_value_ref values) = v" "mp_within batch_limits 0 v" "mp_count v \<le> MAX_BATCH_TOTAL_VALUES"
    using assms(2) by (simp_all add: v_def batch_ok_def batch_value_ref_frame)
  have again: "value_to_frame_value v = Inr (FArray (map normal_value values))"
    using value_roundtrip [of "FArray values"] assms(2) unfolding v_def by (simp add: batch_ok_def)
  obtain raw where raw: "ml_write lib v = Inr raw" "mp_encodes v raw"
    using assms(1) value_encodable [OF batch_limits_facts(2) v(2) [unfolded v_def]] unfolding messagepack_lib_def v_def by blast
  show thesis
    by (rule that [of raw]) (use raw v again in \<open>auto simp: encode_values_def decode_values_iff [OF assms(1)]\<close>)
qed

text \<open>The decoder accepts a stream only when it yields exactly the promised bytes and ends well.\<close>

lemma decompress_bzip2_iff:
  assumes "n \<le> MAX_BATCH_UNCOMPRESSED_BYTES"
  shows "decompress_bzip2 bz bs n = Inr out \<longleftrightarrow> bz_stream bz bs = (out, None) \<and> length out = n"
proof -
  have "usize_saturating_add n 1 = n + 1" using assms by (simp add: usize_saturating_add_exact batch_consts)
  then show ?thesis
    by (cases "bz_stream bz bs") (auto simp: decompress_bzip2_def read_limited_def split: option.splits)
qed

text \<open>A body of a batch: how it is compressed, the promised length and the bytes.\<close>

definition batch_body :: "Compression \<Rightarrow> nat \<Rightarrow> bytes \<Rightarrow> FrameBody" where
  "batch_body c n payload = Fields [FU64 (ucast (compression_code c)), FU64 (word_of_nat n), FBytes payload]"

lemma decode_batch_body:
  assumes "length raw \<le> MAX_BATCH_UNCOMPRESSED_BYTES" "length payload \<le> MAX_BATCH_COMPRESSED_BYTES" "bz_stream bz payload = (raw, None)"
  shows "decode_compressed_values_body lib bz (batch_body Bzip2 (length raw) payload) = decode_values lib raw"
proof -
  have "unat (word_of_nat (length raw) :: u64) = length raw"
    using assms(1) by (simp add: unat_of_nat batch_consts)
  moreover have "decompress_bzip2 bz payload (length raw) = Inr raw"
    using decompress_bzip2_iff [OF assms(1)] assms(3) by simp
  ultimately show ?thesis
    using assms(1,2) by (simp add: decode_compressed_values_body_def batch_body_def batch_field_as_u64_def
      batch_field_as_bytes_def compression_try_from_def Let_def)
qed

lemma compressed_values_body_eq:
  assumes "encode_values lib values = Inr raw" "bz_compress bz raw = Inr c"
  shows "compressed_values_body lib bz values = Inr (batch_body Bzip2 (length raw) c)"
  using assms by (simp add: compressed_values_body_def compressed_values_batch_def compress_bzip2_def batch_body_def)


definition stored_lib :: BzipLib where
  "stored_lib = \<lparr>bz_compress = Inr, bz_stream = (\<lambda>bs. (bs, None))\<rparr>"

lemma stored_lib_ok: "bzip_lib stored_lib"
  by (simp add: bzip_lib_def stored_lib_def)

lemma sample_batch_ok: "batch_ok [FU64 1, FArray [FString ''hi'', FI64 7]]"
proof -
  have "list_all value_wf [FU64 1, FArray [FString ''hi'', FI64 7]]" by code_simp
  then show ?thesis
    by (simp add: batch_ok_def mp_within.simps [of _ _ "VArray _"] mp_count.simps [of "VArray _"] leaf_within leaf_count batch_consts)
qed


section \<open>Hostile batches\<close>

lemma decoded_batch_ok:
  assumes "messagepack_lib lib" "decode_values lib raw = Inr values"
  shows "batch_ok values \<and> map normal_value values = values"
proof -
  obtain v where v: "mp_within batch_limits 0 v" "mp_count v \<le> MAX_BATCH_TOTAL_VALUES" "value_to_frame_value v = Inr (FArray values)"
    using assms(2) unfolding decode_values_iff [OF assms(1)] by blast
  then show ?thesis using decoded_value [OF v(3)] by (simp add: batch_ok_def batch_value_ref_frame)
qed

text \<open>
  C7: whatever a batch holds, the values decoded from it are those of a byte string of exactly the promised length,
  at most 4 MiB, which is the payload or all that its stream yields without failing, and they are within the
  limits on depth, sizes and number of values: a stream that yields more or less than promised is refused.
\<close>

theorem batch_decode_bounded:
  assumes "messagepack_lib lib" "decode_compressed_values_body lib bz body = Inr values"
  shows "batch_ok values \<and> map normal_value values = values
    \<and> (\<exists>compression len payload raw. body = Fields [compression, len, FBytes payload]
         \<and> batch_field_as_u64 len ''uncompressed_len'' = Inr (word_of_nat (length raw))
         \<and> length raw \<le> MAX_BATCH_UNCOMPRESSED_BYTES \<and> length payload \<le> MAX_BATCH_COMPRESSED_BYTES
         \<and> decode_values lib raw = Inr values
         \<and> (batch_field_as_u64 compression ''compression'' = Inr 0 \<and> raw = payload
            \<or> batch_field_as_u64 compression ''compression'' = Inr 1 \<and> bz_stream bz payload = (raw, None)))"
proof -
  obtain items where items: "body = Fields items" "length items = 3"
    using assms(2) by (auto simp: decode_compressed_values_body_def split: FrameBody.splits if_splits)
  then obtain cv lv pv where three: "items = [cv, lv, pv]"
    by (auto simp: length_Suc_conv numeral_3_eq_3)
  obtain code n payload c raw where parts: "batch_field_as_u64 cv ''compression'' = Inr code"
      "batch_field_as_u64 lv ''uncompressed_len'' = Inr n" "batch_field_as_bytes pv ''payload'' = Inr payload"
      "unat n \<le> MAX_BATCH_UNCOMPRESSED_BYTES" "length payload \<le> MAX_BATCH_COMPRESSED_BYTES" "code = ucast (compression_code c)"
      "(case c of CompressionNone \<Rightarrow> Inr payload | Bzip2 \<Rightarrow> decompress_bzip2 bz payload (unat n)) = Inr raw"
      "n = word_of_nat (length raw)" "decode_values lib raw = Inr values"
    using assms(2) by (auto simp: decode_compressed_values_body_def items three Let_def compression_try_from_Inr split: if_splits)
  have len: "length raw \<le> MAX_BATCH_UNCOMPRESSED_BYTES" using parts(9) decode_values_iff [OF assms(1)] by blast
  have "pv = FBytes payload" using parts(3) by (cases pv) (simp_all add: batch_field_as_bytes_def)
  moreover have "code = 0 \<and> raw = payload \<or> code = 1 \<and> bz_stream bz payload = (raw, None)"
    using parts(6,7) decompress_bzip2_iff [OF parts(4)] by (cases c) auto
  ultimately show ?thesis using parts len items(1) three decoded_batch_ok [OF assms(1) parts(9)] by auto
qed

lemma sample_batch_decodes:
  "decode_compressed_values_body reference_lib stored_lib (batch_body Bzip2 3 [0x92, 0x01, 0xC0]) = Inr [FU64 1, FNil]"
proof -
  have "batch_ok [FU64 1, FNil]"
    by (simp add: batch_ok_def mp_within.simps [of _ _ "VArray _"] mp_count.simps [of "VArray _"] leaf_within leaf_count batch_consts)
  from values_roundtrip [OF reference_lib_ok this] obtain raw where raw: "encode_values reference_lib [FU64 1, FNil] = Inr raw"
    "length raw \<le> MAX_BATCH_UNCOMPRESSED_BYTES \<Longrightarrow> decode_values reference_lib raw = Inr [FU64 1, FNil]" by auto
  have "raw = [0x92, 0x01, 0xC0]"
    using raw(1) by (simp add: encode_values_def reference_lib_def mp_write.simps [of "VArray _"] mp_write_leaf write_int_def)
  then show ?thesis
    using raw(2) decode_batch_body [of raw "[0x92, 0x01, 0xC0]" stored_lib reference_lib] by (simp add: stored_lib_def batch_consts numeral_3_eq_3)
qed

theorem batch_decode_bounded_witness:
  "batch_ok [FU64 1, FNil] \<and> (\<exists>compression len payload raw. batch_body Bzip2 3 [0x92, 0x01, 0xC0] = Fields [compression, len, FBytes payload]
     \<and> batch_field_as_u64 len ''uncompressed_len'' = Inr (word_of_nat (length raw)) \<and> length raw \<le> MAX_BATCH_UNCOMPRESSED_BYTES
     \<and> decode_values reference_lib raw = Inr [FU64 1, FNil])"
  using batch_decode_bounded [OF reference_lib_ok sample_batch_decodes] by blast

text \<open>
  The offer of a resource is read as it was sent.
\<close>

theorem resource_offer_roundtrip: "decode_resource_offer_body (resource_offer_body offer) = Inr offer"
  by (simp add: decode_resource_offer_body_def resource_offer_body_def batch_field_as_string_def batch_field_as_u64_def
    compression_try_from_Inr [THEN iffD2])

end
