(* ===== verification/BTree_Map.thy ===== *)
theory BTree_Map
  imports Omen_Prelude
begin

text \<open>
  The ordered maps of the source (\<^verbatim>\<open>std::collections::BTreeMap\<close>): an association list with
  strictly increasing keys, so that iteration, \<^verbatim>\<open>take(n)\<close> over it and removal of a batch visit
  the entries in the order the code visits them. The locale \<open>ordered_map\<close> states what the session
  components rely on; it is interpreted on the list operations, and the components' proofs use the
  facts of that interpretation.
\<close>

type_synonym ('k, 'v) btree_map = "('k \<times> 'v) list"

definition bt_ok :: "('k :: linorder, 'v) btree_map \<Rightarrow> bool" where
  "bt_ok m \<longleftrightarrow> sorted_wrt (<) (map fst m)"

definition bt_get :: "('k :: linorder, 'v) btree_map \<Rightarrow> 'k \<Rightarrow> 'v option" where
  "bt_get m k = map_of m k"

fun bt_insert :: "'k :: linorder \<Rightarrow> 'v \<Rightarrow> ('k, 'v) btree_map \<Rightarrow> ('k, 'v) btree_map" where
  "bt_insert k v [] = [(k, v)]"
| "bt_insert k v ((k', v') # m) =
     (if k < k' then (k, v) # (k', v') # m
      else if k = k' then (k, v) # m
      else (k', v') # bt_insert k v m)"

definition bt_retain :: "('k :: linorder \<Rightarrow> 'v \<Rightarrow> bool) \<Rightarrow> ('k, 'v) btree_map \<Rightarrow> ('k, 'v) btree_map" where
  "bt_retain p m = filter (\<lambda>(k, v). p k v) m"

definition bt_remove :: "'k :: linorder \<Rightarrow> ('k, 'v) btree_map \<Rightarrow> ('k, 'v) btree_map" where
  "bt_remove k m = bt_retain (\<lambda>k' _. k' \<noteq> k) m"

definition bt_remove_all :: "'k :: linorder list \<Rightarrow> ('k, 'v) btree_map \<Rightarrow> ('k, 'v) btree_map" where
  "bt_remove_all ks m = fold bt_remove ks m"

text \<open>How many entries satisfy a predicate: \<^verbatim>\<open>iter().filter(..).count()\<close>.\<close>

definition bt_count :: "('k :: linorder \<Rightarrow> 'v \<Rightarrow> bool) \<Rightarrow> ('k, 'v) btree_map \<Rightarrow> nat" where
  "bt_count p m = length (bt_retain p m)"

section \<open>The interface\<close>

locale ordered_map =
  fixes ok :: "'m \<Rightarrow> bool"
    and get :: "'m \<Rightarrow> 'k \<Rightarrow> 'v option"
    and ins :: "'k \<Rightarrow> 'v \<Rightarrow> 'm \<Rightarrow> 'm"
    and ret :: "('k \<Rightarrow> 'v \<Rightarrow> bool) \<Rightarrow> 'm \<Rightarrow> 'm"
    and cnt :: "('k \<Rightarrow> 'v \<Rightarrow> bool) \<Rightarrow> 'm \<Rightarrow> nat"
  assumes ok_ins: "ok m \<Longrightarrow> ok (ins k v m)"
    and ok_ret: "ok m \<Longrightarrow> ok (ret p m)"
    and get_ins: "ok m \<Longrightarrow> get (ins k v m) k' = (if k' = k then Some v else get m k')"
    and get_ret: "ok m \<Longrightarrow> get (ret p m) k = Some v \<longleftrightarrow> get m k = Some v \<and> p k v"
    and finite_get: "ok m \<Longrightarrow> finite (dom (get m))"
    and cnt_card: "ok m \<Longrightarrow> cnt p m = card {k. \<exists>v. get m k = Some v \<and> p k v}"
begin

lemma finite_cnt: "ok m \<Longrightarrow> finite {k. \<exists>v. get m k = Some v \<and> p k v}"
  by (rule finite_subset [OF _ finite_get]) auto

lemma cnt_mono: "ok m \<Longrightarrow> (\<And>k v. get m k = Some v \<Longrightarrow> p k v \<Longrightarrow> q k v) \<Longrightarrow> cnt p m \<le> cnt q m"
  by (auto simp: cnt_card intro!: card_mono finite_cnt)

lemma cnt_ret: "ok m \<Longrightarrow> cnt p (ret q m) = cnt (\<lambda>k v. q k v \<and> p k v) m"
  by (simp add: cnt_card ok_ret get_ret conj_assoc)

lemma cnt_ret_le: "ok m \<Longrightarrow> cnt p (ret q m) \<le> cnt p m"
  unfolding cnt_ret by (rule cnt_mono) auto

lemma cnt_ins_new:
  assumes "ok m" "get m k = None"
  shows "cnt p (ins k v m) = cnt p m + of_bool (p k v)"
proof -
  have "{k'. \<exists>v'. get (ins k v m) k' = Some v' \<and> p k' v'}
    = (if p k v then insert k {k. \<exists>v. get m k = Some v \<and> p k v} else {k. \<exists>v. get m k = Some v \<and> p k v})"
    using assms by (auto simp: get_ins split: if_splits)
  then show ?thesis using assms finite_cnt [of m p] by (simp add: cnt_card ok_ins)
qed

text \<open>Removing one entry is retaining all the others.\<close>

lemma get_del: "ok m \<Longrightarrow> get (ret (\<lambda>k' _. k' \<noteq> k) m) k' = (if k' = k then None else get m k')"
  using get_ret [of m "\<lambda>k' _. k' \<noteq> k" k'] by (cases "get m k'") (auto intro: option.expand)

lemma cnt_del:
  assumes "ok m" "get m k = Some v"
  shows "cnt p (ret (\<lambda>k' _. k' \<noteq> k) m) + of_bool (p k v) = cnt p m"
proof -
  have "{k. \<exists>v. get m k = Some v \<and> p k v} = (if p k v then
      insert k {k'. \<exists>v. get m k' = Some v \<and> k' \<noteq> k \<and> p k' v} else {k'. \<exists>v. get m k' = Some v \<and> k' \<noteq> k \<and> p k' v})"
    using assms by auto
  moreover have "finite {k'. \<exists>v. get m k' = Some v \<and> k' \<noteq> k \<and> p k' v}"
    by (rule finite_subset [OF _ finite_get [OF assms(1)]]) auto
  ultimately show ?thesis
    using assms(1) by (auto simp: cnt_ret cnt_card)
qed

text \<open>Inserting replaces: the count loses the old entry and gains the new one.\<close>

lemma cnt_ins_old:
  assumes "ok m" "get m k = Some v'"
  shows "cnt p (ins k v m) + of_bool (p k v') = cnt p m + of_bool (p k v)"
proof -
  let ?d = "ret (\<lambda>k' _. k' \<noteq> k) m"
  have "ok ?d" "get ?d k = None" using assms(1) by (simp_all add: ok_ret get_del)
  then have "cnt p (ins k v ?d) = cnt p ?d + of_bool (p k v)" by (rule cnt_ins_new)
  moreover have "get (ins k v ?d) = get (ins k v m)"
    using assms(1) by (auto simp: get_ins ok_ret get_del)
  then have "cnt p (ins k v ?d) = cnt p (ins k v m)"
    using assms(1) by (simp add: cnt_card ok_ins ok_ret)
  ultimately show ?thesis using cnt_del [OF assms, of p] by simp
qed

lemma cnt_ins_le: "ok m \<Longrightarrow> cnt p (ins k v m) \<le> cnt p m + of_bool (p k v)"
  using cnt_ins_new [of m k p v] cnt_ins_old [of m k _ p v] by (cases "get m k") fastforce+

lemma cnt_pos: "ok m \<Longrightarrow> get m k = Some v \<Longrightarrow> p k v \<Longrightarrow> 0 < cnt p m"
  by (auto simp: cnt_card card_gt_0_iff finite_cnt)

end

section \<open>The association list implements the interface\<close>

lemma bt_ok_simps [simp]:
  "bt_ok []"
  "bt_ok ((k, v) # m) \<longleftrightarrow> (\<forall>k'\<in>fst ` set m. k < k') \<and> bt_ok m"
  by (auto simp: bt_ok_def)

lemma bt_get_simps [simp]:
  "bt_get [] k = None"
  "bt_get ((k', v) # m) k = (if k = k' then Some v else bt_get m k)"
  by (auto simp: bt_get_def)

lemma bt_retain_simps [simp]:
  "bt_retain p [] = []"
  "bt_retain p ((k, v) # m) = (if p k v then (k, v) # bt_retain p m else bt_retain p m)"
  by (auto simp: bt_retain_def)

lemma bt_get_SomeD: "bt_get m k = Some v \<Longrightarrow> (k, v) \<in> set m"
  by (simp add: bt_get_def map_of_SomeD)

lemma bt_get_eq_Some: "bt_ok m \<Longrightarrow> bt_get m k = Some v \<longleftrightarrow> (k, v) \<in> set m"
  by (induction m) (force split: if_splits)+

lemma keys_bt_insert: "fst ` set (bt_insert k v m) = insert k (fst ` set m)"
  by (induction k v m rule: bt_insert.induct) auto

lemma bt_ok_insert: "bt_ok m \<Longrightarrow> bt_ok (bt_insert k v m)"
  by (induction k v m rule: bt_insert.induct) (auto simp: keys_bt_insert)

lemma bt_ok_distinct: "bt_ok m \<Longrightarrow> distinct (map fst m)"
  by (simp add: bt_ok_def strict_sorted_iff)

lemma bt_ok_retain: "bt_ok m \<Longrightarrow> bt_ok (bt_retain p m)"
  by (induction m) (auto simp: bt_retain_def)

lemma bt_get_insert: "bt_ok m \<Longrightarrow> bt_get (bt_insert k v m) k' = (if k' = k then Some v else bt_get m k')"
  by (induction k v m rule: bt_insert.induct) auto

lemma bt_get_retain: "bt_ok m \<Longrightarrow> bt_get (bt_retain p m) k = Some v \<longleftrightarrow> bt_get m k = Some v \<and> p k v"
  by (auto simp: bt_get_eq_Some bt_ok_retain) (auto simp: bt_retain_def)

lemma bt_count_card: "bt_ok m \<Longrightarrow> bt_count p m = card {k. \<exists>v. bt_get m k = Some v \<and> p k v}"
proof -
  assume ok: "bt_ok m"
  have "{k. \<exists>v. bt_get m k = Some v \<and> p k v} = set (map fst (bt_retain p m))"
    using ok by (force simp: bt_get_eq_Some bt_retain_def)
  then show ?thesis
    using distinct_card [OF bt_ok_distinct [OF bt_ok_retain [OF ok, of p]]] by (simp add: bt_count_def)
qed

interpretation bt: ordered_map bt_ok bt_get bt_insert bt_retain bt_count
proof
  fix m :: "('a :: linorder, 'b) btree_map"
  show "bt_ok m \<Longrightarrow> finite (dom (bt_get m))"
    by (simp add: bt_get_def [abs_def] finite_dom_map_of)
qed (simp_all add: bt_ok_insert bt_ok_retain bt_get_insert bt_get_retain bt_count_card)

lemmas bt_laws = bt_ok_insert bt_ok_retain bt_get_insert bt_get_retain

lemma bt_count_True: "bt_count (\<lambda>_ _. True) m = length m"
  by (simp add: bt_count_def bt_retain_def case_prod_unfold)

lemma bt_ok_remove: "bt_ok m \<Longrightarrow> bt_ok (bt_remove k m)"
  by (simp add: bt_remove_def bt_ok_retain)

lemma bt_get_remove: "bt_ok m \<Longrightarrow> bt_get (bt_remove k m) k' = (if k' = k then None else bt_get m k')"
  by (simp add: bt_remove_def bt.get_del)

text \<open>Removing a batch of keys one by one is one pass over the map.\<close>

lemma bt_remove_all_retain: "bt_remove_all ks m = bt_retain (\<lambda>k _. k \<notin> set ks) m"
  by (induction ks arbitrary: m)
    (auto simp: bt_remove_all_def bt_remove_def bt_retain_def case_prod_unfold intro!: filter_cong)

lemma bt_remove_absent: "bt_get m k = None \<Longrightarrow> bt_remove k m = m"
  by (induction m) (auto simp: bt_remove_def split: if_splits)

lemma length_bt_retain: "length (bt_retain p m) \<le> length m"
  by (simp add: bt_retain_def)

lemma length_bt_insert: "bt_ok m \<Longrightarrow> length (bt_insert k v m) \<le> length m + 1"
  using bt.cnt_ins_le [of m "\<lambda>_ _. True" k v] by (simp add: bt_count_True)

text \<open>The sum of a measure over the entries, as the accounting of the bounded tables uses it.\<close>

definition bt_sum :: "('v \<Rightarrow> nat) \<Rightarrow> ('k :: linorder, 'v) btree_map \<Rightarrow> nat" where
  "bt_sum f m = sum_list (map (\<lambda>(_, v). f v) m)"

lemma bt_sum_simps [simp]: "bt_sum f [] = 0" "bt_sum f ((k, v) # m) = f v + bt_sum f m"
  by (simp_all add: bt_sum_def)

lemma bt_sum_retain_le: "bt_sum f (bt_retain p m) \<le> bt_sum f m"
  by (induction m) auto

lemma bt_get_above: "bt_ok m \<Longrightarrow> \<forall>k'\<in>fst ` set m. k < k' \<Longrightarrow> bt_get m k = None"
  by (cases "bt_get m k") (force dest: bt_get_SomeD)+

lemma bt_sum_insert:
  "bt_ok m \<Longrightarrow> bt_sum f (bt_insert k v m) + (case bt_get m k of None \<Rightarrow> 0 | Some old \<Rightarrow> f old) = bt_sum f m + f v"
proof (induction k v m rule: bt_insert.induct)
  case (2 k v k' v' m)
  have "k < k' \<Longrightarrow> bt_get m k = None"
    using 2(2) bt_get_above [of m k] by (auto dest: order_less_trans)
  then show ?case using 2 by auto
qed simp

lemma bt_sum_remove:
  "bt_ok m \<Longrightarrow> bt_sum f (bt_remove k m) + (case bt_get m k of None \<Rightarrow> 0 | Some old \<Rightarrow> f old) = bt_sum f m"
proof (induction m)
  case (Cons e m)
  obtain k' v' where e: "e = (k', v')" by fastforce
  then have "k = k' \<Longrightarrow> bt_get m k = None" using Cons.prems bt_get_above [of m k] by simp
  then show ?case using Cons e bt_remove_absent [of m k] by (auto simp: bt_remove_def)
qed (simp add: bt_remove_def)

end
