(* ===== verification/Slow_Mode.thy ===== *)
theory Slow_Mode
  imports BTree_Map Room_Policy "HOL-Library.Multiset"
begin

text \<open>
  The in-memory slow-mode window of the server (\<^verbatim>\<open>server/src/session/slow_mode.rs\<close>): per room and
  user a deadline before which no further publication is admitted, reserved before the message is
  stored and given back when storing fails. The owner's mutex is explicit (its map and whether it is
  poisoned), and a system of one owner with its outstanding reservations is a step relation, in which
  reservations, commits, rollbacks and a poisoned lock interleave in any order under a monotonic
  clock. An \<^verbatim>\<open>Instant\<close> is the number of nanoseconds since the clock's origin; adding to it fails
  when its seconds leave a signed 64-bit integer.
\<close>

datatype ServerError = Message string | Io string | Sqlite string

type_synonym Instant = nat
type_synonym SlowModeKey = "RoomId \<times> UserId"
type_synonym SlowModeDeadlines = "(SlowModeKey, Instant) btree_map"

record SlowModeOwner =
  sm_deadlines :: SlowModeDeadlines
  sm_poisoned :: bool

record SlowModeReservation =
  sr_key :: SlowModeKey
  sr_prior_deadline :: "Instant option"
  sr_reserved_deadline :: Instant
  sr_active :: bool

datatype SlowModeMonotonicAdmission =
    SmDisabled
  | SmAdmitted SlowModeReservation
  | SmRejected u32
  | SmSaturated

record SlowModeOwnerLimits =
  sl_per_room :: nat
  sl_global :: nat
  sl_prune_batch :: nat

definition SLOW_MODE_ADMISSION_MAX_PER_ROOM :: nat where "SLOW_MODE_ADMISSION_MAX_PER_ROOM = 4096"
definition SLOW_MODE_ADMISSION_MAX_GLOBAL :: nat where "SLOW_MODE_ADMISSION_MAX_GLOBAL = 16384"
definition SLOW_MODE_ADMISSION_PRUNE_BATCH :: nat where "SLOW_MODE_ADMISSION_PRUNE_BATCH = 64"

definition PRODUCTION_LIMITS :: SlowModeOwnerLimits where
  "PRODUCTION_LIMITS =
     \<lparr>sl_per_room = SLOW_MODE_ADMISSION_MAX_PER_ROOM, sl_global = SLOW_MODE_ADMISSION_MAX_GLOBAL,
      sl_prune_batch = SLOW_MODE_ADMISSION_PRUNE_BATCH\<rparr>"

definition NANOS_PER_SEC :: nat where "NANOS_PER_SEC = 1000000000"

definition instant_checked_add :: "Instant \<Rightarrow> u32 \<Rightarrow> Instant option" where
  "instant_checked_add now seconds =
     (let t = now + unat seconds * NANOS_PER_SEC in
      if t < 2 ^ 63 * NANOS_PER_SEC then Some t else None)"

section \<open>Operations\<close>

definition retry_after_seconds :: "Instant \<Rightarrow> Instant \<Rightarrow> u32" where
  "retry_after_seconds deadline now =
     (let remaining = deadline - now;
          rounded = min (remaining div NANOS_PER_SEC + (if remaining mod NANOS_PER_SEC \<noteq> 0 then 1 else 0))
            (2 ^ 64 - 1);
          secs = (if rounded < 2 ^ 32 then of_nat rounded else ROOM_SLOW_MODE_MAX_SECONDS) in
      max 1 (min secs ROOM_SLOW_MODE_MAX_SECONDS))"

definition slow_mode_prune :: "nat \<Rightarrow> Instant \<Rightarrow> SlowModeDeadlines \<Rightarrow> SlowModeDeadlines" where
  "slow_mode_prune batch now deadlines =
     bt_remove_all (take batch (map fst (filter (\<lambda>(_, deadline). deadline \<le> now) deadlines))) deadlines"

definition reserve_slot ::
    "SlowModeKey \<Rightarrow> u32 \<Rightarrow> Instant \<Rightarrow> SlowModeOwnerLimits \<Rightarrow> SlowModeOwner \<Rightarrow> SlowModeDeadlines
      \<Rightarrow> (ServerError + SlowModeMonotonicAdmission) \<times> SlowModeOwner" where
  "reserve_slot key seconds now limits owner deadlines =
     (let deadlines = slow_mode_prune (sl_prune_batch limits) now deadlines;
          room_items = bt_count (\<lambda>(entry_room_id, _) _. entry_room_id = fst key) deadlines in
      if room_items \<ge> sl_per_room limits \<or> length deadlines \<ge> sl_global limits
      then (Inr SmSaturated, owner\<lparr>sm_deadlines := deadlines\<rparr>)
      else
        case instant_checked_add now seconds of
          None \<Rightarrow> (Inl (Message ''monotonic slow-mode deadline overflow''),
            owner\<lparr>sm_deadlines := deadlines\<rparr>)
        | Some reserved_deadline \<Rightarrow>
            (Inr (SmAdmitted \<lparr>sr_key = key, sr_prior_deadline = bt_get deadlines key,
               sr_reserved_deadline = reserved_deadline, sr_active = True\<rparr>),
             owner\<lparr>sm_deadlines := bt_insert key reserved_deadline deadlines\<rparr>))"

definition reserve_with_limits ::
    "RoomId \<Rightarrow> UserId \<Rightarrow> u32 \<Rightarrow> Instant \<Rightarrow> SlowModeOwnerLimits \<Rightarrow> SlowModeOwner
      \<Rightarrow> (ServerError + SlowModeMonotonicAdmission) \<times> SlowModeOwner" where
  "reserve_with_limits room_id user_id seconds now limits owner =
     (if room_id = 0 \<or> user_id = 0 \<or> seconds > ROOM_SLOW_MODE_MAX_SECONDS
      then (Inl (Message ''invalid monotonic slow-mode reservation''), owner)
      else if seconds = 0 then (Inr SmDisabled, owner)
      else if sm_poisoned owner then (Inl (Message ''slow-mode deadline lock poisoned''), owner)
      else
        let key = (room_id, user_id); deadlines = sm_deadlines owner in
        case bt_get deadlines key of
          Some deadline \<Rightarrow>
            if deadline > now then (Inr (SmRejected (retry_after_seconds deadline now)), owner)
            else reserve_slot key seconds now limits owner (bt_remove key deadlines)
        | None \<Rightarrow> reserve_slot key seconds now limits owner deadlines)"

definition slow_mode_reserve ::
    "RoomId \<Rightarrow> UserId \<Rightarrow> u32 \<Rightarrow> Instant \<Rightarrow> SlowModeOwner
      \<Rightarrow> (ServerError + SlowModeMonotonicAdmission) \<times> SlowModeOwner" where
  "slow_mode_reserve room_id user_id seconds now owner =
     reserve_with_limits room_id user_id seconds now PRODUCTION_LIMITS owner"

text \<open>The destructor of a reservation, and \<^verbatim>\<open>commit\<close>, which disarms it and then runs it.\<close>

definition slow_mode_drop :: "SlowModeReservation \<Rightarrow> SlowModeOwner \<Rightarrow> SlowModeOwner" where
  "slow_mode_drop r owner =
     (if \<not> sr_active r then owner
      else if sm_poisoned owner then owner
      else if bt_get (sm_deadlines owner) (sr_key r) \<noteq> Some (sr_reserved_deadline r) then owner
      else
        case sr_prior_deadline r of
          Some prior \<Rightarrow> owner\<lparr>sm_deadlines := bt_insert (sr_key r) prior (sm_deadlines owner)\<rparr>
        | None \<Rightarrow> owner\<lparr>sm_deadlines := bt_remove (sr_key r) (sm_deadlines owner)\<rparr>)"

definition slow_mode_commit :: "SlowModeReservation \<Rightarrow> SlowModeOwner \<Rightarrow> SlowModeOwner" where
  "slow_mode_commit r owner = slow_mode_drop (r\<lparr>sr_active := False\<rparr>) owner"

section \<open>The owner with its reservations as a state machine\<close>

text \<open>
  \<^verbatim>\<open>ss_pending\<close> are the reservations still held by a request, \<^verbatim>\<open>ss_committed\<close> those whose message was
  stored. A reservation reads the clock, which never runs backwards.
\<close>

record SlowModeSystem =
  ss_owner :: SlowModeOwner
  ss_clock :: Instant
  ss_pending :: "SlowModeReservation list"
  ss_committed :: "SlowModeReservation list"

definition slow_mode_init :: SlowModeSystem where
  "slow_mode_init =
     \<lparr>ss_owner = \<lparr>sm_deadlines = [], sm_poisoned = False\<rparr>, ss_clock = 0, ss_pending = [], ss_committed = []\<rparr>"

fun admitted_reservations :: "ServerError + SlowModeMonotonicAdmission \<Rightarrow> SlowModeReservation list" where
  "admitted_reservations (Inr (SmAdmitted r)) = [r]"
| "admitted_reservations _ = []"

inductive slow_step :: "SlowModeOwnerLimits \<Rightarrow> SlowModeSystem \<Rightarrow> SlowModeSystem \<Rightarrow> bool"
  for lim where
  reserve:
    "ss_clock s \<le> now \<Longrightarrow> reserve_with_limits room_id user_id seconds now lim (ss_owner s) = (res, owner)
     \<Longrightarrow> slow_step lim s (s\<lparr>ss_owner := owner, ss_clock := now,
           ss_pending := admitted_reservations res @ ss_pending s\<rparr>)"
| commit:
    "ss_pending s = xs @ r # ys
     \<Longrightarrow> slow_step lim s (s\<lparr>ss_owner := slow_mode_commit r (ss_owner s), ss_pending := xs @ ys,
           ss_committed := r # ss_committed s\<rparr>)"
| rollback:
    "ss_pending s = xs @ r # ys
     \<Longrightarrow> slow_step lim s (s\<lparr>ss_owner := slow_mode_drop r (ss_owner s), ss_pending := xs @ ys\<rparr>)"
| poison:
    "slow_step lim s (s\<lparr>ss_owner := (ss_owner s)\<lparr>sm_poisoned := True\<rparr>\<rparr>)"

definition slow_reachable :: "SlowModeOwnerLimits \<Rightarrow> SlowModeSystem \<Rightarrow> bool" where
  "slow_reachable lim s \<longleftrightarrow> (slow_step lim)\<^sup>*\<^sup>* slow_mode_init s"

text \<open>The admissions that were not given back.\<close>

definition slow_live :: "SlowModeSystem \<Rightarrow> SlowModeReservation list" where
  "slow_live s = ss_pending s @ ss_committed s"

definition deadlines_ok :: "SlowModeOwnerLimits \<Rightarrow> SlowModeDeadlines \<Rightarrow> bool" where
  "deadlines_ok lim m \<longleftrightarrow> bt_ok m \<and> length m \<le> sl_global lim
     \<and> (\<forall>room. bt_count (\<lambda>(r, _) _. r = room) m \<le> sl_per_room lim)
     \<and> (\<forall>k d. bt_get m k = Some d \<longrightarrow> fst k \<noteq> 0 \<and> snd k \<noteq> 0)"

definition one_per_key :: "Instant \<Rightarrow> SlowModeReservation list \<Rightarrow> bool" where
  "one_per_key t rs \<longleftrightarrow> distinct (map sr_key (filter (\<lambda>r. t < sr_reserved_deadline r) rs))"

definition slow_inv :: "SlowModeOwnerLimits \<Rightarrow> SlowModeSystem \<Rightarrow> bool" where
  "slow_inv lim s \<longleftrightarrow>
     deadlines_ok lim (sm_deadlines (ss_owner s))
     \<and> (\<forall>r\<in>set (slow_live s). ss_clock s < sr_reserved_deadline r \<longrightarrow>
          bt_get (sm_deadlines (ss_owner s)) (sr_key r) = Some (sr_reserved_deadline r))
     \<and> one_per_key (ss_clock s) (slow_live s)
     \<and> (\<forall>r\<in>set (ss_pending s). sr_prior_deadline r = None)"

section \<open>Pruning and the deadline map\<close>

lemma slow_mode_prune_retain:
  "slow_mode_prune batch now m =
     bt_retain (\<lambda>k _. k \<notin> set (take batch (map fst (filter (\<lambda>(_, d). d \<le> now) m)))) m"
  by (simp add: slow_mode_prune_def bt_remove_all_retain)

lemma slow_mode_prune_keeps:
  assumes "bt_ok m" "bt_get m k = Some d" "now < d"
  shows "bt_get (slow_mode_prune batch now m) k = Some d"
proof -
  have "(k, d') \<in> set m \<Longrightarrow> d' = d" for d'
    using assms(1,2) by (metis bt_get_eq_Some option.inject)
  then have "k \<notin> set (take batch (map fst (filter (\<lambda>(_, d). d \<le> now) m)))"
    using assms(3) by (auto dest!: in_set_takeD)
  then show ?thesis using assms by (simp add: slow_mode_prune_retain bt_get_retain)
qed

lemma slow_mode_prune_all:
  assumes "bt_ok m" "bt_count (\<lambda>_ d. d \<le> now) m \<le> batch"
  shows "slow_mode_prune batch now m = bt_retain (\<lambda>_ d. now < d) m"
proof -
  have "(k, d) \<in> set m \<Longrightarrow> (k, d') \<in> set m \<Longrightarrow> d = d'" for k d d'
    using assms(1) by (metis bt_get_eq_Some option.inject)
  then show ?thesis
    using assms(2) unfolding slow_mode_prune_retain
    by (auto simp: bt_count_def bt_retain_def case_prod_unfold image_iff not_le intro!: filter_cong)
      (metis leD prod.collapse)+
qed

lemma deadlines_ok_retain: "deadlines_ok lim m \<Longrightarrow> deadlines_ok lim (bt_retain p m)"
  unfolding deadlines_ok_def
  by (meson bt.cnt_ret_le bt_get_retain bt_ok_retain length_bt_retain order_trans)

lemma deadlines_ok_insert:
  assumes "deadlines_ok lim m" "fst k \<noteq> 0" "snd k \<noteq> 0"
    and "length m < sl_global lim" "bt_count (\<lambda>(r, _) _. r = fst k) m < sl_per_room lim"
  shows "deadlines_ok lim (bt_insert k d m)"
proof -
  have ok: "bt_ok m" using assms(1) by (simp add: deadlines_ok_def)
  have "bt_count (\<lambda>(r, _) _. r = room) (bt_insert k d m) \<le> sl_per_room lim" for room
    using bt.cnt_ins_le [OF ok, of "\<lambda>(r, _) _. r = room" k d] assms(1,5)
    by (cases "fst k = room") (auto simp: deadlines_ok_def case_prod_unfold elim!: le_trans)
  then show ?thesis
    using assms length_bt_insert [OF ok, of k d] ok
    by (auto simp: deadlines_ok_def bt_ok_insert bt_get_insert)
qed

lemmas deadlines_ok_ops = deadlines_ok_retain deadlines_ok_insert

lemma deadlines_ok_remove: "deadlines_ok lim m \<Longrightarrow> deadlines_ok lim (bt_remove k m)"
  by (simp add: bt_remove_def deadlines_ok_retain)

section \<open>What one reservation does\<close>

lemma reserve_cases:
  assumes "reserve_with_limits room_id user_id seconds now lim owner = (res, owner')"
  obtains (unchanged) "owner' = owner" "admitted_reservations res = []"
  | (slot) "room_id \<noteq> 0" "user_id \<noteq> 0" "seconds \<noteq> 0" "seconds \<le> ROOM_SLOW_MODE_MAX_SECONDS"
      "\<not> sm_poisoned owner"
      "\<forall>d. bt_get (sm_deadlines owner) (room_id, user_id) = Some d \<longrightarrow> d \<le> now"
      "reserve_slot (room_id, user_id) seconds now lim owner
         (bt_remove (room_id, user_id) (sm_deadlines owner)) = (res, owner')"
  using assms
  by (auto simp: reserve_with_limits_def Let_def bt_remove_absent not_less
      split: if_splits option.splits)

lemma reserve_slot_effect:
  assumes "reserve_slot key seconds now lim owner m = (res, owner')"
    and "deadlines_ok lim m" "fst key \<noteq> 0" "snd key \<noteq> 0" "seconds \<noteq> 0" "bt_get m key = None"
  shows "deadlines_ok lim (sm_deadlines owner')"
    and "k \<noteq> key \<Longrightarrow> now < d \<Longrightarrow> bt_get m k = Some d \<Longrightarrow> bt_get (sm_deadlines owner') k = Some d"
    and "r \<in> set (admitted_reservations res) \<Longrightarrow>
      sr_key r = key \<and> sr_prior_deadline r = None \<and> sr_active r \<and> admitted_reservations res = [r]
      \<and> sr_reserved_deadline r = now + unat seconds * NANOS_PER_SEC
      \<and> now < sr_reserved_deadline r
      \<and> bt_get (sm_deadlines owner') key = Some (sr_reserved_deadline r)"
proof -
  let ?m = "slow_mode_prune (sl_prune_batch lim) now m"
  have ok: "bt_ok m" using assms(2) by (simp add: deadlines_ok_def)
  have pr: "deadlines_ok lim ?m" "bt_ok ?m"
    using assms(2) ok by (simp_all add: slow_mode_prune_retain deadlines_ok_retain bt_ok_retain)
  have none: "bt_get ?m key = None"
    using assms(6) bt_get_retain [OF ok] by (cases "bt_get ?m key") (auto simp: slow_mode_prune_retain)
  have sec: "0 < unat seconds * NANOS_PER_SEC"
    using assms(5) by (simp add: NANOS_PER_SEC_def unat_gt_0)
  note defs = reserve_slot_def Let_def instant_checked_add_def
  show "deadlines_ok lim (sm_deadlines owner')"
    using assms(1,3,4) pr by (auto simp: defs split: if_splits intro!: deadlines_ok_insert)
  show "bt_get (sm_deadlines owner') k = Some d" if "k \<noteq> key" "now < d" "bt_get m k = Some d"
    using assms(1) pr(2) slow_mode_prune_keeps [OF ok that(3,2)] that(1)
    by (auto simp: defs bt_get_insert split: if_splits)
  show "sr_key r = key \<and> sr_prior_deadline r = None \<and> sr_active r \<and> admitted_reservations res = [r]
      \<and> sr_reserved_deadline r = now + unat seconds * NANOS_PER_SEC
      \<and> now < sr_reserved_deadline r
      \<and> bt_get (sm_deadlines owner') key = Some (sr_reserved_deadline r)"
    if "r \<in> set (admitted_reservations res)"
    using assms(1) pr(2) none sec that by (auto simp: defs bt_get_insert split: if_splits)
qed

lemma retry_after_seconds_bounds:
  "1 \<le> retry_after_seconds deadline now \<and> retry_after_seconds deadline now \<le> ROOM_SLOW_MODE_MAX_SECONDS"
proof -
  have "1 \<le> ROOM_SLOW_MODE_MAX_SECONDS" by (simp add: ROOM_SLOW_MODE_MAX_SECONDS_def)
  then have "1 \<le> max 1 (min x ROOM_SLOW_MODE_MAX_SECONDS) \<and> max 1 (min x ROOM_SLOW_MODE_MAX_SECONDS) \<le> ROOM_SLOW_MODE_MAX_SECONDS"
    for x by (simp add: max_def min_def)
  then show ?thesis unfolding retry_after_seconds_def Let_def by blast
qed

section \<open>The invariant of the system\<close>

lemma slow_inv_init: "slow_inv lim slow_mode_init"
  by (simp add: slow_inv_def slow_mode_init_def slow_live_def deadlines_ok_def bt_count_def one_per_key_def)

lemma one_per_key_simps [simp]:
  "one_per_key t []"
  "one_per_key t (r # rs) \<longleftrightarrow> one_per_key t rs
     \<and> (t < sr_reserved_deadline r \<longrightarrow> (\<forall>q\<in>set rs. t < sr_reserved_deadline q \<longrightarrow> sr_key q \<noteq> sr_key r))"
  by (auto simp: one_per_key_def image_iff)

lemma one_per_key_mset: "mset rs = mset qs \<Longrightarrow> one_per_key t rs = one_per_key t qs"
  unfolding one_per_key_def by (metis mset_eq_imp_distinct_iff mset_filter mset_map)

text \<open>Time passing only shortens the list of unexpired admissions.\<close>

lemma one_per_key_later: "one_per_key t rs \<Longrightarrow> t \<le> t' \<Longrightarrow> one_per_key t' rs"
  by (induction rs) auto

lemma slow_inv_reserve:
  assumes inv: "slow_inv lim s" and now: "ss_clock s \<le> now"
    and res: "reserve_with_limits room_id user_id seconds now lim (ss_owner s) = (res, owner)"
  shows "slow_inv lim (s\<lparr>ss_owner := owner, ss_clock := now,
    ss_pending := admitted_reservations res @ ss_pending s\<rparr>)"
proof -
  have dist: "one_per_key now (slow_live s)"
    using inv now by (auto simp: slow_inv_def intro: one_per_key_later)
  show ?thesis using res
  proof (cases rule: reserve_cases)
    case unchanged
    then show ?thesis using inv now dist by (auto simp: slow_inv_def slow_live_def)
  next
    case slot
    let ?key = "(room_id, user_id)" and ?m = "sm_deadlines (ss_owner s)"
    have ok: "deadlines_ok lim ?m" "bt_ok ?m" using inv by (simp_all add: slow_inv_def deadlines_ok_def)
    have "bt_get (bt_remove ?key ?m) ?key = None" using ok(2) by (simp add: bt_get_remove)
    note eff = reserve_slot_effect [OF slot(7) deadlines_ok_remove [OF ok(1)] _ _ slot(3) this]
    have old: "sr_key r \<noteq> ?key \<and> bt_get (sm_deadlines owner) (sr_key r) = Some (sr_reserved_deadline r)"
      if "r \<in> set (slow_live s)" "now < sr_reserved_deadline r" for r
    proof -
      have "bt_get ?m (sr_key r) = Some (sr_reserved_deadline r)"
        using inv now that by (auto simp: slow_inv_def)
      moreover from this slot(6) that(2) have "sr_key r \<noteq> ?key" by fastforce
      ultimately show ?thesis using eff(2) slot(1,2) that(2) ok(2) by (simp add: bt_get_remove)
    qed
    show ?thesis
    proof (cases "admitted_reservations res")
      case Nil
      then show ?thesis using inv old dist eff(1) slot(1,2) by (simp add: slow_inv_def slow_live_def)
    next
      case (Cons r rs)
      then have "r \<in> set (admitted_reservations res)" by simp
      note new = eff(3) [OF _ _ this]
      have live: "slow_live (s\<lparr>ss_owner := owner, ss_clock := now,
        ss_pending := admitted_reservations res @ ss_pending s\<rparr>) = r # slow_live s"
        using new slot(1,2) by (simp add: slow_live_def)
      show ?thesis
        unfolding slow_inv_def live
        using inv old dist eff(1) new slot(1,2) by (simp add: slow_inv_def)
    qed
  qed
qed

lemma slow_inv_commit:
  assumes "slow_inv lim s" "ss_pending s = xs @ r # ys"
  shows "slow_inv lim (s\<lparr>ss_owner := slow_mode_commit r (ss_owner s), ss_pending := xs @ ys,
    ss_committed := r # ss_committed s\<rparr>)"
  using assms one_per_key_mset [of "xs @ r # ys @ ss_committed s" "xs @ ys @ r # ss_committed s"]
  by (simp add: slow_inv_def slow_live_def slow_mode_commit_def slow_mode_drop_def ball_Un)

lemma slow_inv_rollback:
  assumes "slow_inv lim s" "ss_pending s = xs @ r # ys"
  shows "slow_inv lim (s\<lparr>ss_owner := slow_mode_drop r (ss_owner s), ss_pending := xs @ ys\<rparr>)"
proof -
  let ?m = "sm_deadlines (ss_owner s)" and ?rest = "xs @ ys @ ss_committed s"
  have ok: "deadlines_ok lim ?m" "bt_ok ?m"
    using assms(1) by (simp_all add: slow_inv_def deadlines_ok_def)
  have one: "one_per_key (ss_clock s) (r # ?rest)"
    using assms one_per_key_mset [of "r # ?rest" "slow_live s"] by (simp add: slow_inv_def slow_live_def)
  have held: "\<forall>q\<in>set (r # ?rest). ss_clock s < sr_reserved_deadline q \<longrightarrow>
      bt_get ?m (sr_key q) = Some (sr_reserved_deadline q)"
    using assms by (simp add: slow_inv_def slow_live_def ball_Un)
  have "sr_prior_deadline r = None" using assms by (simp add: slow_inv_def)
  then consider "slow_mode_drop r (ss_owner s) = ss_owner s"
    | "bt_get ?m (sr_key r) = Some (sr_reserved_deadline r)"
      "slow_mode_drop r (ss_owner s) = (ss_owner s)\<lparr>sm_deadlines := bt_remove (sr_key r) ?m\<rparr>"
    by (cases "sr_active r \<and> \<not> sm_poisoned (ss_owner s)
        \<and> bt_get ?m (sr_key r) = Some (sr_reserved_deadline r)") (auto simp: slow_mode_drop_def)
  then show ?thesis
  proof cases
    case 1
    then show ?thesis using assms one held by (simp add: slow_inv_def slow_live_def ball_Un)
  next
    case 2
    have "\<forall>q\<in>set ?rest. ss_clock s < sr_reserved_deadline q \<longrightarrow> sr_key q \<noteq> sr_key r"
    proof (intro ballI impI notI)
      fix q assume q: "q \<in> set ?rest" "ss_clock s < sr_reserved_deadline q" "sr_key q = sr_key r"
      then have "sr_reserved_deadline q = sr_reserved_deadline r" using held 2(1) by auto
      then show False using q one by auto
    qed
    then have "\<forall>q\<in>set ?rest. ss_clock s < sr_reserved_deadline q \<longrightarrow>
        bt_get (bt_remove (sr_key r) ?m) (sr_key q) = Some (sr_reserved_deadline q)"
      using held ok(2) by (simp add: bt_get_remove)
    then show ?thesis
      using assms 2(2) one ok(1) by (simp add: slow_inv_def slow_live_def deadlines_ok_remove)
  qed
qed

lemma slow_inv_step: "slow_step lim s s' \<Longrightarrow> slow_inv lim s \<Longrightarrow> slow_inv lim s'"
  by (induction rule: slow_step.induct)
    (simp_all add: slow_inv_reserve slow_inv_commit slow_inv_rollback, simp add: slow_inv_def slow_live_def)

lemma slow_inv_reachable: "slow_reachable lim s \<Longrightarrow> slow_inv lim s"
  unfolding slow_reachable_def by (induction rule: rtranclp_induct) (auto intro: slow_inv_init slow_inv_step)

section \<open>Properties\<close>

text \<open>
  C36: slow mode is enforced under every interleaving of reservations, commits, rollbacks and a
  poisoned lock: while an admission that was not rolled back is unexpired, no further publication of
  that user in that room is admitted. Each attempt before the deadline is rejected with a waiting
  time of 1 to 86,400 seconds and leaves the owner unchanged (or fails because the lock is poisoned).
\<close>

theorem slow_mode_spacing:
  assumes "slow_reachable lim s"
    and "r \<in> set (slow_live s)" "sr_key r = (room_id, user_id)"
    and "ss_clock s \<le> now" "now < sr_reserved_deadline r"
    and "0 < seconds" "seconds \<le> ROOM_SLOW_MODE_MAX_SECONDS"
  shows "reserve_with_limits room_id user_id seconds now lim (ss_owner s) =
    (if sm_poisoned (ss_owner s) then Inl (Message ''slow-mode deadline lock poisoned'')
     else Inr (SmRejected (retry_after_seconds (sr_reserved_deadline r) now)), ss_owner s)
    \<and> 1 \<le> retry_after_seconds (sr_reserved_deadline r) now
    \<and> retry_after_seconds (sr_reserved_deadline r) now \<le> ROOM_SLOW_MODE_MAX_SECONDS"
proof -
  have inv: "slow_inv lim s" using assms(1) by (rule slow_inv_reachable)
  then have get: "bt_get (sm_deadlines (ss_owner s)) (room_id, user_id) = Some (sr_reserved_deadline r)"
    using assms(2-5) by (auto simp: slow_inv_def)
  then have "room_id \<noteq> 0" "user_id \<noteq> 0" using inv by (auto simp: slow_inv_def deadlines_ok_def)
  then show ?thesis
    using get assms(5-7) retry_after_seconds_bounds
    by (auto simp: reserve_with_limits_def Let_def not_less)
qed

theorem slow_mode_spacing_witness:
  "\<exists>s r. slow_reachable PRODUCTION_LIMITS s \<and> r \<in> set (slow_live s)
     \<and> fst (reserve_with_limits 3 7 30 5 PRODUCTION_LIMITS (ss_owner s)) = Inr (SmRejected 30)"
proof -
  let ?r = "\<lparr>sr_key = (3, 7), sr_prior_deadline = None, sr_reserved_deadline = 30000000000, sr_active = True\<rparr>"
  let ?o = "\<lparr>sm_deadlines = [((3, 7), 30000000000)], sm_poisoned = False\<rparr>"
  let ?s = "\<lparr>ss_owner = ?o, ss_clock = 0, ss_pending = [?r], ss_committed = []\<rparr>"
  have res: "reserve_with_limits 3 7 30 0 PRODUCTION_LIMITS (ss_owner slow_mode_init) = (Inr (SmAdmitted ?r), ?o)"
    by (simp add: reserve_with_limits_def reserve_slot_def slow_mode_init_def slow_mode_prune_def
        bt_remove_all_def bt_count_def instant_checked_add_def PRODUCTION_LIMITS_def NANOS_PER_SEC_def
        SLOW_MODE_ADMISSION_MAX_PER_ROOM_def SLOW_MODE_ADMISSION_MAX_GLOBAL_def ROOM_SLOW_MODE_MAX_SECONDS_def
        Let_def)
  from slow_step.reserve [OF _ this] have "slow_step PRODUCTION_LIMITS slow_mode_init ?s"
    by (simp add: slow_mode_init_def)
  then have "slow_reachable PRODUCTION_LIMITS ?s" by (auto simp: slow_reachable_def)
  moreover have "?r \<in> set (slow_live ?s)" by (simp add: slow_live_def)
  moreover have "retry_after_seconds 30000000000 5 = 30"
    by (simp add: retry_after_seconds_def NANOS_PER_SEC_def ROOM_SLOW_MODE_MAX_SECONDS_def)
  ultimately show ?thesis
    using slow_mode_spacing [of PRODUCTION_LIMITS ?s ?r 3 7 5 30]
    by (auto simp: ROOM_SLOW_MODE_MAX_SECONDS_def)
qed

text \<open>
  the deadline map stays bounded. In every reachable state it holds at most the global limit of
  entries and at most the per-room limit for each room, its keys have no zero id, and every reservation
  that is still held restores nothing when it is dropped: its prior deadline is always absent.
\<close>

theorem slow_mode_bounded:
  assumes "slow_reachable lim s"
  shows "length (sm_deadlines (ss_owner s)) \<le> sl_global lim
    \<and> bt_count (\<lambda>(r, _) _. r = room_id) (sm_deadlines (ss_owner s)) \<le> sl_per_room lim
    \<and> (\<forall>k d. bt_get (sm_deadlines (ss_owner s)) k = Some d \<longrightarrow> fst k \<noteq> 0 \<and> snd k \<noteq> 0)
    \<and> sr_prior_deadline ` set (ss_pending s) \<subseteq> {None}"
  using slow_inv_reachable [OF assms] by (auto simp: slow_inv_def deadlines_ok_def)

theorem slow_mode_bounded_witness:
  "length (sm_deadlines (ss_owner slow_mode_init)) \<le> sl_global PRODUCTION_LIMITS"
  using slow_mode_bounded [of PRODUCTION_LIMITS slow_mode_init] by (simp add: slow_reachable_def)

text \<open>
  C37: slow mode never locks a user out for good. Once the user's own deadline has passed, the next
  attempt is admitted as soon as the unexpired entries leave room and the expired ones fit in one
  pruning batch, and it is reserved until exactly the requested number of seconds later.
\<close>

theorem slow_mode_admits:
  assumes "bt_ok (sm_deadlines owner)" "\<not> sm_poisoned owner"
    and "room_id \<noteq> 0" "user_id \<noteq> 0" "0 < seconds" "seconds \<le> ROOM_SLOW_MODE_MAX_SECONDS"
    and "\<forall>d. bt_get (sm_deadlines owner) (room_id, user_id) = Some d \<longrightarrow> d \<le> now"
    and "bt_count (\<lambda>(r, _) d. now < d \<and> r = room_id) (sm_deadlines owner) < sl_per_room lim"
    and "bt_count (\<lambda>_ d. now < d) (sm_deadlines owner) < sl_global lim"
    and "bt_count (\<lambda>_ d. d \<le> now) (sm_deadlines owner) \<le> sl_prune_batch lim"
    and "now + unat seconds * NANOS_PER_SEC < 2 ^ 63 * NANOS_PER_SEC"
  shows "\<exists>r owner'. reserve_with_limits room_id user_id seconds now lim owner = (Inr (SmAdmitted r), owner')
    \<and> sr_reserved_deadline r = now + unat seconds * NANOS_PER_SEC
    \<and> bt_get (sm_deadlines owner') (room_id, user_id) = Some (sr_reserved_deadline r)
    \<and> (\<forall>k d. k \<noteq> (room_id, user_id) \<longrightarrow>
         (bt_get (sm_deadlines owner') k = Some d \<longleftrightarrow> bt_get (sm_deadlines owner) k = Some d \<and> now < d))"
proof -
  let ?m = "sm_deadlines owner" and ?key = "(room_id, user_id)"
  let ?rem = "bt_remove ?key ?m"
  have ok: "bt_ok ?rem" using assms(1) by (rule bt_ok_remove)
  have "bt_count (\<lambda>_ d. d \<le> now) ?rem \<le> sl_prune_batch lim"
    using bt.cnt_ret_le [OF assms(1)] assms(10) le_trans unfolding bt_remove_def by blast
  then have pruned: "slow_mode_prune (sl_prune_batch lim) now ?rem = bt_retain (\<lambda>_ d. now < d) ?rem"
    by (rule slow_mode_prune_all [OF ok])
  let ?p = "bt_retain (\<lambda>_ d. now < d) ?rem"
  have "bt_count (\<lambda>(r, _) _. r = room_id) ?p < sl_per_room lim"
    using assms(8) bt.cnt_ret_le [OF assms(1), of "\<lambda>(r, _) d. now < d \<and> r = room_id" "\<lambda>k' _. k' \<noteq> ?key"]
    unfolding bt.cnt_ret [OF ok] unfolding bt_remove_def by (simp add: case_prod_unfold)
  moreover have "bt_count (\<lambda>_ _. True) ?p < sl_global lim"
    using assms(9) bt.cnt_ret_le [OF assms(1), of "\<lambda>_ d. now < d" "\<lambda>k' _. k' \<noteq> ?key"]
    unfolding bt.cnt_ret [OF ok] unfolding bt_remove_def by simp
  moreover have "reserve_with_limits room_id user_id seconds now lim owner
      = reserve_slot ?key seconds now lim owner ?rem"
    using assms(2-7) by (auto simp: reserve_with_limits_def Let_def bt_remove_absent split: option.split)
  ultimately show ?thesis
    using assms(11) ok assms(1)
    by (auto simp: reserve_slot_def pruned bt_count_True instant_checked_add_def Let_def
        bt_get_insert bt_ok_retain bt_get_retain bt_get_remove)
qed

theorem slow_mode_admits_witness:
  "\<exists>r owner'. reserve_with_limits 3 7 30 60 PRODUCTION_LIMITS
     \<lparr>sm_deadlines = [((3, 7), 50)], sm_poisoned = False\<rparr> = (Inr (SmAdmitted r), owner')"
  using slow_mode_admits [of "\<lparr>sm_deadlines = [((3, 7), 50)], sm_poisoned = False\<rparr>" 3 7 30 60 PRODUCTION_LIMITS]
  by (auto simp: bt_count_def PRODUCTION_LIMITS_def SLOW_MODE_ADMISSION_MAX_PER_ROOM_def NANOS_PER_SEC_def
      SLOW_MODE_ADMISSION_MAX_GLOBAL_def SLOW_MODE_ADMISSION_PRUNE_BATCH_def ROOM_SLOW_MODE_MAX_SECONDS_def)

end
