(* ===== verification/Rate_Limit.thy ===== *)
theory Rate_Limit
  imports Slow_Mode
begin

text \<open>
  The request rate limiter of a session engine (\<^verbatim>\<open>server/src/session.rs\<close>): one bucket per peer
  identity and kind of request, counting the admissions of a window of sixty seconds. A reservation
  counts at once and is taken back when the request fails. Reservations, commits and rollbacks of
  concurrent requests, a system clock that may jump, and a poisoned lock interleave freely in the step
  relation. Times and counters are natural numbers: the code only compares them and subtracts with
  saturation, and a count never exceeds its limit.
\<close>

datatype RateKind = RkMessage | RkCommand | RkNicknameColour

fun rate_kind_rank :: "RateKind \<Rightarrow> nat" where
  "rate_kind_rank RkMessage = 0"
| "rate_kind_rank RkCommand = 1"
| "rate_kind_rank RkNicknameColour = 2"

instantiation RateKind :: linorder
begin
definition less_eq_RateKind :: "RateKind \<Rightarrow> RateKind \<Rightarrow> bool" where
  "less_eq_RateKind a b \<longleftrightarrow> rate_kind_rank a \<le> rate_kind_rank b"
definition less_RateKind :: "RateKind \<Rightarrow> RateKind \<Rightarrow> bool" where
  "less_RateKind a b \<longleftrightarrow> rate_kind_rank a < rate_kind_rank b"
instance
proof
  fix a b c :: RateKind
  show "a \<le> b \<Longrightarrow> b \<le> a \<Longrightarrow> a = b"
    by (cases a; cases b) (simp_all add: less_eq_RateKind_def)
qed (auto simp: less_eq_RateKind_def less_RateKind_def)
end

record SessionLimits =
  history_batch_size :: nat
  join_backlog_events :: nat
  large_batch_threshold_bytes :: nat
  max_message_bytes :: nat
  rate_messages_per_minute :: nat
  rate_commands_per_minute :: nat
  upload_quota_bytes :: u64
  upload_max_file_bytes :: u64
  upload_cache_root :: "string option"
  ping_interval_seconds :: u64

definition session_limits_default :: SessionLimits where
  "session_limits_default =
     \<lparr>history_batch_size = 50, join_backlog_events = 50, large_batch_threshold_bytes = 4096,
      max_message_bytes = 2048, rate_messages_per_minute = 20, rate_commands_per_minute = 12,
      upload_quota_bytes = 50 * 1024 * 1024, upload_max_file_bytes = 512 * 1024,
      upload_cache_root = None, ping_interval_seconds = 30\<rparr>"

record RateBucket =
  rb_window_start :: nat
  rb_count :: nat

type_synonym RateKey = "bytes \<times> RateKind"

record RateBuckets =
  rl_buckets :: "(RateKey, RateBucket) btree_map"
  rl_poisoned :: bool

record RateReservation =
  rr_key :: RateKey
  rr_window_start :: nat
  rr_active :: bool

datatype RateAdmission = RateAdmitted "RateReservation option" | RateRejected

section \<open>Operations\<close>

definition rate_limit :: "SessionLimits \<Rightarrow> RateKind \<Rightarrow> nat" where
  "rate_limit limits kind =
     (case kind of
        RkMessage \<Rightarrow> rate_messages_per_minute limits
      | RkCommand \<Rightarrow> rate_commands_per_minute limits
      | RkNicknameColour \<Rightarrow> 6)"

definition rate_window :: "nat \<Rightarrow> RateBucket option \<Rightarrow> RateBucket" where
  "rate_window now entry =
     (let bucket = (case entry of Some bucket \<Rightarrow> bucket | None \<Rightarrow> \<lparr>rb_window_start = now, rb_count = 0\<rparr>) in
      if now - rb_window_start bucket \<ge> 60 then \<lparr>rb_window_start = now, rb_count = 0\<rparr> else bucket)"

definition reserve_rate ::
    "SessionLimits \<Rightarrow> bytes \<Rightarrow> RateKind \<Rightarrow> nat \<Rightarrow> RateBuckets \<Rightarrow> (ServerError + RateAdmission) \<times> RateBuckets" where
  "reserve_rate limits identity_hash kind now rl =
     (let limit = rate_limit limits kind in
      if limit = 0 then (Inr (RateAdmitted None), rl)
      else if rl_poisoned rl then (Inl (Message ''rate limiter lock poisoned''), rl)
      else
        let key = (identity_hash, kind);
            bucket = rate_window now (bt_get (rl_buckets rl) key) in
        if rb_count bucket \<ge> limit
        then (Inr RateRejected, rl\<lparr>rl_buckets := bt_insert key bucket (rl_buckets rl)\<rparr>)
        else
          (Inr (RateAdmitted (Some
             \<lparr>rr_key = key, rr_window_start = rb_window_start bucket, rr_active = True\<rparr>)),
           rl\<lparr>rl_buckets := bt_insert key (bucket\<lparr>rb_count := rb_count bucket + 1\<rparr>) (rl_buckets rl)\<rparr>))"

definition rate_drop :: "RateReservation \<Rightarrow> RateBuckets \<Rightarrow> RateBuckets" where
  "rate_drop r rl =
     (if \<not> rr_active r then rl
      else if rl_poisoned rl then rl
      else
        case bt_get (rl_buckets rl) (rr_key r) of
          None \<Rightarrow> rl
        | Some bucket \<Rightarrow>
            if rb_window_start bucket = rr_window_start r
            then rl\<lparr>rl_buckets :=
              bt_insert (rr_key r) (bucket\<lparr>rb_count := rb_count bucket - 1\<rparr>) (rl_buckets rl)\<rparr>
            else rl)"

definition rate_commit :: "RateReservation \<Rightarrow> RateBuckets \<Rightarrow> RateBuckets" where
  "rate_commit r rl = rate_drop (r\<lparr>rr_active := False\<rparr>) rl"

section \<open>The limiter with its reservations as a state machine\<close>

record RateSystem =
  rs_limiter :: RateBuckets
  rs_pending :: "RateReservation list"
  rs_committed :: "RateReservation list"

definition rate_init :: RateSystem where
  "rate_init = \<lparr>rs_limiter = \<lparr>rl_buckets = [], rl_poisoned = False\<rparr>, rs_pending = [], rs_committed = []\<rparr>"

fun admitted_rate :: "ServerError + RateAdmission \<Rightarrow> RateReservation list" where
  "admitted_rate (Inr (RateAdmitted (Some r))) = [r]"
| "admitted_rate _ = []"

inductive rate_step :: "SessionLimits \<Rightarrow> RateSystem \<Rightarrow> RateSystem \<Rightarrow> bool"
  for limits where
  reserve:
    "reserve_rate limits identity_hash kind now (rs_limiter s) = (res, rl)
     \<Longrightarrow> rate_step limits s (s\<lparr>rs_limiter := rl, rs_pending := admitted_rate res @ rs_pending s\<rparr>)"
| commit:
    "rs_pending s = xs @ r # ys
     \<Longrightarrow> rate_step limits s (s\<lparr>rs_limiter := rate_commit r (rs_limiter s), rs_pending := xs @ ys,
           rs_committed := r # rs_committed s\<rparr>)"
| rollback:
    "rs_pending s = xs @ r # ys
     \<Longrightarrow> rate_step limits s (s\<lparr>rs_limiter := rate_drop r (rs_limiter s), rs_pending := xs @ ys\<rparr>)"
| poison:
    "rate_step limits s (s\<lparr>rs_limiter := (rs_limiter s)\<lparr>rl_poisoned := True\<rparr>\<rparr>)"

definition rate_reachable :: "SessionLimits \<Rightarrow> RateSystem \<Rightarrow> bool" where
  "rate_reachable limits s \<longleftrightarrow> (rate_step limits)\<^sup>*\<^sup>* rate_init s"

definition rate_live :: "RateSystem \<Rightarrow> RateReservation list" where
  "rate_live s = rs_pending s @ rs_committed s"

text \<open>The admissions of a key in the window that starts at a given time.\<close>

definition in_window :: "RateKey \<Rightarrow> nat \<Rightarrow> RateReservation list \<Rightarrow> nat" where
  "in_window key w rs = length (filter (\<lambda>r. rr_key r = key \<and> rr_window_start r = w) rs)"

text \<open>
  The bucket of a key counts its admissions of the current window (at least, once the lock is
  poisoned and rollbacks are lost), older windows started at least sixty seconds earlier.
\<close>

definition rate_inv :: "SessionLimits \<Rightarrow> RateSystem \<Rightarrow> bool" where
  "rate_inv limits s \<longleftrightarrow>
     bt_ok (rl_buckets (rs_limiter s))
     \<and> (\<forall>key b. bt_get (rl_buckets (rs_limiter s)) key = Some b \<longrightarrow>
          rb_count b \<le> rate_limit limits (snd key)
          \<and> in_window key (rb_window_start b) (rate_live s) \<le> rb_count b
          \<and> (\<not> rl_poisoned (rs_limiter s) \<longrightarrow> in_window key (rb_window_start b) (rate_live s) = rb_count b))
     \<and> (\<forall>r\<in>set (rate_live s). \<exists>b. bt_get (rl_buckets (rs_limiter s)) (rr_key r) = Some b
          \<and> (rr_window_start r = rb_window_start b \<or> rr_window_start r + 60 \<le> rb_window_start b))
     \<and> (\<forall>key w. in_window key w (rate_live s) \<le> rate_limit limits (snd key))
     \<and> (\<forall>q\<in>set (rate_live s). \<forall>r\<in>set (rate_live s). rr_key q = rr_key r \<longrightarrow>
          rr_window_start q = rr_window_start r \<or> rr_window_start q + 60 \<le> rr_window_start r
          \<or> rr_window_start r + 60 \<le> rr_window_start q)
     \<and> (\<forall>r\<in>set (rs_pending s). rr_active r)"

section \<open>The invariant of the limiter\<close>

declare split_paired_All [simp del]

lemma in_window_simps [simp]:
  "in_window key w [] = 0"
  "in_window key w (r # rs) = of_bool (rr_key r = key \<and> rr_window_start r = w) + in_window key w rs"
  "in_window key w (qs @ rs) = in_window key w qs + in_window key w rs"
  by (simp_all add: in_window_def)

lemma in_window_eq_0: "in_window key w rs = 0 \<longleftrightarrow> (\<forall>r\<in>set rs. rr_key r = key \<longrightarrow> rr_window_start r \<noteq> w)"
  by (auto simp: in_window_def filter_empty_conv)

text \<open>
  What the invariant says of one key: \<open>b\<close> may be its bucket when the live admissions are \<open>rs\<close>.
\<close>

definition bucket_ok :: "SessionLimits \<Rightarrow> bool \<Rightarrow> RateKey \<Rightarrow> RateReservation list \<Rightarrow> RateBucket \<Rightarrow> bool" where
  "bucket_ok limits poisoned key rs b \<longleftrightarrow>
     rb_count b \<le> rate_limit limits (snd key)
     \<and> in_window key (rb_window_start b) rs \<le> rb_count b
     \<and> (\<not> poisoned \<longrightarrow> in_window key (rb_window_start b) rs = rb_count b)
     \<and> (\<forall>r\<in>set rs. rr_key r = key \<longrightarrow>
          rr_window_start r = rb_window_start b \<or> rr_window_start r + 60 \<le> rb_window_start b)"

definition windows_ok_for :: "SessionLimits \<Rightarrow> RateReservation list \<Rightarrow> bool" where
  "windows_ok_for limits rs \<longleftrightarrow>
     (\<forall>key w. in_window key w rs \<le> rate_limit limits (snd key))
     \<and> (\<forall>q\<in>set rs. \<forall>r\<in>set rs. rr_key q = rr_key r \<longrightarrow>
          rr_window_start q = rr_window_start r \<or> rr_window_start q + 60 \<le> rr_window_start r
          \<or> rr_window_start r + 60 \<le> rr_window_start q)"

lemma rate_inv_iff:
  "rate_inv limits s \<longleftrightarrow>
     bt_ok (rl_buckets (rs_limiter s))
     \<and> (\<forall>key b. bt_get (rl_buckets (rs_limiter s)) key = Some b \<longrightarrow>
          bucket_ok limits (rl_poisoned (rs_limiter s)) key (rate_live s) b)
     \<and> (\<forall>r\<in>set (rate_live s). bt_get (rl_buckets (rs_limiter s)) (rr_key r) \<noteq> None)
     \<and> windows_ok_for limits (rate_live s) \<and> (\<forall>r\<in>set (rs_pending s). rr_active r)"
  unfolding rate_inv_def bucket_ok_def windows_ok_for_def by fastforce

lemma rate_inv_init: "rate_inv limits rate_init"
  by (simp add: rate_inv_def rate_init_def rate_live_def)

text \<open>Opening a window: the bucket a reservation finds or creates is a proper bucket for its key.\<close>

lemma rate_window_ok:
  assumes "rate_inv limits s"
  shows "bucket_ok limits (rl_poisoned (rs_limiter s)) key (rate_live s)
    (rate_window now (bt_get (rl_buckets (rs_limiter s)) key))"
proof (cases "bt_get (rl_buckets (rs_limiter s)) key")
  case None
  then have "\<forall>r\<in>set (rate_live s). rr_key r \<noteq> key" using assms by (auto simp: rate_inv_iff)
  then show ?thesis using None by (auto simp: bucket_ok_def rate_window_def in_window_eq_0)
next
  case (Some b)
  then have b: "bucket_ok limits (rl_poisoned (rs_limiter s)) key (rate_live s) b"
    using assms by (simp add: rate_inv_iff)
  show ?thesis
  proof (cases "now - rb_window_start b \<ge> 60")
    case True
    then have "\<forall>r\<in>set (rate_live s). rr_key r = key \<longrightarrow> rr_window_start r + 60 \<le> now"
      using b by (fastforce simp: bucket_ok_def)
    then show ?thesis using Some True by (auto simp: bucket_ok_def rate_window_def in_window_eq_0)
  next
    case False
    then show ?thesis using Some b by (simp add: rate_window_def)
  qed
qed

lemma rate_inv_set_bucket:
  assumes "rate_inv limits s" "bucket_ok limits (rl_poisoned (rs_limiter s)) key (rate_live s) b"
  shows "rate_inv limits (s\<lparr>rs_limiter := (rs_limiter s)\<lparr>rl_buckets := bt_insert key b (rl_buckets (rs_limiter s))\<rparr>\<rparr>)"
  using assms by (auto simp: rate_inv_iff rate_live_def bt_laws)

lemma rate_inv_admit:
  assumes inv: "rate_inv limits s" and b: "bucket_ok limits (rl_poisoned (rs_limiter s)) key (rate_live s) b"
    and "rb_count b < rate_limit limits (snd key)" "\<not> rl_poisoned (rs_limiter s)"
  shows "rate_inv limits (s\<lparr>rs_limiter := (rs_limiter s)\<lparr>rl_buckets :=
      bt_insert key (b\<lparr>rb_count := rb_count b + 1\<rparr>) (rl_buckets (rs_limiter s))\<rparr>,
    rs_pending := \<lparr>rr_key = key, rr_window_start = rb_window_start b, rr_active = True\<rparr> # rs_pending s\<rparr>)"
proof -
  let ?r = "\<lparr>rr_key = key, rr_window_start = rb_window_start b, rr_active = True\<rparr>"
  have other: "bucket_ok limits False k (?r # rate_live s) c"
    if "bucket_ok limits False k (rate_live s) c" "k \<noteq> key" for k c
    using that by (simp add: bucket_ok_def)
  have own: "bucket_ok limits False key (?r # rate_live s) (b\<lparr>rb_count := rb_count b + 1\<rparr>)"
    using b assms(3,4) by (simp add: bucket_ok_def)
  have "windows_ok_for limits (?r # rate_live s)"
    unfolding windows_ok_for_def
  proof (intro conjI allI ballI impI)
    fix k w
    show "in_window k w (?r # rate_live s) \<le> rate_limit limits (snd k)"
      using inv b assms(3,4) by (auto simp: rate_inv_iff windows_ok_for_def bucket_ok_def)
  next
    fix q r assume "q \<in> set (?r # rate_live s)" "r \<in> set (?r # rate_live s)" "rr_key q = rr_key r"
    then show "rr_window_start q = rr_window_start r \<or> rr_window_start q + 60 \<le> rr_window_start r
        \<or> rr_window_start r + 60 \<le> rr_window_start q"
      using inv b by (auto simp: rate_inv_iff windows_ok_for_def bucket_ok_def)
  qed
  then show ?thesis
    using inv own other assms(4) by (auto simp: rate_inv_iff rate_live_def bt_laws)
qed

lemma rate_inv_reserve:
  assumes "rate_inv limits s" "reserve_rate limits identity_hash kind now (rs_limiter s) = (res, rl)"
  shows "rate_inv limits (s\<lparr>rs_limiter := rl, rs_pending := admitted_rate res @ rs_pending s\<rparr>)"
proof -
  let ?key = "(identity_hash, kind)"
  let ?b = "rate_window now (bt_get (rl_buckets (rs_limiter s)) ?key)"
  note b = rate_window_ok [OF assms(1), of ?key now]
  consider "rl = rs_limiter s" "admitted_rate res = []"
    | "rl = (rs_limiter s)\<lparr>rl_buckets := bt_insert ?key ?b (rl_buckets (rs_limiter s))\<rparr>" "admitted_rate res = []"
    | "rl = (rs_limiter s)\<lparr>rl_buckets := bt_insert ?key (?b\<lparr>rb_count := rb_count ?b + 1\<rparr>) (rl_buckets (rs_limiter s))\<rparr>"
      "admitted_rate res = [\<lparr>rr_key = ?key, rr_window_start = rb_window_start ?b, rr_active = True\<rparr>]"
      "rb_count ?b < rate_limit limits kind" "\<not> rl_poisoned (rs_limiter s)"
    using assms(2) by (auto simp: reserve_rate_def Let_def split: if_splits)
  then show ?thesis
  proof cases
    case 1
    then show ?thesis using assms(1) by simp
  next
    case 2
    then show ?thesis using rate_inv_set_bucket [OF assms(1) b] by simp
  next
    case 3
    then show ?thesis using rate_inv_admit [OF assms(1) b] by simp
  qed
qed

text \<open>Live admissions may change places, and lose one that its bucket does not count.\<close>

lemma in_window_mset: "mset rs = mset qs \<Longrightarrow> in_window key w rs = in_window key w qs"
  by (metis in_window_def mset_filter size_mset)

lemma bucket_ok_mset:
  "mset rs = mset qs \<Longrightarrow> bucket_ok limits poisoned key rs b = bucket_ok limits poisoned key qs b"
  using mset_eq_setD [of rs qs] by (simp add: bucket_ok_def in_window_mset [of rs qs])

lemma windows_ok_for_mset: "mset rs = mset qs \<Longrightarrow> windows_ok_for limits rs = windows_ok_for limits qs"
  using mset_eq_setD [of rs qs] by (simp add: windows_ok_for_def in_window_mset [of rs qs])

lemma windows_ok_for_less: "windows_ok_for limits (r # rs) \<Longrightarrow> windows_ok_for limits rs"
  by (simp add: windows_ok_for_def) (meson add_leE)

lemma bucket_ok_less:
  "bucket_ok limits poisoned key (r # rs) b \<Longrightarrow>
     poisoned \<or> rr_key r \<noteq> key \<or> rr_window_start r \<noteq> rb_window_start b \<Longrightarrow> bucket_ok limits poisoned key rs b"
  by (auto simp: bucket_ok_def split: if_splits)

lemma rate_inv_commit:
  assumes "rate_inv limits s" "rs_pending s = xs @ r # ys"
  shows "rate_inv limits (s\<lparr>rs_limiter := rate_commit r (rs_limiter s), rs_pending := xs @ ys,
    rs_committed := r # rs_committed s\<rparr>)"
  using assms bucket_ok_mset [of "xs @ r # ys @ rs_committed s" "xs @ ys @ r # rs_committed s"]
    windows_ok_for_mset [of "xs @ r # ys @ rs_committed s" "xs @ ys @ r # rs_committed s"]
  by (simp add: rate_inv_iff rate_live_def rate_commit_def rate_drop_def ball_Un)

lemma rate_inv_rollback:
  assumes "rate_inv limits s" "rs_pending s = xs @ r # ys"
  shows "rate_inv limits (s\<lparr>rs_limiter := rate_drop r (rs_limiter s), rs_pending := xs @ ys\<rparr>)"
proof -
  let ?rest = "xs @ ys @ rs_committed s" and ?m = "rl_buckets (rs_limiter s)" and ?p = "rl_poisoned (rs_limiter s)"
  have m: "mset (rate_live s) = mset (r # ?rest)" using assms(2) by (simp add: rate_live_def)
  have ok: "bt_ok ?m" "\<forall>q\<in>set (r # ?rest). bt_get ?m (rr_key q) \<noteq> None" "rr_active r"
    using assms by (auto simp: rate_inv_iff rate_live_def)
  have bs: "bt_get ?m k = Some c \<Longrightarrow> bucket_ok limits ?p k (r # ?rest) c" for k c
    using assms(1) bucket_ok_mset [OF m] by (simp add: rate_inv_iff)
  have ws: "windows_ok_for limits ?rest"
    using assms(1) windows_ok_for_mset [OF m] by (auto simp: rate_inv_iff intro: windows_ok_for_less)
  obtain b where b: "bt_get ?m (rr_key r) = Some b" using ok(2) by auto
  have pend: "\<forall>q\<in>set (xs @ ys). rr_active q" using assms by (simp add: rate_inv_iff)
  show ?thesis
  proof (cases "\<not> ?p \<and> rb_window_start b = rr_window_start r")
    case True
    have "bucket_ok limits ?p (rr_key r) ?rest (b\<lparr>rb_count := rb_count b - 1\<rparr>)"
      using bs [OF b] True by (auto simp: bucket_ok_def)
    moreover have "bucket_ok limits ?p k ?rest c" if "k \<noteq> rr_key r" "bt_get ?m k = Some c" for k c
      using bucket_ok_less [OF bs [OF that(2)]] that(1) by auto
    ultimately show ?thesis
      using b True ok ws pend by (auto simp: rate_inv_iff rate_live_def rate_drop_def bt_laws)
  next
    case False
    then have "rate_drop r (rs_limiter s) = rs_limiter s" using b by (auto simp: rate_drop_def)
    moreover have "bucket_ok limits ?p k ?rest c" if "bt_get ?m k = Some c" for k c
    proof (rule bucket_ok_less [OF bs [OF that]])
      show "?p \<or> rr_key r \<noteq> k \<or> rr_window_start r \<noteq> rb_window_start c"
        using that b False by auto
    qed
    ultimately show ?thesis using ok ws pend by (simp add: rate_inv_iff rate_live_def)
  qed
qed

lemma rate_inv_step: "rate_step limits s s' \<Longrightarrow> rate_inv limits s \<Longrightarrow> rate_inv limits s'"
  by (induction rule: rate_step.induct)
    (simp_all add: rate_inv_reserve rate_inv_commit rate_inv_rollback, simp add: rate_inv_def rate_live_def)

lemma rate_inv_reachable: "rate_reachable limits s \<Longrightarrow> rate_inv limits s"
  unfolding rate_reachable_def by (induction rule: rtranclp_induct) (auto intro: rate_inv_init rate_inv_step)

section \<open>Properties\<close>



end
