(* ===== verification/Pending_Stores.thy ===== *)
theory Pending_Stores
  imports Rate_Limit
begin

text \<open>
  The bounded stores of a session engine (\<^verbatim>\<open>server/src/session.rs\<close>): payloads waiting to be fetched
  (\<^verbatim>\<open>PendingResourceStore\<close>) and uploads that were offered and accepted but have not arrived
  (\<^verbatim>\<open>PendingUploadStore\<close>). Both are keyed by resource id; the first accounts for the bytes it
  retains, the second expires entries after six hours and keeps every peer to its own entries.
\<close>

definition PENDING_RESOURCE_MAX_ITEMS :: nat where "PENDING_RESOURCE_MAX_ITEMS = 64"
definition PENDING_RESOURCE_MAX_BYTES :: nat where "PENDING_RESOURCE_MAX_BYTES = 16 * 1024 * 1024"
definition PENDING_RESOURCE_MAX_ENTRY_BYTES :: nat where
  "PENDING_RESOURCE_MAX_ENTRY_BYTES = 4 * 1024 * 1024"
definition PENDING_UPLOAD_MAX_ITEMS :: nat where "PENDING_UPLOAD_MAX_ITEMS = 256"
definition PENDING_UPLOAD_MAX_ITEMS_PER_IDENTITY :: nat where
  "PENDING_UPLOAD_MAX_ITEMS_PER_IDENTITY = 8"
definition PENDING_UPLOAD_TTL_SECONDS :: nat where "PENDING_UPLOAD_TTL_SECONDS = 6 * 60 * 60"

section \<open>Payloads waiting to be fetched\<close>

record PendingResourceStore =
  pr_entries :: "(string, bytes) btree_map"
  pr_retained_bytes :: nat
  pr_rejected :: nat

definition pending_resource_default :: PendingResourceStore where
  "pending_resource_default = \<lparr>pr_entries = [], pr_retained_bytes = 0, pr_rejected = 0\<rparr>"

definition pending_resource_message :: "nat \<Rightarrow> nat \<Rightarrow> nat \<Rightarrow> string" where
  "pending_resource_message projected_items projected_bytes payload_bytes =
     ''pending resource admission rejected: items='' @ show_nat projected_items
     @ ''/'' @ show_nat PENDING_RESOURCE_MAX_ITEMS @ '' bytes='' @ show_nat projected_bytes
     @ ''/'' @ show_nat PENDING_RESOURCE_MAX_BYTES @ '' entry_bytes='' @ show_nat payload_bytes
     @ ''/'' @ show_nat PENDING_RESOURCE_MAX_ENTRY_BYTES"

definition pending_resource_insert ::
    "string \<Rightarrow> bytes \<Rightarrow> PendingResourceStore \<Rightarrow> (ServerError + unit) \<times> PendingResourceStore" where
  "pending_resource_insert resource_id payload st =
     (let payload_bytes = length payload;
          existing = bt_get (pr_entries st) resource_id;
          replaced_bytes = (case existing of Some old \<Rightarrow> length old | None \<Rightarrow> 0);
          projected_items = length (pr_entries st) + (if existing = None then 1 else 0);
          projected_bytes = usize_saturating_add (pr_retained_bytes st - replaced_bytes) payload_bytes in
      if payload_bytes > PENDING_RESOURCE_MAX_ENTRY_BYTES
         \<or> projected_items > PENDING_RESOURCE_MAX_ITEMS \<or> projected_bytes > PENDING_RESOURCE_MAX_BYTES
      then (Inl (Message (pending_resource_message projected_items projected_bytes payload_bytes)),
            st\<lparr>pr_rejected := usize_saturating_add (pr_rejected st) 1\<rparr>)
      else (Inr (), st\<lparr>pr_entries := bt_insert resource_id payload (pr_entries st),
                      pr_retained_bytes := projected_bytes\<rparr>))"

definition pending_resource_get :: "string \<Rightarrow> PendingResourceStore \<Rightarrow> bytes option" where
  "pending_resource_get resource_id st = bt_get (pr_entries st) resource_id"

definition pending_resource_take ::
    "string \<Rightarrow> PendingResourceStore \<Rightarrow> bytes option \<times> PendingResourceStore" where
  "pending_resource_take resource_id st =
     (case bt_get (pr_entries st) resource_id of
        None \<Rightarrow> (None, st)
      | Some payload \<Rightarrow>
          (Some payload, st\<lparr>pr_entries := bt_remove resource_id (pr_entries st),
                           pr_retained_bytes := pr_retained_bytes st - length payload\<rparr>))"

text \<open>The byte account is the total size of the entries, and every limit is respected.\<close>

definition retained :: "(string, bytes) btree_map \<Rightarrow> nat" where
  "retained m = sum_list (map (length \<circ> snd) m)"

definition pending_resource_ok :: "PendingResourceStore \<Rightarrow> bool" where
  "pending_resource_ok st \<longleftrightarrow>
     bt_ok (pr_entries st) \<and> length (pr_entries st) \<le> PENDING_RESOURCE_MAX_ITEMS
     \<and> pr_retained_bytes st = retained (pr_entries st)
     \<and> pr_retained_bytes st \<le> PENDING_RESOURCE_MAX_BYTES
     \<and> (\<forall>rid payload. bt_get (pr_entries st) rid = Some payload \<longrightarrow>
          length payload \<le> PENDING_RESOURCE_MAX_ENTRY_BYTES)"

text \<open>The abstract store: a partial map with the two operations a client sees.\<close>

definition abs_resources :: "PendingResourceStore \<Rightarrow> string \<Rightarrow> bytes option" where
  "abs_resources st = bt_get (pr_entries st)"

section \<open>Offered uploads\<close>

record PendingUpload =
  pu_identity_hash :: bytes
  pu_room_id :: RoomId
  pu_user_id :: u32
  pu_filename :: string
  pu_content_type :: "string option"
  pu_incoming_bytes :: u64
  pu_accepted_at :: nat

record PendingUploadStore =
  pu_entries :: "(string, PendingUpload) btree_map"
  pu_rejected :: nat
  pu_expired :: nat

definition pending_upload_default :: PendingUploadStore where
  "pending_upload_default = \<lparr>pu_entries = [], pu_rejected = 0, pu_expired = 0\<rparr>"

datatype PendingUploadTake = Found PendingUpload | NotFound | IdentityMismatch

datatype PendingUploadFailureMatch = Released | Unmatched | Ambiguous

definition pending_upload_fresh :: "nat \<Rightarrow> PendingUpload \<Rightarrow> bool" where
  "pending_upload_fresh now upload \<longleftrightarrow> now - pu_accepted_at upload < PENDING_UPLOAD_TTL_SECONDS"

definition purge_expired :: "nat \<Rightarrow> PendingUploadStore \<Rightarrow> PendingUploadStore" where
  "purge_expired now st =
     (let before = length (pu_entries st);
          entries = bt_retain (\<lambda>_ upload. pending_upload_fresh now upload) (pu_entries st) in
      st\<lparr>pu_entries := entries,
         pu_expired := usize_saturating_add (pu_expired st) (before - length entries)\<rparr>)"

definition get_for_identity ::
    "string \<Rightarrow> bytes \<Rightarrow> nat \<Rightarrow> PendingUploadStore \<Rightarrow> PendingUpload option \<times> PendingUploadStore" where
  "get_for_identity resource_id identity_hash now st =
     (let st = purge_expired now st in
      (case bt_get (pu_entries st) resource_id of
         Some upload \<Rightarrow> if pu_identity_hash upload = identity_hash then Some upload else None
       | None \<Rightarrow> None, st))"

definition pending_upload_insert ::
    "string \<Rightarrow> PendingUpload \<Rightarrow> nat \<Rightarrow> PendingUploadStore \<Rightarrow> bool \<times> PendingUploadStore" where
  "pending_upload_insert resource_id upload now st =
     (let st = purge_expired now st;
          reject = (False, st\<lparr>pu_rejected := usize_saturating_add (pu_rejected st) 1\<rparr>);
          accept = (True, st\<lparr>pu_entries := bt_insert resource_id upload (pu_entries st)\<rparr>) in
      case bt_get (pu_entries st) resource_id of
        Some existing \<Rightarrow>
          if pu_identity_hash existing \<noteq> pu_identity_hash upload then reject else accept
      | None \<Rightarrow>
          let identity_items =
            bt_count (\<lambda>_ entry. pu_identity_hash entry = pu_identity_hash upload) (pu_entries st) in
          if length (pu_entries st) \<ge> PENDING_UPLOAD_MAX_ITEMS
             \<or> identity_items \<ge> PENDING_UPLOAD_MAX_ITEMS_PER_IDENTITY
          then reject else accept)"

definition take_for_identity ::
    "string \<Rightarrow> bytes \<Rightarrow> nat \<Rightarrow> PendingUploadStore \<Rightarrow> PendingUploadTake \<times> PendingUploadStore" where
  "take_for_identity resource_id identity_hash now st =
     (let st = purge_expired now st in
      case bt_get (pu_entries st) resource_id of
        None \<Rightarrow> (NotFound, st)
      | Some upload \<Rightarrow>
          if pu_identity_hash upload \<noteq> identity_hash then (IdentityMismatch, st)
          else (Found upload, st\<lparr>pu_entries := bt_remove resource_id (pu_entries st)\<rparr>))"

definition remove_identity :: "bytes \<Rightarrow> nat \<Rightarrow> PendingUploadStore \<Rightarrow> nat \<times> PendingUploadStore" where
  "remove_identity identity_hash now st =
     (let st = purge_expired now st;
          entries = bt_retain (\<lambda>_ upload. pu_identity_hash upload \<noteq> identity_hash) (pu_entries st) in
      (length (pu_entries st) - length entries, st\<lparr>pu_entries := entries\<rparr>))"

definition remove_unique_identity_size ::
    "bytes \<Rightarrow> u64 \<Rightarrow> nat \<Rightarrow> PendingUploadStore \<Rightarrow> PendingUploadFailureMatch \<times> PendingUploadStore" where
  "remove_unique_identity_size identity_hash expected_size now st =
     (let st = purge_expired now st;
          matches = map fst (filter (\<lambda>(_, upload). pu_identity_hash upload = identity_hash
            \<and> pu_incoming_bytes upload = expected_size) (pu_entries st)) in
      case matches of
        [] \<Rightarrow> (Unmatched, st)
      | [resource_id] \<Rightarrow> (Released, st\<lparr>pu_entries := bt_remove resource_id (pu_entries st)\<rparr>)
      | _ \<Rightarrow> (Ambiguous, st))"

definition pending_upload_metrics ::
    "nat \<Rightarrow> PendingUploadStore \<Rightarrow> (nat \<times> nat \<times> nat \<times> nat) \<times> PendingUploadStore" where
  "pending_upload_metrics now st =
     (let st = purge_expired now st in
      ((length (pu_entries st), card (set (map (pu_identity_hash \<circ> snd) (pu_entries st))),
        pu_rejected st, pu_expired st), st))"

text \<open>The store under any sequence of these operations, at any times.\<close>

datatype PendingUploadOp =
    OpInsert string PendingUpload
  | OpGet string bytes
  | OpTake string bytes
  | OpRemoveIdentity bytes
  | OpRemoveUnique bytes u64
  | OpMetrics

primrec pending_upload_apply :: "nat \<Rightarrow> PendingUploadOp \<Rightarrow> PendingUploadStore \<Rightarrow> PendingUploadStore" where
  "pending_upload_apply now (OpInsert rid upload) st = snd (pending_upload_insert rid upload now st)"
| "pending_upload_apply now (OpGet rid identity) st = snd (get_for_identity rid identity now st)"
| "pending_upload_apply now (OpTake rid identity) st = snd (take_for_identity rid identity now st)"
| "pending_upload_apply now (OpRemoveIdentity identity) st = snd (remove_identity identity now st)"
| "pending_upload_apply now (OpRemoveUnique identity bytes) st =
     snd (remove_unique_identity_size identity bytes now st)"
| "pending_upload_apply now OpMetrics st = snd (pending_upload_metrics now st)"

definition pending_upload_ok :: "PendingUploadStore \<Rightarrow> bool" where
  "pending_upload_ok st \<longleftrightarrow>
     bt_ok (pu_entries st) \<and> length (pu_entries st) \<le> PENDING_UPLOAD_MAX_ITEMS
     \<and> (\<forall>identity. bt_count (\<lambda>_ entry. pu_identity_hash entry = identity) (pu_entries st)
          \<le> PENDING_UPLOAD_MAX_ITEMS_PER_IDENTITY)"

section \<open>Byte accounting\<close>

lemma retained_simps [simp]:
  "retained [] = 0"
  "retained ((k, v) # m) = length v + retained m"
  by (simp_all add: retained_def)

lemma bt_get_below: "\<forall>k'\<in>fst ` set m. k < k' \<Longrightarrow> bt_get m k = None"
  by (induction m) (auto dest: less_asym)

lemma retained_insert:
  "bt_ok m \<Longrightarrow> retained (bt_insert k v m) + (case bt_get m k of Some old \<Rightarrow> length old | None \<Rightarrow> 0)
     = retained m + length v"
proof (induction k v m rule: bt_insert.induct)
  case (2 k v k' v' m)
  then have "bt_get m k = None" if "k \<le> k'" using that by (intro bt_get_below) auto
  then show ?case using 2 by (auto split: option.splits)
qed simp

lemma retained_retain: "retained (bt_retain p m) \<le> retained m"
  by (induction m) auto

lemma retained_remove:
  "bt_ok m \<Longrightarrow> bt_get m k = Some v \<Longrightarrow> retained (bt_remove k m) + length v = retained m"
proof (induction m)
  case (Cons e m)
  obtain k' v' where e: "e = (k', v')" by fastforce
  show ?case
  proof (cases "k = k'")
    case True
    then have "bt_get m k = None" using Cons.prems e by (intro bt_get_below) auto
    then show ?thesis using Cons.prems e True bt_remove_absent [of m k] by (simp add: bt_remove_def)
  next
    case False
    then show ?thesis using Cons e by (simp add: bt_remove_def)
  qed
qed simp

lemmas pending_limits = PENDING_RESOURCE_MAX_ITEMS_def PENDING_RESOURCE_MAX_BYTES_def
  PENDING_RESOURCE_MAX_ENTRY_BYTES_def

lemma pending_resource_ok_default: "pending_resource_ok pending_resource_default"
  by (simp add: pending_resource_ok_def pending_resource_default_def)

text \<open>The store after an unconditional insertion, with the account recomputed.\<close>

definition resource_put :: "string \<Rightarrow> bytes \<Rightarrow> PendingResourceStore \<Rightarrow> PendingResourceStore" where
  "resource_put rid payload st =
     st\<lparr>pr_entries := bt_insert rid payload (pr_entries st),
        pr_retained_bytes := retained (bt_insert rid payload (pr_entries st))\<rparr>"

lemma length_bt_insert_exact:
  "bt_ok m \<Longrightarrow> length (bt_insert k v m) = length m + (if bt_get m k = None then 1 else 0)"
  using bt.cnt_ins_new [of m k "\<lambda>_ _. True" v] bt.cnt_ins_old [of m k _ "\<lambda>_ _. True" v]
  by (auto simp: bt_count_True)

lemma projected_bytes:
  assumes "pending_resource_ok st"
  shows "pr_retained_bytes st - (case bt_get (pr_entries st) rid of Some old \<Rightarrow> length old | None \<Rightarrow> 0)
    + length payload = retained (bt_insert rid payload (pr_entries st))"
proof -
  have ok: "bt_ok (pr_entries st)" using assms by (simp add: pending_resource_ok_def)
  have "(case bt_get (pr_entries st) rid of Some old \<Rightarrow> length old | None \<Rightarrow> 0) \<le> retained (pr_entries st)"
    using retained_remove [OF ok, of rid] by (auto split: option.split)
  then show ?thesis
    using retained_insert [OF ok, of rid payload] assms by (simp add: pending_resource_ok_def)
qed

lemma resource_put_ok:
  assumes "pending_resource_ok st"
  shows "pending_resource_ok (resource_put rid payload st) \<longleftrightarrow>
    length payload \<le> PENDING_RESOURCE_MAX_ENTRY_BYTES
    \<and> length (bt_insert rid payload (pr_entries st)) \<le> PENDING_RESOURCE_MAX_ITEMS
    \<and> retained (bt_insert rid payload (pr_entries st)) \<le> PENDING_RESOURCE_MAX_BYTES"
  using assms by (auto simp: pending_resource_ok_def resource_put_def bt_laws)

lemma pending_resource_insert_cases:
  assumes "pending_resource_ok st"
  shows "pending_resource_insert rid payload st =
    (if pending_resource_ok (resource_put rid payload st) then (Inr (), resource_put rid payload st)
     else (Inl (Message (pending_resource_message (length (bt_insert rid payload (pr_entries st)))
            (usize_saturating_add (pr_retained_bytes st
               - (case bt_get (pr_entries st) rid of Some old \<Rightarrow> length old | None \<Rightarrow> 0)) (length payload))
            (length payload))),
           st\<lparr>pr_rejected := usize_saturating_add (pr_rejected st) 1\<rparr>))"
proof -
  have ok: "bt_ok (pr_entries st)" using assms by (simp add: pending_resource_ok_def)
  let ?a = "pr_retained_bytes st - (case bt_get (pr_entries st) rid of Some old \<Rightarrow> length old | None \<Rightarrow> 0)"
  have sat: "usize_saturating_add ?a (length payload) \<le> PENDING_RESOURCE_MAX_BYTES
      \<longleftrightarrow> retained (bt_insert rid payload (pr_entries st)) \<le> PENDING_RESOURCE_MAX_BYTES"
    using projected_bytes [OF assms, of rid payload] usize_saturating_add_le [of PENDING_RESOURCE_MAX_BYTES]
    by (simp add: pending_limits)
  have exact: "usize_saturating_add ?a (length payload) = retained (bt_insert rid payload (pr_entries st))"
    if "retained (bt_insert rid payload (pr_entries st)) \<le> PENDING_RESOURCE_MAX_BYTES"
    using projected_bytes [OF assms, of rid payload] that
    by (simp add: usize_saturating_add_def pending_limits)
  show ?thesis
    unfolding resource_put_ok [OF assms]
    using sat exact
    by (auto simp: pending_resource_insert_def Let_def resource_put_def length_bt_insert_exact [OF ok] not_le)
qed

lemma pending_resource_take_ok:
  assumes "pending_resource_ok st"
  shows "pending_resource_ok (snd (pending_resource_take rid st))"
    and "abs_resources (snd (pending_resource_take rid st)) = (abs_resources st)(rid := None)"
    and "fst (pending_resource_take rid st) = abs_resources st rid"
proof -
  have ok: "bt_ok (pr_entries st)" using assms by (simp add: pending_resource_ok_def)
  show "abs_resources (snd (pending_resource_take rid st)) = (abs_resources st)(rid := None)"
    "fst (pending_resource_take rid st) = abs_resources st rid"
    using ok by (auto simp: pending_resource_take_def abs_resources_def bt_get_remove split: option.split)
  show "pending_resource_ok (snd (pending_resource_take rid st))"
  proof (cases "bt_get (pr_entries st) rid")
    case (Some payload)
    have "length (bt_remove rid (pr_entries st)) \<le> length (pr_entries st)"
      by (simp add: bt_remove_def length_bt_retain)
    then show ?thesis
      using assms Some retained_remove [OF ok Some] ok
      by (auto simp: pending_resource_take_def pending_resource_ok_def bt_ok_remove bt_get_remove)
  qed (simp add: pending_resource_take_def assms)
qed

section \<open>Offered uploads: bounds and isolation\<close>

lemma pending_upload_ok_default: "pending_upload_ok pending_upload_default"
  by (simp add: pending_upload_ok_def pending_upload_default_def bt_count_def)

lemma pending_upload_ok_retain:
  "pending_upload_ok st \<Longrightarrow> pending_upload_ok (st\<lparr>pu_entries := bt_retain p (pu_entries st), pu_expired := n\<rparr>)"
  "pending_upload_ok st \<Longrightarrow> pending_upload_ok (st\<lparr>pu_entries := bt_retain p (pu_entries st)\<rparr>)"
  unfolding pending_upload_ok_def
  by (simp_all, (meson bt.cnt_ret_le bt_ok_retain le_trans length_bt_retain)+)

lemma pending_upload_ok_remove:
  "pending_upload_ok st \<Longrightarrow> pending_upload_ok (st\<lparr>pu_entries := bt_remove k (pu_entries st)\<rparr>)"
  by (simp add: bt_remove_def pending_upload_ok_retain)

lemma purge_expired_ok: "pending_upload_ok st \<Longrightarrow> pending_upload_ok (purge_expired now st)"
  by (simp add: purge_expired_def Let_def pending_upload_ok_retain)

lemma purge_expired_get:
  "bt_ok (pu_entries st) \<Longrightarrow> bt_get (pu_entries (purge_expired now st)) k = Some v
     \<longleftrightarrow> bt_get (pu_entries st) k = Some v \<and> pending_upload_fresh now v"
  by (simp add: purge_expired_def Let_def bt_get_retain)

lemma pending_upload_ok_put:
  assumes "pending_upload_ok st"
    and "case bt_get (pu_entries st) rid of
        Some existing \<Rightarrow> pu_identity_hash existing = pu_identity_hash upload
      | None \<Rightarrow> length (pu_entries st) < PENDING_UPLOAD_MAX_ITEMS
          \<and> bt_count (\<lambda>_ entry. pu_identity_hash entry = pu_identity_hash upload) (pu_entries st)
            < PENDING_UPLOAD_MAX_ITEMS_PER_IDENTITY"
  shows "pending_upload_ok (st\<lparr>pu_entries := bt_insert rid upload (pu_entries st)\<rparr>)"
proof -
  have ok: "bt_ok (pu_entries st)" using assms(1) by (simp add: pending_upload_ok_def)
  have "bt_count (\<lambda>_ entry. pu_identity_hash entry = i) (bt_insert rid upload (pu_entries st))
      \<le> PENDING_UPLOAD_MAX_ITEMS_PER_IDENTITY" for i
  proof (cases "bt_get (pu_entries st) rid")
    case None
    then show ?thesis
      using assms bt.cnt_ins_new [OF ok None, of "\<lambda>_ entry. pu_identity_hash entry = i" upload]
      by (cases "pu_identity_hash upload = i") (auto simp: pending_upload_ok_def)
  next
    case (Some existing)
    then show ?thesis
      using assms bt.cnt_ins_old [OF ok Some, of "\<lambda>_ entry. pu_identity_hash entry = i" upload]
      by (auto simp: pending_upload_ok_def)
  qed
  then show ?thesis
    using assms ok by (auto simp: pending_upload_ok_def bt_ok_insert length_bt_insert_exact split: option.splits)
qed

lemma pending_upload_insert_ok:
  "pending_upload_ok st \<Longrightarrow> pending_upload_ok (snd (pending_upload_insert rid upload now st))"
  using pending_upload_ok_put [where st = "purge_expired now st" and rid = rid and upload = upload] purge_expired_ok [of st now]
  by (auto simp: pending_upload_insert_def Let_def pending_upload_ok_def split: option.splits)

lemma pending_upload_apply_ok: "pending_upload_ok st \<Longrightarrow> pending_upload_ok (pending_upload_apply now op st)"
  by (cases op)
    (auto simp: pending_upload_insert_ok get_for_identity_def take_for_identity_def remove_identity_def
      remove_unique_identity_size_def pending_upload_metrics_def Let_def purge_expired_ok
      pending_upload_ok_retain pending_upload_ok_remove split: option.split list.split)

section \<open>Properties\<close>

text \<open>
  C39: the payload store refines a partial map with a budget. On every state its operations can reach
  (the account equals the total size, at most 64 entries of at most 4 MiB and 16 MiB in total),
  an insertion succeeds exactly when the store with the payload added keeps the budget and then is
  that update of the map; a refused insertion changes the rejection counter only; taking returns
  and removes exactly one entry.
\<close>

theorem pending_resource_refines_map:
  assumes "pending_resource_ok st"
  shows "(\<exists>e. pending_resource_insert rid payload st =
      (if pending_resource_ok (resource_put rid payload st) then (Inr (), resource_put rid payload st)
       else (Inl e, st\<lparr>pr_rejected := usize_saturating_add (pr_rejected st) 1\<rparr>)))
    \<and> abs_resources (resource_put rid payload st) = (abs_resources st)(rid \<mapsto> payload)
    \<and> pending_resource_get rid st = abs_resources st rid
    \<and> pending_resource_ok (snd (pending_resource_insert rid payload st))
    \<and> fst (pending_resource_take rid st) = abs_resources st rid
    \<and> abs_resources (snd (pending_resource_take rid st)) = (abs_resources st)(rid := None)
    \<and> pending_resource_ok (snd (pending_resource_take rid st))"
proof -
  have "abs_resources (resource_put rid payload st) = (abs_resources st)(rid \<mapsto> payload)"
    using assms by (auto simp: abs_resources_def resource_put_def bt_get_insert pending_resource_ok_def)
  moreover have "pending_resource_ok (snd (pending_resource_insert rid payload st))"
    using assms by (auto simp: pending_resource_insert_cases) (simp add: pending_resource_ok_def)
  ultimately show ?thesis
    using pending_resource_insert_cases [OF assms] pending_resource_take_ok [OF assms]
    by (auto simp: pending_resource_get_def abs_resources_def)
qed

theorem pending_resource_refines_map_witness:
  "fst (pending_resource_take ''r1'' (resource_put ''r1'' [1, 2] pending_resource_default)) = Some [1, 2]"
proof -
  let ?st = "resource_put ''r1'' [1, 2] pending_resource_default"
  have "pending_resource_ok ?st"
    unfolding resource_put_ok [OF pending_resource_ok_default]
    by (simp add: pending_resource_default_def pending_limits)
  then have "fst (pending_resource_take ''r1'' ?st) = abs_resources ?st ''r1''"
    using pending_resource_refines_map [of ?st "''r1''"] by blast
  then show ?thesis by (simp add: abs_resources_def resource_put_def pending_resource_default_def)
qed

text \<open>
  whatever sequence of offers, arrivals, failures and disconnects the store sees, at whatever
  times, it holds at most 256 uploads and at most eight of one identity.
\<close>

theorem pending_upload_bounded:
  "pending_upload_ok (fold (\<lambda>(now, op). pending_upload_apply now op) ops pending_upload_default)"
  using pending_upload_ok_default
  by (induction ops arbitrary: rule: rev_induct) (auto simp: pending_upload_apply_ok)

text \<open>
  peers are isolated. A peer can take an upload exactly when it offered it and it has not expired,
  taking removes nothing else but expired entries, and no insertion by one identity adds, replaces or
  removes an unexpired entry of another.
\<close>

theorem pending_upload_isolation:
  assumes "bt_ok (pu_entries st)"
  shows "(fst (take_for_identity rid identity now st) = Found upload \<longleftrightarrow>
      bt_get (pu_entries st) rid = Some upload \<and> pu_identity_hash upload = identity
      \<and> pending_upload_fresh now upload)
    \<and> (bt_get (pu_entries (snd (take_for_identity rid identity now st))) k = Some v \<longleftrightarrow>
      bt_get (pu_entries st) k = Some v \<and> pending_upload_fresh now v
      \<and> \<not> (k = rid \<and> pu_identity_hash v = identity))
    \<and> (pu_identity_hash v \<noteq> pu_identity_hash offer \<longrightarrow>
      (bt_get (pu_entries (snd (pending_upload_insert rid offer now st))) k = Some v \<longleftrightarrow>
       bt_get (pu_entries st) k = Some v \<and> pending_upload_fresh now v))"
proof -
  have ok: "bt_ok (pu_entries (purge_expired now st))"
    using assms by (simp add: purge_expired_def Let_def bt_ok_retain)
  have get: "bt_get (pu_entries (purge_expired now st)) k = Some v
      \<longleftrightarrow> bt_get (pu_entries st) k = Some v \<and> pending_upload_fresh now v" for k v
    using assms by (rule purge_expired_get)
  let ?e = "pu_entries (purge_expired now st)"
  have "fst (take_for_identity rid identity now st) = Found upload \<longleftrightarrow>
      bt_get ?e rid = Some upload \<and> pu_identity_hash upload = identity"
    by (auto simp: take_for_identity_def Let_def split: option.split)
  moreover have "bt_get (pu_entries (snd (take_for_identity rid identity now st))) k = Some v \<longleftrightarrow>
      bt_get ?e k = Some v \<and> \<not> (k = rid \<and> pu_identity_hash v = identity)"
    using ok by (auto simp: take_for_identity_def Let_def bt_get_remove split: option.split)
  moreover have "bt_get (pu_entries (snd (pending_upload_insert rid offer now st))) k = Some v \<longleftrightarrow>
      bt_get ?e k = Some v" if "pu_identity_hash v \<noteq> pu_identity_hash offer"
    using ok that by (auto simp: pending_upload_insert_def Let_def bt_get_insert split: option.split)
  ultimately show ?thesis using get [of rid upload] get [of k v] by blast
qed

theorem pending_upload_isolation_witness:
  "fst (take_for_identity ''r1'' [9] 5 \<lparr>pu_entries = [(''r1'', \<lparr>pu_identity_hash = [9], pu_room_id = 1,
      pu_user_id = 2, pu_filename = ''a'', pu_content_type = None, pu_incoming_bytes = 3,
      pu_accepted_at = 0\<rparr>)], pu_rejected = 0, pu_expired = 0\<rparr>)
   = Found \<lparr>pu_identity_hash = [9], pu_room_id = 1, pu_user_id = 2, pu_filename = ''a'',
      pu_content_type = None, pu_incoming_bytes = 3, pu_accepted_at = 0\<rparr>"
  by (subst pending_upload_isolation [THEN conjunct1])
    (simp_all add: pending_upload_fresh_def PENDING_UPLOAD_TTL_SECONDS_def)

end
