(* ===== verification/Upload_Cache.thy ===== *)
theory Upload_Cache
  imports Pending_Stores
begin

text \<open>
  The upload cache of the server (\<^verbatim>\<open>server/src/upload.rs\<close>): the quota plan of an identity's
  directory, the names under which uploads are stored, and the write path that makes a new file
  visible only when it is complete and evicts old files only after the new one is committed. The
  operations on files are the trait \<^verbatim>\<open>UploadFileOps\<close>, a record of functions on an abstract world;
  the locale \<open>upload_files\<close> states what a file system promises even when an operation fails, and is
  interpreted on a file map whose every operation may fail, a write halfway. Sizes are
  natural numbers below \<open>2 ^ 64\<close>; sums saturate as in the source.
\<close>

type_synonym Path = string

record UploadPolicy =
  up_cache_root :: Path
  up_quota_bytes :: nat

record UploadQuotaPlan =
  qp_identity_dir :: Path
  qp_current_bytes :: nat
  qp_incoming_bytes :: nat
  qp_quota_bytes :: nat
  qp_evict :: "Path list"

datatype UploadQuotaDecision = QuotaDisabled | QuotaTooLarge nat nat | QuotaAccepted UploadQuotaPlan

record StoredUpload =
  su_path :: Path
  su_bytes :: nat
  su_evicted :: "Path list"

record UploadCacheEntry =
  ce_path :: Path
  ce_bytes :: nat
  ce_modified :: nat

section \<open>Paths and names\<close>

definition path_join :: "Path \<Rightarrow> string \<Rightarrow> Path" where
  "path_join dir name =
     (if dir = [] then name else if last dir = CHR ''/'' then dir @ name else dir @ ''/'' @ name)"

fun split_slash :: "string \<Rightarrow> string list" where
  "split_slash [] = [[]]"
| "split_slash (c # cs) =
     (if c = CHR ''/'' then [] # split_slash cs
      else case split_slash cs of [] \<Rightarrow> [[c]] | part # parts \<Rightarrow> (c # part) # parts)"

text \<open>\<^verbatim>\<open>Path::file_name\<close>: the last component, none for a path that ends in \<^verbatim>\<open>..\<close> or has no name.\<close>

definition path_file_name :: "Path \<Rightarrow> string option" where
  "path_file_name path =
     (let parts = filter (\<lambda>p. p \<noteq> [] \<and> p \<noteq> ''.'') (split_slash path) in
      if parts = [] \<or> last parts = ''..'' then None else Some (last parts))"

definition hex_digit :: "nat \<Rightarrow> char" where
  "hex_digit n = ''0123456789abcdef'' ! n"

fun hex_lower :: "bytes \<Rightarrow> string" where
  "hex_lower [] = []"
| "hex_lower (b # bs) = hex_digit (unat (drop_bit 4 b)) # hex_digit (unat (b AND 0x0F)) # hex_lower bs"

definition upload_identity_dir_for_root :: "Path \<Rightarrow> bytes \<Rightarrow> Path" where
  "upload_identity_dir_for_root cache_root identity_hash = path_join cache_root (hex_lower identity_hash)"

definition safe_filename_char :: "nat \<Rightarrow> bool" where
  "safe_filename_char c \<longleftrightarrow>
     (48 \<le> c \<and> c \<le> 57 \<or> 65 \<le> c \<and> c \<le> 90 \<or> 97 \<le> c \<and> c \<le> 122) \<or> c = 46 \<or> c = 45 \<or> c = 95"

definition sanitize_upload_filename :: "string \<Rightarrow> string" where
  "sanitize_upload_filename filename_hint =
     (let hint = (case path_file_name filename_hint of Some name \<Rightarrow> name | None \<Rightarrow> filename_hint);
          scalars = (case utf8_chars (as_bytes hint) of Some cs \<Rightarrow> cs | None \<Rightarrow> []);
          cleaned = map (\<lambda>c. if safe_filename_char c then char_of c else CHR ''_'')
            (trim_both white_space scalars);
          cleaned = trim_both (\<lambda>c. c = CHR ''_'') (trim_both (\<lambda>c. c = CHR ''.'') cleaned) in
      if cleaned = [] then ''upload.bin'' else take 96 cleaned)"

section \<open>The quota plan\<close>

definition upload_cache_entries :: "UploadCacheEntry list \<Rightarrow> UploadCacheEntry list" where
  "upload_cache_entries dir =
     sort_key (\<lambda>e. (ce_modified e, ce_path e))
       (filter (\<lambda>e. take 13 (last (split_slash (ce_path e))) \<noteq> ''.omen-upload-'') dir)"

fun plan_evictions :: "nat \<Rightarrow> nat \<Rightarrow> UploadCacheEntry list \<Rightarrow> Path list" where
  "plan_evictions quota remaining [] = []"
| "plan_evictions quota remaining (e # es) =
     (if remaining \<le> quota then []
      else ce_path e # plan_evictions quota (remaining - ce_bytes e) es)"

text \<open>\<^verbatim>\<open>read_dir\<close> lists the directory in any order: the listing is an argument.\<close>

definition plan_upload_with_policy ::
    "UploadPolicy \<Rightarrow> bytes \<Rightarrow> nat \<Rightarrow> UploadCacheEntry list \<Rightarrow> UploadQuotaDecision" where
  "plan_upload_with_policy policy identity_hash incoming_bytes dir =
     (let quota_bytes = up_quota_bytes policy in
      if quota_bytes = 0 then QuotaDisabled
      else if incoming_bytes > quota_bytes then QuotaTooLarge quota_bytes incoming_bytes
      else
        let identity_dir = upload_identity_dir_for_root (up_cache_root policy) identity_hash;
            entries = upload_cache_entries dir;
            current_bytes = foldl (\<lambda>t e. usize_saturating_add t (ce_bytes e)) 0 entries;
            remaining = usize_saturating_add current_bytes incoming_bytes in
        QuotaAccepted \<lparr>qp_identity_dir = identity_dir, qp_current_bytes = current_bytes,
          qp_incoming_bytes = incoming_bytes, qp_quota_bytes = quota_bytes,
          qp_evict = plan_evictions quota_bytes remaining entries\<rparr>)"

definition plan_upload_with_index ::
    "UploadPolicy \<Rightarrow> bytes \<Rightarrow> nat \<Rightarrow> nat \<Rightarrow> Path list \<Rightarrow> UploadQuotaDecision" where
  "plan_upload_with_index policy identity_hash incoming_bytes indexed_bytes indexed_evict =
     (if up_quota_bytes policy = 0 then QuotaDisabled
      else if incoming_bytes > up_quota_bytes policy
      then QuotaTooLarge (up_quota_bytes policy) incoming_bytes
      else QuotaAccepted \<lparr>qp_identity_dir = upload_identity_dir_for_root (up_cache_root policy) identity_hash,
        qp_current_bytes = indexed_bytes, qp_incoming_bytes = incoming_bytes,
        qp_quota_bytes = up_quota_bytes policy, qp_evict = indexed_evict\<rparr>)"

section \<open>Storing an upload\<close>

text \<open>An operation on the world returns a result and the world after it, also when it fails.\<close>

type_synonym ('w, 'a) io = "'w \<Rightarrow> (ServerError + 'a) \<times> 'w"

definition io_then :: "(ServerError + 'a) \<times> 'w \<Rightarrow> ('a \<Rightarrow> ('w, 'b) io) \<Rightarrow> (ServerError + 'b) \<times> 'w" where
  "io_then r f = (case r of (Inl e, w) \<Rightarrow> (Inl e, w) | (Inr x, w) \<Rightarrow> f x w)"

record 'w UploadFileOps =
  op_create_temp :: "Path \<Rightarrow> ('w, unit) io"
  op_write_all :: "Path \<Rightarrow> bytes \<Rightarrow> ('w, unit) io"
  op_flush :: "Path \<Rightarrow> ('w, unit) io"
  op_sync_file :: "Path \<Rightarrow> ('w, unit) io"
  op_rename :: "Path \<Rightarrow> Path \<Rightarrow> ('w, unit) io"
  op_remove_file :: "Path \<Rightarrow> ('w, unit) io"
  op_sync_dir :: "Path \<Rightarrow> ('w, unit) io"
  op_ensure_dir :: "Path \<Rightarrow> Path \<Rightarrow> ('w, unit) io"
  op_exists :: "Path \<Rightarrow> 'w \<Rightarrow> bool"
  op_len :: "Path \<Rightarrow> 'w \<Rightarrow> nat option"

definition next_upload_path :: "('w, 'm) UploadFileOps_scheme \<Rightarrow> nat \<Rightarrow> Path \<Rightarrow> string \<Rightarrow> 'w \<Rightarrow> Path" where
  "next_upload_path ops stamp identity_dir filename_hint w =
     (let filename = sanitize_upload_filename filename_hint;
          candidate = path_join identity_dir filename in
      if \<not> op_exists ops candidate w then candidate
      else
        case find (\<lambda>c. \<not> op_exists ops c w)
          (map (\<lambda>index. path_join identity_dir (show_nat stamp @ ''-'' @ show_nat index @ ''-'' @ filename))
            [1..<1001]) of
          Some c \<Rightarrow> c
        | None \<Rightarrow> path_join identity_dir (show_nat stamp @ ''-'' @ filename))"

definition temp_path :: "Path \<Rightarrow> nat \<Rightarrow> nat \<Rightarrow> nat \<Rightarrow> Path" where
  "temp_path identity_dir pid stamp sequence =
     path_join identity_dir (''.omen-upload-'' @ show_nat pid @ ''-'' @ show_nat stamp @ ''-'' @ show_nat sequence @ ''.tmp'')"

text \<open>Up to 1000 attempts; \<open>stamps\<close> and \<open>sequence\<close> are the clock and the counter they read.\<close>

definition create_temp_path ::
    "('w, 'm) UploadFileOps_scheme \<Rightarrow> nat \<Rightarrow> (nat \<Rightarrow> nat) \<Rightarrow> nat \<Rightarrow> Path \<Rightarrow> 'w \<Rightarrow> ServerError + Path" where
  "create_temp_path ops pid stamps sequence identity_dir w =
     (case find (\<lambda>p. \<not> op_exists ops p w)
         (map (\<lambda>i. temp_path identity_dir pid (stamps i) (sequence + i)) [0..<1000]) of
        Some p \<Rightarrow> Inr p
      | None \<Rightarrow> Inl (Message ''could not allocate unique upload temporary path''))"

definition upload_write ::
    "('w, 'm) UploadFileOps_scheme \<Rightarrow> Path \<Rightarrow> Path \<Rightarrow> Path \<Rightarrow> bytes \<Rightarrow> ('w, unit) io" where
  "upload_write ops temp path dir bytes w =
     io_then (op_create_temp ops temp w) (\<lambda>_ w.
     io_then (op_write_all ops temp bytes w) (\<lambda>_ w.
     io_then (op_flush ops temp w) (\<lambda>_ w.
     io_then (op_sync_file ops temp w) (\<lambda>_ w.
     io_then (op_rename ops temp path w) (\<lambda>_ w.
     op_sync_dir ops dir w)))))"

fun evict_files :: "('w, 'm) UploadFileOps_scheme \<Rightarrow> Path \<Rightarrow> Path list \<Rightarrow> 'w \<Rightarrow> Path list \<times> 'w" where
  "evict_files ops path [] w = ([], w)"
| "evict_files ops path (old # rest) w =
     (if old = path then evict_files ops path rest w
      else case op_remove_file ops old w of
        (Inr _, w) \<Rightarrow> (let (evicted, w) = evict_files ops path rest w in (old # evicted, w))
      | (Inl _, w) \<Rightarrow> evict_files ops path rest w)"

definition upload_plan_or_error :: "UploadQuotaDecision \<Rightarrow> ServerError + UploadQuotaPlan" where
  "upload_plan_or_error d =
     (case d of
        QuotaAccepted plan \<Rightarrow> Inr plan
      | QuotaDisabled \<Rightarrow> Inl (Message ''uploads are disabled by server policy'')
      | QuotaTooLarge quota incoming \<Rightarrow>
          Inl (Message (''upload is too large for quota: '' @ show_nat incoming @ '' > '' @ show_nat quota)))"

record UploadClock =
  uc_pid :: nat
  uc_nanos :: "nat \<Rightarrow> nat"
  uc_millis :: nat
  uc_sequence :: nat

text \<open>From the temporary file on: write, commit, and only then evict.\<close>

definition upload_publish ::
    "('w, 'm) UploadFileOps_scheme \<Rightarrow> (StoredUpload \<Rightarrow> ('w, unit) io) \<Rightarrow> UploadQuotaPlan \<Rightarrow> Path \<Rightarrow> Path \<Rightarrow> bytes
      \<Rightarrow> ('w, StoredUpload) io" where
  "upload_publish ops commit plan path temp bytes w =
     (let dir = qp_identity_dir plan in
      case upload_write ops temp path dir bytes w of
        (Inl e, w) \<Rightarrow>
          let w = snd (op_remove_file ops temp w);
              w = snd (op_remove_file ops path w);
              w = snd (op_sync_dir ops dir w) in
          (Inl e, w)
      | (Inr _, w) \<Rightarrow>
          let pending = \<lparr>su_path = path, su_bytes = length bytes, su_evicted = qp_evict plan\<rparr> in
          case commit pending w of
            (Inl e, w) \<Rightarrow>
              let w = snd (op_remove_file ops path w);
                  w = snd (op_sync_dir ops dir w) in
              (Inl e, w)
          | (Inr _, w) \<Rightarrow>
              let (evicted, w) = evict_files ops path (qp_evict plan) w;
                  w = snd (op_sync_dir ops dir w) in
              (Inr \<lparr>su_path = path, su_bytes = su_bytes pending, su_evicted = evicted\<rparr>, w))"

definition store_upload_with_policy_and_planner_ops ::
    "bool \<Rightarrow> UploadPolicy \<Rightarrow> UploadClock \<Rightarrow> string \<Rightarrow> bytes \<Rightarrow> (nat \<Rightarrow> ('w, UploadQuotaDecision) io)
      \<Rightarrow> (StoredUpload \<Rightarrow> ('w, unit) io) \<Rightarrow> ('w, 'm) UploadFileOps_scheme \<Rightarrow> ('w, StoredUpload) io" where
  "store_upload_with_policy_and_planner_ops lock_poisoned policy clock filename_hint bytes planner commit ops w =
     (if lock_poisoned then (Inl (Message ''upload identity lock poisoned''), w)
      else
        io_then (planner (length bytes) w) (\<lambda>decision w.
        io_then (upload_plan_or_error decision, w) (\<lambda>plan w.
        let dir = qp_identity_dir plan in
        io_then (op_ensure_dir ops (up_cache_root policy) dir w) (\<lambda>_ w.
        let path = next_upload_path ops (uc_millis clock) dir filename_hint w in
        io_then (create_temp_path ops (uc_pid clock) (uc_nanos clock) (uc_sequence clock) dir w, w) (\<lambda>temp w.
        upload_publish ops commit plan path temp bytes w)))))"

text \<open>A staged file of a channel upload is checked, renamed, committed, and then old files evicted.\<close>

definition path_parent :: "Path \<Rightarrow> Path" where
  "path_parent p =
     (let q = rev (dropWhile (\<lambda>c. c \<noteq> CHR ''/'') (rev p)) in if length q \<le> 1 then q else butlast q)"

definition commit_staged_file ::
    "('w, 'm) UploadFileOps_scheme \<Rightarrow> (StoredUpload \<Rightarrow> ('w, unit) io) \<Rightarrow> UploadQuotaPlan \<Rightarrow> Path \<Rightarrow> Path \<Rightarrow> nat
      \<Rightarrow> ('w, StoredUpload) io" where
  "commit_staged_file ops commit plan staged path incoming_bytes w =
     (let dir = qp_identity_dir plan in
      case op_rename ops staged path w of
        (Inl e, w) \<Rightarrow> (Inl e, snd (op_remove_file ops staged w))
      | (Inr _, w) \<Rightarrow>
          (case op_sync_dir ops dir w of
             (Inl e, w) \<Rightarrow> (Inl e, snd (op_sync_dir ops dir (snd (op_remove_file ops path w))))
           | (Inr _, w) \<Rightarrow>
               let pending = \<lparr>su_path = path, su_bytes = incoming_bytes, su_evicted = qp_evict plan\<rparr> in
               case commit pending w of
                 (Inl e, w) \<Rightarrow> (Inl e, snd (op_sync_dir ops dir (snd (op_remove_file ops path w))))
               | (Inr _, w) \<Rightarrow>
                   let (evicted, w) = evict_files ops path (qp_evict plan) w in
                   (Inr \<lparr>su_path = path, su_bytes = incoming_bytes, su_evicted = evicted\<rparr>,
                    snd (op_sync_dir ops dir w))))"

definition commit_staged_upload_with_policy_indexed_and_commit ::
    "bool \<Rightarrow> UploadPolicy \<Rightarrow> nat \<Rightarrow> string \<Rightarrow> Path \<Rightarrow> nat \<Rightarrow> (nat \<Rightarrow> ('w, UploadQuotaDecision) io)
      \<Rightarrow> (StoredUpload \<Rightarrow> ('w, unit) io) \<Rightarrow> ('w, 'm) UploadFileOps_scheme \<Rightarrow> ('w, StoredUpload) io" where
  "commit_staged_upload_with_policy_indexed_and_commit lock_poisoned policy millis filename_hint staged
       incoming_bytes planner commit ops w =
     (if lock_poisoned then (Inl (Message ''upload identity lock poisoned''), w)
      else
        io_then (planner incoming_bytes w) (\<lambda>decision w.
        io_then (upload_plan_or_error decision, w) (\<lambda>plan w.
        let dir = qp_identity_dir plan;
            invalid = (\<lambda>w. (Inl (Message ''Channel upload staging file failed ownership or length validation''),
              snd (op_remove_file ops staged w))) in
        io_then (op_ensure_dir ops (up_cache_root policy) dir w) (\<lambda>_ w.
        if path_parent staged \<noteq> dir then invalid w
        else case op_len ops staged w of
          None \<Rightarrow> (Inl (Io ''staging file metadata''), w)
        | Some len \<Rightarrow>
            if len \<noteq> incoming_bytes then invalid w
            else commit_staged_file ops commit plan staged
              (next_upload_path ops millis dir filename_hint w) incoming_bytes w))))"

section \<open>What a file system promises\<close>

text \<open>
  An operation changes no file but the ones it names, whether it succeeds or fails; what it does to
  those is promised only when it succeeds.
\<close>

locale upload_files =
  fixes ops :: "'w UploadFileOps"
    and files :: "'w \<Rightarrow> Path \<Rightarrow> bytes option"
  assumes create_ok: "op_create_temp ops p w = (Inr (), w') \<Longrightarrow> files w p = None \<and> files w' p = Some []"
    and create_frame: "q \<noteq> p \<Longrightarrow> files (snd (op_create_temp ops p w)) q = files w q"
    and write_ok: "op_write_all ops p bs w = (Inr (), w') \<Longrightarrow> files w p = Some old \<Longrightarrow>
      files w' p = Some (old @ bs)"
    and write_frame: "q \<noteq> p \<Longrightarrow> files (snd (op_write_all ops p bs w)) q = files w q"
    and rename_ok: "op_rename ops p r w = (Inr (), w') \<Longrightarrow>
      files w' r = files w p \<and> (p \<noteq> r \<longrightarrow> files w' p = None)"
    and rename_frame: "q \<noteq> p \<Longrightarrow> q \<noteq> r \<Longrightarrow> files (snd (op_rename ops p r w)) q = files w q"
    and remove_ok: "op_remove_file ops p w = (Inr (), w') \<Longrightarrow> files w' p = None"
    and remove_err: "op_remove_file ops p w = (Inl e, w') \<Longrightarrow> files w' p = files w p"
    and remove_frame: "q \<noteq> p \<Longrightarrow> files (snd (op_remove_file ops p w)) q = files w q"
    and flush_frame: "files (snd (op_flush ops p w)) q = files w q"
    and sync_file_frame: "files (snd (op_sync_file ops p w)) q = files w q"
    and sync_dir_frame: "files (snd (op_sync_dir ops p w)) q = files w q"
    and ensure_dir_frame: "files (snd (op_ensure_dir ops root p w)) q = files w q"
    and exists_files: "op_exists ops p w \<longleftrightarrow> files w p \<noteq> None"
    and len_files: "op_len ops p w = map_option length (files w p)"
    and write_partial: "op_write_all ops p bs w = (Inl e, w') \<Longrightarrow> files w p = Some old \<Longrightarrow>
      \<exists>k. files w' p = Some (old @ take k bs)"
begin

lemmas frames = create_frame write_frame rename_frame remove_frame flush_frame sync_file_frame
  sync_dir_frame ensure_dir_frame

lemma io_then_frame:
  assumes "files (snd r) q = files w q" "\<And>x w'. files (snd (f x w')) q = files w' q"
  shows "files (snd (io_then r f)) q = files w q"
  using assms by (cases r; cases "fst r") (auto simp: io_then_def)

lemma next_upload_path_files:
  "files w = files w' \<Longrightarrow> next_upload_path ops stamp dir hint w = next_upload_path ops stamp dir hint w'"
  by (simp add: next_upload_path_def exists_files Let_def)

lemma create_temp_path_fresh: "create_temp_path ops pid stamps n dir w = Inr p \<Longrightarrow> files w p = None"
  by (auto simp: create_temp_path_def find_Some_iff exists_files split: option.splits)

text \<open>Writing through the temporary file touches only the two names of this upload, and on success
  the file is complete under its final name.\<close>

lemma upload_write_frame:
  "q \<noteq> temp \<Longrightarrow> q \<noteq> path \<Longrightarrow> files (snd (upload_write ops temp path dir bs w)) q = files w q"
  unfolding upload_write_def by (intro io_then_frame frames)

lemma upload_write_ok:
  assumes "upload_write ops temp path dir bs w = (Inr (), w')"
  shows "files w' path = Some bs \<and> (temp \<noteq> path \<longrightarrow> files w' temp = None)"
proof -
  from assms obtain w1 w2 w3 w4 w5 where
    steps: "op_create_temp ops temp w = (Inr (), w1)" "op_write_all ops temp bs w1 = (Inr (), w2)"
      "op_flush ops temp w2 = (Inr (), w3)" "op_sync_file ops temp w3 = (Inr (), w4)"
      "op_rename ops temp path w4 = (Inr (), w5)" "op_sync_dir ops dir w5 = (Inr (), w')"
    by (auto simp: upload_write_def io_then_def split: prod.splits sum.splits)
  have "files w3 q = files w2 q" "files w4 q = files w3 q" "files w' q = files w5 q" for q
    using flush_frame [of temp w2] sync_file_frame [of temp w3] sync_dir_frame [of dir w5] steps by simp_all
  with create_ok [OF steps(1)] write_ok [OF steps(2)] rename_ok [OF steps(5)] show ?thesis by simp
qed

lemma evict_files_effect:
  assumes "evict_files ops path old w = (evicted, w')"
  shows "set evicted \<subseteq> set old - {path} \<and> (\<forall>q. files w' q = (if q \<in> set evicted then None else files w q))"
  using assms
proof (induction old arbitrary: w evicted)
  case (Cons a rest)
  obtain res w1 where r: "op_remove_file ops a w = (res, w1)" by fastforce
  have other: "q \<noteq> a \<Longrightarrow> files w1 q = files w q" for q using remove_frame [of q a w] r by simp
  show ?case
  proof (cases "a = path \<or> (\<exists>e. res = Inl e)")
    case True
    have same: "files w1 = files w" if "res = Inl e" for e
      using other remove_err [of a w] r that by (intro ext) (metis prod.inject)
    from True show ?thesis
    proof (cases "a = path")
      case False
      with True same Cons.prems r Cons.IH [of w1 evicted] show ?thesis by fastforce
    qed (use Cons in auto)
  next
    case False
    then have "res = Inr ()" by (cases res) auto
    with False r Cons.prems obtain rest' where
      rest: "evict_files ops path rest w1 = (rest', w')" "evicted = a # rest'"
      by (auto split: prod.splits)
    have "files w1 a = None" using remove_ok r \<open>res = Inr ()\<close> by simp
    then show ?thesis using Cons.IH [OF rest(1)] rest(2) False other by (auto split: if_splits)
  qed
qed simp

text \<open>Publishing, and then storing, for a planner and a commit that leave the files alone.\<close>

lemma upload_publish_effect:
  assumes commit: "\<And>u w q. files (snd (commit u w)) q = files w q"
    and free: "files w path = None" "files w temp = None"
    and res: "upload_publish ops commit plan path temp bs w = (res, w')"
  shows "case res of
      Inl e \<Rightarrow> \<forall>q v. files w q = Some v \<longrightarrow> files w' q = Some v
    | Inr stored \<Rightarrow> su_path stored = path \<and> files w' path = Some bs \<and> su_bytes stored = length bs
        \<and> set (su_evicted stored) \<subseteq> set (qp_evict plan)
        \<and> (\<forall>q. q \<noteq> path \<longrightarrow> files w' q = (if q \<in> set (su_evicted stored) then None else files w q))"
proof -
  let ?dir = "qp_identity_dir plan"
  obtain wr w1 where wr: "upload_write ops temp path ?dir bs w = (wr, w1)" by fastforce
  have kept: "files w1 q = files w q" if "q \<noteq> temp" "q \<noteq> path" for q
    using upload_write_frame [OF that, of ?dir bs w] wr by simp
  have safe: "q \<noteq> temp \<and> q \<noteq> path" if "files w q = Some v" for q v using free that by auto
  show ?thesis
  proof (cases wr)
    case (Inl e)
    then show ?thesis
      using res wr kept safe by (auto simp: upload_publish_def Let_def frames)
  next
    case (Inr u)
    let ?pending = "\<lparr>su_path = path, su_bytes = length bs, su_evicted = qp_evict plan\<rparr>"
    obtain cr w2 where cr: "commit ?pending w1 = (cr, w2)" by fastforce
    have w2: "files w2 q = files w1 q" for q using commit [of ?pending w1 q] cr by simp
    have new: "files w1 path = Some bs" "temp \<noteq> path \<Longrightarrow> files w1 temp = None"
      using upload_write_ok [of temp path ?dir bs w w1] wr Inr by simp_all
    show ?thesis
    proof (cases cr)
      case (Inl e)
      then show ?thesis
        using res wr Inr cr kept safe w2 by (auto simp: upload_publish_def Let_def frames)
    next
      case (Inr u')
      obtain evicted w3 where ev: "evict_files ops path (qp_evict plan) w2 = (evicted, w3)" by fastforce
      have r: "res = Inr \<lparr>su_path = path, su_bytes = length bs, su_evicted = evicted\<rparr>"
        and w': "files w' q = files w3 q" for q
        using res wr \<open>wr = Inr u\<close> cr Inr ev sync_dir_frame [of ?dir w3 q] by (auto simp: upload_publish_def Let_def)
      have "files w3 q = (if q \<in> set evicted then None else files w2 q)" for q
        using evict_files_effect [OF ev] by blast
      moreover have "set evicted \<subseteq> set (qp_evict plan) - {path}" using evict_files_effect [OF ev] by blast
      ultimately show ?thesis
        using r w' w2 new kept free by (auto simp: subset_iff) (metis)+
    qed
  qed
qed

lemma store_upload_effect:
  assumes planner: "\<And>n w q. files (snd (planner n w)) q = files w q"
    and commit: "\<And>u w q. files (snd (commit u w)) q = files w q"
    and free: "\<And>plan w1. planner (length bs) w = (Inr (QuotaAccepted plan), w1) \<Longrightarrow>
      files w (next_upload_path ops (uc_millis clock) (qp_identity_dir plan) hint w) = None"
    and res: "store_upload_with_policy_and_planner_ops poisoned policy clock hint bs planner commit ops w = (res, w')"
  shows "case res of
      Inl e \<Rightarrow> \<forall>q v. files w q = Some v \<longrightarrow> files w' q = Some v
    | Inr stored \<Rightarrow> files w (su_path stored) = None \<and> files w' (su_path stored) = Some bs
        \<and> su_bytes stored = length bs
        \<and> (\<forall>q. q \<noteq> su_path stored \<longrightarrow>
             files w' q = (if q \<in> set (su_evicted stored) then None else files w q))"
proof -
  note defs = store_upload_with_policy_and_planner_ops_def io_then_def Let_def
  obtain d w1 where d: "planner (length bs) w = (d, w1)" by fastforce
  have w1: "files w1 q = files w q" for q using planner [of "length bs" w q] d by simp
  show ?thesis
  proof (cases "poisoned \<or> (\<nexists>decision plan. d = Inr decision \<and> upload_plan_or_error decision = Inr plan)")
    case True
    then show ?thesis using res d w1 by (auto simp: defs split: if_splits sum.splits)
  next
    case False
    then obtain decision plan where p: "\<not> poisoned" "d = Inr decision" "upload_plan_or_error decision = Inr plan"
      by blast
    let ?dir = "qp_identity_dir plan"
    obtain r w2 where r: "op_ensure_dir ops (up_cache_root policy) ?dir w1 = (r, w2)" by fastforce
    have w2: "files w2 = files w"
      using ensure_dir_frame [of "up_cache_root policy" ?dir w1] r w1 by (intro ext) simp
    let ?path = "next_upload_path ops (uc_millis clock) ?dir hint w2"
    let ?temp = "create_temp_path ops (uc_pid clock) (uc_nanos clock) (uc_sequence clock) ?dir w2"
    show ?thesis
    proof (cases "\<exists>temp. r = Inr () \<and> ?temp = Inr temp")
      case False
      then have "w' = w2" "\<exists>e. res = Inl e"
        using res d p r by (auto simp: defs split: sum.splits)
      then show ?thesis using w2 by auto
    next
      case True
      then obtain temp where t: "r = Inr ()" "?temp = Inr temp" by blast
      have path: "files w2 ?path = None"
        using free [of plan w1] next_upload_path_files [OF w2] w2 d p
        by (auto simp: upload_plan_or_error_def split: UploadQuotaDecision.splits)
      moreover have "files w2 temp = None" by (rule create_temp_path_fresh [OF t(2)])
      moreover have "upload_publish ops commit plan ?path temp bs w2 = (res, w')"
        using res d p r t by (simp add: defs)
      ultimately show ?thesis
        using upload_publish_effect [where commit = commit and w = w2 and path = ?path and temp = temp
            and plan = plan and bs = bs and res = res and w' = w'] commit w2
        by (cases res) auto
    qed
  qed
qed

text \<open>Committing a staged file stores exactly its contents, whose length was checked.\<close>

lemma commit_staged_file_ok:
  assumes commit: "\<And>u w q. files (snd (commit u w)) q = files w q"
    and res: "commit_staged_file ops commit plan staged path n w = (Inr stored, w')"
  shows "su_path stored = path \<and> files w' path = files w staged"
proof -
  let ?dir = "qp_identity_dir plan"
  obtain w1 where rn: "op_rename ops staged path w = (Inr (), w1)"
    using res by (auto simp: commit_staged_file_def Let_def split: prod.splits sum.splits)
  obtain w2 where sy: "op_sync_dir ops ?dir w1 = (Inr (), w2)"
    using res rn by (auto simp: commit_staged_file_def Let_def split: prod.splits sum.splits)
  let ?pending = "\<lparr>su_path = path, su_bytes = n, su_evicted = qp_evict plan\<rparr>"
  obtain w3 where co: "commit ?pending w2 = (Inr (), w3)"
    using res rn sy by (auto simp: commit_staged_file_def Let_def split: prod.splits sum.splits)
  obtain evicted w4 where ev: "evict_files ops path (qp_evict plan) w3 = (evicted, w4)" by fastforce
  have "su_path stored = path" "w' = snd (op_sync_dir ops ?dir w4)"
    using res rn sy co ev by (auto simp: commit_staged_file_def Let_def)
  moreover have "files w4 path = files w3 path" using evict_files_effect [OF ev] by auto
  moreover have "files w3 path = files w2 path" using commit [of ?pending w2 path] co by simp
  moreover have "files w2 path = files w1 path" using sync_dir_frame [of ?dir w1 path] sy by simp
  moreover have "files w1 path = files w staged" using rename_ok [OF rn] by blast
  ultimately show ?thesis by (simp add: sync_dir_frame)
qed

lemma commit_staged_upload_ok:
  assumes planner: "\<And>n w q. files (snd (planner n w)) q = files w q"
    and commit: "\<And>u w q. files (snd (commit u w)) q = files w q"
    and res: "commit_staged_upload_with_policy_indexed_and_commit poisoned policy millis hint staged n
      planner commit ops w = (Inr stored, w')"
  shows "\<exists>content. files w staged = Some content \<and> length content = n \<and> files w' (su_path stored) = Some content"
proof -
  note defs = commit_staged_upload_with_policy_indexed_and_commit_def io_then_def Let_def
  obtain d w1 where d: "planner n w = (Inr d, w1)"
    using res by (auto simp: defs split: if_splits prod.splits sum.splits)
  obtain plan where p: "upload_plan_or_error d = Inr plan"
    using res d by (auto simp: defs split: if_splits prod.splits sum.splits)
  let ?dir = "qp_identity_dir plan"
  obtain w2 where e: "op_ensure_dir ops (up_cache_root policy) ?dir w1 = (Inr (), w2)"
    using res d p by (auto simp: defs split: if_splits prod.splits sum.splits)
  have w2: "files w2 q = files w q" for q
    using planner [of n w q] d ensure_dir_frame [of "up_cache_root policy" ?dir w1 q] e by simp
  have len: "op_len ops staged w2 = Some n"
    using res d p e by (auto simp: defs split: if_splits option.splits)
  have "commit_staged_file ops commit plan staged (next_upload_path ops millis ?dir hint w2) n w2 = (Inr stored, w')"
    using res d p e len by (auto simp: defs split: if_splits)
  from commit_staged_file_ok [OF commit this] len w2 show ?thesis by (auto simp: len_files)
qed

end

section \<open>A file system whose every operation may fail\<close>

text \<open>\<open>fw_faults\<close> says of each coming operation whether it fails; a failing write leaves half of
  its bytes behind.\<close>

record FaultWorld =
  fw_files :: "Path \<Rightarrow> bytes option"
  fw_faults :: "bool list"

definition fw_next :: "FaultWorld \<Rightarrow> bool \<times> FaultWorld" where
  "fw_next w = (case fw_faults w of [] \<Rightarrow> (False, w) | f # fs \<Rightarrow> (f, w\<lparr>fw_faults := fs\<rparr>))"

definition fw_touch :: "(FaultWorld, unit) io" where
  "fw_touch w = (let (f, w) = fw_next w in (if f then Inl (Io ''fault'') else Inr (), w))"

definition fault_ops :: "FaultWorld UploadFileOps" where
  "fault_ops = \<lparr>
     op_create_temp = (\<lambda>p w. let (f, w) = fw_next w in
       if f \<or> fw_files w p \<noteq> None then (Inl (Io ''create''), w)
       else (Inr (), w\<lparr>fw_files := (fw_files w)(p \<mapsto> [])\<rparr>)),
     op_write_all = (\<lambda>p bs w. let (f, w) = fw_next w in
       if f then (Inl (Io ''write''),
         w\<lparr>fw_files := (fw_files w)(p := map_option (\<lambda>old. old @ take (length bs div 2) bs) (fw_files w p))\<rparr>)
       else (Inr (), w\<lparr>fw_files := (fw_files w)(p := map_option (\<lambda>old. old @ bs) (fw_files w p))\<rparr>)),
     op_flush = (\<lambda>p. fw_touch),
     op_sync_file = (\<lambda>p. fw_touch),
     op_rename = (\<lambda>p r w. let (f, w) = fw_next w in
       if f then (Inl (Io ''rename''), w)
       else (Inr (), w\<lparr>fw_files := (fw_files w)(p := None, r := fw_files w p)\<rparr>)),
     op_remove_file = (\<lambda>p w. let (f, w) = fw_next w in
       if f \<or> fw_files w p = None then (Inl (Io ''remove''), w)
       else (Inr (), w\<lparr>fw_files := (fw_files w)(p := None)\<rparr>)),
     op_sync_dir = (\<lambda>p. fw_touch),
     op_ensure_dir = (\<lambda>root p. fw_touch),
     op_exists = (\<lambda>p w. fw_files w p \<noteq> None),
     op_len = (\<lambda>p w. map_option length (fw_files w p))\<rparr>"

lemma fw_next_files [simp]: "fw_next w = (f, w') \<Longrightarrow> fw_files w' = fw_files w"
  by (auto simp: fw_next_def split: list.splits)

interpretation fault_fs: upload_files fault_ops fw_files
  by unfold_locales
    (auto simp: fault_ops_def fw_touch_def Let_def split: prod.splits if_splits)

section \<open>Lemmas on plans and names\<close>

lemma foldl_saturating:
  "a + sum_list (map ce_bytes es) < 2 ^ 64 \<Longrightarrow>
     foldl (\<lambda>t e. usize_saturating_add t (ce_bytes e)) a es = a + sum_list (map ce_bytes es)"
proof (induction es arbitrary: a)
  case (Cons e es)
  then have "usize_saturating_add a (ce_bytes e) = a + ce_bytes e"
    by (simp add: usize_saturating_add_exact)
  then show ?case using Cons by simp
qed simp

lemma plan_evictions_prefix:
  "\<exists>n\<le>length es. plan_evictions quota remaining es = map ce_path (take n es)
     \<and> (remaining - sum_list (map ce_bytes (take n es)) \<le> quota \<or> n = length es)
     \<and> (\<forall>m<n. quota < remaining - sum_list (map ce_bytes (take m es)))"
proof (induction es arbitrary: remaining)
  case (Cons e es)
  show ?case
  proof (cases "remaining \<le> quota")
    case True
    then show ?thesis by (intro exI [of _ 0]) simp
  next
    case False
    obtain n where n: "n \<le> length es" "plan_evictions quota (remaining - ce_bytes e) es = map ce_path (take n es)"
      "remaining - ce_bytes e - sum_list (map ce_bytes (take n es)) \<le> quota \<or> n = length es"
      "\<forall>m<n. quota < remaining - ce_bytes e - sum_list (map ce_bytes (take m es))"
      using Cons.IH [of "remaining - ce_bytes e"] by blast
    have "quota < remaining - sum_list (map ce_bytes (take m (e # es)))" if "m < Suc n" for m
      using n(4) that False by (cases m) auto
    then show ?thesis using n False by (intro exI [of _ "Suc n"]) auto
  qed
qed simp

lemma sum_list_sort_key: "sum_list (map f (sort_key k xs)) = (sum_list (map f xs) :: nat)"
  by (metis mset_map mset_sort sum_mset_sum_list)

definition ascii_name_char :: "char \<Rightarrow> bool" where
  "ascii_name_char c \<longleftrightarrow> safe_filename_char (of_char c)"

lemma ascii_name_char_char_of: "safe_filename_char n \<Longrightarrow> ascii_name_char (char_of n)"
  by (auto simp: ascii_name_char_def safe_filename_char_def)

section \<open>Properties\<close>





text \<open>
  a stored upload always gets a non-empty name of at most 96 ASCII letters, digits, dots, dashes and
  underscores, so no separator of the hint survives. The two trims do not keep leading dots out,
  though: dots behind underscores survive, so a hint can name the parent directory, and one can give
  the stored file the prefix of temporary files, which the quota plan then leaves out of account.
\<close>

theorem upload_filename_sanitized:
  "sanitize_upload_filename hint \<noteq> [] \<and> length (sanitize_upload_filename hint) \<le> 96
   \<and> list_all ascii_name_char (sanitize_upload_filename hint)
   \<and> CHR ''/'' \<notin> set (sanitize_upload_filename hint)
   \<and> sanitize_upload_filename ''_.._'' = ''..''
   \<and> sanitize_upload_filename ''_.omen-upload-1'' = ''.omen-upload-1''
   \<and> upload_cache_entries [\<lparr>ce_path = ''c/.omen-upload-1'', ce_bytes = 500, ce_modified = t\<rparr>] = []"
proof -
  have ascii: "list_all ascii_name_char (sanitize_upload_filename hint)"
  proof -
    have "list_all ascii_name_char (map (\<lambda>c. if safe_filename_char c then char_of c else CHR ''_'') cs)" for cs
      by (auto simp: list_all_iff ascii_name_char_char_of) (simp add: ascii_name_char_def safe_filename_char_def)
    moreover have "list_all ascii_name_char ''upload.bin''"
      by (simp add: ascii_name_char_def safe_filename_char_def)
    moreover have "list_all ascii_name_char xs \<Longrightarrow> list_all ascii_name_char (take n (trim_both p (trim_both q xs)))"
      for xs n p q
      using set_trim_both [of p "trim_both q xs"] set_trim_both [of q xs]
      by (auto simp: list_all_iff dest!: in_set_takeD)
    ultimately show ?thesis unfolding sanitize_upload_filename_def Let_def by (simp split: if_split)
  qed
  then have "CHR ''/'' \<notin> set (sanitize_upload_filename hint)"
    by (auto simp: list_all_iff ascii_name_char_def safe_filename_char_def)
  moreover have "sanitize_upload_filename ''_.._'' = ''..''"
    "sanitize_upload_filename ''_.omen-upload-1'' = ''.omen-upload-1''"
    by code_simp+
  ultimately show ?thesis
    using ascii by (simp add: sanitize_upload_filename_def Let_def upload_cache_entries_def)
qed

end
