(* ===== verification/Channel_Attachment.thy ===== *)
theory Channel_Attachment
  imports Codec_Contract
begin

text \<open>
  Channel attachments (\<^verbatim>\<open>omenchat-protocol/src/channel_attachment.rs\<close>): the byte format of the
  four frames that move an attachment over a reliable channel.
\<close>

section \<open>Frames\<close>

definition CHANNEL_ATTACHMENT_CAPABILITY :: string where
  "CHANNEL_ATTACHMENT_CAPABILITY = ''omenchat-channel-attachments-v1''"
definition CHANNEL_ATTACHMENT_MESSAGE_TYPE :: u16 where "CHANNEL_ATTACHMENT_MESSAGE_TYPE = 0x4F41"
definition CHANNEL_ATTACHMENT_MAX_RESOURCE_ID_BYTES :: nat where
  "CHANNEL_ATTACHMENT_MAX_RESOURCE_ID_BYTES = 128"
definition ATTACHMENT_MAGIC :: bytes where "ATTACHMENT_MAGIC = [0x4F, 0x43, 0x41, 0x54]"
definition ATTACHMENT_VERSION :: u8 where "ATTACHMENT_VERSION = 1"

datatype ChannelAttachmentFrame =
    Start string u64
  | Data string u64 bytes
  | Finish string u64 bytes
  | Cancel string

datatype ChannelAttachmentError = Invalid | InvalidResourceId | PayloadTooLarge

section \<open>Encoding\<close>

definition attachment_kind_and_id :: "ChannelAttachmentFrame \<Rightarrow> u8 \<times> string" where
  "attachment_kind_and_id f =
     (case f of
        Start resource_id _ \<Rightarrow> (1, resource_id)
      | Data resource_id _ _ \<Rightarrow> (2, resource_id)
      | Finish resource_id _ _ \<Rightarrow> (3, resource_id)
      | Cancel resource_id \<Rightarrow> (4, resource_id))"

definition attachment_encode ::
    "ChannelAttachmentFrame \<Rightarrow> nat \<Rightarrow> ChannelAttachmentError + bytes" where
  "attachment_encode f max_payload =
     (let (kind, resource_id) = attachment_kind_and_id f; rid = as_bytes resource_id in
      if rid = [] \<or> length rid > CHANNEL_ATTACHMENT_MAX_RESOURCE_ID_BYTES
      then Inl InvalidResourceId
      else if length rid \<ge> 2 ^ 16 then Inl InvalidResourceId
      else
        let id_len = (word_of_nat (length rid) :: u16);
            out = ATTACHMENT_MAGIC @ [ATTACHMENT_VERSION] @ [kind] @ u16_be id_len;
            out = out @ (case f of
                Start _ total_bytes \<Rightarrow> u64_be total_bytes
              | Data _ offset _ \<Rightarrow> u64_be offset
              | Finish _ total_bytes digest \<Rightarrow> u64_be total_bytes @ digest
              | Cancel _ \<Rightarrow> []);
            out = out @ rid;
            out = (case f of Data _ _ bs \<Rightarrow> out @ bs | _ \<Rightarrow> out) in
        if length out > max_payload then Inl PayloadTooLarge else Inr out)"

definition data_header_len :: "string \<Rightarrow> ChannelAttachmentError + nat" where
  "data_header_len resource_id =
     (if resource_id = [] \<or> length resource_id > CHANNEL_ATTACHMENT_MAX_RESOURCE_ID_BYTES
      then Inl InvalidResourceId
      else Inr (16 + length resource_id))"

section \<open>Decoding\<close>

definition slice :: "'a list \<Rightarrow> nat \<Rightarrow> nat \<Rightarrow> 'a list" where
  "slice xs a b = take (b - a) (drop a xs)"

definition read_u64 :: "bytes \<Rightarrow> ChannelAttachmentError + u64" where
  "read_u64 raw = (if length raw = 8 then Inr (word_of_nat (from_be raw)) else Inl Invalid)"

definition attachment_decode :: "bytes \<Rightarrow> ChannelAttachmentError + ChannelAttachmentFrame" where
  "attachment_decode raw =
     (if length raw < 8 \<or> take 4 raw \<noteq> ATTACHMENT_MAGIC \<or> raw ! 4 \<noteq> ATTACHMENT_VERSION
      then Inl Invalid
      else
        let kind = raw ! 5; id_len = from_be [raw ! 6, raw ! 7] in
        if id_len = 0 \<or> id_len > CHANNEL_ATTACHMENT_MAX_RESOURCE_ID_BYTES
        then Inl InvalidResourceId
        else
          and_then
            (if kind = 1 \<or> kind = 2 then Inr 16
             else if kind = 3 then Inr 48
             else if kind = 4 then Inr 8
             else Inl Invalid) (\<lambda>fixed.
          let id_end = fixed + id_len in
          if id_end \<ge> 2 ^ 64 then Inl Invalid
          else if length raw < id_end \<or> (kind \<noteq> 2 \<and> length raw \<noteq> id_end) then Inl Invalid
          else
            and_then (ok_or InvalidResourceId (from_utf8 (slice raw fixed id_end)))
              (\<lambda>resource_id.
            if kind = 1 then
              and_then (read_u64 (slice raw 8 16)) (\<lambda>total_bytes. Inr (Start resource_id total_bytes))
            else if kind = 2 then
              and_then (read_u64 (slice raw 8 16)) (\<lambda>offset.
              Inr (Data resource_id offset (drop id_end raw)))
            else if kind = 3 then
              and_then (read_u64 (slice raw 8 16)) (\<lambda>total_bytes.
              Inr (Finish resource_id total_bytes (slice raw 16 48)))
            else if kind = 4 then Inr (Cancel resource_id)
            else Inl Invalid)))"

section \<open>Valid frames and their bytes\<close>

definition attachment_valid :: "ChannelAttachmentFrame \<Rightarrow> bool" where
  "attachment_valid f \<longleftrightarrow>
     (let rid = snd (attachment_kind_and_id f) in wf_str rid \<and> rid \<noteq> [] \<and> length rid \<le> 128)
     \<and> (\<forall>rid total_bytes digest. f = Finish rid total_bytes digest \<longrightarrow> length digest = 32)"

definition attachment_header :: "u8 \<Rightarrow> string \<Rightarrow> bytes" where
  "attachment_header kind rid =
     ATTACHMENT_MAGIC @ [ATTACHMENT_VERSION, kind] @ be_bytes 2 (length rid)"

definition attachment_bytes :: "ChannelAttachmentFrame \<Rightarrow> bytes" where
  "attachment_bytes f =
     (case f of
        Start rid total_bytes \<Rightarrow> attachment_header 1 rid @ u64_be total_bytes @ as_bytes rid
      | Data rid offset bs \<Rightarrow> attachment_header 2 rid @ u64_be offset @ as_bytes rid @ bs
      | Finish rid total_bytes digest \<Rightarrow> attachment_header 3 rid @ u64_be total_bytes @ digest @ as_bytes rid
      | Cancel rid \<Rightarrow> attachment_header 4 rid @ as_bytes rid)"

lemma attachment_encode_eq:
  "attachment_encode f mdu =
     (let rid = snd (attachment_kind_and_id f) in
      if rid = [] \<or> length rid > 128 then Inl InvalidResourceId
      else if length (attachment_bytes f) > mdu then Inl PayloadTooLarge
      else Inr (attachment_bytes f))"
  by (cases f)
    (auto simp: attachment_encode_def attachment_kind_and_id_def attachment_bytes_def
      attachment_header_def CHANNEL_ATTACHMENT_MAX_RESOURCE_ID_BYTES_def Let_def
      unsigned_of_nat take_bit_nat_eq_self)

lemma read_u64_be [simp]: "read_u64 (u64_be x) = Inr x"
  using unsigned_less [of x, where ?'a = nat] by (simp add: read_u64_def)

lemma read_u64_Inr: "read_u64 bs = Inr x \<longleftrightarrow> bs = u64_be x"
proof
  assume "read_u64 bs = Inr x"
  then have len: "length bs = 8" and x: "x = word_of_nat (from_be bs)"
    by (auto simp: read_u64_def split: if_splits)
  have "unat x = from_be bs"
    using from_be_less [of bs] len by (simp add: x unsigned_of_nat take_bit_nat_eq_self)
  then show "bs = u64_be x" using be_bytes_from_be [of bs] len by simp
qed simp

lemma decode_header:
  assumes "length raw \<ge> 8" "take 4 raw = ATTACHMENT_MAGIC" "raw ! 4 = ATTACHMENT_VERSION"
  shows "raw = ATTACHMENT_MAGIC @ [ATTACHMENT_VERSION, raw ! 5]
     @ be_bytes 2 (from_be [raw ! 6, raw ! 7]) @ drop 8 raw"
proof -
  have "raw = take 4 raw @ raw ! 4 # raw ! 5 # raw ! 6 # raw ! 7 # drop 8 raw"
    using assms(1) Cons_nth_drop_Suc [of 4 raw] Cons_nth_drop_Suc [of 5 raw]
      Cons_nth_drop_Suc [of 6 raw] Cons_nth_drop_Suc [of 7 raw] append_take_drop_id [of 4 raw]
    by simp
  moreover have "be_bytes 2 (from_be [raw ! 6, raw ! 7]) = [raw ! 6, raw ! 7]"
    using be_bytes_from_be [of "[raw ! 6, raw ! 7]"] by (simp add: numeral_2_eq_2)
  ultimately show ?thesis using assms(2,3) by simp
qed

lemma drop_slice: "a \<le> k \<Longrightarrow> drop a raw = slice raw a k @ drop k raw"
  by (metis append_take_drop_id drop_drop le_add_diff_inverse2 slice_def)

lemma length_slice [simp]: "length (slice xs a b) = min (length xs - a) (b - a)"
  by (simp add: slice_def min.commute)

text \<open>The bytes after the header, per kind.\<close>

lemma decode_Inr_bytes:
  assumes "attachment_decode raw = Inr f"
  shows "attachment_valid f \<and> raw = attachment_bytes f"
proof -
  define rid_len where "rid_len = from_be [raw ! 6, raw ! 7]"
  have hd: "length raw \<ge> 8" "take 4 raw = ATTACHMENT_MAGIC" "raw ! 4 = ATTACHMENT_VERSION"
    and len: "rid_len \<noteq> 0" "rid_len \<le> 128"
    using assms by (auto simp: attachment_decode_def rid_len_def
        CHANNEL_ATTACHMENT_MAX_RESOURCE_ID_BYTES_def Let_def split: if_splits)
  have raw: "raw = ATTACHMENT_MAGIC @ [ATTACHMENT_VERSION, raw ! 5] @ be_bytes 2 rid_len @ drop 8 raw"
    unfolding rid_len_def by (rule decode_header [OF hd])
  have rid: "wf_str s \<and> s \<noteq> [] \<and> length s \<le> 128 \<and> slice raw k (k + rid_len) = as_bytes s
      \<and> length s = rid_len"
    if "from_utf8 (slice raw k (k + rid_len)) = Some s" "k + rid_len \<le> length raw" for k s
  proof -
    have bytes: "slice raw k (k + rid_len) = as_bytes s" "wf_str s"
      using from_utf8_SomeD [OF that(1)] by auto
    then have "length s = rid_len" using that(2) by (metis diff_add_inverse length_as_bytes
          length_slice min.absorb2 add_le_imp_le_diff add.commute)
    then show ?thesis using bytes len by auto
  qed
  have tail: "drop (k + rid_len) raw = []" if "length raw = k + rid_len" for k
    using that by simp
  consider "raw ! 5 = 1" | "raw ! 5 = 2" | "raw ! 5 = 3" | "raw ! 5 = 4"
    using assms by (auto simp: attachment_decode_def Let_def split: if_splits)
  then show ?thesis
  proof cases
    case 1
    then obtain s x where f: "f = Start s x" and s: "from_utf8 (slice raw 16 (16 + rid_len)) = Some s"
      and x: "slice raw 8 16 = u64_be x" and l: "length raw = 16 + rid_len"
      using assms by (auto simp: attachment_decode_def Let_def read_u64_Inr rid_len_def [symmetric]
          split: if_splits)
    note r = rid [OF s]
    have "drop 8 raw = u64_be x @ as_bytes s"
      using drop_slice [of 8 16 raw] drop_slice [of 16 "16 + rid_len" raw] r l x tail [OF l] by simp
    then show ?thesis using raw 1 r l f
      by (simp add: attachment_valid_def attachment_kind_and_id_def attachment_bytes_def
          attachment_header_def)
  next
    case 2
    then obtain s x where f: "f = Data s x (drop (16 + rid_len) raw)"
      and s: "from_utf8 (slice raw 16 (16 + rid_len)) = Some s"
      and x: "slice raw 8 16 = u64_be x" and l: "16 + rid_len \<le> length raw"
      using assms by (auto simp: attachment_decode_def Let_def read_u64_Inr rid_len_def [symmetric]
          split: if_splits)
    note r = rid [OF s l]
    have "drop 8 raw = u64_be x @ as_bytes s @ drop (16 + rid_len) raw"
      using drop_slice [of 8 16 raw] drop_slice [of 16 "16 + rid_len" raw] r x by simp
    then show ?thesis using raw 2 r f
      by (simp add: attachment_valid_def attachment_kind_and_id_def attachment_bytes_def
          attachment_header_def)
  next
    case 3
    then obtain s x where f: "f = Finish s x (slice raw 16 48)"
      and s: "from_utf8 (slice raw 48 (48 + rid_len)) = Some s"
      and x: "slice raw 8 16 = u64_be x" and l: "length raw = 48 + rid_len"
      using assms by (auto simp: attachment_decode_def Let_def read_u64_Inr rid_len_def [symmetric]
          split: if_splits)
    note r = rid [OF s]
    have "drop 8 raw = u64_be x @ slice raw 16 48 @ as_bytes s"
      using drop_slice [of 8 16 raw] drop_slice [of 16 48 raw] drop_slice [of 48 "48 + rid_len" raw]
        r l x tail [OF l] by simp
    then show ?thesis using raw 3 r l f
      by (simp add: attachment_valid_def attachment_kind_and_id_def attachment_bytes_def
          attachment_header_def)
  next
    case 4
    then obtain s where f: "f = Cancel s" and s: "from_utf8 (slice raw 8 (8 + rid_len)) = Some s"
      and l: "length raw = 8 + rid_len"
      using assms by (auto simp: attachment_decode_def Let_def rid_len_def [symmetric]
          split: if_splits)
    note r = rid [OF s]
    have "drop 8 raw = as_bytes s"
      using drop_slice [of 8 "8 + rid_len" raw] r l tail [OF l] by simp
    then show ?thesis using raw 4 r l f
      by (simp add: attachment_valid_def attachment_kind_and_id_def attachment_bytes_def
          attachment_header_def)
  qed
qed

lemma header_facts:
  assumes "length s \<le> 128"
  shows "length (attachment_header kind s) = 8"
    and "take 4 (attachment_header kind s @ r) = ATTACHMENT_MAGIC"
    and "(attachment_header kind s @ r) ! 4 = ATTACHMENT_VERSION"
    and "(attachment_header kind s @ r) ! 5 = kind"
    and "from_be [(attachment_header kind s @ r) ! 6, (attachment_header kind s @ r) ! 7] = length s"
proof -
  have be: "be_bytes 2 (length s) = [be_bytes 2 (length s) ! 0, be_bytes 2 (length s) ! 1]"
    by (simp add: numeral_2_eq_2)
  have "from_be (be_bytes 2 (length s)) = length s" using assms by simp
  then show "from_be [(attachment_header kind s @ r) ! 6, (attachment_header kind s @ r) ! 7] = length s"
    using be by (simp add: attachment_header_def ATTACHMENT_MAGIC_def nth_append)
qed (simp_all add: attachment_header_def ATTACHMENT_MAGIC_def)

lemma decode_bytes:
  assumes "attachment_valid f"
  shows "attachment_decode (attachment_bytes f) = Inr f"
proof -
  define s where "s = snd (attachment_kind_and_id f)"
  have s: "wf_str s" "s \<noteq> []" "length s \<le> 128"
    using assms by (auto simp: attachment_valid_def s_def Let_def)
  note h = header_facts [OF s(3)]
  show ?thesis
  proof (cases f)
    case (Start s' x)
    then have [simp]: "s' = s" by (simp add: s_def attachment_kind_and_id_def)
    have "slice (attachment_bytes f) 8 16 = u64_be x"
      "slice (attachment_bytes f) 16 (16 + length s) = as_bytes s"
      using h(1) [of 1] by (simp_all add: Start attachment_bytes_def slice_def)
    then show ?thesis using s h [of 1]
      by (simp add: Start attachment_decode_def attachment_bytes_def
          CHANNEL_ATTACHMENT_MAX_RESOURCE_ID_BYTES_def)
  next
    case (Data s' x bs)
    then have [simp]: "s' = s" by (simp add: s_def attachment_kind_and_id_def)
    have "slice (attachment_bytes f) 8 16 = u64_be x"
      "slice (attachment_bytes f) 16 (16 + length s) = as_bytes s"
      "drop (16 + length s) (attachment_bytes f) = bs"
      using h(1) [of 2] by (simp_all add: Data attachment_bytes_def slice_def)
    then show ?thesis using s h [of 2]
      by (simp add: Data attachment_decode_def attachment_bytes_def
          CHANNEL_ATTACHMENT_MAX_RESOURCE_ID_BYTES_def)
  next
    case (Finish s' x digest)
    then have [simp]: "s' = s" and d: "length digest = 32"
      using assms by (simp_all add: s_def attachment_kind_and_id_def attachment_valid_def)
    have "slice (attachment_bytes f) 8 16 = u64_be x"
      "slice (attachment_bytes f) 48 (48 + length s) = as_bytes s"
      "slice (attachment_bytes f) 16 48 = digest"
      using h(1) [of 3] d by (simp_all add: Finish attachment_bytes_def slice_def)
    then show ?thesis using s h [of 3] d
      by (simp add: Finish attachment_decode_def attachment_bytes_def
          CHANNEL_ATTACHMENT_MAX_RESOURCE_ID_BYTES_def)
  next
    case (Cancel s')
    then have [simp]: "s' = s" by (simp add: s_def attachment_kind_and_id_def)
    have "slice (attachment_bytes f) 8 (8 + length s) = as_bytes s"
      using h(1) [of 4] by (simp_all add: Cancel attachment_bytes_def slice_def)
    then show ?thesis using s h [of 4]
      by (simp add: Cancel attachment_decode_def attachment_bytes_def
          CHANNEL_ATTACHMENT_MAX_RESOURCE_ID_BYTES_def)
  qed
qed

lemma attachment_encode_Inr:
  "attachment_valid f \<Longrightarrow>
     attachment_encode f mdu = Inr raw \<longleftrightarrow> length (attachment_bytes f) \<le> mdu \<and> raw = attachment_bytes f"
  by (auto simp: attachment_encode_eq attachment_valid_def Let_def)

interpretation attachment: strict_codec "\<lambda>f. attachment_encode f mdu"
    "\<lambda>raw. if length raw \<le> mdu then attachment_decode raw else Inl PayloadTooLarge"
    "\<lambda>f. attachment_valid f \<and> length (attachment_bytes f) \<le> mdu"
  for mdu
  by unfold_locales
    (auto simp: attachment_encode_Inr decode_bytes dest!: decode_Inr_bytes split: if_splits)

section \<open>Properties\<close>

text \<open>
  a byte string decodes to an attachment frame exactly when it is the encoding of that frame
  and the frame is valid (a UTF-8 resource id of 1 to 128 bytes, a 32-byte digest): the format
  has no second encoding of a frame and no trailing bytes are ignored.
\<close>

theorem attachment_decode_exact:
  "attachment_decode raw = Inr f \<longleftrightarrow>
     attachment_valid f \<and> attachment_encode f (length raw) = Inr raw"
  using attachment.dec_iff [where mdu = "length raw" and w = raw and m = f] attachment_encode_Inr [of f "length raw" raw]
  by auto

text \<open>
  a data frame fits the channel's payload limit exactly when its bytes and the header length
  the sender computed do, so chunks cut by \<^verbatim>\<open>data_header_len\<close> are never refused and never one
  byte too long.
\<close>

theorem attachment_data_fits:
  assumes "data_header_len rid = Inr header"
  shows "(\<exists>raw. attachment_encode (Data rid offset bs) mdu = Inr raw \<and> length raw = header + length bs)
     \<longleftrightarrow> header + length bs \<le> mdu"
  using assms
  by (auto simp: data_header_len_def attachment_encode_eq attachment_kind_and_id_def
      attachment_bytes_def attachment_header_def ATTACHMENT_MAGIC_def Let_def
      CHANNEL_ATTACHMENT_MAX_RESOURCE_ID_BYTES_def split: if_splits)

theorem attachment_data_fits_witness:
  "data_header_len ''r1'' = Inr 18
   \<and> ((\<exists>raw. attachment_encode (Data ''r1'' 0 [1, 2, 3]) 21 = Inr raw \<and> length raw = 18 + length [1, 2, 3 :: u8])
     \<longleftrightarrow> 18 + length [1, 2, 3 :: u8] \<le> 21)"
proof -
  have "data_header_len ''r1'' = Inr 18"
    by (simp add: data_header_len_def CHANNEL_ATTACHMENT_MAX_RESOURCE_ID_BYTES_def)
  then show ?thesis using attachment_data_fits [of "''r1''" 18 0 "[1, 2, 3]" 21] by blast
qed

end
