(* ===== verification/Channel_Upload.thy ===== *)
theory Channel_Upload
  imports Upload_Cache Channel_Attachment
begin

text \<open>
  Uploads over a link channel (\<^verbatim>\<open>handle_channel_upload_frame\<close> of \<^verbatim>\<open>server/src/session.rs\<close>): a
  start frame opens a staging file for an upload that was offered and accepted, data frames
  append to it in order, and a finish frame hands the staged file to the upload cache when the
  declared length and digest match what was received. The state is the table of stages, the store of
  offered uploads and the world of files; SHA-256 and the commit of a staged file are parameters. The
  invariant holds however often a write fails halfway.
\<close>

definition CHANNEL_UPLOAD_MAX_ITEMS :: nat where "CHANNEL_UPLOAD_MAX_ITEMS = 16"
definition CHANNEL_UPLOAD_MAX_ITEMS_PER_LINK :: nat where "CHANNEL_UPLOAD_MAX_ITEMS_PER_LINK = 4"

type_synonym LinkId = bytes

record ServerPeer =
  sp_identity_hash :: bytes
  sp_display_name :: string
  sp_lxmf_destination :: "string option"

text \<open>A running digest is the bytes it has absorbed.\<close>

record ChannelUploadStage =
  cs_identity_hash :: bytes
  cs_path :: Path
  cs_expected_bytes :: nat
  cs_written_bytes :: nat
  cs_digest :: bytes

record 'w ChannelUploads =
  cu_entries :: "(LinkId \<times> string, ChannelUploadStage) btree_map"
  cu_poisoned :: bool
  cu_pending :: PendingUploadStore
  cu_pending_poisoned :: bool
  cu_sequence :: nat
  cu_world :: 'w

definition upload_reject_frame :: "Seq \<Rightarrow> RoomId option \<Rightarrow> string \<Rightarrow> u64 \<Rightarrow> u64 \<Rightarrow> Frame" where
  "upload_reject_frame seq room_id reason quota_bytes incoming_bytes =
     frame_new UploadReject seq room_id
       (Fields [FString reason, FU64 quota_bytes, FU64 incoming_bytes])"

section \<open>Staging files\<close>

definition stage_path :: "Path \<Rightarrow> nat \<Rightarrow> Path" where
  "stage_path identity_dir sequence =
     path_join identity_dir (''.omen-channel-'' @ hex_lower (be_bytes 8 sequence) @ ''.part'')"

text \<open>\<^verbatim>\<open>create_new\<close> fails with \<^verbatim>\<open>AlreadyExists\<close> exactly on an existing path; up to 32 attempts.\<close>

fun stage_attempts ::
    "nat \<Rightarrow> 'w UploadFileOps \<Rightarrow> Path \<Rightarrow> nat \<Rightarrow> 'w \<Rightarrow> (ServerError + Path) \<times> nat \<times> 'w" where
  "stage_attempts 0 ops dir sequence w =
     (Inl (Message ''could not allocate a unique Channel upload staging file''), sequence, w)"
| "stage_attempts (Suc n) ops dir sequence w =
     (let path = stage_path dir sequence in
      if op_exists ops path w then stage_attempts n ops dir (sequence + 1) w
      else case op_create_temp ops path w of
        (Inr _, w) \<Rightarrow> (Inr path, sequence + 1, w)
      | (Inl e, w) \<Rightarrow> (Inl e, sequence + 1, w))"

definition create_channel_upload_stage ::
    "'w UploadFileOps \<Rightarrow> UploadPolicy \<Rightarrow> bytes \<Rightarrow> nat \<Rightarrow> 'w \<Rightarrow> (ServerError + Path) \<times> nat \<times> 'w" where
  "create_channel_upload_stage ops policy identity_hash sequence w =
     (let dir = upload_identity_dir_for_root (up_cache_root policy) identity_hash in
      case op_ensure_dir ops (up_cache_root policy) dir w of
        (Inl e, w) \<Rightarrow> (Inl e, sequence, w)
      | (Inr _, w) \<Rightarrow> stage_attempts 32 ops dir sequence w)"

section \<open>The four frames\<close>

text \<open>With the lock on the stages held: one stage per key, 16 in all and four per link.\<close>

definition channel_upload_open ::
    "'w UploadFileOps \<Rightarrow> SessionLimits \<Rightarrow> LinkId \<Rightarrow> ServerPeer \<Rightarrow> string \<Rightarrow> u64 \<Rightarrow> RoomId \<Rightarrow> Path \<Rightarrow> 'w ChannelUploads
      \<Rightarrow> (ServerError + Frame list) \<times> 'w ChannelUploads" where
  "channel_upload_open ops limits link_id peer resource_id total_bytes room_id cache_root st =
     (let key = (link_id, resource_id) in
      if bt_get (cu_entries st) key \<noteq> None then (Inr [], st)
      else if length (cu_entries st) \<ge> CHANNEL_UPLOAD_MAX_ITEMS
         \<or> bt_count (\<lambda>(candidate, _) _. candidate = link_id) (cu_entries st)
            \<ge> CHANNEL_UPLOAD_MAX_ITEMS_PER_LINK
      then (Inr [upload_reject_frame 0 (Some room_id) ''too many active Channel uploads''
              (upload_quota_bytes limits) total_bytes], st)
      else
        case create_channel_upload_stage ops
          \<lparr>up_cache_root = cache_root, up_quota_bytes = unat (upload_quota_bytes limits)\<rparr>
          (sp_identity_hash peer) (cu_sequence st) (cu_world st) of
          (Inl e, sequence, w) \<Rightarrow> (Inl e, st\<lparr>cu_sequence := sequence, cu_world := w\<rparr>)
        | (Inr path, sequence, w) \<Rightarrow>
            (Inr [], st\<lparr>cu_sequence := sequence, cu_world := w,
               cu_entries := bt_insert key
                 \<lparr>cs_identity_hash = sp_identity_hash peer, cs_path = path,
                  cs_expected_bytes = unat total_bytes, cs_written_bytes = 0, cs_digest = []\<rparr>
                 (cu_entries st)\<rparr>))"

definition channel_upload_start ::
    "'w UploadFileOps \<Rightarrow> SessionLimits \<Rightarrow> nat \<Rightarrow> LinkId \<Rightarrow> ServerPeer \<Rightarrow> string \<Rightarrow> u64 \<Rightarrow> 'w ChannelUploads
      \<Rightarrow> (ServerError + Frame list) \<times> 'w ChannelUploads" where
  "channel_upload_start ops limits now link_id peer resource_id total_bytes st =
     (let reject = (\<lambda>room reason st. (Inr [upload_reject_frame 0 room reason
            (upload_quota_bytes limits) total_bytes], st)) in
      if cu_pending_poisoned st then (Inl (Message ''pending upload lock poisoned''), st)
      else
        let (found, store) = get_for_identity resource_id (sp_identity_hash peer) now (cu_pending st);
            st = st\<lparr>cu_pending := store\<rparr> in
        case found of
          None \<Rightarrow> reject None ''unknown or expired Channel upload'' st
        | Some pending \<Rightarrow>
            let room = Some (pu_room_id pending) in
            if pu_incoming_bytes pending \<noteq> total_bytes \<or> total_bytes = 0
               \<or> total_bytes > upload_max_file_bytes limits
            then reject room ''Channel upload size mismatch'' st
            else case upload_cache_root limits of
              None \<Rightarrow> reject room ''upload cache is unavailable'' st
            | Some cache_root \<Rightarrow>
                if cu_poisoned st then (Inl (Message ''Channel upload lock poisoned''), st)
                else channel_upload_open ops limits link_id peer resource_id total_bytes
                  (pu_room_id pending) cache_root st)"

definition channel_upload_data ::
    "'w UploadFileOps \<Rightarrow> LinkId \<Rightarrow> ServerPeer \<Rightarrow> string \<Rightarrow> u64 \<Rightarrow> bytes \<Rightarrow> 'w ChannelUploads
      \<Rightarrow> (ServerError + Frame list) \<times> 'w ChannelUploads" where
  "channel_upload_data ops link_id peer resource_id offset bytes st =
     (if bytes = [] then (Inl (Message ''empty Channel upload data frame''), st)
      else if cu_poisoned st then (Inl (Message ''Channel upload lock poisoned''), st)
      else
        let key = (link_id, resource_id) in
        case bt_get (cu_entries st) key of
          None \<Rightarrow> (Inl (Message ''Channel upload data arrived without an accepted start''), st)
        | Some stage \<Rightarrow>
            if cs_identity_hash stage \<noteq> sp_identity_hash peer
               \<or> unat offset \<noteq> cs_written_bytes stage
               \<or> usize_saturating_add (unat offset) (length bytes) > cs_expected_bytes stage
            then (Inl (Message ''Channel upload ownership, offset, or length mismatch''),
                  st\<lparr>cu_entries := bt_remove key (cu_entries st),
                     cu_world := snd (op_remove_file ops (cs_path stage) (cu_world st))\<rparr>)
            else
              case op_write_all ops (cs_path stage) bytes (cu_world st) of
                (Inl e, w) \<Rightarrow> (Inl e, st\<lparr>cu_world := w\<rparr>)
              | (Inr _, w) \<Rightarrow>
                  (Inr [], st\<lparr>cu_world := w,
                     cu_entries := bt_insert key
                       (stage\<lparr>cs_digest := cs_digest stage @ bytes,
                              cs_written_bytes := cs_written_bytes stage + length bytes\<rparr>)
                       (cu_entries st)\<rparr>))"

definition channel_upload_finish ::
    "'w UploadFileOps \<Rightarrow> (bytes \<Rightarrow> bytes) \<Rightarrow> (string \<Rightarrow> Path \<Rightarrow> u64 \<Rightarrow> 'w ChannelUploads
        \<Rightarrow> (ServerError + Frame list) \<times> 'w ChannelUploads) \<Rightarrow> SessionLimits \<Rightarrow> LinkId \<Rightarrow> ServerPeer \<Rightarrow> string
      \<Rightarrow> u64 \<Rightarrow> bytes \<Rightarrow> 'w ChannelUploads \<Rightarrow> (ServerError + Frame list) \<times> 'w ChannelUploads" where
  "channel_upload_finish ops sha256 commit limits link_id peer resource_id total_bytes digest st =
     (if cu_poisoned st then (Inl (Message ''Channel upload lock poisoned''), st)
      else
        let key = (link_id, resource_id) in
        case bt_get (cu_entries st) key of
          None \<Rightarrow> (Inl (Message ''Channel upload finish arrived without an active stage''), st)
        | Some stage \<Rightarrow>
            let st = st\<lparr>cu_entries := bt_remove key (cu_entries st)\<rparr> in
            if cs_identity_hash stage \<noteq> sp_identity_hash peer
               \<or> cs_expected_bytes stage \<noteq> unat total_bytes
               \<or> cs_written_bytes stage \<noteq> unat total_bytes
               \<or> sha256 (cs_digest stage) \<noteq> digest
            then (Inr [upload_reject_frame 0 None ''Channel upload digest or length mismatch''
                    (upload_quota_bytes limits) (word_of_nat (cs_written_bytes stage))],
                  st\<lparr>cu_world := snd (op_remove_file ops (cs_path stage) (cu_world st))\<rparr>)
            else
              case op_flush ops (cs_path stage) (cu_world st) of
                (Inl e, w) \<Rightarrow> (Inl e, st\<lparr>cu_world := w\<rparr>)
              | (Inr _, w) \<Rightarrow>
                  (case op_sync_file ops (cs_path stage) w of
                     (Inl e, w) \<Rightarrow> (Inl e, st\<lparr>cu_world := w\<rparr>)
                   | (Inr _, w) \<Rightarrow> commit resource_id (cs_path stage) total_bytes (st\<lparr>cu_world := w\<rparr>)))"

definition channel_upload_cancel ::
    "'w UploadFileOps \<Rightarrow> LinkId \<Rightarrow> string \<Rightarrow> 'w ChannelUploads
      \<Rightarrow> (ServerError + Frame list) \<times> 'w ChannelUploads" where
  "channel_upload_cancel ops link_id resource_id st =
     (if cu_poisoned st then (Inl (Message ''Channel upload lock poisoned''), st)
      else
        case bt_get (cu_entries st) (link_id, resource_id) of
          None \<Rightarrow> (Inr [], st)
        | Some stage \<Rightarrow>
            (Inr [], st\<lparr>cu_entries := bt_remove (link_id, resource_id) (cu_entries st),
               cu_world := snd (op_remove_file ops (cs_path stage) (cu_world st))\<rparr>))"

definition handle_channel_upload_frame ::
    "'w UploadFileOps \<Rightarrow> (bytes \<Rightarrow> bytes) \<Rightarrow> (string \<Rightarrow> Path \<Rightarrow> u64 \<Rightarrow> 'w ChannelUploads
        \<Rightarrow> (ServerError + Frame list) \<times> 'w ChannelUploads) \<Rightarrow> SessionLimits \<Rightarrow> nat \<Rightarrow> LinkId \<Rightarrow> ServerPeer
      \<Rightarrow> ChannelAttachmentFrame \<Rightarrow> 'w ChannelUploads \<Rightarrow> (ServerError + Frame list) \<times> 'w ChannelUploads" where
  "handle_channel_upload_frame ops sha256 commit limits now link_id peer frame st =
     (case frame of
        Start resource_id total_bytes \<Rightarrow>
          channel_upload_start ops limits now link_id peer resource_id total_bytes st
      | Data resource_id offset bytes \<Rightarrow> channel_upload_data ops link_id peer resource_id offset bytes st
      | Finish resource_id total_bytes digest \<Rightarrow>
          channel_upload_finish ops sha256 commit limits link_id peer resource_id total_bytes digest st
      | Cancel resource_id \<Rightarrow> channel_upload_cancel ops link_id resource_id st)"

text \<open>
  The commit of a staged file. What the database decides and records is a parameter: \<open>gate\<close> stands for
  the checks of the publisher and the room (a rejection frame, or none), \<open>planner\<close> for the quota
  plan of the upload index, \<open>record_upload\<close> for the row of the new file and \<open>publish\<close> for the room event.
\<close>

record 'w UploadStore =
  us_gate :: "PendingUpload \<Rightarrow> ('w, Frame option) io"
  us_planner :: "PendingUpload \<Rightarrow> nat \<Rightarrow> ('w, UploadQuotaDecision) io"
  us_record :: "PendingUpload \<Rightarrow> StoredUpload \<Rightarrow> ('w, unit) io"
  us_publish :: "PendingUpload \<Rightarrow> StoredUpload \<Rightarrow> ('w, Frame) io"

definition upload_complete_frame :: "string \<Rightarrow> PendingUpload \<Rightarrow> StoredUpload \<Rightarrow> Frame" where
  "upload_complete_frame resource_id upload stored =
     frame_new UploadComplete 0 (Some (pu_room_id upload))
       (Fields [FString resource_id, FString (pu_filename upload), FU64 (word_of_nat (su_bytes stored)),
         FU64 (word_of_nat (length (su_evicted stored)))])"

definition commit_channel_upload_stage ::
    "'w UploadFileOps \<Rightarrow> 'w UploadStore \<Rightarrow> SessionLimits \<Rightarrow> nat \<Rightarrow> nat \<Rightarrow> ServerPeer \<Rightarrow> string \<Rightarrow> Path \<Rightarrow> u64
      \<Rightarrow> 'w ChannelUploads \<Rightarrow> (ServerError + Frame list) \<times> 'w ChannelUploads" where
  "commit_channel_upload_stage ops store limits now millis peer resource_id staged incoming_bytes st =
     (if cu_pending_poisoned st then (Inl (Message ''pending upload lock poisoned''), st)
      else
        let (taken, pending) = take_for_identity resource_id (sp_identity_hash peer) now (cu_pending st);
            st = st\<lparr>cu_pending := pending\<rparr>;
            reject = (\<lambda>frame st. (Inr [frame],
              st\<lparr>cu_world := snd (op_remove_file ops staged (cu_world st))\<rparr>));
            refuse = (\<lambda>room reason st. reject
              (upload_reject_frame 0 room reason (upload_quota_bytes limits) incoming_bytes) st) in
        case taken of
          Found upload \<Rightarrow>
            let room = Some (pu_room_id upload) in
            if pu_incoming_bytes upload \<noteq> incoming_bytes then refuse room ''Channel upload size mismatch'' st
            else
              (case us_gate store upload (cu_world st) of
                 (Inl e, w) \<Rightarrow> (Inl e, st\<lparr>cu_world := w\<rparr>)
               | (Inr (Some frame), w) \<Rightarrow> reject frame (st\<lparr>cu_world := w\<rparr>)
               | (Inr None, w) \<Rightarrow>
                   (case upload_cache_root limits of
                      None \<Rightarrow> refuse room ''upload cache is unavailable'' (st\<lparr>cu_world := w\<rparr>)
                    | Some cache_root \<Rightarrow>
                        (case commit_staged_upload_with_policy_indexed_and_commit False
                            \<lparr>up_cache_root = cache_root, up_quota_bytes = unat (upload_quota_bytes limits)\<rparr>
                            millis (pu_filename upload) staged (unat incoming_bytes)
                            (us_planner store upload) (us_record store upload) ops w of
                           (Inl e, w) \<Rightarrow> (Inl e, st\<lparr>cu_world := w\<rparr>)
                         | (Inr stored, w) \<Rightarrow>
                             (case us_publish store upload stored w of
                                (Inl e, w) \<Rightarrow> (Inl e, st\<lparr>cu_world := w\<rparr>)
                              | (Inr event, w) \<Rightarrow>
                                  (Inr [upload_complete_frame resource_id upload stored, event],
                                   st\<lparr>cu_world := w\<rparr>)))))
        | _ \<Rightarrow> refuse None ''unknown, expired, or mismatched Channel upload'' st)"

text \<open>A closed link: its stages are dropped and their files removed.\<close>

fun remove_stage_files :: "'w UploadFileOps \<Rightarrow> ChannelUploadStage list \<Rightarrow> 'w \<Rightarrow> 'w" where
  "remove_stage_files ops [] w = w"
| "remove_stage_files ops (stage # stages) w =
     remove_stage_files ops stages (snd (op_remove_file ops (cs_path stage) w))"

definition channel_uploads_remove_link ::
    "'w UploadFileOps \<Rightarrow> LinkId \<Rightarrow> 'w ChannelUploads \<Rightarrow> nat \<times> 'w ChannelUploads" where
  "channel_uploads_remove_link ops link_id st =
     (let gone = filter (\<lambda>((candidate, _), _). candidate = link_id) (cu_entries st) in
      (length gone, st\<lparr>cu_entries := bt_remove_all (map fst gone) (cu_entries st),
         cu_world := remove_stage_files ops (map snd gone) (cu_world st)\<rparr>))"

definition discard_channel_uploads_for_link ::
    "'w UploadFileOps \<Rightarrow> LinkId \<Rightarrow> 'w ChannelUploads \<Rightarrow> (ServerError + nat) \<times> 'w ChannelUploads" where
  "discard_channel_uploads_for_link ops link_id st =
     (if cu_poisoned st then (Inl (Message ''Channel upload lock poisoned''), st)
      else let (n, st) = channel_uploads_remove_link ops link_id st in (Inr n, st))"

section \<open>The invariant\<close>

text \<open>
  A stage has received what its digest absorbed, within the declared size. Its file holds exactly
  those bytes, or is longer than them: a write that failed halfway leaves it longer for good.
\<close>

definition stage_ok :: "(Path \<Rightarrow> bytes option) \<Rightarrow> ChannelUploadStage \<Rightarrow> bool" where
  "stage_ok fs stage \<longleftrightarrow>
     cs_written_bytes stage = length (cs_digest stage)
     \<and> cs_written_bytes stage \<le> cs_expected_bytes stage \<and> cs_expected_bytes stage < 2 ^ 64 - 1
     \<and> (\<exists>content. fs (cs_path stage) = Some content
          \<and> (content = cs_digest stage \<or> cs_written_bytes stage < length content))"

definition stages_ok ::
    "(Path \<Rightarrow> bytes option) \<Rightarrow> (LinkId \<times> string, ChannelUploadStage) btree_map \<Rightarrow> bool" where
  "stages_ok fs m \<longleftrightarrow>
     bt_ok m \<and> length m \<le> CHANNEL_UPLOAD_MAX_ITEMS
     \<and> (\<forall>link. bt_count (\<lambda>(candidate, _) _. candidate = link) m \<le> CHANNEL_UPLOAD_MAX_ITEMS_PER_LINK)
     \<and> (\<forall>k stage. bt_get m k = Some stage \<longrightarrow> stage_ok fs stage)
     \<and> (\<forall>k k' stage stage'. bt_get m k = Some stage \<longrightarrow> bt_get m k' = Some stage'
          \<longrightarrow> cs_path stage = cs_path stage' \<longrightarrow> k = k')"

declare split_paired_All [simp del]

lemma stage_ok_cong: "fs (cs_path stage) = fs' (cs_path stage) \<Longrightarrow> stage_ok fs stage = stage_ok fs' stage"
  by (simp add: stage_ok_def)

text \<open>Appending to the file of a stage, by a successful write or by part of a failed one.\<close>

lemma stage_ok_append:
  assumes "stage_ok fs stage" "fs (cs_path stage) = Some content" "fs' (cs_path stage) = Some (content @ extra)"
  shows "stage_ok fs' stage"
    and "extra = bs \<Longrightarrow> cs_written_bytes stage + length bs \<le> cs_expected_bytes stage \<Longrightarrow>
      stage_ok fs' (stage\<lparr>cs_digest := cs_digest stage @ bs, cs_written_bytes := cs_written_bytes stage + length bs\<rparr>)"
  using assms by (auto simp: stage_ok_def)

lemma stages_ok_frame:
  assumes "stages_ok fs m" "\<And>k stage. bt_get m k = Some stage \<Longrightarrow> fs' (cs_path stage) = fs (cs_path stage)"
  shows "stages_ok fs' m"
  using assms stage_ok_cong [of fs _ fs'] unfolding stages_ok_def by (metis (no_types, lifting))

lemma stages_ok_retain:
  assumes "stages_ok fs m"
    and "\<And>k stage. bt_get m k = Some stage \<Longrightarrow> p k stage \<Longrightarrow> fs' (cs_path stage) = fs (cs_path stage)"
  shows "stages_ok fs' (bt_retain p m)"
proof -
  have ok: "bt_ok m" using assms(1) by (simp add: stages_ok_def)
  have "bt_count q (bt_retain p m) \<le> bt_count q m" for q by (rule bt.cnt_ret_le [OF ok])
  moreover have "length (bt_retain p m) \<le> length m" by (rule length_bt_retain)
  ultimately have "stages_ok fs (bt_retain p m)"
    using assms(1) unfolding stages_ok_def
    by (auto simp: bt_ok_retain bt_get_retain [OF ok] elim!: le_trans intro: le_trans)
  then show ?thesis by (rule stages_ok_frame) (use assms(2) ok in \<open>auto simp: bt_get_retain\<close>)
qed

text \<open>Replacing a stage by one with the same file.\<close>

lemma stages_ok_update:
  assumes "stages_ok fs m" "bt_get m k = Some stage" "cs_path stage' = cs_path stage" "stage_ok fs' stage'"
    and "\<And>k' st. bt_get m k' = Some st \<Longrightarrow> k' \<noteq> k \<Longrightarrow> fs' (cs_path st) = fs (cs_path st)"
  shows "stages_ok fs' (bt_insert k stage' m)"
proof -
  have ok: "bt_ok m" using assms(1) by (simp add: stages_ok_def)
  have "bt_count (\<lambda>(l, _) _. l = link) (bt_insert k stage' m) = bt_count (\<lambda>(l, _) _. l = link) m" for link
    using bt.cnt_ins_old [OF ok assms(2), of "\<lambda>(l, _) _. l = link" stage'] by (simp add: case_prod_unfold)
  moreover have "length (bt_insert k stage' m) = length m"
    using assms(2) by (simp add: length_bt_insert_exact [OF ok])
  moreover have "bt_get m k' = Some st \<Longrightarrow> k' \<noteq> k \<Longrightarrow> stage_ok fs' st" for k' st
    using assms(1) assms(5) [of k' st] stage_ok_cong [of fs st fs'] by (auto simp: stages_ok_def)
  ultimately show ?thesis
    using assms(1-4) unfolding stages_ok_def
    by (auto simp: bt_ok_insert bt_get_insert [OF ok] split: if_splits)
qed

lemma stages_ok_insert:
  assumes "stages_ok fs m" "bt_get m k = None" "length m < CHANNEL_UPLOAD_MAX_ITEMS"
    and "bt_count (\<lambda>(candidate, _) _. candidate = fst k) m < CHANNEL_UPLOAD_MAX_ITEMS_PER_LINK"
    and "stage_ok fs' stage" "fs (cs_path stage) = None"
    and "\<And>q. q \<noteq> cs_path stage \<Longrightarrow> fs' q = fs q"
  shows "stages_ok fs' (bt_insert k stage m)"
proof -
  have ok: "bt_ok m" using assms(1) by (simp add: stages_ok_def)
  have "bt_count (\<lambda>(l, _) _. l = link) (bt_insert k stage m) \<le> CHANNEL_UPLOAD_MAX_ITEMS_PER_LINK" for link
    using bt.cnt_ins_new [OF ok assms(2), of "\<lambda>(l, _) _. l = link" stage] assms(1,4)
    by (cases "fst k = link") (auto simp: case_prod_unfold stages_ok_def)
  moreover have "length (bt_insert k stage m) \<le> CHANNEL_UPLOAD_MAX_ITEMS"
    using assms(2,3) by (simp add: length_bt_insert_exact [OF ok])
  moreover have other: "cs_path st \<noteq> cs_path stage \<and> stage_ok fs' st" if "bt_get m k' = Some st" for k' st
  proof -
    have "stage_ok fs st" using assms(1) that by (auto simp: stages_ok_def)
    then have "cs_path st \<noteq> cs_path stage" using assms(6) by (auto simp: stage_ok_def)
    then show ?thesis using \<open>stage_ok fs st\<close> assms(7) stage_ok_cong [of fs st fs'] by auto
  qed
  ultimately show ?thesis
    using assms(1,5) unfolding stages_ok_def
    by (auto simp: bt_ok_insert bt_get_insert [OF ok] split: if_splits) (metis)+
qed

section \<open>Every frame keeps the invariant\<close>

definition uploads_ok :: "('w \<Rightarrow> Path \<Rightarrow> bytes option) \<Rightarrow> 'w ChannelUploads \<Rightarrow> bool" where
  "uploads_ok fs st \<longleftrightarrow> stages_ok (fs (cu_world st)) (cu_entries st)"

lemma uploads_okD:
  assumes "uploads_ok fs st" "bt_get (cu_entries st) k = Some stage"
  shows "stage_ok (fs (cu_world st)) stage"
    and "bt_get (cu_entries st) k' = Some stage' \<Longrightarrow> k' \<noteq> k \<Longrightarrow> cs_path stage' \<noteq> cs_path stage"
  using assms by (auto simp: uploads_ok_def stages_ok_def)

context upload_files
begin

lemma uploads_ok_drop:
  assumes "uploads_ok files st" "bt_get (cu_entries st) k = Some stage"
  shows "stages_ok (files (snd (op_remove_file ops (cs_path stage) (cu_world st)))) (bt_remove k (cu_entries st))"
  using assms uploads_okD(2) [OF assms] unfolding uploads_ok_def bt_remove_def
  by (auto intro!: stages_ok_retain remove_frame)

lemma stage_attempts_ok:
  assumes "stage_attempts n ops dir sequence w = (r, sequence', w')"
  shows "case r of Inl e \<Rightarrow> \<forall>q v. files w q = Some v \<longrightarrow> files w' q = Some v
    | Inr path \<Rightarrow> files w path = None \<and> files w' path = Some [] \<and> (\<forall>q. q \<noteq> path \<longrightarrow> files w' q = files w q)"
  using assms
proof (induction n arbitrary: sequence)
  case (Suc n)
  let ?path = "stage_path dir sequence"
  show ?case
  proof (cases "op_exists ops ?path w")
    case True
    then show ?thesis using Suc by (simp add: Let_def)
  next
    case False
    obtain c w1 where c: "op_create_temp ops ?path w = (c, w1)" by fastforce
    have "q \<noteq> ?path \<Longrightarrow> files w1 q = files w q" for q using create_frame [of q ?path w] c by simp
    then show ?thesis
      using Suc.prems False c create_ok [of ?path w w1]
      by (cases c) (auto simp: Let_def exists_files, metis option.distinct(1))
  qed
qed auto

lemma create_stage_ok:
  assumes "create_channel_upload_stage ops policy identity sequence w = (r, sequence', w')"
  shows "case r of Inl e \<Rightarrow> \<forall>q v. files w q = Some v \<longrightarrow> files w' q = Some v
    | Inr path \<Rightarrow> files w path = None \<and> files w' path = Some [] \<and> (\<forall>q. q \<noteq> path \<longrightarrow> files w' q = files w q)"
proof -
  let ?dir = "upload_identity_dir_for_root (up_cache_root policy) identity"
  obtain e w1 where e: "op_ensure_dir ops (up_cache_root policy) ?dir w = (e, w1)" by fastforce
  have w1: "files w1 q = files w q" for q
    using ensure_dir_frame [of "up_cache_root policy" ?dir w q] e by simp
  show ?thesis
    using assms e w1 stage_attempts_ok [of 32 ?dir sequence w1 r sequence' w']
    by (cases e) (auto simp: create_channel_upload_stage_def Let_def split: sum.splits)
qed

lemma stages_ok_keep:
  assumes "stages_ok (files w) m" "\<forall>q v. files w q = Some v \<longrightarrow> files w' q = Some v"
  shows "stages_ok (files w') m"
proof (rule stages_ok_frame [OF assms(1)])
  fix k stage assume "bt_get m k = Some stage"
  then have "stage_ok (files w) stage" using assms(1) by (auto simp: stages_ok_def)
  then show "files w' (cs_path stage) = files w (cs_path stage)"
    using assms(2) by (auto simp: stage_ok_def)
qed

lemma channel_upload_open_ok:
  assumes "uploads_ok files st" "unat total_bytes < 2 ^ 64 - 1"
  shows "uploads_ok files (snd (channel_upload_open ops limits link_id peer rid total_bytes room root st))"
proof -
  let ?m = "cu_entries st"
  have st: "stages_ok (files (cu_world st)) ?m" using assms(1) by (simp add: uploads_ok_def)
  show ?thesis
  proof (cases "bt_get ?m (link_id, rid) \<noteq> None \<or> length ?m \<ge> CHANNEL_UPLOAD_MAX_ITEMS
      \<or> bt_count (\<lambda>(candidate, _) _. candidate = link_id) ?m \<ge> CHANNEL_UPLOAD_MAX_ITEMS_PER_LINK")
    case True
    then show ?thesis using assms(1) by (auto simp: channel_upload_open_def Let_def)
  next
    case False
    let ?policy = "\<lparr>up_cache_root = root, up_quota_bytes = unat (upload_quota_bytes limits)\<rparr>"
    obtain r sequence w where c: "create_channel_upload_stage ops ?policy (sp_identity_hash peer)
        (cu_sequence st) (cu_world st) = (r, sequence, w)" using prod_cases3 by blast
    note ok = create_stage_ok [OF c]
    show ?thesis
    proof (cases r)
      case (Inl e)
      then have "stages_ok (files w) ?m" using ok st by (auto intro: stages_ok_keep)
      then show ?thesis using False c Inl by (simp add: channel_upload_open_def uploads_ok_def Let_def)
    next
      case (Inr path)
      let ?stage = "\<lparr>cs_identity_hash = sp_identity_hash peer, cs_path = path,
        cs_expected_bytes = unat total_bytes, cs_written_bytes = 0, cs_digest = []\<rparr>"
      have "stage_ok (files w) ?stage" using ok Inr assms(2) by (simp add: stage_ok_def)
      then have "stages_ok (files w) (bt_insert (link_id, rid) ?stage ?m)"
        using False ok Inr by (intro stages_ok_insert [OF st]) auto
      then show ?thesis using False c Inr by (simp add: channel_upload_open_def uploads_ok_def Let_def)
    qed
  qed
qed

lemma channel_upload_start_ok:
  assumes "uploads_ok files st" "unat (upload_max_file_bytes limits) < 2 ^ 64 - 1"
  shows "uploads_ok files (snd (channel_upload_start ops limits now link_id peer rid total_bytes st))"
proof -
  have "uploads_ok files (st\<lparr>cu_pending := store\<rparr>)" for store using assms(1) by (simp add: uploads_ok_def)
  moreover have "total_bytes \<le> upload_max_file_bytes limits \<Longrightarrow> unat total_bytes < 2 ^ 64 - 1"
    using assms(2) by (simp add: word_le_nat_alt)
  ultimately show ?thesis
    using assms(1) channel_upload_open_ok
    by (auto simp: channel_upload_start_def Let_def not_less split: prod.split option.split)
qed

lemma channel_upload_data_ok:
  assumes "uploads_ok files st"
  shows "uploads_ok files (snd (channel_upload_data ops link_id peer rid offset bs st))"
proof -
  let ?key = "(link_id, rid)" and ?m = "cu_entries st"
  show ?thesis
  proof (cases "bt_get ?m ?key")
    case None
    then show ?thesis using assms by (simp add: channel_upload_data_def Let_def)
  next
    case (Some stage)
    note sok = uploads_okD(1) [OF assms Some]
    have st: "stages_ok (files (cu_world st)) ?m" using assms by (simp add: uploads_ok_def)
    obtain content where content: "files (cu_world st) (cs_path stage) = Some content"
      using sok by (auto simp: stage_ok_def)
    obtain r w where wr: "op_write_all ops (cs_path stage) bs (cu_world st) = (r, w)" by fastforce
    have other: "files w (cs_path s) = files (cu_world st) (cs_path s)" if "bt_get ?m k = Some s" "k \<noteq> ?key" for k s
      using write_frame [of "cs_path s" "cs_path stage" bs "cu_world st"] uploads_okD(2) [OF assms Some that] wr by simp
    consider "bs = [] \<or> cu_poisoned st"
      | "\<not> (bs = [] \<or> cu_poisoned st)" "cs_identity_hash stage \<noteq> sp_identity_hash peer
          \<or> unat offset \<noteq> cs_written_bytes stage
          \<or> usize_saturating_add (unat offset) (length bs) > cs_expected_bytes stage"
      | "\<not> (bs = [] \<or> cu_poisoned st)" "cs_identity_hash stage = sp_identity_hash peer"
          "unat offset = cs_written_bytes stage"
          "usize_saturating_add (unat offset) (length bs) \<le> cs_expected_bytes stage" by fastforce
    then show ?thesis
    proof cases
      case 1
      then show ?thesis using assms by (auto simp: channel_upload_data_def)
    next
      case 2
      then show ?thesis
        using Some uploads_ok_drop [OF assms Some] by (auto simp: channel_upload_data_def Let_def uploads_ok_def)
    next
      case 3
      have "cs_written_bytes stage + length bs \<le> cs_expected_bytes stage"
        using 3(3,4) sok usize_saturating_add_le [of "cs_expected_bytes stage"] by (simp add: stage_ok_def)
      then have fits: "cs_written_bytes stage + length bs \<le> cs_expected_bytes stage" .
      show ?thesis
      proof (cases r)
        case (Inl e)
        then obtain k where "files w (cs_path stage) = Some (content @ take k bs)"
          using write_partial [of "cs_path stage" bs "cu_world st"] wr content by blast
        then have "stage_ok (files w) stage" using stage_ok_append(1) [OF sok content] by blast
        moreover have "stages_ok (files w) ?m"
          unfolding stages_ok_def
        proof (intro conjI allI impI)
          fix k s assume "bt_get ?m k = Some s"
          then show "stage_ok (files w) s"
            using \<open>stage_ok (files w) stage\<close> Some other st stage_ok_cong [of "files (cu_world st)" s "files w"]
            by (cases "k = ?key") (auto simp: stages_ok_def)
        qed (use st in \<open>auto simp: stages_ok_def\<close>)
        ultimately show ?thesis
          using 3 Some wr Inl by (simp add: channel_upload_data_def Let_def uploads_ok_def)
      next
        case (Inr u)
        then have "files w (cs_path stage) = Some (content @ bs)"
          using write_ok [of "cs_path stage" bs "cu_world st"] wr content by simp
        then have "stage_ok (files w) (stage\<lparr>cs_digest := cs_digest stage @ bs,
            cs_written_bytes := cs_written_bytes stage + length bs\<rparr>)"
          using stage_ok_append(2) [OF sok content _ refl] fits by blast
        then show ?thesis
          using 3 Some wr Inr stages_ok_update [OF st Some _ _ other]
          by (simp add: channel_upload_data_def Let_def uploads_ok_def)
      qed
    qed
  qed
qed

lemma channel_upload_cancel_ok:
  "uploads_ok files st \<Longrightarrow> uploads_ok files (snd (channel_upload_cancel ops link_id rid st))"
  using uploads_ok_drop [of st "(link_id, rid)"]
  by (auto simp: channel_upload_cancel_def uploads_ok_def split: option.split)

text \<open>A finish frame either leaves the commit alone, or hands it a stage that passed every check.\<close>

lemma channel_upload_finish_cases:
  assumes "uploads_ok files st"
    and "channel_upload_finish ops sha256 commit limits link_id peer rid nbytes digest st = (res, st')"
  obtains (kept) "uploads_ok files st'"
      "\<And>fs. res = Inr fs \<Longrightarrow> map fr_op fs = [UploadReject]"
  | (commit) stage content w where
      "bt_get (cu_entries st) (link_id, rid) = Some stage" "cs_identity_hash stage = sp_identity_hash peer"
      "sha256 (cs_digest stage) = digest" "length (cs_digest stage) = unat nbytes"
      "files w (cs_path stage) = Some content"
      "length content = unat nbytes \<Longrightarrow> content = cs_digest stage"
      "uploads_ok files (st\<lparr>cu_entries := bt_remove (link_id, rid) (cu_entries st), cu_world := w\<rparr>)"
      "\<And>k other. bt_get (bt_remove (link_id, rid) (cu_entries st)) k = Some other \<Longrightarrow>
         cs_path other \<noteq> cs_path stage"
      "commit rid (cs_path stage) nbytes
        (st\<lparr>cu_entries := bt_remove (link_id, rid) (cu_entries st), cu_world := w\<rparr>) = (res, st')"
proof -
  let ?key = "(link_id, rid)"
  have ok: "bt_ok (cu_entries st)" using assms(1) by (simp add: uploads_ok_def stages_ok_def)
  show ?thesis
  proof (cases "cu_poisoned st \<or> bt_get (cu_entries st) ?key = None")
    case True
    then show ?thesis using assms kept by (auto simp: channel_upload_finish_def Let_def split: if_splits)
  next
    case False
    then obtain stage where stage: "\<not> cu_poisoned st" "bt_get (cu_entries st) ?key = Some stage" by auto
    note drop = uploads_ok_drop [OF assms(1) stage(2)]
    have rest: "stages_ok (files w) (bt_remove ?key (cu_entries st))"
      if "\<And>q. files w q = files (cu_world st) q" for w
      using assms(1) that unfolding uploads_ok_def bt_remove_def by (auto intro!: stages_ok_retain)
    have sep: "cs_path other \<noteq> cs_path stage" if "bt_get (bt_remove ?key (cu_entries st)) k = Some other" for k other
      using that uploads_okD(2) [OF assms(1) stage(2)] ok by (auto simp: bt_get_remove split: if_splits)
    show ?thesis
    proof (cases "cs_identity_hash stage \<noteq> sp_identity_hash peer \<or> cs_expected_bytes stage \<noteq> unat nbytes
        \<or> cs_written_bytes stage \<noteq> unat nbytes \<or> sha256 (cs_digest stage) \<noteq> digest")
      case True
      then show ?thesis
        using assms(2) stage drop
        by (intro kept) (auto simp: channel_upload_finish_def Let_def uploads_ok_def upload_reject_frame_def frame_new_def)
    next
      case match: False
      obtain f w1 where f: "op_flush ops (cs_path stage) (cu_world st) = (f, w1)" by fastforce
      obtain g w2 where g: "op_sync_file ops (cs_path stage) w1 = (g, w2)" by fastforce
      have w: "files w1 q = files (cu_world st) q" "files w2 q = files (cu_world st) q" for q
        using flush_frame [of "cs_path stage" "cu_world st" q] sync_file_frame [of "cs_path stage" w1 q] f g by simp_all
      show ?thesis
      proof (cases "\<exists>e. f = Inl e \<or> g = Inl e")
        case True
        then show ?thesis
          using assms(2) stage match f g rest [OF w(1)] rest [OF w(2)]
          by (intro kept; cases f; cases g) (auto simp: channel_upload_finish_def Let_def uploads_ok_def)
      next
        case False
        then have fg: "f = Inr ()" "g = Inr ()" by (cases f; cases g; auto)+
        obtain content where content: "files (cu_world st) (cs_path stage) = Some content"
          "content = cs_digest stage \<or> cs_written_bytes stage < length content"
          "cs_written_bytes stage = length (cs_digest stage)"
          using uploads_okD(1) [OF assms(1) stage(2)] by (auto simp: stage_ok_def)
        show ?thesis
          using assms(2) stage match f g fg content w rest [OF w(2)] sep
          by (intro commit [of stage w2 content]) (auto simp: channel_upload_finish_def Let_def uploads_ok_def)
      qed
    qed
  qed
qed

lemma handle_channel_upload_ok:
  assumes "uploads_ok files st" "unat (upload_max_file_bytes limits) < 2 ^ 64 - 1"
    and commit: "\<And>rid path nbytes st. uploads_ok files st \<Longrightarrow>
      (\<forall>k stage. bt_get (cu_entries st) k = Some stage \<longrightarrow> cs_path stage \<noteq> path) \<Longrightarrow>
      uploads_ok files (snd (commit rid path nbytes st))"
  shows "uploads_ok files (snd (handle_channel_upload_frame ops sha256 commit limits now link_id peer frame st))"
proof (cases frame)
  case (Finish rid nbytes digest)
  obtain res st' where f: "channel_upload_finish ops sha256 commit limits link_id peer rid nbytes digest st = (res, st')"
    by fastforce
  from assms(1) f have "uploads_ok files st'"
  proof (cases rule: channel_upload_finish_cases)
    case (commit stage content w)
    then show ?thesis using assms(3) [of "st\<lparr>cu_entries := bt_remove (link_id, rid) (cu_entries st), cu_world := w\<rparr>"
        "cs_path stage" rid nbytes] by simp
  qed
  then show ?thesis using f Finish by (simp add: handle_channel_upload_frame_def)
qed (use assms channel_upload_start_ok channel_upload_data_ok channel_upload_cancel_ok in
      \<open>simp_all add: handle_channel_upload_frame_def\<close>)

text \<open>The commit stores the staged bytes, and only for the peer that offered them.\<close>

lemma commit_channel_upload_stage_stored:
  assumes store: "\<And>u w q. files (snd (us_gate store u w)) q = files w q"
      "\<And>u n w q. files (snd (us_planner store u n w)) q = files w q"
      "\<And>u s w q. files (snd (us_record store u s w)) q = files w q"
      "\<And>u s w q. files (snd (us_publish store u s w)) q = files w q"
    and res: "commit_channel_upload_stage ops store limits now millis peer rid staged nbytes st = (Inr fs, st')"
      "length fs = 2"
  shows "\<exists>upload stored event content. fs = [upload_complete_frame rid upload stored, event]
    \<and> pu_identity_hash upload = sp_identity_hash peer \<and> pu_incoming_bytes upload = nbytes
    \<and> files (cu_world st) staged = Some content \<and> length content = unat nbytes
    \<and> files (cu_world st') (su_path stored) = Some content"
proof -
  note def = commit_channel_upload_stage_def Let_def
  have p: "\<not> cu_pending_poisoned st" using res by (auto simp: def split: if_splits)
  obtain taken pending where t: "take_for_identity rid (sp_identity_hash peer) now (cu_pending st) = (taken, pending)"
    by fastforce
  obtain upload where u: "taken = Found upload" "pu_incoming_bytes upload = nbytes"
    using res p t by (cases taken) (auto simp: def split: if_splits)
  have own: "pu_identity_hash upload = sp_identity_hash peer"
    using t u(1) by (auto simp: take_for_identity_def Let_def split: option.splits if_splits)
  obtain w1 where g: "us_gate store upload (cu_world st) = (Inr None, w1)"
    using res p t u by (auto simp: def split: prod.splits sum.splits option.splits)
  obtain root where r: "upload_cache_root limits = Some root"
    using res p t u g by (cases "upload_cache_root limits") (auto simp: def)
  let ?policy = "\<lparr>up_cache_root = root, up_quota_bytes = unat (upload_quota_bytes limits)\<rparr>"
  obtain stored w2 where c: "commit_staged_upload_with_policy_indexed_and_commit False ?policy millis
      (pu_filename upload) staged (unat nbytes) (us_planner store upload) (us_record store upload) ops w1 = (Inr stored, w2)"
    using res p t u g r by (auto simp: def split: prod.splits sum.splits)
  obtain event w3 where e: "us_publish store upload stored w2 = (Inr event, w3)"
    using res p t u g r c by (auto simp: def split: prod.splits sum.splits)
  have fin: "fs = [upload_complete_frame rid upload stored, event]" "cu_world st' = w3"
    using res p t u g r c e by (auto simp: def)
  obtain content where content: "files w1 staged = Some content" "length content = unat nbytes"
      "files w2 (su_path stored) = Some content"
    using commit_staged_upload_ok [OF store(2,3) c] by blast
  moreover have "files w1 q = files (cu_world st) q" for q using store(1) [of upload "cu_world st" q] g by simp
  moreover have "files w3 q = files w2 q" for q using store(4) [of upload stored w2 q] e by simp
  ultimately show ?thesis using fin own u(2) by auto
qed

lemma finish_stores_digest:
  assumes "uploads_ok files st"
    and store: "\<And>u w q. files (snd (us_gate store u w)) q = files w q"
      "\<And>u n w q. files (snd (us_planner store u n w)) q = files w q"
      "\<And>u s w q. files (snd (us_record store u s w)) q = files w q"
      "\<And>u s w q. files (snd (us_publish store u s w)) q = files w q"
    and res: "channel_upload_finish ops sha256 (commit_channel_upload_stage ops store limits now millis peer)
        limits link_id peer rid nbytes digest st = (Inr fs, st')" "length fs = 2"
  shows "\<exists>upload stored event content. fs = [upload_complete_frame rid upload stored, event]
    \<and> pu_identity_hash upload = sp_identity_hash peer \<and> pu_incoming_bytes upload = nbytes
    \<and> files (cu_world st') (su_path stored) = Some content
    \<and> length content = unat nbytes \<and> sha256 content = digest"
  using assms(1) res(1)
proof (cases rule: channel_upload_finish_cases)
  case kept
  then show ?thesis using res(2) by (metis One_nat_def length_0_conv length_Cons length_map n_not_Suc_n numeral_2_eq_2)
next
  case (commit stage content w)
  from commit_channel_upload_stage_stored [OF store commit(9) res(2)] commit(3,5,6)
  show ?thesis by fastforce
qed

lemma remove_stage_files_frame:
  "q \<notin> cs_path ` set stages \<Longrightarrow> files (remove_stage_files ops stages w) q = files w q"
  by (induction stages arbitrary: w) (auto simp: remove_frame)

lemma remove_link_ok:
  assumes "uploads_ok files st"
  shows "uploads_ok files (snd (discard_channel_uploads_for_link ops link_id st))"
proof -
  let ?m = "cu_entries st"
  let ?gone = "filter (\<lambda>((candidate, _), _). candidate = link_id) ?m"
  have ok: "bt_ok ?m" using assms by (simp add: uploads_ok_def stages_ok_def)
  have gone: "(k, stage) \<in> set ?gone \<longleftrightarrow> bt_get ?m k = Some stage \<and> fst k = link_id" for k stage
    by (auto simp: bt_get_eq_Some [OF ok])
  have "stages_ok (files (remove_stage_files ops (map snd ?gone) (cu_world st)))
      (bt_retain (\<lambda>k _. k \<notin> set (map fst ?gone)) ?m)"
  proof (rule stages_ok_retain)
    fix k stage assume k: "bt_get ?m k = Some stage" "k \<notin> set (map fst ?gone)"
    then have "fst k \<noteq> link_id" using gone [of k stage] by force
    then have "cs_path stage \<noteq> cs_path s" if "(k', s) \<in> set ?gone" for k' s
      using gone [of k' s] that uploads_okD(2) [OF assms, of k' s k stage] k(1) by auto
    then show "files (remove_stage_files ops (map snd ?gone) (cu_world st)) (cs_path stage) = files (cu_world st) (cs_path stage)"
      by (intro remove_stage_files_frame) fastforce
  qed (use assms in \<open>simp add: uploads_ok_def\<close>)
  then show ?thesis
    using assms
    by (auto simp: discard_channel_uploads_for_link_def channel_uploads_remove_link_def uploads_ok_def
        bt_remove_all_retain Let_def)
qed

end

section \<open>Properties\<close>

text \<open>What happens on a server: frames of any peer on any link, and links that close.\<close>

datatype ChannelUploadEvent = FrameEvent nat LinkId ServerPeer ChannelAttachmentFrame | LinkClosed LinkId

primrec channel_upload_event ::
    "'w UploadFileOps \<Rightarrow> (bytes \<Rightarrow> bytes) \<Rightarrow> (string \<Rightarrow> Path \<Rightarrow> u64 \<Rightarrow> 'w ChannelUploads
        \<Rightarrow> (ServerError + Frame list) \<times> 'w ChannelUploads) \<Rightarrow> SessionLimits \<Rightarrow> ChannelUploadEvent
      \<Rightarrow> 'w ChannelUploads \<Rightarrow> 'w ChannelUploads" where
  "channel_upload_event ops sha256 commit limits (FrameEvent now link_id peer frame) st =
     snd (handle_channel_upload_frame ops sha256 commit limits now link_id peer frame st)"
| "channel_upload_event ops sha256 commit limits (LinkClosed link_id) st =
     snd (discard_channel_uploads_for_link ops link_id st)"





end
