(* ===== verification/Chat_Model.thy ===== *)
theory Chat_Model
  imports BTree_Map Reactions Pins Message_Revisions Moderation_Audit Nickname_Colours
begin

text \<open>
  The client's chat model (\<^verbatim>\<open>chat/model.rs\<close>): retained text with its limit, summaries of servers,
  rooms and users, events, and the projections of reactions, revisions and pins with the limits on what
  a client retains of them. The limit checks fold over the retained rows with one usage table per
  server, room, target and actor; they are shown equal to the statement of the limits. Sizes
  that the compiler chooses (\<^verbatim>\<open>size_of\<close>) are arguments.
\<close>

section \<open>Limits\<close>

definition CHAT_CLIENT_MAX_SESSIONS :: nat where "CHAT_CLIENT_MAX_SESSIONS = 64"
definition CHAT_SESSION_MAX_ROOMS :: nat where "CHAT_SESSION_MAX_ROOMS = 256"
definition CHAT_SESSION_MAX_ROOM_BYTES :: nat where "CHAT_SESSION_MAX_ROOM_BYTES = 512 * 1024"
definition CHAT_SESSION_MAX_USERS :: nat where "CHAT_SESSION_MAX_USERS = 1024"
definition CHAT_SESSION_MAX_USER_BYTES :: nat where "CHAT_SESSION_MAX_USER_BYTES = 1024 * 1024"
definition CHAT_SERVER_DISPLAY_MAX_BYTES :: nat where "CHAT_SERVER_DISPLAY_MAX_BYTES = 256"
definition CHAT_SERVER_ID_MAX_BYTES :: nat where "CHAT_SERVER_ID_MAX_BYTES = 4 * 1024"
definition CHAT_SERVER_DESTINATION_MAX_BYTES :: nat where "CHAT_SERVER_DESTINATION_MAX_BYTES = 4 * 1024"
definition CHAT_ROOM_NAME_MAX_BYTES :: nat where "CHAT_ROOM_NAME_MAX_BYTES = 64"
definition CHAT_ROOM_TOPIC_MAX_BYTES :: nat where "CHAT_ROOM_TOPIC_MAX_BYTES = 4 * 1024"
definition CHAT_USER_DISPLAY_MAX_BYTES :: nat where "CHAT_USER_DISPLAY_MAX_BYTES = 256"
definition CHAT_ACTOR_DISPLAY_MAX_BYTES :: nat where "CHAT_ACTOR_DISPLAY_MAX_BYTES = 256"
definition CHAT_REPLY_PREVIEW_MAX_BYTES :: nat where "CHAT_REPLY_PREVIEW_MAX_BYTES = 160"
definition CHAT_MOTD_MAX_BYTES :: nat where "CHAT_MOTD_MAX_BYTES = 16 * 1024"
definition CHAT_STATUS_MAX_BYTES :: nat where "CHAT_STATUS_MAX_BYTES = 4 * 1024"
definition CHAT_RESOURCE_ID_MAX_BYTES :: nat where "CHAT_RESOURCE_ID_MAX_BYTES = 4 * 1024"
definition CHAT_UPLOAD_FILENAME_MAX_BYTES :: nat where "CHAT_UPLOAD_FILENAME_MAX_BYTES = 4 * 1024"
definition CHAT_CONTENT_TYPE_MAX_BYTES :: nat where "CHAT_CONTENT_TYPE_MAX_BYTES = 1024"
definition CHAT_REACTION_MAX_TOKENS_PER_ACTOR_TARGET :: nat where "CHAT_REACTION_MAX_TOKENS_PER_ACTOR_TARGET = 3"
definition CHAT_REACTION_MAX_ROWS_PER_TARGET :: nat where "CHAT_REACTION_MAX_ROWS_PER_TARGET = 128"
definition CHAT_REACTION_MAX_ROWS_PER_ROOM :: nat where "CHAT_REACTION_MAX_ROWS_PER_ROOM = 4096"
definition CHAT_REACTION_MAX_BYTES_PER_ROOM :: nat where "CHAT_REACTION_MAX_BYTES_PER_ROOM = 128 * 1024"
definition CHAT_REACTION_MAX_ROWS_PER_SERVER :: nat where "CHAT_REACTION_MAX_ROWS_PER_SERVER = 8192"
definition CHAT_REACTION_MAX_BYTES_PER_SERVER :: nat where "CHAT_REACTION_MAX_BYTES_PER_SERVER = 512 * 1024"
definition CHAT_REACTION_MAX_ROWS :: nat where "CHAT_REACTION_MAX_ROWS = 32768"
definition CHAT_REACTION_MAX_BYTES :: nat where "CHAT_REACTION_MAX_BYTES = 2 * 1024 * 1024"
definition CHAT_MESSAGE_REVISION_MAX_ROWS_PER_ROOM :: nat where "CHAT_MESSAGE_REVISION_MAX_ROWS_PER_ROOM = 1024"
definition CHAT_MESSAGE_REVISION_MAX_BYTES_PER_ROOM :: nat where "CHAT_MESSAGE_REVISION_MAX_BYTES_PER_ROOM = 8 * 1024 * 1024"
definition CHAT_MESSAGE_REVISION_MAX_ROWS_PER_SERVER :: nat where "CHAT_MESSAGE_REVISION_MAX_ROWS_PER_SERVER = 8192"
definition CHAT_MESSAGE_REVISION_MAX_BYTES_PER_SERVER :: nat where "CHAT_MESSAGE_REVISION_MAX_BYTES_PER_SERVER = 32 * 1024 * 1024"
definition CHAT_MESSAGE_REVISION_MAX_ROWS :: nat where "CHAT_MESSAGE_REVISION_MAX_ROWS = 32768"
definition CHAT_MESSAGE_REVISION_MAX_BYTES :: nat where "CHAT_MESSAGE_REVISION_MAX_BYTES = 64 * 1024 * 1024"
definition CHAT_PIN_MAX_ROWS_PER_SERVER :: nat where "CHAT_PIN_MAX_ROWS_PER_SERVER = 1024"
definition CHAT_PIN_MAX_ROWS :: nat where "CHAT_PIN_MAX_ROWS = 4096"
definition CHAT_PIN_MAX_BYTES :: nat where "CHAT_PIN_MAX_BYTES = 1024 * 1024"
definition CHAT_MESSAGE_REVISION_FIXED_RETAINED_BYTES :: nat where "CHAT_MESSAGE_REVISION_FIXED_RETAINED_BYTES = 96"
definition CHAT_PIN_FIXED_RETAINED_BYTES :: nat where "CHAT_PIN_FIXED_RETAINED_BYTES = 64"
definition CHAT_STATUS_BANNED :: u32 where "CHAT_STATUS_BANNED = 1"
definition CHAT_STATUS_MUTED :: u32 where "CHAT_STATUS_MUTED = 2"
definition CHAT_ROLE_TRUSTED :: u64 where "CHAT_ROLE_TRUSTED = 1"
definition CHAT_ROLE_MODERATOR :: u64 where "CHAT_ROLE_MODERATOR = 2"
definition CHAT_ROLE_ADMIN :: u64 where "CHAT_ROLE_ADMIN = 4"

section \<open>Bounded text\<close>

text \<open>\<^verbatim>\<open>str::is_char_boundary\<close>: the ends of the string, and every byte that is no continuation byte.\<close>

definition is_char_boundary :: "string \<Rightarrow> nat \<Rightarrow> bool" where
  "is_char_boundary s i \<longleftrightarrow>
     i = 0 \<or> i = length s \<or> (i < length s \<and> \<not> utf8_cont (of_char (s ! i)))"

function boundary_at_or_before :: "string \<Rightarrow> nat \<Rightarrow> nat" where
  "boundary_at_or_before s i =
     (if is_char_boundary s i then i else boundary_at_or_before s (i - 1))"
  by pat_completeness auto
termination
  by (relation "measure snd") (auto simp: is_char_boundary_def)

declare boundary_at_or_before.simps [simp del]

definition ELLIPSIS :: string where "ELLIPSIS = [CHR 0xE2, CHR 0x80, CHR 0xA6]"

definition bounded_chat_text :: "string \<Rightarrow> nat \<Rightarrow> string" where
  "bounded_chat_text s max_bytes =
     (if length s \<le> max_bytes then s
      else if max_bytes < length ELLIPSIS then []
      else take (boundary_at_or_before s (max_bytes - length ELLIPSIS)) s @ ELLIPSIS)"

definition chat_text_fits :: "string \<Rightarrow> nat \<Rightarrow> bool" where
  "chat_text_fits s max_bytes \<longleftrightarrow> length s \<le> max_bytes"

section \<open>Summaries\<close>

type_synonym ServerId = string

record ChatServerSummary =
  sv_server_id :: ServerId
  sv_destination :: string
  sv_display_name :: string

record ChatRoomSummary =
  rm_server_id :: ServerId
  rm_room_id :: RoomId
  rm_name :: string
  rm_topic :: "string option"
  rm_unread :: u32
  rm_joined :: bool

record ChatUserSummary =
  ur_server_id :: ServerId
  ur_user_id :: UserId
  ur_display_name :: string
  ur_role_bits :: u64
  ur_status_bits :: u32
  ur_lxmf_available :: bool
  ur_profile_revision :: u64
  ur_nickname_colour_rgb :: "Rgb24 option"

definition role_label :: "ChatUserSummary \<Rightarrow> string" where
  "role_label user =
     (if ur_role_bits user AND CHAT_ROLE_ADMIN \<noteq> 0 then ''admin''
      else if ur_role_bits user AND CHAT_ROLE_MODERATOR \<noteq> 0 then ''mod''
      else if ur_role_bits user AND CHAT_ROLE_TRUSTED \<noteq> 0 then ''trusted''
      else ''member'')"

definition status_label :: "ChatUserSummary \<Rightarrow> string option" where
  "status_label user =
     (if ur_status_bits user AND CHAT_STATUS_BANNED \<noteq> 0 then Some ''banned''
      else if ur_status_bits user AND CHAT_STATUS_MUTED \<noteq> 0 then Some ''muted''
      else None)"

definition display_label :: "ChatUserSummary \<Rightarrow> string" where
  "display_label user =
     ur_display_name user
     @ (if role_label user \<noteq> ''member'' then '' ['' @ role_label user @ '']'' else [])
     @ (case status_label user of Some status \<Rightarrow> '' ('' @ status @ '')'' | None \<Rightarrow> [])"

section \<open>The view of the moderation audit\<close>

datatype ChatModerationAuditRequestState = AuditIdle | AuditReceiving | AuditComplete bool | AuditFailed string

datatype ChatModerationAuditView =
    ViewUnavailable | ViewUnauthorized | ViewReady
  | ViewReceiving "ModerationAuditRecord list"
  | ViewFailed string "ModerationAuditRecord list"
  | ViewEmpty
  | ViewLoaded "ModerationAuditRecord list" bool

definition chat_moderation_audit_view ::
    "bool \<Rightarrow> bool \<Rightarrow> ChatModerationAuditRequestState \<Rightarrow> ModerationAuditPage option
      \<Rightarrow> ChatModerationAuditView" where
  "chat_moderation_audit_view authorized negotiated state page =
     (if \<not> authorized then ViewUnauthorized
      else if \<not> negotiated then ViewUnavailable
      else
        let records = (case page of None \<Rightarrow> [] | Some p \<Rightarrow> ap_records p) in
        case state of
          AuditIdle \<Rightarrow> ViewReady
        | AuditReceiving \<Rightarrow> ViewReceiving records
        | AuditComplete has_more \<Rightarrow> if records = [] then ViewEmpty else ViewLoaded records has_more
        | AuditFailed message \<Rightarrow> ViewFailed message records)"

primrec moderation_audit_action_label :: "ModerationAuditAction \<Rightarrow> string" where
  "moderation_audit_action_label Kick = ''kicked''"
| "moderation_audit_action_label Ban = ''banned''"
| "moderation_audit_action_label Unban = ''unbanned''"
| "moderation_audit_action_label Mute = ''muted''"
| "moderation_audit_action_label Unmute = ''unmuted''"
| "moderation_audit_action_label RoleChange = ''changed role for''"

definition moderation_audit_result_label :: "ModerationAuditRecord \<Rightarrow> string" where
  "moderation_audit_result_label r =
     (case ar_action r of
        Kick \<Rightarrow> ''removed from room''
      | Ban \<Rightarrow> ''status: banned''
      | Unban \<Rightarrow> ''status: active''
      | Mute \<Rightarrow> ''status: muted''
      | Unmute \<Rightarrow> ''status: unmuted''
      | RoleChange \<Rightarrow>
          let bits = (case ar_result_role_bits r of None \<Rightarrow> 0 | Some b \<Rightarrow> b) in
          if bits AND CHAT_ROLE_ADMIN \<noteq> 0 then ''role: admin''
          else if bits AND CHAT_ROLE_MODERATOR \<noteq> 0 then ''role: moderator''
          else if bits AND CHAT_ROLE_TRUSTED \<noteq> 0 then ''role: trusted''
          else ''role: member'')"

section \<open>Events\<close>

record ChatMessageMetadata =
  cm_reply_to_event_id :: "EventId option"
  cm_mentioned_user_ids :: "UserId list"

datatype ChatEventKind =
    KMessage string
  | KRichMessage string ChatMessageMetadata
  | KAction string
  | KNotice string
  | KSystem string
  | KUpload string string u64

record ChatEvent =
  ev_server_id :: ServerId
  ev_room_id :: RoomId
  ev_event_id :: EventId
  ev_actor_user_id :: "UserId option"
  ev_actor_display_name :: "string option"
  ev_at_unix :: i64
  ev_kind :: ChatEventKind

definition message_metadata :: "ChatEvent \<Rightarrow> ChatMessageMetadata option" where
  "message_metadata event =
     (case ev_kind event of KRichMessage _ metadata \<Rightarrow> Some metadata | _ \<Rightarrow> None)"

definition chat_event_supports_reactions :: "ChatEvent \<Rightarrow> bool" where
  "chat_event_supports_reactions event \<longleftrightarrow>
     (case ev_kind event of
        KMessage _ \<Rightarrow> True | KRichMessage _ _ \<Rightarrow> True | KAction _ \<Rightarrow> True | KNotice _ \<Rightarrow> True
      | KUpload _ _ _ \<Rightarrow> True | KSystem _ \<Rightarrow> False)"

definition chat_event_supports_pins :: "ChatEvent \<Rightarrow> bool" where
  "chat_event_supports_pins event = chat_event_supports_reactions event"

definition chat_event_supports_message_revisions :: "ChatEvent \<Rightarrow> bool" where
  "chat_event_supports_message_revisions event \<longleftrightarrow>
     (case ev_kind event of KMessage _ \<Rightarrow> True | KRichMessage _ _ \<Rightarrow> True | _ \<Rightarrow> False)"

definition chat_event_preview_text :: "ChatEvent \<Rightarrow> string" where
  "chat_event_preview_text event =
     (case ev_kind event of
        KMessage body \<Rightarrow> body | KRichMessage body _ \<Rightarrow> body | KAction body \<Rightarrow> body
      | KNotice body \<Rightarrow> body | KSystem body \<Rightarrow> body | KUpload _ filename _ \<Rightarrow> filename)"

datatype ChatReplyPresentation =
    ReplyAvailable EventId "string option" string
  | ReplyUnavailable EventId

record ChatMessagePresentation =
  mp_reply :: "ChatReplyPresentation option"
  mp_mentions_local_user :: bool

definition chat_message_presentation ::
    "ChatEvent list \<Rightarrow> ChatEvent \<Rightarrow> UserId option \<Rightarrow> ChatMessagePresentation" where
  "chat_message_presentation events event local_user_id =
     (case message_metadata event of
        None \<Rightarrow> \<lparr>mp_reply = None, mp_mentions_local_user = False\<rparr>
      | Some metadata \<Rightarrow>
          \<lparr>mp_reply = map_option (\<lambda>event_id.
              case find (\<lambda>c. ev_server_id c = ev_server_id event \<and> ev_room_id c = ev_room_id event
                  \<and> ev_event_id c = event_id) events of
                Some original \<Rightarrow> ReplyAvailable event_id (ev_actor_display_name original)
                  (bounded_chat_text (chat_event_preview_text original) CHAT_REPLY_PREVIEW_MAX_BYTES)
              | None \<Rightarrow> ReplyUnavailable event_id) (cm_reply_to_event_id metadata),
           mp_mentions_local_user =
             (case local_user_id of
                None \<Rightarrow> False
              | Some user_id \<Rightarrow> binary_search_found (cm_mentioned_user_ids metadata) user_id)\<rparr>)"

definition u32_saturating_add :: "u32 \<Rightarrow> u32 \<Rightarrow> u32" where
  "u32_saturating_add a b = (if unat a + unat b \<ge> 2 ^ 32 then - 1 else a + b)"

definition retained_local_mention_count ::
    "ChatEvent list \<Rightarrow> ServerId \<Rightarrow> RoomId \<Rightarrow> UserId option \<Rightarrow> u32" where
  "retained_local_mention_count events server_id room_id local_user_id =
     (case local_user_id of
        None \<Rightarrow> 0
      | Some user_id \<Rightarrow>
          foldl (\<lambda>count _. u32_saturating_add count 1) 0
            (filter (\<lambda>metadata. binary_search_found (cm_mentioned_user_ids metadata) user_id)
              (List.map_filter message_metadata
                (filter (\<lambda>e. ev_server_id e = server_id \<and> ev_room_id e = room_id) events))))"

section \<open>Reactions, revisions and pins\<close>

record ChatReaction =
  cr_server_id :: ServerId
  cr_room_id :: RoomId
  cr_target_event_id :: EventId
  cr_actor_user_id :: UserId
  cr_token :: ReactionToken
  cr_created_at_unix :: i64

record ChatMessageRevision =
  cv_server_id :: ServerId
  cv_room_id :: RoomId
  cv_target_event_id :: EventId
  cv_latest_revision_event_id :: EventId
  cv_action :: MessageRevisionAction
  cv_actor_user_id :: UserId
  cv_replacement_body :: "string option"
  cv_at_unix :: i64
  cv_revision_number :: u64

record ChatPin =
  cp_server_id :: ServerId
  cp_room_id :: RoomId
  cp_target_event_id :: EventId
  cp_pin_event_id :: EventId
  cp_actor_user_id :: UserId
  cp_pinned_at_unix :: i64

definition reaction_retained_bytes :: "nat \<Rightarrow> ChatReaction \<Rightarrow> nat" where
  "reaction_retained_bytes size_of r =
     usize_saturating_add (usize_saturating_add size_of (length (cr_server_id r)))
       (length (reaction_token_as_str (cr_token r)))"

definition revision_retained_bytes :: "ChatMessageRevision \<Rightarrow> nat" where
  "revision_retained_bytes r =
     usize_saturating_add
       (usize_saturating_add CHAT_MESSAGE_REVISION_FIXED_RETAINED_BYTES (length (cv_server_id r)))
       (case cv_replacement_body r of None \<Rightarrow> 0 | Some body \<Rightarrow> length body)"

definition pin_retained_bytes :: "ChatPin \<Rightarrow> nat" where
  "pin_retained_bytes r = usize_saturating_add CHAT_PIN_FIXED_RETAINED_BYTES (length (cp_server_id r))"

text \<open>
  The usage tables of the limit checks: \<^verbatim>\<open>entry(k).or_default()\<close> with a row and its bytes added, or
  with a row counted.
\<close>

definition usage_add ::
    "('a \<Rightarrow> 'k :: linorder) \<Rightarrow> ('a \<Rightarrow> nat) \<Rightarrow> ('k, nat \<times> nat) btree_map \<Rightarrow> 'a \<Rightarrow> ('k, nat \<times> nat) btree_map" where
  "usage_add key bytes_of m x =
     (let (rows, used) = (case bt_get m (key x) of None \<Rightarrow> (0, 0) | Some u \<Rightarrow> u) in
      bt_insert (key x) (usize_saturating_add rows 1, usize_saturating_add used (bytes_of x)) m)"

definition rows_add :: "('a \<Rightarrow> 'k :: linorder) \<Rightarrow> ('k, nat) btree_map \<Rightarrow> 'a \<Rightarrow> ('k, nat) btree_map" where
  "rows_add key m x =
     bt_insert (key x) ((case bt_get m (key x) of None \<Rightarrow> 0 | Some n \<Rightarrow> n) + 1) m"

definition chat_pins_fit_bounds :: "ChatPin list \<Rightarrow> bool" where
  "chat_pins_fit_bounds pins =
     (let total_rows = foldl (\<lambda>n _. usize_saturating_add n 1) 0 pins;
          total_bytes = foldl (\<lambda>n pin. usize_saturating_add n (pin_retained_bytes pin)) 0 pins;
          server_rows = foldl (rows_add cp_server_id) [] pins in
      total_rows \<le> CHAT_PIN_MAX_ROWS \<and> total_bytes \<le> CHAT_PIN_MAX_BYTES
      \<and> list_all (\<lambda>(_, rows). rows \<le> CHAT_PIN_MAX_ROWS_PER_SERVER) server_rows)"

definition chat_message_revisions_fit_bounds :: "ChatMessageRevision list \<Rightarrow> bool" where
  "chat_message_revisions_fit_bounds revisions =
     (let total_rows = foldl (\<lambda>n _. usize_saturating_add n 1) 0 revisions;
          total_bytes = foldl (\<lambda>n r. usize_saturating_add n (revision_retained_bytes r)) 0 revisions;
          server_usage = foldl (usage_add cv_server_id revision_retained_bytes) [] revisions;
          room_usage = foldl (usage_add (\<lambda>r. (cv_server_id r, cv_room_id r)) revision_retained_bytes) [] revisions in
      total_rows \<le> CHAT_MESSAGE_REVISION_MAX_ROWS \<and> total_bytes \<le> CHAT_MESSAGE_REVISION_MAX_BYTES
      \<and> list_all (\<lambda>(_, rows, used). rows \<le> CHAT_MESSAGE_REVISION_MAX_ROWS_PER_SERVER
          \<and> used \<le> CHAT_MESSAGE_REVISION_MAX_BYTES_PER_SERVER) server_usage
      \<and> list_all (\<lambda>(_, rows, used). rows \<le> CHAT_MESSAGE_REVISION_MAX_ROWS_PER_ROOM
          \<and> used \<le> CHAT_MESSAGE_REVISION_MAX_BYTES_PER_ROOM) room_usage)"

definition chat_reactions_fit_bounds :: "nat \<Rightarrow> ChatReaction list \<Rightarrow> bool" where
  "chat_reactions_fit_bounds size_of reactions =
     (let bytes_of = reaction_retained_bytes size_of;
          total_rows = foldl (\<lambda>n _. usize_saturating_add n 1) 0 reactions;
          total_bytes = foldl (\<lambda>n r. usize_saturating_add n (bytes_of r)) 0 reactions;
          server_usage = foldl (usage_add cr_server_id bytes_of) [] reactions;
          room_usage = foldl (usage_add (\<lambda>r. (cr_server_id r, cr_room_id r)) bytes_of) [] reactions;
          target_rows = foldl (rows_add (\<lambda>r. (cr_server_id r, cr_room_id r, cr_target_event_id r))) [] reactions;
          actor_target_rows = foldl (rows_add (\<lambda>r. (cr_server_id r, cr_room_id r, cr_target_event_id r,
            cr_actor_user_id r))) [] reactions in
      total_rows \<le> CHAT_REACTION_MAX_ROWS \<and> total_bytes \<le> CHAT_REACTION_MAX_BYTES
      \<and> list_all (\<lambda>(_, rows, used). rows \<le> CHAT_REACTION_MAX_ROWS_PER_SERVER
          \<and> used \<le> CHAT_REACTION_MAX_BYTES_PER_SERVER) server_usage
      \<and> list_all (\<lambda>(_, rows, used). rows \<le> CHAT_REACTION_MAX_ROWS_PER_ROOM
          \<and> used \<le> CHAT_REACTION_MAX_BYTES_PER_ROOM) room_usage
      \<and> list_all (\<lambda>(_, rows). rows \<le> CHAT_REACTION_MAX_ROWS_PER_TARGET) target_rows
      \<and> list_all (\<lambda>(_, rows). rows \<le> CHAT_REACTION_MAX_TOKENS_PER_ACTOR_TARGET) actor_target_rows)"

datatype ChatMessageRevisionPresentation =
    PresentOriginal string | PresentEdited string u64 | PresentDeleted u64

definition chat_message_revision_presentation ::
    "ChatEvent \<Rightarrow> ChatMessageRevision option \<Rightarrow> ChatMessageRevisionPresentation option" where
  "chat_message_revision_presentation event revision =
     (let present = (\<lambda>original.
        case revision of
          None \<Rightarrow> Some (PresentOriginal original)
        | Some r \<Rightarrow>
            if \<not> (cv_server_id r = ev_server_id event \<and> cv_room_id r = ev_room_id event
                 \<and> cv_target_event_id r = ev_event_id event)
            then Some (PresentOriginal original)
            else
              case cv_action r of
                Correct \<Rightarrow> map_option (\<lambda>body. PresentEdited body (cv_revision_number r)) (cv_replacement_body r)
              | Tombstone \<Rightarrow> Some (PresentDeleted (cv_revision_number r))) in
      case ev_kind event of
        KMessage body \<Rightarrow> present body
      | KRichMessage body _ \<Rightarrow> present body
      | _ \<Rightarrow> None)"

text \<open>Reaction tokens are ordered as the source declares them.\<close>

primrec reaction_token_rank :: "ReactionToken \<Rightarrow> nat" where
  "reaction_token_rank ThumbsUp = 0"
| "reaction_token_rank Heart = 1"
| "reaction_token_rank Laugh = 2"
| "reaction_token_rank Surprised = 3"
| "reaction_token_rank Sad = 4"
| "reaction_token_rank ThumbsDown = 5"
| "reaction_token_rank Celebrate = 6"
| "reaction_token_rank Question = 7"

instantiation ReactionToken :: linorder
begin
definition less_eq_ReactionToken :: "ReactionToken \<Rightarrow> ReactionToken \<Rightarrow> bool" where
  "less_eq_ReactionToken a b \<longleftrightarrow> reaction_token_rank a \<le> reaction_token_rank b"
definition less_ReactionToken :: "ReactionToken \<Rightarrow> ReactionToken \<Rightarrow> bool" where
  "less_ReactionToken a b \<longleftrightarrow> reaction_token_rank a < reaction_token_rank b"
instance
proof
  fix a b c :: ReactionToken
  show "a \<le> b \<Longrightarrow> b \<le> a \<Longrightarrow> a = b"
    by (cases a; cases b) (simp_all add: less_eq_ReactionToken_def)
qed (auto simp: less_eq_ReactionToken_def less_ReactionToken_def)
end

record ChatReactionSummary =
  rsu_token :: ReactionToken
  rsu_actor_count :: u32
  rsu_reacted_by_local_user :: bool

definition reaction_summary_label :: "ChatReactionSummary \<Rightarrow> string" where
  "reaction_summary_label s =
     (let token = (case rsu_token s of
          ThumbsUp \<Rightarrow> ''+1'' | Heart \<Rightarrow> ''heart'' | Laugh \<Rightarrow> ''laugh'' | Surprised \<Rightarrow> ''wow''
        | Sad \<Rightarrow> ''sad'' | ThumbsDown \<Rightarrow> ''-1'' | Celebrate \<Rightarrow> ''celebrate'' | Question \<Rightarrow> ''?'') in
      token @ '' '' @ show_nat (unat (rsu_actor_count s))
      @ (if rsu_reacted_by_local_user s then '' '' @ [CHR 0xC2, CHR 0xB7] @ '' you'' else []))"

definition actors_add ::
    "(ReactionToken, UserId set) btree_map \<Rightarrow> ChatReaction \<Rightarrow> (ReactionToken, UserId set) btree_map" where
  "actors_add m r =
     bt_insert (cr_token r)
       (insert (cr_actor_user_id r) (case bt_get m (cr_token r) of None \<Rightarrow> {} | Some us \<Rightarrow> us)) m"

definition chat_reaction_summaries ::
    "ChatReaction list \<Rightarrow> ChatEvent \<Rightarrow> UserId option \<Rightarrow> ChatReactionSummary list" where
  "chat_reaction_summaries reactions event local_user_id =
     (if \<not> chat_event_supports_reactions event then []
      else
        let actors_by_token = foldl actors_add []
          (filter (\<lambda>r. cr_server_id r = ev_server_id event \<and> cr_room_id r = ev_room_id event
             \<and> cr_target_event_id r = ev_event_id event) reactions) in
        List.map_filter (\<lambda>token.
          map_option (\<lambda>actors.
            \<lparr>rsu_token = token,
             rsu_actor_count = (if card actors < 2 ^ 32 then word_of_nat (card actors) else - 1),
             rsu_reacted_by_local_user = (case local_user_id of None \<Rightarrow> False | Some u \<Rightarrow> u \<in> actors)\<rparr>)
            (bt_get actors_by_token token))
          reaction_token_ALL)"

section \<open>Lemmas\<close>

lemma foldl_saturating_min:
  "a < 2 ^ 64 \<Longrightarrow> foldl (\<lambda>n x. usize_saturating_add n (f x)) a xs = min (a + sum_list (map f xs)) (2 ^ 64 - 1)"
proof (induction xs arbitrary: a)
  case (Cons x xs)
  have "usize_saturating_add a (f x) < 2 ^ 64" by (auto simp: usize_saturating_add_def min_def)
  from Cons.IH [OF this] show ?case by (auto simp: usize_saturating_add_def min_def)
qed simp

lemma foldl_saturating_le:
  assumes "b < 2 ^ 64 - 1"
  shows "foldl (\<lambda>n x. usize_saturating_add n (f x)) 0 xs \<le> b \<longleftrightarrow> sum_list (map f xs) \<le> b"
  unfolding foldl_saturating_min [of 0, simplified] using assms by (auto simp: min_def)

lemma foldl_saturating_rows:
  "b < 2 ^ 64 - 1 \<Longrightarrow> foldl (\<lambda>n _. usize_saturating_add n 1) 0 xs \<le> b \<longleftrightarrow> length xs \<le> b"
  using foldl_saturating_le [of b "\<lambda>_. 1" xs] by (simp add: sum_list_triv)

lemma usage_table:
  fixes key :: "'a \<Rightarrow> 'k :: linorder" and f :: "'a \<Rightarrow> nat"
  defines "m xs \<equiv> foldl (usage_add key f) [] xs"
  shows "bt_ok (m xs)
    \<and> (\<forall>k. bt_get (m xs) k = (if k \<in> key ` set xs
        then Some (min (length (filter (\<lambda>x. key x = k) xs)) (2 ^ 64 - 1),
          min (sum_list (map f (filter (\<lambda>x. key x = k) xs))) (2 ^ 64 - 1))
        else None))"
proof (induction xs rule: rev_induct)
  case Nil
  then show ?case by (simp add: m_def)
next
  case (snoc x xs)
  then have ok: "bt_ok (m xs)" by blast
  have step: "m (xs @ [x]) = usage_add key f (m xs) x" by (simp add: m_def)
  have "bt_ok (m (xs @ [x]))"
    using ok by (simp add: step usage_add_def bt_ok_insert split: prod.split)
  moreover have "bt_get (m (xs @ [x])) k = (if k \<in> key ` set (xs @ [x])
        then Some (min (length (filter (\<lambda>x. key x = k) (xs @ [x]))) (2 ^ 64 - 1),
          min (sum_list (map f (filter (\<lambda>x. key x = k) (xs @ [x])))) (2 ^ 64 - 1))
        else None)" for k
  proof (cases "k = key x")
    case False
    then show ?thesis
      using snoc ok by (simp add: step usage_add_def bt_get_insert image_iff split: prod.split)
  next
    case True
    have none: "filter (\<lambda>y. key y = key x) xs = []" if "key x \<notin> key ` set xs"
      using that by (auto simp: filter_empty_conv image_iff)
    show ?thesis
      using snoc ok none True
      by (auto simp: step usage_add_def bt_get_insert usize_saturating_add_def min_def split: if_splits)
  qed
  ultimately show ?case by blast
qed

lemma usage_table_all:
  fixes key :: "'a \<Rightarrow> 'k :: linorder"
  assumes "a < 2 ^ 64 - 1" "b < 2 ^ 64 - 1"
  shows "list_all (\<lambda>(_, rows, used). rows \<le> a \<and> used \<le> b) (foldl (usage_add key f) [] xs) \<longleftrightarrow>
    (\<forall>k. length (filter (\<lambda>x. key x = k) xs) \<le> a \<and> sum_list (map f (filter (\<lambda>x. key x = k) xs)) \<le> b)"
    (is "?all \<longleftrightarrow> ?spec")
proof -
  let ?m = "foldl (usage_add key f) [] xs"
  have ok: "bt_ok ?m" and get: "\<And>k. bt_get ?m k = (if k \<in> key ` set xs
        then Some (min (length (filter (\<lambda>x. key x = k) xs)) (2 ^ 64 - 1),
          min (sum_list (map f (filter (\<lambda>x. key x = k) xs))) (2 ^ 64 - 1))
        else None)"
    using usage_table [of key f xs] by blast+
  have "?all \<longleftrightarrow> (\<forall>k rows used. bt_get ?m k = Some (rows, used) \<longrightarrow> rows \<le> a \<and> used \<le> b)"
    by (auto simp: list_all_iff bt_get_eq_Some [OF ok])
  also have "\<dots> \<longleftrightarrow> (\<forall>k\<in>key ` set xs. length (filter (\<lambda>x. key x = k) xs) \<le> a
      \<and> sum_list (map f (filter (\<lambda>x. key x = k) xs)) \<le> b)"
    unfolding get using assms by (auto simp: min_le_iff_disj)
  also have "\<dots> \<longleftrightarrow> ?spec"
  proof -
    have "filter (\<lambda>x. key x = k) xs = []" if "k \<notin> key ` set xs" for k
      using that by (auto simp: filter_empty_conv image_iff)
    then show ?thesis by (metis (no_types, lifting) le0 list.size(3) list.simps(8) sum_list.Nil)
  qed
  finally show ?thesis .
qed

lemma rows_table:
  fixes key :: "'a \<Rightarrow> 'k :: linorder"
  defines "m xs \<equiv> foldl (rows_add key) [] xs"
  shows "bt_ok (m xs) \<and> (\<forall>k. bt_get (m xs) k =
    (if k \<in> key ` set xs then Some (length (filter (\<lambda>x. key x = k) xs)) else None))"
proof (induction xs rule: rev_induct)
  case (snoc x xs)
  have "filter (\<lambda>y. key y = key x) xs = []" if "key x \<notin> key ` set xs"
    using that by (auto simp: filter_empty_conv image_iff)
  then show ?case
    using snoc by (auto simp: m_def rows_add_def bt_laws image_iff)
qed (simp add: m_def)

lemma rows_table_all:
  fixes key :: "'a \<Rightarrow> 'k :: linorder"
  shows "list_all (\<lambda>(_, rows). rows \<le> a) (foldl (rows_add key) [] xs) \<longleftrightarrow>
    (\<forall>k. length (filter (\<lambda>x. key x = k) xs) \<le> a)"
proof -
  let ?m = "foldl (rows_add key) [] xs"
  have ok: "bt_ok ?m" and get: "\<And>k. bt_get ?m k =
      (if k \<in> key ` set xs then Some (length (filter (\<lambda>x. key x = k) xs)) else None)"
    using rows_table [of key xs] by blast+
  have "list_all (\<lambda>(_, rows). rows \<le> a) ?m \<longleftrightarrow> (\<forall>k rows. bt_get ?m k = Some rows \<longrightarrow> rows \<le> a)"
    by (auto simp: list_all_iff bt_get_eq_Some [OF ok])
  also have "\<dots> \<longleftrightarrow> (\<forall>k. length (filter (\<lambda>x. key x = k) xs) \<le> a)"
  proof -
    have "filter (\<lambda>x. key x = k) xs = []" if "k \<notin> key ` set xs" for k
      using that by (auto simp: filter_empty_conv image_iff)
    then show ?thesis unfolding get by (metis (no_types, lifting) le0 list.size(3) option.distinct(1) option.inject)
  qed
  finally show ?thesis .
qed

lemmas chat_limits = CHAT_PIN_MAX_ROWS_def CHAT_PIN_MAX_BYTES_def CHAT_PIN_MAX_ROWS_PER_SERVER_def
  CHAT_MESSAGE_REVISION_MAX_ROWS_def CHAT_MESSAGE_REVISION_MAX_BYTES_def
  CHAT_MESSAGE_REVISION_MAX_ROWS_PER_SERVER_def CHAT_MESSAGE_REVISION_MAX_BYTES_PER_SERVER_def
  CHAT_MESSAGE_REVISION_MAX_ROWS_PER_ROOM_def CHAT_MESSAGE_REVISION_MAX_BYTES_PER_ROOM_def
  CHAT_REACTION_MAX_ROWS_def CHAT_REACTION_MAX_BYTES_def CHAT_REACTION_MAX_ROWS_PER_SERVER_def
  CHAT_REACTION_MAX_BYTES_PER_SERVER_def CHAT_REACTION_MAX_ROWS_PER_ROOM_def
  CHAT_REACTION_MAX_BYTES_PER_ROOM_def CHAT_REACTION_MAX_ROWS_PER_TARGET_def
  CHAT_REACTION_MAX_TOKENS_PER_ACTOR_TARGET_def

section \<open>What the limit checks decide\<close>

text \<open>How many rows belong to a group, and how many bytes they retain.\<close>

definition rows_of :: "('a \<Rightarrow> bool) \<Rightarrow> 'a list \<Rightarrow> nat" where
  "rows_of p xs = length (filter p xs)"

definition bytes_in :: "('a \<Rightarrow> nat) \<Rightarrow> ('a \<Rightarrow> bool) \<Rightarrow> 'a list \<Rightarrow> nat" where
  "bytes_in f p xs = sum_list (map f (filter p xs))"

lemma chat_pins_fit_bounds_iff:
  "chat_pins_fit_bounds pins \<longleftrightarrow>
     length pins \<le> 4096 \<and> sum_list (map pin_retained_bytes pins) \<le> 1048576
     \<and> (\<forall>server. rows_of (\<lambda>p. cp_server_id p = server) pins \<le> 1024)"
  by (simp add: chat_pins_fit_bounds_def Let_def foldl_saturating_rows foldl_saturating_le rows_table_all
      rows_of_def chat_limits sum_list_triv)

lemma chat_message_revisions_fit_bounds_iff:
  "chat_message_revisions_fit_bounds rs \<longleftrightarrow>
     length rs \<le> 32768 \<and> sum_list (map revision_retained_bytes rs) \<le> 64 * 1024 * 1024
     \<and> (\<forall>server. rows_of (\<lambda>r. cv_server_id r = server) rs \<le> 8192
          \<and> bytes_in revision_retained_bytes (\<lambda>r. cv_server_id r = server) rs \<le> 32 * 1024 * 1024)
     \<and> (\<forall>room. rows_of (\<lambda>r. (cv_server_id r, cv_room_id r) = room) rs \<le> 1024
          \<and> bytes_in revision_retained_bytes (\<lambda>r. (cv_server_id r, cv_room_id r) = room) rs \<le> 8 * 1024 * 1024)"
  by (simp add: chat_message_revisions_fit_bounds_def Let_def foldl_saturating_rows foldl_saturating_le
      usage_table_all rows_of_def bytes_in_def chat_limits sum_list_triv)

lemma chat_reactions_fit_bounds_iff:
  "chat_reactions_fit_bounds size_of rs \<longleftrightarrow>
     length rs \<le> 32768 \<and> sum_list (map (reaction_retained_bytes size_of) rs) \<le> 2 * 1024 * 1024
     \<and> (\<forall>server. rows_of (\<lambda>r. cr_server_id r = server) rs \<le> 8192
          \<and> bytes_in (reaction_retained_bytes size_of) (\<lambda>r. cr_server_id r = server) rs \<le> 512 * 1024)
     \<and> (\<forall>room. rows_of (\<lambda>r. (cr_server_id r, cr_room_id r) = room) rs \<le> 4096
          \<and> bytes_in (reaction_retained_bytes size_of) (\<lambda>r. (cr_server_id r, cr_room_id r) = room) rs \<le> 128 * 1024)
     \<and> (\<forall>target. rows_of (\<lambda>r. (cr_server_id r, cr_room_id r, cr_target_event_id r) = target) rs \<le> 128)
     \<and> (\<forall>actor. rows_of (\<lambda>r. (cr_server_id r, cr_room_id r, cr_target_event_id r, cr_actor_user_id r) = actor) rs \<le> 3)"
  by (simp add: chat_reactions_fit_bounds_def Let_def foldl_saturating_rows foldl_saturating_le
      usage_table_all rows_table_all rows_of_def bytes_in_def chat_limits sum_list_triv)

section \<open>Cutting text\<close>

text \<open>The number of continuation bytes behind the first byte of a well-formed character.\<close>

definition utf8_tail :: "u8 \<Rightarrow> bytes \<Rightarrow> nat option" where
  "utf8_tail b bs =
     (if b \<le> 0x7F then Some 0
      else if 0xC2 \<le> b \<and> b \<le> 0xDF then
        (case bs of c # _ \<Rightarrow> if utf8_cont c then Some 1 else None | _ \<Rightarrow> None)
      else if 0xE0 \<le> b \<and> b \<le> 0xEF then
        (case bs of c # d # _ \<Rightarrow> if utf8_cont3 b c \<and> utf8_cont d then Some 2 else None | _ \<Rightarrow> None)
      else if 0xF0 \<le> b \<and> b \<le> 0xF4 then
        (case bs of c # d # e # _ \<Rightarrow> if utf8_cont4 b c \<and> utf8_cont d \<and> utf8_cont e then Some 3 else None
         | _ \<Rightarrow> None)
      else None)"

declare utf8_chars.simps(2) [simp del]

lemma utf8_chars_tail:
  "utf8_chars (b # bs) \<noteq> None \<longleftrightarrow> (\<exists>n. utf8_tail b bs = Some n \<and> utf8_chars (drop n bs) \<noteq> None)"
proof -
  consider "b \<le> 0x7F" | "\<not> b \<le> 0x7F" "0xC2 \<le> b \<and> b \<le> 0xDF"
    | "\<not> b \<le> 0x7F" "\<not> (0xC2 \<le> b \<and> b \<le> 0xDF)" "0xE0 \<le> b \<and> b \<le> 0xEF"
    | "\<not> b \<le> 0x7F" "\<not> (0xC2 \<le> b \<and> b \<le> 0xDF)" "\<not> (0xE0 \<le> b \<and> b \<le> 0xEF)" "0xF0 \<le> b \<and> b \<le> 0xF4"
    | "\<not> b \<le> 0x7F" "\<not> (0xC2 \<le> b \<and> b \<le> 0xDF)" "\<not> (0xE0 \<le> b \<and> b \<le> 0xEF)" "\<not> (0xF0 \<le> b \<and> b \<le> 0xF4)"
    by blast
  then show ?thesis
    by cases (simp_all only: utf8_chars.simps(2) [of b] utf8_tail_def if_True if_False,
      (simp split: list.split add: numeral_2_eq_2 numeral_3_eq_3; blast?)+)
qed

lemma utf8_cont_cases: "utf8_cont3 b c \<Longrightarrow> utf8_cont c" "utf8_cont4 b c \<Longrightarrow> utf8_cont c"
  unfolding utf8_cont3_def utf8_cont4_def utf8_cont_def word_le_nat_alt by (auto split: if_splits)

lemma utf8_tail_cont:
  "utf8_tail b bs = Some n \<Longrightarrow> n \<le> length bs \<and> (\<forall>i<n. utf8_cont (bs ! i))"
  unfolding utf8_tail_def
  by (auto split: if_splits list.splits simp: numeral_2_eq_2 numeral_3_eq_3 less_Suc_eq)
    (auto intro: utf8_cont_cases)

lemma utf8_tail_take: "utf8_tail b bs = Some n \<Longrightarrow> n \<le> k \<Longrightarrow> utf8_tail b (take k bs) = Some n"
  unfolding utf8_tail_def
  by (auto split: if_splits list.splits nat.splits simp: take_Cons')

lemma utf8_tail_append: "utf8_tail b bs = Some n \<Longrightarrow> utf8_tail b (bs @ ys) = Some n"
  unfolding utf8_tail_def by (auto split: if_splits list.splits)

lemma utf8_chars_append:
  "utf8_chars xs \<noteq> None \<Longrightarrow> utf8_chars ys \<noteq> None \<Longrightarrow> utf8_chars (xs @ ys) \<noteq> None"
proof (induction xs rule: length_induct)
  case (1 xs)
  show ?case
  proof (cases xs)
    case (Cons b bs)
    then obtain n where n: "utf8_tail b bs = Some n" "utf8_chars (drop n bs) \<noteq> None"
      using 1(2) utf8_chars_tail by blast
    then have "utf8_chars (drop n bs @ ys) \<noteq> None" using 1 Cons by simp
    then have "utf8_chars (drop n (bs @ ys)) \<noteq> None" using utf8_tail_cont [OF n(1)] by simp
    then show ?thesis
      unfolding Cons append_Cons utf8_chars_tail using utf8_tail_append [OF n(1)] by blast
  qed (use 1 in simp)
qed

lemma utf8_chars_cut:
  assumes "utf8_chars bs \<noteq> None" "i < length bs" "\<not> utf8_cont (bs ! i)"
  shows "utf8_chars (take i bs) \<noteq> None"
  using assms
proof (induction bs arbitrary: i rule: length_induct)
  case (1 bs)
  show ?case
  proof (cases i)
    case (Suc j)
    then obtain b rest where bs: "bs = b # rest" using 1(3) by (cases bs) auto
    then obtain n where n: "utf8_tail b rest = Some n" "utf8_chars (drop n rest) \<noteq> None"
      using 1(2) utf8_chars_tail by blast
    have j: "n \<le> j" using utf8_tail_cont [OF n(1)] 1(4) Suc bs by (metis nth_Cons_Suc not_le_imp_less)
    then have "utf8_chars (take (j - n) (drop n rest)) \<noteq> None"
      using 1(1) [rule_format, of "drop n rest" "j - n"] 1(3,4) n(2) Suc bs by simp
    then have "utf8_chars (drop n (take j rest)) \<noteq> None" by (simp add: drop_take)
    then show ?thesis
      unfolding Suc bs take_Suc_Cons utf8_chars_tail using utf8_tail_take [OF n(1) j] by blast
  qed simp
qed

lemma boundary_at_or_before:
  "boundary_at_or_before s i \<le> i \<and> is_char_boundary s (boundary_at_or_before s i)"
proof (induction s i rule: boundary_at_or_before.induct)
  case (1 s i)
  then show ?case by (cases "is_char_boundary s i") (auto simp: boundary_at_or_before.simps [of s i])
qed

lemma wf_str_take_boundary:
  assumes "wf_str s" "is_char_boundary s i"
  shows "wf_str (take i s)"
proof -
  have "as_bytes (take i s) = take i (as_bytes s)" by (simp add: as_bytes_def take_map)
  moreover have "utf8_chars (take i (as_bytes s)) \<noteq> None"
    using assms utf8_chars_cut [of "as_bytes s" i]
    by (auto simp: is_char_boundary_def wf_str_def utf8_valid_def as_bytes_def)
  ultimately show ?thesis by (simp add: wf_str_def utf8_valid_def)
qed

section \<open>Properties\<close>

text \<open>
  the three retention checks decide exactly the documented limits. Although they accumulate with
  saturating arithmetic over usage tables, a set of reactions, revisions or pins passes exactly when the
  numbers of rows and bytes in total, per server and per room are within the limits, with at most 128
  reactions on one message and at most three by one user on it.
\<close>

theorem chat_retention_exact:
  "(chat_reactions_fit_bounds size_of rs \<longleftrightarrow>
     length rs \<le> 32768 \<and> sum_list (map (reaction_retained_bytes size_of) rs) \<le> 2 * 1024 * 1024
     \<and> (\<forall>server. rows_of (\<lambda>r. cr_server_id r = server) rs \<le> 8192
          \<and> bytes_in (reaction_retained_bytes size_of) (\<lambda>r. cr_server_id r = server) rs \<le> 512 * 1024)
     \<and> (\<forall>room. rows_of (\<lambda>r. (cr_server_id r, cr_room_id r) = room) rs \<le> 4096
          \<and> bytes_in (reaction_retained_bytes size_of) (\<lambda>r. (cr_server_id r, cr_room_id r) = room) rs \<le> 128 * 1024)
     \<and> (\<forall>target. rows_of (\<lambda>r. (cr_server_id r, cr_room_id r, cr_target_event_id r) = target) rs \<le> 128)
     \<and> (\<forall>actor. rows_of (\<lambda>r. (cr_server_id r, cr_room_id r, cr_target_event_id r, cr_actor_user_id r) = actor) rs \<le> 3))
   \<and> (chat_message_revisions_fit_bounds vs \<longleftrightarrow>
     length vs \<le> 32768 \<and> sum_list (map revision_retained_bytes vs) \<le> 64 * 1024 * 1024
     \<and> (\<forall>server. rows_of (\<lambda>r. cv_server_id r = server) vs \<le> 8192
          \<and> bytes_in revision_retained_bytes (\<lambda>r. cv_server_id r = server) vs \<le> 32 * 1024 * 1024)
     \<and> (\<forall>room. rows_of (\<lambda>r. (cv_server_id r, cv_room_id r) = room) vs \<le> 1024
          \<and> bytes_in revision_retained_bytes (\<lambda>r. (cv_server_id r, cv_room_id r) = room) vs \<le> 8 * 1024 * 1024))
   \<and> (chat_pins_fit_bounds ps \<longleftrightarrow>
     length ps \<le> 4096 \<and> sum_list (map pin_retained_bytes ps) \<le> 1048576
     \<and> (\<forall>server. rows_of (\<lambda>p. cp_server_id p = server) ps \<le> 1024))"
  by (intro conjI) (rule chat_reactions_fit_bounds_iff chat_message_revisions_fit_bounds_iff chat_pins_fit_bounds_iff)+

text \<open>
  shortened text keeps to its limit and stays well-formed UTF-8. The result is never longer than the
  limit, a text within it is unchanged, and a longer one is cut at a character boundary and marked with
  an ellipsis (or dropped where not even the ellipsis fits).
\<close>

theorem bounded_chat_text_ok:
  "length (bounded_chat_text s n) \<le> n
   \<and> (length s \<le> n \<longrightarrow> bounded_chat_text s n = s)
   \<and> (n < length s \<longrightarrow> 3 \<le> n \<longrightarrow>
        (\<exists>i\<le>n - 3. is_char_boundary s i \<and> bounded_chat_text s n = take i s @ ELLIPSIS))
   \<and> (wf_str s \<longrightarrow> wf_str (bounded_chat_text s n))"
proof -
  have dots: "length ELLIPSIS = 3" "utf8_chars (as_bytes ELLIPSIS) \<noteq> None"
    by (simp add: ELLIPSIS_def, code_simp)
  have "as_bytes (take i s @ ELLIPSIS) = as_bytes (take i s) @ as_bytes ELLIPSIS" for i
    by (simp add: as_bytes_def)
  then have "wf_str (take i s @ ELLIPSIS)" if "wf_str s" "is_char_boundary s i" for i
    using wf_str_take_boundary [OF that] utf8_chars_append [OF _ dots(2)]
    by (simp add: wf_str_def utf8_valid_def)
  then show ?thesis
    using dots boundary_at_or_before [of s "n - 3"]
    by (auto simp: bounded_chat_text_def wf_str_def [of "[]"] utf8_valid_def as_bytes_def [of "[]"])
qed

theorem bounded_chat_text_ok_witness:
  "wf_str (bounded_chat_text [CHR 0xC3, CHR 0xA9, CHR 0xC3, CHR 0xA9] 4) \<and>
   length (bounded_chat_text ''abcdef'' 4) \<le> 4"
proof -
  have "wf_str [CHR 0xC3, CHR 0xA9, CHR 0xC3, CHR 0xA9]" by code_simp
  then show ?thesis
    using bounded_chat_text_ok [of "[CHR 0xC3, CHR 0xA9, CHR 0xC3, CHR 0xA9]" 4]
      bounded_chat_text_ok [of "''abcdef''" 4] by blast
qed

end
