(* ===== verification/Client_History.thy ===== *)
theory Client_History
  imports Chat_Model "HOL-Library.Multiset"
begin

text \<open>
  The windows of what a client session keeps in memory (\<^verbatim>\<open>chat/client.rs\<close>): history, room catalogue and
  user catalogue are trimmed to a number of items and of retained bytes. Victims are ranked (by age for
  history, by relevance for rooms) and removed in that order until both limits hold. The capacities
  of strings and the sizes of structures are decided by the allocator and the compiler, so they are
  a parameter, the record \<open>ChatLayout\<close>.
\<close>

definition CHAT_SESSION_HISTORY_MAX_EVENTS :: nat where "CHAT_SESSION_HISTORY_MAX_EVENTS = 1024"
definition CHAT_SESSION_HISTORY_MAX_BYTES :: nat where "CHAT_SESSION_HISTORY_MAX_BYTES = 8 * 1024 * 1024"

record ChatLayout =
  ly_capacity :: "string \<Rightarrow> nat"
  ly_mentions_capacity :: "UserId list \<Rightarrow> nat"
  ly_event_size :: nat
  ly_room_size :: nat
  ly_user_size :: nat
  ly_reaction_size :: nat

definition usize_saturating_mul :: "nat \<Rightarrow> nat \<Rightarrow> nat" where
  "usize_saturating_mul a b = min (a * b) (2 ^ 64 - 1)"

definition chat_event_retained_bytes :: "ChatLayout \<Rightarrow> ChatEvent \<Rightarrow> nat" where
  "chat_event_retained_bytes ly event =
     (let kind_bytes =
        (case ev_kind event of
           KMessage body \<Rightarrow> ly_capacity ly body
         | KAction body \<Rightarrow> ly_capacity ly body
         | KNotice body \<Rightarrow> ly_capacity ly body
         | KSystem body \<Rightarrow> ly_capacity ly body
         | KRichMessage body metadata \<Rightarrow>
             usize_saturating_add (ly_capacity ly body)
               (usize_saturating_mul (ly_mentions_capacity ly (cm_mentioned_user_ids metadata)) 4)
         | KUpload resource_id filename _ \<Rightarrow>
             usize_saturating_add (ly_capacity ly resource_id) (ly_capacity ly filename)) in
      usize_saturating_add
        (usize_saturating_add
          (usize_saturating_add (ly_event_size ly) (ly_capacity ly (ev_server_id event)))
          (case ev_actor_display_name event of None \<Rightarrow> 0 | Some name \<Rightarrow> ly_capacity ly name))
        kind_bytes)"

definition retained_history_bytes :: "ChatLayout \<Rightarrow> ChatEvent list \<Rightarrow> nat" where
  "retained_history_bytes ly events =
     foldl usize_saturating_add 0 (map (chat_event_retained_bytes ly) events)"

definition room_retained_bytes :: "ChatLayout \<Rightarrow> ChatRoomSummary \<Rightarrow> nat" where
  "room_retained_bytes ly room =
     usize_saturating_add
       (usize_saturating_add
         (usize_saturating_add (ly_room_size ly) (ly_capacity ly (rm_server_id room)))
         (ly_capacity ly (rm_name room)))
       (case rm_topic room of None \<Rightarrow> 0 | Some topic \<Rightarrow> ly_capacity ly topic)"

definition retained_room_catalog_bytes :: "ChatLayout \<Rightarrow> ChatRoomSummary list \<Rightarrow> nat" where
  "retained_room_catalog_bytes ly rooms = foldl usize_saturating_add 0 (map (room_retained_bytes ly) rooms)"

definition user_retained_bytes :: "ChatLayout \<Rightarrow> ChatUserSummary \<Rightarrow> nat" where
  "user_retained_bytes ly user =
     usize_saturating_add
       (usize_saturating_add (ly_user_size ly) (ly_capacity ly (ur_server_id user)))
       (ly_capacity ly (ur_display_name user))"

definition retained_user_catalog_bytes :: "ChatLayout \<Rightarrow> ChatUserSummary list \<Rightarrow> nat" where
  "retained_user_catalog_bytes ly users = foldl usize_saturating_add 0 (map (user_retained_bytes ly) users)"

section \<open>Eviction by rank\<close>

text \<open>The loop of both trims: the indices removed, in the order of the ranking.\<close>

fun evict_ranked :: "nat \<Rightarrow> nat \<Rightarrow> (nat \<Rightarrow> nat) \<Rightarrow> nat \<Rightarrow> nat \<Rightarrow> nat list \<Rightarrow> nat list" where
  "evict_ranked max_items max_bytes bytes_at items retained [] = []"
| "evict_ranked max_items max_bytes bytes_at items retained (index # ranked) =
     (if items \<le> max_items \<and> retained \<le> max_bytes then []
      else index # evict_ranked max_items max_bytes bytes_at (items - 1) (retained - bytes_at index) ranked)"

text \<open>\<^verbatim>\<open>retain\<close> over the marks of the loop keeps the other indices in order.\<close>

definition remove_indices :: "nat list \<Rightarrow> 'a list \<Rightarrow> 'a list" where
  "remove_indices gone xs = map ((!) xs) (filter (\<lambda>i. i \<notin> set gone) [0..<length xs])"

datatype HistoryWindowEdge = Oldest | Newest

definition history_rank ::
    "ChatEvent list \<Rightarrow> HistoryWindowEdge \<Rightarrow> (RoomId \<times> EventId) option \<Rightarrow> nat list" where
  "history_rank events edge protected =
     (let by_age = sort_key (\<lambda>i. (sint (ev_at_unix (events ! i)), ev_room_id (events ! i), ev_event_id (events ! i)))
            [0..<length events];
          ranked = (if edge = Oldest then rev by_age else by_age) in
      case protected of
        None \<Rightarrow> ranked
      | Some key \<Rightarrow> sort_key (\<lambda>i. (ev_room_id (events ! i), ev_event_id (events ! i)) = key) ranked)"

definition enforce_history_window ::
    "ChatLayout \<Rightarrow> HistoryWindowEdge \<Rightarrow> (RoomId \<times> EventId) option \<Rightarrow> ChatEvent list \<Rightarrow> ChatEvent list" where
  "enforce_history_window ly edge protected events =
     (let retained_bytes = retained_history_bytes ly events in
      if length events \<le> CHAT_SESSION_HISTORY_MAX_EVENTS \<and> retained_bytes \<le> CHAT_SESSION_HISTORY_MAX_BYTES
      then events
      else remove_indices
        (evict_ranked CHAT_SESSION_HISTORY_MAX_EVENTS CHAT_SESSION_HISTORY_MAX_BYTES
          (\<lambda>i. chat_event_retained_bytes ly (events ! i)) (length events) retained_bytes
          (history_rank events edge protected)) events)"

definition enforce_room_catalog_bounds ::
    "ChatLayout \<Rightarrow> RoomId \<Rightarrow> ChatRoomSummary list \<Rightarrow> nat \<times> ChatRoomSummary list" where
  "enforce_room_catalog_bounds ly active_room_id rooms =
     (let retained_bytes = retained_room_catalog_bytes ly rooms in
      if length rooms \<le> CHAT_SESSION_MAX_ROOMS \<and> retained_bytes \<le> CHAT_SESSION_MAX_ROOM_BYTES then (0, rooms)
      else
        let ranked = sort_key (\<lambda>i. (rm_room_id (rooms ! i) = active_room_id, rm_joined (rooms ! i),
              rm_unread (rooms ! i) > 0, length rooms - i)) [0..<length rooms];
            kept = remove_indices
              (evict_ranked CHAT_SESSION_MAX_ROOMS CHAT_SESSION_MAX_ROOM_BYTES
                (\<lambda>i. retained_room_catalog_bytes ly [rooms ! i]) (length rooms) retained_bytes ranked) rooms in
        (length rooms - length kept, kept))"

text \<open>Users are dropped from the end.\<close>

function trim_users :: "ChatLayout \<Rightarrow> nat \<Rightarrow> ChatUserSummary list \<Rightarrow> ChatUserSummary list" where
  "trim_users ly retained users =
     (if length users > CHAT_SESSION_MAX_USERS \<or> retained > CHAT_SESSION_MAX_USER_BYTES then
        if users = [] then []
        else trim_users ly (retained - retained_user_catalog_bytes ly [last users]) (butlast users)
      else users)"
  by pat_completeness auto
termination
  by (relation "measure (\<lambda>(ly, retained, users). length users)") auto

declare trim_users.simps [simp del]

definition enforce_user_catalog_bounds :: "ChatLayout \<Rightarrow> ChatUserSummary list \<Rightarrow> nat \<times> ChatUserSummary list" where
  "enforce_user_catalog_bounds ly users =
     (let kept = trim_users ly (retained_user_catalog_bytes ly users) users in
      (length users - length kept, kept))"

section \<open>Lemmas\<close>

lemma foldl_usize_saturating:
  "foldl usize_saturating_add 0 (map f xs) = min (sum_list (map f xs)) (2 ^ 64 - 1)"
  using foldl_saturating_min [of 0 f xs] by (simp add: foldl_map)

lemma retained_bytes_single:
  "chat_event_retained_bytes ly e < 2 ^ 64"
  "retained_room_catalog_bytes ly [room] = room_retained_bytes ly room"
  "retained_user_catalog_bytes ly [user] = user_retained_bytes ly user"
  by (auto simp: chat_event_retained_bytes_def retained_room_catalog_bytes_def room_retained_bytes_def
      retained_user_catalog_bytes_def user_retained_bytes_def usize_saturating_add_def Let_def)

text \<open>The loop removes the shortest prefix of the ranking after which both limits hold.\<close>

lemma evict_ranked_prefix:
  "\<exists>k\<le>length ranked. evict_ranked max_items max_bytes f items retained ranked = take k ranked
     \<and> (items - k \<le> max_items \<and> retained - sum_list (map f (take k ranked)) \<le> max_bytes \<or> k = length ranked)
     \<and> (\<forall>j<k. \<not> (items - j \<le> max_items \<and> retained - sum_list (map f (take j ranked)) \<le> max_bytes))"
proof (induction ranked arbitrary: items retained)
  case (Cons i ranked)
  show ?case
  proof (cases "items \<le> max_items \<and> retained \<le> max_bytes")
    case True
    then show ?thesis by (intro exI [of _ 0]) simp
  next
    case False
    obtain k where k: "k \<le> length ranked"
      "evict_ranked max_items max_bytes f (items - 1) (retained - f i) ranked = take k ranked"
      "items - 1 - k \<le> max_items \<and> retained - f i - sum_list (map f (take k ranked)) \<le> max_bytes \<or> k = length ranked"
      "\<forall>j<k. \<not> (items - 1 - j \<le> max_items \<and> retained - f i - sum_list (map f (take j ranked)) \<le> max_bytes)"
      using Cons.IH [of "items - 1" "retained - f i"] by blast
    have "\<not> (items - j \<le> max_items \<and> retained - sum_list (map f (take j (i # ranked))) \<le> max_bytes)"
      if "j < Suc k" for j
      using k(4) that False by (cases j) auto
    then show ?thesis using k False by (intro exI [of _ "Suc k"]) auto
  qed
qed simp

text \<open>What is left after removing a prefix of a ranking of all indices.\<close>

lemma distinct_perm: "mset xs = mset ys \<Longrightarrow> distinct ys \<Longrightarrow> distinct xs"
  by (metis distinct_count_atmost_1 mset_eq_setD)

lemma sum_list_perm: "mset xs = mset ys \<Longrightarrow> sum_list (map f xs) = (sum_list (map f ys) :: nat)"
  by (metis mset_map sum_mset_sum_list)

lemma remove_indices_rank:
  assumes "mset ranked = mset [0..<length xs]"
  shows "mset (remove_indices (take k ranked) xs) = mset (map ((!) xs) (drop k ranked))"
proof -
  have d: "distinct ranked" by (rule distinct_perm [OF assms]) simp
  have "set (take k ranked) \<union> set (drop k ranked) = {0..<length xs}"
    using assms by (metis append_take_drop_id atLeast_upt mset_eq_setD set_append set_upt)
  moreover have "set (take k ranked) \<inter> set (drop k ranked) = {}"
    using d by (simp add: set_take_disj_set_drop_if_distinct)
  ultimately have "set (filter (\<lambda>i. i \<notin> set (take k ranked)) [0..<length xs]) = set (drop k ranked)" by auto
  then have "mset (filter (\<lambda>i. i \<notin> set (take k ranked)) [0..<length xs]) = mset (drop k ranked)"
    using d by (subst (asm) set_eq_iff_mset_eq_distinct) auto
  then show ?thesis unfolding remove_indices_def by (metis mset_map)
qed

lemma remove_indices_account:
  fixes f :: "'a \<Rightarrow> nat"
  assumes "mset ranked = mset [0..<length xs]"
  shows "length (remove_indices (take k ranked) xs) = length xs - k"
    and "sum_list (map f (remove_indices (take k ranked) xs))
      = sum_list (map f xs) - sum_list (map (\<lambda>i. f (xs ! i)) (take k ranked))"
    and "set (remove_indices (take k ranked) xs) \<subseteq> set xs"
proof -
  have m: "mset (remove_indices (take k ranked) xs) = mset (map ((!) xs) (drop k ranked))"
    by (rule remove_indices_rank [OF assms])
  have len: "length ranked = length xs" using mset_eq_length [OF assms] by simp
  show "length (remove_indices (take k ranked) xs) = length xs - k"
    using mset_eq_length [OF m] len by simp
  have "sum_list (map f xs) = sum_list (map (\<lambda>i. f (xs ! i)) [0..<length xs])"
    by (metis (mono_tags, lifting) map_map map_nth comp_def map_eq_conv)
  also have "\<dots> = sum_list (map (\<lambda>i. f (xs ! i)) ranked)"
    by (rule sum_list_perm [OF assms [symmetric]])
  also have "\<dots> = sum_list (map (\<lambda>i. f (xs ! i)) (take k ranked)) + sum_list (map (\<lambda>i. f (xs ! i)) (drop k ranked))"
    by (metis append_take_drop_id map_append sum_list_append)
  also have "sum_list (map (\<lambda>i. f (xs ! i)) (drop k ranked)) = sum_list (map f (remove_indices (take k ranked) xs))"
    using sum_list_perm [OF m, of f] by (simp add: comp_def)
  finally show "sum_list (map f (remove_indices (take k ranked) xs))
      = sum_list (map f xs) - sum_list (map (\<lambda>i. f (xs ! i)) (take k ranked))" by simp
  show "set (remove_indices (take k ranked) xs) \<subseteq> set xs" by (auto simp: remove_indices_def)
qed

lemma evict_ranked_spec:
  fixes f :: "'a \<Rightarrow> nat"
  assumes ranked: "mset ranked = mset [0..<length xs]"
    and "g = (\<lambda>i. f (xs ! i))"
    and "gone = evict_ranked max_items max_bytes g (length xs) (sum_list (map f xs)) ranked"
  shows "\<exists>k\<le>length xs. gone = take k ranked
    \<and> length (remove_indices gone xs) \<le> max_items \<and> sum_list (map f (remove_indices gone xs)) \<le> max_bytes
    \<and> (\<forall>j<k. \<not> (length (remove_indices (take j ranked) xs) \<le> max_items
         \<and> sum_list (map f (remove_indices (take j ranked) xs)) \<le> max_bytes))"
proof -
  note account = remove_indices_account [OF ranked]
  have len: "length ranked = length xs" using mset_eq_length [OF ranked] by simp
  obtain k where k: "k \<le> length ranked" "gone = take k ranked"
    "length xs - k \<le> max_items \<and> sum_list (map f xs) - sum_list (map g (take k ranked)) \<le> max_bytes \<or> k = length ranked"
    "\<forall>j<k. \<not> (length xs - j \<le> max_items \<and> sum_list (map f xs) - sum_list (map g (take j ranked)) \<le> max_bytes)"
    using evict_ranked_prefix [of ranked max_items max_bytes g "length xs" "sum_list (map f xs)"] assms(3) by blast
  have "length (remove_indices gone xs) \<le> max_items \<and> sum_list (map f (remove_indices gone xs)) \<le> max_bytes"
  proof (cases "k = length ranked")
    case True
    then have "length (remove_indices gone xs) = 0" using account(1) [of k] k(2) len by simp
    then show ?thesis by simp
  next
    case False
    then show ?thesis using k(2,3) account(1) [of k] account(2) [of f k] assms(2) by simp
  qed
  then show ?thesis using k(1,2,4) len account(1,2) assms(2) by (intro exI [of _ k]) simp
qed

lemma history_rank_perm: "mset (history_rank events edge protected) = mset [0..<length events]"
  by (simp add: history_rank_def Let_def split: option.split)

text \<open>A protected event that is alone with its key is ranked last.\<close>

lemma history_rank_protected:
  assumes "i < length events" "(ev_room_id (events ! i), ev_event_id (events ! i)) = key"
    and "\<And>j. j < length events \<Longrightarrow> (ev_room_id (events ! j), ev_event_id (events ! j)) = key \<Longrightarrow> j = i"
  shows "last (history_rank events edge (Some key)) = i"
proof -
  let ?p = "\<lambda>i. (ev_room_id (events ! i), ev_event_id (events ! i)) = key"
  let ?r = "history_rank events edge (Some key)"
  have sorted: "sorted (map ?p ?r)" by (simp add: history_rank_def Let_def)
  have set: "set ?r = {0..<length events}" using mset_eq_setD [OF history_rank_perm] by simp
  then have i: "i \<in> set ?r" "?r \<noteq> []" using assms(1) by auto
  then obtain n where n: "n < length ?r" "?r ! n = i" by (meson in_set_conv_nth)
  have "?p (?r ! n) \<le> ?p (?r ! (length ?r - 1))"
    using sorted_nth_mono [OF sorted, of n "length ?r - 1"] n by simp
  then have "?p (last ?r)" using n assms(2) i(2) by (simp add: last_conv_nth)
  moreover have "last ?r < length events" using i(2) set last_in_set by fastforce
  ultimately show ?thesis using assms(3) by blast
qed

section \<open>Properties\<close>

definition history_ok :: "ChatLayout \<Rightarrow> ChatEvent list \<Rightarrow> bool" where
  "history_ok ly events \<longleftrightarrow>
     length events \<le> CHAT_SESSION_HISTORY_MAX_EVENTS
     \<and> sum_list (map (chat_event_retained_bytes ly) events) \<le> CHAT_SESSION_HISTORY_MAX_BYTES"

lemma enforce_history_window_cases:
  assumes "sum_list (map (chat_event_retained_bytes ly) events) < 2 ^ 64"
    and "kept = enforce_history_window ly edge protected events"
  shows "\<exists>k\<le>length events. kept = remove_indices (take k (history_rank events edge protected)) events
    \<and> history_ok ly kept
    \<and> (\<forall>j<k. \<not> history_ok ly (remove_indices (take j (history_rank events edge protected)) events))"
proof -
  let ?f = "chat_event_retained_bytes ly" and ?r = "history_rank events edge protected"
  have bytes: "retained_history_bytes ly events = sum_list (map ?f events)"
    using assms(1) by (simp add: retained_history_bytes_def foldl_usize_saturating)
  show ?thesis
  proof (cases "history_ok ly events")
    case True
    then have "kept = remove_indices (take 0 ?r) events"
      using assms(2) bytes by (simp add: enforce_history_window_def history_ok_def remove_indices_def map_nth)
    moreover have "remove_indices (take 0 ?r) events = events" by (simp add: remove_indices_def map_nth)
    ultimately show ?thesis using True by (intro exI [of _ 0]) simp
  next
    case False
    then have "kept = remove_indices (evict_ranked CHAT_SESSION_HISTORY_MAX_EVENTS CHAT_SESSION_HISTORY_MAX_BYTES
        (\<lambda>i. ?f (events ! i)) (length events) (sum_list (map ?f events)) ?r) events"
      using assms(2) bytes by (auto simp: enforce_history_window_def history_ok_def)
    then show ?thesis
      using evict_ranked_spec [OF history_rank_perm refl refl, where f = ?f and max_items = CHAT_SESSION_HISTORY_MAX_EVENTS
          and max_bytes = CHAT_SESSION_HISTORY_MAX_BYTES]
      unfolding history_ok_def by metis
  qed
qed

text \<open>
  C32: trimming the history keeps both limits and no less than necessary. Whatever events a session
  holds, after the trim at most 1,024 events of at most 8 MiB remain; the removed ones are the
  shortest prefix of the age ranking that achieves this; and a new event is never its own victim
  unless it is larger than the whole budget.
\<close>

theorem history_window_exact:
  assumes "sum_list (map (chat_event_retained_bytes ly) events) < 2 ^ 64"
  shows "(\<exists>k\<le>length events.
      enforce_history_window ly edge protected events
        = remove_indices (take k (history_rank events edge protected)) events
      \<and> history_ok ly (enforce_history_window ly edge protected events)
      \<and> (\<forall>j<k. \<not> history_ok ly (remove_indices (take j (history_rank events edge protected)) events)))
    \<and> (i < length events \<longrightarrow> protected = Some (ev_room_id (events ! i), ev_event_id (events ! i)) \<longrightarrow>
        (\<forall>j<length events. protected = Some (ev_room_id (events ! j), ev_event_id (events ! j)) \<longrightarrow> j = i) \<longrightarrow>
        chat_event_retained_bytes ly (events ! i) \<le> CHAT_SESSION_HISTORY_MAX_BYTES \<longrightarrow>
        events ! i \<in> set (enforce_history_window ly edge protected events))"
proof -
  let ?r = "history_rank events edge protected"
  obtain k where k: "k \<le> length events"
    "enforce_history_window ly edge protected events = remove_indices (take k ?r) events"
    "history_ok ly (enforce_history_window ly edge protected events)"
    "\<forall>j<k. \<not> history_ok ly (remove_indices (take j ?r) events)"
    using enforce_history_window_cases [OF assms refl] by blast
  have "events ! i \<in> set (enforce_history_window ly edge protected events)"
    if i: "i < length events" "protected = Some (ev_room_id (events ! i), ev_event_id (events ! i))"
      "\<forall>j<length events. protected = Some (ev_room_id (events ! j), ev_event_id (events ! j)) \<longrightarrow> j = i"
      "chat_event_retained_bytes ly (events ! i) \<le> CHAT_SESSION_HISTORY_MAX_BYTES"
  proof (rule ccontr)
    assume gone: "events ! i \<notin> set (enforce_history_window ly edge protected events)"
    have len: "length ?r = length events" using mset_eq_length [OF history_rank_perm] by simp
    have last: "last ?r = i"
      using history_rank_protected [OF i(1) refl] i(2,3) by fastforce
    have ne: "?r \<noteq> []" using len i(1) by auto
    have snoc: "?r = butlast ?r @ [i]" using ne last append_butlast_last_id by metis
    have d: "distinct (butlast ?r @ [i])"
      unfolding snoc [symmetric] by (rule distinct_perm [OF history_rank_perm]) simp
    have "\<not> k \<le> length (butlast ?r)"
    proof
      assume "k \<le> length (butlast ?r)"
      then have "take k ?r = take k (butlast ?r)" by (subst snoc) simp
      moreover have "i \<in> set (take k ?r)" using gone i(1) by (auto simp: k(2) remove_indices_def)
      ultimately show False using d by (auto dest: in_set_takeD)
    qed
    then have "k = length events" using k(1) len by simp
    then have "\<not> history_ok ly (remove_indices (take (length events - 1) ?r) events)"
      using k(4) i(1) by simp
    moreover have "mset (remove_indices (take (length events - 1) ?r) events) = mset [events ! i]"
    proof -
      have "drop (length events - 1) ?r = [i]" by (subst snoc) (simp add: len)
      then show ?thesis
        using remove_indices_rank [OF history_rank_perm, of "length events - 1" events edge protected] by simp
    qed
    then have "remove_indices (take (length events - 1) ?r) events = [events ! i]" by simp
    ultimately show False using i(4) by (simp add: history_ok_def CHAT_SESSION_HISTORY_MAX_EVENTS_def)
  qed
  then show ?thesis using k by blast
qed

theorem history_window_exact_witness:
  "let ly = \<lparr>ly_capacity = length, ly_mentions_capacity = length, ly_event_size = 5 * 1024 * 1024,
         ly_room_size = 80, ly_user_size = 80, ly_reaction_size = 64\<rparr>;
       event = (\<lambda>n. \<lparr>ev_server_id = ''s'', ev_room_id = 1, ev_event_id = n, ev_actor_user_id = None,
         ev_actor_display_name = None, ev_at_unix = 0, ev_kind = KMessage ''hi''\<rparr>)
   in history_ok ly (enforce_history_window ly Newest (Some (1, 7)) [event 9, event 7])
      \<and> event 7 \<in> set (enforce_history_window ly Newest (Some (1, 7)) [event 9, event 7])"
proof -
  let ?ly = "\<lparr>ly_capacity = length, ly_mentions_capacity = length, ly_event_size = 5 * 1024 * 1024,
    ly_room_size = 80, ly_user_size = 80, ly_reaction_size = 64\<rparr> :: ChatLayout"
  let ?event = "\<lambda>n. \<lparr>ev_server_id = ''s'', ev_room_id = 1, ev_event_id = n, ev_actor_user_id = None,
    ev_actor_display_name = None, ev_at_unix = 0, ev_kind = KMessage ''hi''\<rparr>"
  have "chat_event_retained_bytes ?ly (?event n) = 5242883" for n
    by (simp add: chat_event_retained_bytes_def usize_saturating_add_def)
  then show ?thesis
    unfolding Let_def
    using history_window_exact [of ?ly "[?event 9, ?event 7]" Newest "Some (1, 7)" 1]
    by (auto simp: CHAT_SESSION_HISTORY_MAX_BYTES_def less_Suc_eq nth_Cons')
qed

section \<open>The catalogues\<close>

lemma room_catalog_within:
  assumes "sum_list (map (room_retained_bytes ly) rooms) < 2 ^ 64"
    and "enforce_room_catalog_bounds ly active rooms = (removed, kept)"
  shows "length kept \<le> CHAT_SESSION_MAX_ROOMS
    \<and> sum_list (map (room_retained_bytes ly) kept) \<le> CHAT_SESSION_MAX_ROOM_BYTES
    \<and> set kept \<subseteq> set rooms \<and> removed = length rooms - length kept"
proof -
  let ?f = "room_retained_bytes ly"
  let ?rank = "sort_key (\<lambda>i. (rm_room_id (rooms ! i) = active, rm_joined (rooms ! i),
      rm_unread (rooms ! i) > 0, length rooms - i)) [0..<length rooms]"
  have bytes: "retained_room_catalog_bytes ly rooms = sum_list (map ?f rooms)"
    using assms(1) by (simp add: retained_room_catalog_bytes_def foldl_usize_saturating)
  have perm: "mset ?rank = mset [0..<length rooms]" by simp
  show ?thesis
  proof (cases "length rooms \<le> CHAT_SESSION_MAX_ROOMS \<and> sum_list (map ?f rooms) \<le> CHAT_SESSION_MAX_ROOM_BYTES")
    case True
    then show ?thesis using assms(2) bytes by (auto simp: enforce_room_catalog_bounds_def)
  next
    case False
    define gone where "gone = evict_ranked CHAT_SESSION_MAX_ROOMS CHAT_SESSION_MAX_ROOM_BYTES
      (\<lambda>i. ?f (rooms ! i)) (length rooms) (sum_list (map ?f rooms)) ?rank"
    have "kept = remove_indices gone rooms \<and> removed = length rooms - length kept"
      using False assms(2) bytes
      by (auto simp: enforce_room_catalog_bounds_def gone_def retained_bytes_single Let_def)
    then show ?thesis
      using evict_ranked_spec [OF perm refl gone_def] remove_indices_account(3) [OF perm] by fastforce
  qed
qed

lemma trim_users_prefix: "\<exists>n. trim_users ly retained users = take n users"
proof (induction ly retained users rule: trim_users.induct)
  case (1 ly retained users)
  show ?case
  proof (cases "(length users > CHAT_SESSION_MAX_USERS \<or> retained > CHAT_SESSION_MAX_USER_BYTES) \<and> users \<noteq> []")
    case True
    then obtain n where "trim_users ly retained users = take n (butlast users)"
      using 1 by (auto simp: trim_users.simps [of ly retained users])
    then show ?thesis by (metis butlast_conv_take take_take)
  next
    case False
    then show ?thesis by (intro exI [of _ "length users"]) (auto simp: trim_users.simps [of ly retained users])
  qed
qed

lemma trim_users_within:
  "retained = sum_list (map (user_retained_bytes ly) users) \<Longrightarrow>
     length (trim_users ly retained users) \<le> CHAT_SESSION_MAX_USERS
     \<and> sum_list (map (user_retained_bytes ly) (trim_users ly retained users)) \<le> CHAT_SESSION_MAX_USER_BYTES"
proof (induction ly retained users rule: trim_users.induct)
  case (1 ly retained users)
  show ?case
  proof (cases "(length users > CHAT_SESSION_MAX_USERS \<or> retained > CHAT_SESSION_MAX_USER_BYTES) \<and> users \<noteq> []")
    case True
    have "sum_list (map (user_retained_bytes ly) users) =
        sum_list (map (user_retained_bytes ly) (butlast users)) + user_retained_bytes ly (last users)"
      using True by (cases users rule: rev_cases) simp_all
    then show ?thesis
      using True 1 by (simp add: trim_users.simps [of ly _ users] retained_bytes_single)
  next
    case False
    then show ?thesis using 1(2) by (auto simp: trim_users.simps [of ly _ users])
  qed
qed

lemma user_catalog_within:
  assumes "sum_list (map (user_retained_bytes ly) users) < 2 ^ 64"
    and "enforce_user_catalog_bounds ly users = (removed, kept)"
  shows "length kept \<le> CHAT_SESSION_MAX_USERS
    \<and> sum_list (map (user_retained_bytes ly) kept) \<le> CHAT_SESSION_MAX_USER_BYTES
    \<and> (\<exists>n. kept = take n users) \<and> removed = length users - length kept"
proof -
  have "retained_user_catalog_bytes ly users = sum_list (map (user_retained_bytes ly) users)"
    using assms(1) by (simp add: retained_user_catalog_bytes_def foldl_usize_saturating)
  then show ?thesis
    using assms(2) trim_users_within [of _ ly users] trim_users_prefix [of ly _ users]
    by (auto simp: enforce_user_catalog_bounds_def Let_def)
qed

end
