(* ===== verification/Chat_Client.thy ===== *)
theory Chat_Client
  imports Client_History Room_Policy
begin

text \<open>
  The client's state over all its sessions (\<^verbatim>\<open>ChatClient\<close> of \<^verbatim>\<open>chat/client.rs\<close>): sessions with their
  history and catalogues, and beside them the projections of reactions, revisions, pins, audit pages
  and room policies, keyed by server. A projection holds what events and snapshots said of messages that
  are retained, and marks a target authoritative once a snapshot or a live event has covered it. Every
  operation that changes the state in memory is modelled; saving to and restoring from the chat store are not.
\<close>

definition CHAT_MODERATION_AUDIT_MAX_RECORDS_PER_SESSION :: nat where
  "CHAT_MODERATION_AUDIT_MAX_RECORDS_PER_SESSION = 256"
definition CHAT_MODERATION_AUDIT_MAX_RECORDS :: nat where "CHAT_MODERATION_AUDIT_MAX_RECORDS = 1024"
definition CHAT_MODERATION_AUDIT_MAX_BYTES :: nat where "CHAT_MODERATION_AUDIT_MAX_BYTES = 512 * 1024"
definition CHAT_MODERATION_AUDIT_RECORD_OVERHEAD_BYTES :: nat where
  "CHAT_MODERATION_AUDIT_RECORD_OVERHEAD_BYTES = 64"

type_synonym ChatSessionId = u64

datatype ChatConnectionState =
    Disconnected | Resolving | Connecting | Authenticating | Joined | Reconnecting | Draining | Failed bool

primrec connection_label :: "ChatConnectionState \<Rightarrow> string" where
  "connection_label Disconnected = ''disconnected''"
| "connection_label Resolving = ''resolving''"
| "connection_label Connecting = ''connecting''"
| "connection_label Authenticating = ''authenticating''"
| "connection_label Joined = ''joined''"
| "connection_label Reconnecting = ''reconnecting''"
| "connection_label Draining = ''draining''"
| "connection_label (Failed retry) = (if retry then ''failed (retryable)'' else ''failed (terminal)'')"

definition connection_retryable :: "ChatConnectionState \<Rightarrow> bool" where
  "connection_retryable s \<longleftrightarrow>
     s \<in> {Resolving, Connecting, Authenticating, Reconnecting, Disconnected, Failed True}"

definition manual_reconnect_allowed :: "ChatConnectionState \<Rightarrow> bool" where
  "manual_reconnect_allowed s \<longleftrightarrow> s \<in> {Disconnected, Failed True}"

record ChatSessionView =
  vs_session_id :: ChatSessionId
  vs_server :: ChatServerSummary
  vs_rooms :: "ChatRoomSummary list"
  vs_active_room :: ChatRoomSummary
  vs_users :: "ChatUserSummary list"
  vs_events :: "ChatEvent list"
  vs_status :: string

type_synonym Target = "ServerId \<times> RoomId \<times> EventId"
type_synonym TargetSets = "(ServerId, (RoomId \<times> EventId) set) btree_map"

record ChatClient =
  cc_next_session_id :: ChatSessionId
  cc_sessions :: "ChatSessionView list"
  cc_local_user_ids :: "(ServerId, UserId) btree_map"
  cc_mute_except_mentions :: "(ServerId, RoomId set) btree_map"
  cc_reactions :: "(ServerId \<times> RoomId \<times> EventId \<times> UserId \<times> ReactionToken, ChatReaction) btree_map"
  cc_authoritative_reaction_targets :: TargetSets
  cc_message_revisions :: "(Target, ChatMessageRevision) btree_map"
  cc_authoritative_message_revision_targets :: TargetSets
  cc_pins :: "(Target, ChatPin) btree_map"
  cc_pin_event_cursors :: "(Target, EventId) btree_map"
  cc_authoritative_pin_targets :: TargetSets
  cc_moderation_audit_pages :: "(ServerId \<times> RoomId, ModerationAuditPage) btree_map"
  cc_room_policies :: "(ChatSessionId \<times> RoomId, RoomPolicyProjection) btree_map"

definition chat_client_new :: ChatClient where
  "chat_client_new =
     \<lparr>cc_next_session_id = 1, cc_sessions = [], cc_local_user_ids = [], cc_mute_except_mentions = [],
      cc_reactions = [], cc_authoritative_reaction_targets = [], cc_message_revisions = [],
      cc_authoritative_message_revision_targets = [], cc_pins = [], cc_pin_event_cursors = [],
      cc_authoritative_pin_targets = [], cc_moderation_audit_pages = [], cc_room_policies = []\<rparr>"

text \<open>Operations that may fail return the error or result and the state after them.\<close>

type_synonym 'a chat_op = "ChatClient \<Rightarrow> (string + 'a) \<times> ChatClient"

section \<open>Sessions\<close>

definition reserve_session_id :: "ChatClient \<Rightarrow> ChatSessionId \<times> ChatClient" where
  "reserve_session_id c =
     (let n = cc_next_session_id c;
          next_id = (if n = - 1 then - 1 else n + 1) in
      (n, c\<lparr>cc_next_session_id := max next_id 1\<rparr>))"

definition chat_session :: "ChatSessionId \<Rightarrow> ChatClient \<Rightarrow> ChatSessionView option" where
  "chat_session session_id c = find (\<lambda>s. vs_session_id s = session_id) (cc_sessions c)"

text \<open>The server of a session.\<close>

definition session_server :: "ChatSessionId \<Rightarrow> ChatClient \<Rightarrow> ServerId option" where
  "session_server session_id c =
     map_option (\<lambda>s. sv_server_id (vs_server s)) (chat_session session_id c)"

text \<open>Changing the session that \<^verbatim>\<open>session_mut\<close> finds.\<close>

fun update_session ::
    "ChatSessionId \<Rightarrow> (ChatSessionView \<Rightarrow> ChatSessionView) \<Rightarrow> ChatSessionView list \<Rightarrow> ChatSessionView list" where
  "update_session session_id f [] = []"
| "update_session session_id f (s # ss) =
     (if vs_session_id s = session_id then f s # ss else s # update_session session_id f ss)"

definition bind_local_user_id :: "ChatSessionId \<Rightarrow> UserId \<Rightarrow> ChatClient \<Rightarrow> bool \<times> ChatClient" where
  "bind_local_user_id session_id user_id c =
     (if user_id = 0 then (False, c)
      else
        case session_server session_id c of
          None \<Rightarrow> (False, c)
        | Some server_id \<Rightarrow>
            (True, c\<lparr>cc_local_user_ids := bt_insert server_id user_id (cc_local_user_ids c)\<rparr>))"

definition local_user_id :: "ChatSessionId \<Rightarrow> ChatClient \<Rightarrow> UserId option" where
  "local_user_id session_id c =
     Option.bind (session_server session_id c) (bt_get (cc_local_user_ids c))"

definition known_room :: "ChatSessionView \<Rightarrow> RoomId \<Rightarrow> bool" where
  "known_room session room_id \<longleftrightarrow>
     rm_room_id (vs_active_room session) = room_id \<or> list_ex (\<lambda>r. rm_room_id r = room_id) (vs_rooms session)"

section \<open>Room policies\<close>

definition client_room_policy :: "ChatSessionId \<Rightarrow> RoomId \<Rightarrow> ChatClient \<Rightarrow> RoomPolicyProjection option" where
  "client_room_policy session_id room_id c =
     (case chat_session session_id c of
        None \<Rightarrow> None
      | Some _ \<Rightarrow> bt_get (cc_room_policies c) (session_id, room_id))"

definition room_policy_bits :: "ChatSessionId \<Rightarrow> RoomId \<Rightarrow> ChatClient \<Rightarrow> u64 option" where
  "room_policy_bits session_id room_id c = map_option pp_policy_bits (client_room_policy session_id room_id c)"

definition room_slow_mode_seconds :: "ChatSessionId \<Rightarrow> RoomId \<Rightarrow> ChatClient \<Rightarrow> u32 option" where
  "room_slow_mode_seconds session_id room_id c =
     map_option pp_slow_mode_seconds (client_room_policy session_id room_id c)"

definition room_upload_policy ::
    "ChatSessionId \<Rightarrow> RoomId \<Rightarrow> ChatClient \<Rightarrow> RoomUploadPolicyProjection option" where
  "room_upload_policy session_id room_id c =
     Option.bind (client_room_policy session_id room_id c) pp_upload_policy"

definition room_is_announcement_only :: "ChatSessionId \<Rightarrow> RoomId \<Rightarrow> ChatClient \<Rightarrow> bool" where
  "room_is_announcement_only session_id room_id c \<longleftrightarrow>
     (case client_room_policy session_id room_id c of
        None \<Rightarrow> False | Some p \<Rightarrow> policy_announcement_only p)"

definition local_user_can_view_moderation_audit :: "ChatSessionId \<Rightarrow> ChatClient \<Rightarrow> bool" where
  "local_user_can_view_moderation_audit session_id c \<longleftrightarrow>
     (case local_user_id session_id c of
        None \<Rightarrow> False
      | Some user_id \<Rightarrow>
          (case chat_session session_id c of
             None \<Rightarrow> False
           | Some s \<Rightarrow> list_ex (\<lambda>u. ur_user_id u = user_id
               \<and> ur_role_bits u AND (CHAT_ROLE_MODERATOR OR CHAT_ROLE_ADMIN) \<noteq> 0) (vs_users s)))"

definition local_user_can_publish_to_room :: "ChatSessionId \<Rightarrow> RoomId \<Rightarrow> ChatClient \<Rightarrow> bool" where
  "local_user_can_publish_to_room session_id room_id c \<longleftrightarrow>
     (if \<not> room_is_announcement_only session_id room_id c then True
      else
        case local_user_id session_id c of
          None \<Rightarrow> False
        | Some user_id \<Rightarrow>
            (case chat_session session_id c of
               None \<Rightarrow> False
             | Some s \<Rightarrow> list_ex (\<lambda>u. ur_user_id u = user_id
                 \<and> ur_role_bits u AND (CHAT_ROLE_MODERATOR OR CHAT_ROLE_ADMIN) \<noteq> 0) (vs_users s)))"

definition replace_room_policies ::
    "ChatSessionId \<Rightarrow> (RoomId \<times> RoomPolicyProjection) list \<Rightarrow> ChatClient \<Rightarrow> bool \<times> ChatClient" where
  "replace_room_policies session_id policies c =
     (case chat_session session_id c of
        None \<Rightarrow> (False, c)
      | Some session \<Rightarrow>
          if length policies > CHAT_SESSION_MAX_ROOMS
             \<or> list_ex (\<lambda>(room_id, _). \<not> known_room session room_id) policies
          then (False, c)
          else
            (True, c\<lparr>cc_room_policies :=
              fold (\<lambda>(room_id, policy). bt_insert (session_id, room_id) policy) policies
                (bt_retain (\<lambda>(stored, _) _. stored \<noteq> session_id) (cc_room_policies c))\<rparr>))"

definition update_room_policy ::
    "ChatSessionId \<Rightarrow> RoomId \<Rightarrow> RoomPolicyProjection \<Rightarrow> ChatClient \<Rightarrow> bool \<times> ChatClient" where
  "update_room_policy session_id room_id policy c =
     (case chat_session session_id c of
        None \<Rightarrow> (False, c)
      | Some session \<Rightarrow>
          if \<not> known_room session room_id then (False, c)
          else if bt_get (cc_room_policies c) (session_id, room_id) = None
             \<and> bt_count (\<lambda>(stored, _) _. stored = session_id) (cc_room_policies c) \<ge> CHAT_SESSION_MAX_ROOMS
          then (False, c)
          else (True, c\<lparr>cc_room_policies := bt_insert (session_id, room_id) policy (cc_room_policies c)\<rparr>))"

definition clear_room_policies :: "ChatSessionId \<Rightarrow> ChatClient \<Rightarrow> ChatClient" where
  "clear_room_policies session_id c =
     (case chat_session session_id c of
        None \<Rightarrow> c
      | Some _ \<Rightarrow> c\<lparr>cc_room_policies :=
          bt_retain (\<lambda>(stored, _) _. stored \<noteq> session_id) (cc_room_policies c)\<rparr>)"

section \<open>Moderation audit pages\<close>

definition moderation_audit_page_bytes :: "ModerationAuditPage \<Rightarrow> nat" where
  "moderation_audit_page_bytes page =
     foldl (\<lambda>used r.
       usize_saturating_add
         (usize_saturating_add
           (usize_saturating_add used CHAT_MODERATION_AUDIT_RECORD_OVERHEAD_BYTES)
           (length (ar_actor_display_name_at_action r)))
         (case ar_target_display_name_at_action r of None \<Rightarrow> 0 | Some name \<Rightarrow> length name))
       0 (ap_records page)"

definition moderation_audit_page ::
    "ChatSessionId \<Rightarrow> RoomId \<Rightarrow> ChatClient \<Rightarrow> ModerationAuditPage option" where
  "moderation_audit_page session_id room_id c =
     (case session_server session_id c of
        None \<Rightarrow> None
      | Some server_id \<Rightarrow> bt_get (cc_moderation_audit_pages c) (server_id, room_id))"

definition replace_moderation_audit_page ::
    "ChatSessionId \<Rightarrow> RoomId \<Rightarrow> ModerationAuditPage \<Rightarrow> unit chat_op" where
  "replace_moderation_audit_page session_id room_id page c =
     (case session_server session_id c of
        None \<Rightarrow> (Inl ''moderation audit page did not identify an active session'', c)
      | Some server_id \<Rightarrow>
          if \<not> is_ok (audit_page_validate_room page room_id)
          then (Inl ''moderation audit page failed room validation'', c)
          else
            let key = (server_id, room_id);
                pages = cc_moderation_audit_pages c;
                records = (\<lambda>p. length (ap_records p));
                current = bt_get pages key;
                replaced_records = (case current of None \<Rightarrow> 0 | Some p \<Rightarrow> records p);
                replaced_bytes = (case current of None \<Rightarrow> 0 | Some p \<Rightarrow> moderation_audit_page_bytes p);
                retained_records = usize_saturating_add (bt_sum records pages - replaced_records) (records page);
                session_records = usize_saturating_add
                  (bt_sum records (bt_retain (\<lambda>(stored, _) _. stored = server_id) pages) - replaced_records)
                  (records page);
                retained_bytes = usize_saturating_add
                  (bt_sum moderation_audit_page_bytes pages - replaced_bytes) (moderation_audit_page_bytes page) in
            if session_records > CHAT_MODERATION_AUDIT_MAX_RECORDS_PER_SESSION
               \<or> retained_records > CHAT_MODERATION_AUDIT_MAX_RECORDS
               \<or> retained_bytes > CHAT_MODERATION_AUDIT_MAX_BYTES
            then (Inl ''moderation audit client projection exceeded its bounded retention'',
                  c\<lparr>cc_moderation_audit_pages := bt_remove key pages\<rparr>)
            else (Inr (), c\<lparr>cc_moderation_audit_pages := bt_insert key page pages\<rparr>))"

definition append_moderation_audit_page ::
    "ChatSessionId \<Rightarrow> RoomId \<Rightarrow> EventId \<Rightarrow> ModerationAuditPage \<Rightarrow> unit chat_op" where
  "append_moderation_audit_page session_id room_id before_audit_id page c =
     (if \<not> is_ok (audit_page_validate_room page room_id)
      then (Inl ''moderation audit page failed room validation'', c)
      else
        case moderation_audit_page session_id room_id c of
          None \<Rightarrow> (Inl ''moderation audit older page has no retained first page'', c)
        | Some current \<Rightarrow>
            if ap_records current = [] \<or> ar_audit_id (last (ap_records current)) \<noteq> before_audit_id
            then (Inl ''moderation audit older page cursor does not match retained history'', c)
            else if list_ex (\<lambda>r. ar_audit_id r \<ge> before_audit_id) (ap_records page)
            then (Inl ''moderation audit older page violated its exclusive cursor'', c)
            else
              let combined = \<lparr>ap_records = ap_records current @ ap_records page\<rparr> in
              if \<not> is_ok (audit_page_into_frame_values combined)
              then (Inl ''moderation audit accumulated page failed bounded ordering'', c)
              else replace_moderation_audit_page session_id room_id combined c)"

definition clear_moderation_audit :: "ChatSessionId \<Rightarrow> ChatClient \<Rightarrow> ChatClient" where
  "clear_moderation_audit session_id c =
     (case session_server session_id c of
        None \<Rightarrow> c
      | Some server_id \<Rightarrow> c\<lparr>cc_moderation_audit_pages :=
          bt_retain (\<lambda>(stored, _) _. stored \<noteq> server_id) (cc_moderation_audit_pages c)\<rparr>)"

definition clear_moderation_audit_room :: "ChatSessionId \<Rightarrow> RoomId \<Rightarrow> ChatClient \<Rightarrow> ChatClient" where
  "clear_moderation_audit_room session_id room_id c =
     (case session_server session_id c of
        None \<Rightarrow> c
      | Some server_id \<Rightarrow> c\<lparr>cc_moderation_audit_pages :=
          bt_remove (server_id, room_id) (cc_moderation_audit_pages c)\<rparr>)"

definition retained_mention_count :: "ChatSessionId \<Rightarrow> RoomId \<Rightarrow> ChatClient \<Rightarrow> u32" where
  "retained_mention_count session_id room_id c =
     (case chat_session session_id c of
        None \<Rightarrow> 0
      | Some s \<Rightarrow> retained_local_mention_count (vs_events s) (sv_server_id (vs_server s)) room_id
          (local_user_id session_id c))"

section \<open>Targets\<close>

definition is_transient_local_event_id :: "EventId \<Rightarrow> bool" where
  "is_transient_local_event_id event_id \<longleftrightarrow> event_id > - 1 - 1000000"

text \<open>Whether a session retains a message that an event or snapshot may refer to.\<close>

definition retains_target :: "(ChatEvent \<Rightarrow> bool) \<Rightarrow> ChatSessionView \<Rightarrow> RoomId \<Rightarrow> EventId \<Rightarrow> bool" where
  "retains_target supports session room_id event_id \<longleftrightarrow>
     list_ex (\<lambda>e. ev_room_id e = room_id \<and> ev_event_id e = event_id
       \<and> \<not> is_transient_local_event_id (ev_event_id e) \<and> supports e) (vs_events session)"

definition targets_contain :: "TargetSets \<Rightarrow> ServerId \<Rightarrow> RoomId \<times> EventId \<Rightarrow> bool" where
  "targets_contain m server_id target \<longleftrightarrow>
     (case bt_get m server_id of None \<Rightarrow> False | Some ts \<Rightarrow> target \<in> ts)"

text \<open>\<^verbatim>\<open>entry(server_id).or_default()\<close> extended by some targets.\<close>

definition targets_extend :: "ServerId \<Rightarrow> (RoomId \<times> EventId) set \<Rightarrow> TargetSets \<Rightarrow> TargetSets" where
  "targets_extend server_id new m =
     bt_insert server_id ((case bt_get m server_id of None \<Rightarrow> {} | Some ts \<Rightarrow> ts) \<union> new) m"

text \<open>\<^verbatim>\<open>targets.retain(..)\<close>, and the entry removed when nothing is left.\<close>

definition targets_prune :: "ServerId \<Rightarrow> (RoomId \<times> EventId \<Rightarrow> bool) \<Rightarrow> TargetSets \<Rightarrow> TargetSets" where
  "targets_prune server_id keep m =
     (case bt_get m server_id of
        None \<Rightarrow> m
      | Some ts \<Rightarrow>
          let kept = Set.filter keep ts in
          if kept = {} then bt_remove server_id m else bt_insert server_id kept m)"

text \<open>The messages of a server that some session retains.\<close>

definition retained_targets :: "(ChatEvent \<Rightarrow> bool) \<Rightarrow> ServerId \<Rightarrow> ChatClient \<Rightarrow> (RoomId \<times> EventId) set" where
  "retained_targets supports server_id c =
     set (concat (map (\<lambda>s. map (\<lambda>e. (ev_room_id e, ev_event_id e)) (filter supports (vs_events s)))
       (filter (\<lambda>s. sv_server_id (vs_server s) = server_id) (cc_sessions c))))"

definition prune_reaction_state_for_server :: "ServerId \<Rightarrow> ChatClient \<Rightarrow> ChatClient" where
  "prune_reaction_state_for_server server_id c =
     (let retained = retained_targets (\<lambda>_. True) server_id c in
      c\<lparr>cc_reactions := bt_retain (\<lambda>(stored, room_id, target, _) _.
            stored \<noteq> server_id \<or> (room_id, target) \<in> retained) (cc_reactions c),
        cc_authoritative_reaction_targets :=
          targets_prune server_id (\<lambda>t. t \<in> retained) (cc_authoritative_reaction_targets c)\<rparr>)"

definition prune_message_revision_state_for_server :: "ServerId \<Rightarrow> ChatClient \<Rightarrow> ChatClient" where
  "prune_message_revision_state_for_server server_id c =
     (if cc_message_revisions c = [] \<and> cc_authoritative_message_revision_targets c = [] then c
      else
        let retained = retained_targets chat_event_supports_message_revisions server_id c in
        c\<lparr>cc_message_revisions := bt_retain (\<lambda>(stored, room_id, target) _.
              stored \<noteq> server_id \<or> (room_id, target) \<in> retained) (cc_message_revisions c),
          cc_authoritative_message_revision_targets :=
            targets_prune server_id (\<lambda>t. t \<in> retained) (cc_authoritative_message_revision_targets c)\<rparr>)"

definition prune_pin_state_for_server :: "ServerId \<Rightarrow> ChatClient \<Rightarrow> ChatClient" where
  "prune_pin_state_for_server server_id c =
     (if cc_pins c = [] \<and> cc_pin_event_cursors c = [] \<and> cc_authoritative_pin_targets c = [] then c
      else
        let retained = retained_targets chat_event_supports_pins server_id c in
        c\<lparr>cc_pins := bt_retain (\<lambda>(stored, room_id, target) _.
              stored \<noteq> server_id \<or> (room_id, target) \<in> retained) (cc_pins c),
          cc_pin_event_cursors := bt_retain (\<lambda>(stored, room_id, target) _.
              stored \<noteq> server_id \<or> (room_id, target) \<in> retained) (cc_pin_event_cursors c),
          cc_authoritative_pin_targets :=
            targets_prune server_id (\<lambda>t. t \<in> retained) (cc_authoritative_pin_targets c)\<rparr>)"

section \<open>Reactions\<close>

definition reactions_for_targets :: "ChatSessionId \<Rightarrow> RoomId \<Rightarrow> EventId list \<Rightarrow> ChatClient \<Rightarrow> ChatReaction list" where
  "reactions_for_targets session_id room_id target_event_ids c =
     (case session_server session_id c of
        None \<Rightarrow> []
      | Some server_id \<Rightarrow>
          let range_start = (server_id, room_id, 0, 0, ThumbsUp);
              range_end = (server_id, room_id, - 1, - 1, Question) in
          sort_key (\<lambda>r. (cr_target_event_id r, reaction_token_as_str (cr_token r), cr_actor_user_id r))
            (filter (\<lambda>r. cr_target_event_id r \<in> set target_event_ids)
              (map snd (filter (\<lambda>(k, _). range_start \<le> k \<and> k \<le> range_end) (cc_reactions c)))))"

definition reaction_snapshot_complete :: "ChatSessionId \<Rightarrow> RoomId \<Rightarrow> EventId \<Rightarrow> ChatClient \<Rightarrow> bool" where
  "reaction_snapshot_complete session_id room_id target_event_id c \<longleftrightarrow>
     (case session_server session_id c of
        None \<Rightarrow> False
      | Some server_id \<Rightarrow> targets_contain (cc_authoritative_reaction_targets c) server_id (room_id, target_event_id))"

definition authoritative_reaction_targets :: "ChatSessionId \<Rightarrow> RoomId \<Rightarrow> ChatClient \<Rightarrow> EventId set" where
  "authoritative_reaction_targets session_id room_id c =
     (case session_server session_id c of
        None \<Rightarrow> {}
      | Some server_id \<Rightarrow>
          (case bt_get (cc_authoritative_reaction_targets c) server_id of
             None \<Rightarrow> {}
           | Some ts \<Rightarrow> snd ` Set.filter (\<lambda>(stored, _). stored = room_id) ts))"

definition mark_reactions_stale :: "ChatSessionId \<Rightarrow> ChatClient \<Rightarrow> ChatClient" where
  "mark_reactions_stale session_id c =
     (case session_server session_id c of
        None \<Rightarrow> c
      | Some server_id \<Rightarrow> c\<lparr>cc_authoritative_reaction_targets :=
          bt_remove server_id (cc_authoritative_reaction_targets c)\<rparr>)"

definition mark_live_reaction_target_authoritative ::
    "ChatSessionId \<Rightarrow> RoomId \<Rightarrow> EventId \<Rightarrow> ChatClient \<Rightarrow> bool \<times> ChatClient" where
  "mark_live_reaction_target_authoritative session_id room_id target_event_id c =
     (case chat_session session_id c of
        None \<Rightarrow> (False, c)
      | Some session \<Rightarrow>
          if \<not> retains_target chat_event_supports_reactions session room_id target_event_id then (False, c)
          else
            let server_id = sv_server_id (vs_server session);
                c = prune_reaction_state_for_server server_id c;
                m = cc_authoritative_reaction_targets c in
            (\<not> targets_contain m server_id (room_id, target_event_id),
             c\<lparr>cc_authoritative_reaction_targets := targets_extend server_id {(room_id, target_event_id)} m\<rparr>))"

definition apply_reaction_event :: "ChatLayout \<Rightarrow> ChatSessionId \<Rightarrow> RoomId \<Rightarrow> ReactionEvent \<Rightarrow> bool chat_op" where
  "apply_reaction_event ly session_id room_id event c =
     (if \<not> is_ok (reaction_event_into_frame_body event) then (Inl ''reaction event is invalid'', c)
      else
        case chat_session session_id c of
          None \<Rightarrow> (Inl ''reaction session is unavailable'', c)
        | Some session \<Rightarrow>
            if \<not> retains_target chat_event_supports_reactions session room_id (re_target_event_id event)
            then (Inl ''reaction target is not retained'', c)
            else
              let server_id = sv_server_id (vs_server session);
                  key = (server_id, room_id, re_target_event_id event, re_actor_user_id event, re_token event);
                  present = (bt_get (cc_reactions c) key \<noteq> None);
                  (changed, updated) =
                    (case re_action event of
                       Add \<Rightarrow> (\<not> present, bt_insert key
                         \<lparr>cr_server_id = server_id, cr_room_id = room_id,
                          cr_target_event_id = re_target_event_id event,
                          cr_actor_user_id = re_actor_user_id event, cr_token = re_token event,
                          cr_created_at_unix = re_at_unix event\<rparr> (cc_reactions c))
                     | Remove \<Rightarrow> (present, bt_remove key (cc_reactions c))) in
              if \<not> chat_reactions_fit_bounds (ly_reaction_size ly) (map snd updated)
              then (Inl ''reaction state exceeds client retention limits'', c)
              else (Inr changed, c\<lparr>cc_reactions := updated\<rparr>))"

definition reaction_entry_row :: "ServerId \<Rightarrow> RoomId \<Rightarrow> ReactionSnapshotEntry \<Rightarrow> ChatReaction" where
  "reaction_entry_row server_id room_id e =
     \<lparr>cr_server_id = server_id, cr_room_id = room_id, cr_target_event_id = rs_target_event_id e,
      cr_actor_user_id = rs_actor_user_id e, cr_token = rs_token e, cr_created_at_unix = rs_created_at_unix e\<rparr>"

definition replace_reaction_snapshot_with_authority ::
    "ChatLayout \<Rightarrow> ChatSessionId \<Rightarrow> RoomId \<Rightarrow> ReactionSnapshot \<Rightarrow> bool \<Rightarrow> unit chat_op" where
  "replace_reaction_snapshot_with_authority ly session_id room_id snapshot authoritative c =
     (if \<not> is_ok (reaction_snapshot_into_frame_body snapshot) then (Inl ''reaction snapshot is invalid'', c)
      else
        case chat_session session_id c of
          None \<Rightarrow> (Inl ''reaction session is unavailable'', c)
        | Some session \<Rightarrow>
            let target_set = set (rs_target_event_ids snapshot) in
            if \<not> (\<forall>t\<in>target_set. retains_target chat_event_supports_reactions session room_id t)
            then (Inl ''reaction snapshot target is not retained'', c)
            else
              let server_id = sv_server_id (vs_server session);
                  updated = fold (\<lambda>e. bt_insert
                      (server_id, room_id, rs_target_event_id e, rs_actor_user_id e, rs_token e)
                      (reaction_entry_row server_id room_id e)) (rs_entries snapshot)
                    (bt_retain (\<lambda>(stored, stored_room, target, _) _.
                      stored \<noteq> server_id \<or> stored_room \<noteq> room_id \<or> target \<notin> target_set) (cc_reactions c)) in
              if \<not> chat_reactions_fit_bounds (ly_reaction_size ly) (map snd updated)
              then (Inl ''reaction snapshot exceeds client retention limits'', c)
              else
                let c = c\<lparr>cc_reactions := updated\<rparr> in
                if authoritative then
                  let c = prune_reaction_state_for_server server_id c in
                  (Inr (), c\<lparr>cc_authoritative_reaction_targets :=
                     targets_extend server_id (Pair room_id ` target_set) (cc_authoritative_reaction_targets c)\<rparr>)
                else (Inr (), c))"

definition replace_reaction_snapshot ::
    "ChatLayout \<Rightarrow> ChatSessionId \<Rightarrow> RoomId \<Rightarrow> ReactionSnapshot \<Rightarrow> unit chat_op" where
  "replace_reaction_snapshot ly session_id room_id snapshot =
     replace_reaction_snapshot_with_authority ly session_id room_id snapshot True"

section \<open>Message revisions\<close>

definition message_revision_for_target ::
    "ChatSessionId \<Rightarrow> RoomId \<Rightarrow> EventId \<Rightarrow> ChatClient \<Rightarrow> ChatMessageRevision option" where
  "message_revision_for_target session_id room_id target_event_id c =
     (case session_server session_id c of
        None \<Rightarrow> None
      | Some server_id \<Rightarrow> bt_get (cc_message_revisions c) (server_id, room_id, target_event_id))"

definition message_revision_target_authoritative :: "ChatSessionId \<Rightarrow> RoomId \<Rightarrow> EventId \<Rightarrow> ChatClient \<Rightarrow> bool" where
  "message_revision_target_authoritative session_id room_id target_event_id c \<longleftrightarrow>
     (case session_server session_id c of
        None \<Rightarrow> False
      | Some server_id \<Rightarrow>
          targets_contain (cc_authoritative_message_revision_targets c) server_id (room_id, target_event_id))"

definition message_revision_snapshot_complete :: "ChatSessionId \<Rightarrow> RoomId \<Rightarrow> EventId \<Rightarrow> ChatClient \<Rightarrow> bool" where
  "message_revision_snapshot_complete session_id room_id target_event_id c \<longleftrightarrow>
     message_revision_target_authoritative session_id room_id target_event_id c"

definition mark_message_revision_target_authoritative ::
    "ServerId \<Rightarrow> RoomId \<Rightarrow> EventId \<Rightarrow> ChatClient \<Rightarrow> bool \<times> ChatClient" where
  "mark_message_revision_target_authoritative server_id room_id target_event_id c =
     (let m = cc_authoritative_message_revision_targets c in
      (\<not> targets_contain m server_id (room_id, target_event_id),
       c\<lparr>cc_authoritative_message_revision_targets :=
          targets_extend server_id {(room_id, target_event_id)} m\<rparr>))"

definition mark_message_revisions_stale :: "ChatSessionId \<Rightarrow> ChatClient \<Rightarrow> ChatClient" where
  "mark_message_revisions_stale session_id c =
     (case session_server session_id c of
        None \<Rightarrow> c
      | Some server_id \<Rightarrow> c\<lparr>cc_authoritative_message_revision_targets :=
          bt_remove server_id (cc_authoritative_message_revision_targets c)\<rparr>)"

definition revision_event_row :: "ServerId \<Rightarrow> RoomId \<Rightarrow> MessageRevisionEvent \<Rightarrow> ChatMessageRevision" where
  "revision_event_row server_id room_id event =
     \<lparr>cv_server_id = server_id, cv_room_id = room_id, cv_target_event_id = me_target_event_id event,
      cv_latest_revision_event_id = me_revision_event_id event, cv_action = me_action event,
      cv_actor_user_id = me_actor_user_id event, cv_replacement_body = me_replacement event,
      cv_at_unix = me_at_unix event, cv_revision_number = me_revision_number event\<rparr>"

definition revision_stale :: "ChatMessageRevision \<Rightarrow> ChatMessageRevision \<Rightarrow> bool" where
  "revision_stale current revision \<longleftrightarrow>
     cv_latest_revision_event_id revision \<le> cv_latest_revision_event_id current
     \<or> cv_revision_number revision \<le> cv_revision_number current \<or> cv_action current = Tombstone"

definition apply_message_revision_event ::
    "ChatSessionId \<Rightarrow> RoomId \<Rightarrow> MessageRevisionEvent \<Rightarrow> bool chat_op" where
  "apply_message_revision_event session_id room_id event c =
     (if \<not> is_ok (revision_event_into_frame_body event) then (Inl ''message revision event is invalid'', c)
      else
        case chat_session session_id c of
          None \<Rightarrow> (Inl ''message revision session is unavailable'', c)
        | Some session \<Rightarrow>
            if \<not> retains_target chat_event_supports_message_revisions session room_id (me_target_event_id event)
            then (Inl ''message revision target is not retained'', c)
            else
              let server_id = sv_server_id (vs_server session);
                  key = (server_id, room_id, me_target_event_id event);
                  revision = revision_event_row server_id room_id event;
                  current = bt_get (cc_message_revisions c) key in
              if current = Some revision then
                let (fresh, c) = mark_message_revision_target_authoritative server_id room_id
                  (me_target_event_id event) c in (Inr fresh, c)
              else if (case current of None \<Rightarrow> False | Some old \<Rightarrow> revision_stale old revision)
              then (Inl ''message revision event is stale or conflicts with retained state'', c)
              else
                let updated = bt_insert key revision (cc_message_revisions c) in
                if \<not> chat_message_revisions_fit_bounds (map snd updated)
                then (Inl ''message revision state exceeds client retention limits'', c)
                else (Inr True, snd (mark_message_revision_target_authoritative server_id room_id
                  (me_target_event_id event) (c\<lparr>cc_message_revisions := updated\<rparr>))))"

definition revision_entry_row :: "ServerId \<Rightarrow> RoomId \<Rightarrow> MessageRevisionSnapshotEntry \<Rightarrow> ChatMessageRevision" where
  "revision_entry_row server_id room_id e =
     \<lparr>cv_server_id = server_id, cv_room_id = room_id, cv_target_event_id = ms_target_event_id e,
      cv_latest_revision_event_id = ms_latest_revision_event_id e, cv_action = ms_action e,
      cv_actor_user_id = ms_actor_user_id e, cv_replacement_body = ms_replacement e,
      cv_at_unix = ms_at_unix e, cv_revision_number = ms_revision_number e\<rparr>"

definition replace_message_revision_snapshot_with_authority ::
    "ChatSessionId \<Rightarrow> RoomId \<Rightarrow> MessageRevisionSnapshot \<Rightarrow> bool \<Rightarrow> unit chat_op" where
  "replace_message_revision_snapshot_with_authority session_id room_id snapshot authoritative c =
     (if \<not> is_ok (revision_snapshot_into_frame_body snapshot) then (Inl ''message revision snapshot is invalid'', c)
      else
        case chat_session session_id c of
          None \<Rightarrow> (Inl ''message revision session is unavailable'', c)
        | Some session \<Rightarrow>
            let target_set = set (ms_target_event_ids snapshot) in
            if \<not> (\<forall>t\<in>target_set. retains_target chat_event_supports_message_revisions session room_id t)
            then (Inl ''message revision snapshot target is not retained'', c)
            else
              let server_id = sv_server_id (vs_server session);
                  updated = fold (\<lambda>e. bt_insert (server_id, room_id, ms_target_event_id e)
                      (revision_entry_row server_id room_id e)) (ms_entries snapshot)
                    (bt_retain (\<lambda>(stored, stored_room, target) _.
                      stored \<noteq> server_id \<or> stored_room \<noteq> room_id \<or> target \<notin> target_set) (cc_message_revisions c)) in
              if \<not> chat_message_revisions_fit_bounds (map snd updated)
              then (Inl ''message revision snapshot exceeds client retention limits'', c)
              else
                let c = c\<lparr>cc_message_revisions := updated\<rparr> in
                if authoritative then
                  let c = prune_message_revision_state_for_server server_id c in
                  (Inr (), c\<lparr>cc_authoritative_message_revision_targets :=
                     targets_extend server_id (Pair room_id ` target_set)
                       (cc_authoritative_message_revision_targets c)\<rparr>)
                else (Inr (), c))"

definition replace_message_revision_snapshot ::
    "ChatSessionId \<Rightarrow> RoomId \<Rightarrow> MessageRevisionSnapshot \<Rightarrow> unit chat_op" where
  "replace_message_revision_snapshot session_id room_id snapshot c =
     (case replace_message_revision_snapshot_with_authority session_id room_id snapshot True c of
        (Inl e, c) \<Rightarrow> (Inl e, mark_message_revisions_stale session_id c)
      | (Inr u, c) \<Rightarrow> (Inr u, c))"

section \<open>Pins\<close>

definition pin_for_target :: "ChatSessionId \<Rightarrow> RoomId \<Rightarrow> EventId \<Rightarrow> ChatClient \<Rightarrow> ChatPin option" where
  "pin_for_target session_id room_id target_event_id c =
     (case session_server session_id c of
        None \<Rightarrow> None
      | Some server_id \<Rightarrow> bt_get (cc_pins c) (server_id, room_id, target_event_id))"

definition pin_target_authoritative :: "ChatSessionId \<Rightarrow> RoomId \<Rightarrow> EventId \<Rightarrow> ChatClient \<Rightarrow> bool" where
  "pin_target_authoritative session_id room_id target_event_id c \<longleftrightarrow>
     (case session_server session_id c of
        None \<Rightarrow> False
      | Some server_id \<Rightarrow> targets_contain (cc_authoritative_pin_targets c) server_id (room_id, target_event_id))"

definition mark_pins_stale :: "ChatSessionId \<Rightarrow> ChatClient \<Rightarrow> ChatClient" where
  "mark_pins_stale session_id c =
     (case session_server session_id c of
        None \<Rightarrow> c
      | Some server_id \<Rightarrow>
          c\<lparr>cc_authoritative_pin_targets := bt_remove server_id (cc_authoritative_pin_targets c),
            cc_pin_event_cursors :=
              bt_retain (\<lambda>(stored, _) _. stored \<noteq> server_id) (cc_pin_event_cursors c)\<rparr>)"

definition mark_pin_room_stale :: "ChatSessionId \<Rightarrow> RoomId \<Rightarrow> ChatClient \<Rightarrow> ChatClient" where
  "mark_pin_room_stale session_id room_id c =
     (case session_server session_id c of
        None \<Rightarrow> c
      | Some server_id \<Rightarrow>
          c\<lparr>cc_authoritative_pin_targets :=
              targets_prune server_id (\<lambda>(stored_room, _). stored_room \<noteq> room_id) (cc_authoritative_pin_targets c),
            cc_pin_event_cursors := bt_retain (\<lambda>(stored, stored_room, _) _.
              stored \<noteq> server_id \<or> stored_room \<noteq> room_id) (cc_pin_event_cursors c)\<rparr>)"

definition ensure_pin_authority_capacity :: "ServerId \<Rightarrow> RoomId \<Rightarrow> EventId \<Rightarrow> ChatClient \<Rightarrow> string + unit" where
  "ensure_pin_authority_capacity server_id room_id target_event_id c =
     (if \<not> targets_contain (cc_authoritative_pin_targets c) server_id (room_id, target_event_id)
         \<and> bt_sum card (cc_authoritative_pin_targets c) \<ge> CHAT_PIN_MAX_ROWS
      then Inl ''pin authority exceeds client retention limits''
      else Inr ())"

definition mark_pin_target_authoritative :: "ServerId \<Rightarrow> RoomId \<Rightarrow> EventId \<Rightarrow> bool chat_op" where
  "mark_pin_target_authoritative server_id room_id target_event_id c =
     (case ensure_pin_authority_capacity server_id room_id target_event_id c of
        Inl e \<Rightarrow> (Inl e, c)
      | Inr _ \<Rightarrow>
          (Inr (\<not> targets_contain (cc_authoritative_pin_targets c) server_id (room_id, target_event_id)),
           c\<lparr>cc_authoritative_pin_targets :=
              targets_extend server_id {(room_id, target_event_id)} (cc_authoritative_pin_targets c)\<rparr>))"

definition pin_event_row :: "ServerId \<Rightarrow> RoomId \<Rightarrow> PinEvent \<Rightarrow> ChatPin" where
  "pin_event_row server_id room_id event =
     \<lparr>cp_server_id = server_id, cp_room_id = room_id, cp_target_event_id = pe_target_event_id event,
      cp_pin_event_id = pe_pin_event_id event, cp_actor_user_id = pe_actor_user_id event,
      cp_pinned_at_unix = pe_at_unix event\<rparr>"

text \<open>An event with the id of the last one is a repetition, or contradicts it.\<close>

definition pin_matches_current :: "PinEvent \<Rightarrow> ChatPin option \<Rightarrow> bool" where
  "pin_matches_current event current \<longleftrightarrow>
     (case pe_action event of
        Pin \<Rightarrow>
          (case current of
             None \<Rightarrow> False
           | Some pin \<Rightarrow> cp_pin_event_id pin = pe_pin_event_id event
               \<and> cp_actor_user_id pin = pe_actor_user_id event \<and> cp_pinned_at_unix pin = pe_at_unix event)
      | Unpin \<Rightarrow> current = None)"

definition commit_pin_event :: "ServerId \<Rightarrow> RoomId \<Rightarrow> PinEvent \<Rightarrow> bool chat_op" where
  "commit_pin_event server_id room_id event c =
     (let key = (server_id, room_id, pe_target_event_id event);
          (changed, updated) =
            (case pe_action event of
               Pin \<Rightarrow> (True, bt_insert key (pin_event_row server_id room_id event) (cc_pins c))
             | Unpin \<Rightarrow> (bt_get (cc_pins c) key \<noteq> None, bt_remove key (cc_pins c))) in
      if \<not> chat_pins_fit_bounds (map snd updated) then (Inl ''pin state exceeds client retention limits'', c)
      else
        case ensure_pin_authority_capacity server_id room_id (pe_target_event_id event) c of
          Inl e \<Rightarrow> (Inl e, c)
        | Inr _ \<Rightarrow>
            (Inr changed,
             c\<lparr>cc_pins := updated,
               cc_pin_event_cursors := bt_insert key (pe_pin_event_id event) (cc_pin_event_cursors c),
               cc_authoritative_pin_targets :=
                 targets_extend server_id {(room_id, pe_target_event_id event)} (cc_authoritative_pin_targets c)\<rparr>))"

definition apply_pin_event :: "ChatSessionId \<Rightarrow> RoomId \<Rightarrow> PinEvent \<Rightarrow> bool chat_op" where
  "apply_pin_event session_id room_id event c =
     (if \<not> is_ok (pin_event_into_frame_body event) then (Inl ''pin event is invalid'', c)
      else
        case chat_session session_id c of
          None \<Rightarrow> (Inl ''pin session is unavailable'', c)
        | Some session \<Rightarrow>
            if \<not> retains_target chat_event_supports_pins session room_id (pe_target_event_id event)
            then (Inl ''pin target is not retained'', c)
            else
              let server_id = sv_server_id (vs_server session);
                  key = (server_id, room_id, pe_target_event_id event) in
              case bt_get (cc_pin_event_cursors c) key of
                None \<Rightarrow> commit_pin_event server_id room_id event c
              | Some current \<Rightarrow>
                  if pe_pin_event_id event < current then (Inl ''pin event is stale'', c)
                  else if pe_pin_event_id event = current then
                    if \<not> pin_matches_current event (bt_get (cc_pins c) key)
                    then (Inl ''pin event conflicts with retained state'', c)
                    else
                      (case mark_pin_target_authoritative server_id room_id (pe_target_event_id event) c of
                         (Inl e, c) \<Rightarrow> (Inl e, c)
                       | (Inr _, c) \<Rightarrow> (Inr False, c))
                  else commit_pin_event server_id room_id event c)"

definition pin_entry_row :: "ServerId \<Rightarrow> RoomId \<Rightarrow> PinSnapshotEntry \<Rightarrow> ChatPin" where
  "pin_entry_row server_id room_id e =
     \<lparr>cp_server_id = server_id, cp_room_id = room_id, cp_target_event_id = ps_target_event_id e,
      cp_pin_event_id = ps_pin_event_id e, cp_actor_user_id = ps_actor_user_id e,
      cp_pinned_at_unix = ps_pinned_at_unix e\<rparr>"

text \<open>Whether the authority over the targets of a snapshot fits beside the other targets.\<close>

definition pin_authority_fits :: "ServerId \<Rightarrow> RoomId \<Rightarrow> EventId set \<Rightarrow> ChatClient \<Rightarrow> bool" where
  "pin_authority_fits server_id room_id target_set c \<longleftrightarrow>
     (let m = cc_authoritative_pin_targets c;
          covered = (case bt_get m server_id of
             None \<Rightarrow> 0
           | Some ts \<Rightarrow> card (Set.filter (\<lambda>(stored_room, target). stored_room = room_id \<and> target \<in> target_set) ts)) in
      usize_saturating_add (bt_sum card m - covered) (card target_set) \<le> CHAT_PIN_MAX_ROWS)"

definition replace_pin_snapshot_with_authority ::
    "ChatSessionId \<Rightarrow> RoomId \<Rightarrow> PinSnapshot \<Rightarrow> bool \<Rightarrow> unit chat_op" where
  "replace_pin_snapshot_with_authority session_id room_id snapshot authoritative c =
     (if \<not> is_ok (pin_snapshot_into_frame_body snapshot) then (Inl ''pin snapshot is invalid'', c)
      else
        case chat_session session_id c of
          None \<Rightarrow> (Inl ''pin session is unavailable'', c)
        | Some session \<Rightarrow>
            let target_set = set (ps_target_event_ids snapshot) in
            if \<not> (\<forall>t\<in>target_set. retains_target chat_event_supports_pins session room_id t)
            then (Inl ''pin snapshot target is not retained'', c)
            else
              let server_id = sv_server_id (vs_server session);
                  outside = (\<lambda>(stored, stored_room, target) _.
                    stored \<noteq> server_id \<or> stored_room \<noteq> room_id \<or> target \<notin> target_set);
                  updated = fold (\<lambda>e. bt_insert (server_id, room_id, ps_target_event_id e)
                      (pin_entry_row server_id room_id e)) (ps_entries snapshot)
                    (bt_retain outside (cc_pins c)) in
              if \<not> chat_pins_fit_bounds (map snd updated)
              then (Inl ''pin snapshot exceeds client retention limits'', c)
              else if authoritative \<and> \<not> pin_authority_fits server_id room_id target_set c
              then (Inl ''pin authority exceeds client retention limits'', c)
              else
                let cursors = fold (\<lambda>e. bt_insert (server_id, room_id, ps_target_event_id e) (ps_pin_event_id e))
                      (ps_entries snapshot)
                      (bt_retain (\<lambda>(stored, stored_room, target) _.
                        stored \<noteq> server_id \<or> stored_room \<noteq> room_id \<or> target \<notin> target_set)
                        (cc_pin_event_cursors c));
                    c = c\<lparr>cc_pins := updated, cc_pin_event_cursors := cursors\<rparr> in
                if authoritative then
                  let c = prune_pin_state_for_server server_id c in
                  (Inr (), c\<lparr>cc_authoritative_pin_targets :=
                     (let m = cc_authoritative_pin_targets c;
                          ts = (case bt_get m server_id of None \<Rightarrow> {} | Some ts \<Rightarrow> ts) in
                      bt_insert server_id
                        (Set.filter (\<lambda>(stored_room, target). stored_room \<noteq> room_id \<or> target \<notin> target_set) ts
                          \<union> Pair room_id ` target_set) m)\<rparr>)
                else (Inr (), c))"

definition replace_pin_snapshot :: "ChatSessionId \<Rightarrow> RoomId \<Rightarrow> PinSnapshot \<Rightarrow> unit chat_op" where
  "replace_pin_snapshot session_id room_id snapshot c =
     (case replace_pin_snapshot_with_authority session_id room_id snapshot True c of
        (Inl e, c) \<Rightarrow> (Inl e, mark_pins_stale session_id c)
      | (Inr u, c) \<Rightarrow> (Inr u, c))"

section \<open>Muted rooms\<close>

definition room_mute_except_mentions :: "ChatSessionId \<Rightarrow> RoomId \<Rightarrow> ChatClient \<Rightarrow> bool" where
  "room_mute_except_mentions session_id room_id c \<longleftrightarrow>
     (case session_server session_id c of
        None \<Rightarrow> False
      | Some server_id \<Rightarrow>
          (case bt_get (cc_mute_except_mentions c) server_id of None \<Rightarrow> False | Some rooms \<Rightarrow> room_id \<in> rooms))"

definition set_room_mute_except_mentions ::
    "ChatSessionId \<Rightarrow> RoomId \<Rightarrow> bool \<Rightarrow> ChatClient \<Rightarrow> bool \<times> ChatClient" where
  "set_room_mute_except_mentions session_id room_id enabled c =
     (case chat_session session_id c of
        None \<Rightarrow> (False, c)
      | Some session \<Rightarrow>
          if \<not> known_room session room_id then (False, c)
          else
            let server_id = sv_server_id (vs_server session);
                m = cc_mute_except_mentions c in
            if enabled then
              let rooms = (case bt_get m server_id of None \<Rightarrow> {} | Some rooms \<Rightarrow> rooms) in
              if room_id \<notin> rooms \<and> card rooms \<ge> CHAT_SESSION_MAX_ROOMS
              then (False, c\<lparr>cc_mute_except_mentions := bt_insert server_id rooms m\<rparr>)
              else (True, c\<lparr>cc_mute_except_mentions := bt_insert server_id (insert room_id rooms) m\<rparr>)
            else
              (True,
               case bt_get m server_id of
                 None \<Rightarrow> c
               | Some rooms \<Rightarrow>
                   c\<lparr>cc_mute_except_mentions :=
                      (if rooms - {room_id} = {} then bt_remove server_id m
                       else bt_insert server_id (rooms - {room_id}) m)\<rparr>))"

definition event_allows_unread :: "ChatSessionId \<Rightarrow> ChatEvent \<Rightarrow> ChatClient \<Rightarrow> bool" where
  "event_allows_unread session_id event c \<longleftrightarrow>
     (if \<not> room_mute_except_mentions session_id (ev_room_id event) c then True
      else
        case local_user_id session_id c of
          None \<Rightarrow> False
        | Some user_id \<Rightarrow>
            (case message_metadata event of
               None \<Rightarrow> False
             | Some metadata \<Rightarrow> binary_search_found (cm_mentioned_user_ids metadata) user_id))"

section \<open>Opening and closing sessions\<close>

text \<open>\<^verbatim>\<open>str::trim\<close>: the string without the white space at its ends, character by character.\<close>

function utf8_pieces :: "bytes \<Rightarrow> bytes list" where
  "utf8_pieces [] = []"
| "utf8_pieces (b # bs) =
     (case utf8_tail b bs of
        None \<Rightarrow> [b # bs]
      | Some n \<Rightarrow> (b # take n bs) # utf8_pieces (drop n bs))"
  by pat_completeness auto
termination
  by (relation "measure length") auto

definition str_trim :: "string \<Rightarrow> string" where
  "str_trim s = of_bytes (concat (trim_both (\<lambda>piece.
     case utf8_chars piece of Some [c] \<Rightarrow> white_space c | _ \<Rightarrow> False) (utf8_pieces (as_bytes s))))"

definition vs_set_status :: "string \<Rightarrow> ChatSessionView \<Rightarrow> ChatSessionView" where
  "vs_set_status status s = s\<lparr>vs_status := bounded_chat_text status CHAT_STATUS_MAX_BYTES\<rparr>"

definition enforce_status_bounds :: "ChatClient \<Rightarrow> ChatClient" where
  "enforce_status_bounds c =
     c\<lparr>cc_sessions := map (\<lambda>s. vs_set_status (vs_status s) s) (cc_sessions c)\<rparr>"

definition bounded_topic :: "string option \<Rightarrow> string option" where
  "bounded_topic topic =
     (case topic of
        None \<Rightarrow> None
      | Some t \<Rightarrow> if str_trim t = [] then None else Some (bounded_chat_text (str_trim t) CHAT_ROOM_TOPIC_MAX_BYTES))"

definition enforce_presentation_bounds :: "ChatSessionView \<Rightarrow> ChatSessionView" where
  "enforce_presentation_bounds s =
     (let server = (vs_server s)\<lparr>sv_display_name :=
            bounded_chat_text (str_trim (sv_display_name (vs_server s))) CHAT_SERVER_DISPLAY_MAX_BYTES\<rparr>;
          active = (vs_active_room s)\<lparr>rm_name := str_trim (rm_name (vs_active_room s)),
            rm_server_id := sv_server_id server, rm_topic := bounded_topic (rm_topic (vs_active_room s))\<rparr>;
          rooms = map (\<lambda>r. r\<lparr>rm_name := str_trim (rm_name r), rm_topic := bounded_topic (rm_topic r)\<rparr>)
            (filter (\<lambda>r. chat_text_fits (str_trim (rm_name r)) CHAT_ROOM_NAME_MAX_BYTES) (vs_rooms s));
          users = map (\<lambda>u. u\<lparr>ur_display_name := str_trim (ur_display_name u)\<rparr>)
            (filter (\<lambda>u. chat_text_fits (str_trim (ur_display_name u)) CHAT_USER_DISPLAY_MAX_BYTES) (vs_users s)) in
      vs_set_status (vs_status s)
        (s\<lparr>vs_server := server, vs_active_room := active, vs_rooms := rooms, vs_users := users\<rparr>))"

definition enforce_catalog_bounds :: "ChatLayout \<Rightarrow> ChatSessionView \<Rightarrow> (nat \<times> nat) \<times> ChatSessionView" where
  "enforce_catalog_bounds ly s =
     (let (removed_rooms, rooms) = enforce_room_catalog_bounds ly (rm_room_id (vs_active_room s)) (vs_rooms s);
          (removed_users, users) = enforce_user_catalog_bounds ly (vs_users s) in
      ((removed_rooms, removed_users), s\<lparr>vs_rooms := rooms, vs_users := users\<rparr>))"

definition push_session :: "ChatLayout \<Rightarrow> ChatSessionView \<Rightarrow> ChatClient \<Rightarrow> bool \<times> ChatClient" where
  "push_session ly session c =
     (if length (cc_sessions c) \<ge> CHAT_CLIENT_MAX_SESSIONS
         \<or> \<not> chat_text_fits (sv_server_id (vs_server session)) CHAT_SERVER_ID_MAX_BYTES
         \<or> \<not> chat_text_fits (sv_destination (vs_server session)) CHAT_SERVER_DESTINATION_MAX_BYTES
         \<or> trim_is_empty (rm_name (vs_active_room session))
         \<or> \<not> chat_text_fits (str_trim (rm_name (vs_active_room session))) CHAT_ROOM_NAME_MAX_BYTES
      then (False, c)
      else
        let session = session\<lparr>vs_events := enforce_history_window ly Newest None (vs_events session)\<rparr>;
            session = enforce_presentation_bounds session;
            session = snd (enforce_catalog_bounds ly session) in
        (True, c\<lparr>cc_sessions := cc_sessions c @ [session]\<rparr>))"

definition forget_server :: "ServerId \<Rightarrow> ChatClient \<Rightarrow> ChatClient" where
  "forget_server server_id c =
     c\<lparr>cc_local_user_ids := bt_remove server_id (cc_local_user_ids c),
       cc_mute_except_mentions := bt_remove server_id (cc_mute_except_mentions c),
       cc_reactions := bt_retain (\<lambda>(stored, _) _. stored \<noteq> server_id) (cc_reactions c),
       cc_authoritative_reaction_targets := bt_remove server_id (cc_authoritative_reaction_targets c),
       cc_message_revisions := bt_retain (\<lambda>(stored, _) _. stored \<noteq> server_id) (cc_message_revisions c),
       cc_authoritative_message_revision_targets :=
         bt_remove server_id (cc_authoritative_message_revision_targets c),
       cc_pins := bt_retain (\<lambda>(stored, _) _. stored \<noteq> server_id) (cc_pins c),
       cc_pin_event_cursors := bt_retain (\<lambda>(stored, _) _. stored \<noteq> server_id) (cc_pin_event_cursors c),
       cc_authoritative_pin_targets := bt_remove server_id (cc_authoritative_pin_targets c),
       cc_moderation_audit_pages :=
         bt_retain (\<lambda>(stored, _) _. stored \<noteq> server_id) (cc_moderation_audit_pages c)\<rparr>"

fun remove_first :: "('a \<Rightarrow> bool) \<Rightarrow> 'a list \<Rightarrow> 'a list" where
  "remove_first p [] = []"
| "remove_first p (x # xs) = (if p x then xs else x # remove_first p xs)"

definition remove_session :: "ChatSessionId \<Rightarrow> ChatClient \<Rightarrow> ChatSessionView option \<times> ChatClient" where
  "remove_session session_id c =
     (case chat_session session_id c of
        None \<Rightarrow> (None, c)
      | Some removed \<Rightarrow>
          let server_id = sv_server_id (vs_server removed);
              c = c\<lparr>cc_sessions := remove_first (\<lambda>s. vs_session_id s = session_id) (cc_sessions c)\<rparr>;
              c = (if \<not> list_ex (\<lambda>s. sv_server_id (vs_server s) = server_id) (cc_sessions c)
                   then forget_server server_id c
                   else prune_pin_state_for_server server_id
                     (prune_message_revision_state_for_server server_id c)) in
          (Some removed, c\<lparr>cc_room_policies :=
             bt_retain (\<lambda>(stored, _) _. stored \<noteq> session_id) (cc_room_policies c)\<rparr>))"

section \<open>History\<close>

definition event_key :: "ChatEvent \<Rightarrow> RoomId \<times> EventId" where
  "event_key e = (ev_room_id e, ev_event_id e)"

text \<open>The loop that appends the events that are not there yet.\<close>

fun push_missing :: "ChatEvent list \<Rightarrow> ChatEvent list \<Rightarrow> ChatEvent list" where
  "push_missing events [] = events"
| "push_missing events (e # es) =
     push_missing (if list_ex (\<lambda>x. event_key x = event_key e) events then events else events @ [e]) es"

definition prepend_history_events ::
    "ChatLayout \<Rightarrow> ChatSessionId \<Rightarrow> ChatEvent list \<Rightarrow> ChatClient \<Rightarrow> nat \<times> ChatClient" where
  "prepend_history_events ly session_id events c =
     (if events = [] then (0, c)
      else
        case chat_session session_id c of
          None \<Rightarrow> (0, c)
        | Some session \<Rightarrow>
            let existing = event_key ` set (vs_events session);
                candidates = event_key ` set events;
                kept = enforce_history_window ly Oldest None
                  (sort_key event_key (push_missing (vs_events session) events));
                added = card ((candidates - existing) \<inter> event_key ` set kept);
                update = (\<lambda>s. (if added > 0
                    then s\<lparr>vs_status := ''loaded '' @ show_nat added @ '' older cached event(s)''\<rparr> else s)
                  \<lparr>vs_events := kept\<rparr>);
                server_id = sv_server_id (vs_server session);
                c = c\<lparr>cc_sessions := update_session session_id update (cc_sessions c)\<rparr> in
            (added, prune_pin_state_for_server server_id (prune_message_revision_state_for_server server_id c)))"

definition append_event_bounded ::
    "ChatLayout \<Rightarrow> ChatSessionId \<Rightarrow> ChatEvent \<Rightarrow> bool \<Rightarrow> HistoryWindowEdge \<Rightarrow> ChatClient \<Rightarrow> bool \<times> ChatClient" where
  "append_event_bounded ly session_id event sort_after edge c =
     (case chat_session session_id c of
        None \<Rightarrow> (False, c)
      | Some session \<Rightarrow>
          if list_ex (\<lambda>x. event_key x = event_key event) (vs_events session) then (False, c)
          else
            let events = vs_events session @ [event];
                events = (if sort_after then sort_key event_key events else events);
                kept = enforce_history_window ly edge (Some (event_key event)) events;
                server_id = sv_server_id (vs_server session);
                c = c\<lparr>cc_sessions := update_session session_id (\<lambda>s. s\<lparr>vs_events := kept\<rparr>) (cc_sessions c)\<rparr> in
            (list_ex (\<lambda>x. event_key x = event_key event) kept,
             prune_pin_state_for_server server_id (prune_message_revision_state_for_server server_id c)))"

end
