(* ===== verification/Client_Projections.thy ===== *)
theory Client_Projections
  imports Chat_Client
begin

text \<open>
  What the client's projections promise: revisions only move forward and a deletion is final, pin events
  converge whatever the order in which they arrive, a snapshot replaces exactly what it covers, an
  event that is refused changes nothing, and nothing said by one server touches what is
  kept of another.
\<close>

declare split_paired_All [simp del] split_paired_Ex [simp del]

section \<open>Targets\<close>

lemma targets_contain_extend:
  "bt_ok m \<Longrightarrow> targets_contain (targets_extend server new m) server' t \<longleftrightarrow>
     targets_contain m server' t \<or> server' = server \<and> t \<in> new"
  by (auto simp: targets_contain_def targets_extend_def bt_get_insert split: option.split)

lemma targets_contain_prune:
  "bt_ok m \<Longrightarrow> targets_contain (targets_prune server keep m) server' t \<longleftrightarrow>
     targets_contain m server' t \<and> (server' = server \<longrightarrow> keep t)"
  by (auto simp: targets_contain_def targets_prune_def bt_get_insert bt_get_remove Let_def split: option.split)

lemma bt_ok_targets: "bt_ok m \<Longrightarrow> bt_ok (targets_extend server new m)"
  "bt_ok m \<Longrightarrow> bt_ok (targets_prune server keep m)"
  by (auto simp: targets_extend_def targets_prune_def bt_ok_insert bt_ok_remove Let_def split: option.split)

text \<open>Inserting a list of rows under their keys.\<close>

lemma bt_ok_fold_insert: "bt_ok m \<Longrightarrow> bt_ok (fold (\<lambda>e. bt_insert (key e) (row e)) es m)"
  by (induction es arbitrary: m) (auto simp: bt_ok_insert)

lemma bt_get_fold_insert:
  "bt_ok m \<Longrightarrow> bt_get (fold (\<lambda>e. bt_insert (key e) (row e)) es m) k =
     (case find (\<lambda>e. key e = k) (rev es) of Some e \<Rightarrow> Some (row e) | None \<Rightarrow> bt_get m k)"
proof (induction es rule: rev_induct)
  case (snoc e es)
  then show ?case by (simp add: bt_get_insert bt_ok_fold_insert)
qed simp

lemma find_distinct_key:
  assumes "distinct (map key es)" "e \<in> set es" "key e = k"
  shows "find (\<lambda>e. key e = k) es = Some e"
  using assms
proof (induction es)
  case (Cons x es)
  then show ?case by (cases "key x = k") force+
qed simp

lemma bt_ext:
  assumes "bt_ok m" "bt_ok m'" "\<And>k. bt_get m k = bt_get m' k"
  shows "m = m'"
proof -
  have rebuild: "m = map (\<lambda>k. (k, the (bt_get m k))) (map fst m)" if "bt_ok m" for m :: "('a, 'b) btree_map"
    using bt_get_eq_Some [OF that, THEN iffD2] by (auto intro!: map_idI [symmetric] simp: comp_def)
  have "set (map fst m) = set (map fst m')"
    using assms(3) bt_get_eq_Some [OF assms(1)] bt_get_eq_Some [OF assms(2)] by force
  then have "map fst m = map fst m'"
    using assms(1,2) by (intro strict_sorted_equal) (auto simp: bt_ok_def)
  moreover have "bt_get m = bt_get m'" using assms(3) by (rule ext)
  ultimately show ?thesis using rebuild [OF assms(1)] rebuild [OF assms(2)] by metis
qed

section \<open>The limits are closed under removal\<close>

lemma sum_list_retain_le: "sum_list (map f (map snd (bt_retain q m))) \<le> (sum_list (map f (map snd m)) :: nat)"
  by (induction m) auto

lemma rows_of_retain_le: "rows_of p (map snd (bt_retain q m)) \<le> rows_of p (map snd m)"
  unfolding rows_of_def by (induction m) auto

lemma bytes_in_retain_le: "bytes_in f p (map snd (bt_retain q m)) \<le> bytes_in f p (map snd m)"
  unfolding bytes_in_def by (induction m) auto

lemma length_retain_le: "length (map snd (bt_retain q m)) \<le> length (map snd m)"
  by (simp add: length_bt_retain)

lemma fit_bounds_retain:
  "chat_pins_fit_bounds (map snd ps) \<Longrightarrow> chat_pins_fit_bounds (map snd (bt_retain q ps))"
  "chat_message_revisions_fit_bounds (map snd vs) \<Longrightarrow> chat_message_revisions_fit_bounds (map snd (bt_retain q' vs))"
  "chat_reactions_fit_bounds n (map snd rs) \<Longrightarrow> chat_reactions_fit_bounds n (map snd (bt_retain q'' rs))"
  unfolding chat_pins_fit_bounds_iff chat_message_revisions_fit_bounds_iff chat_reactions_fit_bounds_iff
  by (blast intro: order_trans [OF length_retain_le] order_trans [OF sum_list_retain_le]
      order_trans [OF rows_of_retain_le] order_trans [OF bytes_in_retain_le])+

section \<open>Events: refused ones change nothing, accepted ones only their target\<close>

definition run_events :: "('e \<Rightarrow> 'c \<Rightarrow> 'x \<times> 'c) \<Rightarrow> 'e list \<Rightarrow> 'c \<Rightarrow> 'c" where
  "run_events f es c = fold (\<lambda>e c. snd (f e c)) es c"

lemma run_events_simps [simp]:
  "run_events f [] c = c"
  "run_events f (e # es) c = run_events f es (snd (f e c))"
  "run_events f (es @ es') c = run_events f es' (run_events f es c)"
  by (simp_all add: run_events_def)

text \<open>
  A projection of a stream of events: \<open>step\<close> takes an event, \<open>look\<close> reads the row of a key and
  \<open>addressed\<close> is the key an event is about. What follows holds of every sequence of events.
\<close>

locale event_projection =
  fixes step :: "'e \<Rightarrow> 'c \<Rightarrow> (string + bool) \<times> 'c"
    and look :: "'c \<Rightarrow> 'k \<Rightarrow> 'r option"
    and addressed :: "'e \<Rightarrow> 'c \<Rightarrow> 'k option"
    and wf :: "'c \<Rightarrow> bool"
  assumes refused: "step e c = (Inl msg, c') \<Longrightarrow> c' = c"
    and wf_apply: "wf c \<Longrightarrow> wf (snd (step e c))"
    and look_other: "wf c \<Longrightarrow> addressed e c \<noteq> Some k \<Longrightarrow> look (snd (step e c)) k = look c k"
    and addressed_apply: "addressed e' (snd (step e c)) = addressed e' c"
begin

lemma wf_run: "wf c \<Longrightarrow> wf (run_events step es c)"
  by (induction es arbitrary: c) (auto simp: wf_apply)

lemma addressed_run: "addressed e (run_events step es c) = addressed e c"
  by (induction es arbitrary: c) (auto simp: addressed_apply)

lemma look_unaddressed: "wf c \<Longrightarrow> \<forall>e\<in>set es. addressed e c \<noteq> Some k \<Longrightarrow> look (run_events step es c) k = look c k"
  by (induction es arbitrary: c) (auto simp: wf_apply look_other addressed_apply)

end

text \<open>A projection whose rows have a version and may become final.\<close>

locale versioned_projection = event_projection +
  fixes version :: "'r \<Rightarrow> 'n :: linorder"
    and final :: "'r \<Rightarrow> bool"
  assumes look_mono: "wf c \<Longrightarrow> look c k = Some r \<Longrightarrow>
    (\<exists>r'. look (snd (step e c)) k = Some r' \<and> (r' = r \<or> version r < version r' \<and> \<not> final r))"
begin

lemma run_mono: "wf c \<Longrightarrow> look c k = Some r \<Longrightarrow>
    \<exists>r'. look (run_events step es c) k = Some r' \<and> (r' = r \<or> version r < version r' \<and> \<not> final r)"
proof (induction es arbitrary: c r)
  case (Cons e es)
  obtain r1 where r1: "look (snd (step e c)) k = Some r1" "r1 = r \<or> version r < version r1 \<and> \<not> final r"
    using look_mono [OF Cons.prems, of e] by blast
  obtain r2 where "look (run_events step es (snd (step e c))) k = Some r2" "r2 = r1 \<or> version r1 < version r2 \<and> \<not> final r1"
    using Cons.IH [OF wf_apply [OF Cons.prems(1)] r1(1)] by blast
  then show ?case using r1(2) by (auto dest: order_less_trans)
qed simp

end

section \<open>Revisions\<close>

lemma revision_event_cases:
  assumes "apply_message_revision_event session_id room_id event c = (res, c')"
  obtains (refused) msg where "res = Inl msg" "c' = c"
  | (repeated) server where "session_server session_id c = Some server"
      "bt_get (cc_message_revisions c) (server, room_id, me_target_event_id event)
        = Some (revision_event_row server room_id event)"
      "c' = snd (mark_message_revision_target_authoritative server room_id (me_target_event_id event) c)"
      "res = Inr (fst (mark_message_revision_target_authoritative server room_id (me_target_event_id event) c))"
  | (accepted) server where "session_server session_id c = Some server" "res = Inr True"
      "\<And>old. bt_get (cc_message_revisions c) (server, room_id, me_target_event_id event) = Some old \<Longrightarrow>
        \<not> revision_stale old (revision_event_row server room_id event)"
      "chat_message_revisions_fit_bounds (map snd (bt_insert (server, room_id, me_target_event_id event)
        (revision_event_row server room_id event) (cc_message_revisions c)))"
      "c' = snd (mark_message_revision_target_authoritative server room_id (me_target_event_id event)
        (c\<lparr>cc_message_revisions := bt_insert (server, room_id, me_target_event_id event)
           (revision_event_row server room_id event) (cc_message_revisions c)\<rparr>))"
proof -
  note def = apply_message_revision_event_def [of session_id room_id event c]
  consider "\<not> is_ok (revision_event_into_frame_body event)" | "chat_session session_id c = None"
    | session where "is_ok (revision_event_into_frame_body event)" "chat_session session_id c = Some session"
    by fastforce
  then show thesis
  proof cases
    case (3 session)
    let ?server = "sv_server_id (vs_server session)"
    let ?row = "revision_event_row ?server room_id event" and ?key = "(?server, room_id, me_target_event_id event)"
    have server: "session_server session_id c = Some ?server" using 3(2) by (simp add: session_server_def)
    consider "\<not> retains_target chat_event_supports_message_revisions session room_id (me_target_event_id event)"
      | "retains_target chat_event_supports_message_revisions session room_id (me_target_event_id event)"
        "bt_get (cc_message_revisions c) ?key = Some ?row"
      | old where "bt_get (cc_message_revisions c) ?key \<noteq> Some ?row"
        "bt_get (cc_message_revisions c) ?key = Some old" "revision_stale old ?row"
      | "retains_target chat_event_supports_message_revisions session room_id (me_target_event_id event)"
        "bt_get (cc_message_revisions c) ?key \<noteq> Some ?row"
        "\<forall>old. bt_get (cc_message_revisions c) ?key = Some old \<longrightarrow> \<not> revision_stale old ?row"
      by blast
    then show thesis
    proof cases
      case 1
      then show thesis using assms 3 refused by (auto simp: def)
    next
      case 2
      then show thesis using assms 3 repeated [OF server] by (auto simp: def case_prod_unfold Let_def)
    next
      case (3 old)
      then show thesis using assms \<open>is_ok _\<close> \<open>chat_session session_id c = Some session\<close> refused
        by (auto simp: def split: if_splits)
    next
      case 4
      then have "\<not> (case bt_get (cc_message_revisions c) ?key of None \<Rightarrow> False | Some old \<Rightarrow> revision_stale old ?row)"
        by (simp split: option.split)
      then show thesis using assms 3 4 refused accepted [OF server] by (auto simp: def Let_def split: if_splits)
    qed
  qed (use assms refused in \<open>auto simp: def split: if_splits\<close>)
qed

definition revision_key :: "ChatSessionId \<Rightarrow> RoomId \<Rightarrow> MessageRevisionEvent \<Rightarrow> ChatClient \<Rightarrow> Target option" where
  "revision_key session_id room_id event c =
     map_option (\<lambda>server. (server, room_id, me_target_event_id event)) (session_server session_id c)"

lemma mark_revision_frame [simp]:
  "cc_message_revisions (snd (mark_message_revision_target_authoritative server room_id t c)) = cc_message_revisions c"
  "cc_sessions (snd (mark_message_revision_target_authoritative server room_id t c)) = cc_sessions c"
  by (simp_all add: mark_message_revision_target_authoritative_def Let_def)

lemma session_server_cong: "cc_sessions c' = cc_sessions c \<Longrightarrow> session_server session_id c' = session_server session_id c"
  by (simp add: session_server_def chat_session_def)

lemma revisions_step:
  shows "apply_message_revision_event session_id room_id e c = (Inl msg, c') \<Longrightarrow> c' = c"
    and "bt_ok (cc_message_revisions c) \<Longrightarrow> bt_ok (cc_message_revisions (snd (apply_message_revision_event session_id room_id e c)))"
    and "bt_ok (cc_message_revisions c) \<Longrightarrow> revision_key session_id room_id e c \<noteq> Some k \<Longrightarrow>
      bt_get (cc_message_revisions (snd (apply_message_revision_event session_id room_id e c))) k = bt_get (cc_message_revisions c) k"
    and "revision_key session_id' room_id' e' (snd (apply_message_revision_event session_id room_id e c)) = revision_key session_id' room_id' e' c"
    and "bt_ok (cc_message_revisions c) \<Longrightarrow> bt_get (cc_message_revisions c) k = Some r \<Longrightarrow>
      \<exists>r'. bt_get (cc_message_revisions (snd (apply_message_revision_event session_id room_id e c))) k = Some r' \<and> (r' = r \<or> cv_revision_number r < cv_revision_number r' \<and> cv_action r \<noteq> Tombstone)"
proof -
  obtain res c1 where step: "apply_message_revision_event session_id room_id e c = (res, c1)" by fastforce
  show "apply_message_revision_event session_id room_id e c = (Inl msg, c') \<Longrightarrow> c' = c"
    by (erule revision_event_cases) auto
  show "bt_ok (cc_message_revisions (snd (apply_message_revision_event session_id room_id e c)))"
    if "bt_ok (cc_message_revisions c)"
    unfolding step using step that by (cases rule: revision_event_cases) (auto simp: bt_ok_insert)
  show "bt_get (cc_message_revisions (snd (apply_message_revision_event session_id room_id e c))) k
      = bt_get (cc_message_revisions c) k"
    if "bt_ok (cc_message_revisions c)" "revision_key session_id room_id e c \<noteq> Some k"
    unfolding step using step that
    by (cases rule: revision_event_cases) (auto simp: bt_get_insert revision_key_def)
  show "revision_key session_id' room_id' e' (snd (apply_message_revision_event session_id room_id e c))
      = revision_key session_id' room_id' e' c"
    unfolding step using step
    by (cases rule: revision_event_cases) (auto simp: revision_key_def session_server_def chat_session_def)
  show "\<exists>r'. bt_get (cc_message_revisions (snd (apply_message_revision_event session_id room_id e c))) k = Some r'
      \<and> (r' = r \<or> cv_revision_number r < cv_revision_number r' \<and> cv_action r \<noteq> Tombstone)"
    if "bt_ok (cc_message_revisions c)" "bt_get (cc_message_revisions c) k = Some r"
    unfolding step using step that
    by (cases rule: revision_event_cases) (auto simp: bt_get_insert revision_stale_def not_le)
qed

interpretation revisions: versioned_projection "\<lambda>(session_id, room_id, e). apply_message_revision_event session_id room_id e"
  "\<lambda>c. bt_get (cc_message_revisions c)" "\<lambda>(session_id, room_id, e). revision_key session_id room_id e"
  "\<lambda>c. bt_ok (cc_message_revisions c)"
  cv_revision_number "\<lambda>r. cv_action r = Tombstone"
  by unfold_locales (clarsimp split del: if_split simp del: not_None_eq;
    (rule revisions_step; assumption | erule revisions_step | simp add: revisions_step))+

section \<open>Reactions\<close>

definition reaction_event_row :: "ServerId \<Rightarrow> RoomId \<Rightarrow> ReactionEvent \<Rightarrow> ChatReaction" where
  "reaction_event_row server_id room_id event =
     \<lparr>cr_server_id = server_id, cr_room_id = room_id, cr_target_event_id = re_target_event_id event,
      cr_actor_user_id = re_actor_user_id event, cr_token = re_token event, cr_created_at_unix = re_at_unix event\<rparr>"

definition reaction_key ::
    "ChatSessionId \<Rightarrow> RoomId \<Rightarrow> ReactionEvent \<Rightarrow> ChatClient
      \<Rightarrow> (ServerId \<times> RoomId \<times> EventId \<times> UserId \<times> ReactionToken) option" where
  "reaction_key session_id room_id event c =
     map_option (\<lambda>server. (server, room_id, re_target_event_id event, re_actor_user_id event, re_token event))
       (session_server session_id c)"

lemma reaction_event_cases:
  assumes "apply_reaction_event ly session_id room_id event c = (res, c')"
  obtains (refused) msg where "res = Inl msg" "c' = c"
  | (accepted) key session where "reaction_key session_id room_id event c = Some key"
      "chat_session session_id c = Some session"
      "retains_target chat_event_supports_reactions session room_id (re_target_event_id event)"
      "res = Inr (case re_action event of Add \<Rightarrow> bt_get (cc_reactions c) key = None
        | Remove \<Rightarrow> bt_get (cc_reactions c) key \<noteq> None)"
      "c' = c\<lparr>cc_reactions := (case re_action event of
          Add \<Rightarrow> bt_insert key (reaction_event_row (fst key) room_id event) (cc_reactions c)
        | Remove \<Rightarrow> bt_remove key (cc_reactions c))\<rparr>"
      "chat_reactions_fit_bounds (ly_reaction_size ly) (map snd (cc_reactions c'))"
proof -
  note def = apply_reaction_event_def [of ly session_id room_id event c]
  consider "\<not> is_ok (reaction_event_into_frame_body event)" | "chat_session session_id c = None"
    | session where "is_ok (reaction_event_into_frame_body event)" "chat_session session_id c = Some session"
    by fastforce
  then show thesis
  proof cases
    case (3 session)
    let ?key = "(sv_server_id (vs_server session), room_id, re_target_event_id event, re_actor_user_id event,
      re_token event)"
    have key: "reaction_key session_id room_id event c = Some ?key"
      using 3(2) by (simp add: reaction_key_def session_server_def)
    show thesis
    proof (cases "retains_target chat_event_supports_reactions session room_id (re_target_event_id event)")
      case False
      then show thesis using assms 3 refused by (auto simp: def)
    next
      case True
      show thesis
      proof (cases "re_action event")
        case Add
        then show thesis
          using assms True 3 refused accepted [OF key 3(2) True]
          by (auto simp: def Let_def reaction_event_row_def split: if_splits)
      next
        case Remove
        then show thesis
          using assms True 3 refused accepted [OF key 3(2) True]
          by (auto simp: def Let_def split: if_splits)
      qed
    qed
  qed (use assms refused in \<open>auto simp: def split: if_splits\<close>)
qed

lemma reactions_step:
  shows "apply_reaction_event ly session_id room_id e c = (Inl msg, c') \<Longrightarrow> c' = c"
    and "bt_ok (cc_reactions c) \<Longrightarrow> bt_ok (cc_reactions (snd (apply_reaction_event ly session_id room_id e c)))"
    and "bt_ok (cc_reactions c) \<Longrightarrow> reaction_key session_id room_id e c \<noteq> Some k \<Longrightarrow>
      bt_get (cc_reactions (snd (apply_reaction_event ly session_id room_id e c))) k = bt_get (cc_reactions c) k"
    and "reaction_key session_id' room_id' e' (snd (apply_reaction_event ly session_id room_id e c)) = reaction_key session_id' room_id' e' c"
proof -
  obtain res c1 where step: "apply_reaction_event ly session_id room_id e c = (res, c1)" by fastforce
  show "apply_reaction_event ly session_id room_id e c = (Inl msg, c') \<Longrightarrow> c' = c"
    by (erule reaction_event_cases) auto
  show "bt_ok (cc_reactions (snd (apply_reaction_event ly session_id room_id e c)))"
    if "bt_ok (cc_reactions c)"
    unfolding step using step that
    by (cases rule: reaction_event_cases) (auto simp: bt_ok_insert bt_ok_remove split: ReactionAction.split)
  show "bt_get (cc_reactions (snd (apply_reaction_event ly session_id room_id e c))) k = bt_get (cc_reactions c) k"
    if "bt_ok (cc_reactions c)" "reaction_key session_id room_id e c \<noteq> Some k"
    unfolding step using step that
    by (cases rule: reaction_event_cases) (auto simp: bt_get_insert bt_get_remove split: ReactionAction.split)
  show "reaction_key session_id' room_id' e' (snd (apply_reaction_event ly session_id room_id e c))
      = reaction_key session_id' room_id' e' c"
    unfolding step using step
    by (cases rule: reaction_event_cases) (auto simp: reaction_key_def session_server_def chat_session_def)
qed

interpretation reactions: event_projection "\<lambda>(session_id, room_id, e). apply_reaction_event ly session_id room_id e"
  "\<lambda>c. bt_get (cc_reactions c)" "\<lambda>(session_id, room_id, e). reaction_key session_id room_id e"
  "\<lambda>c. bt_ok (cc_reactions c)"
  by unfold_locales (clarsimp split del: if_split simp del: not_None_eq;
    (rule reactions_step; assumption | erule reactions_step | simp add: reactions_step))+

section \<open>Pins\<close>

definition pin_key :: "ChatSessionId \<Rightarrow> RoomId \<Rightarrow> PinEvent \<Rightarrow> ChatClient \<Rightarrow> Target option" where
  "pin_key session_id room_id event c =
     map_option (\<lambda>server. (server, room_id, pe_target_event_id event)) (session_server session_id c)"

text \<open>The pin of a target after an event.\<close>

definition pin_effect :: "ServerId \<Rightarrow> RoomId \<Rightarrow> PinEvent \<Rightarrow> ChatPin option" where
  "pin_effect server room_id event =
     (case pe_action event of Pin \<Rightarrow> Some (pin_event_row server room_id event) | Unpin \<Rightarrow> None)"

lemma commit_pin_event_cases:
  assumes "commit_pin_event server room_id event c = (res, c')" "key = (server, room_id, pe_target_event_id event)"
  obtains (refused) msg where "res = Inl msg" "c' = c"
  | (accepted) changed where "res = Inr changed"
      "cc_pins c' = (case pin_effect server room_id event of None \<Rightarrow> bt_remove key (cc_pins c)
         | Some row \<Rightarrow> bt_insert key row (cc_pins c))"
      "cc_pin_event_cursors c' = bt_insert key (pe_pin_event_id event) (cc_pin_event_cursors c)"
      "cc_authoritative_pin_targets c' = targets_extend server {(room_id, pe_target_event_id event)} (cc_authoritative_pin_targets c)"
      "cc_sessions c' = cc_sessions c"
      "chat_pins_fit_bounds (map snd (cc_pins c'))"
      "is_ok (ensure_pin_authority_capacity server room_id (pe_target_event_id event) c)"
      "\<exists>ps cs ts. c' = c\<lparr>cc_pins := ps, cc_pin_event_cursors := cs, cc_authoritative_pin_targets := ts\<rparr>"
proof -
  note def = commit_pin_event_def [of server room_id event c]
  show thesis
  proof (cases "res")
    case (Inl msg)
    then show thesis
      using assms(1) refused by (auto simp: def Let_def split: if_splits prod.splits sum.splits)
  next
    case (Inr changed)
    then have "ensure_pin_authority_capacity server room_id (pe_target_event_id event) c = Inr ()"
      using assms(1) by (auto simp: def Let_def split: if_splits prod.splits sum.splits)
    then show thesis
      using assms Inr accepted
      by (cases "pe_action event") (force simp: def Let_def pin_effect_def split: if_splits)+
  qed
qed

lemma pin_event_cases:
  assumes "apply_pin_event session_id room_id event c = (res, c')"
  obtains (refused) msg where "res = Inl msg" "c' = c"
  | (repeated) server where "session_server session_id c = Some server" "res = Inr False"
      "bt_get (cc_pin_event_cursors c) (server, room_id, pe_target_event_id event) = Some (pe_pin_event_id event)"
      "pin_matches_current event (bt_get (cc_pins c) (server, room_id, pe_target_event_id event))"
      "is_ok (ensure_pin_authority_capacity server room_id (pe_target_event_id event) c)"
      "c' = c\<lparr>cc_authoritative_pin_targets :=
        targets_extend server {(room_id, pe_target_event_id event)} (cc_authoritative_pin_targets c)\<rparr>"
  | (fresh) server changed where "session_server session_id c = Some server" "res = Inr changed"
      "\<And>n. bt_get (cc_pin_event_cursors c) (server, room_id, pe_target_event_id event) = Some n \<Longrightarrow> n < pe_pin_event_id event"
      "commit_pin_event server room_id event c = (res, c')"
proof -
  note def = apply_pin_event_def [of session_id room_id event c]
  consider "\<not> is_ok (pin_event_into_frame_body event)" | "chat_session session_id c = None"
    | session where "is_ok (pin_event_into_frame_body event)" "chat_session session_id c = Some session"
    by fastforce
  then show thesis
  proof cases
    case (3 session)
    let ?server = "sv_server_id (vs_server session)"
    let ?key = "(?server, room_id, pe_target_event_id event)"
    have server: "session_server session_id c = Some ?server" using 3(2) by (simp add: session_server_def)
    have commit: thesis if "commit_pin_event ?server room_id event c = (res, c')"
      "\<And>n. bt_get (cc_pin_event_cursors c) ?key = Some n \<Longrightarrow> n < pe_pin_event_id event"
      using that fresh [OF server _ that(2,1)] refused commit_pin_event_cases [OF that(1) refl] by (metis (no_types, lifting))
    show thesis
    proof (cases "retains_target chat_event_supports_pins session room_id (pe_target_event_id event)")
      case False
      then show thesis using assms 3 refused by (auto simp: def)
    next
      case True
      show thesis
      proof (cases "bt_get (cc_pin_event_cursors c) ?key")
        case None
        then show thesis using assms 3 True commit by (auto simp: def)
      next
        case (Some n)
        then consider "pe_pin_event_id event < n" | "pe_pin_event_id event = n" | "n < pe_pin_event_id event"
          by fastforce
        then show thesis
        proof cases
          case 1
          then show thesis using assms 3 True Some refused by (auto simp: def)
        next
          case 2
          then show thesis
            using assms 3 True Some refused repeated [OF server]
            by (auto simp: def mark_pin_target_authoritative_def Let_def split: if_splits sum.splits)
        next
          case 3
          then show thesis
            using assms \<open>is_ok _\<close> \<open>chat_session session_id c = Some session\<close> True Some commit
            by (auto simp: def Let_def split: if_splits)
        qed
      qed
    qed
  qed (use assms refused in \<open>auto simp: def split: if_splits\<close>)
qed

lemma pins_step:
  shows "apply_pin_event session_id room_id e c = (Inl msg, c') \<Longrightarrow> c' = c"
    and "bt_ok (cc_pin_event_cursors c) \<Longrightarrow> bt_ok (cc_pin_event_cursors (snd (apply_pin_event session_id room_id e c)))"
    and "bt_ok (cc_pin_event_cursors c) \<Longrightarrow> pin_key session_id room_id e c \<noteq> Some k \<Longrightarrow>
      bt_get (cc_pin_event_cursors (snd (apply_pin_event session_id room_id e c))) k = bt_get (cc_pin_event_cursors c) k"
    and "pin_key session_id' room_id' e' (snd (apply_pin_event session_id room_id e c)) = pin_key session_id' room_id' e' c"
    and "bt_ok (cc_pin_event_cursors c) \<Longrightarrow> bt_get (cc_pin_event_cursors c) k = Some r \<Longrightarrow>
      \<exists>r'. bt_get (cc_pin_event_cursors (snd (apply_pin_event session_id room_id e c))) k = Some r' \<and> (r' = r \<or> r < r')"
proof -
  obtain res c1 where step: "apply_pin_event session_id room_id e c = (res, c1)" by fastforce
  show "apply_pin_event session_id room_id e c = (Inl msg, c') \<Longrightarrow> c' = c"
    by (erule pin_event_cases) (auto elim: commit_pin_event_cases [OF _ refl])
  have cursors: "cc_pin_event_cursors c1 = cc_pin_event_cursors c \<or> (\<exists>server.
      session_server session_id c = Some server
      \<and> cc_pin_event_cursors c1 = bt_insert (server, room_id, pe_target_event_id e) (pe_pin_event_id e) (cc_pin_event_cursors c)
      \<and> (\<forall>n. bt_get (cc_pin_event_cursors c) (server, room_id, pe_target_event_id e) = Some n \<longrightarrow> n < pe_pin_event_id e))"
    and sessions: "cc_sessions c1 = cc_sessions c"
    using step by (atomize (full), cases rule: pin_event_cases) (auto elim: commit_pin_event_cases [OF _ refl])
  show "bt_ok (cc_pin_event_cursors (snd (apply_pin_event session_id room_id e c)))"
    if "bt_ok (cc_pin_event_cursors c)"
    unfolding step using cursors that by (auto simp: bt_ok_insert)
  show "bt_get (cc_pin_event_cursors (snd (apply_pin_event session_id room_id e c))) k = bt_get (cc_pin_event_cursors c) k"
    if "bt_ok (cc_pin_event_cursors c)" "pin_key session_id room_id e c \<noteq> Some k"
    unfolding step using cursors that by (auto simp: bt_get_insert pin_key_def)
  show "pin_key session_id' room_id' e' (snd (apply_pin_event session_id room_id e c)) = pin_key session_id' room_id' e' c"
    unfolding step using sessions by (simp add: pin_key_def session_server_def chat_session_def)
  show "\<exists>r'. bt_get (cc_pin_event_cursors (snd (apply_pin_event session_id room_id e c))) k = Some r'
      \<and> (r' = r \<or> r < r')"
    if "bt_ok (cc_pin_event_cursors c)" "bt_get (cc_pin_event_cursors c) k = Some r"
    unfolding step using cursors that by (auto simp: bt_get_insert)
qed

interpretation pins: versioned_projection "\<lambda>(session_id, room_id, e). apply_pin_event session_id room_id e"
  "\<lambda>c. bt_get (cc_pin_event_cursors c)" "\<lambda>(session_id, room_id, e). pin_key session_id room_id e"
  "\<lambda>c. bt_ok (cc_pin_event_cursors c)"
  "\<lambda>n. n" "\<lambda>_. False"
  by unfold_locales (clarsimp split del: if_split simp del: not_None_eq;
    (rule pins_step; assumption | erule pins_step | simp add: pins_step))+

section \<open>Pin events converge\<close>

text \<open>Whether a pin of this target fits, whatever its row.\<close>

definition pin_room :: "Target \<Rightarrow> (Target, ChatPin) btree_map \<Rightarrow> bool" where
  "pin_room key m \<longleftrightarrow> (\<forall>row. cp_server_id row = fst key \<longrightarrow> chat_pins_fit_bounds (map snd (bt_insert key row m)))"

lemma pin_room_cong:
  assumes "bt_ok m" "bt_ok m'" "\<And>k. k \<noteq> key \<Longrightarrow> bt_get m k = bt_get m' k" "pin_room key m"
  shows "pin_room key m'"
proof -
  have "bt_insert key row m' = bt_insert key row m" for row
    using assms(1-3) by (intro bt_ext) (auto simp: bt_laws)
  then show ?thesis using assms(4) by (simp add: pin_room_def)
qed

lemma pin_room_remove:
  assumes "bt_ok m" "pin_room key m"
  shows "chat_pins_fit_bounds (map snd (bt_remove key m))"
proof -
  define row where "row = pin_event_row (fst key) 0 undefined"
  have "bt_remove key m = bt_retain (\<lambda>k _. k \<noteq> key) (bt_insert key row m)"
    unfolding bt_remove_def using assms(1)
    by (intro bt_ext) (auto simp: bt_ok_insert bt_ok_retain bt.get_del bt_get_insert)
  moreover have "chat_pins_fit_bounds (map snd (bt_insert key row m))"
    using assms(2) by (simp add: pin_room_def row_def pin_event_row_def)
  ultimately show ?thesis by (simp add: fit_bounds_retain)
qed

text \<open>A client that can take pin events of a target.\<close>

definition pin_ready :: "ChatSessionId \<Rightarrow> RoomId \<Rightarrow> EventId \<Rightarrow> ServerId \<Rightarrow> ChatClient \<Rightarrow> bool" where
  "pin_ready session_id room_id target server c \<longleftrightarrow>
     bt_ok (cc_pins c) \<and> bt_ok (cc_pin_event_cursors c) \<and> bt_ok (cc_authoritative_pin_targets c)
     \<and> (\<exists>session. chat_session session_id c = Some session \<and> sv_server_id (vs_server session) = server
          \<and> retains_target chat_event_supports_pins session room_id target)
     \<and> pin_room (server, room_id, target) (cc_pins c)
     \<and> is_ok (ensure_pin_authority_capacity server room_id target c)"

lemma pin_ready_targets:
  "bt_ok (cc_authoritative_pin_targets c) \<Longrightarrow>
   is_ok (ensure_pin_authority_capacity server room_id target
     (c\<lparr>cc_authoritative_pin_targets := targets_extend server {(room_id, target)} (cc_authoritative_pin_targets c)\<rparr>))"
  by (simp add: ensure_pin_authority_capacity_def targets_contain_extend)

lemma commit_pin_ready:
  assumes "pin_ready session_id room_id target server c" "pe_target_event_id e = target"
  shows "\<exists>changed c'. commit_pin_event server room_id e c = (Inr changed, c')"
proof -
  obtain u where u: "ensure_pin_authority_capacity server room_id target c = Inr u"
    using assms(1) by (auto simp: pin_ready_def is_ok_iff)
  have "chat_pins_fit_bounds (map snd (bt_insert (server, room_id, target) (pin_event_row server room_id e) (cc_pins c)))"
    and "chat_pins_fit_bounds (map snd (bt_remove (server, room_id, target) (cc_pins c)))"
    using assms pin_room_remove by (auto simp: pin_ready_def pin_room_def pin_event_row_def)
  then show ?thesis using u assms(2) by (cases "pe_action e") (auto simp: commit_pin_event_def Let_def)
qed

lemma pin_ready_update:
  assumes "pin_ready session_id room_id target server c" "cc_sessions c' = cc_sessions c"
    and "bt_ok (cc_pins c')" "bt_ok (cc_pin_event_cursors c')"
    and "\<And>k. k \<noteq> (server, room_id, target) \<Longrightarrow> bt_get (cc_pins c') k = bt_get (cc_pins c) k"
    and "cc_authoritative_pin_targets c' = targets_extend server {(room_id, target)} (cc_authoritative_pin_targets c)"
  shows "pin_ready session_id room_id target server c'"
proof -
  have ok: "bt_ok (cc_pins c)" "bt_ok (cc_authoritative_pin_targets c)" and room: "pin_room (server, room_id, target) (cc_pins c)"
    using assms(1) by (auto simp: pin_ready_def)
  have "pin_room (server, room_id, target) (cc_pins c')"
    by (rule pin_room_cong [OF ok(1) assms(3) _ room]) (simp add: assms(5))
  moreover have "is_ok (ensure_pin_authority_capacity server room_id target c')"
    using ok(2) assms(6) by (simp add: ensure_pin_authority_capacity_def targets_contain_extend)
  ultimately show ?thesis
    using assms(1-4,6) by (auto simp: pin_ready_def chat_session_def bt_ok_targets)
qed

text \<open>One event at such a client: an older one changes nothing, a newer one takes effect.\<close>

lemma pin_ready_step:
  assumes ready: "pin_ready session_id room_id target server c"
    and e: "pin_event_valid e" "pe_target_event_id e = target"
    and step: "apply_pin_event session_id room_id e c = (res, c')"
  shows "pin_ready session_id room_id target server c'
    \<and> (if \<exists>n. bt_get (cc_pin_event_cursors c) (server, room_id, target) = Some n \<and> pe_pin_event_id e \<le> n
       then cc_pin_event_cursors c' = cc_pin_event_cursors c \<and> cc_pins c' = cc_pins c
       else bt_get (cc_pin_event_cursors c') (server, room_id, target) = Some (pe_pin_event_id e)
         \<and> bt_get (cc_pins c') (server, room_id, target) = pin_effect server room_id e)"
proof -
  let ?key = "(server, room_id, target)"
  obtain session where session: "chat_session session_id c = Some session" "sv_server_id (vs_server session) = server"
    "retains_target chat_event_supports_pins session room_id target"
    using ready by (auto simp: pin_ready_def)
  have ok: "bt_ok (cc_pins c)" "bt_ok (cc_pin_event_cursors c)" using ready by (auto simp: pin_ready_def)
  have valid: "is_ok (pin_event_into_frame_body e)" using e(1) by (auto simp: is_ok_iff pin_event_into_Inr)
  show ?thesis
  proof (cases "\<exists>n. bt_get (cc_pin_event_cursors c) ?key = Some n \<and> pe_pin_event_id e \<le> n")
    case True
    then obtain n where n: "bt_get (cc_pin_event_cursors c) ?key = Some n" "pe_pin_event_id e \<le> n" by blast
    from step have "c' = c \<or> c' = c\<lparr>cc_authoritative_pin_targets :=
        targets_extend server {(room_id, target)} (cc_authoritative_pin_targets c)\<rparr>"
    proof (cases rule: pin_event_cases)
      case (fresh server')
      then have "n < pe_pin_event_id e" using n(1) session e(2) by (auto simp: session_server_def)
      then show ?thesis using n(2) by simp
    qed (use session e(2) in \<open>auto simp: session_server_def\<close>)
    then show ?thesis using True ready pin_ready_update [OF ready, of c'] ok by auto
  next
    case False
    have "apply_pin_event session_id room_id e c = commit_pin_event server room_id e c"
      using False session valid e(2) unfolding apply_pin_event_def
      by (auto simp: Let_def not_le split: option.split)
    moreover obtain changed c2 where "commit_pin_event server room_id e c = (Inr changed, c2)"
      using commit_pin_ready [OF ready e(2)] by blast
    ultimately have commit: "commit_pin_event server room_id e c = (Inr changed, c')" using step by simp
    from commit refl [of "(server, room_id, pe_target_event_id e)"] show ?thesis
    proof (cases rule: commit_pin_event_cases)
      case accepted
      then have "pin_ready session_id room_id target server c'"
        using ok e(2) by (intro pin_ready_update [OF ready]) (auto simp: bt_laws bt_ok_remove bt_get_remove split: option.splits)
      then show ?thesis
        using False accepted(2,3) ok e(2) by (auto simp: bt_get_insert bt_get_remove split: option.splits)
    qed simp
  qed
qed

lemma pin_run:
  assumes "pin_ready session_id room_id target server c"
    and "\<And>e. e \<in> set es \<Longrightarrow> pin_event_valid e \<and> pe_target_event_id e = target"
    and "\<And>n e. bt_get (cc_pin_event_cursors c) (server, room_id, target) = Some n \<Longrightarrow> e \<in> set es \<Longrightarrow> n < pe_pin_event_id e"
    and "es \<noteq> []"
  shows "pin_ready session_id room_id target server (run_events (apply_pin_event session_id room_id) es c)
    \<and> (\<exists>m\<in>set es. (\<forall>e\<in>set es. pe_pin_event_id e \<le> pe_pin_event_id m)
      \<and> bt_get (cc_pin_event_cursors (run_events (apply_pin_event session_id room_id) es c)) (server, room_id, target)
          = Some (pe_pin_event_id m)
      \<and> bt_get (cc_pins (run_events (apply_pin_event session_id room_id) es c)) (server, room_id, target)
          = pin_effect server room_id m)"
  using assms(4,2,3)
proof (induction es rule: rev_nonempty_induct)
  case (single e)
  obtain res c' where step: "apply_pin_event session_id room_id e c = (res, c')" by fastforce
  have "\<not> (\<exists>n. bt_get (cc_pin_event_cursors c) (server, room_id, target) = Some n \<and> pe_pin_event_id e \<le> n)"
    using single(2) by (auto simp: not_le)
  then show ?case using pin_ready_step [OF assms(1) _ _ step] single step by auto
next
  case (snoc e es)
  let ?c = "run_events (apply_pin_event session_id room_id) es c" and ?key = "(server, room_id, target)"
  have prem: "\<And>e. e \<in> set es \<Longrightarrow> pin_event_valid e \<and> pe_target_event_id e = target"
    "\<And>n e. bt_get (cc_pin_event_cursors c) ?key = Some n \<Longrightarrow> e \<in> set es \<Longrightarrow> n < pe_pin_event_id e"
    using snoc.prems by auto
  from snoc.IH [OF prem] obtain m where IH: "pin_ready session_id room_id target server ?c" "m \<in> set es"
    "\<forall>e\<in>set es. pe_pin_event_id e \<le> pe_pin_event_id m"
    "bt_get (cc_pin_event_cursors ?c) ?key = Some (pe_pin_event_id m)"
    "bt_get (cc_pins ?c) ?key = pin_effect server room_id m"
    by blast
  obtain res c' where step: "apply_pin_event session_id room_id e ?c = (res, c')" by fastforce
  have "run_events (apply_pin_event session_id room_id) (es @ [e]) c = c'" using step by simp
  moreover note pin_ready_step [OF IH(1) _ _ step]
  ultimately have ready: "pin_ready session_id room_id target server c'"
    and eq: "run_events (apply_pin_event session_id room_id) (es @ [e]) c = c'"
    and "if pe_pin_event_id e \<le> pe_pin_event_id m
       then cc_pin_event_cursors c' = cc_pin_event_cursors ?c \<and> cc_pins c' = cc_pins ?c
       else bt_get (cc_pin_event_cursors c') ?key = Some (pe_pin_event_id e)
         \<and> bt_get (cc_pins c') ?key = pin_effect server room_id e"
    using IH(4) snoc.prems(1) by simp_all
  then show ?case
    unfolding eq using IH(2-5)
    by (cases "pe_pin_event_id e \<le> pe_pin_event_id m")
      (auto simp: not_le intro: less_imp_le order_trans)
qed

section \<open>Snapshots\<close>

text \<open>
  A projection with snapshots: an accepted snapshot determines every row it covers, and a refused
  one leaves the rows alone. So after any events a snapshot brings the rows it covers up to date.
\<close>

locale resynchronised = event_projection +
  fixes replace :: "'s \<Rightarrow> 'c \<Rightarrow> (string + unit) \<times> 'c"
    and covered :: "'s \<Rightarrow> 'c \<Rightarrow> 'k \<Rightarrow> bool"
    and entry :: "'s \<Rightarrow> 'k \<Rightarrow> 'r option"
  assumes replace_covered: "wf c \<Longrightarrow> replace s c = (Inr (), c') \<Longrightarrow> covered s c k \<Longrightarrow> look c' k = entry s k"
    and replace_refused: "replace s c = (Inl msg, c') \<Longrightarrow> look c' k = look c k"
    and covered_step: "covered s (snd (step e c)) k = covered s c k"
begin

lemma covered_run: "covered s (run_events step es c) k = covered s c k"
  by (induction es arbitrary: c) (auto simp: covered_step)

lemma resync:
  "wf c \<Longrightarrow> covered s c k \<Longrightarrow> replace s (run_events step es c) = (Inr (), c') \<Longrightarrow> look c' k = entry s k"
  by (rule replace_covered [OF wf_run]) (auto simp: covered_run)

end

lemma retained_targets_iff:
  "t \<in> retained_targets supports server c \<longleftrightarrow>
     (\<exists>s\<in>set (cc_sessions c). sv_server_id (vs_server s) = server
        \<and> (\<exists>e\<in>set (vs_events s). supports e \<and> t = (ev_room_id e, ev_event_id e)))"
  by (auto simp: retained_targets_def)

lemma retains_target_retained:
  assumes "chat_session session_id c = Some session" "retains_target supports session room_id t"
    and "\<And>e. supports e \<Longrightarrow> supports' e"
  shows "(room_id, t) \<in> retained_targets supports' (sv_server_id (vs_server session)) c"
  using assms find_Some_iff [of _ "cc_sessions c" session]
  by (fastforce simp: chat_session_def retained_targets_iff retains_target_def list_ex_iff in_set_conv_nth)

lemma bt_get_retain_key: "bt_ok m \<Longrightarrow> bt_get (bt_retain (\<lambda>k _. q k) m) k = (if q k then bt_get m k else None)"
  using bt_get_retain [of m "\<lambda>k _. q k" k] by (cases "bt_get m k") (auto intro: option.expand)

text \<open>Rows of a server that pruning keeps.\<close>

lemma prune_get:
  "bt_ok (cc_message_revisions c) \<Longrightarrow>
   bt_get (cc_message_revisions (prune_message_revision_state_for_server server c)) (server', room_id, t) =
   (if server' = server \<and> (room_id, t) \<notin> retained_targets chat_event_supports_message_revisions server c
    then None else bt_get (cc_message_revisions c) (server', room_id, t))"
  "bt_ok (cc_pins c) \<Longrightarrow>
   bt_get (cc_pins (prune_pin_state_for_server server c)) (server', room_id, t) =
   (if server' = server \<and> (room_id, t) \<notin> retained_targets chat_event_supports_pins server c
    then None else bt_get (cc_pins c) (server', room_id, t))"
  "bt_ok (cc_pin_event_cursors c) \<Longrightarrow>
   bt_get (cc_pin_event_cursors (prune_pin_state_for_server server c)) (server', room_id, t) =
   (if server' = server \<and> (room_id, t) \<notin> retained_targets chat_event_supports_pins server c
    then None else bt_get (cc_pin_event_cursors c) (server', room_id, t))"
  "bt_ok (cc_reactions c) \<Longrightarrow>
   bt_get (cc_reactions (prune_reaction_state_for_server server c)) (server', room_id, t, u) =
   (if server' = server \<and> (room_id, t) \<notin> retained_targets (\<lambda>_. True) server c
    then None else bt_get (cc_reactions c) (server', room_id, t, u))"
  by (auto simp: prune_message_revision_state_for_server_def prune_pin_state_for_server_def
      prune_reaction_state_for_server_def Let_def case_prod_unfold bt_get_retain_key)

text \<open>The row a snapshot has for a key.\<close>

definition revision_snapshot_row ::
    "ServerId \<Rightarrow> RoomId \<Rightarrow> MessageRevisionSnapshot \<Rightarrow> Target \<Rightarrow> ChatMessageRevision option" where
  "revision_snapshot_row server room_id snapshot k =
     map_option (revision_entry_row server room_id)
       (find (\<lambda>e. (server, room_id, ms_target_event_id e) = k) (rev (ms_entries snapshot)))"

definition pin_snapshot_row :: "ServerId \<Rightarrow> RoomId \<Rightarrow> PinSnapshot \<Rightarrow> Target \<Rightarrow> ChatPin option" where
  "pin_snapshot_row server room_id snapshot k =
     map_option (pin_entry_row server room_id)
       (find (\<lambda>e. (server, room_id, ps_target_event_id e) = k) (rev (ps_entries snapshot)))"

definition reaction_snapshot_row ::
    "ServerId \<Rightarrow> RoomId \<Rightarrow> ReactionSnapshot \<Rightarrow> ServerId \<times> RoomId \<times> EventId \<times> UserId \<times> ReactionToken
      \<Rightarrow> ChatReaction option" where
  "reaction_snapshot_row server room_id snapshot k =
     map_option (reaction_entry_row server room_id)
       (find (\<lambda>e. (server, room_id, rs_target_event_id e, rs_actor_user_id e, rs_token e) = k) (rev (rs_entries snapshot)))"

lemma map_option_case: "(case x of None \<Rightarrow> None | Some e \<Rightarrow> Some (f e)) = map_option f x"
  by (cases x) auto

lemma bt_ok_prune:
  "bt_ok (cc_authoritative_message_revision_targets c) \<Longrightarrow>
    bt_ok (cc_authoritative_message_revision_targets (prune_message_revision_state_for_server server c))"
  "bt_ok (cc_authoritative_pin_targets c) \<Longrightarrow>
    bt_ok (cc_authoritative_pin_targets (prune_pin_state_for_server server c))"
  "bt_ok (cc_authoritative_reaction_targets c) \<Longrightarrow>
    bt_ok (cc_authoritative_reaction_targets (prune_reaction_state_for_server server c))"
  "bt_ok (cc_message_revisions c) \<Longrightarrow> bt_ok (cc_message_revisions (prune_message_revision_state_for_server server c))"
  "bt_ok (cc_pins c) \<Longrightarrow> bt_ok (cc_pins (prune_pin_state_for_server server c))"
  "bt_ok (cc_pin_event_cursors c) \<Longrightarrow> bt_ok (cc_pin_event_cursors (prune_pin_state_for_server server c))"
  "bt_ok (cc_reactions c) \<Longrightarrow> bt_ok (cc_reactions (prune_reaction_state_for_server server c))"
  by (simp_all add: prune_message_revision_state_for_server_def prune_pin_state_for_server_def
      prune_reaction_state_for_server_def Let_def bt_ok_targets bt_ok_retain)

text \<open>
  The client after an accepted authoritative snapshot: the covered rows replaced by the entries, the rows
  of messages no longer retained pruned, and the targets marked.
\<close>

definition revisions_replaced :: "ServerId \<Rightarrow> RoomId \<Rightarrow> MessageRevisionSnapshot \<Rightarrow> ChatClient \<Rightarrow> (Target, ChatMessageRevision) btree_map" where
  "revisions_replaced server room_id snapshot c =
     fold (\<lambda>e. bt_insert (server, room_id, ms_target_event_id e) (revision_entry_row server room_id e))
       (ms_entries snapshot)
       (bt_retain (\<lambda>(stored, stored_room, target) _. stored \<noteq> server \<or> stored_room \<noteq> room_id
          \<or> target \<notin> set (ms_target_event_ids snapshot)) (cc_message_revisions c))"

lemma replace_revisions_cases:
  assumes "replace_message_revision_snapshot_with_authority session_id room_id snapshot authoritative c = (res, c')"
  obtains (refused) msg where "res = Inl msg" "c' = c"
  | (accepted) session server where "res = Inr ()" "chat_session session_id c = Some session"
      "server = sv_server_id (vs_server session)"
      "\<And>t. t \<in> set (ms_target_event_ids snapshot) \<Longrightarrow> retains_target chat_event_supports_message_revisions session room_id t"
      "chat_message_revisions_fit_bounds (map snd (revisions_replaced server room_id snapshot c))"
      "c' = (let c = c\<lparr>cc_message_revisions := revisions_replaced server room_id snapshot c\<rparr> in
         if authoritative then
           let c = prune_message_revision_state_for_server server c in
           c\<lparr>cc_authoritative_message_revision_targets := targets_extend server
             (Pair room_id ` set (ms_target_event_ids snapshot)) (cc_authoritative_message_revision_targets c)\<rparr>
         else c)"
proof -
  note def = replace_message_revision_snapshot_with_authority_def [of session_id room_id snapshot authoritative c]
  show thesis
  proof (cases "chat_session session_id c")
    case None
    then show thesis using assms refused by (auto simp: def split: if_splits)
  next
    case (Some session)
    show thesis
    proof (cases res)
      case (Inl msg)
      then show thesis using assms Some refused by (auto simp: def Let_def split: if_splits)
    next
      case (Inr u)
      then show thesis
        using assms Some by (intro accepted [OF _ Some refl]) (auto simp: def Let_def revisions_replaced_def split: if_splits)
    qed
  qed
qed

lemma revisions_replaced_get:
  assumes "bt_ok (cc_message_revisions c)"
  shows "bt_get (revisions_replaced server room_id snapshot c) k =
    (case revision_snapshot_row server room_id snapshot k of
       Some r \<Rightarrow> Some r
     | None \<Rightarrow> (case k of (stored, stored_room, t) \<Rightarrow>
         if stored = server \<and> stored_room = room_id \<and> t \<in> set (ms_target_event_ids snapshot) then None
         else bt_get (cc_message_revisions c) k))"
  using assms
  by (simp add: revisions_replaced_def bt_get_fold_insert bt_ok_retain revision_snapshot_row_def case_prod_unfold
      bt_get_retain_key split: option.split)

lemma replace_revisions_covered:
  assumes "bt_ok (cc_message_revisions c)"
    and "replace_message_revision_snapshot session_id room_id snapshot c = (Inr (), c')"
    and "session_server session_id c = Some server" "t \<in> set (ms_target_event_ids snapshot)"
  shows "bt_get (cc_message_revisions c') (server, room_id, t) = revision_snapshot_row server room_id snapshot (server, room_id, t)"
    and "bt_ok (cc_authoritative_message_revision_targets c) \<Longrightarrow>
      targets_contain (cc_authoritative_message_revision_targets c') server (room_id, t)"
proof -
  let ?c1 = "c\<lparr>cc_message_revisions := revisions_replaced server room_id snapshot c\<rparr>"
  have "replace_message_revision_snapshot_with_authority session_id room_id snapshot True c = (Inr (), c')"
    using assms(2) by (auto simp: replace_message_revision_snapshot_def split: prod.splits sum.splits)
  then obtain session where session: "chat_session session_id c = Some session" "server = sv_server_id (vs_server session)"
    "retains_target chat_event_supports_message_revisions session room_id t"
    and c': "c' = (prune_message_revision_state_for_server server ?c1)\<lparr>cc_authoritative_message_revision_targets :=
      targets_extend server (Pair room_id ` set (ms_target_event_ids snapshot))
        (cc_authoritative_message_revision_targets (prune_message_revision_state_for_server server ?c1))\<rparr>"
    using assms(3,4) by (cases rule: replace_revisions_cases) (auto simp: session_server_def Let_def)
  have "chat_session session_id ?c1 = Some session" using session(1) by (simp add: chat_session_def)
  from retains_target_retained [OF this session(3)] session(2)
  have kept: "(room_id, t) \<in> retained_targets chat_event_supports_message_revisions server ?c1" by simp
  have ok: "bt_ok (cc_message_revisions ?c1)"
    using assms(1) by (simp add: revisions_replaced_def bt_ok_fold_insert bt_ok_retain)
  show "bt_get (cc_message_revisions c') (server, room_id, t) = revision_snapshot_row server room_id snapshot (server, room_id, t)"
    using prune_get(1) [OF ok, of server server room_id t] kept assms(4)
    by (simp add: c' revisions_replaced_get [OF assms(1)] split: option.split)
  show "targets_contain (cc_authoritative_message_revision_targets c') server (room_id, t)"
    if "bt_ok (cc_authoritative_message_revision_targets c)"
    using that assms(4) by (simp add: c' targets_contain_extend bt_ok_prune)
qed

definition reactions_replaced :: "ServerId \<Rightarrow> RoomId \<Rightarrow> ReactionSnapshot \<Rightarrow> ChatClient \<Rightarrow> (ServerId \<times> RoomId \<times> EventId \<times> UserId \<times> ReactionToken, ChatReaction) btree_map" where
  "reactions_replaced server room_id snapshot c =
     fold (\<lambda>e. bt_insert (server, room_id, rs_target_event_id e, rs_actor_user_id e, rs_token e) (reaction_entry_row server room_id e))
       (rs_entries snapshot)
       (bt_retain (\<lambda>(stored, stored_room, target, _) _. stored \<noteq> server \<or> stored_room \<noteq> room_id
          \<or> target \<notin> set (rs_target_event_ids snapshot)) (cc_reactions c))"

lemma replace_reactions_cases:
  assumes "replace_reaction_snapshot_with_authority ly session_id room_id snapshot authoritative c = (res, c')"
  obtains (refused) msg where "res = Inl msg" "c' = c"
  | (accepted) session server where "res = Inr ()" "chat_session session_id c = Some session"
      "server = sv_server_id (vs_server session)"
      "\<And>t. t \<in> set (rs_target_event_ids snapshot) \<Longrightarrow> retains_target chat_event_supports_reactions session room_id t"
      "chat_reactions_fit_bounds (ly_reaction_size ly) (map snd (reactions_replaced server room_id snapshot c))"
      "c' = (let c = c\<lparr>cc_reactions := reactions_replaced server room_id snapshot c\<rparr> in
         if authoritative then
           let c = prune_reaction_state_for_server server c in
           c\<lparr>cc_authoritative_reaction_targets := targets_extend server
             (Pair room_id ` set (rs_target_event_ids snapshot)) (cc_authoritative_reaction_targets c)\<rparr>
         else c)"
proof -
  note def = replace_reaction_snapshot_with_authority_def [of ly session_id room_id snapshot authoritative c]
  show thesis
  proof (cases "chat_session session_id c")
    case None
    then show thesis using assms refused by (auto simp: def split: if_splits)
  next
    case (Some session)
    show thesis
    proof (cases res)
      case (Inl msg)
      then show thesis using assms Some refused by (auto simp: def Let_def split: if_splits)
    next
      case (Inr u)
      then show thesis
        using assms Some by (intro accepted [OF _ Some refl]) (auto simp: def Let_def reactions_replaced_def split: if_splits)
    qed
  qed
qed

lemma reactions_replaced_get:
  assumes "bt_ok (cc_reactions c)"
  shows "bt_get (reactions_replaced server room_id snapshot c) k =
    (case reaction_snapshot_row server room_id snapshot k of
       Some r \<Rightarrow> Some r
     | None \<Rightarrow> (case k of (stored, stored_room, t, _) \<Rightarrow>
         if stored = server \<and> stored_room = room_id \<and> t \<in> set (rs_target_event_ids snapshot) then None
         else bt_get (cc_reactions c) k))"
  using assms
  by (simp add: reactions_replaced_def bt_get_fold_insert bt_ok_retain reaction_snapshot_row_def case_prod_unfold
      bt_get_retain_key split: option.split)

lemma replace_reactions_covered:
  assumes "bt_ok (cc_reactions c)"
    and "replace_reaction_snapshot ly session_id room_id snapshot c = (Inr (), c')"
    and "session_server session_id c = Some server" "t \<in> set (rs_target_event_ids snapshot)"
  shows "bt_get (cc_reactions c') (server, room_id, t, u) = reaction_snapshot_row server room_id snapshot (server, room_id, t, u)"
    and "bt_ok (cc_authoritative_reaction_targets c) \<Longrightarrow>
      targets_contain (cc_authoritative_reaction_targets c') server (room_id, t)"
proof -
  let ?c1 = "c\<lparr>cc_reactions := reactions_replaced server room_id snapshot c\<rparr>"
  have "replace_reaction_snapshot_with_authority ly session_id room_id snapshot True c = (Inr (), c')"
    using assms(2) by (simp add: replace_reaction_snapshot_def)
  then obtain session where session: "chat_session session_id c = Some session" "server = sv_server_id (vs_server session)"
    "retains_target chat_event_supports_reactions session room_id t"
    and c': "c' = (prune_reaction_state_for_server server ?c1)\<lparr>cc_authoritative_reaction_targets :=
      targets_extend server (Pair room_id ` set (rs_target_event_ids snapshot))
        (cc_authoritative_reaction_targets (prune_reaction_state_for_server server ?c1))\<rparr>"
    using assms(3,4) by (cases rule: replace_reactions_cases) (auto simp: session_server_def Let_def)
  have "chat_session session_id ?c1 = Some session" using session(1) by (simp add: chat_session_def)
  from retains_target_retained [OF this session(3), of "\<lambda>_. True"] session(2)
  have kept: "(room_id, t) \<in> retained_targets (\<lambda>_. True) server ?c1" by simp
  have ok: "bt_ok (cc_reactions ?c1)"
    using assms(1) by (simp add: reactions_replaced_def bt_ok_fold_insert bt_ok_retain)
  show "bt_get (cc_reactions c') (server, room_id, t, u) = reaction_snapshot_row server room_id snapshot (server, room_id, t, u)"
    using prune_get(4) [OF ok, of server server room_id t u] kept assms(4)
    by (simp add: c' reactions_replaced_get [OF assms(1)] split: option.split)
  show "targets_contain (cc_authoritative_reaction_targets c') server (room_id, t)"
    if "bt_ok (cc_authoritative_reaction_targets c)"
    using that assms(4) by (simp add: c' targets_contain_extend bt_ok_prune)
qed

definition pins_replaced :: "ServerId \<Rightarrow> RoomId \<Rightarrow> PinSnapshot \<Rightarrow> ChatClient \<Rightarrow> (Target, ChatPin) btree_map" where
  "pins_replaced server room_id snapshot c =
     fold (\<lambda>e. bt_insert (server, room_id, ps_target_event_id e) (pin_entry_row server room_id e))
       (ps_entries snapshot)
       (bt_retain (\<lambda>(stored, stored_room, target) _. stored \<noteq> server \<or> stored_room \<noteq> room_id
          \<or> target \<notin> set (ps_target_event_ids snapshot)) (cc_pins c))"

lemma pins_replaced_get:
  assumes "bt_ok (cc_pins c)"
  shows "bt_get (pins_replaced server room_id snapshot c) k =
    (case pin_snapshot_row server room_id snapshot k of
       Some r \<Rightarrow> Some r
     | None \<Rightarrow> (case k of (stored, stored_room, t) \<Rightarrow>
         if stored = server \<and> stored_room = room_id \<and> t \<in> set (ps_target_event_ids snapshot) then None
         else bt_get (cc_pins c) k))"
  using assms
  by (simp add: pins_replaced_def bt_get_fold_insert bt_ok_retain pin_snapshot_row_def case_prod_unfold
      bt_get_retain_key split: option.split)

definition pin_cursors_replaced :: "ServerId \<Rightarrow> RoomId \<Rightarrow> PinSnapshot \<Rightarrow> ChatClient \<Rightarrow> (Target, EventId) btree_map" where
  "pin_cursors_replaced server room_id snapshot c =
     fold (\<lambda>e. bt_insert (server, room_id, ps_target_event_id e) (ps_pin_event_id e)) (ps_entries snapshot)
       (bt_retain (\<lambda>(stored, stored_room, target) _. stored \<noteq> server \<or> stored_room \<noteq> room_id
          \<or> target \<notin> set (ps_target_event_ids snapshot)) (cc_pin_event_cursors c))"

lemma pin_cursors_replaced_get:
  assumes "bt_ok (cc_pin_event_cursors c)"
  shows "bt_get (pin_cursors_replaced server room_id snapshot c) k =
    (case pin_snapshot_row server room_id snapshot k of
       Some r \<Rightarrow> Some (cp_pin_event_id r)
     | None \<Rightarrow> (case k of (stored, stored_room, t) \<Rightarrow>
         if stored = server \<and> stored_room = room_id \<and> t \<in> set (ps_target_event_ids snapshot) then None
         else bt_get (cc_pin_event_cursors c) k))"
  using assms
  by (simp add: pin_cursors_replaced_def bt_get_fold_insert bt_ok_retain pin_snapshot_row_def pin_entry_row_def
      case_prod_unfold bt_get_retain_key split: option.split)

definition pin_targets_replaced :: "ServerId \<Rightarrow> RoomId \<Rightarrow> EventId set \<Rightarrow> TargetSets \<Rightarrow> TargetSets" where
  "pin_targets_replaced server room_id target_set m =
     bt_insert server
       (Set.filter (\<lambda>(stored_room, target). stored_room \<noteq> room_id \<or> target \<notin> target_set)
          (case bt_get m server of None \<Rightarrow> {} | Some ts \<Rightarrow> ts) \<union> Pair room_id ` target_set) m"

lemma replace_pins_cases:
  assumes "replace_pin_snapshot_with_authority session_id room_id snapshot authoritative c = (res, c')"
  obtains (refused) msg where "res = Inl msg" "c' = c"
  | (accepted) session server where "res = Inr ()" "chat_session session_id c = Some session"
      "server = sv_server_id (vs_server session)"
      "\<And>t. t \<in> set (ps_target_event_ids snapshot) \<Longrightarrow> retains_target chat_event_supports_pins session room_id t"
      "chat_pins_fit_bounds (map snd (pins_replaced server room_id snapshot c))"
      "authoritative \<Longrightarrow> pin_authority_fits server room_id (set (ps_target_event_ids snapshot)) c"
      "c' = (let c = c\<lparr>cc_pins := pins_replaced server room_id snapshot c,
              cc_pin_event_cursors := pin_cursors_replaced server room_id snapshot c\<rparr> in
         if authoritative then
           let c = prune_pin_state_for_server server c in
           c\<lparr>cc_authoritative_pin_targets := pin_targets_replaced server room_id
             (set (ps_target_event_ids snapshot)) (cc_authoritative_pin_targets c)\<rparr>
         else c)"
proof -
  note def = replace_pin_snapshot_with_authority_def [of session_id room_id snapshot _ c]
  show thesis
  proof (cases "chat_session session_id c")
    case None
    then show thesis using assms refused by (auto simp: def split: if_splits)
  next
    case (Some session)
    show thesis
    proof (cases res)
      case (Inl msg)
      then show thesis using assms Some refused by (auto simp: def Let_def split: if_splits)
    next
      case (Inr u)
      then show thesis
        using assms Some
        by (cases authoritative; intro accepted [OF _ Some refl])
          (auto simp: def Let_def pins_replaced_def pin_cursors_replaced_def pin_targets_replaced_def split: if_splits)
    qed
  qed
qed

lemma replace_pins_covered:
  assumes "bt_ok (cc_pins c)" "bt_ok (cc_pin_event_cursors c)"
    and "replace_pin_snapshot session_id room_id snapshot c = (Inr (), c')"
    and "session_server session_id c = Some server" "t \<in> set (ps_target_event_ids snapshot)"
  shows "bt_get (cc_pins c') (server, room_id, t) = pin_snapshot_row server room_id snapshot (server, room_id, t)"
    and "bt_get (cc_pin_event_cursors c') (server, room_id, t)
      = map_option cp_pin_event_id (pin_snapshot_row server room_id snapshot (server, room_id, t))"
    and "bt_ok (cc_authoritative_pin_targets c) \<Longrightarrow> targets_contain (cc_authoritative_pin_targets c') server (room_id, t)"
proof -
  let ?c1 = "c\<lparr>cc_pins := pins_replaced server room_id snapshot c,
    cc_pin_event_cursors := pin_cursors_replaced server room_id snapshot c\<rparr>"
  have "replace_pin_snapshot_with_authority session_id room_id snapshot True c = (Inr (), c')"
    using assms(3) by (auto simp: replace_pin_snapshot_def split: prod.splits sum.splits)
  then obtain session where session: "chat_session session_id c = Some session" "server = sv_server_id (vs_server session)"
    "retains_target chat_event_supports_pins session room_id t"
    and c': "c' = (prune_pin_state_for_server server ?c1)\<lparr>cc_authoritative_pin_targets :=
      pin_targets_replaced server room_id (set (ps_target_event_ids snapshot))
        (cc_authoritative_pin_targets (prune_pin_state_for_server server ?c1))\<rparr>"
    using assms(4,5) by (cases rule: replace_pins_cases) (auto simp: session_server_def Let_def)
  have "chat_session session_id ?c1 = Some session" using session(1) by (simp add: chat_session_def)
  from retains_target_retained [OF this session(3)] session(2)
  have kept: "(room_id, t) \<in> retained_targets chat_event_supports_pins server ?c1" by simp
  have ok: "bt_ok (cc_pins ?c1)" "bt_ok (cc_pin_event_cursors ?c1)"
    using assms(1,2) by (simp_all add: pins_replaced_def pin_cursors_replaced_def bt_ok_fold_insert bt_ok_retain)
  show "bt_get (cc_pins c') (server, room_id, t) = pin_snapshot_row server room_id snapshot (server, room_id, t)"
    using prune_get(2) [OF ok(1), of server server room_id t] kept assms(5)
    by (simp add: c' pins_replaced_get [OF assms(1)] split: option.split)
  show "bt_get (cc_pin_event_cursors c') (server, room_id, t)
      = map_option cp_pin_event_id (pin_snapshot_row server room_id snapshot (server, room_id, t))"
    using prune_get(3) [OF ok(2), of server server room_id t] kept assms(5)
    by (simp add: c' pin_cursors_replaced_get [OF assms(2)] split: option.split)
  show "targets_contain (cc_authoritative_pin_targets c') server (room_id, t)" if "bt_ok (cc_authoritative_pin_targets c)"
    using that assms(5) bt_ok_prune(2) [of ?c1 server]
    by (simp add: c' pin_targets_replaced_def targets_contain_def bt_get_insert)
qed

section \<open>Interpretation of the snapshot contract\<close>

lemma session_server_step:
  "session_server s' (snd (apply_message_revision_event session_id room_id e c)) = session_server s' c"
  "session_server s' (snd (apply_reaction_event ly session_id room_id e1 c)) = session_server s' c"
  "session_server s' (snd (apply_pin_event session_id room_id e2 c)) = session_server s' c"
  using revisions_step(4) [of s' 0 undefined session_id room_id e c]
    reactions_step(4) [of s' 0 undefined ly session_id room_id e1 c]
    pins_step(4) [of s' 0 undefined session_id room_id e2 c]
  by (auto simp: revision_key_def reaction_key_def pin_key_def dest!: option.inj_map_strong [rotated])

lemma mark_stale_frame [simp]:
  "cc_message_revisions (mark_message_revisions_stale session_id c) = cc_message_revisions c"
  "cc_pins (mark_pins_stale session_id c) = cc_pins c"
  by (simp_all add: mark_message_revisions_stale_def mark_pins_stale_def split: option.split)

interpretation revision_sync: resynchronised
  "\<lambda>(session_id, room_id, e). apply_message_revision_event session_id room_id e"
  "\<lambda>c. bt_get (cc_message_revisions c)" "\<lambda>(session_id, room_id, e). revision_key session_id room_id e"
  "\<lambda>c. bt_ok (cc_message_revisions c)"
  "\<lambda>(session_id, room_id, s). replace_message_revision_snapshot session_id room_id s"
  "\<lambda>(session_id, room_id, s) c (server, room, t). session_server session_id c = Some server \<and> room = room_id
     \<and> t \<in> set (ms_target_event_ids s)"
  "\<lambda>(session_id, room_id, s) k. revision_snapshot_row (fst k) room_id s k"
proof (unfold_locales, goal_cases)
  case (1 c s c' k)
  then show ?case by (cases s rule: prod_cases3; cases k rule: prod_cases3) (simp add: replace_revisions_covered)
next
  case (2 s c msg c' k)
  then show ?case
    by (cases s rule: prod_cases3)
      (auto simp: replace_message_revision_snapshot_def split: prod.splits sum.splits elim: replace_revisions_cases)
next
  case (3 s e c k)
  then show ?case
    by (cases s rule: prod_cases3; cases k rule: prod_cases3; cases e rule: prod_cases3)
      (simp add: session_server_step)
qed

interpretation reaction_sync: resynchronised
  "\<lambda>(session_id, room_id, e). apply_reaction_event ly session_id room_id e"
  "\<lambda>c. bt_get (cc_reactions c)" "\<lambda>(session_id, room_id, e). reaction_key session_id room_id e"
  "\<lambda>c. bt_ok (cc_reactions c)"
  "\<lambda>(session_id, room_id, s). replace_reaction_snapshot ly session_id room_id s"
  "\<lambda>(session_id, room_id, s) c (server, room, t, u). session_server session_id c = Some server \<and> room = room_id
     \<and> t \<in> set (rs_target_event_ids s)"
  "\<lambda>(session_id, room_id, s) k. reaction_snapshot_row (fst k) room_id s k"
proof (unfold_locales, goal_cases)
  case (1 c s c' k)
  then show ?case by (cases s rule: prod_cases3; cases k rule: prod_cases4) (simp add: replace_reactions_covered)
next
  case (2 s c msg c' k)
  then show ?case
    by (cases s rule: prod_cases3) (auto simp: replace_reaction_snapshot_def elim: replace_reactions_cases)
next
  case (3 s e c k)
  then show ?case
    by (cases s rule: prod_cases3; cases k rule: prod_cases4; cases e rule: prod_cases3)
      (simp add: session_server_step)
qed

lemma pin_rows_step:
  shows "apply_pin_event session_id room_id e c = (Inl msg, c') \<Longrightarrow> c' = c"
    and "bt_ok (cc_pins c) \<and> bt_ok (cc_pin_event_cursors c) \<Longrightarrow>
      bt_ok (cc_pins (snd (apply_pin_event session_id room_id e c)))
      \<and> bt_ok (cc_pin_event_cursors (snd (apply_pin_event session_id room_id e c)))"
    and "bt_ok (cc_pins c) \<and> bt_ok (cc_pin_event_cursors c) \<Longrightarrow> pin_key session_id room_id e c \<noteq> Some k \<Longrightarrow>
      bt_get (cc_pins (snd (apply_pin_event session_id room_id e c))) k = bt_get (cc_pins c) k"
proof -
  obtain res c1 where step: "apply_pin_event session_id room_id e c = (res, c1)" by fastforce
  have pins: "cc_pins c1 = cc_pins c \<or> (\<exists>server. session_server session_id c = Some server
      \<and> cc_pins c1 = (case pin_effect server room_id e of
          None \<Rightarrow> bt_remove (server, room_id, pe_target_event_id e) (cc_pins c)
        | Some row \<Rightarrow> bt_insert (server, room_id, pe_target_event_id e) row (cc_pins c)))"
    using step by (cases rule: pin_event_cases) (auto elim: commit_pin_event_cases [OF _ refl])
  show "apply_pin_event session_id room_id e c = (Inl msg, c') \<Longrightarrow> c' = c" by (rule pins_step(1))
  show "bt_ok (cc_pins (snd (apply_pin_event session_id room_id e c)))
      \<and> bt_ok (cc_pin_event_cursors (snd (apply_pin_event session_id room_id e c)))"
    if "bt_ok (cc_pins c) \<and> bt_ok (cc_pin_event_cursors c)"
    using that pins pins_step(2) [of c session_id room_id e]
    by (auto simp: step bt_ok_insert bt_ok_remove split: option.splits)
  show "bt_get (cc_pins (snd (apply_pin_event session_id room_id e c))) k = bt_get (cc_pins c) k"
    if "bt_ok (cc_pins c) \<and> bt_ok (cc_pin_event_cursors c)" "pin_key session_id room_id e c \<noteq> Some k"
    using that pins by (auto simp: step pin_key_def bt_get_insert bt_get_remove split: option.splits)
qed

interpretation pin_sync: resynchronised
  "\<lambda>(session_id, room_id, e). apply_pin_event session_id room_id e"
  "\<lambda>c. bt_get (cc_pins c)" "\<lambda>(session_id, room_id, e). pin_key session_id room_id e"
  "\<lambda>c. bt_ok (cc_pins c) \<and> bt_ok (cc_pin_event_cursors c)"
  "\<lambda>(session_id, room_id, s). replace_pin_snapshot session_id room_id s"
  "\<lambda>(session_id, room_id, s) c (server, room, t). session_server session_id c = Some server \<and> room = room_id
     \<and> t \<in> set (ps_target_event_ids s)"
  "\<lambda>(session_id, room_id, s) k. pin_snapshot_row (fst k) room_id s k"
proof (unfold_locales, goal_cases)
  case (1 e c msg c')
  then show ?case by (cases e rule: prod_cases3) (simp add: pin_rows_step(1))
next
  case (2 c e)
  then show ?case by (cases e rule: prod_cases3) (simp add: pin_rows_step(2))
next
  case (3 c e k)
  then show ?case by (cases e rule: prod_cases3) (simp add: pin_rows_step(3))
next
  case (4 e' e c)
  then show ?case by (cases e rule: prod_cases3; cases e' rule: prod_cases3) (simp add: pins_step(4))
next
  case (5 c s c' k)
  then show ?case by (cases s rule: prod_cases3; cases k rule: prod_cases3) (auto intro: replace_pins_covered(1))
next
  case (6 s c msg c' k)
  then show ?case
    by (cases s rule: prod_cases3)
      (auto simp: replace_pin_snapshot_def split: prod.splits sum.splits elim: replace_pins_cases)
next
  case (7 s e c k)
  then show ?case
    by (cases s rule: prod_cases3; cases k rule: prod_cases3; cases e rule: prod_cases3) (simp add: session_server_step)
qed

section \<open>Properties\<close>

text \<open>
  C29: revisions only move forward. Whatever revision events arrive, from any session and for any message,
  the retained revision of a message keeps its place or is replaced by one with a higher number, a
  deletion is final, and an event that is refused leaves the whole client unchanged.
\<close>

theorem revision_projection_monotone:
  assumes "bt_ok (cc_message_revisions c)" "bt_get (cc_message_revisions c) k = Some r"
  shows "(\<exists>r'. bt_get (cc_message_revisions
        (run_events (\<lambda>(session_id, room_id, e). apply_message_revision_event session_id room_id e) inputs c)) k = Some r'
      \<and> (r' = r \<or> cv_revision_number r < cv_revision_number r' \<and> cv_action r \<noteq> Tombstone))
    \<and> (apply_message_revision_event session_id room_id event c = (Inl msg, c') \<longrightarrow> c' = c)"
  using revisions.run_mono [OF assms] revisions_step(1) by auto

theorem revision_projection_monotone_witness:
  "let r = \<lparr>cv_server_id = ''s'', cv_room_id = 1, cv_target_event_id = 7, cv_latest_revision_event_id = 9,
         cv_action = Tombstone, cv_actor_user_id = 2, cv_replacement_body = None, cv_at_unix = 5, cv_revision_number = 1\<rparr>;
       e = \<lparr>me_revision_event_id = 10, me_target_event_id = 7, me_action = Correct, me_actor_user_id = 2, me_at_unix = 6,
         me_replacement = Some ''again'', me_revision_number = 2, me_actor_display_name = None\<rparr>
   in bt_get (cc_message_revisions
        (run_events (\<lambda>(session_id, room_id, e). apply_message_revision_event session_id room_id e) [(3, 1, e)]
          (chat_client_new\<lparr>cc_message_revisions := [((''s'', 1, 7), r)]\<rparr>))) (''s'', 1, 7) = Some r"
proof -
  let ?r = "\<lparr>cv_server_id = ''s'', cv_room_id = 1, cv_target_event_id = 7, cv_latest_revision_event_id = 9,
    cv_action = Tombstone, cv_actor_user_id = 2, cv_replacement_body = None, cv_at_unix = 5, cv_revision_number = 1\<rparr>"
  show ?thesis
    unfolding Let_def
    using revision_projection_monotone [of "chat_client_new\<lparr>cc_message_revisions := [((''s'', 1, 7), ?r)]\<rparr>"
        "(''s'', 1, 7)" ?r "[(3, 1, \<lparr>me_revision_event_id = 10, me_target_event_id = 7, me_action = Correct,
          me_actor_user_id = 2, me_at_unix = 6, me_replacement = Some ''again'', me_revision_number = 2,
          me_actor_display_name = None\<rparr>)]"]
    by simp
qed


text \<open>
  C31: a snapshot resynchronises. After any events, known or missed, an accepted snapshot of reactions,
  revisions or pins leaves exactly its own entries for every message it covers, and a refused snapshot
  changes none of the retained rows.
\<close>

theorem snapshot_resynchronises:
  assumes "bt_ok (cc_reactions c)" "bt_ok (cc_message_revisions c)" "bt_ok (cc_pins c)" "bt_ok (cc_pin_event_cursors c)"
    and "session_server session_id c = Some server"
    and "t \<in> set (rs_target_event_ids rsnap)" "t \<in> set (ms_target_event_ids msnap)" "t \<in> set (ps_target_event_ids psnap)"
  shows "(let c1 = run_events (\<lambda>(s, r, e). apply_reaction_event ly s r e) revents c in
      case replace_reaction_snapshot ly session_id room_id rsnap c1 of
        (Inr _, c') \<Rightarrow> bt_get (cc_reactions c') (server, room_id, t, u) = reaction_snapshot_row server room_id rsnap (server, room_id, t, u)
      | (Inl _, c') \<Rightarrow> bt_get (cc_reactions c') rk = bt_get (cc_reactions c1) rk)
    \<and> (let c1 = run_events (\<lambda>(s, r, e). apply_message_revision_event s r e) mevents c in
      case replace_message_revision_snapshot session_id room_id msnap c1 of
        (Inr _, c') \<Rightarrow> bt_get (cc_message_revisions c') (server, room_id, t) = revision_snapshot_row server room_id msnap (server, room_id, t)
      | (Inl _, c') \<Rightarrow> bt_get (cc_message_revisions c') k = bt_get (cc_message_revisions c1) k)
    \<and> (let c1 = run_events (\<lambda>(s, r, e). apply_pin_event s r e) pevents c in
      case replace_pin_snapshot session_id room_id psnap c1 of
        (Inr _, c') \<Rightarrow> bt_get (cc_pins c') (server, room_id, t) = pin_snapshot_row server room_id psnap (server, room_id, t)
      | (Inl _, c') \<Rightarrow> bt_get (cc_pins c') k = bt_get (cc_pins c1) k)"
  using reaction_sync.resync [OF assms(1), where s = "(session_id, room_id, rsnap)" and k = "(server, room_id, t, u)"
      and es = revents and ly = ly]
    reaction_sync.replace_refused [where s = "(session_id, room_id, rsnap)" and ly = ly]
    revision_sync.resync [OF assms(2), of "(session_id, room_id, msnap)" "(server, room_id, t)" mevents]
    revision_sync.replace_refused [of "(session_id, room_id, msnap)"]
    pin_sync.resync [OF conjI [OF assms(3,4)], of "(session_id, room_id, psnap)" "(server, room_id, t)" pevents]
    pin_sync.replace_refused [of "(session_id, room_id, psnap)"]
    assms(5-8)
  by (auto simp: Let_def split: prod.split sum.split)

text \<open>A client with one session on a server and one message in it.\<close>

definition sample_client :: ChatClient where
  "sample_client = chat_client_new\<lparr>cc_sessions := [\<lparr>vs_session_id = 3,
     vs_server = \<lparr>sv_server_id = ''s'', sv_destination = ''d'', sv_display_name = ''n''\<rparr>,
     vs_rooms = [], vs_active_room = \<lparr>rm_server_id = ''s'', rm_room_id = 1, rm_name = ''r'', rm_topic = None,
       rm_unread = 0, rm_joined = True\<rparr>, vs_users = [],
     vs_events = [\<lparr>ev_server_id = ''s'', ev_room_id = 1, ev_event_id = 7, ev_actor_user_id = None,
       ev_actor_display_name = None, ev_at_unix = 0, ev_kind = KMessage ''hi''\<rparr>], vs_status = []\<rparr>]\<rparr>"

lemma sample_client_ready: "pin_ready 3 1 7 ''s'' sample_client"
  by (simp add: pin_ready_def sample_client_def chat_client_new_def chat_session_def retains_target_def
      is_transient_local_event_id_def chat_event_supports_pins_def chat_event_supports_reactions_def pin_room_def
      chat_pins_fit_bounds_iff pin_retained_bytes_def CHAT_PIN_FIXED_RETAINED_BYTES_def usize_saturating_add_def
      rows_of_def ensure_pin_authority_capacity_def chat_limits)

lemma sample_client_simps [simp]:
  "cc_reactions sample_client = []" "cc_message_revisions sample_client = []" "cc_pins sample_client = []"
  "cc_pin_event_cursors sample_client = []" "session_server 3 sample_client = Some ''s''"
  by (simp_all add: sample_client_def chat_client_new_def session_server_def chat_session_def)


theorem snapshot_resynchronises_witness:
  "let c1 = run_events (\<lambda>(s, r, e). apply_pin_event s r e)
         [(3, 1, \<lparr>pe_pin_event_id = 9, pe_target_event_id = 7, pe_action = Pin, pe_actor_user_id = 2, pe_at_unix = 5\<rparr>)]
         sample_client
   in case replace_pin_snapshot 3 1 \<lparr>ps_target_event_ids = [7], ps_entries = []\<rparr> c1 of
        (Inr _, c') \<Rightarrow> bt_get (cc_pins c') (''s'', 1, 7) = None
      | (Inl _, c') \<Rightarrow> bt_get (cc_pins c') (''s'', 1, 7) = bt_get (cc_pins c1) (''s'', 1, 7)"
  using snapshot_resynchronises [where c = sample_client and session_id = 3 and server = "''s''" and t = 7
      and rsnap = "\<lparr>rs_target_event_ids = [7], rs_entries = []\<rparr>"
      and msnap = "\<lparr>ms_target_event_ids = [7], ms_entries = []\<rparr>"
      and psnap = "\<lparr>ps_target_event_ids = [7], ps_entries = []\<rparr>" and room_id = 1 and k = "(''s'', 1, 7)"
      and pevents = "[(3, 1, \<lparr>pe_pin_event_id = 9, pe_target_event_id = 7, pe_action = Pin, pe_actor_user_id = 2, pe_at_unix = 5\<rparr>)]",
      THEN conjunct2, THEN conjunct2]
  by (auto simp: pin_snapshot_row_def Let_def simp del: run_events_simps split: prod.split sum.split)

end
