(* ===== verification/Client_Invariant.thy ===== *)
theory Client_Invariant
  imports Client_Projections
begin

text \<open>
  What a client never exceeds: one invariant over the whole client state, with one part per table, and
  the proof that every operation keeps it, in whatever order operations come.
\<close>

declare split_paired_All [simp del] split_paired_Ex [simp del]

section \<open>The parts\<close>

definition session_ok :: "ChatLayout \<Rightarrow> ChatSessionView \<Rightarrow> bool" where
  "session_ok ly s \<longleftrightarrow>
     history_ok ly (vs_events s)
     \<and> length (vs_rooms s) \<le> CHAT_SESSION_MAX_ROOMS
     \<and> sum_list (map (room_retained_bytes ly) (vs_rooms s)) \<le> CHAT_SESSION_MAX_ROOM_BYTES
     \<and> length (vs_users s) \<le> CHAT_SESSION_MAX_USERS
     \<and> sum_list (map (user_retained_bytes ly) (vs_users s)) \<le> CHAT_SESSION_MAX_USER_BYTES"

definition sessions_ok :: "ChatLayout \<Rightarrow> ChatSessionView list \<Rightarrow> bool" where
  "sessions_ok ly ss \<longleftrightarrow> length ss \<le> CHAT_CLIENT_MAX_SESSIONS \<and> (\<forall>s\<in>set ss. session_ok ly s)"

definition reaction_row_key :: "ChatReaction \<Rightarrow> ServerId \<times> RoomId \<times> EventId \<times> UserId \<times> ReactionToken" where
  "reaction_row_key r = (cr_server_id r, cr_room_id r, cr_target_event_id r, cr_actor_user_id r, cr_token r)"

definition revision_row_key :: "ChatMessageRevision \<Rightarrow> Target" where
  "revision_row_key r = (cv_server_id r, cv_room_id r, cv_target_event_id r)"

definition pin_row_key :: "ChatPin \<Rightarrow> Target" where
  "pin_row_key r = (cp_server_id r, cp_room_id r, cp_target_event_id r)"

text \<open>A table of rows under their own keys, within a limit check.\<close>

definition table_ok :: "('v \<Rightarrow> 'k) \<Rightarrow> ('v list \<Rightarrow> bool) \<Rightarrow> ('k :: linorder, 'v) btree_map \<Rightarrow> bool" where
  "table_ok key fits m \<longleftrightarrow> bt_ok m \<and> (\<forall>k v. bt_get m k = Some v \<longrightarrow> key v = k) \<and> fits (map snd m)"

definition pin_targets_ok :: "TargetSets \<Rightarrow> bool" where
  "pin_targets_ok m \<longleftrightarrow>
     bt_ok m \<and> (\<forall>k ts. bt_get m k = Some ts \<longrightarrow> finite ts) \<and> bt_sum card m \<le> CHAT_PIN_MAX_ROWS"

definition page_records :: "ModerationAuditPage \<Rightarrow> nat" where
  "page_records p = length (ap_records p)"

definition pages_ok :: "(ServerId \<times> RoomId, ModerationAuditPage) btree_map \<Rightarrow> bool" where
  "pages_ok m \<longleftrightarrow>
     bt_ok m \<and> bt_sum page_records m \<le> CHAT_MODERATION_AUDIT_MAX_RECORDS
     \<and> (\<forall>server. bt_sum page_records (bt_retain (\<lambda>(stored, _) _. stored = server) m)
          \<le> CHAT_MODERATION_AUDIT_MAX_RECORDS_PER_SESSION)
     \<and> bt_sum moderation_audit_page_bytes m \<le> CHAT_MODERATION_AUDIT_MAX_BYTES"

definition policies_ok :: "(ChatSessionId \<times> RoomId, RoomPolicyProjection) btree_map \<Rightarrow> bool" where
  "policies_ok m \<longleftrightarrow>
     bt_ok m \<and> (\<forall>session. bt_count (\<lambda>(stored, _) _. stored = session) m \<le> CHAT_SESSION_MAX_ROOMS)"

definition mutes_ok :: "(ServerId, RoomId set) btree_map \<Rightarrow> bool" where
  "mutes_ok m \<longleftrightarrow>
     bt_ok m \<and> (\<forall>k rooms. bt_get m k = Some rooms \<longrightarrow> finite rooms \<and> card rooms \<le> CHAT_SESSION_MAX_ROOMS)"

definition client_ok :: "ChatLayout \<Rightarrow> ChatClient \<Rightarrow> bool" where
  "client_ok ly c \<longleftrightarrow>
     sessions_ok ly (cc_sessions c) \<and> bt_ok (cc_local_user_ids c) \<and> mutes_ok (cc_mute_except_mentions c)
     \<and> table_ok reaction_row_key (chat_reactions_fit_bounds (ly_reaction_size ly)) (cc_reactions c)
     \<and> bt_ok (cc_authoritative_reaction_targets c)
     \<and> table_ok revision_row_key chat_message_revisions_fit_bounds (cc_message_revisions c)
     \<and> bt_ok (cc_authoritative_message_revision_targets c)
     \<and> table_ok pin_row_key chat_pins_fit_bounds (cc_pins c)
     \<and> bt_ok (cc_pin_event_cursors c) \<and> pin_targets_ok (cc_authoritative_pin_targets c)
     \<and> pages_ok (cc_moderation_audit_pages c) \<and> policies_ok (cc_room_policies c)"

section \<open>Each part under the table operations\<close>

lemma table_ok_retain:
  assumes "table_ok key fits m" "\<And>q. fits (map snd m) \<Longrightarrow> fits (map snd (bt_retain q m))"
  shows "table_ok key fits (bt_retain q m)"
  using assms by (auto simp: table_ok_def bt_ok_retain bt_get_retain)

lemma table_ok_insert:
  "table_ok key fits m \<Longrightarrow> key v = k \<Longrightarrow> fits (map snd (bt_insert k v m)) \<Longrightarrow> table_ok key fits (bt_insert k v m)"
  by (auto simp: table_ok_def bt_laws)

lemma table_ok_fold_insert:
  assumes "bt_ok m" "\<And>k v. bt_get m k = Some v \<Longrightarrow> key v = k" "\<And>e. e \<in> set es \<Longrightarrow> key (row e) = k e"
    and "fits (map snd (fold (\<lambda>e. bt_insert (k e) (row e)) es m))"
  shows "table_ok key fits (fold (\<lambda>e. bt_insert (k e) (row e)) es m)"
proof -
  have "bt_get (fold (\<lambda>e. bt_insert (k e) (row e)) es m) k' = Some v \<longrightarrow> key v = k'" for k' v
    using assms(1-3)
  proof (induction es arbitrary: m)
    case (Cons e es)
    have keys: "key v = k'" if "bt_get (bt_insert (k e) (row e) m) k' = Some v" for k' v
      using that Cons.prems by (auto simp: bt_get_insert split: if_splits)
    have "bt_get (fold (\<lambda>e. bt_insert (k e) (row e)) es (bt_insert (k e) (row e) m)) k' = Some v \<longrightarrow> key v = k'"
      by (rule Cons.IH [OF bt_ok_insert [OF Cons.prems(1)]]) (use keys Cons.prems(3) in auto)
    then show ?case by simp
  qed simp
  then show ?thesis using assms(1,4) by (simp add: table_ok_def bt_ok_fold_insert)
qed

lemma rows_retain:
  "table_ok key chat_pins_fit_bounds ps \<Longrightarrow> table_ok key chat_pins_fit_bounds (bt_retain q ps)"
  "table_ok key' chat_message_revisions_fit_bounds vs \<Longrightarrow> table_ok key' chat_message_revisions_fit_bounds (bt_retain q' vs)"
  "table_ok key'' (chat_reactions_fit_bounds n) rs \<Longrightarrow> table_ok key'' (chat_reactions_fit_bounds n) (bt_retain q'' rs)"
  by (simp_all add: table_ok_retain fit_bounds_retain)

lemma pin_targets_ok_insert:
  assumes "pin_targets_ok m" "finite ts"
    and "bt_sum card m + card ts \<le> CHAT_PIN_MAX_ROWS + (case bt_get m server of None \<Rightarrow> 0 | Some old \<Rightarrow> card old)"
  shows "pin_targets_ok (bt_insert server ts m)"
  using assms bt_sum_insert [of m card server ts]
  by (auto simp: pin_targets_ok_def bt_laws split: if_splits)

lemma pin_targets_ok_remove: "pin_targets_ok m \<Longrightarrow> pin_targets_ok (bt_remove server m)"
  using bt_sum_retain_le [of card "\<lambda>k _. k \<noteq> server" m]
  by (auto simp: pin_targets_ok_def bt_ok_remove bt_get_remove bt_remove_def [of server m] bt_ok_retain bt.get_del
      split: if_splits)

lemma pin_targets_ok_prune: "pin_targets_ok m \<Longrightarrow> pin_targets_ok (targets_prune server keep m)"
proof -
  assume ok: "pin_targets_ok m"
  have "card (Set.filter keep ts) \<le> card ts" "finite (Set.filter keep ts)" if "bt_get m server = Some ts" for ts
    using ok that by (auto simp: pin_targets_ok_def intro!: card_mono)
  then show ?thesis
    using ok pin_targets_ok_remove [OF ok]
    by (auto simp: targets_prune_def Let_def pin_targets_ok_def [of m] intro!: pin_targets_ok_insert
        split: option.split)
qed

lemma pin_targets_ok_extend:
  assumes "pin_targets_ok m"
    and "\<not> targets_contain m server t \<Longrightarrow> bt_sum card m < CHAT_PIN_MAX_ROWS"
  shows "pin_targets_ok (targets_extend server {t} m)"
proof -
  have fin: "finite ts" if "bt_get m server = Some ts" for ts using assms(1) that by (auto simp: pin_targets_ok_def)
  show ?thesis
    unfolding targets_extend_def
  proof (rule pin_targets_ok_insert [OF assms(1)])
    show "bt_sum card m + card ((case bt_get m server of None \<Rightarrow> {} | Some ts \<Rightarrow> ts) \<union> {t})
      \<le> CHAT_PIN_MAX_ROWS + (case bt_get m server of None \<Rightarrow> 0 | Some old \<Rightarrow> card old)"
      using assms fin by (auto simp: targets_contain_def pin_targets_ok_def card_insert_if split: option.splits)
  qed (use fin in \<open>auto split: option.split\<close>)
qed

lemma pin_targets_ok_replaced:
  assumes ok: "pin_targets_ok m" and fits: "pin_authority_fits server room_id target_set c"
    and m: "cc_authoritative_pin_targets c = m" and fin: "finite target_set"
  shows "pin_targets_ok (pin_targets_replaced server room_id target_set (targets_prune server keep m))"
    and "pin_targets_ok (pin_targets_replaced server room_id target_set m)"
proof -
  let ?out = "\<lambda>(stored_room, target). stored_room \<noteq> room_id \<or> target \<notin> target_set"
  let ?in = "\<lambda>(stored_room, target). stored_room = room_id \<and> target \<in> target_set"
  let ?ts = "case bt_get m server of None \<Rightarrow> {} | Some ts \<Rightarrow> ts"
  have bt: "bt_ok m" using ok by (simp add: pin_targets_ok_def)
  have finite: "finite ?ts" using ok by (auto simp: pin_targets_ok_def split: option.split)
  have "?ts = Set.filter ?in ?ts \<union> Set.filter ?out ?ts" by auto
  then have split: "card ?ts = card (Set.filter ?in ?ts) + card (Set.filter ?out ?ts)"
    using finite by (subst card_Un_disjoint [symmetric]) auto
  have "bt_sum card (bt_remove server m) + card ?ts = bt_sum card m"
    using bt_sum_remove [OF bt, of card server] by (simp split: option.splits)
  then have budget: "bt_sum card (bt_remove server m) + card (Set.filter ?out ?ts) + card target_set \<le> CHAT_PIN_MAX_ROWS"
    using fits m split
    by (simp add: pin_authority_fits_def usize_saturating_add_le chat_limits split: option.splits)
  have main: "pin_targets_ok (pin_targets_replaced server room_id target_set m')"
    if m': "pin_targets_ok m'" "bt_remove server m' = bt_remove server m"
      "(case bt_get m' server of None \<Rightarrow> {} | Some ts \<Rightarrow> ts) \<subseteq> ?ts" for m'
  proof -
    let ?ts' = "case bt_get m' server of None \<Rightarrow> {} | Some ts \<Rightarrow> ts"
    have bt': "bt_ok m'" using m'(1) by (simp add: pin_targets_ok_def)
    have "card (Set.filter ?out ?ts' \<union> Pair room_id ` target_set) \<le> card (Set.filter ?out ?ts') + card (Pair room_id ` target_set)"
      by (rule card_Un_le)
    also have "\<dots> \<le> card (Set.filter ?out ?ts) + card target_set"
      using m'(3) finite fin by (intro add_mono card_mono card_image_le) auto
    finally have "bt_sum card (bt_remove server m') + card (Set.filter ?out ?ts' \<union> Pair room_id ` target_set) \<le> CHAT_PIN_MAX_ROWS"
      using budget m'(2) by simp
    moreover have "bt_sum card (bt_remove server m') + card ?ts' = bt_sum card m'"
      using bt_sum_remove [OF bt', of card server] by (simp split: option.splits)
    moreover have "finite ?ts'" using m'(3) finite by (rule finite_subset)
    ultimately show ?thesis
      unfolding pin_targets_replaced_def using fin
      by (intro pin_targets_ok_insert [OF m'(1)]) (auto split: option.splits)
  qed
  show "pin_targets_ok (pin_targets_replaced server room_id target_set m)" by (rule main [OF ok]) auto
  show "pin_targets_ok (pin_targets_replaced server room_id target_set (targets_prune server keep m))"
  proof (rule main [OF pin_targets_ok_prune [OF ok]])
    show "bt_remove server (targets_prune server keep m) = bt_remove server m"
      using bt by (intro bt_ext) (auto simp: targets_prune_def Let_def bt_ok_remove bt_get_remove bt_laws split: option.split)
    show "(case bt_get (targets_prune server keep m) server of None \<Rightarrow> {} | Some ts \<Rightarrow> ts) \<subseteq> ?ts"
      using bt by (auto simp: targets_prune_def Let_def bt_get_remove bt_get_insert split: option.split)
  qed
qed

section \<open>Pages and policies\<close>

lemma bt_retain_insert:
  assumes "bt_ok m"
  shows "bt_retain (\<lambda>k _. q k) (bt_insert k v m) = (if q k then bt_insert k v (bt_retain (\<lambda>k _. q k) m) else bt_retain (\<lambda>k _. q k) m)"
  using assms by (auto intro!: bt_ext simp: bt_laws bt_get_retain_key bt_ok_insert bt_ok_retain)

lemma pages_ok_retain: "pages_ok m \<Longrightarrow> pages_ok (bt_retain q m)"
proof -
  assume ok: "pages_ok m"
  have "bt_sum page_records (bt_retain p (bt_retain q m)) \<le> bt_sum page_records (bt_retain p m)" for p
    by (induction m) auto
  then show ?thesis
    using ok bt_sum_retain_le [of page_records q m] bt_sum_retain_le [of moderation_audit_page_bytes q m]
    unfolding pages_ok_def by (meson bt_ok_retain order_trans)
qed

lemma pages_ok_insert:
  assumes "pages_ok m" "key = (server, room_id)"
    and "bt_sum page_records m - (case bt_get m key of None \<Rightarrow> 0 | Some p \<Rightarrow> page_records p) + page_records page
      \<le> CHAT_MODERATION_AUDIT_MAX_RECORDS"
    and "bt_sum page_records (bt_retain (\<lambda>(stored, _) _. stored = server) m)
        - (case bt_get m key of None \<Rightarrow> 0 | Some p \<Rightarrow> page_records p) + page_records page
      \<le> CHAT_MODERATION_AUDIT_MAX_RECORDS_PER_SESSION"
    and "bt_sum moderation_audit_page_bytes m
        - (case bt_get m key of None \<Rightarrow> 0 | Some p \<Rightarrow> moderation_audit_page_bytes p) + moderation_audit_page_bytes page
      \<le> CHAT_MODERATION_AUDIT_MAX_BYTES"
  shows "pages_ok (bt_insert key page m)"
proof -
  have bt: "bt_ok m" using assms(1) by (simp add: pages_ok_def)
  let ?own = "\<lambda>s. bt_retain (\<lambda>(stored, _) _. stored = s)"
  have own: "?own s (bt_insert key page m) = (if s = server then bt_insert key page (?own s m) else ?own s m)" for s
    using bt_retain_insert [OF bt, of "\<lambda>k. fst k = s" key page] assms(2) by (simp add: case_prod_unfold)
  have get: "bt_get (?own server m) key = bt_get m key"
    using bt_get_retain_key [OF bt, of "\<lambda>k. fst k = server" key] assms(2) by (simp add: case_prod_unfold)
  have "bt_sum page_records (?own s (bt_insert key page m)) \<le> CHAT_MODERATION_AUDIT_MAX_RECORDS_PER_SESSION" for s
    using own [of s] get assms(1,4) bt_sum_insert [OF bt_ok_retain [OF bt], of page_records key page "\<lambda>(stored, _) _. stored = server"]
    by (auto simp: pages_ok_def split: option.splits if_splits)
  then show ?thesis
    using assms(3,5) bt_sum_insert [OF bt, of page_records key page] bt_sum_insert [OF bt, of moderation_audit_page_bytes key page]
    by (auto simp: pages_ok_def bt_ok_insert bt split: option.splits)
qed

lemma replace_page_ok:
  assumes "pages_ok (cc_moderation_audit_pages c)"
  shows "pages_ok (cc_moderation_audit_pages (snd (replace_moderation_audit_page session_id room_id page c)))"
proof (cases "session_server session_id c")
  case (Some server)
  have limits: "CHAT_MODERATION_AUDIT_MAX_RECORDS < 2 ^ 64 - 1" "CHAT_MODERATION_AUDIT_MAX_RECORDS_PER_SESSION < 2 ^ 64 - 1"
    "CHAT_MODERATION_AUDIT_MAX_BYTES < 2 ^ 64 - 1"
    by (simp_all add: CHAT_MODERATION_AUDIT_MAX_RECORDS_def CHAT_MODERATION_AUDIT_MAX_RECORDS_PER_SESSION_def
        CHAT_MODERATION_AUDIT_MAX_BYTES_def)
  show ?thesis
    using assms Some pages_ok_retain [OF assms] limits
    unfolding replace_moderation_audit_page_def
    by (auto simp: Let_def bt_remove_def not_less usize_saturating_add_le page_records_def [symmetric, abs_def]
        intro!: pages_ok_insert [OF assms refl] split: option.splits)
qed (use assms in \<open>simp add: replace_moderation_audit_page_def\<close>)

lemma policies_ok_retain: "policies_ok m \<Longrightarrow> policies_ok (bt_retain q m)"
  using bt.cnt_ret_le [of m] by (auto simp: policies_ok_def bt_ok_retain intro: order_trans)

lemma bt_count_fold_insert:
  "bt_ok m \<Longrightarrow> bt_count p (fold (\<lambda>(r, v). bt_insert (key r) v) es m)
     \<le> bt_count p m + length (filter (\<lambda>(r, v). p (key r) v) es)"
proof (induction es arbitrary: m)
  case (Cons e es)
  obtain r v where e: "e = (r, v)" by fastforce
  show ?case
    using Cons.IH [OF bt_ok_insert [OF Cons.prems, of "key r" v]] bt.cnt_ins_le [OF Cons.prems, of p "key r" v]
    by (auto simp: e)
qed simp

section \<open>The operations\<close>

datatype ClientOp =
    OpReserveSessionId
  | OpBindLocalUser ChatSessionId UserId
  | OpReplaceRoomPolicies ChatSessionId "(RoomId \<times> RoomPolicyProjection) list"
  | OpUpdateRoomPolicy ChatSessionId RoomId RoomPolicyProjection
  | OpClearRoomPolicies ChatSessionId
  | OpReplaceAuditPage ChatSessionId RoomId ModerationAuditPage
  | OpAppendAuditPage ChatSessionId RoomId EventId ModerationAuditPage
  | OpClearAudit ChatSessionId
  | OpClearAuditRoom ChatSessionId RoomId
  | OpMarkReactionsStale ChatSessionId
  | OpMarkLiveReactionTarget ChatSessionId RoomId EventId
  | OpReactionEvent ChatSessionId RoomId ReactionEvent
  | OpReactionSnapshot ChatSessionId RoomId ReactionSnapshot bool
  | OpMarkRevisionsStale ChatSessionId
  | OpRevisionEvent ChatSessionId RoomId MessageRevisionEvent
  | OpRevisionSnapshot ChatSessionId RoomId MessageRevisionSnapshot
  | OpRestoreRevisions ChatSessionId RoomId MessageRevisionSnapshot
  | OpMarkPinsStale ChatSessionId
  | OpMarkPinRoomStale ChatSessionId RoomId
  | OpPinEvent ChatSessionId RoomId PinEvent
  | OpPinSnapshot ChatSessionId RoomId PinSnapshot
  | OpRestorePins ChatSessionId RoomId PinSnapshot
  | OpSetRoomMute ChatSessionId RoomId bool
  | OpEnforceStatusBounds
  | OpPushSession ChatSessionView
  | OpRemoveSession ChatSessionId
  | OpPrependHistory ChatSessionId "ChatEvent list"
  | OpAppendEvent ChatSessionId ChatEvent bool HistoryWindowEdge

text \<open>The restoring operations are the snapshots that the chat store loads without authority.\<close>

primrec client_apply :: "ChatLayout \<Rightarrow> ClientOp \<Rightarrow> ChatClient \<Rightarrow> ChatClient" where
  "client_apply ly OpReserveSessionId c = snd (reserve_session_id c)"
| "client_apply ly (OpBindLocalUser i u) c = snd (bind_local_user_id i u c)"
| "client_apply ly (OpReplaceRoomPolicies i ps) c = snd (replace_room_policies i ps c)"
| "client_apply ly (OpUpdateRoomPolicy i r p) c = snd (update_room_policy i r p c)"
| "client_apply ly (OpClearRoomPolicies i) c = clear_room_policies i c"
| "client_apply ly (OpReplaceAuditPage i r p) c = snd (replace_moderation_audit_page i r p c)"
| "client_apply ly (OpAppendAuditPage i r e p) c = snd (append_moderation_audit_page i r e p c)"
| "client_apply ly (OpClearAudit i) c = clear_moderation_audit i c"
| "client_apply ly (OpClearAuditRoom i r) c = clear_moderation_audit_room i r c"
| "client_apply ly (OpMarkReactionsStale i) c = mark_reactions_stale i c"
| "client_apply ly (OpMarkLiveReactionTarget i r t) c = snd (mark_live_reaction_target_authoritative i r t c)"
| "client_apply ly (OpReactionEvent i r e) c = snd (apply_reaction_event ly i r e c)"
| "client_apply ly (OpReactionSnapshot i r s authoritative) c =
     snd (replace_reaction_snapshot_with_authority ly i r s authoritative c)"
| "client_apply ly (OpMarkRevisionsStale i) c = mark_message_revisions_stale i c"
| "client_apply ly (OpRevisionEvent i r e) c = snd (apply_message_revision_event i r e c)"
| "client_apply ly (OpRevisionSnapshot i r s) c = snd (replace_message_revision_snapshot i r s c)"
| "client_apply ly (OpRestoreRevisions i r s) c = snd (replace_message_revision_snapshot_with_authority i r s False c)"
| "client_apply ly (OpMarkPinsStale i) c = mark_pins_stale i c"
| "client_apply ly (OpMarkPinRoomStale i r) c = mark_pin_room_stale i r c"
| "client_apply ly (OpPinEvent i r e) c = snd (apply_pin_event i r e c)"
| "client_apply ly (OpPinSnapshot i r s) c = snd (replace_pin_snapshot i r s c)"
| "client_apply ly (OpRestorePins i r s) c = snd (replace_pin_snapshot_with_authority i r s False c)"
| "client_apply ly (OpSetRoomMute i r enabled) c = snd (set_room_mute_except_mentions i r enabled c)"
| "client_apply ly OpEnforceStatusBounds c = enforce_status_bounds c"
| "client_apply ly (OpPushSession s) c = snd (push_session ly s c)"
| "client_apply ly (OpRemoveSession i) c = snd (remove_session i c)"
| "client_apply ly (OpPrependHistory i es) c = snd (prepend_history_events ly i es c)"
| "client_apply ly (OpAppendEvent i e sort_after edge) c = snd (append_event_bounded ly i e sort_after edge c)"

text \<open>
  What an address space guarantees: the values handed to an operation are in memory together, so their
  sizes do not reach \<^verbatim>\<open>usize::MAX\<close>, half of it where they join what is retained.
\<close>

primrec op_fits :: "ChatLayout \<Rightarrow> ClientOp \<Rightarrow> bool" where
  "op_fits ly OpReserveSessionId = True"
| "op_fits ly (OpBindLocalUser i u) = True"
| "op_fits ly (OpReplaceRoomPolicies i ps) = True"
| "op_fits ly (OpUpdateRoomPolicy i r p) = True"
| "op_fits ly (OpClearRoomPolicies i) = True"
| "op_fits ly (OpReplaceAuditPage i r p) = True"
| "op_fits ly (OpAppendAuditPage i r e p) = True"
| "op_fits ly (OpClearAudit i) = True"
| "op_fits ly (OpClearAuditRoom i r) = True"
| "op_fits ly (OpMarkReactionsStale i) = True"
| "op_fits ly (OpMarkLiveReactionTarget i r t) = True"
| "op_fits ly (OpReactionEvent i r e) = True"
| "op_fits ly (OpReactionSnapshot i r s authoritative) = True"
| "op_fits ly (OpMarkRevisionsStale i) = True"
| "op_fits ly (OpRevisionEvent i r e) = True"
| "op_fits ly (OpRevisionSnapshot i r s) = True"
| "op_fits ly (OpRestoreRevisions i r s) = True"
| "op_fits ly (OpMarkPinsStale i) = True"
| "op_fits ly (OpMarkPinRoomStale i r) = True"
| "op_fits ly (OpPinEvent i r e) = True"
| "op_fits ly (OpPinSnapshot i r s) = True"
| "op_fits ly (OpRestorePins i r s) = True"
| "op_fits ly (OpSetRoomMute i r enabled) = True"
| "op_fits ly OpEnforceStatusBounds = True"
| "op_fits ly (OpPushSession s) \<longleftrightarrow>
     sum_list (map (chat_event_retained_bytes ly) (vs_events s)) < 2 ^ 64
     \<and> sum_list (map (room_retained_bytes ly) (vs_rooms (enforce_presentation_bounds s))) < 2 ^ 64
     \<and> sum_list (map (user_retained_bytes ly) (vs_users (enforce_presentation_bounds s))) < 2 ^ 64"
| "op_fits ly (OpRemoveSession i) = True"
| "op_fits ly (OpPrependHistory i es) \<longleftrightarrow> sum_list (map (chat_event_retained_bytes ly) es) < 2 ^ 63"
| "op_fits ly (OpAppendEvent i e sort_after edge) \<longleftrightarrow> chat_event_retained_bytes ly e < 2 ^ 63"

section \<open>Each operation keeps the bounds\<close>

lemma client_ok_new: "client_ok ly chat_client_new"
  by (simp add: client_ok_def chat_client_new_def sessions_ok_def mutes_ok_def table_ok_def pin_targets_ok_def
      pages_ok_def policies_ok_def bt_ok_def chat_pins_fit_bounds_iff chat_message_revisions_fit_bounds_iff
      chat_reactions_fit_bounds_iff rows_of_def bytes_in_def bt_count_def)

lemma client_ok_simple:
  assumes "client_ok ly c"
  shows "client_ok ly (snd (reserve_session_id c))"
    and "client_ok ly (snd (bind_local_user_id i u c))"
    and "client_ok ly (clear_room_policies i c)"
    and "client_ok ly (clear_moderation_audit i c)"
    and "client_ok ly (clear_moderation_audit_room i r c)"
    and "client_ok ly (mark_reactions_stale i c)"
    and "client_ok ly (mark_message_revisions_stale i c)"
    and "client_ok ly (mark_pins_stale i c)"
    and "client_ok ly (mark_pin_room_stale i r c)"
  using assms
  unfolding client_ok_def reserve_session_id_def bind_local_user_id_def clear_room_policies_def
    clear_moderation_audit_def clear_moderation_audit_room_def mark_reactions_stale_def
    mark_message_revisions_stale_def mark_pins_stale_def mark_pin_room_stale_def
  by (auto simp: Let_def bt_ok_insert bt_ok_remove bt_ok_retain policies_ok_retain pages_ok_retain
      bt_remove_def pin_targets_ok_remove [unfolded bt_remove_def] pin_targets_ok_prune split: option.split)

lemma client_ok_prune:
  assumes "client_ok ly c"
  shows "client_ok ly (prune_reaction_state_for_server server c)"
    and "client_ok ly (prune_message_revision_state_for_server server c)"
    and "client_ok ly (prune_pin_state_for_server server c)"
  using assms
  unfolding client_ok_def prune_reaction_state_for_server_def prune_message_revision_state_for_server_def
    prune_pin_state_for_server_def
  by (auto simp: Let_def bt_ok_targets bt_ok_retain rows_retain pin_targets_ok_prune)

lemma client_ok_policies:
  assumes "client_ok ly c"
  shows "client_ok ly (snd (replace_room_policies i ps c))" "client_ok ly (snd (update_room_policy i r p c))"
proof -
  let ?m = "cc_room_policies c" and ?own = "\<lambda>session (stored, _) _. stored = session"
  let ?rest = "bt_retain (\<lambda>(stored, _) _. stored \<noteq> i) ?m"
  let ?new = "fold (\<lambda>(room_id, policy). bt_insert (i, room_id) policy) ps ?rest"
  have ok: "bt_ok ?m" "bt_count (?own session) ?m \<le> CHAT_SESSION_MAX_ROOMS" for session
    using assms by (simp_all add: client_ok_def policies_ok_def)
  have "bt_count (?own session) ?new \<le> CHAT_SESSION_MAX_ROOMS" if "length ps \<le> CHAT_SESSION_MAX_ROOMS" for session
  proof (cases "session = i")
    case True
    have "bt_count (?own session) ?rest = 0"
      unfolding bt_count_def using True by (auto simp: bt_retain_def filter_empty_conv)
    then show ?thesis
      using bt_count_fold_insert [OF bt_ok_retain [OF ok(1)], of "?own session" "Pair i" ps "\<lambda>(stored, _) _. stored \<noteq> i"] that
        length_filter_le [of "\<lambda>(r, v). ?own session (i, r) v" ps] by linarith
  next
    case False
    then show ?thesis
      using bt_count_fold_insert [OF bt_ok_retain [OF ok(1)], of "?own session" "Pair i" ps "\<lambda>(stored, _) _. stored \<noteq> i"]
        bt.cnt_ret_le [OF ok(1), of "?own session" "\<lambda>(stored, _) _. stored \<noteq> i"] ok(2) [of session]
      by (simp add: case_prod_unfold)
  qed
  moreover have "bt_ok ?new"
    using bt_ok_fold_insert [OF bt_ok_retain [OF ok(1)], of "\<lambda>(r, p). (i, r)" snd ps] by (simp add: case_prod_unfold)
  ultimately show "client_ok ly (snd (replace_room_policies i ps c))"
    using assms by (auto simp: client_ok_def replace_room_policies_def policies_ok_def not_less split: option.split)
  have "policies_ok (bt_insert (i, r) p ?m)"
    if "bt_get ?m (i, r) = None \<longrightarrow> bt_count (?own i) ?m < CHAT_SESSION_MAX_ROOMS"
  proof -
    have "bt_count (?own session) (bt_insert (i, r) p ?m) \<le> CHAT_SESSION_MAX_ROOMS" for session
      using that ok(2) [of session] bt.cnt_ins_old [OF ok(1), of "(i, r)" _ "?own session" p]
        bt.cnt_ins_new [OF ok(1), of "(i, r)" "?own session" p]
      by (cases "bt_get ?m (i, r)"; cases "session = i") auto
    then show ?thesis by (simp add: policies_ok_def bt_ok_insert ok(1))
  qed
  then show "client_ok ly (snd (update_room_policy i r p c))"
    using assms by (auto simp: client_ok_def update_room_policy_def not_le split: option.split)
qed

lemma client_ok_pages:
  assumes "client_ok ly c"
  shows "client_ok ly (snd (replace_moderation_audit_page i r p c))"
    and "client_ok ly (snd (append_moderation_audit_page i r e p c))"
proof -
  have "client_ok ly (snd (replace_moderation_audit_page i r page c))" for page
    using assms replace_page_ok [of c i r page]
    by (auto simp: client_ok_def replace_moderation_audit_page_def Let_def split: option.splits if_splits)
  then show "client_ok ly (snd (replace_moderation_audit_page i r p c))"
    "client_ok ly (snd (append_moderation_audit_page i r e p c))"
    using assms by (auto simp: append_moderation_audit_page_def Let_def split: option.split)
qed

lemma client_ok_mute:
  assumes "client_ok ly c"
  shows "client_ok ly (snd (set_room_mute_except_mentions i r enabled c))"
proof -
  have ok: "bt_ok (cc_mute_except_mentions c)" "bt_get (cc_mute_except_mentions c) k = Some rooms \<Longrightarrow>
      finite rooms \<and> card rooms \<le> CHAT_SESSION_MAX_ROOMS" for k rooms
    using assms by (simp_all add: client_ok_def mutes_ok_def)
  have ins: "mutes_ok (bt_insert k rooms (cc_mute_except_mentions c))"
    if "finite rooms" "card rooms \<le> CHAT_SESSION_MAX_ROOMS" for k rooms
    using ok that by (auto simp: mutes_ok_def bt_laws)
  have del: "mutes_ok (bt_remove k (cc_mute_except_mentions c))" for k
    using ok by (auto simp: mutes_ok_def bt_ok_remove bt_get_remove)
  have "mutes_ok (bt_insert k (rooms - {r}) (cc_mute_except_mentions c))"
    if "bt_get (cc_mute_except_mentions c) k = Some rooms" for k rooms
    using ok(2) [OF that] by (intro ins finite_Diff le_trans [OF card_Diff1_le]) auto
  then have "mutes_ok (cc_mute_except_mentions (snd (set_room_mute_except_mentions i r enabled c)))"
    using assms ok ins del
    unfolding set_room_mute_except_mentions_def
    by (auto simp: client_ok_def Let_def card_insert_if insert_absorb not_le split: option.split)
  then show ?thesis
    using assms by (auto simp: client_ok_def set_room_mute_except_mentions_def Let_def split: option.splits if_splits)
qed

lemma client_ok_reactions:
  assumes "client_ok ly c"
  shows "client_ok ly (snd (mark_live_reaction_target_authoritative i r t c))"
    and "client_ok ly (snd (apply_reaction_event ly i r e c))"
    and "client_ok ly (snd (replace_reaction_snapshot_with_authority ly i r snapshot authoritative c))"
proof -
  have ok: "table_ok reaction_row_key (chat_reactions_fit_bounds (ly_reaction_size ly)) (cc_reactions c)"
    using assms by (simp add: client_ok_def)
  show "client_ok ly (snd (mark_live_reaction_target_authoritative i r t c))"
    using assms client_ok_prune(1) [OF assms]
    by (auto simp: mark_live_reaction_target_authoritative_def Let_def client_ok_def bt_ok_targets split: option.split)
  show "client_ok ly (snd (apply_reaction_event ly i r e c))"
    using assms ok
    by (auto simp: apply_reaction_event_def Let_def client_ok_def bt_remove_def rows_retain reaction_row_key_def
        intro!: table_ok_insert split: option.split ReactionAction.split)
  have "table_ok reaction_row_key (chat_reactions_fit_bounds (ly_reaction_size ly)) (reactions_replaced server r snapshot c)"
    if "chat_reactions_fit_bounds (ly_reaction_size ly) (map snd (reactions_replaced server r snapshot c))" for server
    using ok that unfolding reactions_replaced_def
    by (intro table_ok_fold_insert) (auto simp: table_ok_def bt_laws reaction_row_key_def reaction_entry_row_def)
  then have next_ok: "client_ok ly (c\<lparr>cc_reactions := reactions_replaced server r snapshot c\<rparr>)"
    if "chat_reactions_fit_bounds (ly_reaction_size ly) (map snd (reactions_replaced server r snapshot c))" for server
    using assms that by (simp add: client_ok_def)
  obtain res c' where step: "replace_reaction_snapshot_with_authority ly i r snapshot authoritative c = (res, c')"
    by fastforce
  then show "client_ok ly (snd (replace_reaction_snapshot_with_authority ly i r snapshot authoritative c))"
  proof (cases rule: replace_reactions_cases)
    case (accepted session server)
    have "client_ok ly c'"
      using accepted next_ok [of server] client_ok_prune(1) [OF next_ok, of server server]
      by (simp add: Let_def client_ok_def bt_ok_targets)
    then show ?thesis by (simp add: step)
  qed (use assms step in simp)
qed

lemma client_ok_revisions:
  assumes "client_ok ly c"
  shows "client_ok ly (snd (apply_message_revision_event i r e c))"
    and "client_ok ly (snd (replace_message_revision_snapshot_with_authority i r snapshot authoritative c))"
    and "client_ok ly (snd (replace_message_revision_snapshot i r snapshot c))"
proof -
  have ok: "table_ok revision_row_key chat_message_revisions_fit_bounds (cc_message_revisions c)"
    "bt_ok (cc_authoritative_message_revision_targets c)"
    using assms by (simp_all add: client_ok_def)
  show "client_ok ly (snd (apply_message_revision_event i r e c))"
    using assms ok
    by (auto simp: apply_message_revision_event_def mark_message_revision_target_authoritative_def Let_def client_ok_def
        bt_ok_targets revision_row_key_def revision_event_row_def intro!: table_ok_insert split: option.split)
  have "table_ok revision_row_key chat_message_revisions_fit_bounds (revisions_replaced server r snapshot c)"
    if "chat_message_revisions_fit_bounds (map snd (revisions_replaced server r snapshot c))" for server
    using ok that unfolding revisions_replaced_def
    by (intro table_ok_fold_insert) (auto simp: table_ok_def bt_laws revision_row_key_def revision_entry_row_def)
  then have next_ok: "client_ok ly (c\<lparr>cc_message_revisions := revisions_replaced server r snapshot c\<rparr>)"
    if "chat_message_revisions_fit_bounds (map snd (revisions_replaced server r snapshot c))" for server
    using assms that by (simp add: client_ok_def)
  have replaced: "client_ok ly c'"
    if "replace_message_revision_snapshot_with_authority i r snapshot authoritative c = (res, c')" for authoritative res c'
    using that
  proof (cases rule: replace_revisions_cases)
    case (accepted session server)
    then show ?thesis
      using next_ok [of server] client_ok_prune(2) [OF next_ok, of server server]
      by (simp add: Let_def client_ok_def bt_ok_targets)
  qed (use assms in simp)
  then show "client_ok ly (snd (replace_message_revision_snapshot_with_authority i r snapshot authoritative c))"
    by (metis prod.collapse)
  show "client_ok ly (snd (replace_message_revision_snapshot i r snapshot c))"
    using replaced [of True] client_ok_simple(7)
    by (auto simp: replace_message_revision_snapshot_def split: prod.split sum.split)
qed

lemma ensure_capacity_iff:
  "is_ok (ensure_pin_authority_capacity server room_id t c) \<longleftrightarrow>
     (\<not> targets_contain (cc_authoritative_pin_targets c) server (room_id, t) \<longrightarrow>
        bt_sum card (cc_authoritative_pin_targets c) < CHAT_PIN_MAX_ROWS)"
  by (auto simp: ensure_pin_authority_capacity_def)

lemma client_ok_pin_event:
  assumes "client_ok ly c"
  shows "client_ok ly (snd (apply_pin_event i r e c))"
proof -
  obtain res c' where step: "apply_pin_event i r e c = (res, c')" by fastforce
  have ok: "table_ok pin_row_key chat_pins_fit_bounds (cc_pins c)" "pin_targets_ok (cc_authoritative_pin_targets c)"
    "bt_ok (cc_pin_event_cursors c)"
    using assms by (simp_all add: client_ok_def)
  have extend: "pin_targets_ok (targets_extend server {(r, t)} (cc_authoritative_pin_targets c))"
    if "is_ok (ensure_pin_authority_capacity server r t c)" for server t
    using that by (intro pin_targets_ok_extend [OF ok(2)]) (auto simp: ensure_capacity_iff)
  have "client_ok ly c'" using step
  proof (cases rule: pin_event_cases)
    case (repeated server)
    then show ?thesis using assms extend by (simp add: client_ok_def)
  next
    case (fresh server changed)
    from fresh(4) refl show ?thesis
    proof (cases rule: commit_pin_event_cases)
      case (accepted changed)
      then obtain ps cs ts where c': "c' = c\<lparr>cc_pins := ps, cc_pin_event_cursors := cs, cc_authoritative_pin_targets := ts\<rparr>"
        by blast
      have "table_ok pin_row_key chat_pins_fit_bounds ps"
        using accepted(2,6) ok(1) c'
        by (auto simp: bt_remove_def rows_retain pin_effect_def pin_row_key_def pin_event_row_def
            intro!: table_ok_insert split: PinAction.splits)
      moreover have "bt_ok cs" "pin_targets_ok ts" using accepted(3,4) ok(3) extend [OF accepted(7)] c' by (simp_all add: bt_ok_insert)
      ultimately show ?thesis using assms c' by (simp add: client_ok_def)
    qed (use assms in simp)
  qed (use assms in simp)
  then show ?thesis by (simp add: step)
qed

lemma client_ok_pin_snapshot:
  assumes "client_ok ly c"
  shows "client_ok ly (snd (replace_pin_snapshot_with_authority i r snapshot authoritative c))"
    and "client_ok ly (snd (replace_pin_snapshot i r snapshot c))"
proof -
  have ok: "table_ok pin_row_key chat_pins_fit_bounds (cc_pins c)" "bt_ok (cc_pin_event_cursors c)"
    "pin_targets_ok (cc_authoritative_pin_targets c)"
    using assms by (simp_all add: client_ok_def)
  have pins: "table_ok pin_row_key chat_pins_fit_bounds (pins_replaced server r snapshot c)"
    if "chat_pins_fit_bounds (map snd (pins_replaced server r snapshot c))" for server
    using ok that unfolding pins_replaced_def
    by (intro table_ok_fold_insert) (auto simp: table_ok_def bt_laws pin_row_key_def pin_entry_row_def)
  have cursors: "bt_ok (pin_cursors_replaced server r snapshot c)" for server
    using ok(2) by (simp add: pin_cursors_replaced_def bt_ok_fold_insert bt_ok_retain)
  have replaced: "client_ok ly c'"
    if "replace_pin_snapshot_with_authority i r snapshot authoritative c = (res, c')" for authoritative res c'
    using that
  proof (cases rule: replace_pins_cases)
    case (accepted session server)
    let ?c = "c\<lparr>cc_pins := pins_replaced server r snapshot c, cc_pin_event_cursors := pin_cursors_replaced server r snapshot c\<rparr>"
    have next_ok: "client_ok ly ?c" using assms pins [OF accepted(5)] cursors by (simp add: client_ok_def)
    have "pin_targets_ok (pin_targets_replaced server r (set (ps_target_event_ids snapshot))
        (cc_authoritative_pin_targets (prune_pin_state_for_server server ?c)))" if authoritative
      using pin_targets_ok_replaced [OF ok(3) accepted(6) [OF that] refl finite_set]
      by (auto simp: prune_pin_state_for_server_def Let_def)
    then show ?thesis
      using accepted(7) next_ok client_ok_prune(3) [OF next_ok, of server] by (simp add: client_ok_def Let_def)
  qed (use assms in simp)
  then show "client_ok ly (snd (replace_pin_snapshot_with_authority i r snapshot authoritative c))"
    by (metis prod.collapse)
  show "client_ok ly (snd (replace_pin_snapshot i r snapshot c))"
    using replaced [of True] client_ok_simple(8)
    by (auto simp: replace_pin_snapshot_def split: prod.split sum.split)
qed

lemma set_update_session:
  "s' \<in> set (update_session i f ss) \<Longrightarrow> s' \<in> set ss \<or> (\<exists>s. find (\<lambda>s. vs_session_id s = i) ss = Some s \<and> s' = f s)"
  by (induction ss) (auto split: if_splits)

lemma sessions_ok_update:
  assumes "sessions_ok ly ss" "\<And>s. find (\<lambda>s. vs_session_id s = i) ss = Some s \<Longrightarrow> session_ok ly (f s)"
  shows "sessions_ok ly (update_session i f ss)"
proof -
  have "length (update_session i f ss) = length ss" by (induction ss) auto
  then show ?thesis using assms set_update_session [of _ i f ss] by (auto simp: sessions_ok_def)
qed

lemma sessions_ok_find:
  "sessions_ok ly (cc_sessions c) \<Longrightarrow> chat_session i c = Some s \<Longrightarrow> session_ok ly s"
  by (auto simp: chat_session_def sessions_ok_def find_Some_iff)

lemma sum_push_missing:
  fixes f :: "ChatEvent \<Rightarrow> nat"
  shows "sum_list (map f (push_missing events es)) \<le> sum_list (map f events) + sum_list (map f es)"
proof (induction events es rule: push_missing.induct)
  case (2 events e es)
  then show ?case by (cases "list_ex (\<lambda>x. event_key x = event_key e) events") auto
qed simp

lemma sum_list_map_sort_key: "sum_list (map f (sort_key k xs)) = (sum_list (map f xs) :: nat)"
  by (rule sum_list_perm) simp

lemma history_window_ok:
  "sum_list (map (chat_event_retained_bytes ly) events) < 2 ^ 64 \<Longrightarrow> history_ok ly (enforce_history_window ly edge protected events)"
  using enforce_history_window_cases [OF _ refl] by blast

lemma client_ok_push:
  assumes "client_ok ly c" "op_fits ly (OpPushSession s)"
  shows "client_ok ly (snd (push_session ly s c))"
proof -
  let ?s = "enforce_presentation_bounds (s\<lparr>vs_events := enforce_history_window ly Newest None (vs_events s)\<rparr>)"
  have parts: "vs_rooms ?s = vs_rooms (enforce_presentation_bounds s)" "vs_users ?s = vs_users (enforce_presentation_bounds s)"
    "vs_events ?s = enforce_history_window ly Newest None (vs_events s)"
    by (simp_all add: enforce_presentation_bounds_def Let_def vs_set_status_def)
  have "session_ok ly (snd (enforce_catalog_bounds ly ?s))"
    using assms(2) history_window_ok [of ly "vs_events s"]
      room_catalog_within [OF _ surjective_pairing, of ly "vs_rooms ?s"]
      user_catalog_within [OF _ surjective_pairing, of ly "vs_users ?s"]
    by (simp add: enforce_catalog_bounds_def session_ok_def parts case_prod_unfold Let_def)
  then show ?thesis
    using assms(1) by (auto simp: push_session_def Let_def client_ok_def sessions_ok_def not_le)
qed

lemma client_ok_history:
  assumes "client_ok ly c"
  shows "op_fits ly (OpPrependHistory i es) \<Longrightarrow> client_ok ly (snd (prepend_history_events ly i es c))"
    and "op_fits ly (OpAppendEvent i e sort_after edge) \<Longrightarrow> client_ok ly (snd (append_event_bounded ly i e sort_after edge c))"
proof -
  have ok: "sessions_ok ly (cc_sessions c)" using assms by (simp add: client_ok_def)
  let ?bytes = "\<lambda>es. sum_list (map (chat_event_retained_bytes ly) es)"
  have changed: "client_ok ly (prune_pin_state_for_server server (prune_message_revision_state_for_server server
      (c\<lparr>cc_sessions := update_session i f (cc_sessions c)\<rparr>)))"
    if "chat_session i c = Some s" "session_ok ly (f s)" for f s server
  proof -
    have "client_ok ly (c\<lparr>cc_sessions := update_session i f (cc_sessions c)\<rparr>)"
      using assms that sessions_ok_update [OF ok, of i f] by (simp add: client_ok_def chat_session_def)
    then show ?thesis by (intro client_ok_prune)
  qed
  have bytes: "?bytes (vs_events s) \<le> CHAT_SESSION_HISTORY_MAX_BYTES" if "chat_session i c = Some s" for s
    using sessions_ok_find [OF ok that] by (simp add: session_ok_def history_ok_def)
  have frame: "session_ok ly (s\<lparr>vs_events := es\<rparr>)" "session_ok ly (s\<lparr>vs_status := status, vs_events := es\<rparr>)"
    if "chat_session i c = Some s" "history_ok ly es" for s es status
    using sessions_ok_find [OF ok that(1)] that(2) by (simp_all add: session_ok_def)
  show "client_ok ly (snd (prepend_history_events ly i es c))" if fits: "op_fits ly (OpPrependHistory i es)"
  proof (cases "chat_session i c")
    case (Some s)
    have "?bytes (sort_key event_key (push_missing (vs_events s) es)) < 2 ^ 64"
      using fits sum_push_missing [of "chat_event_retained_bytes ly" "vs_events s" es] bytes [OF Some]
      by (simp add: sum_list_map_sort_key CHAT_SESSION_HISTORY_MAX_BYTES_def)
    note kept = history_window_ok [OF this, of Oldest None]
    show ?thesis
      using Some assms frame [OF Some kept]
      by (simp add: prepend_history_events_def Let_def changed [OF Some])
  qed (use assms in \<open>simp add: prepend_history_events_def\<close>)
  show "client_ok ly (snd (append_event_bounded ly i e sort_after edge c))" if fits: "op_fits ly (OpAppendEvent i e sort_after edge)"
  proof (cases "chat_session i c")
    case (Some s)
    have "?bytes (vs_events s @ [e]) < 2 ^ 64"
      using fits bytes [OF Some] by (simp add: CHAT_SESSION_HISTORY_MAX_BYTES_def)
    then show ?thesis
      using Some assms
      by (auto simp: append_event_bounded_def Let_def sum_list_map_sort_key intro!: changed [OF Some] frame history_window_ok)
  qed (use assms in \<open>simp add: append_event_bounded_def\<close>)
qed

lemma set_remove_first: "set (remove_first p xs) \<subseteq> set xs" "length (remove_first p xs) \<le> length xs"
  by (induction xs) auto

lemma client_ok_remove:
  assumes "client_ok ly c"
  shows "client_ok ly (snd (remove_session i c))"
proof -
  let ?c = "c\<lparr>cc_sessions := remove_first (\<lambda>s. vs_session_id s = i) (cc_sessions c)\<rparr>"
  have c: "client_ok ly ?c"
    using assms set_remove_first [of "\<lambda>s. vs_session_id s = i" "cc_sessions c"]
    by (auto simp: client_ok_def sessions_ok_def)
  have forget: "client_ok ly (forget_server server ?c)" for server
    using c by (auto simp: client_ok_def forget_server_def bt_ok_remove bt_ok_retain rows_retain pin_targets_ok_remove
        pages_ok_retain mutes_ok_def bt_get_remove)
  have policies: "client_ok ly (d\<lparr>cc_room_policies := bt_retain (\<lambda>(stored, _) _. stored \<noteq> i) (cc_room_policies d)\<rparr>)"
    if "client_ok ly d" for d
    using that by (simp add: client_ok_def policies_ok_retain)
  show ?thesis
    using assms policies [OF forget] policies [OF client_ok_prune(3) [OF client_ok_prune(2) [OF c]]]
    by (simp add: remove_session_def Let_def split: option.split)
qed

lemma client_ok_status: "client_ok ly c \<Longrightarrow> client_ok ly (enforce_status_bounds c)"
  by (auto simp: client_ok_def enforce_status_bounds_def sessions_ok_def session_ok_def vs_set_status_def)

lemma client_ok_apply: "client_ok ly c \<Longrightarrow> op_fits ly op \<Longrightarrow> client_ok ly (client_apply ly op c)"
  by (cases op) (simp_all add: client_ok_simple client_ok_policies client_ok_pages client_ok_reactions client_ok_revisions
      client_ok_pin_event client_ok_pin_snapshot client_ok_mute client_ok_status client_ok_push client_ok_remove client_ok_history)

end
