(* ===== verification/Client_Retention.thy ===== *)
theory Client_Retention
  imports Client_Invariant
begin

text \<open>
  What the client's tables refer to. Every revision, every pin and every mark of authority over them
  belongs to a message that some session of the server retains, whatever sequence of operations led
  there: each operation that lets messages go prunes what referred to them. The reaction table has no
  such pruning, and a closed example shows what that leaves behind.
\<close>

declare split_paired_All [simp del] split_paired_Ex [simp del]

section \<open>What is referred to\<close>

definition revision_live :: "ChatClient \<Rightarrow> ServerId \<Rightarrow> RoomId \<times> EventId \<Rightarrow> bool" where
  "revision_live c server t \<longleftrightarrow>
     bt_get (cc_message_revisions c) (server, t) \<noteq> None
     \<or> targets_contain (cc_authoritative_message_revision_targets c) server t"

definition pin_live :: "ChatClient \<Rightarrow> ServerId \<Rightarrow> RoomId \<times> EventId \<Rightarrow> bool" where
  "pin_live c server t \<longleftrightarrow>
     bt_get (cc_pins c) (server, t) \<noteq> None \<or> bt_get (cc_pin_event_cursors c) (server, t) \<noteq> None
     \<or> targets_contain (cc_authoritative_pin_targets c) server t"

definition revisions_retained :: "ChatClient \<Rightarrow> bool" where
  "revisions_retained c \<longleftrightarrow> (\<forall>server t. revision_live c server t \<longrightarrow>
     t \<in> retained_targets chat_event_supports_message_revisions server c)"

definition pins_retained :: "ChatClient \<Rightarrow> bool" where
  "pins_retained c \<longleftrightarrow> (\<forall>server t. pin_live c server t \<longrightarrow>
     t \<in> retained_targets chat_event_supports_pins server c)"

text \<open>The order and the shape of the tables, as far as these proofs need them.\<close>

definition tables_ok :: "ChatClient \<Rightarrow> bool" where
  "tables_ok c \<longleftrightarrow>
     bt_ok (cc_message_revisions c) \<and> bt_ok (cc_authoritative_message_revision_targets c)
     \<and> bt_ok (cc_pins c) \<and> bt_ok (cc_pin_event_cursors c) \<and> bt_ok (cc_authoritative_pin_targets c)"

lemma client_ok_tables: "client_ok ly c \<Longrightarrow> tables_ok c"
  by (simp add: client_ok_def tables_ok_def table_ok_def pin_targets_ok_def)

lemma retained_targets_cong: "cc_sessions c' = cc_sessions c \<Longrightarrow> retained_targets s server c' = retained_targets s server c"
  by (simp add: retained_targets_def)

text \<open>An operation that changes neither the tables nor the sessions.\<close>

lemma retained_frame:
  assumes "cc_sessions c' = cc_sessions c"
  shows "cc_message_revisions c' = cc_message_revisions c \<Longrightarrow>
      cc_authoritative_message_revision_targets c' = cc_authoritative_message_revision_targets c \<Longrightarrow>
      revisions_retained c' = revisions_retained c"
    and "cc_pins c' = cc_pins c \<Longrightarrow> cc_pin_event_cursors c' = cc_pin_event_cursors c \<Longrightarrow>
      cc_authoritative_pin_targets c' = cc_authoritative_pin_targets c \<Longrightarrow> pins_retained c' = pins_retained c"
  using retained_targets_cong [OF assms]
  by (simp_all add: revisions_retained_def pins_retained_def revision_live_def pin_live_def)

section \<open>Pruning\<close>

lemma targets_contain_empty [simp]: "\<not> targets_contain [] server t"
  by (simp add: targets_contain_def)

lemma prune_live:
  assumes "tables_ok c"
  shows "revision_live (prune_message_revision_state_for_server server c) server' t \<longleftrightarrow>
      revision_live c server' t \<and> (server' = server \<longrightarrow> t \<in> retained_targets chat_event_supports_message_revisions server c)"
    and "pin_live (prune_pin_state_for_server server c) server' t \<longleftrightarrow>
      pin_live c server' t \<and> (server' = server \<longrightarrow> t \<in> retained_targets chat_event_supports_pins server c)"
proof -
  obtain room_id event_id where t: "t = (room_id, event_id)" by fastforce
  have "targets_contain (cc_authoritative_message_revision_targets (prune_message_revision_state_for_server server c)) server' t
    \<longleftrightarrow> targets_contain (cc_authoritative_message_revision_targets c) server' t
      \<and> (server' = server \<longrightarrow> t \<in> retained_targets chat_event_supports_message_revisions server c)"
    using assms by (auto simp: prune_message_revision_state_for_server_def Let_def targets_contain_prune tables_ok_def)
  then show "revision_live (prune_message_revision_state_for_server server c) server' t \<longleftrightarrow>
      revision_live c server' t \<and> (server' = server \<longrightarrow> t \<in> retained_targets chat_event_supports_message_revisions server c)"
    using assms unfolding revision_live_def t by (auto simp: prune_get tables_ok_def)
  have "targets_contain (cc_authoritative_pin_targets (prune_pin_state_for_server server c)) server' t
    \<longleftrightarrow> targets_contain (cc_authoritative_pin_targets c) server' t
      \<and> (server' = server \<longrightarrow> t \<in> retained_targets chat_event_supports_pins server c)"
    using assms by (auto simp: prune_pin_state_for_server_def Let_def targets_contain_prune tables_ok_def)
  then show "pin_live (prune_pin_state_for_server server c) server' t \<longleftrightarrow>
      pin_live c server' t \<and> (server' = server \<longrightarrow> t \<in> retained_targets chat_event_supports_pins server c)"
    using assms unfolding pin_live_def t by (auto simp: prune_get tables_ok_def)
qed

lemma prune_frame [simp]:
  "cc_sessions (prune_message_revision_state_for_server server c) = cc_sessions c"
  "cc_sessions (prune_pin_state_for_server server c) = cc_sessions c"
  "revision_live (prune_pin_state_for_server server c) = revision_live c"
  "pin_live (prune_message_revision_state_for_server server c) = pin_live c"
  "tables_ok c \<Longrightarrow> tables_ok (prune_message_revision_state_for_server server c)"
  "tables_ok c \<Longrightarrow> tables_ok (prune_pin_state_for_server server c)"
  by (auto simp: prune_message_revision_state_for_server_def prune_pin_state_for_server_def Let_def fun_eq_iff
      revision_live_def pin_live_def tables_ok_def bt_ok_targets bt_ok_retain)

text \<open>
  An operation that lets messages of one server go and prunes that server.
\<close>

lemma retained_change:
  assumes ok: "tables_ok c" and retained: "revisions_retained c" "pins_retained c"
    and c': "cc_message_revisions c' = cc_message_revisions c"
      "cc_authoritative_message_revision_targets c' = cc_authoritative_message_revision_targets c"
      "cc_pins c' = cc_pins c" "cc_pin_event_cursors c' = cc_pin_event_cursors c"
      "cc_authoritative_pin_targets c' = cc_authoritative_pin_targets c"
    and others: "\<And>s server'. server' \<noteq> server \<Longrightarrow> retained_targets s server' c \<subseteq> retained_targets s server' c'"
  shows "revisions_retained (prune_pin_state_for_server server (prune_message_revision_state_for_server server c'))"
    and "pins_retained (prune_pin_state_for_server server (prune_message_revision_state_for_server server c'))"
proof -
  have same: "tables_ok c'" "revision_live c' = revision_live c" "pin_live c' = pin_live c"
    using ok c' by (simp_all add: tables_ok_def revision_live_def pin_live_def fun_eq_iff)
  let ?p = "prune_pin_state_for_server server (prune_message_revision_state_for_server server c')"
  have sessions: "retained_targets s server' ?p = retained_targets s server' c'"
    "retained_targets s server' (prune_message_revision_state_for_server server c') = retained_targets s server' c'" for s server'
    by (simp_all add: retained_targets_def)
  have "t \<in> retained_targets chat_event_supports_message_revisions server' c'" if "revision_live ?p server' t" for server' t
    using that prune_live(1) [OF same(1), of server server' t] same(2) retained(1) others [of server']
    unfolding revisions_retained_def prune_frame by (metis subsetD)
  then show "revisions_retained ?p" by (simp add: revisions_retained_def sessions)
  have "t \<in> retained_targets chat_event_supports_pins server' c'" if "pin_live ?p server' t" for server' t
    using that prune_live(2) [OF prune_frame(5) [OF same(1)], of server server server' t] same(3) retained(2) others [of server']
    unfolding pins_retained_def prune_frame sessions by (metis subsetD)
  then show "pins_retained ?p" by (simp add: pins_retained_def sessions)
qed

section \<open>Each operation keeps what is referred to\<close>

lemma retained_step:
  assumes "cc_sessions c' = cc_sessions c"
  shows "revisions_retained c \<Longrightarrow> (\<And>server t. revision_live c' server t \<Longrightarrow> revision_live c server t
      \<or> t \<in> retained_targets chat_event_supports_message_revisions server c) \<Longrightarrow> revisions_retained c'"
    and "pins_retained c \<Longrightarrow> (\<And>server t. pin_live c' server t \<Longrightarrow> pin_live c server t
      \<or> t \<in> retained_targets chat_event_supports_pins server c) \<Longrightarrow> pins_retained c'"
  unfolding revisions_retained_def pins_retained_def retained_targets_cong [OF assms] by blast+

lemma targets_contain_remove: "bt_ok m \<Longrightarrow> targets_contain (bt_remove server m) server' t \<longleftrightarrow> server' \<noteq> server \<and> targets_contain m server' t"
  by (simp add: targets_contain_def bt_get_remove)

lemma stale_live:
  assumes "tables_ok c"
  shows "revision_live (mark_message_revisions_stale i c) server t \<Longrightarrow> revision_live c server t"
    and "pin_live (mark_pins_stale i c) server t \<Longrightarrow> pin_live c server t"
    and "pin_live (mark_pin_room_stale i r c) server t \<Longrightarrow> pin_live c server t"
proof -
  have ok: "bt_ok (cc_pin_event_cursors c)" "bt_ok (cc_authoritative_pin_targets c)"
    "bt_ok (cc_authoritative_message_revision_targets c)"
    using assms by (simp_all add: tables_ok_def)
  show "revision_live (mark_message_revisions_stale i c) server t \<Longrightarrow> revision_live c server t"
    by (cases "session_server i c") (auto simp: mark_message_revisions_stale_def revision_live_def targets_contain_remove ok)
  show "pin_live (mark_pins_stale i c) server t \<Longrightarrow> pin_live c server t"
    by (cases "session_server i c") (auto simp: mark_pins_stale_def pin_live_def targets_contain_remove bt_get_retain ok)
  show "pin_live (mark_pin_room_stale i r c) server t \<Longrightarrow> pin_live c server t"
    by (cases "session_server i c") (auto simp: mark_pin_room_stale_def pin_live_def targets_contain_prune bt_get_retain ok)
qed

lemma stale_sessions [simp]:
  "cc_sessions (mark_message_revisions_stale i c) = cc_sessions c"
  "cc_sessions (mark_pins_stale i c) = cc_sessions c"
  "cc_sessions (mark_pin_room_stale i r c) = cc_sessions c"
  "pin_live (mark_message_revisions_stale i c) = pin_live c"
  "revision_live (mark_pins_stale i c) = revision_live c"
  "revision_live (mark_pin_room_stale i r c) = revision_live c"
  by (auto simp: mark_message_revisions_stale_def mark_pins_stale_def mark_pin_room_stale_def fun_eq_iff
      revision_live_def pin_live_def split: option.split)

lemma stale_retained:
  assumes "tables_ok c" "revisions_retained c" "pins_retained c"
  shows "revisions_retained (mark_message_revisions_stale i c)" "pins_retained (mark_message_revisions_stale i c)"
    and "revisions_retained (mark_pins_stale i c)" "pins_retained (mark_pins_stale i c)"
    and "revisions_retained (mark_pin_room_stale i r c)" "pins_retained (mark_pin_room_stale i r c)"
  using retained_step(1) [OF stale_sessions(1) assms(2)] retained_step(2) [OF stale_sessions(1) assms(3)]
    retained_step(1) [OF stale_sessions(2) assms(2)] retained_step(2) [OF stale_sessions(2) assms(3)]
    retained_step(1) [OF stale_sessions(3) assms(2)] retained_step(2) [OF stale_sessions(3) assms(3)]
    stale_live [OF assms(1)] unfolding stale_sessions by blast+

lemma session_retained:
  assumes "chat_session i c = Some session" "retains_target supports session room_id t"
  shows "(room_id, t) \<in> retained_targets supports (sv_server_id (vs_server session)) c"
  using retains_target_retained [OF assms] by blast

lemma revision_event_retained:
  assumes "tables_ok c" "revisions_retained c" "pins_retained c"
  shows "revisions_retained (snd (apply_message_revision_event i r e c))"
    and "pins_retained (snd (apply_message_revision_event i r e c))"
proof -
  let ?c = "snd (apply_message_revision_event i r e c)"
  have ok: "bt_ok (cc_message_revisions c)" "bt_ok (cc_authoritative_message_revision_targets c)"
    using assms(1) by (simp_all add: tables_ok_def)
  have frame: "cc_sessions ?c = cc_sessions c" "cc_pins ?c = cc_pins c" "cc_pin_event_cursors ?c = cc_pin_event_cursors c"
    "cc_authoritative_pin_targets ?c = cc_authoritative_pin_targets c"
    by (auto simp: apply_message_revision_event_def mark_message_revision_target_authoritative_def Let_def split: option.split)
  have "revision_live c server t \<or> t \<in> retained_targets chat_event_supports_message_revisions server c"
    if live: "revision_live ?c server t" for server t
  proof (cases "chat_session i c")
    case (Some session)
    note retained = session_retained [OF Some, of chat_event_supports_message_revisions r "me_target_event_id e"]
    show ?thesis
      using live Some retained ok
      unfolding apply_message_revision_event_def mark_message_revision_target_authoritative_def Let_def
      by (auto simp: revision_live_def targets_contain_extend bt_get_insert split: if_splits)
  qed (use live in \<open>auto simp: apply_message_revision_event_def split: if_splits\<close>)
  then show "revisions_retained ?c"
    using retained_step(1) [OF frame(1) assms(2)] by blast
  show "pins_retained ?c" using retained_frame(2) [OF frame] assms(3) by simp
qed

lemma pin_event_outcome:
  assumes "chat_session i c = Some session"
  shows "snd (apply_pin_event i r e c) = c
    \<or> retains_target chat_event_supports_pins session r (pe_target_event_id e)
      \<and> (snd (apply_pin_event i r e c) = snd (commit_pin_event (sv_server_id (vs_server session)) r e c)
         \<or> snd (apply_pin_event i r e c)
            = snd (mark_pin_target_authoritative (sv_server_id (vs_server session)) r (pe_target_event_id e) c))"
  using assms by (auto simp: apply_pin_event_def Let_def split: option.split prod.split sum.split)

lemma pin_event_retained:
  assumes "tables_ok c" "revisions_retained c" "pins_retained c"
  shows "revisions_retained (snd (apply_pin_event i r e c))" and "pins_retained (snd (apply_pin_event i r e c))"
proof -
  let ?c = "snd (apply_pin_event i r e c)"
  have ok: "bt_ok (cc_pins c)" "bt_ok (cc_pin_event_cursors c)" "bt_ok (cc_authoritative_pin_targets c)"
    using assms(1) by (simp_all add: tables_ok_def)
  have frame: "cc_sessions ?c = cc_sessions c" "cc_message_revisions ?c = cc_message_revisions c"
    "cc_authoritative_message_revision_targets ?c = cc_authoritative_message_revision_targets c"
    by (auto simp: apply_pin_event_def commit_pin_event_def mark_pin_target_authoritative_def Let_def
        split: option.split prod.split sum.split)
  have "pin_live c server t \<or> t \<in> retained_targets chat_event_supports_pins server c"
    if live: "pin_live ?c server t" for server t
  proof (cases "chat_session i c")
    case (Some session)
    have commit: "pin_live c server t \<or> server = server' \<and> t = (r, pe_target_event_id e)"
      if "pin_live (snd (commit_pin_event server' r e c)) server t" for server'
      using that ok
      by (auto simp: commit_pin_event_def Let_def pin_live_def targets_contain_extend bt_get_insert bt_get_remove
          split: PinAction.splits if_splits sum.splits)
    have repeated: "pin_live c server t \<or> server = server' \<and> t = (r, pe_target_event_id e)"
      if "pin_live (snd (mark_pin_target_authoritative server' r (pe_target_event_id e) c)) server t" for server'
      using that ok
      by (auto simp: mark_pin_target_authoritative_def pin_live_def targets_contain_extend split: sum.splits)
    have "pin_live c server t \<or> server = sv_server_id (vs_server session) \<and> t = (r, pe_target_event_id e)
        \<and> retains_target chat_event_supports_pins session r (pe_target_event_id e)"
      using live pin_event_outcome [OF Some, of r e] commit repeated by auto
    then show ?thesis using session_retained [OF Some] by blast
  qed (use live in \<open>auto simp: apply_pin_event_def split: if_splits\<close>)
  then show "pins_retained ?c" using retained_step(2) [OF frame(1) assms(3)] by blast
  show "revisions_retained ?c" using retained_frame(1) [OF frame] assms(2) by simp
qed

lemma prune_retained:
  assumes "tables_ok c" "revisions_retained c" "pins_retained c"
  shows "revisions_retained (prune_message_revision_state_for_server server c)"
    and "pins_retained (prune_message_revision_state_for_server server c)"
    and "tables_ok (prune_message_revision_state_for_server server c)"
    and "revisions_retained (prune_pin_state_for_server server c)"
    and "pins_retained (prune_pin_state_for_server server c)"
    and "tables_ok (prune_pin_state_for_server server c)"
  by (rule retained_step(1) [OF prune_frame(1) assms(2)], simp add: prune_live [OF assms(1)])
    (rule retained_step(2) [OF prune_frame(1) assms(3)], simp add: prune_live [OF assms(1)],
     simp add: assms, rule retained_step(1) [OF prune_frame(2) assms(2)], simp add: prune_live [OF assms(1)],
     rule retained_step(2) [OF prune_frame(2) assms(3)], simp add: prune_live [OF assms(1)], simp add: assms)

lemma revision_snapshot_retained:
  assumes "tables_ok c" "revisions_retained c" "pins_retained c"
    and step: "replace_message_revision_snapshot_with_authority i r snapshot authoritative c = (res, c')"
  shows "revisions_retained c'" "pins_retained c'" "tables_ok c'"
proof -
  have ok: "bt_ok (cc_message_revisions c)" "bt_ok (cc_authoritative_message_revision_targets c)"
    using assms(1) by (simp_all add: tables_ok_def)
  have valid: "revision_snapshot_valid snapshot" if "res = Inr ()"
    using step that by (auto simp: replace_message_revision_snapshot_with_authority_def is_ok_iff revision_snapshot_into_Inr
        split: if_splits)
  have "revisions_retained c' \<and> pins_retained c' \<and> tables_ok c'" using step
  proof (cases rule: replace_revisions_cases)
    case (accepted session server)
    let ?rows = "revisions_replaced server r snapshot c"
    let ?c = "c\<lparr>cc_message_revisions := ?rows\<rparr>"
    let ?retained = "retained_targets chat_event_supports_message_revisions"
    have covered: "(r, t) \<in> ?retained server c" if "t \<in> set (ms_target_event_ids snapshot)" for t
      using session_retained [OF accepted(2) accepted(4) [OF that]] accepted(3) by simp
    have rows_ok: "bt_ok ?rows" using ok by (simp add: revisions_replaced_def bt_ok_fold_insert bt_ok_retain)
    have row: "bt_get (cc_message_revisions c) (server', t) \<noteq> None \<or> t \<in> ?retained server' c"
      if "bt_get ?rows (server', t) \<noteq> None" for server' t
    proof (cases "revision_snapshot_row server r snapshot (server', t)")
      case None
      then show ?thesis using that by (cases t) (auto simp: revisions_replaced_get [OF ok(1)] split: if_splits)
    next
      case (Some row)
      then obtain e where "e \<in> set (ms_entries snapshot)" "(server, r, ms_target_event_id e) = (server', t)"
        by (auto simp: revision_snapshot_row_def dest!: find_SomeD)
      then show ?thesis using covered valid [OF accepted(1)] by (auto simp: revision_snapshot_valid_def)
    qed
    have "revisions_retained ?c"
      using row by (intro retained_step(1) [OF _ assms(2)]) (auto simp: revision_live_def)
    moreover have "tables_ok ?c" "pins_retained ?c"
      using assms(1,3) rows_ok retained_frame(2) [of ?c c] by (simp_all add: tables_ok_def)
    ultimately have next_ok: "revisions_retained ?c" "pins_retained ?c" "tables_ok ?c" by simp_all
    let ?p = "prune_message_revision_state_for_server server ?c"
    let ?m = "targets_extend server (Pair r ` set (ms_target_event_ids snapshot)) (cc_authoritative_message_revision_targets ?p)"
    note p = prune_retained [OF next_ok(3,1,2), of server]
    have "revisions_retained (?p\<lparr>cc_authoritative_message_revision_targets := ?m\<rparr>)"
      using p(3) covered
      by (intro retained_step(1) [OF _ p(1)])
        (auto simp: revision_live_def targets_contain_extend tables_ok_def retained_targets_def)
    moreover have "pins_retained (?p\<lparr>cc_authoritative_message_revision_targets := ?m\<rparr>)"
      "tables_ok (?p\<lparr>cc_authoritative_message_revision_targets := ?m\<rparr>)"
      using p retained_frame(2) [of "?p\<lparr>cc_authoritative_message_revision_targets := ?m\<rparr>" ?p]
      by (simp_all add: tables_ok_def bt_ok_targets)
    ultimately show ?thesis using accepted(6) next_ok by (simp add: Let_def)
  qed (use assms in simp)
  then show "revisions_retained c'" "pins_retained c'" "tables_ok c'" by simp_all
qed

lemma pin_snapshot_retained:
  assumes "tables_ok c" "revisions_retained c" "pins_retained c"
    and step: "replace_pin_snapshot_with_authority i r snapshot authoritative c = (res, c')"
  shows "revisions_retained c'" "pins_retained c'" "tables_ok c'"
proof -
  have ok: "bt_ok (cc_pins c)" "bt_ok (cc_pin_event_cursors c)" using assms(1) by (simp_all add: tables_ok_def)
  have valid: "pin_snapshot_valid snapshot" if "res = Inr ()"
    using step that by (auto simp: replace_pin_snapshot_with_authority_def is_ok_iff pin_snapshot_into_Inr split: if_splits)
  have "revisions_retained c' \<and> pins_retained c' \<and> tables_ok c'" using step
  proof (cases rule: replace_pins_cases)
    case (accepted session server)
    let ?rows = "pins_replaced server r snapshot c" and ?cursors = "pin_cursors_replaced server r snapshot c"
    let ?c = "c\<lparr>cc_pins := ?rows, cc_pin_event_cursors := ?cursors\<rparr>"
    let ?retained = "retained_targets chat_event_supports_pins"
    have covered: "(r, t) \<in> ?retained server c" if "t \<in> set (ps_target_event_ids snapshot)" for t
      using session_retained [OF accepted(2) accepted(4) [OF that]] accepted(3) by simp
    have rows_ok: "bt_ok ?rows" "bt_ok ?cursors"
      using ok by (simp_all add: pins_replaced_def pin_cursors_replaced_def bt_ok_fold_insert bt_ok_retain)
    have entry: "t \<in> ?retained server' c" if some: "pin_snapshot_row server r snapshot (server', t) \<noteq> None" for server' t
    proof -
      obtain e where "e \<in> set (ps_entries snapshot)" "(server, r, ps_target_event_id e) = (server', t)"
        using some by (auto simp: pin_snapshot_row_def dest!: find_SomeD)
      then show ?thesis using covered valid [OF accepted(1)] by (auto simp: pin_snapshot_valid_def)
    qed
    have row: "pin_live c server' t \<or> t \<in> ?retained server' c" if "pin_live ?c server' t" for server' t
    proof (cases "pin_snapshot_row server r snapshot (server', t)")
      case None
      then show ?thesis
        using that by (cases t) (auto simp: pin_live_def pins_replaced_get pin_cursors_replaced_get ok split: if_splits)
    qed (use entry in auto)
    have "pins_retained ?c" using retained_step(2) [OF _ assms(3) row] by simp
    moreover have "tables_ok ?c" "revisions_retained ?c"
      using assms(1,2) rows_ok retained_frame(1) [of ?c c] by (simp_all add: tables_ok_def)
    ultimately have next_ok: "revisions_retained ?c" "pins_retained ?c" "tables_ok ?c" by simp_all
    let ?p = "prune_pin_state_for_server server ?c"
    let ?m = "pin_targets_replaced server r (set (ps_target_event_ids snapshot)) (cc_authoritative_pin_targets ?p)"
    note p = prune_retained(4-6) [OF next_ok(3,1,2), of server]
    have targets: "targets_contain ?m server' t \<Longrightarrow> targets_contain (cc_authoritative_pin_targets ?p) server' t
        \<or> server' = server \<and> t \<in> Pair r ` set (ps_target_event_ids snapshot)" "bt_ok ?m" for server' t
      using p(3) by (auto simp: pin_targets_replaced_def targets_contain_def bt_get_insert bt_ok_insert tables_ok_def
          split: if_splits option.splits)
    have "?retained server' ?p = ?retained server' c" for server' by (simp add: retained_targets_def)
    then have "pin_live ?p server' t \<or> t \<in> ?retained server' ?p"
      if "pin_live (?p\<lparr>cc_authoritative_pin_targets := ?m\<rparr>) server' t" for server' t
      using that targets(1) [of server' t] covered by (auto simp: pin_live_def)
    then have "pins_retained (?p\<lparr>cc_authoritative_pin_targets := ?m\<rparr>)"
      by (intro retained_step(2) [OF _ p(2)]) auto
    moreover have "revisions_retained (?p\<lparr>cc_authoritative_pin_targets := ?m\<rparr>)"
      "tables_ok (?p\<lparr>cc_authoritative_pin_targets := ?m\<rparr>)"
      using p targets(2) retained_frame(1) [of "?p\<lparr>cc_authoritative_pin_targets := ?m\<rparr>" ?p] by (simp_all add: tables_ok_def)
    ultimately show ?thesis using accepted(7) next_ok by (simp add: Let_def)
  qed (use assms in simp)
  then show "revisions_retained c'" "pins_retained c'" "tables_ok c'" by simp_all
qed

lemma update_session_retained:
  assumes "chat_session i c = Some session" "\<And>s. vs_server (f s) = vs_server s"
    and "server' \<noteq> sv_server_id (vs_server session)"
  shows "retained_targets supports server' (c\<lparr>cc_sessions := update_session i f (cc_sessions c)\<rparr>) = retained_targets supports server' c"
proof -
  have "filter (\<lambda>s. sv_server_id (vs_server s) = server') (update_session i f ss)
      = filter (\<lambda>s. sv_server_id (vs_server s) = server') ss"
    if "find (\<lambda>s. vs_session_id s = i) ss = Some session" for ss
    using that by (induction ss) (auto simp: assms(2,3) assms(3) [symmetric] split: if_splits)
  then show ?thesis using assms(1) by (simp add: retained_targets_def chat_session_def)
qed

lemma history_retained:
  assumes "tables_ok c" "revisions_retained c" "pins_retained c"
  shows "revisions_retained (snd (prepend_history_events ly i es c))" "pins_retained (snd (prepend_history_events ly i es c))"
    and "revisions_retained (snd (append_event_bounded ly i e sort_after edge c))"
    and "pins_retained (snd (append_event_bounded ly i e sort_after edge c))"
proof -
  have changed: "revisions_retained (prune_pin_state_for_server server (prune_message_revision_state_for_server server
        (c\<lparr>cc_sessions := update_session i f (cc_sessions c)\<rparr>)))"
      "pins_retained (prune_pin_state_for_server server (prune_message_revision_state_for_server server
        (c\<lparr>cc_sessions := update_session i f (cc_sessions c)\<rparr>)))"
    if "chat_session i c = Some session" "\<And>s. vs_server (f s) = vs_server s" "server = sv_server_id (vs_server session)"
    for f session server
    using that update_session_retained [OF that(1,2)]
    by (intro retained_change [OF assms]; simp)+
  show "revisions_retained (snd (prepend_history_events ly i es c))" "pins_retained (snd (prepend_history_events ly i es c))"
    using assms by (auto simp: prepend_history_events_def Let_def intro!: changed split: option.split)
  show "revisions_retained (snd (append_event_bounded ly i e sort_after edge c))"
    "pins_retained (snd (append_event_bounded ly i e sort_after edge c))"
    using assms by (auto simp: append_event_bounded_def Let_def intro!: changed split: option.split)
qed

lemma push_retained:
  assumes "revisions_retained c" "pins_retained c"
  shows "revisions_retained (snd (push_session ly s c))" "pins_retained (snd (push_session ly s c))"
proof -
  have more: "retained_targets supports server c \<subseteq> retained_targets supports server (c\<lparr>cc_sessions := cc_sessions c @ [s']\<rparr>)"
    for supports server s' by (auto simp: retained_targets_def)
  have "revision_live (snd (push_session ly s c)) = revision_live c" "pin_live (snd (push_session ly s c)) = pin_live c"
    by (simp_all add: push_session_def Let_def revision_live_def pin_live_def fun_eq_iff)
  moreover have "retained_targets supports server c \<subseteq> retained_targets supports server (snd (push_session ly s c))"
    for supports server using more by (simp add: push_session_def Let_def)
  ultimately show "revisions_retained (snd (push_session ly s c))" "pins_retained (snd (push_session ly s c))"
    using assms unfolding revisions_retained_def pins_retained_def by (metis subsetD, metis subsetD)
qed

lemma remove_retained:
  assumes "tables_ok c" "revisions_retained c" "pins_retained c"
  shows "revisions_retained (snd (remove_session i c))" "pins_retained (snd (remove_session i c))"
proof -
  have "revisions_retained (snd (remove_session i c)) \<and> pins_retained (snd (remove_session i c))"
  proof (cases "chat_session i c")
    case (Some removed)
    let ?server = "sv_server_id (vs_server removed)"
    let ?c = "c\<lparr>cc_sessions := remove_first (\<lambda>s. vs_session_id s = i) (cc_sessions c)\<rparr>"
    have "filter (\<lambda>s. sv_server_id (vs_server s) = server') (remove_first (\<lambda>s. vs_session_id s = i) ss)
        = filter (\<lambda>s. sv_server_id (vs_server s) = server') ss"
      if "find (\<lambda>s. vs_session_id s = i) ss = Some removed" "server' \<noteq> ?server" for ss server'
      using that by (induction ss) (auto split: if_splits)
    then have others: "retained_targets supports server' ?c = retained_targets supports server' c"
      if "server' \<noteq> ?server" for supports server'
      using that Some by (simp add: retained_targets_def chat_session_def)
    have forget: "revision_live (forget_server ?server ?c) server' t \<longleftrightarrow> server' \<noteq> ?server \<and> revision_live c server' t"
      "pin_live (forget_server ?server ?c) server' t \<longleftrightarrow> server' \<noteq> ?server \<and> pin_live c server' t" for server' t
      using assms(1)
      by (auto simp: forget_server_def revision_live_def pin_live_def targets_contain_remove tables_ok_def
          bt_get_retain_key case_prod_unfold)
    have forget_sessions: "retained_targets supports server' (forget_server ?server ?c) = retained_targets supports server' ?c"
      for supports server' by (simp add: forget_server_def retained_targets_def)
    have "revisions_retained (forget_server ?server ?c)" "pins_retained (forget_server ?server ?c)"
      using assms(2,3) unfolding revisions_retained_def pins_retained_def forget forget_sessions by (metis others)+
    moreover have "revisions_retained (prune_pin_state_for_server ?server (prune_message_revision_state_for_server ?server ?c))"
      "pins_retained (prune_pin_state_for_server ?server (prune_message_revision_state_for_server ?server ?c))"
      using others by (intro retained_change [OF assms]; simp)+
    moreover have "revisions_retained (d\<lparr>cc_room_policies := ps\<rparr>) = revisions_retained d"
      "pins_retained (d\<lparr>cc_room_policies := ps\<rparr>) = pins_retained d" for d ps
      by (rule retained_frame; simp)+
    ultimately show ?thesis using Some by (simp add: remove_session_def Let_def)
  qed (use assms in \<open>simp add: remove_session_def\<close>)
  then show "revisions_retained (snd (remove_session i c))" "pins_retained (snd (remove_session i c))" by simp_all
qed

lemma status_retained:
  "revisions_retained (enforce_status_bounds c) = revisions_retained c"
  "pins_retained (enforce_status_bounds c) = pins_retained c"
proof -
  have "retained_targets supports server (enforce_status_bounds c) = retained_targets supports server c" for supports server
    by (simp add: retained_targets_def enforce_status_bounds_def filter_map comp_def vs_set_status_def)
  then show "revisions_retained (enforce_status_bounds c) = revisions_retained c"
    "pins_retained (enforce_status_bounds c) = pins_retained c"
    by (simp_all add: revisions_retained_def pins_retained_def revision_live_def pin_live_def enforce_status_bounds_def [of c])
qed

text \<open>The operations on other tables.\<close>

definition tracked :: "ChatClient \<Rightarrow> _" where
  "tracked c = (cc_sessions c, cc_message_revisions c, cc_authoritative_message_revision_targets c,
     cc_pins c, cc_pin_event_cursors c, cc_authoritative_pin_targets c)"

lemma tracked_retained:
  "tracked c' = tracked c \<Longrightarrow> revisions_retained c' = revisions_retained c \<and> pins_retained c' = pins_retained c"
  unfolding tracked_def using retained_frame [of c' c] by simp

lemma tracked_frame:
  "tracked (snd (reserve_session_id c)) = tracked c"
  "tracked (snd (bind_local_user_id i u c)) = tracked c"
  "tracked (snd (replace_room_policies i ps c)) = tracked c"
  "tracked (snd (update_room_policy i r p c)) = tracked c"
  "tracked (clear_room_policies i c) = tracked c"
  "tracked (snd (replace_moderation_audit_page i r page c)) = tracked c"
  "tracked (snd (append_moderation_audit_page i r e page c)) = tracked c"
  "tracked (clear_moderation_audit i c) = tracked c"
  "tracked (clear_moderation_audit_room i r c) = tracked c"
  "tracked (mark_reactions_stale i c) = tracked c"
  "tracked (snd (mark_live_reaction_target_authoritative i r e c)) = tracked c"
  "tracked (snd (apply_reaction_event ly i r re c)) = tracked c"
  "tracked (snd (replace_reaction_snapshot_with_authority ly i r rs authoritative c)) = tracked c"
  "tracked (snd (set_room_mute_except_mentions i r enabled c)) = tracked c"
  by (simp_all add: tracked_def reserve_session_id_def bind_local_user_id_def replace_room_policies_def update_room_policy_def
      clear_room_policies_def replace_moderation_audit_page_def append_moderation_audit_page_def clear_moderation_audit_def
      clear_moderation_audit_room_def mark_reactions_stale_def mark_live_reaction_target_authoritative_def apply_reaction_event_def
      replace_reaction_snapshot_with_authority_def set_room_mute_except_mentions_def prune_reaction_state_for_server_def Let_def
      split: option.split ReactionAction.split)

lemma retained_apply:
  assumes ok: "client_ok ly c" and retained: "revisions_retained c" "pins_retained c"
  shows "revisions_retained (client_apply ly op c) \<and> pins_retained (client_apply ly op c)"
proof -
  note tables = client_ok_tables [OF ok]
  note step = tables retained
  have revisions: "revisions_retained c' \<and> pins_retained c' \<and> tables_ok c'"
    if "replace_message_revision_snapshot_with_authority i r s authoritative c = (res, c')" for i r s authoritative res c'
    using revision_snapshot_retained [OF step that] by simp
  have pins: "revisions_retained c' \<and> pins_retained c' \<and> tables_ok c'"
    if "replace_pin_snapshot_with_authority i r s authoritative c = (res, c')" for i r s authoritative res c'
    using pin_snapshot_retained [OF step that] by simp
  have revision_snapshot: "revisions_retained (snd (replace_message_revision_snapshot i r s c))
      \<and> pins_retained (snd (replace_message_revision_snapshot i r s c))" for i r s
    using revisions stale_retained(1,2) by (fastforce simp: replace_message_revision_snapshot_def split: prod.split sum.split)
  have pin_snapshot: "revisions_retained (snd (replace_pin_snapshot i r s c)) \<and> pins_retained (snd (replace_pin_snapshot i r s c))" for i r s
    using pins stale_retained(3,4) by (fastforce simp: replace_pin_snapshot_def split: prod.split sum.split)
  have restore: "revisions_retained (snd (replace_message_revision_snapshot_with_authority i r s False c))
      \<and> pins_retained (snd (replace_message_revision_snapshot_with_authority i r s False c))"
    "revisions_retained (snd (replace_pin_snapshot_with_authority i r s' False c))
      \<and> pins_retained (snd (replace_pin_snapshot_with_authority i r s' False c))" for i r s s'
    using revisions [OF surjective_pairing] pins [OF surjective_pairing] by blast+
  show ?thesis
    using retained
    by (cases op) (simp_all add: tracked_frame [THEN tracked_retained] stale_retained [OF step] revision_event_retained [OF step]
        pin_event_retained [OF step] history_retained [OF step] push_retained [OF retained] remove_retained [OF step]
        status_retained revision_snapshot pin_snapshot restore)
qed

section \<open>Every state a client can reach\<close>

inductive client_reachable :: "ChatLayout \<Rightarrow> ChatClient \<Rightarrow> bool" for ly where
  client_new: "client_reachable ly chat_client_new"
| client_step: "client_reachable ly c \<Longrightarrow> op_fits ly op \<Longrightarrow> client_reachable ly (client_apply ly op c)"

lemma client_reachable_run: "client_reachable ly c \<Longrightarrow> \<forall>op\<in>set ops. op_fits ly op \<Longrightarrow> client_reachable ly (fold (client_apply ly) ops c)"
  by (induction ops arbitrary: c) (auto intro: client_step)


definition large_layout :: ChatLayout where
  "large_layout = \<lparr>ly_capacity = length, ly_mentions_capacity = length, ly_event_size = 5 * 1024 * 1024,
     ly_room_size = 80, ly_user_size = 80, ly_reaction_size = 64\<rparr>"

definition sample_event :: "EventId \<Rightarrow> ChatEvent" where
  "sample_event n = \<lparr>ev_server_id = ''s'', ev_room_id = 1, ev_event_id = n, ev_actor_user_id = None,
     ev_actor_display_name = None, ev_at_unix = 0, ev_kind = KMessage ''hi''\<rparr>"

definition sample_session :: ChatSessionView where
  "sample_session = \<lparr>vs_session_id = 3,
     vs_server = \<lparr>sv_server_id = ''s'', sv_destination = ''d'', sv_display_name = ''n''\<rparr>,
     vs_rooms = [], vs_active_room = \<lparr>rm_server_id = ''s'', rm_room_id = 1, rm_name = ''r'', rm_topic = None,
       rm_unread = 0, rm_joined = True\<rparr>, vs_users = [], vs_events = [sample_event 7], vs_status = []\<rparr>"

definition reaction_ops :: "ClientOp list" where
  "reaction_ops =
    [OpPushSession sample_session,
     OpReactionSnapshot 3 1 \<lparr>rs_target_event_ids = [7], rs_entries = []\<rparr> True,
     OpPinSnapshot 3 1 \<lparr>ps_target_event_ids = [7], ps_entries = []\<rparr>,
     OpAppendEvent 3 (sample_event 9) False Newest]"

text \<open>A client with the message 7 takes a snapshot, receives the message 9 and an event, and reloads 7.\<close>

definition reloaded :: "(ChatClient \<Rightarrow> ChatClient) \<Rightarrow> (ChatClient \<Rightarrow> 'a \<times> ChatClient) \<Rightarrow> 'a \<times> ChatClient" where
  "reloaded snapshot event =
     (let c = snd (append_event_bounded large_layout 3 (sample_event 9) False Newest
            (snapshot (chat_client_new\<lparr>cc_sessions := [sample_session]\<rparr>)));
          (res, c) = event c in
      (res, snd (prepend_history_events large_layout 3 [sample_event 7] c)))"

definition sample_reaction :: ReactionEvent where
  "sample_reaction = \<lparr>re_reaction_event_id = 11, re_target_event_id = 7, re_actor_user_id = 2, re_token = Heart,
     re_action = Add, re_at_unix = 5\<rparr>"

lemma window_two:
  "enforce_history_window large_layout Newest p [sample_event a] = [sample_event a]"
  "a < b \<Longrightarrow> enforce_history_window large_layout Newest (Some (1, b)) [sample_event a, sample_event b] = [sample_event b]"
  "a < b \<Longrightarrow> enforce_history_window large_layout Oldest None [sample_event a, sample_event b] = [sample_event a]"
  by (simp_all add: enforce_history_window_def retained_history_bytes_def chat_event_retained_bytes_def large_layout_def sample_event_def Let_def
   usize_saturating_add_def CHAT_SESSION_HISTORY_MAX_EVENTS_def CHAT_SESSION_HISTORY_MAX_BYTES_def history_rank_def remove_indices_def upt_rec less_imp_le)

lemma sample_simps [simp]: "ev_room_id (sample_event n) = 1" "ev_event_id (sample_event n) = n" "chat_event_supports_reactions (sample_event n)" "chat_event_supports_pins (sample_event n)"
  by (simp_all add: sample_event_def chat_event_supports_reactions_def chat_event_supports_pins_def)


lemma sample_valid [simp]:
  "re_target_event_id sample_reaction = 7"
  "is_ok (reaction_snapshot_into_frame_body \<lparr>rs_target_event_ids = [7], rs_entries = []\<rparr>)"
  "is_ok (reaction_event_into_frame_body sample_reaction)"
   by (simp_all add: is_ok_iff reaction_snapshot_into_Inr reaction_event_into_Inr sample_reaction_def reaction_snapshot_valid_def
      reaction_event_valid_def i64_neg_def)



end
