(* ===== verification/Rust_Str.thy ===== *)
theory Rust_Str
  imports BTree_Map "HOL-Library.Sublist"
begin

text \<open>
  Rust strings as lists of Unicode scalar values, for the code that works on characters: the Micron
  parser and the addresses of the browser. Lengths are UTF-8 byte lengths, as \<^verbatim>\<open>str::len\<close> counts them,
  and the operations are those of \<^verbatim>\<open>str\<close> the sources use.
\<close>

type_synonym rchar = nat
type_synonym rstr = "rchar list"

text \<open>The text of an ASCII literal, and one of its characters.\<close>

definition chr :: "char \<Rightarrow> rchar" where
  "chr c = of_char c"

definition lit :: "string \<Rightarrow> rstr" where
  "lit s = map chr s"

definition len_utf8 :: "rchar \<Rightarrow> nat" where
  "len_utf8 c = (if c < 0x80 then 1 else if c < 0x800 then 2 else if c < 0x10000 then 3 else 4)"

definition str_len :: "rstr \<Rightarrow> nat" where
  "str_len s = sum_list (map len_utf8 s)"

definition usize_checked_add :: "nat \<Rightarrow> nat \<Rightarrow> nat option" where
  "usize_checked_add a b = (if a + b < 2 ^ 64 then Some (a + b) else None)"

definition is_ascii_digit :: "rchar \<Rightarrow> bool" where
  "is_ascii_digit c \<longleftrightarrow> chr CHR ''0'' \<le> c \<and> c \<le> chr CHR ''9''"

definition is_ascii_hexdigit :: "rchar \<Rightarrow> bool" where
  "is_ascii_hexdigit c \<longleftrightarrow>
     is_ascii_digit c \<or> chr CHR ''a'' \<le> c \<and> c \<le> chr CHR ''f'' \<or> chr CHR ''A'' \<le> c \<and> c \<le> chr CHR ''F''"

definition str_trimmed :: "rstr \<Rightarrow> rstr" where
  "str_trimmed s = trim_both white_space s"

definition strip_prefix :: "rstr \<Rightarrow> rstr \<Rightarrow> rstr option" where
  "strip_prefix p s = (if take (length p) s = p then Some (drop (length p) s) else None)"

definition starts_with :: "rstr \<Rightarrow> rstr \<Rightarrow> bool" where
  "starts_with p s \<longleftrightarrow> take (length p) s = p"

text \<open>\<^verbatim>\<open>split\<close> at every character that satisfies a predicate, and \<^verbatim>\<open>split_once\<close> at the first occurrence of one.\<close>

fun str_split :: "(rchar \<Rightarrow> bool) \<Rightarrow> rstr \<Rightarrow> rstr list" where
  "str_split p [] = [[]]"
| "str_split p (c # cs) =
     (if p c then [] # str_split p cs
      else case str_split p cs of [] \<Rightarrow> [[c]] | piece # pieces \<Rightarrow> (c # piece) # pieces)"

fun split_once :: "rchar \<Rightarrow> rstr \<Rightarrow> (rstr \<times> rstr) option" where
  "split_once x [] = None"
| "split_once x (c # cs) =
     (if c = x then Some ([], cs) else map_option (\<lambda>(a, b). (c # a, b)) (split_once x cs))"

text \<open>\<^verbatim>\<open>find\<close> of a pattern: what precedes its first occurrence, and the text from there on.\<close>

fun split_at_pattern :: "rstr \<Rightarrow> rstr \<Rightarrow> (rstr \<times> rstr) option" where
  "split_at_pattern p [] = (if p = [] then Some ([], []) else None)"
| "split_at_pattern p (c # cs) =
     (if starts_with p (c # cs) then Some ([], c # cs)
      else map_option (\<lambda>(a, b). (c # a, b)) (split_at_pattern p cs))"

text \<open>\<^verbatim>\<open>get(..n)\<close> and \<^verbatim>\<open>get(n..)\<close> at a byte index, which must be a character boundary.\<close>

fun split_at_byte :: "nat \<Rightarrow> rstr \<Rightarrow> (rstr \<times> rstr) option" where
  "split_at_byte n [] = (if n = 0 then Some ([], []) else None)"
| "split_at_byte n (c # cs) =
     (if n = 0 then Some ([], c # cs)
      else if len_utf8 c \<le> n then map_option (\<lambda>(a, b). (c # a, b)) (split_at_byte (n - len_utf8 c) cs)
      else None)"

text \<open>\<^verbatim>\<open>str::lines\<close>: a line ends at a line feed, with a carriage return before it dropped.\<close>

definition strip_cr :: "rstr \<Rightarrow> rstr" where
  "strip_cr s = (if s \<noteq> [] \<and> last s = 13 then butlast s else s)"

function str_lines :: "rstr \<Rightarrow> rstr list" where
  "str_lines s =
     (if s = [] then []
      else case dropWhile (\<lambda>c. c \<noteq> 10) s of
        [] \<Rightarrow> [s]
      | _ # rest \<Rightarrow> strip_cr (takeWhile (\<lambda>c. c \<noteq> 10) s) # str_lines rest)"
  by pat_completeness auto
termination
proof (relation "measure length")
  fix s :: rstr and x21 x22
  assume "dropWhile (\<lambda>c. c \<noteq> 10) s = x21 # x22"
  then have "length (x21 # x22) \<le> length s" using length_dropWhile_le [of "\<lambda>c. c \<noteq> 10" s] by simp
  then show "(x22, s) \<in> measure length" by simp
qed simp

declare str_lines.simps [simp del]

text \<open>\<^verbatim>\<open>usize::from_str\<close>: an optional plus sign and digits that fit.\<close>

definition parse_digits :: "rstr \<Rightarrow> nat" where
  "parse_digits s = foldl (\<lambda>n c. n * 10 + (c - 48)) 0 s"

definition parse_usize :: "rstr \<Rightarrow> nat option" where
  "parse_usize s =
     (let ds = (case s of c # cs \<Rightarrow> if c = chr CHR ''+'' then cs else s | [] \<Rightarrow> []) in
      if ds \<noteq> [] \<and> list_all is_ascii_digit ds \<and> parse_digits ds < 2 ^ 64 then Some (parse_digits ds) else None)"

text \<open>\<^verbatim>\<open>i64::from_str\<close>: an optional sign and digits that fit.\<close>

definition parse_i64 :: "rstr \<Rightarrow> int option" where
  "parse_i64 s =
     (let negative = (s \<noteq> [] \<and> hd s = chr CHR ''-'');
          ds = (if s \<noteq> [] \<and> (negative \<or> hd s = chr CHR ''+'') then tl s else s);
          n = (if negative then - int (parse_digits ds) else int (parse_digits ds)) in
      if ds \<noteq> [] \<and> list_all is_ascii_digit ds \<and> - (2 ^ 63) \<le> n \<and> n < 2 ^ 63 then Some n else None)"

text \<open>\<^verbatim>\<open>as_bytes\<close> of a string, the lower-case hexadecimal digits of bytes, a decimal number and \<^verbatim>\<open>join("\n")\<close>.\<close>

definition encode_char :: "rchar \<Rightarrow> bytes" where
  "encode_char c =
     map word_of_nat
       (if c < 0x80 then [c]
        else if c < 0x800 then [0xC0 + c div 64, 0x80 + c mod 64]
        else if c < 0x10000 then [0xE0 + c div 4096, 0x80 + c div 64 mod 64, 0x80 + c mod 64]
        else [0xF0 + c div 262144, 0x80 + c div 4096 mod 64, 0x80 + c div 64 mod 64, 0x80 + c mod 64])"

definition encode_utf8 :: "rstr \<Rightarrow> bytes" where
  "encode_utf8 s = concat (map encode_char s)"

definition hex_char :: "nat \<Rightarrow> rchar" where
  "hex_char n = (if n < 10 then 48 + n else 87 + n)"

definition lower_hex :: "bytes \<Rightarrow> rstr" where
  "lower_hex bs = concat (map (\<lambda>b. [hex_char (unat b div 16), hex_char (unat b mod 16)]) bs)"

definition show_num :: "nat \<Rightarrow> rstr" where
  "show_num n = lit (show_nat n)"

fun join_lines :: "rstr list \<Rightarrow> rstr" where
  "join_lines [] = []"
| "join_lines [s] = s"
| "join_lines (s # t # ss) = s @ 10 # join_lines (t # ss)"

definition to_ascii_lowercase :: "rstr \<Rightarrow> rstr" where
  "to_ascii_lowercase s = map (\<lambda>c. if chr CHR ''A'' \<le> c \<and> c \<le> chr CHR ''Z'' then c + 32 else c) s"

definition ends_with :: "rstr \<Rightarrow> rstr \<Rightarrow> bool" where
  "ends_with p s \<longleftrightarrow> length p \<le> length s \<and> drop (length s - length p) s = p"

section \<open>Lemmas\<close>

lemma show_num_digits: "c \<in> set (show_num n) \<Longrightarrow> is_ascii_digit c"
proof (induction n rule: show_nat.induct)
  case (1 n)
  have digit: "is_ascii_digit (chr (char_of (48 + m)))" if "m < 10" for m :: nat
    using that by (simp add: chr_def is_ascii_digit_def)
  show ?case
  proof (cases "n < 10")
    case True
    then show ?thesis using 1(2) digit [of n] by (simp add: show_num_def lit_def show_nat.simps [of n])
  next
    case False
    then show ?thesis using 1 digit [of "n mod 10"] by (auto simp: show_num_def lit_def show_nat.simps [of n])
  qed
qed

lemma parse_show_num: "parse_digits (show_num n) = n"
proof (induction n rule: show_nat.induct)
  case (1 n)
  then show ?case by (simp add: show_num_def lit_def show_nat.simps [of n] parse_digits_def chr_def)
qed

lemma show_num_inj: "show_num m = show_num n \<longleftrightarrow> m = n"
  using parse_show_num by metis

lemma str_len_simps [simp]:
  "str_len [] = 0" "str_len (c # s) = len_utf8 c + str_len s" "str_len (s @ t) = str_len s + str_len t"
  by (simp_all add: str_len_def)

lemma len_utf8_pos [simp]: "0 < len_utf8 c"
  by (simp add: len_utf8_def)

lemma str_len_0 [simp]: "str_len s = 0 \<longleftrightarrow> s = []"
  using len_utf8_pos by (cases s) (auto simp: neq0_conv [symmetric] simp del: neq0_conv len_utf8_pos)

lemma length_le_str_len: "length s \<le> str_len s"
proof (induction s)
  case (Cons c s)
  have "1 \<le> len_utf8 c" by (simp add: len_utf8_def)
  then show ?case using Cons by simp
qed simp

lemma split_once_Some: "split_once x s = Some (a, b) \<longleftrightarrow> s = a @ x # b \<and> x \<notin> set a"
proof (induction s arbitrary: a)
  case (Cons c s)
  show ?case by (cases a) (auto simp: Cons.IH)
qed simp

lemma split_once_None: "split_once x s = None \<longleftrightarrow> x \<notin> set s"
  by (induction s) auto

lemma split_at_pattern_Some:
  "split_at_pattern p s = Some (a, b) \<Longrightarrow> s = a @ b \<and> starts_with p b"
  by (induction s arbitrary: a b) (auto simp: starts_with_def split: if_splits)

lemma split_at_byte_Some: "split_at_byte n s = Some (a, b) \<longleftrightarrow> s = a @ b \<and> str_len a = n"
proof (induction n s arbitrary: a rule: split_at_byte.induct)
  case (2 n c cs)
  show ?case
  proof (cases a)
    case Nil
    then show ?thesis by auto
  next
    case (Cons d ds)
    have "d = c \<Longrightarrow> len_utf8 c + str_len ds = n \<longleftrightarrow> len_utf8 c \<le> n \<and> str_len ds = n - len_utf8 c" by auto
    moreover have "n \<noteq> 0" if "len_utf8 c + str_len ds = n" using that len_utf8_pos [of c] by auto
    ultimately show ?thesis using 2 Cons by auto
  qed
qed auto

end
