(* ===== verification/Utf8_Text.thy ===== *)
theory Utf8_Text
  imports Rust_Str
begin

text \<open>
  The two views of a Rust string agree: decoding the bytes of a string of scalar values gives the string, and
  \<open>str_len\<close> is the number of bytes. Lemmas on splitting and on decimal numbers.
\<close>

text \<open>Unicode scalar values: the values of \<^verbatim>\<open>char\<close>.\<close>

definition scalar :: "rchar \<Rightarrow> bool" where
  "scalar c \<longleftrightarrow> c < 0xD800 \<or> 0xE000 \<le> c \<and> c < 0x110000"

lemma length_encode_utf8: "length (encode_utf8 s) = str_len s"
  by (induction s) (auto simp: encode_utf8_def encode_char_def len_utf8_def)

lemma byte_of_nat: "n < 256 \<Longrightarrow> unat (word_of_nat n :: u8) = n"
  by (simp add: unsigned_of_nat take_bit_nat_eq_self)

lemmas utf8_ranges = word_le_nat_alt utf8_cont_def utf8_cont3_def utf8_cont4_def byte_of_nat

lemma word_of_nat_eq_byte: "n < 256 \<Longrightarrow> (word_of_nat n = (numeral k :: u8)) \<longleftrightarrow> n = unat (numeral k :: u8)"
  using byte_of_nat by (metis word_unat_eq_iff)

lemma utf8_chars_three:
  assumes "x < 16" "y \<le> 63" "z \<le> 63" "x = 0 \<Longrightarrow> 32 \<le> y" "x = 13 \<Longrightarrow> y < 32"
  shows "utf8_chars (word_of_nat (0xE0 + x) # word_of_nat (0x80 + y) # word_of_nat (0x80 + z) # bs)
    = map_option ((#) (x * 4096 + y * 64 + z)) (utf8_chars bs)"
  using assms by (cases "x = 0"; cases "x = 13") (simp_all add: utf8_ranges word_of_nat_eq_byte del: of_nat_add)

lemma utf8_chars_four:
  assumes "w < 5" "x \<le> 63" "y \<le> 63" "z \<le> 63" "w = 0 \<Longrightarrow> 16 \<le> x" "w = 4 \<Longrightarrow> x < 16"
  shows "utf8_chars (word_of_nat (0xF0 + w) # word_of_nat (0x80 + x) # word_of_nat (0x80 + y) # word_of_nat (0x80 + z) # bs)
    = map_option ((#) (w * 262144 + x * 4096 + y * 64 + z)) (utf8_chars bs)"
  using assms by (cases "w = 0"; cases "w = 4") (simp_all add: utf8_ranges word_of_nat_eq_byte del: of_nat_add)

lemma utf8_chars_encode_char:
  assumes "scalar c"
  shows "utf8_chars (encode_char c @ bs) = map_option ((#) c) (utf8_chars bs)"
proof -
  have rem: "n mod 64 \<le> 63" for n :: nat using mod_less_divisor [of 64 n] by linarith
  have quot: "c div 64 div 64 = c div 4096" "c div 4096 div 64 = c div 262144" by (simp_all add: div_mult2_eq [symmetric])
  have split64: "c div 64 * 64 + c mod 64 = c" "c div 4096 * 64 + c div 64 mod 64 = c div 64"
    "c div 262144 * 64 + c div 4096 mod 64 = c div 4096"
    using div_mult_mod_eq [of "c div 64" 64] div_mult_mod_eq [of "c div 4096" 64] by (simp_all add: quot)
  then have whole: "c div 4096 * 4096 + c div 64 mod 64 * 64 + c mod 64 = c"
    "c div 262144 * 262144 + c div 4096 mod 64 * 4096 + c div 64 mod 64 * 64 + c mod 64 = c" by linarith+
  consider "c < 0x80" | "0x80 \<le> c" "c < 0x800" | "0x800 \<le> c" "c < 0x10000" | "0x10000 \<le> c" "c < 0x110000"
    using assms unfolding scalar_def by linarith
  then show ?thesis
  proof cases
    case 1
    then show ?thesis by (simp add: encode_char_def utf8_ranges)
  next
    case 2
    then have "2 \<le> c div 64" "c div 64 < 32" by auto
    then show ?thesis using 2 by (simp add: encode_char_def utf8_ranges rem del: of_nat_add)
  next
    case 3
    have "c div 4096 < 16" "c div 4096 = 0 \<Longrightarrow> 32 \<le> c div 64 mod 64" using 3 split64 by auto
    moreover have "c div 4096 = 13 \<Longrightarrow> c div 64 mod 64 < 32"
      using assms split64(1,2) rem [of c] rem [of "c div 64"] unfolding scalar_def by linarith
    ultimately show ?thesis
      using 3 utf8_chars_three [of "c div 4096" "c div 64 mod 64" "c mod 64" bs] unfolding whole(1)
      by (simp add: encode_char_def rem del: of_nat_add)
  next
    case 4
    have "c div 262144 < 5" "c div 262144 = 0 \<Longrightarrow> 16 \<le> c div 4096 mod 64" using 4 split64 by auto
    moreover have "c div 262144 = 4 \<Longrightarrow> c div 4096 mod 64 < 16" using 4(2) split64 rem by linarith
    ultimately show ?thesis
      using 4 utf8_chars_four [of "c div 262144" "c div 4096 mod 64" "c div 64 mod 64" "c mod 64" bs] unfolding whole(2)
      by (simp add: encode_char_def rem del: of_nat_add)
  qed
qed

lemma utf8_chars_encode: "list_all scalar s \<Longrightarrow> utf8_chars (encode_utf8 s) = Some s"
  by (induction s) (simp_all add: encode_utf8_def utf8_chars_encode_char)

lemma encode_utf8_ascii: "list_all (\<lambda>c. c < 0x80) s \<Longrightarrow> encode_utf8 s = map word_of_nat s"
  by (induction s) (simp_all add: encode_utf8_def encode_char_def)

text \<open>Decoding yields scalar values.\<close>

lemma decoded_scalar:
  "b \<le> (0x7F :: u8) \<Longrightarrow> scalar (unat b)"
  "b \<le> 0xDF \<Longrightarrow> utf8_cont c \<Longrightarrow> scalar ((unat b - 0xC0) * 64 + (unat c - 0x80))"
  "b \<le> 0xEF \<Longrightarrow> utf8_cont3 b c \<Longrightarrow> utf8_cont d \<Longrightarrow> scalar ((unat b - 0xE0) * 4096 + (unat c - 0x80) * 64 + (unat d - 0x80))"
  "0xF0 \<le> b \<Longrightarrow> b \<le> 0xF4 \<Longrightarrow> utf8_cont4 b c \<Longrightarrow> utf8_cont d \<Longrightarrow> utf8_cont e \<Longrightarrow>
     scalar ((unat b - 0xF0) * 262144 + (unat c - 0x80) * 4096 + (unat d - 0x80) * 64 + (unat e - 0x80))"
  by (auto simp: scalar_def word_le_nat_alt utf8_cont_def utf8_cont3_def utf8_cont4_def word_unat_eq_iff split: if_splits)

lemma utf8_chars_scalar: "utf8_chars bs = Some s \<Longrightarrow> list_all scalar s"
proof (induction bs arbitrary: s rule: utf8_chars.induct)
  case (2 b bs)
  from 2(5) show ?case
    by (auto split: if_splits list.splits) (use 2(1-4) decoded_scalar in \<open>auto\<close>)
qed simp

section \<open>Splitting, lengths and numbers\<close>

lemma str_split_free: "list_all (\<lambda>c. \<not> p c) a \<Longrightarrow> str_split p a = [a]"
  by (induction a) auto

lemma str_split_at: "list_all (\<lambda>c. \<not> p c) a \<Longrightarrow> p c \<Longrightarrow> str_split p (a @ c # b) = a # str_split p b"
  by (induction a) auto

lemma str_split_joined:
  "list_all (\<lambda>c. \<not> p c) f \<Longrightarrow> list_all (list_all (\<lambda>c. \<not> p c)) fs \<Longrightarrow> p c \<Longrightarrow>
     str_split p (f @ concat (map ((#) c) fs)) = f # fs"
  by (induction fs arbitrary: f) (simp_all add: str_split_free str_split_at)

lemma str_len_ascii: "list_all (\<lambda>c. c < 0x80) s \<Longrightarrow> str_len s = length s"
  by (induction s) (simp_all add: len_utf8_def)

lemma length_show_num: "n < 10 ^ k \<Longrightarrow> 0 < k \<Longrightarrow> length (show_num n) \<le> k"
proof (induction n arbitrary: k rule: show_nat.induct)
  case (1 n)
  show ?case
  proof (cases "n < 10")
    case True
    then show ?thesis using 1(3) by (simp add: show_num_def lit_def show_nat.simps [of n])
  next
    case False
    then obtain j where k: "k = Suc j" "0 < j" using 1(2,3) by (cases k; cases "k - 1") auto
    then have "n div 10 < 10 ^ j" using 1(2) by (simp add: less_mult_imp_div_less mult.commute)
    from 1(1) [OF False this k(2)] show ?thesis using False k by (simp add: show_num_def lit_def show_nat.simps [of n])
  qed
qed

end
