(* ===== verification/Chat_Invitation.thy ===== *)
theory Chat_Invitation
  imports Chat_Model Utf8_Text
begin

text \<open>
  Invitations to a chat server (\<^verbatim>\<open>chat/invitation.rs\<close>): the \<^verbatim>\<open>omenchat://\<close> address with its fields, the
  percent encoding of labels, the evidence about a claimed identity and the owner of the preview that a user
  confirms. Strings are lists of Unicode scalar values; \<open>utf8_chars\<close> is \<^verbatim>\<open>String::from_utf8\<close>.
\<close>

definition OMENCHAT_INVITATION_MAX_BYTES :: nat where "OMENCHAT_INVITATION_MAX_BYTES = 2 * 1024"
definition OMENCHAT_INVITATION_DESTINATION_HEX_BYTES :: nat where "OMENCHAT_INVITATION_DESTINATION_HEX_BYTES = 32"
definition OMENCHAT_INVITATION_IDENTITY_HEX_BYTES :: nat where "OMENCHAT_INVITATION_IDENTITY_HEX_BYTES = 32"
definition OMENCHAT_INVITATION_MAX_FIELDS :: nat where "OMENCHAT_INVITATION_MAX_FIELDS = 4"

datatype OmenChatInvitationKind = LegacyLaunch | Enhanced

record OmenChatInvitation =
  inv_kind :: OmenChatInvitationKind
  inv_server_destination :: rstr
  inv_room_id :: "u32 option"
  inv_display_label :: "rstr option"
  inv_claimed_identity_hash :: "rstr option"

datatype OmenChatInvitationIdentityEvidence = NotProvided | Unverified | VerifiedMatch bool | Conflict

datatype OmenChatInvitationError =
    InvitationTooLarge | InvalidDestination | InvalidQuery | InvalidField | InvalidRoom | InvalidLabel | InvalidIdentity

definition evidence_allows_confirmation :: "OmenChatInvitationIdentityEvidence \<Rightarrow> bool" where
  "evidence_allows_confirmation evidence \<longleftrightarrow> evidence \<noteq> Conflict"

section \<open>Texts\<close>

text \<open>\<^verbatim>\<open>char::is_control\<close>, and the characters that a percent-encoded label keeps.\<close>

definition is_control :: "rchar \<Rightarrow> bool" where
  "is_control c \<longleftrightarrow> c < 0x20 \<or> 0x7F \<le> c \<and> c < 0xA0"

definition is_ascii_alphanumeric :: "rchar \<Rightarrow> bool" where
  "is_ascii_alphanumeric c \<longleftrightarrow>
     is_ascii_digit c \<or> chr CHR ''a'' \<le> c \<and> c \<le> chr CHR ''z'' \<or> chr CHR ''A'' \<le> c \<and> c \<le> chr CHR ''Z''"

definition normalized_hex :: "rstr \<Rightarrow> nat \<Rightarrow> rstr option" where
  "normalized_hex value exact_bytes =
     (if str_len value = exact_bytes \<and> list_all is_ascii_hexdigit value then Some (to_ascii_lowercase value) else None)"

definition validate_label :: "rstr \<Rightarrow> OmenChatInvitationError + unit" where
  "validate_label label =
     (if label = [] \<or> str_len label > CHAT_SERVER_DISPLAY_MAX_BYTES \<or> list_ex is_control label then Inl InvalidLabel else Inr ())"

definition unreserved_byte :: "u8 \<Rightarrow> bool" where
  "unreserved_byte byte \<longleftrightarrow> is_ascii_alphanumeric (unat byte) \<or> unat byte \<in> set (lit ''-._~'')"

definition upper_hex_char :: "u8 \<Rightarrow> rchar" where
  "upper_hex_char n = lit ''0123456789ABCDEF'' ! unat n"

definition percent_encode_byte :: "u8 \<Rightarrow> rstr" where
  "percent_encode_byte byte =
     (if unreserved_byte byte then [unat byte]
      else [chr CHR ''%'', upper_hex_char (drop_bit 4 byte), upper_hex_char (byte AND 0x0F)])"

definition percent_encode_label :: "rstr \<Rightarrow> rstr \<Rightarrow> rstr" where
  "percent_encode_label output label = output @ concat (map percent_encode_byte (encode_utf8 label))"

definition decode_hex :: "u8 \<Rightarrow> u8 option" where
  "decode_hex byte =
     (if 0x30 \<le> byte \<and> byte \<le> 0x39 then Some (byte - 0x30)
      else if 0x61 \<le> byte \<and> byte \<le> 0x66 then Some (byte - 0x61 + 10)
      else if 0x41 \<le> byte \<and> byte \<le> 0x46 then Some (byte - 0x41 + 10)
      else None)"

text \<open>The loop over the bytes of the value; the index of the source is the rest of the bytes.\<close>

fun percent_decode_loop :: "bytes \<Rightarrow> bytes \<Rightarrow> OmenChatInvitationError + bytes" where
  "percent_decode_loop [] decoded = Inr decoded"
| "percent_decode_loop (byte # rest) decoded =
     (if length decoded > CHAT_SERVER_DISPLAY_MAX_BYTES then Inl InvalidLabel
      else if byte = 0x25 then
        (case rest of
           high # low # rest' \<Rightarrow>
             (case (decode_hex high, decode_hex low) of
                (Some high, Some low) \<Rightarrow> percent_decode_loop rest' (decoded @ [push_bit 4 high OR low])
              | _ \<Rightarrow> Inl InvalidLabel)
         | _ \<Rightarrow> Inl InvalidLabel)
      else percent_decode_loop rest (decoded @ [byte]))"

definition percent_decode_label :: "rstr \<Rightarrow> OmenChatInvitationError + rstr" where
  "percent_decode_label value =
     (if value = [] \<or> chr CHR ''+'' \<in> set value then Inl InvalidLabel
      else
        and_then (percent_decode_loop (encode_utf8 value) []) (\<lambda>decoded.
        if length decoded > CHAT_SERVER_DISPLAY_MAX_BYTES then Inl InvalidLabel
        else
          and_then (ok_or InvalidLabel (utf8_chars decoded)) (\<lambda>label.
          and_then (validate_label label) (\<lambda>_. Inr label))))"

section \<open>Addresses\<close>

definition invitation_new :: "rstr \<Rightarrow> OmenChatInvitationError + OmenChatInvitation" where
  "invitation_new server_destination =
     and_then (ok_or InvalidDestination (normalized_hex server_destination OMENCHAT_INVITATION_DESTINATION_HEX_BYTES)) (\<lambda>server_destination.
     Inr \<lparr>inv_kind = Enhanced, inv_server_destination = server_destination, inv_room_id = None, inv_display_label = None,
       inv_claimed_identity_hash = None\<rparr>)"

record InvitationFields =
  if_invite_version :: "nat option"
  if_room_id :: "u32 option"
  if_display_label :: "rstr option"
  if_claimed_identity_hash :: "rstr option"

definition parse_room :: "rstr \<Rightarrow> OmenChatInvitationError + u32" where
  "parse_room value =
     (if value = [] \<or> \<not> list_all is_ascii_digit value then Inl InvalidRoom
      else if parse_digits value < 2 ^ 32 then Inr (word_of_nat (parse_digits value))
      else Inl InvalidRoom)"

definition invitation_field :: "rstr \<Rightarrow> rstr \<Rightarrow> InvitationFields \<Rightarrow> OmenChatInvitationError + InvitationFields" where
  "invitation_field key value acc =
     (if key = lit ''invite'' \<and> if_invite_version acc = None \<and> value = lit ''1'' then Inr (acc\<lparr>if_invite_version := Some 1\<rparr>)
      else if key = lit ''room'' \<and> if_room_id acc = None then
        and_then (parse_room value) (\<lambda>room_id. Inr (acc\<lparr>if_room_id := Some room_id\<rparr>))
      else if key = lit ''label'' \<and> if_display_label acc = None then
        and_then (percent_decode_label value) (\<lambda>label. Inr (acc\<lparr>if_display_label := Some label\<rparr>))
      else if key = lit ''identity'' \<and> if_claimed_identity_hash acc = None then
        and_then (ok_or InvalidIdentity (normalized_hex value OMENCHAT_INVITATION_IDENTITY_HEX_BYTES)) (\<lambda>identity.
        Inr (acc\<lparr>if_claimed_identity_hash := Some identity\<rparr>))
      else Inl InvalidField)"

fun invitation_fields :: "rstr list \<Rightarrow> nat \<Rightarrow> InvitationFields \<Rightarrow> OmenChatInvitationError + InvitationFields" where
  "invitation_fields [] field_count acc = Inr acc"
| "invitation_fields (field # rest) field_count acc =
     (let field_count = usize_saturating_add field_count 1 in
      if field_count > OMENCHAT_INVITATION_MAX_FIELDS \<or> field = [] then Inl InvalidField
      else
        and_then (ok_or InvalidField (split_once (chr CHR ''='') field)) (\<lambda>(key, value).
        and_then (invitation_field key value acc) (invitation_fields rest field_count)))"

definition invitation_parse :: "rstr \<Rightarrow> OmenChatInvitationError + OmenChatInvitation" where
  "invitation_parse value =
     (if str_len value > OMENCHAT_INVITATION_MAX_BYTES then Inl InvitationTooLarge
      else if list_ex is_control value \<or> chr CHR ''#'' \<in> set value then Inl InvalidQuery
      else
        and_then (ok_or InvalidDestination (strip_prefix (lit ''omenchat://'') value)) (\<lambda>body.
        let (destination, query) =
          (case split_once (chr CHR ''?'') body of Some (destination, query) \<Rightarrow> (destination, Some query) | None \<Rightarrow> (body, None)) in
        and_then (ok_or InvalidDestination (normalized_hex destination OMENCHAT_INVITATION_DESTINATION_HEX_BYTES)) (\<lambda>server_destination.
        case query of
          None \<Rightarrow>
            Inr \<lparr>inv_kind = LegacyLaunch, inv_server_destination = server_destination, inv_room_id = None, inv_display_label = None,
              inv_claimed_identity_hash = None\<rparr>
        | Some query \<Rightarrow>
            if query = [] then Inl InvalidQuery
            else
              and_then (invitation_fields (str_split (\<lambda>c. c = chr CHR ''&'') query) 0
                \<lparr>if_invite_version = None, if_room_id = None, if_display_label = None, if_claimed_identity_hash = None\<rparr>) (\<lambda>acc.
              if if_invite_version acc \<noteq> Some 1 then Inl InvalidQuery
              else
                Inr \<lparr>inv_kind = Enhanced, inv_server_destination = server_destination, inv_room_id = if_room_id acc,
                  inv_display_label = if_display_label acc, inv_claimed_identity_hash = if_claimed_identity_hash acc\<rparr>))))"

definition canonical_uri :: "OmenChatInvitation \<Rightarrow> OmenChatInvitationError + rstr" where
  "canonical_uri invite =
     and_then (ok_or InvalidDestination (normalized_hex (inv_server_destination invite) OMENCHAT_INVITATION_DESTINATION_HEX_BYTES)) (\<lambda>destination.
     if inv_kind invite = LegacyLaunch then Inr (lit ''omenchat://'' @ destination)
     else
       let uri = lit ''omenchat://'' @ destination @ lit ''?invite=1'';
           uri = (case inv_room_id invite of Some room_id \<Rightarrow> uri @ lit ''&room='' @ show_num (unat room_id) | None \<Rightarrow> uri) in
       and_then (case inv_display_label invite of
           Some label \<Rightarrow> and_then (validate_label label) (\<lambda>_. Inr (percent_encode_label (uri @ lit ''&label='') label))
         | None \<Rightarrow> Inr uri) (\<lambda>uri.
       and_then (case inv_claimed_identity_hash invite of
           Some identity_hash \<Rightarrow>
             and_then (ok_or InvalidIdentity (normalized_hex identity_hash OMENCHAT_INVITATION_IDENTITY_HEX_BYTES)) (\<lambda>identity_hash.
             Inr (uri @ lit ''&identity='' @ identity_hash))
         | None \<Rightarrow> Inr uri) (\<lambda>uri.
       if str_len uri > OMENCHAT_INVITATION_MAX_BYTES then Inl InvitationTooLarge else Inr uri)))"

section \<open>Evidence and confirmation\<close>

text \<open>The kinds of directory entries, and what an entry says of its destination; the code here reads no other field.\<close>

datatype DirectoryKind = DirectoryNode | DirectoryPeer | DirectoryPropagation | DirectoryOmenChat | DirectoryUnknown

record DirectoryEntry =
  de_destination_hash :: rstr
  de_identity_hash :: "rstr option"
  de_display_name :: rstr
  de_kind :: DirectoryKind
  de_trusted :: bool

definition eq_ignore_ascii_case :: "rstr \<Rightarrow> rstr \<Rightarrow> bool" where
  "eq_ignore_ascii_case a b \<longleftrightarrow> to_ascii_lowercase a = to_ascii_lowercase b"

fun evidence_loop :: "rstr \<Rightarrow> DirectoryEntry list \<Rightarrow> bool \<Rightarrow> bool \<Rightarrow> OmenChatInvitationIdentityEvidence" where
  "evidence_loop claimed [] seen trusted = (if seen then VerifiedMatch trusted else Unverified)"
| "evidence_loop claimed (entry # entries) seen trusted =
     (case de_identity_hash entry of
        None \<Rightarrow> evidence_loop claimed entries seen trusted
      | Some known \<Rightarrow>
          if \<not> eq_ignore_ascii_case known claimed then Conflict
          else evidence_loop claimed entries True (trusted \<or> de_trusted entry))"

definition assess_identity_evidence :: "OmenChatInvitation \<Rightarrow> DirectoryEntry list \<Rightarrow> OmenChatInvitationIdentityEvidence" where
  "assess_identity_evidence invite directory =
     (case inv_claimed_identity_hash invite of
        None \<Rightarrow> NotProvided
      | Some claimed \<Rightarrow>
          evidence_loop claimed
            (filter (\<lambda>entry. de_kind entry = DirectoryOmenChat
               \<and> eq_ignore_ascii_case (de_destination_hash entry) (inv_server_destination invite)) directory) False False)"

record OmenChatInvitationPreview =
  ip_invitation :: OmenChatInvitation
  ip_identity_evidence :: OmenChatInvitationIdentityEvidence

definition preview_new :: "OmenChatInvitation \<Rightarrow> DirectoryEntry list \<Rightarrow> OmenChatInvitationPreview" where
  "preview_new invite directory = \<lparr>ip_invitation = invite, ip_identity_evidence = assess_identity_evidence invite directory\<rparr>"

definition preview_allows_confirmation :: "OmenChatInvitationPreview \<Rightarrow> bool" where
  "preview_allows_confirmation preview = evidence_allows_confirmation (ip_identity_evidence preview)"

record OmenChatInvitationPreviewOwner =
  io_pending :: "OmenChatInvitationPreview option"

definition replace_from_uri ::
  "OmenChatInvitationPreviewOwner \<Rightarrow> rstr \<Rightarrow> DirectoryEntry list \<Rightarrow> (OmenChatInvitationError + unit) \<times> OmenChatInvitationPreviewOwner" where
  "replace_from_uri owner value directory =
     (case invitation_parse value of
        Inl error \<Rightarrow> (Inl error, owner)
      | Inr invite \<Rightarrow> (Inr (), owner\<lparr>io_pending := Some (preview_new invite directory)\<rparr>))"

definition preview_cancel :: "OmenChatInvitationPreviewOwner \<Rightarrow> bool \<times> OmenChatInvitationPreviewOwner" where
  "preview_cancel owner = (io_pending owner \<noteq> None, owner\<lparr>io_pending := None\<rparr>)"

definition take_confirmable :: "OmenChatInvitationPreviewOwner \<Rightarrow> OmenChatInvitation option \<times> OmenChatInvitationPreviewOwner" where
  "take_confirmable owner =
     (case io_pending owner of
        None \<Rightarrow> (None, owner)
      | Some preview \<Rightarrow>
          if \<not> preview_allows_confirmation preview then (None, owner)
          else (Some (ip_invitation preview), owner\<lparr>io_pending := None\<rparr>))"

section \<open>Labels come back\<close>

lemma decode_upper_hex: "unat n < 16 \<Longrightarrow> decode_hex (word_of_nat (upper_hex_char n)) = Some n"
proof -
  assume "unat n < 16"
  then have "unat n \<in> set [0..<16]" by simp
  moreover have "list_all (\<lambda>m. decode_hex (word_of_nat (upper_hex_char (word_of_nat m))) = Some (word_of_nat m)) [0..<16]" by code_simp
  ultimately have "decode_hex (word_of_nat (upper_hex_char (word_of_nat (unat n)))) = Some (word_of_nat (unat n))"
    unfolding list_all_iff by (rule bspec [rotated])
  then show ?thesis by simp
qed

lemma nibbles: "unat (drop_bit 4 (b :: u8)) < 16" "unat (b AND 0x0F) < 16" "push_bit 4 (drop_bit 4 b) OR (b AND 0x0F) = b"
proof -
  show "unat (drop_bit 4 b) < 16"
    using unsigned_less [of b, where ?'a = nat] by (subst unsigned_drop_bit_eq) (simp add: drop_bit_eq_div take_bit_nat_eq_self)
  have mask: "(0x0F :: u8) = mask 4" by (simp add: mask_eq_exp_minus_1)
  show "unat (b AND 0x0F) < 16"
    unfolding mask take_bit_eq_mask [symmetric] by (simp add: unsigned_take_bit_eq take_bit_nat_less_exp [of 4, simplified])
  show "push_bit 4 (drop_bit 4 b) OR (b AND 0x0F) = b"
    unfolding mask by (auto simp: bit_eq_iff bit_simps)
qed

text \<open>The characters of an encoded label, and of a whole address.\<close>

definition uri_char :: "rchar \<Rightarrow> bool" where
  "uri_char c \<longleftrightarrow> is_ascii_alphanumeric c \<or> c \<in> set (lit ''-._~%'')"

lemma uri_char_facts:
  assumes "uri_char c"
  shows "c < 0x80" "\<not> is_control c" "c \<notin> set (lit ''#&?+='')"
  using assms by (auto simp: uri_char_def is_ascii_alphanumeric_def is_ascii_digit_def lit_def chr_def is_control_def)

lemma upper_hex_uri: "unat n < 16 \<Longrightarrow> uri_char (upper_hex_char n)"
proof -
  assume "unat n < 16"
  then have "upper_hex_char n \<in> set (lit ''0123456789ABCDEF'')" unfolding upper_hex_char_def by (intro nth_mem) (simp add: lit_def)
  then show ?thesis by (auto simp: lit_def chr_def uri_char_def is_ascii_alphanumeric_def is_ascii_digit_def)
qed

lemma percent_encode_byte_uri: "c \<in> set (percent_encode_byte b) \<Longrightarrow> uri_char c"
  using upper_hex_uri [OF nibbles(1)] upper_hex_uri [OF nibbles(2)]
  by (auto simp: percent_encode_byte_def unreserved_byte_def uri_char_def lit_def chr_def split: if_splits)

lemma percent_decode_byte:
  assumes "length d \<le> CHAT_SERVER_DISPLAY_MAX_BYTES"
  shows "percent_decode_loop (map word_of_nat (percent_encode_byte b) @ rest) d = percent_decode_loop rest (d @ [b])"
proof (cases "unreserved_byte b")
  case True
  then have "b \<noteq> 0x25" by (auto simp: unreserved_byte_def is_ascii_alphanumeric_def is_ascii_digit_def lit_def chr_def)
  then show ?thesis using True assms by (simp add: percent_encode_byte_def)
next
  case False
  then show ?thesis
    using assms by (simp add: percent_encode_byte_def chr_def decode_upper_hex nibbles)
qed

lemma percent_decode_bytes:
  "length d + length bs \<le> CHAT_SERVER_DISPLAY_MAX_BYTES \<Longrightarrow>
     percent_decode_loop (map word_of_nat (concat (map percent_encode_byte bs))) d = Inr (d @ bs)"
  by (induction bs arbitrary: d) (simp_all add: percent_decode_byte)

definition label_ok :: "rstr \<Rightarrow> bool" where
  "label_ok label \<longleftrightarrow> list_all scalar label \<and> label \<noteq> [] \<and> str_len label \<le> CHAT_SERVER_DISPLAY_MAX_BYTES \<and> \<not> list_ex is_control label"

lemma validate_label_ok: "label_ok label \<longleftrightarrow> list_all scalar label \<and> validate_label label = Inr ()"
  by (auto simp: label_ok_def validate_label_def)

lemma encoded_label_uri: "list_all uri_char (percent_encode_label [] label)"
  using percent_encode_byte_uri by (auto simp: percent_encode_label_def list_all_iff)

lemma label_roundtrip:
  assumes "label_ok label"
  shows "percent_decode_label (percent_encode_label [] label) = Inr label"
proof -
  let ?encoded = "percent_encode_label [] label"
  have ascii: "list_all (\<lambda>c. c < 0x80) ?encoded" "chr CHR ''+'' \<notin> set ?encoded"
    using encoded_label_uri [of label] uri_char_facts by (auto simp: list_all_iff lit_def)
  have "encode_utf8 label \<noteq> []"
    using assms length_encode_utf8 [of label] by (auto simp: label_ok_def)
  moreover have "percent_encode_byte b \<noteq> []" for b by (simp add: percent_encode_byte_def)
  ultimately have "?encoded \<noteq> []" by (auto simp: percent_encode_label_def neq_Nil_conv)
  moreover have "percent_decode_loop (encode_utf8 ?encoded) [] = Inr (encode_utf8 label)"
    using assms percent_decode_bytes [of "[]" "encode_utf8 label"] encode_utf8_ascii [OF ascii(1)]
    by (simp add: percent_encode_label_def label_ok_def length_encode_utf8)
  ultimately show ?thesis
    using assms ascii(2) by (simp add: percent_decode_label_def length_encode_utf8 utf8_chars_encode validate_label_def label_ok_def)
qed

lemma decoded_label_ok: "percent_decode_label value = Inr label \<Longrightarrow> label_ok label"
  using utf8_chars_scalar by (auto simp: percent_decode_label_def validate_label_ok split: if_splits)

section \<open>Addresses come back\<close>

lemma show_num_uri: "list_all uri_char (show_num n)"
  using show_num_digits by (auto simp: list_all_iff uri_char_def is_ascii_alphanumeric_def)

lemma parse_room_roundtrip: "parse_room (show_num (unat (r :: u32))) = Inr r"
proof -
  have "show_num (unat r) \<noteq> []" by (simp add: show_num_def lit_def show_nat.simps [of "unat r"])
  moreover have "list_all is_ascii_digit (show_num (unat r))" using show_num_digits by (auto simp: list_all_iff)
  moreover have "unat r < 2 ^ 32" using unsigned_less [of r, where ?'a = nat] by simp
  ultimately show ?thesis by (simp add: parse_room_def parse_show_num)
qed

definition hex_ok :: "rstr \<Rightarrow> bool" where
  "hex_ok d \<longleftrightarrow> length d = 32 \<and> list_all is_ascii_hexdigit d \<and> to_ascii_lowercase d = d"

lemma hexdigit_uri: "is_ascii_hexdigit c \<Longrightarrow> uri_char c"
  by (auto simp: is_ascii_hexdigit_def uri_char_def is_ascii_alphanumeric_def chr_def)

lemma hexdigit_lower:
  "is_ascii_hexdigit c \<Longrightarrow> is_ascii_hexdigit (if chr CHR ''A'' \<le> c \<and> c \<le> chr CHR ''Z'' then c + 32 else c)"
  by (auto simp: is_ascii_hexdigit_def is_ascii_digit_def chr_def)

lemma hex_ascii: "list_all is_ascii_hexdigit d \<Longrightarrow> str_len d = length d"
  by (rule str_len_ascii) (use hexdigit_uri uri_char_facts(1) in \<open>auto simp: list_all_iff\<close>)

lemma normalized_hex_ok: "hex_ok d \<Longrightarrow> normalized_hex d 32 = Some d"
  by (simp add: normalized_hex_def hex_ok_def hex_ascii)

lemma normalized_hex_Some: "normalized_hex v 32 = Some d \<Longrightarrow> hex_ok d"
proof -
  assume "normalized_hex v 32 = Some d"
  then have v: "str_len v = 32" "list_all is_ascii_hexdigit v" "d = to_ascii_lowercase v"
    by (auto simp: normalized_hex_def split: if_splits)
  have "list_all is_ascii_hexdigit d"
    unfolding v(3) to_ascii_lowercase_def list.pred_map comp_def
    by (rule list.pred_mono_strong [OF v(2)]) (rule hexdigit_lower)
  moreover have "to_ascii_lowercase d = d" by (simp add: v(3) to_ascii_lowercase_def chr_def)
  ultimately show ?thesis using v by (simp add: hex_ok_def hex_ascii to_ascii_lowercase_def)
qed

text \<open>What every parsed invitation is.\<close>

definition invitation_ok :: "OmenChatInvitation \<Rightarrow> bool" where
  "invitation_ok invite \<longleftrightarrow> hex_ok (inv_server_destination invite)
     \<and> pred_option label_ok (inv_display_label invite) \<and> pred_option hex_ok (inv_claimed_identity_hash invite)
     \<and> (inv_kind invite = LegacyLaunch \<longrightarrow>
          inv_room_id invite = None \<and> inv_display_label invite = None \<and> inv_claimed_identity_hash invite = None)"

definition extra_fields :: "OmenChatInvitation \<Rightarrow> rstr list" where
  "extra_fields invite =
     (case inv_room_id invite of Some r \<Rightarrow> [lit ''room='' @ show_num (unat r)] | None \<Rightarrow> [])
     @ (case inv_display_label invite of Some label \<Rightarrow> [lit ''label='' @ percent_encode_label [] label] | None \<Rightarrow> [])
     @ (case inv_claimed_identity_hash invite of Some identity \<Rightarrow> [lit ''identity='' @ identity] | None \<Rightarrow> [])"

definition enhanced_uri :: "OmenChatInvitation \<Rightarrow> rstr" where
  "enhanced_uri invite = lit ''omenchat://'' @ inv_server_destination invite
     @ chr CHR ''?'' # lit ''invite=1'' @ concat (map ((#) (chr CHR ''&'')) (extra_fields invite))"

definition field_char :: "rchar \<Rightarrow> bool" where
  "field_char c \<longleftrightarrow> uri_char c \<or> c = chr CHR ''=''"

definition address_char :: "rchar \<Rightarrow> bool" where
  "address_char c \<longleftrightarrow> field_char c \<or> c \<in> set (lit '':/?&'')"

lemma literal_chars:
  "list_all field_char (lit ''room='')" "list_all field_char (lit ''label='')" "list_all field_char (lit ''identity='')"
  "list_all field_char (lit ''invite=1'')" "list_all address_char (lit ''omenchat://'')" "address_char (chr CHR ''?'')" "address_char (chr CHR ''&'')"
  by code_simp+

lemma uri_fields: "list_all uri_char s \<Longrightarrow> list_all field_char s" "list_all field_char s \<Longrightarrow> list_all address_char s"
  by (auto simp: list_all_iff field_char_def address_char_def)

lemma address_char_facts:
  assumes "address_char c"
  shows "c < 0x80" "\<not> is_control c" "c \<noteq> chr CHR ''#''"
  using assms uri_char_facts [of c] by (auto simp: address_char_def field_char_def lit_def chr_def is_control_def)

lemma field_char_facts: "field_char c \<Longrightarrow> c \<noteq> chr CHR ''&''"
  using uri_char_facts [of c] by (auto simp: field_char_def lit_def chr_def)

lemma hex_ok_uri: "hex_ok d \<Longrightarrow> list_all uri_char d"
  using hexdigit_uri by (auto simp: hex_ok_def list_all_iff)

lemma extra_fields_chars:
  assumes "invitation_ok invite"
  shows "list_all (list_all field_char) (extra_fields invite)"
proof -
  have "list_all field_char identity" if "inv_claimed_identity_hash invite = Some identity" for identity
    using assms that hex_ok_uri uri_fields by (auto simp: invitation_ok_def)
  then show ?thesis
    using literal_chars(1-3) show_num_uri encoded_label_uri uri_fields(1)
    by (simp add: extra_fields_def split: option.split)
qed

lemma length_percent_encode: "length (percent_encode_label [] label) \<le> 3 * str_len label"
proof -
  have byte: "length (percent_encode_byte b) \<le> 3" for b by (simp add: percent_encode_byte_def)
  have "length (concat (map percent_encode_byte bs)) \<le> 3 * length bs" for bs
  proof (induction bs)
    case (Cons b bs)
    then show ?case using byte [of b] by simp
  qed simp
  then show ?thesis using length_encode_utf8 [of label] by (metis append_Nil percent_encode_label_def)
qed

lemma enhanced_uri_chars:
  assumes "invitation_ok invite"
  shows "list_all address_char (enhanced_uri invite)"
proof -
  have "list_all address_char (concat (map ((#) (chr CHR ''&'')) fields))" if "list_all (list_all field_char) fields" for fields
    using that by (induction fields) (simp_all add: literal_chars uri_fields)
  moreover have "list_all address_char (inv_server_destination invite)"
    using assms hex_ok_uri uri_fields by (auto simp: invitation_ok_def)
  ultimately show ?thesis
    using literal_chars uri_fields extra_fields_chars [OF assms] by (simp add: enhanced_uri_def)
qed

lemma enhanced_uri_fits:
  assumes "invitation_ok invite"
  shows "str_len (enhanced_uri invite) \<le> OMENCHAT_INVITATION_MAX_BYTES"
proof -
  have room: "length (show_num (unat (r :: u32))) \<le> 10" for r
    using length_show_num [of "unat r" 10] unsigned_less [of r, where ?'a = nat] by simp
  have label: "length (percent_encode_label [] label) \<le> 768" if "inv_display_label invite = Some label" for label
    using assms that length_percent_encode [of label] by (auto simp: invitation_ok_def label_ok_def CHAT_SERVER_DISPLAY_MAX_BYTES_def)
  have identity: "length identity = 32" if "inv_claimed_identity_hash invite = Some identity" for identity
    using assms that by (auto simp: invitation_ok_def hex_ok_def)
  have "length (concat (map ((#) (chr CHR ''&'')) (extra_fields invite))) \<le> 16 + 775 + 42"
  proof -
    have "length (concat (map ((#) (chr CHR ''&'')) (case inv_room_id invite of Some r \<Rightarrow> [lit ''room='' @ show_num (unat r)] | None \<Rightarrow> []))) \<le> 16"
      using room by (simp add: lit_def split: option.split)
    moreover have "length (concat (map ((#) (chr CHR ''&'')) (case inv_display_label invite of Some label \<Rightarrow> [lit ''label='' @ percent_encode_label [] label] | None \<Rightarrow> []))) \<le> 775"
      using label by (simp add: lit_def split: option.split)
    moreover have "length (concat (map ((#) (chr CHR ''&'')) (case inv_claimed_identity_hash invite of Some identity \<Rightarrow> [lit ''identity='' @ identity] | None \<Rightarrow> []))) \<le> 42"
      using identity by (simp add: lit_def split: option.split)
    ultimately show ?thesis unfolding extra_fields_def map_append concat_append length_append by linarith
  qed
  moreover have "str_len (enhanced_uri invite) = length (enhanced_uri invite)"
    by (rule str_len_ascii) (use enhanced_uri_chars [OF assms] address_char_facts in \<open>auto simp: list_all_iff\<close>)
  ultimately show ?thesis
    using assms by (simp add: enhanced_uri_def OMENCHAT_INVITATION_MAX_BYTES_def lit_def invitation_ok_def hex_ok_def)
qed

lemma canonical_uri_enhanced:
  assumes "invitation_ok invite" "inv_kind invite = Enhanced"
  shows "canonical_uri invite = Inr (enhanced_uri invite)"
proof -
  have label: "validate_label label = Inr ()" if "inv_display_label invite = Some label" for label
    using assms(1) that by (auto simp: invitation_ok_def validate_label_ok)
  have hex: "normalized_hex (inv_server_destination invite) 32 = Some (inv_server_destination invite)"
    "inv_claimed_identity_hash invite = Some identity \<Longrightarrow> normalized_hex identity 32 = Some identity" for identity
    using assms(1) normalized_hex_ok by (auto simp: invitation_ok_def)
  have amp: "lit ''&room='' = chr CHR ''&'' # lit ''room=''" "lit ''&label='' = chr CHR ''&'' # lit ''label=''"
    "lit ''&identity='' = chr CHR ''&'' # lit ''identity=''" "lit ''?invite=1'' = chr CHR ''?'' # lit ''invite=1''"
    by (simp_all add: lit_def)
  have encode: "percent_encode_label out label = out @ percent_encode_label [] label" for out label
    by (simp add: percent_encode_label_def)
  have "(case inv_display_label invite of
           Some label \<Rightarrow> and_then (validate_label label) (\<lambda>_. Inr (percent_encode_label (uri @ lit ''&label='') label))
         | None \<Rightarrow> Inr uri) = Inr (case inv_display_label invite of
           Some label \<Rightarrow> uri @ lit ''&label='' @ percent_encode_label [] label | None \<Rightarrow> uri)" for uri
    using label encode [of "uri @ lit ''&label=''"] by (simp split: option.split)
  then show ?thesis
    using assms(2) hex enhanced_uri_fits [OF assms(1)]
    by (cases "inv_room_id invite"; cases "inv_display_label invite"; cases "inv_claimed_identity_hash invite")
      (simp_all add: canonical_uri_def enhanced_uri_def extra_fields_def Let_def amp
        OMENCHAT_INVITATION_DESTINATION_HEX_BYTES_def OMENCHAT_INVITATION_IDENTITY_HEX_BYTES_def)
qed

text \<open>Reading one field.\<close>

lemma split_field:
  "split_once (chr CHR ''='') (lit ''invite=1'') = Some (lit ''invite'', lit ''1'')"
  "split_once (chr CHR ''='') (lit ''room='' @ value) = Some (lit ''room'', value)"
  "split_once (chr CHR ''='') (lit ''label='' @ value) = Some (lit ''label'', value)"
  "split_once (chr CHR ''='') (lit ''identity='' @ value) = Some (lit ''identity'', value)"
  by (simp_all add: lit_def chr_def)

lemma field_keys:
  "lit ''room'' \<noteq> lit ''invite''" "lit ''label'' \<noteq> lit ''invite''" "lit ''identity'' \<noteq> lit ''invite''"
  "lit ''label'' \<noteq> lit ''room''" "lit ''identity'' \<noteq> lit ''room''" "lit ''identity'' \<noteq> lit ''label''"
  "lit ''invite=1'' \<noteq> []" "lit ''room='' \<noteq> []" "lit ''label='' \<noteq> []" "lit ''identity='' \<noteq> []"
  by code_simp+

lemma read_fields:
  assumes "invitation_ok invite"
  shows "invitation_fields (lit ''invite=1'' # extra_fields invite) 0
      \<lparr>if_invite_version = None, if_room_id = None, if_display_label = None, if_claimed_identity_hash = None\<rparr>
    = Inr \<lparr>if_invite_version = Some 1, if_room_id = inv_room_id invite, if_display_label = inv_display_label invite,
        if_claimed_identity_hash = inv_claimed_identity_hash invite\<rparr>"
proof -
  have label: "percent_decode_label (percent_encode_label [] label) = Inr label" if "inv_display_label invite = Some label" for label
    using assms that label_roundtrip by (auto simp: invitation_ok_def)
  have identity: "normalized_hex identity 32 = Some identity" if "inv_claimed_identity_hash invite = Some identity" for identity
    using assms that normalized_hex_ok by (auto simp: invitation_ok_def)
  show ?thesis
    using label identity
    by (cases "inv_room_id invite"; cases "inv_display_label invite"; cases "inv_claimed_identity_hash invite")
      (simp_all add: extra_fields_def Let_def usize_saturating_add_def OMENCHAT_INVITATION_MAX_FIELDS_def OMENCHAT_INVITATION_IDENTITY_HEX_BYTES_def
        split_field invitation_field_def field_keys parse_room_roundtrip)
qed

lemma parse_plain:
  assumes "hex_ok d"
  shows "invitation_parse (lit ''omenchat://'' @ d) = Inr \<lparr>inv_kind = LegacyLaunch, inv_server_destination = d, inv_room_id = None,
    inv_display_label = None, inv_claimed_identity_hash = None\<rparr>"
proof -
  let ?uri = "lit ''omenchat://'' @ d"
  have chars: "list_all address_char ?uri" "list_all uri_char d"
    using literal_chars(5) hex_ok_uri [OF assms] uri_fields by simp_all
  then have "str_len ?uri = length ?uri" by (intro str_len_ascii) (use address_char_facts in \<open>auto simp: list_all_iff\<close>)
  then have "str_len ?uri \<le> OMENCHAT_INVITATION_MAX_BYTES" using assms by (simp add: hex_ok_def lit_def OMENCHAT_INVITATION_MAX_BYTES_def)
  moreover have "\<not> list_ex is_control ?uri" "chr CHR ''#'' \<notin> set ?uri"
    using chars(1) address_char_facts unfolding list_all_iff list_ex_iff by blast+
  moreover have "split_once (chr CHR ''?'') d = None"
    using chars(2) uri_char_facts(3) by (auto simp: split_once_None list_all_iff lit_def)
  ultimately show ?thesis
    using normalized_hex_ok [OF assms] by (simp add: invitation_parse_def strip_prefix_def OMENCHAT_INVITATION_DESTINATION_HEX_BYTES_def)
qed

lemma parse_enhanced:
  assumes "invitation_ok invite" "inv_kind invite = Enhanced"
  shows "invitation_parse (enhanced_uri invite) = Inr invite"
proof -
  let ?d = "inv_server_destination invite"
  let ?query = "lit ''invite=1'' @ concat (map ((#) (chr CHR ''&'')) (extra_fields invite))"
  have d: "hex_ok ?d" using assms(1) by (simp add: invitation_ok_def)
  have "\<not> list_ex is_control (enhanced_uri invite)" "chr CHR ''#'' \<notin> set (enhanced_uri invite)"
    using enhanced_uri_chars [OF assms(1)] address_char_facts unfolding list_all_iff list_ex_iff by blast+
  moreover have "strip_prefix (lit ''omenchat://'') (enhanced_uri invite) = Some (?d @ chr CHR ''?'' # ?query)"
    by (simp add: strip_prefix_def enhanced_uri_def)
  moreover have "split_once (chr CHR ''?'') (?d @ chr CHR ''?'' # ?query) = Some (?d, ?query)"
    using hex_ok_uri [OF d] uri_char_facts(3) by (auto simp: split_once_Some list_all_iff lit_def)
  moreover have "str_split (\<lambda>c. c = chr CHR ''&'') ?query = lit ''invite=1'' # extra_fields invite"
    by (rule str_split_joined) (use literal_chars(4) extra_fields_chars [OF assms(1)] field_char_facts in \<open>auto simp: list_all_iff\<close>)
  moreover have "?query \<noteq> []" by (simp add: lit_def)
  ultimately show ?thesis
    using enhanced_uri_fits [OF assms(1)] normalized_hex_ok [OF d] read_fields [OF assms(1)] assms(2)
    by (simp add: invitation_parse_def OMENCHAT_INVITATION_DESTINATION_HEX_BYTES_def)
qed

lemma fields_ok:
  assumes "invitation_fields fs n acc = Inr acc'" "pred_option label_ok (if_display_label acc)" "pred_option hex_ok (if_claimed_identity_hash acc)"
  shows "pred_option label_ok (if_display_label acc') \<and> pred_option hex_ok (if_claimed_identity_hash acc')"
  using assms
proof (induction fs n acc rule: invitation_fields.induct)
  case (2 field rest n acc)
  obtain key v acc1 where step: "invitation_field key v acc = Inr acc1"
      "invitation_fields rest (usize_saturating_add n 1) acc1 = Inr acc'" "split_once (chr CHR ''='') field = Some (key, v)"
      "\<not> (usize_saturating_add n 1 > OMENCHAT_INVITATION_MAX_FIELDS \<or> field = [])"
    using 2(2) by (auto simp: Let_def ok_or_eq_Inr split: if_splits)
  have "pred_option label_ok (if_display_label acc1)" "pred_option hex_ok (if_claimed_identity_hash acc1)"
    using step(1) 2(3,4) decoded_label_ok normalized_hex_Some
    by (auto simp: invitation_field_def OMENCHAT_INVITATION_IDENTITY_HEX_BYTES_def ok_or_eq_Inr split: if_splits)
  then show ?case by (rule 2(1) [OF refl step(4,2)])
qed simp

lemma parsed_ok: "invitation_parse uri = Inr invite \<Longrightarrow> invitation_ok invite"
  using fields_ok normalized_hex_Some
  by (auto simp: invitation_parse_def invitation_ok_def ok_or_eq_Inr OMENCHAT_INVITATION_DESTINATION_HEX_BYTES_def
      split: if_splits option.splits prod.splits)

text \<open>
  C17: every invitation that a program can have parsed has a canonical address, within the byte limit, that parses
  to the same invitation; and whatever address parses, the invitation is of that kind, with lower-case
  hexadecimal hashes and a printable label of at most 256 bytes, so its canonical address means the same.
\<close>

theorem invitation_roundtrip:
  "(invitation_ok invite \<longrightarrow> (\<exists>uri. canonical_uri invite = Inr uri \<and> str_len uri \<le> OMENCHAT_INVITATION_MAX_BYTES
      \<and> invitation_parse uri = Inr invite))
   \<and> (invitation_parse any = Inr parsed \<longrightarrow> invitation_ok parsed
      \<and> (\<exists>uri. canonical_uri parsed = Inr uri \<and> invitation_parse uri = Inr parsed))"
proof -
  have round: "\<exists>uri. canonical_uri invite = Inr uri \<and> str_len uri \<le> OMENCHAT_INVITATION_MAX_BYTES \<and> invitation_parse uri = Inr invite"
    if "invitation_ok invite" for invite
  proof (cases "inv_kind invite")
    case Enhanced
    then show ?thesis using canonical_uri_enhanced parse_enhanced enhanced_uri_fits that by blast
  next
    case LegacyLaunch
    have d: "hex_ok (inv_server_destination invite)" using that by (simp add: invitation_ok_def)
    let ?uri = "lit ''omenchat://'' @ inv_server_destination invite"
    have "canonical_uri invite = Inr ?uri"
      using LegacyLaunch normalized_hex_ok [OF d] by (simp add: canonical_uri_def OMENCHAT_INVITATION_DESTINATION_HEX_BYTES_def)
    moreover have "invitation_parse ?uri = Inr invite"
      using parse_plain [OF d] that LegacyLaunch by (cases invite) (simp add: invitation_ok_def)
    ultimately show ?thesis by (auto simp: invitation_parse_def split: if_splits)
  qed
  then show ?thesis using parsed_ok by blast
qed

definition sample_invitation :: OmenChatInvitation where
  "sample_invitation = \<lparr>inv_kind = Enhanced, inv_server_destination = replicate 32 (chr CHR ''a''), inv_room_id = Some 7,
     inv_display_label = Some (lit ''Field Ops / '' @ [0x2603]), inv_claimed_identity_hash = Some (replicate 32 (chr CHR ''0''))\<rparr>"

theorem invitation_roundtrip_witness:
  "\<exists>uri. canonical_uri sample_invitation = Inr uri \<and> str_len uri \<le> OMENCHAT_INVITATION_MAX_BYTES \<and> invitation_parse uri = Inr sample_invitation"
proof -
  have "hex_ok (replicate 32 (chr CHR ''a''))" "hex_ok (replicate 32 (chr CHR ''0''))" by code_simp+
  moreover have "label_ok (lit ''Field Ops / '' @ [0x2603])"
    by (simp add: label_ok_def lit_def chr_def scalar_def len_utf8_def is_control_def CHAT_SERVER_DISPLAY_MAX_BYTES_def)
  ultimately have "invitation_ok sample_invitation" by (simp add: invitation_ok_def sample_invitation_def)
  then show ?thesis using invitation_roundtrip by blast
qed

section \<open>Confirmation\<close>

lemma evidence_loop_conflict:
  "evidence_loop claimed entries seen trusted = Conflict \<longleftrightarrow>
     (\<exists>entry\<in>set entries. \<exists>known. de_identity_hash entry = Some known \<and> \<not> eq_ignore_ascii_case known claimed)"
  by (induction claimed entries seen trusted rule: evidence_loop.induct) (auto split: option.split)

lemma evidence_loop_verified:
  "evidence_loop claimed entries seen trusted = VerifiedMatch t \<Longrightarrow>
     (seen \<or> (\<exists>entry\<in>set entries. de_identity_hash entry \<noteq> None))
     \<and> (t \<longleftrightarrow> trusted \<or> (\<exists>entry\<in>set entries. de_identity_hash entry \<noteq> None \<and> de_trusted entry))"
  by (induction claimed entries seen trusted rule: evidence_loop.induct) (auto split: option.splits if_splits)

text \<open>The entries of the directory for the server of an invitation, with the identity they know.\<close>

definition known_identities :: "OmenChatInvitation \<Rightarrow> DirectoryEntry list \<Rightarrow> rstr set" where
  "known_identities invite directory =
     {known. \<exists>entry\<in>set directory. de_kind entry = DirectoryOmenChat
        \<and> eq_ignore_ascii_case (de_destination_hash entry) (inv_server_destination invite) \<and> de_identity_hash entry = Some known}"

lemma assess_conflict:
  "assess_identity_evidence invite directory = Conflict \<longleftrightarrow>
     (\<exists>claimed known. inv_claimed_identity_hash invite = Some claimed \<and> known \<in> known_identities invite directory
        \<and> \<not> eq_ignore_ascii_case known claimed)"
  by (auto simp: assess_identity_evidence_def evidence_loop_conflict known_identities_def split: option.splits)

text \<open>What a user can do with the preview: open an address, cancel, confirm. The log holds the last address that was opened.\<close>

inductive preview_steps :: "(rstr \<times> DirectoryEntry list) option \<Rightarrow> OmenChatInvitationPreviewOwner \<Rightarrow> bool" where
  start: "preview_steps None \<lparr>io_pending = None\<rparr>"
| opened: "preview_steps log owner \<Longrightarrow> replace_from_uri owner uri directory = (Inr (), owner') \<Longrightarrow> preview_steps (Some (uri, directory)) owner'"
| rejected: "preview_steps log owner \<Longrightarrow> replace_from_uri owner uri directory = (Inl error, owner') \<Longrightarrow> preview_steps log owner'"
| cancelled: "preview_steps log owner \<Longrightarrow> preview_cancel owner = (cancelled, owner') \<Longrightarrow> preview_steps None owner'"
| confirmed: "preview_steps log owner \<Longrightarrow> take_confirmable owner = (Some invite, owner') \<Longrightarrow> preview_steps None owner'"
| refused: "preview_steps log owner \<Longrightarrow> take_confirmable owner = (None, owner') \<Longrightarrow> preview_steps log owner'"

lemma preview_pending:
  "preview_steps log owner \<Longrightarrow> io_pending owner =
     (case log of None \<Rightarrow> None
      | Some (uri, directory) \<Rightarrow> (case invitation_parse uri of Inl _ \<Rightarrow> None | Inr invite \<Rightarrow> Some (preview_new invite directory)))"
  by (induction rule: preview_steps.induct)
    (auto simp: replace_from_uri_def preview_cancel_def take_confirmable_def split: sum.splits option.splits if_splits)

text \<open>
  C18: an invitation is confirmed only as the last address opened says, once, and only when no entry of the
  directory knows the server under another identity than the one the invitation claims; a conflicting
  preview stays and can only be cancelled or replaced, and an address that does not parse changes nothing.
\<close>

theorem invitation_confirmation_safe:
  assumes "preview_steps log owner" "take_confirmable owner = (result, owner')"
  shows "(case result of
      Some invite \<Rightarrow> \<exists>uri directory. log = Some (uri, directory) \<and> invitation_parse uri = Inr invite \<and> io_pending owner' = None
        \<and> (\<forall>claimed. inv_claimed_identity_hash invite = Some claimed \<longrightarrow>
             (\<forall>known\<in>known_identities invite directory. eq_ignore_ascii_case known claimed))
    | None \<Rightarrow> owner' = owner)
    \<and> (invitation_parse bad = Inl error \<longrightarrow> replace_from_uri owner bad dir = (Inl error, owner))"
proof -
  have "evidence_allows_confirmation (assess_identity_evidence invite directory) \<longleftrightarrow>
     (\<forall>claimed. inv_claimed_identity_hash invite = Some claimed \<longrightarrow>
        (\<forall>known\<in>known_identities invite directory. eq_ignore_ascii_case known claimed))" for invite directory
    using assess_conflict [of invite directory] by (auto simp: evidence_allows_confirmation_def)
  then show ?thesis
    using assms(2) preview_pending [OF assms(1)]
    by (auto simp: take_confirmable_def preview_new_def preview_allows_confirmation_def replace_from_uri_def
      split: option.splits sum.splits if_splits prod.splits)
qed

theorem invitation_confirmation_safe_witness:
  "\<exists>owner invite. preview_steps (Some (lit ''omenchat://'' @ replicate 32 (chr CHR ''a''), [])) owner
     \<and> take_confirmable owner = (Some invite, \<lparr>io_pending = None\<rparr>) \<and> invitation_parse (lit ''omenchat://'' @ replicate 32 (chr CHR ''a'')) = Inr invite"
proof -
  let ?uri = "lit ''omenchat://'' @ replicate 32 (chr CHR ''a'')"
  have "hex_ok (replicate 32 (chr CHR ''a''))" by code_simp
  from parse_plain [OF this] obtain invite where parse: "invitation_parse ?uri = Inr invite" "inv_claimed_identity_hash invite = None" by auto
  define owner where "owner = \<lparr>io_pending = Some (preview_new invite [])\<rparr>"
  have steps: "preview_steps (Some (?uri, [])) owner"
    by (rule preview_steps.opened [OF preview_steps.start]) (simp add: replace_from_uri_def parse owner_def)
  have taken: "take_confirmable owner = (Some invite, \<lparr>io_pending = None\<rparr>)"
    by (simp add: take_confirmable_def owner_def preview_allows_confirmation_def evidence_allows_confirmation_def preview_new_def
      assess_identity_evidence_def parse(2))
  from invitation_confirmation_safe [OF steps taken] show ?thesis using steps taken by auto
qed

end
