(* ===== verification/Micron_Parser.thy ===== *)
theory Micron_Parser
  imports Rust_Str
begin

text \<open>
  The Micron parser (\<^verbatim>\<open>micron/parser.rs\<close>): how the browser turns the markup of a page into rows of text
  spans and form controls. Every function of the file is modelled: the inline commands, links and
  controls with their limits, metadata directives, partials, the admission of fragments and the loop
  over the lines. The index of the inline loop is the rest of the characters.
\<close>

definition DEFAULT_FG_DARK :: rstr where "DEFAULT_FG_DARK = lit ''ccc''"
definition DEFAULT_BG :: rstr where "DEFAULT_BG = lit ''default''"
definition MICRON_LINK_RAW_MAX_BYTES :: nat where "MICRON_LINK_RAW_MAX_BYTES = 96 * 1024"
definition MICRON_LINK_LABEL_MAX_BYTES :: nat where "MICRON_LINK_LABEL_MAX_BYTES = 16 * 1024"
definition MICRON_LINK_TARGET_MAX_BYTES :: nat where "MICRON_LINK_TARGET_MAX_BYTES = 8 * 1024"
definition MICRON_LINK_MAX_FIELDS :: nat where "MICRON_LINK_MAX_FIELDS = 128"
definition MICRON_LINK_FIELD_MAX_BYTES :: nat where "MICRON_LINK_FIELD_MAX_BYTES = 4 * 1024"
definition MICRON_LINK_FIELDS_MAX_BYTES :: nat where "MICRON_LINK_FIELDS_MAX_BYTES = 64 * 1024"
definition MICRON_CONTROL_RAW_MAX_BYTES :: nat where "MICRON_CONTROL_RAW_MAX_BYTES = 72 * 1024"
definition MICRON_CONTROL_NAME_MAX_BYTES :: nat where "MICRON_CONTROL_NAME_MAX_BYTES = 256"
definition MICRON_CONTROL_VALUE_MAX_BYTES :: nat where "MICRON_CONTROL_VALUE_MAX_BYTES = 64 * 1024"
definition MICRON_CONTROL_FLAGS_MAX_BYTES :: nat where "MICRON_CONTROL_FLAGS_MAX_BYTES = 32"
definition MICRON_CONTROL_MAX_WIDTH :: nat where "MICRON_CONTROL_MAX_WIDTH = 256"
definition MICRON_CONTROL_MAX_ITEMS :: nat where "MICRON_CONTROL_MAX_ITEMS = 128"
definition MICRON_CONTROL_MAX_OWNED_BYTES :: nat where "MICRON_CONTROL_MAX_OWNED_BYTES = 4 * 1024 * 1024"
definition MICRON_DOCUMENT_MAX_ROWS :: nat where "MICRON_DOCUMENT_MAX_ROWS = 16 * 1024"
definition MICRON_DOCUMENT_MAX_LINE_BYTES :: nat where "MICRON_DOCUMENT_MAX_LINE_BYTES = 256 * 1024"
definition MICRON_METADATA_MAX_ITEMS :: nat where "MICRON_METADATA_MAX_ITEMS = 64"
definition MICRON_METADATA_KEY_MAX_BYTES :: nat where "MICRON_METADATA_KEY_MAX_BYTES = 256"
definition MICRON_METADATA_VALUE_MAX_BYTES :: nat where "MICRON_METADATA_VALUE_MAX_BYTES = 4 * 1024"
definition MICRON_METADATA_MAX_OWNED_BYTES :: nat where "MICRON_METADATA_MAX_OWNED_BYTES = 64 * 1024"
definition MICRON_DOCUMENT_MAX_FRAGMENTS :: nat where "MICRON_DOCUMENT_MAX_FRAGMENTS = 64 * 1024"
definition MICRON_DOCUMENT_SPAN_TEXT_MAX_BYTES :: nat where "MICRON_DOCUMENT_SPAN_TEXT_MAX_BYTES = 4 * 1024 * 1024"
definition MICRON_DOCUMENT_MAX_LINK_ACTIONS :: nat where "MICRON_DOCUMENT_MAX_LINK_ACTIONS = 4 * 1024"
definition MICRON_DOCUMENT_LINK_ACTIONS_MAX_BYTES :: nat where "MICRON_DOCUMENT_LINK_ACTIONS_MAX_BYTES = 4 * 1024 * 1024"
definition MICRON_STYLE_METADATA_VALUE_MAX_BYTES :: nat where "MICRON_STYLE_METADATA_VALUE_MAX_BYTES = 16"
definition MICRON_DOCUMENT_LIMIT_NOTICE :: rstr where
  "MICRON_DOCUMENT_LIMIT_NOTICE = lit ''[OMENbrowser: page content was truncated at a safe rendering limit]''"

section \<open>Documents\<close>

datatype Alignment = AlignLeft | AlignCenter | AlignRight

record TextStyle =
  ts_fg :: "rstr option"
  ts_bg :: "rstr option"
  ts_bold :: bool
  ts_italic :: bool
  ts_underline :: bool
  ts_dim :: bool
  ts_reverse :: bool

definition text_style_default :: TextStyle where
  "text_style_default = \<lparr>ts_fg = Some DEFAULT_FG_DARK, ts_bg = None, ts_bold = False, ts_italic = False,
     ts_underline = False, ts_dim = False, ts_reverse = False\<rparr>"

record LinkAction =
  la_target :: rstr
  la_fields :: "rstr list"

record TextSpan =
  sp_text :: rstr
  sp_style :: TextStyle
  sp_link :: "LinkAction option"

record FieldControl =
  fc_kind :: rstr
  fc_name :: rstr
  fc_value :: rstr
  fc_label :: rstr
  fc_width :: nat
  fc_masked :: bool
  fc_prechecked :: bool
  fc_style :: TextStyle

datatype Fragment = Span TextSpan | Control FieldControl

datatype RowKind = RowBlank | RowText | RowHeading | RowDivider | RowPartial

record RenderRow =
  rr_kind :: RowKind
  rr_depth :: nat
  rr_fragments :: "Fragment list"
  rr_align :: Alignment
  rr_base_style :: TextStyle
  rr_divider :: rchar
  rr_cell_preserving :: bool
  rr_partial :: "(rstr, rstr) btree_map option"
  rr_raw :: rstr

record Document =
  doc_rows :: "RenderRow list"
  doc_metadata :: "(rstr, rstr) btree_map"
  doc_limits_applied :: bool

record ParserState =
  mp_literal :: bool
  mp_depth :: nat
  mp_align :: Alignment
  mp_default_align :: Alignment
  mp_default_fg :: rstr
  mp_default_bg :: "rstr option"
  mp_style :: TextStyle
  mp_control_items :: nat
  mp_control_owned_bytes :: nat
  mp_fragment_items :: nat
  mp_span_text_bytes :: nat
  mp_link_action_items :: nat
  mp_link_action_owned_bytes :: nat
  mp_limits_applied :: bool

definition parser_state_default :: ParserState where
  "parser_state_default = \<lparr>mp_literal = False, mp_depth = 0, mp_align = AlignLeft, mp_default_align = AlignLeft,
     mp_default_fg = DEFAULT_FG_DARK, mp_default_bg = None, mp_style = text_style_default, mp_control_items = 0,
     mp_control_owned_bytes = 0, mp_fragment_items = 0, mp_span_text_bytes = 0, mp_link_action_items = 0,
     mp_link_action_owned_bytes = 0, mp_limits_applied = False\<rparr>"

definition BACKSLASH :: rchar where "BACKSLASH = 0x5C"

definition DIVIDER :: rchar where "DIVIDER = 0x2500"

section \<open>Links and controls\<close>

definition plain_span :: "rstr \<Rightarrow> TextStyle \<Rightarrow> Fragment" where
  "plain_span text style = Span \<lparr>sp_text = text, sp_style = style, sp_link = None\<rparr>"

definition lxmf_char :: "rchar \<Rightarrow> bool" where
  "lxmf_char c \<longleftrightarrow> is_ascii_hexdigit c \<or> c \<in> set (lit ''lxmf@'')"

lemma lxmf_candidate:
  assumes "split_at_pattern (lit ''lxmf@'') s = Some (prior, candidate)"
  shows "length (dropWhile lxmf_char candidate) < length s"
proof -
  have candidate: "s = prior @ candidate" "starts_with (lit ''lxmf@'') candidate"
    using split_at_pattern_Some [OF assms] by auto
  then obtain c cs where c: "candidate = c # cs" "c \<in> set (lit ''lxmf@'')" by (cases candidate) (auto simp: lit_def starts_with_def)
  then have "length (dropWhile lxmf_char candidate) \<le> length cs"
    using length_dropWhile_le [of lxmf_char cs] by (simp add: lxmf_char_def)
  then show ?thesis using candidate c by simp
qed

function autolink_lxmf :: "rstr \<Rightarrow> TextStyle \<Rightarrow> Fragment list" where
  "autolink_lxmf text style =
     (case split_at_pattern (lit ''lxmf@'') text of
        None \<Rightarrow> if text = [] then [] else [plain_span text style]
      | Some (prior, candidate) \<Rightarrow>
          let address = takeWhile lxmf_char candidate in
          (if prior = [] then [] else [plain_span prior style])
          @ [Span \<lparr>sp_text = address, sp_style = style,
               sp_link = (if str_len address \<ge> str_len (lit ''lxmf@'') + 16 \<and> str_len address \<le> MICRON_LINK_TARGET_MAX_BYTES
                 then Some \<lparr>la_target = address, la_fields = []\<rparr> else None)\<rparr>]
          @ autolink_lxmf (dropWhile lxmf_char candidate) style)"
  by pat_completeness auto
termination
  by (relation "measure (\<lambda>(text, _). length text)") (auto dest: lxmf_candidate)

declare autolink_lxmf.simps [simp del]

definition parse_color :: "rstr \<Rightarrow> rstr \<times> nat" where
  "parse_color cs =
     (if length cs \<ge> 7 \<and> cs ! 0 = chr CHR ''T'' \<and> list_all is_ascii_hexdigit (take 6 (drop 1 cs))
      then (take 6 (drop 1 cs), 7)
      else if length cs \<ge> 3 then (take 3 cs, 3)
      else ([], 0))"

text \<open>The loop of \<^verbatim>\<open>collect_bounded_link_fields\<close>, with the fields and bytes collected so far.\<close>

fun collect_link_fields :: "rstr list \<Rightarrow> nat \<Rightarrow> rstr list \<Rightarrow> rstr list option" where
  "collect_link_fields collected total_bytes [] = Some collected"
| "collect_link_fields collected total_bytes (field # input) =
     (if length collected \<ge> MICRON_LINK_MAX_FIELDS \<or> str_len field > MICRON_LINK_FIELD_MAX_BYTES then None
      else
        case usize_checked_add total_bytes (str_len field) of
          None \<Rightarrow> None
        | Some bytes \<Rightarrow>
            if bytes > MICRON_LINK_FIELDS_MAX_BYTES then None
            else collect_link_fields (collected @ [field]) bytes input)"

definition collect_bounded_link_fields :: "rstr list \<Rightarrow> rstr list option" where
  "collect_bounded_link_fields input = collect_link_fields [] 0 input"

definition parse_link :: "rstr \<Rightarrow> TextStyle \<Rightarrow> TextSpan option" where
  "parse_link raw style =
     (if raw = [] \<or> str_len raw > MICRON_LINK_RAW_MAX_BYTES then None
      else
        let parts = str_split (\<lambda>c. c = chr CHR ''`'') raw;
            label = parts ! 0;
            target = (if length parts > 1 then parts ! 1 else label) in
        if str_len label > MICRON_LINK_LABEL_MAX_BYTES \<or> target = [] \<or> str_len target > MICRON_LINK_TARGET_MAX_BYTES
        then None
        else
          map_option (\<lambda>link_fields. \<lparr>sp_text = label, sp_style = style,
              sp_link = Some \<lparr>la_target = target, la_fields = link_fields\<rparr>\<rparr>)
            (if length parts > 2
             then collect_bounded_link_fields (filter (\<lambda>field. field \<noteq> []) (str_split (\<lambda>c. c = chr CHR ''|'') (parts ! 2)))
             else Some []))"

definition parse_shorthand_link :: "rstr \<Rightarrow> TextStyle \<Rightarrow> TextSpan option" where
  "parse_shorthand_link raw style =
     (if raw = [] \<or> str_len raw > MICRON_LINK_RAW_MAX_BYTES then None
      else
        let (target, label) = (case split_once (chr CHR ''|'') raw of None \<Rightarrow> (raw, raw) | Some pair \<Rightarrow> pair) in
        if target = [] \<or> str_len target > MICRON_LINK_TARGET_MAX_BYTES \<or> str_len label > MICRON_LINK_LABEL_MAX_BYTES
        then None
        else Some \<lparr>sp_text = label, sp_style = style, sp_link = Some \<lparr>la_target = target, la_fields = []\<rparr>\<rparr>)"

definition chars_utf8_len :: "rstr \<Rightarrow> nat option" where
  "chars_utf8_len cs =
     foldl (\<lambda>total c. case total of None \<Rightarrow> None | Some n \<Rightarrow> usize_checked_add n (len_utf8 c)) (Some 0) cs"

text \<open>The sum of \<^verbatim>\<open>checked_add\<close> calls that ends \<^verbatim>\<open>parse_control\<close>.\<close>

definition checked_sum :: "nat list \<Rightarrow> nat option" where
  "checked_sum ns =
     foldl (\<lambda>total n. case total of None \<Rightarrow> None | Some m \<Rightarrow> usize_checked_add m n) (Some 0) ns"

text \<open>The kind, whether the value is masked, and the width that the flags of a control ask for.\<close>

definition control_flags :: "rstr \<Rightarrow> (rstr \<times> bool \<times> nat) option" where
  "control_flags raw_flags =
     (let without = (\<lambda>x. filter (\<lambda>c. c \<noteq> chr x) raw_flags);
          (kind, masked, flags) =
            (if chr CHR ''^'' \<in> set raw_flags then (lit ''radio'', False, without CHR ''^'')
             else if chr CHR ''?'' \<in> set raw_flags then (lit ''checkbox'', False, without CHR ''?'')
             else if chr CHR ''!'' \<in> set raw_flags then (lit ''field'', True, without CHR ''!'')
             else (lit ''field'', False, raw_flags)) in
      if flags = [] then Some (kind, masked, 24)
      else
        case parse_usize flags of
          None \<Rightarrow> Some (kind, masked, 24)
        | Some width \<Rightarrow>
            if 1 \<le> width \<and> width \<le> MICRON_CONTROL_MAX_WIDTH then Some (kind, masked, width) else None)"

text \<open>What the descriptor of a control says: kind, mask, width, name, value and whether it is checked.\<close>

definition control_descriptor :: "rstr \<Rightarrow> (rstr \<times> bool \<times> nat \<times> rstr \<times> rstr \<times> bool) option" where
  "control_descriptor descriptor =
     (if chr CHR ''|'' \<in> set descriptor then
        let parts = str_split (\<lambda>c. c = chr CHR ''|'') descriptor;
            part = (\<lambda>i. if i < length parts then Some (parts ! i) else None) in
        if part 4 \<noteq> None \<or> str_len (parts ! 0) > MICRON_CONTROL_FLAGS_MAX_BYTES then None
        else
          map_option (\<lambda>(kind, masked, width).
              (kind, masked, width, case part 1 of None \<Rightarrow> descriptor | Some name \<Rightarrow> name,
               case part 2 of None \<Rightarrow> [] | Some field_value \<Rightarrow> field_value, part 3 = Some (lit ''*'')))
            (control_flags (parts ! 0))
      else Some (lit ''field'', False, 24, descriptor, [], False))"

definition parse_control :: "rstr \<Rightarrow> TextStyle \<Rightarrow> (FieldControl \<times> nat) option" where
  "parse_control raw style =
     (if str_len raw > MICRON_CONTROL_RAW_MAX_BYTES then None
      else
        case split_once (chr CHR ''`'') raw of
          None \<Rightarrow> None
        | Some (descriptor, val) \<Rightarrow>
            (case control_descriptor descriptor of
               None \<Rightarrow> None
             | Some (kind, masked, width, name, field_value, prechecked) \<Rightarrow>
                 if name = [] \<or> str_len name > MICRON_CONTROL_NAME_MAX_BYTES \<or> str_len val > MICRON_CONTROL_VALUE_MAX_BYTES
                    \<or> str_len field_value > MICRON_CONTROL_VALUE_MAX_BYTES
                 then None
                 else
                   let selected_value = (if field_value = [] then val else field_value);
                       label = (if kind \<in> {lit ''checkbox'', lit ''radio''} then Some val else None);
                       len = (\<lambda>s. case s of None \<Rightarrow> 0 | Some t \<Rightarrow> str_len t) in
                   map_option (\<lambda>owned_bytes.
                       (\<lparr>fc_kind = kind, fc_name = name, fc_value = selected_value,
                         fc_label = (case label of None \<Rightarrow> [] | Some l \<Rightarrow> l), fc_width = width, fc_masked = masked,
                         fc_prechecked = prechecked, fc_style = style\<rparr>, owned_bytes))
                     (checked_sum [str_len kind, str_len name, str_len selected_value, len label,
                        len (ts_fg style), len (ts_bg style)])))"

section \<open>Inline commands\<close>

text \<open>The variables of the inline loop.\<close>

record Inline =
  il_fragments :: "Fragment list"
  il_buffer :: rstr
  il_escape :: bool
  il_style :: TextStyle
  il_state :: ParserState

definition flush_text :: "Inline \<Rightarrow> Inline" where
  "flush_text il =
     (if il_buffer il = [] then il
      else il\<lparr>il_fragments := il_fragments il @ autolink_lxmf (il_buffer il) (il_style il), il_buffer := []\<rparr>)"

definition push_text :: "rstr \<Rightarrow> Inline \<Rightarrow> Inline" where
  "push_text s il = il\<lparr>il_buffer := il_buffer il @ s\<rparr>"

definition push_fragment :: "Fragment \<Rightarrow> Inline \<Rightarrow> Inline" where
  "push_fragment f il = il\<lparr>il_fragments := il_fragments il @ [f]\<rparr>"

text \<open>A style change of the line that the state of the document takes over.\<close>

definition set_fg :: "rstr option \<Rightarrow> Inline \<Rightarrow> Inline" where
  "set_fg fg il = il\<lparr>il_style := (il_style il)\<lparr>ts_fg := fg\<rparr>,
     il_state := (il_state il)\<lparr>mp_style := (mp_style (il_state il))\<lparr>ts_fg := fg\<rparr>\<rparr>\<rparr>"

definition set_bg :: "rstr option \<Rightarrow> Inline \<Rightarrow> Inline" where
  "set_bg bg il = il\<lparr>il_style := (il_style il)\<lparr>ts_bg := bg\<rparr>,
     il_state := (il_state il)\<lparr>mp_style := (mp_style (il_state il))\<lparr>ts_bg := bg\<rparr>\<rparr>\<rparr>"

definition toggle_underline :: "Inline \<Rightarrow> Inline" where
  "toggle_underline il = (let on = (\<not> ts_underline (il_style il)) in
     il\<lparr>il_style := (il_style il)\<lparr>ts_underline := on\<rparr>,
       il_state := (il_state il)\<lparr>mp_style := (mp_style (il_state il))\<lparr>ts_underline := on\<rparr>\<rparr>\<rparr>)"

definition toggle_bold :: "Inline \<Rightarrow> Inline" where
  "toggle_bold il = (let on = (\<not> ts_bold (il_style il)) in
     il\<lparr>il_style := (il_style il)\<lparr>ts_bold := on\<rparr>,
       il_state := (il_state il)\<lparr>mp_style := (mp_style (il_state il))\<lparr>ts_bold := on\<rparr>\<rparr>\<rparr>)"

definition toggle_italic :: "Inline \<Rightarrow> Inline" where
  "toggle_italic il = (let on = (\<not> ts_italic (il_style il)) in
     il\<lparr>il_style := (il_style il)\<lparr>ts_italic := on\<rparr>,
       il_state := (il_state il)\<lparr>mp_style := (mp_style (il_state il))\<lparr>ts_italic := on\<rparr>\<rparr>\<rparr>)"

definition reset_style :: "Inline \<Rightarrow> Inline" where
  "reset_style il =
     (let st = il_state il;
          style = text_style_default\<lparr>ts_fg := Some (mp_default_fg st), ts_bg := mp_default_bg st\<rparr> in
      il\<lparr>il_style := style, il_state := st\<lparr>mp_style := style, mp_align := mp_default_align st\<rparr>\<rparr>)"

definition set_align :: "Alignment \<Rightarrow> Inline \<Rightarrow> Inline" where
  "set_align align il = il\<lparr>il_state := (il_state il)\<lparr>mp_align := align\<rparr>\<rparr>"

definition raw_fits :: "nat \<Rightarrow> rstr \<Rightarrow> bool" where
  "raw_fits limit raw \<longleftrightarrow> (case chars_utf8_len raw of None \<Rightarrow> False | Some bytes \<Rightarrow> bytes \<le> limit)"

definition push_link :: "rstr \<Rightarrow> (rstr \<Rightarrow> TextStyle \<Rightarrow> TextSpan option) \<Rightarrow> rstr \<Rightarrow> rstr \<Rightarrow> Inline \<Rightarrow> Inline" where
  "push_link raw parse opening closing il =
     push_fragment
       (if raw_fits MICRON_LINK_RAW_MAX_BYTES raw then
          case parse raw (il_style il) of
            Some span \<Rightarrow> Span span
          | None \<Rightarrow> plain_span (opening @ raw @ closing) (il_style il)
        else plain_span (opening @ raw @ closing) (il_style il)) il"

definition push_control :: "rstr \<Rightarrow> Inline \<Rightarrow> Inline" where
  "push_control raw il =
     (let literal = plain_span (lit ''`<'' @ raw @ lit ''>'') (il_style il);
          st = il_state il in
      if \<not> raw_fits MICRON_CONTROL_RAW_MAX_BYTES raw then push_fragment literal il
      else
        case (if mp_control_items st < MICRON_CONTROL_MAX_ITEMS then parse_control raw (il_style il) else None) of
          None \<Rightarrow> push_fragment literal il
        | Some (control, owned_bytes) \<Rightarrow>
            (case usize_checked_add (mp_control_owned_bytes st) owned_bytes of
               None \<Rightarrow> push_fragment literal il
             | Some bytes \<Rightarrow>
                 if bytes \<le> MICRON_CONTROL_MAX_OWNED_BYTES then
                   push_fragment (Control control)
                     (il\<lparr>il_state := st\<lparr>mp_control_items := mp_control_items st + 1, mp_control_owned_bytes := bytes\<rparr>\<rparr>)
                 else push_fragment literal il))"

text \<open>One command: the characters after the back quote, and what is left of them.\<close>

definition inline_command :: "rchar \<Rightarrow> rstr \<Rightarrow> Inline \<Rightarrow> rstr \<times> Inline" where
  "inline_command k ks il =
     (if k = chr CHR '' '' \<or> k = 9 then (ks, push_text [k] il)
      else if k = chr CHR ''_'' then (ks, toggle_underline il)
      else if k = chr CHR ''!'' then (ks, toggle_bold il)
      else if k = chr CHR ''*'' then (ks, toggle_italic il)
      else if k = chr CHR ''`'' then (dropWhile (\<lambda>c. c = chr CHR ''`'') ks, reset_style il)
      else if k = chr CHR ''='' then
        (case ks of [] \<Rightarrow> ([], il) | next_char # rest \<Rightarrow> (rest, push_text [next_char] il))
      else if k = chr CHR ''F'' \<or> k = chr CHR ''B'' then
        (let (color, consumed) = parse_color ks in
         if consumed = 0 then (ks, push_text [chr CHR ''`'', k] il)
         else (drop consumed ks,
           if k = chr CHR ''F'' then set_fg (Some color) il
           else set_bg (if color = DEFAULT_BG then None else Some color) il))
      else if k = chr CHR ''f'' then (ks, set_fg (Some (mp_default_fg (il_state il))) il)
      else if k = chr CHR ''b'' then (ks, set_bg (mp_default_bg (il_state il)) il)
      else if k = chr CHR ''g'' then
        (case ks of a # b # rest \<Rightarrow> (rest, set_fg (Some [chr CHR ''g'', a, b]) il) | _ \<Rightarrow> (ks, il))
      else if k = chr CHR ''a'' \<and> ks \<noteq> [] \<and> hd ks = chr CHR ''='' then
        (case split_at_pattern (lit ''`a'') (tl ks) of
           Some (raw, found) \<Rightarrow> (drop 2 found, push_link raw parse_shorthand_link (lit ''`a='') (lit ''`a'') il)
         | None \<Rightarrow> (ks, push_text (lit ''`a'') il))
      else if k = chr CHR ''c'' then (ks, set_align AlignCenter il)
      else if k = chr CHR ''l'' then (ks, set_align AlignLeft il)
      else if k = chr CHR ''r'' then (ks, set_align AlignRight il)
      else if k = chr CHR ''a'' then (ks, set_align (mp_default_align (il_state il)) il)
      else if k = chr CHR ''['' then
        (case split_once (chr CHR '']'') ks of
           Some (raw, rest) \<Rightarrow> (rest, push_link raw parse_link (lit ''`['') (lit '']'') il)
         | None \<Rightarrow> (ks, push_text (lit ''`['') il))
      else if k = chr CHR ''<'' then
        (case split_once (chr CHR ''>'') ks of
           Some (raw, rest) \<Rightarrow> (rest, push_control raw il)
         | None \<Rightarrow> (ks, push_text (lit ''`<'') il))
      else (ks, il))"

text \<open>What a command can do: nothing, write text, change the style, push a link or push a control.\<close>

definition restyles :: "(Inline \<Rightarrow> Inline) \<Rightarrow> bool" where
  "restyles f \<longleftrightarrow> (\<forall>il. il_fragments (f il) = il_fragments il \<and> il_buffer (f il) = il_buffer il
     \<and> il_escape (f il) = il_escape il \<and> (\<forall>style align.
       (il_state (f il))\<lparr>mp_style := style, mp_align := align\<rparr> = (il_state il)\<lparr>mp_style := style, mp_align := align\<rparr>))"

lemma restyles_commands:
  "restyles (set_fg fg)" "restyles (set_bg bg)" "restyles toggle_underline" "restyles toggle_bold"
  "restyles toggle_italic" "restyles reset_style" "restyles (set_align align)"
  by (simp_all add: restyles_def set_fg_def set_bg_def toggle_underline_def toggle_bold_def toggle_italic_def
      reset_style_def set_align_def Let_def)

lemma if_both: "P x \<Longrightarrow> P y \<Longrightarrow> P (if b then x else y)"
  by simp

lemma inline_command_cases:
  fixes Q :: "rstr \<times> Inline \<Rightarrow> bool"
  assumes keep: "\<And>rest. suffix rest ks \<Longrightarrow> Q (rest, il)"
    and written: "\<And>rest s. suffix rest ks \<Longrightarrow> Q (rest, push_text s il)"
    and style: "\<And>rest f. suffix rest ks \<Longrightarrow> restyles f \<Longrightarrow> Q (rest, f il)"
    and link: "\<And>rest raw parse opening closing. suffix rest ks \<Longrightarrow> parse \<in> {parse_link, parse_shorthand_link} \<Longrightarrow>
      Q (rest, push_link raw parse opening closing il)"
    and control: "\<And>rest raw. suffix rest ks \<Longrightarrow> Q (rest, push_control raw il)"
  shows "Q (inline_command k ks il)"
proof -
  have once: "suffix rest ks" if "split_once x ks = Some (raw, rest)" for x raw rest
    using that by (auto simp: split_once_Some suffix_def intro: exI [of _ "raw @ [x]"])
  have pattern: "suffix (drop 2 found) ks" if "split_at_pattern p (tl ks) = Some (raw, found)" for p raw found
    using split_at_pattern_Some [OF that] suffix_tl [of ks] suffix_drop [of 2 found] suffixI [of "tl ks" raw found]
    by (meson suffix_order.trans)
  have one: "Q (case ks of [] \<Rightarrow> ([], il) | next_char # rest \<Rightarrow> (rest, push_text [next_char] il))"
    by (cases ks) (auto intro!: keep written simp: suffix_def)
  have two: "Q (case ks of a # b # rest \<Rightarrow> (rest, set_fg (Some [chr CHR ''g'', a, b]) il) | _ \<Rightarrow> (ks, il))"
    using keep [of ks] style [OF _ restyles_commands(1)] by (auto simp: suffix_def split: list.split)
  note styles = restyles_commands [THEN style [rotated]]
  show ?thesis
    unfolding inline_command_def Let_def
    by (intro if_both [of Q]; (rule one two | auto intro: keep written link control styles suffix_order.refl
        suffix_dropWhile suffix_drop once pattern split: option.split prod.split))
qed

lemma inline_command_rest: "length (fst (inline_command k ks il)) \<le> length ks"
  by (rule inline_command_cases [where Q = "\<lambda>p. length (fst p) \<le> length ks"]) (simp_all add: suffix_length_le)

function inline_loop :: "rstr \<Rightarrow> Inline \<Rightarrow> Inline" where
  "inline_loop [] il = il"
| "inline_loop (c # cs) il =
     (if c = BACKSLASH then
        inline_loop cs (if il_escape il then push_text [c] (il\<lparr>il_escape := False\<rparr>) else il\<lparr>il_escape := True\<rparr>)
      else if c \<noteq> chr CHR ''`'' \<or> il_escape il then inline_loop cs (push_text [c] (il\<lparr>il_escape := False\<rparr>))
      else
        case cs of
          [] \<Rightarrow> flush_text il
        | k # ks \<Rightarrow>
            (case inline_command k ks (flush_text il) of (rest, il) \<Rightarrow> inline_loop rest il))"
  by pat_completeness auto
termination
  by (relation "measure (\<lambda>p. length (fst p))") (auto intro: le_less_trans [OF inline_command_rest])

definition parse_inline_and_controls_with_style ::
    "rstr \<Rightarrow> ParserState \<Rightarrow> TextStyle \<Rightarrow> bool \<Rightarrow> Fragment list \<times> ParserState" where
  "parse_inline_and_controls_with_style line state current_style pre_escape =
     (let il = flush_text (inline_loop line
            \<lparr>il_fragments = [], il_buffer = [], il_escape = pre_escape, il_style = current_style, il_state = state\<rparr>) in
      (il_fragments il, (il_state il)\<lparr>mp_style := il_style il\<rparr>))"

definition parse_inline_and_controls :: "rstr \<Rightarrow> ParserState \<Rightarrow> bool \<Rightarrow> Fragment list \<times> ParserState" where
  "parse_inline_and_controls line state pre_escape =
     parse_inline_and_controls_with_style line state (mp_style state) pre_escape"

section \<open>Lines\<close>

definition blank_row :: "ParserState \<Rightarrow> rstr \<Rightarrow> RenderRow" where
  "blank_row state raw = \<lparr>rr_kind = RowBlank, rr_depth = mp_depth state, rr_fragments = [], rr_align = mp_align state,
     rr_base_style = mp_style state, rr_divider = DIVIDER, rr_cell_preserving = True, rr_partial = None, rr_raw = raw\<rparr>"

definition apply_metadata_directive ::
    "rstr \<Rightarrow> rstr \<Rightarrow> ParserState \<Rightarrow> (rstr, rstr) btree_map \<Rightarrow> bool \<times> ParserState \<times> (rstr, rstr) btree_map" where
  "apply_metadata_directive raw_key raw_value state metadata =
     (let key = str_trimmed raw_key;
          val = str_trimmed raw_value in
      if key = [] \<or> str_len key > MICRON_METADATA_KEY_MAX_BYTES \<or> str_len val > MICRON_METADATA_VALUE_MAX_BYTES
         \<or> key \<in> {lit ''fg'', lit ''bg''} \<and> str_len val > MICRON_STYLE_METADATA_VALUE_MAX_BYTES
         \<or> bt_get metadata key = None \<and> length metadata \<ge> MICRON_METADATA_MAX_ITEMS
      then (False, state, metadata)
      else
        let retained_bytes = foldl (\<lambda>bytes (k, v). usize_saturating_add bytes (usize_saturating_add (str_len k) (str_len v))) 0
              (filter (\<lambda>(k, _). k \<noteq> key) metadata) in
        case Option.bind (usize_checked_add retained_bytes (str_len key)) (\<lambda>bytes. usize_checked_add bytes (str_len val)) of
          None \<Rightarrow> (False, state, metadata)
        | Some bytes \<Rightarrow>
            if bytes > MICRON_METADATA_MAX_OWNED_BYTES then (False, state, metadata)
            else
              let align = (if val = lit ''1'' then AlignCenter else AlignLeft) in
              (True,
               if key = lit ''fg'' then state\<lparr>mp_default_fg := val, mp_style := (mp_style state)\<lparr>ts_fg := Some val\<rparr>\<rparr>
               else if key = lit ''bg'' then
                 state\<lparr>mp_default_bg := Some val, mp_style := (mp_style state)\<lparr>ts_bg := Some val\<rparr>\<rparr>
               else if key = lit ''c'' then state\<lparr>mp_align := align, mp_default_align := align\<rparr>
               else state,
               bt_insert key val metadata))"

definition bare_metadata_directive :: "rstr \<Rightarrow> (rstr \<times> rstr) option" where
  "bare_metadata_directive line =
     (case split_once (chr CHR ''='') line of
        None \<Rightarrow> None
      | Some (raw_key, raw_value) \<Rightarrow>
          let key = str_trimmed raw_key;
              val = str_trimmed raw_value in
          if val \<noteq> [] \<and> key \<in> {lit ''fg'', lit ''bg'', lit ''c''} then Some (key, val) else None)"

definition is_legacy_color_code :: "rstr \<Rightarrow> bool" where
  "is_legacy_color_code s \<longleftrightarrow>
     str_len s = 3 \<and> list_all is_ascii_hexdigit s
     \<and> (list_ex is_ascii_digit s \<or> s \<noteq> [] \<and> list_all (\<lambda>c. c = hd s) s)"

definition bare_color_directive :: "rstr \<Rightarrow> rstr option" where
  "bare_color_directive line =
     (let candidate = str_trimmed line in
      if str_len candidate = 3 \<and> is_legacy_color_code candidate then Some candidate else None)"

definition color_prefixed_line :: "rstr \<Rightarrow> (rstr \<times> rstr) option" where
  "color_prefixed_line line =
     (case split_at_byte 3 line of
        None \<Rightarrow> None
      | Some (color, rest) \<Rightarrow>
          if \<not> is_legacy_color_code color then None
          else if rest = [] then Some (color, rest)
          else if hd rest = chr CHR ''='' then None
          else Some (color, rest))"

definition parse_partial :: "rstr \<Rightarrow> ParserState \<Rightarrow> rstr \<Rightarrow> RenderRow" where
  "parse_partial raw state original =
     (let descriptor = rev (dropWhile (\<lambda>c. c = chr CHR ''}'') (rev raw));
          target = (case find (\<lambda>part. part \<noteq> []) (str_split (\<lambda>c. c \<in> set (lit '' |;'')) descriptor) of
             None \<Rightarrow> lit ''invalid'' | Some part \<Rightarrow> part) in
      \<lparr>rr_kind = RowPartial, rr_depth = mp_depth state, rr_fragments = [], rr_align = mp_align state,
       rr_base_style = mp_style state, rr_divider = DIVIDER, rr_cell_preserving = True,
       rr_partial = Some (bt_insert (lit ''url'') target (bt_insert (lit ''raw'') descriptor [])), rr_raw = original\<rparr>)"

definition block_char :: "rchar \<Rightarrow> bool" where
  "block_char c \<longleftrightarrow> c \<in> {0x2580, 0x2584, 0x2588, 0x258C, 0x2590, 0x2591, 0x2592, 0x2593}"

definition heading_style :: "nat \<Rightarrow> TextStyle \<Rightarrow> TextStyle" where
  "heading_style depth style =
     (if depth = 1 then style\<lparr>ts_fg := Some (lit ''222''), ts_bg := Some (lit ''bbb'')\<rparr>
      else if depth = 2 then style\<lparr>ts_fg := Some (lit ''111''), ts_bg := Some (lit ''999'')\<rparr>
      else style\<lparr>ts_fg := Some (lit ''000''), ts_bg := Some (lit ''777'')\<rparr>)"

text \<open>What follows the removal of the escape mark and of a colour prefix, except the reset of the depth.\<close>

definition parse_content :: "rstr \<Rightarrow> rstr \<Rightarrow> bool \<Rightarrow> ParserState \<Rightarrow> RenderRow option \<times> ParserState" where
  "parse_content line logical pre_escape state =
     (if starts_with (lit ''>'') logical then
        let depth = length (takeWhile (\<lambda>c. c = chr CHR ''>'') logical);
            state = state\<lparr>mp_depth := depth\<rparr>;
            heading_text = dropWhile (\<lambda>c. c = chr CHR ''>'') logical;
            style = heading_style depth (mp_style state);
            (fragments, state) = parse_inline_and_controls_with_style heading_text state style False in
        (Some \<lparr>rr_kind = RowHeading, rr_depth = depth, rr_fragments = fragments, rr_align = mp_align state,
          rr_base_style = style, rr_divider = DIVIDER, rr_cell_preserving = True, rr_partial = None, rr_raw = line\<rparr>, state)
      else if starts_with (lit ''-'') logical then
        (Some \<lparr>rr_kind = RowDivider, rr_depth = mp_depth state, rr_fragments = [], rr_align = mp_align state,
          rr_base_style = mp_style state, rr_divider = (if length logical = 2 then logical ! 1 else DIVIDER),
          rr_cell_preserving = True, rr_partial = None, rr_raw = line\<rparr>, state)
      else
        let (fragments, state) = parse_inline_and_controls logical state pre_escape in
        if fragments = [] then (None, state)
        else
          (Some \<lparr>rr_kind = RowText, rr_depth = mp_depth state, rr_fragments = fragments, rr_align = mp_align state,
            rr_base_style = mp_style state, rr_divider = DIVIDER,
            rr_cell_preserving = list_ex (\<lambda>f. case f of Span span \<Rightarrow> list_ex block_char (sp_text span) | Control _ \<Rightarrow> False) fragments,
            rr_partial = None, rr_raw = line\<rparr>, state))"

lemma color_prefixed_rest: "color_prefixed_line s = Some (color, rest) \<Longrightarrow> length rest \<le> length s"
  by (auto simp: color_prefixed_line_def split_at_byte_Some split: option.splits if_splits)

function parse_line :: "rstr \<Rightarrow> ParserState \<Rightarrow> RenderRow option \<times> ParserState" where
  "parse_line line state =
     (if line = lit ''`='' then (None, state\<lparr>mp_literal := \<not> mp_literal state\<rparr>)
      else if mp_literal state then
        (Some \<lparr>rr_kind = RowText, rr_depth = mp_depth state,
          rr_fragments = [plain_span (if line = BACKSLASH # lit ''`='' then lit ''`='' else line) (mp_style state)],
          rr_align = mp_align state, rr_base_style = mp_style state, rr_divider = DIVIDER, rr_cell_preserving = True,
          rr_partial = None, rr_raw = line\<rparr>, state)
      else if line = [] then (Some (blank_row state line), state)
      else
        let pre_escape = (hd line = BACKSLASH);
            logical = (if pre_escape then tl line else line) in
        if starts_with (lit ''#'') logical then (None, state)
        else
          case bare_color_directive logical of
            Some color \<Rightarrow> (None, state\<lparr>mp_style := (mp_style state)\<lparr>ts_fg := Some color\<rparr>\<rparr>)
          | None \<Rightarrow>
              let prefixed = color_prefixed_line logical;
                  state = (case prefixed of None \<Rightarrow> state
                    | Some (color, _) \<Rightarrow> state\<lparr>mp_style := (mp_style state)\<lparr>ts_fg := Some color\<rparr>\<rparr>);
                  logical = (case prefixed of None \<Rightarrow> logical | Some (_, rest) \<Rightarrow> rest) in
              if prefixed \<noteq> None \<and> logical = [] then (None, state)
              else
                case strip_prefix (lit ''`{'') logical of
                  Some raw_partial \<Rightarrow> (Some (parse_partial raw_partial state line), state)
                | None \<Rightarrow>
                    if starts_with (lit ''<'') logical \<and> \<not> starts_with (lit ''<<'') logical then
                      let state = state\<lparr>mp_depth := 0\<rparr> in
                      if str_len logical > 1 then parse_line (tl logical) state
                      else (Some (blank_row state line), state)
                    else parse_content line logical pre_escape state)"
  by pat_completeness auto
termination
proof (relation "measure (\<lambda>p. length (fst p))", goal_cases)
  case (2 line state pre_escape logical prefixed st logical' st')
  have "length logical \<le> length line" using 2(4,5) by simp
  moreover have "length logical' \<le> length logical"
    using 2(8,10) color_prefixed_rest [of logical] by (auto split: option.splits)
  moreover have "logical' \<noteq> []" using 2(13) by (auto simp: starts_with_def lit_def)
  ultimately show ?case by (cases logical') simp_all
qed simp

declare parse_line.simps [simp del]

section \<open>Documents within limits\<close>

text \<open>Whether the action of a link fits, and its bytes: \<^verbatim>\<open>try_fold\<close> over the fields.\<close>

definition link_action_bytes :: "LinkAction \<Rightarrow> nat option" where
  "link_action_bytes link =
     foldl (\<lambda>sum field. case sum of None \<Rightarrow> None | Some n \<Rightarrow> usize_checked_add n (str_len field))
       (Some (str_len (la_target link))) (la_fields link)"

definition admit_link :: "TextSpan \<Rightarrow> ParserState \<Rightarrow> TextSpan \<times> ParserState" where
  "admit_link span state =
     (case sp_link span of
        None \<Rightarrow> (span, state)
      | Some link \<Rightarrow>
          (case Option.bind (link_action_bytes link) (usize_checked_add (mp_link_action_owned_bytes state)) of
             Some bytes \<Rightarrow>
               if mp_link_action_items state < MICRON_DOCUMENT_MAX_LINK_ACTIONS
                  \<and> bytes \<le> MICRON_DOCUMENT_LINK_ACTIONS_MAX_BYTES
               then (span, state\<lparr>mp_link_action_items := mp_link_action_items state + 1, mp_link_action_owned_bytes := bytes\<rparr>)
               else (span\<lparr>sp_link := None\<rparr>, state\<lparr>mp_limits_applied := True\<rparr>)
           | None \<Rightarrow> (span\<lparr>sp_link := None\<rparr>, state\<lparr>mp_limits_applied := True\<rparr>)))"

fun admit_fragments :: "Fragment list \<Rightarrow> ParserState \<Rightarrow> Fragment list \<times> ParserState" where
  "admit_fragments [] state = ([], state)"
| "admit_fragments (fragment # rest) state =
     (if mp_fragment_items state \<ge> MICRON_DOCUMENT_MAX_FRAGMENTS - 1 then ([], state\<lparr>mp_limits_applied := True\<rparr>)
      else
        case fragment of
          Control control \<Rightarrow>
            let (admitted, state) = admit_fragments rest (state\<lparr>mp_fragment_items := mp_fragment_items state + 1\<rparr>) in
            (Control control # admitted, state)
        | Span span \<Rightarrow>
            (case usize_checked_add (mp_span_text_bytes state) (str_len (sp_text span)) of
               None \<Rightarrow> ([], state\<lparr>mp_limits_applied := True\<rparr>)
             | Some next_text_bytes \<Rightarrow>
                 if next_text_bytes > MICRON_DOCUMENT_SPAN_TEXT_MAX_BYTES - str_len MICRON_DOCUMENT_LIMIT_NOTICE
                 then ([], state\<lparr>mp_limits_applied := True\<rparr>)
                 else
                   let (span, state) = admit_link span (state\<lparr>mp_span_text_bytes := next_text_bytes\<rparr>);
                       (admitted, state) = admit_fragments rest (state\<lparr>mp_fragment_items := mp_fragment_items state + 1\<rparr>) in
                   (Span span # admitted, state)))"

definition admit_row_fragments :: "RenderRow \<Rightarrow> ParserState \<Rightarrow> RenderRow \<times> ParserState" where
  "admit_row_fragments row state =
     (let (admitted, state) = admit_fragments (rr_fragments row) state in (row\<lparr>rr_fragments := admitted\<rparr>, state))"

definition limit_notice_row :: "ParserState \<Rightarrow> RenderRow" where
  "limit_notice_row state =
     \<lparr>rr_kind = RowText, rr_depth = 0, rr_fragments = [plain_span MICRON_DOCUMENT_LIMIT_NOTICE (mp_style state)],
      rr_align = AlignLeft, rr_base_style = mp_style state, rr_divider = DIVIDER, rr_cell_preserving = False,
      rr_partial = None, rr_raw = MICRON_DOCUMENT_LIMIT_NOTICE\<rparr>"

text \<open>The variables of the loop over the lines.\<close>

record Parse =
  pa_rows :: "RenderRow list"
  pa_metadata :: "(rstr, rstr) btree_map"
  pa_limits_applied :: bool
  pa_state :: ParserState

definition apply_directive :: "rstr \<Rightarrow> rstr \<Rightarrow> Parse \<Rightarrow> Parse" where
  "apply_directive key val p =
     (let (applied, state, metadata) = apply_metadata_directive key val (pa_state p) (pa_metadata p) in
      p\<lparr>pa_state := state, pa_metadata := metadata, pa_limits_applied := pa_limits_applied p \<or> \<not> applied\<rparr>)"

text \<open>The directive a line is, if it is one: the key and value of \<^verbatim>\<open>#!key=value\<close> or of a bare directive.\<close>

definition line_directive :: "rstr \<Rightarrow> (rstr \<times> rstr) option" where
  "line_directive raw_line =
     (case strip_prefix (lit ''#!'') raw_line of
        Some meta \<Rightarrow> split_once (chr CHR ''='') meta
      | None \<Rightarrow> bare_metadata_directive raw_line)"

fun parse_lines :: "rstr list \<Rightarrow> Parse \<Rightarrow> Parse" where
  "parse_lines [] p = p"
| "parse_lines (raw_line # rest) p =
     (if str_len raw_line > MICRON_DOCUMENT_MAX_LINE_BYTES then parse_lines rest (p\<lparr>pa_limits_applied := True\<rparr>)
      else
        case line_directive raw_line of
          Some (key, val) \<Rightarrow> parse_lines rest (apply_directive key val p)
        | None \<Rightarrow>
            if starts_with (lit ''#!'') raw_line then parse_lines rest p
            else
              case parse_line raw_line (pa_state p) of
                (None, state) \<Rightarrow> parse_lines rest (p\<lparr>pa_state := state\<rparr>)
              | (Some row, state) \<Rightarrow>
                  if length (pa_rows p) \<ge> MICRON_DOCUMENT_MAX_ROWS - 1
                  then p\<lparr>pa_state := state, pa_limits_applied := True\<rparr>
                  else
                    let (row, state) = admit_row_fragments row state in
                    parse_lines rest (p\<lparr>pa_state := state, pa_rows := pa_rows p @ [row]\<rparr>))"

definition parse_micron :: "rstr \<Rightarrow> Document" where
  "parse_micron markup =
     (let p = parse_lines (str_lines markup)
            \<lparr>pa_rows = [], pa_metadata = [], pa_limits_applied = False, pa_state = parser_state_default\<rparr>;
          limits_applied = (pa_limits_applied p \<or> mp_limits_applied (pa_state p)) in
      \<lparr>doc_rows = (if limits_applied then pa_rows p @ [limit_notice_row (pa_state p)] else pa_rows p),
       doc_metadata = pa_metadata p, doc_limits_applied = limits_applied\<rparr>)"

end
