(* ===== verification/Text_Map.thy ===== *)
theory Text_Map
  imports Rust_Str "HOL-Library.Multiset"
begin

text \<open>
  Maps from names to texts with a budget: a number of entries, a limit on names, on texts and on the bytes of
  all of them. The metadata of a Micron page and the form fields of a browser session are such maps;
  both admit an entry by the check that is shown here to keep the budget.
\<close>

definition text_map_bytes :: "(rstr, rstr) btree_map \<Rightarrow> nat" where
  "text_map_bytes m = sum_list (map (\<lambda>(k, v). str_len k + str_len v) m)"

definition text_map_ok :: "nat \<Rightarrow> nat \<Rightarrow> nat \<Rightarrow> nat \<Rightarrow> (rstr, rstr) btree_map \<Rightarrow> bool" where
  "text_map_ok max_items max_bytes key_max val_max m \<longleftrightarrow>
     bt_ok m \<and> length m \<le> max_items \<and> text_map_bytes m \<le> max_bytes
     \<and> (\<forall>(k, v)\<in>set m. k \<noteq> [] \<and> str_len k \<le> key_max \<and> str_len v \<le> val_max)"

lemma mset_bt_insert: "bt_ok m \<Longrightarrow> mset (bt_insert k v m) = add_mset (k, v) (mset (bt_remove k m))"
proof (induction k v m rule: bt_insert.induct)
  case (2 k v k' v' m)
  have "bt_remove k ((k', v') # m) = (k', v') # m" if "k < k'"
    using that 2(2) by (auto simp: bt_remove_def bt_retain_def intro!: filter_True)
  moreover have "bt_remove k m = m" if "k = k'"
    using that 2(2) by (auto simp: bt_remove_def bt_retain_def intro!: filter_True)
  ultimately show ?case using 2 by (auto simp: bt_remove_def)
qed (simp add: bt_remove_def)

lemma saturating_bytes:
  "foldl (\<lambda>bytes (k, v). usize_saturating_add bytes (usize_saturating_add (str_len k) (str_len v))) b m
   = (if m = [] then b else min (2 ^ 64 - 1) (b + text_map_bytes m))"
proof (induction m arbitrary: b)
  case (Cons entry m)
  have absorb: "min (a + min c M) M = min M (a + c)" "min M (min M a + c) = min M (a + c)" for M a c :: nat
    by (simp_all add: min_def)
  obtain k v where entry: "entry = (k, v)" by fastforce
  have "usize_saturating_add b (usize_saturating_add (str_len k) (str_len v)) = min (2 ^ 64 - 1) (b + (str_len k + str_len v))"
    unfolding usize_saturating_add_def absorb ..
  then show ?case
    unfolding entry foldl_Cons prod.case Cons.IH
    by (simp only: absorb text_map_bytes_def list.map sum_list.Cons prod.case add.assoc) simp
qed simp

lemma text_map_bytes_insert:
  assumes "bt_ok m"
  shows "text_map_bytes (bt_insert k v m) = text_map_bytes (bt_remove k m) + str_len k + str_len v"
    and "set (bt_insert k v m) \<subseteq> insert (k, v) (set m)"
    and "length (bt_insert k v m) = length (bt_remove k m) + 1"
proof -
  note inserted = mset_bt_insert [OF assms, of k v]
  show "text_map_bytes (bt_insert k v m) = text_map_bytes (bt_remove k m) + str_len k + str_len v"
    using arg_cong [OF inserted, of "\<lambda>s. sum_mset (image_mset (\<lambda>(k, v). str_len k + str_len v) s)"]
    by (simp add: text_map_bytes_def sum_mset_sum_list flip: mset_map)
  show "set (bt_insert k v m) \<subseteq> insert (k, v) (set m)"
    using arg_cong [OF inserted, of set_mset] by (auto simp: bt_remove_def bt_retain_def)
  show "length (bt_insert k v m) = length (bt_remove k m) + 1"
    using arg_cong [OF inserted, of size] by (simp flip: size_mset)
qed

locale text_budget =
  fixes max_items max_bytes key_max val_max :: nat
  assumes budget_fits: "max_bytes < 2 ^ 64 - 1"
begin

lemma insert_ok:
  assumes "text_map_ok max_items max_bytes key_max val_max m" "bt_get m k = None \<longrightarrow> length m < max_items" "k \<noteq> []"
    "str_len k \<le> key_max" "str_len v \<le> val_max" "text_map_bytes (bt_remove k m) + str_len k + str_len v \<le> max_bytes"
  shows "text_map_ok max_items max_bytes key_max val_max (bt_insert k v m)"
proof -
  have ok: "bt_ok m" using assms(1) by (simp add: text_map_ok_def)
  note inserted = text_map_bytes_insert [OF ok, of k v]
  have "length (bt_insert k v m) \<le> max_items"
  proof (cases "bt_get m k")
    case None
    then show ?thesis using inserted(3) assms(2) bt_remove_absent [OF None] by simp
  next
    case (Some w)
    then have "length (bt_remove k m) < length m"
      unfolding bt_remove_def bt_retain_def by (intro length_filter_less [OF bt_get_SomeD]) auto
    then show ?thesis using inserted(3) assms(1) by (simp add: text_map_ok_def)
  qed
  then show ?thesis using assms inserted bt_ok_insert [OF ok, of k v] by (auto simp: text_map_ok_def)
qed

text \<open>The saturating sum over the other entries is exact once the total is within the budget.\<close>

lemma retained_exact:
  assumes "foldl (\<lambda>bytes (k, v). usize_saturating_add bytes (usize_saturating_add (str_len k) (str_len v))) 0 m + n \<le> max_bytes"
  shows "text_map_bytes m + n \<le> max_bytes"
  using assms budget_fits unfolding saturating_bytes by (auto simp: text_map_bytes_def min_def split: if_splits)

lemma remove_ok: "text_map_ok max_items max_bytes key_max val_max m \<Longrightarrow> text_map_ok max_items max_bytes key_max val_max (bt_remove k m)"
proof -
  assume ok: "text_map_ok max_items max_bytes key_max val_max m"
  have "text_map_bytes (bt_remove k m) \<le> text_map_bytes m"
    unfolding text_map_bytes_def bt_remove_def bt_retain_def by (rule sum_list_filter_le_nat)
  moreover have "length (bt_remove k m) \<le> length m" by (simp add: bt_remove_def length_bt_retain)
  moreover have "set (bt_remove k m) \<subseteq> set m" by (auto simp: bt_remove_def bt_retain_def)
  ultimately show ?thesis using ok by (auto simp: text_map_ok_def bt_ok_remove)
qed

end

end
