(* ===== verification/Micron_Document.thy ===== *)
theory Micron_Document
  imports Micron_Parser Text_Map "HOL-Library.Code_Target_Nat"
begin

text \<open>
  What every parsed page satisfies: the limits on rows, fragments, text, links, controls and metadata,
  whatever the markup; that nothing is left out of a page that does not say so; and that escaped text and
  literal blocks come out as they were written.
\<close>

lemmas micron_limits =
  MICRON_LINK_RAW_MAX_BYTES_def MICRON_LINK_LABEL_MAX_BYTES_def MICRON_LINK_TARGET_MAX_BYTES_def
  MICRON_LINK_MAX_FIELDS_def MICRON_LINK_FIELD_MAX_BYTES_def MICRON_LINK_FIELDS_MAX_BYTES_def
  MICRON_CONTROL_RAW_MAX_BYTES_def MICRON_CONTROL_NAME_MAX_BYTES_def MICRON_CONTROL_VALUE_MAX_BYTES_def
  MICRON_CONTROL_MAX_WIDTH_def MICRON_CONTROL_MAX_ITEMS_def MICRON_CONTROL_MAX_OWNED_BYTES_def
  MICRON_DOCUMENT_MAX_ROWS_def MICRON_METADATA_MAX_ITEMS_def MICRON_METADATA_KEY_MAX_BYTES_def
  MICRON_METADATA_VALUE_MAX_BYTES_def MICRON_METADATA_MAX_OWNED_BYTES_def MICRON_DOCUMENT_MAX_FRAGMENTS_def
  MICRON_DOCUMENT_SPAN_TEXT_MAX_BYTES_def MICRON_DOCUMENT_MAX_LINK_ACTIONS_def
  MICRON_DOCUMENT_LINK_ACTIONS_MAX_BYTES_def

section \<open>What a document may hold\<close>

definition link_bytes :: "LinkAction \<Rightarrow> nat" where
  "link_bytes link = str_len (la_target link) + sum_list (map str_len (la_fields link))"

definition link_ok :: "LinkAction \<Rightarrow> bool" where
  "link_ok link \<longleftrightarrow>
     la_target link \<noteq> [] \<and> str_len (la_target link) \<le> MICRON_LINK_TARGET_MAX_BYTES
     \<and> length (la_fields link) \<le> MICRON_LINK_MAX_FIELDS
     \<and> (\<forall>field\<in>set (la_fields link). field \<noteq> [] \<and> str_len field \<le> MICRON_LINK_FIELD_MAX_BYTES)
     \<and> sum_list (map str_len (la_fields link)) \<le> MICRON_LINK_FIELDS_MAX_BYTES"

definition control_bytes :: "FieldControl \<Rightarrow> nat" where
  "control_bytes c =
     (let len = (\<lambda>s. case s of None \<Rightarrow> 0 | Some t \<Rightarrow> str_len t) in
      str_len (fc_kind c) + str_len (fc_name c) + str_len (fc_value c) + str_len (fc_label c)
      + len (ts_fg (fc_style c)) + len (ts_bg (fc_style c)))"

definition control_ok :: "FieldControl \<Rightarrow> bool" where
  "control_ok c \<longleftrightarrow>
     fc_kind c \<in> {lit ''field'', lit ''checkbox'', lit ''radio''}
     \<and> fc_name c \<noteq> [] \<and> str_len (fc_name c) \<le> MICRON_CONTROL_NAME_MAX_BYTES
     \<and> str_len (fc_value c) \<le> MICRON_CONTROL_VALUE_MAX_BYTES \<and> str_len (fc_label c) \<le> MICRON_CONTROL_VALUE_MAX_BYTES
     \<and> 1 \<le> fc_width c \<and> fc_width c \<le> MICRON_CONTROL_MAX_WIDTH"

fun fragment_ok :: "Fragment \<Rightarrow> bool" where
  "fragment_ok (Span span) \<longleftrightarrow> (case sp_link span of None \<Rightarrow> True | Some link \<Rightarrow> link_ok link)"
| "fragment_ok (Control control) \<longleftrightarrow> control_ok control"

fun controls_of :: "Fragment list \<Rightarrow> FieldControl list" where
  "controls_of [] = []"
| "controls_of (Control c # fs) = c # controls_of fs"
| "controls_of (Span _ # fs) = controls_of fs"

fun spans_of :: "Fragment list \<Rightarrow> TextSpan list" where
  "spans_of [] = []"
| "spans_of (Control _ # fs) = spans_of fs"
| "spans_of (Span s # fs) = s # spans_of fs"

definition links_of :: "Fragment list \<Rightarrow> LinkAction list" where
  "links_of fs = List.map_filter sp_link (spans_of fs)"

definition text_of :: "Fragment list \<Rightarrow> rstr" where
  "text_of fs = concat (map sp_text (spans_of fs))"

lemma fragments_append [simp]:
  "controls_of (fs @ gs) = controls_of fs @ controls_of gs"
  "spans_of (fs @ gs) = spans_of fs @ spans_of gs"
  by (induction fs rule: controls_of.induct) simp_all

lemma links_of_simps [simp]:
  "links_of [] = []" "links_of (Control c # fs) = links_of fs"
  "links_of (Span s # fs) = (case sp_link s of None \<Rightarrow> links_of fs | Some l \<Rightarrow> l # links_of fs)"
  "links_of (fs @ gs) = links_of fs @ links_of gs"
  by (simp_all add: links_of_def List.map_filter_def split: option.split)

lemma text_of_simps [simp]:
  "text_of [] = []" "text_of (Control c # fs) = text_of fs" "text_of (Span s # fs) = sp_text s @ text_of fs"
  "text_of (fs @ gs) = text_of fs @ text_of gs"
  by (simp_all add: text_of_def)

section \<open>Links and controls\<close>

lemma checked_add_Some: "usize_checked_add a b = Some n \<longleftrightarrow> n = a + b \<and> a + b < 2 ^ 64"
  by (auto simp: usize_checked_add_def)

lemma foldl_None: "foldl (\<lambda>x y. case x of None \<Rightarrow> None | Some n \<Rightarrow> f n y) None ys = None"
  by (induction ys) auto

lemma foldl_checked:
  "foldl (\<lambda>sum x. case sum of None \<Rightarrow> None | Some n \<Rightarrow> usize_checked_add n (f x)) (Some a) xs = Some n
   \<longleftrightarrow> n = a + sum_list (map f xs) \<and> (xs = [] \<or> a + sum_list (map f xs) < 2 ^ 64)"
proof (induction xs arbitrary: a)
  case (Cons x xs)
  show ?case
  proof (cases "usize_checked_add a (f x)")
    case None
    then show ?thesis by (simp add: foldl_None usize_checked_add_def split: if_splits)
  next
    case (Some b)
    then have "b = a + f x" "a + f x < 2 ^ 64" by (simp_all add: checked_add_Some)
    then show ?thesis using Cons.IH [of b] Some by (cases xs) (auto simp: add.assoc)
  qed
qed auto

lemma chars_utf8_len_Some: "chars_utf8_len s = Some n \<Longrightarrow> n = str_len s"
  by (simp add: chars_utf8_len_def foldl_checked str_len_def)

lemma collect_link_fields_Some:
  "collect_link_fields collected bytes input = Some out \<Longrightarrow>
   bytes = sum_list (map str_len collected) \<Longrightarrow> length collected \<le> MICRON_LINK_MAX_FIELDS \<Longrightarrow>
   (\<forall>field\<in>set collected. str_len field \<le> MICRON_LINK_FIELD_MAX_BYTES) \<Longrightarrow> bytes \<le> MICRON_LINK_FIELDS_MAX_BYTES \<Longrightarrow>
   out = collected @ input \<and> length out \<le> MICRON_LINK_MAX_FIELDS
   \<and> (\<forall>field\<in>set out. str_len field \<le> MICRON_LINK_FIELD_MAX_BYTES)
   \<and> sum_list (map str_len out) \<le> MICRON_LINK_FIELDS_MAX_BYTES"
proof (induction collected bytes input rule: collect_link_fields.induct)
  case (2 collected bytes field input)
  obtain n where n: "usize_checked_add bytes (str_len field) = Some n"
    "collect_link_fields (collected @ [field]) n input = Some out"
    using 2(2) by (auto split: if_splits option.splits)
  have limits: "length collected < MICRON_LINK_MAX_FIELDS" "str_len field \<le> MICRON_LINK_FIELD_MAX_BYTES"
    "n \<le> MICRON_LINK_FIELDS_MAX_BYTES"
    using 2(2) n by (auto split: if_splits)
  have "out = (collected @ [field]) @ input \<and> length out \<le> MICRON_LINK_MAX_FIELDS
     \<and> (\<forall>field\<in>set out. str_len field \<le> MICRON_LINK_FIELD_MAX_BYTES)
     \<and> sum_list (map str_len out) \<le> MICRON_LINK_FIELDS_MAX_BYTES"
    using limits n 2(3-6) by (intro 2(1)) (auto simp: checked_add_Some)
  then show ?case by auto
qed auto

lemma parse_link_ok: "parse_link raw style = Some span \<Longrightarrow> fragment_ok (Span span)"
proof -
  assume step: "parse_link raw style = Some span"
  have *: "out = input \<and> length out \<le> MICRON_LINK_MAX_FIELDS \<and> (\<forall>field\<in>set out. str_len field \<le> MICRON_LINK_FIELD_MAX_BYTES)
      \<and> sum_list (map str_len out) \<le> MICRON_LINK_FIELDS_MAX_BYTES"
    if "collect_bounded_link_fields input = Some out" for input out
    using collect_link_fields_Some [of "[]" 0 input out] that by (auto simp: collect_bounded_link_fields_def)
  show ?thesis
    using step by (auto simp: parse_link_def Let_def link_ok_def dest!: * split: if_splits)
qed

lemma parse_shorthand_link_ok: "parse_shorthand_link raw style = Some span \<Longrightarrow> fragment_ok (Span span)"
  by (auto simp: parse_shorthand_link_def Let_def link_ok_def micron_limits split: if_splits prod.splits option.splits)

lemma control_flags_ok: "control_flags s = Some (kind, masked, width) \<Longrightarrow>
   kind \<in> {lit ''field'', lit ''checkbox'', lit ''radio''} \<and> 1 \<le> width \<and> width \<le> MICRON_CONTROL_MAX_WIDTH"
  by (auto simp: control_flags_def Let_def micron_limits split: if_splits option.splits)

lemma control_descriptor_ok: "control_descriptor s = Some (kind, masked, width, rest) \<Longrightarrow>
   kind \<in> {lit ''field'', lit ''checkbox'', lit ''radio''} \<and> 1 \<le> width \<and> width \<le> MICRON_CONTROL_MAX_WIDTH"
  by (auto simp: control_descriptor_def Let_def micron_limits dest: control_flags_ok split: if_splits)

lemma parse_control_ok:
  assumes "parse_control raw style = Some (control, owned_bytes)"
  shows "control_ok control \<and> owned_bytes = control_bytes control"
proof -
  obtain descriptor val where once: "split_once (chr CHR ''`'') raw = Some (descriptor, val)"
    using assms by (auto simp: parse_control_def split: if_splits option.splits)
  then obtain kind masked width name field_value prechecked
    where flags: "control_descriptor descriptor = Some (kind, masked, width, name, field_value, prechecked)"
    using assms by (auto simp: parse_control_def split: if_splits option.splits)
  note step = assms [unfolded parse_control_def once flags option.case prod.case Let_def]
  have kind: "kind \<in> {lit ''field'', lit ''checkbox'', lit ''radio''}" "1 \<le> width" "width \<le> MICRON_CONTROL_MAX_WIDTH"
    using control_descriptor_ok [OF flags] by simp_all
  have limits: "name \<noteq> []" "str_len name \<le> MICRON_CONTROL_NAME_MAX_BYTES" "str_len val \<le> MICRON_CONTROL_VALUE_MAX_BYTES"
    "str_len field_value \<le> MICRON_CONTROL_VALUE_MAX_BYTES"
    using step by (auto split: if_splits)
  then have result: "control = \<lparr>fc_kind = kind, fc_name = name, fc_value = (if field_value = [] then val else field_value),
      fc_label = (if kind \<in> {lit ''checkbox'', lit ''radio''} then val else []), fc_width = width, fc_masked = masked,
      fc_prechecked = prechecked, fc_style = style\<rparr>"
    "checked_sum [str_len kind, str_len name, str_len (if field_value = [] then val else field_value),
       case if kind \<in> {lit ''checkbox'', lit ''radio''} then Some val else None of None \<Rightarrow> 0 | Some t \<Rightarrow> str_len t,
       case ts_fg style of None \<Rightarrow> 0 | Some t \<Rightarrow> str_len t, case ts_bg style of None \<Rightarrow> 0 | Some t \<Rightarrow> str_len t] = Some owned_bytes"
    using step by (auto split: if_splits)
  from result(2) have "owned_bytes = control_bytes control"
    unfolding checked_sum_def foldl_checked [where f = "\<lambda>n. n"] result(1) control_bytes_def Let_def by simp
  then show ?thesis using kind limits by (simp add: result(1) control_ok_def)
qed

section \<open>Invariants of the inline loop\<close>

text \<open>
  What the loop is made of: a predicate that each way of changing the variables keeps holds at the end of
  the line if it holds at its start.
\<close>

locale inline_invariant =
  fixes keeps :: "Inline \<Rightarrow> bool"
  assumes keeps_escape: "keeps il \<Longrightarrow> keeps (il\<lparr>il_escape := b\<rparr>)"
    and keeps_text: "keeps il \<Longrightarrow> keeps (push_text s il)"
    and keeps_flush: "keeps il \<Longrightarrow> keeps (flush_text il)"
    and keeps_style: "keeps il \<Longrightarrow> restyles f \<Longrightarrow> keeps (f il)"
    and keeps_link: "keeps il \<Longrightarrow> parse \<in> {parse_link, parse_shorthand_link} \<Longrightarrow> keeps (push_link raw parse lhs rhs il)"
    and keeps_control: "keeps il \<Longrightarrow> keeps (push_control raw il)"
begin

lemma keeps_command: "keeps il \<Longrightarrow> keeps (snd (inline_command k ks il))"
  by (rule inline_command_cases [where Q = "\<lambda>p. keeps (snd p)"])
    (simp_all add: keeps_text keeps_style keeps_link keeps_control)

lemma keeps_loop: "keeps il \<Longrightarrow> keeps (inline_loop cs il)"
proof (induction cs il rule: inline_loop.induct)
  case (2 c cs il)
  show ?case
  proof (cases "c = BACKSLASH \<or> c \<noteq> chr CHR ''`'' \<or> il_escape il")
    case True
    note keeps = keeps_escape [OF 2(4)] keeps_text [OF 2(4)] keeps_text [OF keeps_escape [OF 2(4)]]
    show ?thesis
    proof (cases "c = BACKSLASH")
      case True
      then show ?thesis using 2(1) keeps by (cases "il_escape il") simp_all
    next
      case False
      then show ?thesis using 2(2) True keeps by simp
    qed
  next
    case False
    note keeps = keeps_command [OF keeps_flush [OF 2(4)]]
    show ?thesis
    proof (cases cs)
      case (Cons k ks)
      obtain rest il' where step: "inline_command k ks (flush_text il) = (rest, il')" by fastforce
      have "keeps il'" using keeps [of k ks] step by simp
      then have "keeps (inline_loop rest il')" using 2(3) False Cons step by simp
      then show ?thesis using False Cons step by simp
    qed (use False keeps_flush [OF 2(4)] in simp)
  qed
qed simp

lemma keeps_inline:
  "keeps \<lparr>il_fragments = [], il_buffer = [], il_escape = pre_escape, il_style = style, il_state = state\<rparr> \<Longrightarrow>
   parse_inline_and_controls_with_style line state style pre_escape = (fragments, state') \<Longrightarrow>
   \<exists>il. keeps il \<and> il_fragments il = fragments \<and> state' = (il_state il)\<lparr>mp_style := il_style il\<rparr>"
  using keeps_flush [OF keeps_loop] unfolding parse_inline_and_controls_with_style_def Let_def by blast

end

text \<open>What only the admission of fragments changes.\<close>

definition same_admission :: "ParserState \<Rightarrow> ParserState \<Rightarrow> bool" where
  "same_admission st st' \<longleftrightarrow>
     mp_fragment_items st' = mp_fragment_items st \<and> mp_span_text_bytes st' = mp_span_text_bytes st
     \<and> mp_link_action_items st' = mp_link_action_items st
     \<and> mp_link_action_owned_bytes st' = mp_link_action_owned_bytes st \<and> mp_limits_applied st' = mp_limits_applied st"

definition controls_account :: "ParserState \<Rightarrow> ParserState \<Rightarrow> Fragment list \<Rightarrow> bool" where
  "controls_account st st' fs \<longleftrightarrow>
     mp_control_items st' = mp_control_items st + length (controls_of fs)
     \<and> mp_control_owned_bytes st' = mp_control_owned_bytes st + sum_list (map control_bytes (controls_of fs))
     \<and> mp_control_items st' \<le> MICRON_CONTROL_MAX_ITEMS \<and> mp_control_owned_bytes st' \<le> MICRON_CONTROL_MAX_OWNED_BYTES"

definition inline_ok :: "ParserState \<Rightarrow> Inline \<Rightarrow> bool" where
  "inline_ok st il \<longleftrightarrow>
     list_all fragment_ok (il_fragments il) \<and> controls_account st (il_state il) (il_fragments il)
     \<and> same_admission st (il_state il)"

lemma autolink_ok: "list_all fragment_ok (autolink_lxmf s style) \<and> controls_of (autolink_lxmf s style) = []"
proof (induction s style rule: autolink_lxmf.induct)
  case (1 s style)
  show ?case
  proof (cases "split_at_pattern (lit ''lxmf@'') s")
    case None
    then show ?thesis by (simp add: autolink_lxmf.simps [of s] plain_span_def)
  next
    case (Some pair)
    obtain prior candidate where pair: "pair = (prior, candidate)" by fastforce
    note IH = 1 [OF Some [unfolded pair] refl refl]
    show ?thesis
      using IH by (auto simp: autolink_lxmf.simps [of s] Some pair plain_span_def Let_def link_ok_def micron_limits)
  qed
qed

lemma restylesD:
  assumes "restyles f"
  shows "il_fragments (f il) = il_fragments il" "il_buffer (f il) = il_buffer il" "il_escape (f il) = il_escape il"
    "(il_state (f il))\<lparr>mp_style := style, mp_align := align\<rparr> = (il_state il)\<lparr>mp_style := style, mp_align := align\<rparr>"
  using assms by (simp_all add: restyles_def)

lemma restyles_account:
  assumes "restyles f"
  shows "same_admission st (il_state (f il)) = same_admission st (il_state il)"
    and "controls_account st (il_state (f il)) fs = controls_account st (il_state il) fs"
  using restylesD(4) [OF assms, where il = il and style = "mp_style (il_state il)" and align = "mp_align (il_state il)"]
  by (cases "il_state (f il)"; cases "il_state il"; simp add: same_admission_def controls_account_def)+

lemma push_control_cases:
  obtains (plain) "push_control raw il = push_fragment (plain_span (lit ''`<'' @ raw @ lit ''>'') (il_style il)) il"
  | (control) control where "control_ok control" "mp_control_items (il_state il) < MICRON_CONTROL_MAX_ITEMS"
      "mp_control_owned_bytes (il_state il) + control_bytes control \<le> MICRON_CONTROL_MAX_OWNED_BYTES"
      "push_control raw il = push_fragment (Control control)
         (il\<lparr>il_state := (il_state il)\<lparr>mp_control_items := mp_control_items (il_state il) + 1,
           mp_control_owned_bytes := mp_control_owned_bytes (il_state il) + control_bytes control\<rparr>\<rparr>)"
proof (cases "if mp_control_items (il_state il) < MICRON_CONTROL_MAX_ITEMS then parse_control raw (il_style il) else None")
  case None
  then show thesis by (intro plain) (simp add: push_control_def Let_def)
next
  case (Some pair)
  obtain control bytes where pair: "pair = (control, bytes)" by fastforce
  have items: "mp_control_items (il_state il) < MICRON_CONTROL_MAX_ITEMS"
    and ok: "control_ok control" "bytes = control_bytes control"
    using Some pair parse_control_ok by (auto split: if_splits)
  show thesis
  proof (cases "raw_fits MICRON_CONTROL_RAW_MAX_BYTES raw
      \<and> mp_control_owned_bytes (il_state il) + bytes \<le> MICRON_CONTROL_MAX_OWNED_BYTES")
    case True
    then have "usize_checked_add (mp_control_owned_bytes (il_state il)) bytes = Some (mp_control_owned_bytes (il_state il) + bytes)"
      by (simp add: usize_checked_add_def micron_limits)
    then show thesis using control [OF ok(1) items] True ok(2) Some pair
      by (simp add: push_control_def Let_def)
  next
    case False
    then show thesis
      by (intro plain) (auto simp: push_control_def Let_def Some [unfolded pair] checked_add_Some split: option.split)
  qed
qed

interpretation inline_bounds: inline_invariant "inline_ok st"
proof unfold_locales
  fix il b s f parse raw lhs rhs
  assume ok: "inline_ok st il"
  show "inline_ok st (il\<lparr>il_escape := b\<rparr>)" "inline_ok st (push_text s il)"
    using ok by (simp_all add: inline_ok_def push_text_def)
  show "inline_ok st (flush_text il)"
    using ok autolink_ok [of "il_buffer il" "il_style il"] by (simp add: inline_ok_def flush_text_def controls_account_def)
  show "restyles f \<Longrightarrow> inline_ok st (f il)"
    using ok by (simp add: inline_ok_def restyles_account restylesD)
  show "inline_ok st (push_link raw parse lhs rhs il)" if "parse \<in> {parse_link, parse_shorthand_link}"
  proof -
    have "fragment_ok (Span span)" if "parse raw (il_style il) = Some span" for span
      using \<open>parse \<in> _\<close> that parse_link_ok parse_shorthand_link_ok by blast
    then show ?thesis
      using ok by (auto simp: push_link_def push_fragment_def plain_span_def inline_ok_def controls_account_def split: option.split)
  qed
  show "inline_ok st (push_control raw il)"
  proof (cases rule: push_control_cases [of raw il])
    case (control control)
    then show ?thesis
      using ok by (simp add: push_fragment_def inline_ok_def controls_account_def same_admission_def)
  qed (use ok in \<open>simp add: push_fragment_def plain_span_def inline_ok_def controls_account_def\<close>)
qed

section \<open>Lines and admission\<close>

definition controls_within :: "ParserState \<Rightarrow> bool" where
  "controls_within st \<longleftrightarrow>
     mp_control_items st \<le> MICRON_CONTROL_MAX_ITEMS \<and> mp_control_owned_bytes st \<le> MICRON_CONTROL_MAX_OWNED_BYTES"

definition row_fragments :: "RenderRow option \<Rightarrow> Fragment list" where
  "row_fragments row = (case row of None \<Rightarrow> [] | Some r \<Rightarrow> rr_fragments r)"

definition line_ok :: "ParserState \<Rightarrow> RenderRow option \<times> ParserState \<Rightarrow> bool" where
  "line_ok st = (\<lambda>(row, st'). list_all fragment_ok (row_fragments row)
     \<and> controls_account st st' (row_fragments row) \<and> same_admission st st')"

lemmas accounting = controls_account_def same_admission_def controls_within_def

lemma inline_line_ok:
  assumes "controls_within st"
    and "parse_inline_and_controls_with_style line st style pre_escape = (fragments, st')"
  shows "list_all fragment_ok fragments \<and> controls_account st st' fragments \<and> same_admission st st'"
proof -
  have "inline_ok st \<lparr>il_fragments = [], il_buffer = [], il_escape = pre_escape, il_style = style, il_state = st\<rparr>"
    using assms(1) by (simp add: inline_ok_def accounting)
  from inline_bounds.keeps_inline [OF this assms(2)] show ?thesis
    by (auto simp: inline_ok_def accounting)
qed

lemma line_ok_keep: "controls_within st \<Longrightarrow> row_fragments row = [] \<Longrightarrow> line_ok st (row, st)"
  by (simp add: line_ok_def accounting)

lemma parse_content_ok:
  assumes "controls_within st"
  shows "line_ok st (parse_content line logical pre_escape st)"
proof (cases "starts_with (lit ''>'') logical")
  case True
  define depth where "depth = length (takeWhile (\<lambda>c. c = chr CHR ''>'') logical)"
  obtain fragments st' where step: "parse_inline_and_controls_with_style (dropWhile (\<lambda>c. c = chr CHR ''>'') logical)
      (st\<lparr>mp_depth := depth\<rparr>) (heading_style depth (mp_style st)) False = (fragments, st')" by fastforce
  have "controls_within (st\<lparr>mp_depth := depth\<rparr>)" using assms by (simp add: accounting)
  from inline_line_ok [OF this step] show ?thesis
    using True step by (simp add: parse_content_def line_ok_def row_fragments_def accounting Let_def flip: depth_def)
next
  case False
  obtain fragments st' where step: "parse_inline_and_controls logical st pre_escape = (fragments, st')" by fastforce
  from inline_line_ok [OF assms step [unfolded parse_inline_and_controls_def]]
  have text_row: "line_ok st (row, st')" if "row_fragments row = fragments" for row
    using that by (simp add: line_ok_def)
  show ?thesis
    using False step line_ok_keep [OF assms] text_row
    by (cases "starts_with (lit ''-'') logical"; cases "fragments = []") (simp_all add: parse_content_def row_fragments_def)
qed

text \<open>The branches of \<^verbatim>\<open>parse_line\<close>: the line without its escape mark, and what a colour in front of it leaves.\<close>

definition line_logical :: "rstr \<Rightarrow> rstr" where
  "line_logical line = (if hd line = BACKSLASH then tl line else line)"

definition coloured :: "rstr \<Rightarrow> ParserState \<Rightarrow> ParserState" where
  "coloured color st = st\<lparr>mp_style := (mp_style st)\<lparr>ts_fg := Some color\<rparr>\<rparr>"

definition prefix_state :: "rstr \<Rightarrow> ParserState \<Rightarrow> ParserState" where
  "prefix_state logical st = (case color_prefixed_line logical of None \<Rightarrow> st | Some (color, _) \<Rightarrow> coloured color st)"

definition prefix_rest :: "rstr \<Rightarrow> rstr" where
  "prefix_rest logical = (case color_prefixed_line logical of None \<Rightarrow> logical | Some (_, rest) \<Rightarrow> rest)"

definition literal_row :: "rstr \<Rightarrow> ParserState \<Rightarrow> RenderRow" where
  "literal_row line st = \<lparr>rr_kind = RowText, rr_depth = mp_depth st,
     rr_fragments = [plain_span (if line = BACKSLASH # lit ''`='' then lit ''`='' else line) (mp_style st)],
     rr_align = mp_align st, rr_base_style = mp_style st, rr_divider = DIVIDER, rr_cell_preserving = True,
     rr_partial = None, rr_raw = line\<rparr>"

definition resets_depth :: "rstr \<Rightarrow> bool" where
  "resets_depth rest \<longleftrightarrow> starts_with (lit ''<'') rest \<and> \<not> starts_with (lit ''<<'') rest"

lemma parse_line_eqs:
  "parse_line (lit ''`='') st = (None, st\<lparr>mp_literal := \<not> mp_literal st\<rparr>)"
  "line \<noteq> lit ''`='' \<Longrightarrow> mp_literal st \<Longrightarrow> parse_line line st = (Some (literal_row line st), st)"
  "\<not> mp_literal st \<Longrightarrow> parse_line [] st = (Some (blank_row st []), st)"
  "\<not> mp_literal st \<Longrightarrow> line \<noteq> lit ''`='' \<Longrightarrow> line \<noteq> [] \<Longrightarrow> starts_with (lit ''#'') (line_logical line) \<Longrightarrow> parse_line line st = (None, st)"
  "\<not> mp_literal st \<Longrightarrow> line \<noteq> lit ''`='' \<Longrightarrow> line \<noteq> [] \<Longrightarrow> \<not> starts_with (lit ''#'') (line_logical line) \<Longrightarrow>
   bare_color_directive (line_logical line) = Some color \<Longrightarrow> parse_line line st = (None, coloured color st)"
  "\<not> mp_literal st \<Longrightarrow> line \<noteq> lit ''`='' \<Longrightarrow> line \<noteq> [] \<Longrightarrow> \<not> starts_with (lit ''#'') (line_logical line) \<Longrightarrow>
   bare_color_directive (line_logical line) = None \<Longrightarrow> rest = prefix_rest (line_logical line) \<Longrightarrow>
   st1 = prefix_state (line_logical line) st \<Longrightarrow>
   parse_line line st =
     (if color_prefixed_line (line_logical line) \<noteq> None \<and> rest = [] then (None, st1)
      else case strip_prefix (lit ''`{'') rest of
        Some raw_partial \<Rightarrow> (Some (parse_partial raw_partial st1 line), st1)
      | None \<Rightarrow>
          if resets_depth rest then
            if str_len rest > 1 then parse_line (tl rest) (st1\<lparr>mp_depth := 0\<rparr>)
            else (Some (blank_row (st1\<lparr>mp_depth := 0\<rparr>) line), st1\<lparr>mp_depth := 0\<rparr>)
          else parse_content line rest (hd line = BACKSLASH) st1)"
proof -
  show "parse_line (lit ''`='') st = (None, st\<lparr>mp_literal := \<not> mp_literal st\<rparr>)"
    by (subst parse_line.simps) (simp only: if_True refl)
  note step = parse_line.simps [of line st, unfolded Let_def, folded line_logical_def, folded coloured_def,
      folded prefix_state_def prefix_rest_def resets_depth_def literal_row_def]
  show "line \<noteq> lit ''`='' \<Longrightarrow> mp_literal st \<Longrightarrow> parse_line line st = (Some (literal_row line st), st)"
    by (simp add: step)
  show "\<not> mp_literal st \<Longrightarrow> line \<noteq> lit ''`='' \<Longrightarrow> line \<noteq> [] \<Longrightarrow> starts_with (lit ''#'') (line_logical line) \<Longrightarrow> parse_line line st = (None, st)"
    by (simp add: step)
  show "\<not> mp_literal st \<Longrightarrow> line \<noteq> lit ''`='' \<Longrightarrow> line \<noteq> [] \<Longrightarrow> \<not> starts_with (lit ''#'') (line_logical line) \<Longrightarrow>
      bare_color_directive (line_logical line) = Some color \<Longrightarrow> parse_line line st = (None, coloured color st)"
    by (simp add: step)
  show "\<not> mp_literal st \<Longrightarrow> parse_line [] st = (Some (blank_row st []), st)"
    by (subst parse_line.simps) (simp add: lit_def)
qed (simp only: parse_line.simps [of line st, unfolded Let_def, folded line_logical_def, folded coloured_def,
      folded prefix_state_def prefix_rest_def resets_depth_def] if_False option.case)

lemma parse_line_cases:
  obtains (toggle) "line = lit ''`=''" | (literal) "line \<noteq> lit ''`=''" "mp_literal st"
  | (blank) "\<not> mp_literal st" "line = []"
  | (comment) "\<not> mp_literal st" "line \<noteq> lit ''`=''" "line \<noteq> []" "starts_with (lit ''#'') (line_logical line)"
  | (colour) color where "\<not> mp_literal st" "line \<noteq> lit ''`=''" "line \<noteq> []" "\<not> starts_with (lit ''#'') (line_logical line)"
      "bare_color_directive (line_logical line) = Some color"
  | (content) "\<not> mp_literal st" "line \<noteq> lit ''`=''" "line \<noteq> []" "\<not> starts_with (lit ''#'') (line_logical line)"
      "bare_color_directive (line_logical line) = None"
  by fastforce

text \<open>Induction along the recursion: the rest after a depth reset is shorter than the line.\<close>

lemma prefix_rest_shorter:
  assumes "line \<noteq> []" "resets_depth (prefix_rest (line_logical line))"
  shows "length (tl (prefix_rest (line_logical line))) < length line"
proof -
  have "length (prefix_rest (line_logical line)) \<le> length line"
    using color_prefixed_rest [of "line_logical line"] by (auto simp: prefix_rest_def line_logical_def split: option.split if_splits)
  moreover have "prefix_rest (line_logical line) \<noteq> []" using assms(2) by (auto simp: resets_depth_def starts_with_def lit_def)
  ultimately show ?thesis by (cases "prefix_rest (line_logical line)") simp_all
qed

lemma parse_line_ok: "controls_within st \<Longrightarrow> line_ok st (parse_line line st)"
proof (induction line arbitrary: st rule: length_induct)
  case (1 line)
  define st1 where "st1 = prefix_state (line_logical line) st"
  have st1: "line_ok st1 out = line_ok st out" "controls_within st1"
    "line_ok (st1\<lparr>mp_depth := 0\<rparr>) out = line_ok st out" "controls_within (st1\<lparr>mp_depth := 0\<rparr>)" for out
    using 1(2) by (simp_all add: st1_def prefix_state_def coloured_def line_ok_def accounting split: option.split prod.split)
  note kept = line_ok_keep [OF st1(2), unfolded st1(1)] line_ok_keep [OF st1(4), unfolded st1(3)]
    parse_content_ok [OF st1(2), unfolded st1(1)]
  show ?case
  proof (cases rule: parse_line_cases [where line = line and st = st])
    case content
    have "line_ok st (parse_line (tl (prefix_rest (line_logical line))) (st1\<lparr>mp_depth := 0\<rparr>))"
      if "resets_depth (prefix_rest (line_logical line))"
      using 1(1) prefix_rest_shorter [OF content(3) that] st1(4) by (simp flip: st1(3))
    then show ?thesis
      unfolding parse_line_eqs(6) [OF content refl st1_def] using kept
      by (auto simp: row_fragments_def blank_row_def parse_partial_def Let_def split: option.split)
  qed (use 1(2) in \<open>simp add: parse_line_eqs line_ok_def accounting row_fragments_def blank_row_def literal_row_def
      coloured_def plain_span_def\<close>)+
qed

text \<open>Admission keeps the counters at what the document holds.\<close>

definition span_bytes :: "Fragment list \<Rightarrow> nat" where
  "span_bytes fs = str_len (text_of fs)"

definition link_total :: "Fragment list \<Rightarrow> nat" where
  "link_total fs = sum_list (map link_bytes (links_of fs))"

lemma totals_simps [simp]:
  "span_bytes [] = 0" "span_bytes (Control c # fs) = span_bytes fs"
  "span_bytes (Span s # fs) = str_len (sp_text s) + span_bytes fs" "span_bytes (fs @ gs) = span_bytes fs + span_bytes gs"
  "link_total [] = 0" "link_total (Control c # fs) = link_total fs" "link_total (fs @ gs) = link_total fs + link_total gs"
  by (simp_all add: span_bytes_def link_total_def)

definition admission_within :: "ParserState \<Rightarrow> bool" where
  "admission_within st \<longleftrightarrow>
     mp_fragment_items st \<le> MICRON_DOCUMENT_MAX_FRAGMENTS - 1
     \<and> mp_span_text_bytes st \<le> MICRON_DOCUMENT_SPAN_TEXT_MAX_BYTES - str_len MICRON_DOCUMENT_LIMIT_NOTICE
     \<and> mp_link_action_items st \<le> MICRON_DOCUMENT_MAX_LINK_ACTIONS
     \<and> mp_link_action_owned_bytes st \<le> MICRON_DOCUMENT_LINK_ACTIONS_MAX_BYTES"

definition admits :: "ParserState \<Rightarrow> ParserState \<Rightarrow> Fragment list \<Rightarrow> bool" where
  "admits st st' gs \<longleftrightarrow>
     mp_fragment_items st' = mp_fragment_items st + length gs
     \<and> mp_span_text_bytes st' = mp_span_text_bytes st + span_bytes gs
     \<and> mp_link_action_items st' = mp_link_action_items st + length (links_of gs)
     \<and> mp_link_action_owned_bytes st' = mp_link_action_owned_bytes st + link_total gs
     \<and> mp_control_items st' = mp_control_items st \<and> mp_control_owned_bytes st' = mp_control_owned_bytes st"

lemmas admission = admission_within_def admits_def

lemma link_action_bytes_Some: "link_action_bytes link = Some n \<Longrightarrow> n = link_bytes link"
  by (simp add: link_action_bytes_def foldl_checked link_bytes_def)

lemma admit_link_ok:
  assumes "admit_link span st = (span', st')" "fragment_ok (Span span)" "admission_within st"
  shows "fragment_ok (Span span')" "sp_text span' = sp_text span" "admission_within st'"
    "mp_fragment_items st' = mp_fragment_items st" "mp_span_text_bytes st' = mp_span_text_bytes st"
    "mp_link_action_items st' = mp_link_action_items st + length (links_of [Span span'])"
    "mp_link_action_owned_bytes st' = mp_link_action_owned_bytes st + link_total [Span span']"
    "mp_control_items st' = mp_control_items st" "mp_control_owned_bytes st' = mp_control_owned_bytes st"
    "\<not> mp_limits_applied st' \<Longrightarrow> span' = span \<and> \<not> mp_limits_applied st"
  using assms
  by (auto simp: admit_link_def admission_within_def link_total_def checked_add_Some bind_eq_Some_conv
      dest!: link_action_bytes_Some split: option.splits if_splits)

lemma admit_ok:
  "admit_fragments fs st = (gs, st') \<Longrightarrow> list_all fragment_ok fs \<Longrightarrow> admission_within st \<Longrightarrow>
   list_all fragment_ok gs \<and> prefix (controls_of gs) (controls_of fs) \<and> admission_within st' \<and> admits st st' gs
   \<and> (\<not> mp_limits_applied st' \<longrightarrow> gs = fs \<and> \<not> mp_limits_applied st)"
proof (induction fs st arbitrary: gs st' rule: admit_fragments.induct)
  case (2 fragment rest st)
  consider (full) "gs = []" "st' = st\<lparr>mp_limits_applied := True\<rparr>"
    | (control) control hs where "fragment = Control control" "gs = Control control # hs" "mp_fragment_items st < MICRON_DOCUMENT_MAX_FRAGMENTS - 1"
        "admit_fragments rest (st\<lparr>mp_fragment_items := mp_fragment_items st + 1\<rparr>) = (hs, st')"
    | (span) span span' st1 hs where "fragment = Span span" "gs = Span span' # hs" "mp_fragment_items st < MICRON_DOCUMENT_MAX_FRAGMENTS - 1"
        "mp_span_text_bytes st + str_len (sp_text span) \<le> MICRON_DOCUMENT_SPAN_TEXT_MAX_BYTES - str_len MICRON_DOCUMENT_LIMIT_NOTICE"
        "admit_link span (st\<lparr>mp_span_text_bytes := mp_span_text_bytes st + str_len (sp_text span)\<rparr>) = (span', st1)"
        "admit_fragments rest (st1\<lparr>mp_fragment_items := mp_fragment_items st1 + 1\<rparr>) = (hs, st')"
    using 2(3) by (auto simp: checked_add_Some not_le not_less Let_def split: Fragment.splits option.splits if_splits prod.splits)
  then show ?case
  proof cases
    case full
    then show ?thesis using 2(5) by (simp add: admission)
  next
    case control
    have "admission_within (st\<lparr>mp_fragment_items := mp_fragment_items st + 1\<rparr>)" using 2(5) control by (simp add: admission_within_def)
    then show ?thesis using 2(2) [OF _ control(1) control(4)] 2(4) control(1-3) by (simp add: admits_def)
  next
    case span
    have "fragment_ok (Span span)" using 2(4) span(1) by simp
    moreover have "admission_within (st\<lparr>mp_span_text_bytes := mp_span_text_bytes st + str_len (sp_text span)\<rparr>)"
      using 2(5) span(4) by (simp add: admission_within_def)
    ultimately have link: "fragment_ok (Span span')" "sp_text span' = sp_text span" "admission_within st1"
        "mp_fragment_items st1 = mp_fragment_items st"
        "mp_span_text_bytes st1 = mp_span_text_bytes st + str_len (sp_text span)"
        "mp_link_action_items st1 = mp_link_action_items st + length (links_of [Span span'])"
        "mp_link_action_owned_bytes st1 = mp_link_action_owned_bytes st + link_total [Span span']"
        "mp_control_items st1 = mp_control_items st" "mp_control_owned_bytes st1 = mp_control_owned_bytes st"
        "\<not> mp_limits_applied st1 \<Longrightarrow> span' = span \<and> \<not> mp_limits_applied st"
      using admit_link_ok [OF span(5)] by simp_all
    have added: "usize_checked_add (mp_span_text_bytes st) (str_len (sp_text span))
        = Some (mp_span_text_bytes st + str_len (sp_text span))"
      using span(4) by (simp add: checked_add_Some micron_limits)
    have "admission_within (st1\<lparr>mp_fragment_items := mp_fragment_items st1 + 1\<rparr>)"
      using link(3,4) span(3) by (simp add: admission_within_def)
    with 2(1) [OF _ span(1) added _ refl span(5) [symmetric] span(6)] 2(4) span(1,3,4)
    have "list_all fragment_ok hs \<and> prefix (controls_of hs) (controls_of rest) \<and> admission_within st'
        \<and> admits (st1\<lparr>mp_fragment_items := mp_fragment_items st1 + 1\<rparr>) st' hs
        \<and> (\<not> mp_limits_applied st' \<longrightarrow> hs = rest \<and> \<not> mp_limits_applied st1)" by simp
    then show ?thesis using link span(1,2) by (auto simp: admits_def link_total_def split: option.split)
  qed
qed (auto simp: admits_def)

section \<open>Metadata\<close>

definition metadata_ok :: "(rstr, rstr) btree_map \<Rightarrow> bool" where
  "metadata_ok m \<longleftrightarrow> text_map_ok MICRON_METADATA_MAX_ITEMS MICRON_METADATA_MAX_OWNED_BYTES
     MICRON_METADATA_KEY_MAX_BYTES MICRON_METADATA_VALUE_MAX_BYTES m"

interpretation metadata: text_budget MICRON_METADATA_MAX_ITEMS MICRON_METADATA_MAX_OWNED_BYTES
  MICRON_METADATA_KEY_MAX_BYTES MICRON_METADATA_VALUE_MAX_BYTES
  by unfold_locales (simp add: micron_limits)

definition same_counters :: "ParserState \<Rightarrow> ParserState \<Rightarrow> bool" where
  "same_counters st st' \<longleftrightarrow> same_admission st st' \<and> mp_control_items st' = mp_control_items st
     \<and> mp_control_owned_bytes st' = mp_control_owned_bytes st"

lemma apply_metadata_directive_ok:
  assumes "metadata_ok m" "apply_metadata_directive raw_key raw_value st m = (applied, st', m')"
  shows "metadata_ok m' \<and> same_counters st st'"
proof (cases applied)
  case False
  then show ?thesis
    using assms by (auto simp: apply_metadata_directive_def Let_def same_counters_def same_admission_def split: if_splits option.splits)
next
  case True
  define key where "key = str_trimmed raw_key"
  define val where "val = str_trimmed raw_value"
  define retained where "retained = foldl (\<lambda>bytes (k, v). usize_saturating_add bytes (usize_saturating_add (str_len k) (str_len v))) 0
    (filter (\<lambda>(k, _). k \<noteq> key) m)"
  note step = assms(2) [unfolded apply_metadata_directive_def Let_def, folded key_def val_def, folded retained_def]
  have guards: "key \<noteq> []" "str_len key \<le> MICRON_METADATA_KEY_MAX_BYTES" "str_len val \<le> MICRON_METADATA_VALUE_MAX_BYTES"
    "bt_get m key = None \<longrightarrow> length m < MICRON_METADATA_MAX_ITEMS" and m': "m' = bt_insert key val m"
    and fits: "retained + str_len key + str_len val \<le> MICRON_METADATA_MAX_OWNED_BYTES"
    using step True by (auto simp: checked_add_Some bind_eq_Some_conv split: if_splits option.splits)
  have same: "same_counters st st'"
    using step True by (auto simp: same_counters_def same_admission_def split: if_splits option.splits)
  have "text_map_bytes (bt_remove key m) + (str_len key + str_len val) \<le> MICRON_METADATA_MAX_OWNED_BYTES"
    unfolding bt_remove_def bt_retain_def using fits by (intro metadata.retained_exact) (simp add: retained_def)
  then show ?thesis
    using metadata.insert_ok [OF assms(1) [unfolded metadata_ok_def] guards(4,1,2,3)] m' same by (simp add: metadata_ok_def)
qed

section \<open>Pages\<close>

definition page_fragments :: "RenderRow list \<Rightarrow> Fragment list" where
  "page_fragments rows = concat (map rr_fragments rows)"

definition parse_ok :: "Parse \<Rightarrow> bool" where
  "parse_ok p \<longleftrightarrow>
     (let fs = page_fragments (pa_rows p);
          st = pa_state p in
      length (pa_rows p) \<le> MICRON_DOCUMENT_MAX_ROWS - 1 \<and> list_all fragment_ok fs \<and> metadata_ok (pa_metadata p)
      \<and> admission_within st \<and> mp_fragment_items st = length fs \<and> mp_span_text_bytes st = span_bytes fs
      \<and> mp_link_action_items st = length (links_of fs) \<and> mp_link_action_owned_bytes st = link_total fs
      \<and> controls_within st \<and> length (controls_of fs) \<le> mp_control_items st
      \<and> sum_list (map control_bytes (controls_of fs)) \<le> mp_control_owned_bytes st)"

lemma parse_ok_counters:
  "parse_ok p \<Longrightarrow> same_counters (pa_state p) st \<Longrightarrow> metadata_ok m \<Longrightarrow> parse_ok (p\<lparr>pa_state := st, pa_metadata := m, pa_limits_applied := b\<rparr>)"
  by (simp add: parse_ok_def Let_def same_counters_def same_admission_def admission_within_def controls_within_def)

lemma apply_directive_ok: "parse_ok p \<Longrightarrow> parse_ok (apply_directive key val p)"
proof -
  assume ok: "parse_ok p"
  then have "metadata_ok (pa_metadata p)" by (simp add: parse_ok_def Let_def)
  moreover obtain applied st m where step: "apply_metadata_directive key val (pa_state p) (pa_metadata p) = (applied, st, m)"
    by (cases "apply_metadata_directive key val (pa_state p) (pa_metadata p)")
  ultimately have "metadata_ok m \<and> same_counters (pa_state p) st" by (rule apply_metadata_directive_ok)
  then show ?thesis using parse_ok_counters [OF ok] step by (simp add: apply_directive_def)
qed

lemma parse_row_ok:
  assumes "parse_ok p" "parse_line line (pa_state p) = (Some row, st)" "length (pa_rows p) < MICRON_DOCUMENT_MAX_ROWS - 1"
    "admit_row_fragments row st = (row', st')"
  shows "parse_ok (p\<lparr>pa_state := st', pa_rows := pa_rows p @ [row']\<rparr>)"
proof -
  obtain gs where gs: "admit_fragments (rr_fragments row) st = (gs, st')" and row': "row' = row\<lparr>rr_fragments := gs\<rparr>"
    using assms(4) by (auto simp: admit_row_fragments_def split: prod.splits)
  have line: "list_all fragment_ok (rr_fragments row)" "controls_account (pa_state p) st (rr_fragments row)"
    "same_admission (pa_state p) st"
    using parse_line_ok [of "pa_state p" line] assms(1,2) by (simp_all add: line_ok_def row_fragments_def parse_ok_def Let_def)
  then have "admission_within st" using assms(1) by (simp add: parse_ok_def Let_def same_admission_def admission_within_def)
  from admit_ok [OF gs line(1) this] obtain dropped
    where admitted: "list_all fragment_ok gs" "admission_within st'" "admits st st' gs"
      and controls: "controls_of (rr_fragments row) = controls_of gs @ dropped"
    by (auto simp: prefix_def)
  show ?thesis
    using assms(1,3) line(2,3) admitted
    by (simp add: parse_ok_def Let_def row' page_fragments_def accounting admits_def controls)
qed

text \<open>What becomes of one line.\<close>

lemma parse_lines_cases:
  obtains (long) "str_len line > MICRON_DOCUMENT_MAX_LINE_BYTES"
      "parse_lines (line # rest) p = parse_lines rest (p\<lparr>pa_limits_applied := True\<rparr>)"
  | (directive) key val where "line_directive line = Some (key, val)"
      "parse_lines (line # rest) p = parse_lines rest (apply_directive key val p)"
  | (comment) "line_directive line = None" "starts_with (lit ''#!'') line" "parse_lines (line # rest) p = parse_lines rest p"
  | (silent) st where "line_directive line = None" "\<not> starts_with (lit ''#!'') line" "parse_line line (pa_state p) = (None, st)"
      "parse_lines (line # rest) p = parse_lines rest (p\<lparr>pa_state := st\<rparr>)"
  | (full) row st where "parse_line line (pa_state p) = (Some row, st)"
      "parse_lines (line # rest) p = p\<lparr>pa_state := st, pa_limits_applied := True\<rparr>"
  | (row) row st row' st' where "line_directive line = None" "\<not> starts_with (lit ''#!'') line" "parse_line line (pa_state p) = (Some row, st)"
      "length (pa_rows p) < MICRON_DOCUMENT_MAX_ROWS - 1" "admit_row_fragments row st = (row', st')"
      "parse_lines (line # rest) p = parse_lines rest (p\<lparr>pa_state := st', pa_rows := pa_rows p @ [row']\<rparr>)"
proof (cases "str_len line > MICRON_DOCUMENT_MAX_LINE_BYTES")
  case True
  then show thesis by (intro long) simp_all
next
  case False
  note short = False
  show thesis
  proof (cases "line_directive line")
    case (Some pair)
    then show thesis using short by (cases pair) (auto intro: directive)
  next
    case None
    note plain = None
    show thesis
    proof (cases "starts_with (lit ''#!'') line")
      case True
      then show thesis using short plain by (intro comment) simp_all
    next
      case False
      obtain row st where line: "parse_line line (pa_state p) = (row, st)" by fastforce
      obtain row' st' where admit: "admit_row_fragments (the row) st = (row', st')" by fastforce
      consider "row = None" | r where "row = Some r" "length (pa_rows p) \<ge> MICRON_DOCUMENT_MAX_ROWS - 1"
        | r where "row = Some r" "length (pa_rows p) < MICRON_DOCUMENT_MAX_ROWS - 1" by (cases row) force+
      then show thesis
      proof cases
        case 1
        then show thesis using short plain False line by (intro silent) simp_all
      next
        case (2 r)
        then show thesis using short plain False line by (intro full) simp_all
      next
        case (3 r)
        then show thesis using short plain False line admit by (intro row) simp_all
      qed
    qed
  qed
qed

lemma parse_ok_line:
  assumes "parse_ok p" "parse_line line (pa_state p) = (row, st)"
  shows "parse_ok (p\<lparr>pa_state := st\<rparr>)" "parse_ok (p\<lparr>pa_state := st, pa_limits_applied := b\<rparr>)"
  using parse_line_ok [of "pa_state p" line] assms
  by (simp_all add: parse_ok_def Let_def line_ok_def accounting admission_within_def)

lemma parse_lines_ok: "parse_ok p \<Longrightarrow> parse_ok (parse_lines ls p)"
proof (induction ls arbitrary: p)
  case (Cons line rest)
  show ?case
  proof (cases rule: parse_lines_cases [of line rest p])
    case long
    have "parse_ok (p\<lparr>pa_limits_applied := True\<rparr>)" using Cons.prems by (simp add: parse_ok_def)
    then show ?thesis using Cons.IH long(2) by simp
  next
    case (row row st row' st')
    then show ?thesis using Cons.IH parse_row_ok [OF Cons.prems row(3,4,5)] by simp
  qed (use Cons parse_ok_line [OF Cons.prems] apply_directive_ok in simp_all)
qed simp

definition document_ok :: "Document \<Rightarrow> bool" where
  "document_ok d \<longleftrightarrow>
     (let fs = page_fragments (doc_rows d) in
      length (doc_rows d) \<le> MICRON_DOCUMENT_MAX_ROWS \<and> length fs \<le> MICRON_DOCUMENT_MAX_FRAGMENTS
      \<and> str_len (text_of fs) \<le> MICRON_DOCUMENT_SPAN_TEXT_MAX_BYTES
      \<and> length (links_of fs) \<le> MICRON_DOCUMENT_MAX_LINK_ACTIONS
      \<and> sum_list (map link_bytes (links_of fs)) \<le> MICRON_DOCUMENT_LINK_ACTIONS_MAX_BYTES
      \<and> length (controls_of fs) \<le> MICRON_CONTROL_MAX_ITEMS
      \<and> sum_list (map control_bytes (controls_of fs)) \<le> MICRON_CONTROL_MAX_OWNED_BYTES
      \<and> list_all fragment_ok fs \<and> metadata_ok (doc_metadata d))"

definition parse_start :: Parse where
  "parse_start = \<lparr>pa_rows = [], pa_metadata = [], pa_limits_applied = False, pa_state = parser_state_default\<rparr>"

definition parse_limited :: "Parse \<Rightarrow> bool" where
  "parse_limited p \<longleftrightarrow> pa_limits_applied p \<or> mp_limits_applied (pa_state p)"

lemma parse_start_ok: "parse_ok parse_start"
  by (simp add: parse_ok_def parse_start_def page_fragments_def parser_state_default_def admission_within_def
      controls_within_def metadata_ok_def text_map_ok_def text_map_bytes_def)

lemma parse_micron_start:
  "parse_micron markup = (let p = parse_lines (str_lines markup) parse_start in
     \<lparr>doc_rows = (if parse_limited p then pa_rows p @ [limit_notice_row (pa_state p)] else pa_rows p),
      doc_metadata = pa_metadata p, doc_limits_applied = parse_limited p\<rparr>)"
  by (simp add: parse_micron_def parse_start_def parse_limited_def Let_def)

text \<open>
  C14: whatever the markup, the parsed page keeps every limit: at most 16384 rows, 65536 fragments and 4 MiB of
  text with the truncation notice included, at most 4096 link actions and 128 form controls of 4 MiB each in
  all, at most 64 metadata entries of 64 KiB in all under distinct non-empty keys, and each link, control and
  entry within its own limits.
\<close>

theorem micron_document_bounded: "document_ok (parse_micron markup)"
proof -
  define p where "p = parse_lines (str_lines markup) parse_start"
  have "parse_ok p" unfolding p_def by (rule parse_lines_ok [OF parse_start_ok])
  moreover have "str_len MICRON_DOCUMENT_LIMIT_NOTICE \<le> MICRON_DOCUMENT_SPAN_TEXT_MAX_BYTES"
    by (simp add: MICRON_DOCUMENT_LIMIT_NOTICE_def lit_def len_utf8_def chr_def micron_limits)
  ultimately show ?thesis
    unfolding parse_micron_start Let_def p_def [symmetric]
    by (auto simp: document_ok_def parse_ok_def Let_def page_fragments_def limit_notice_row_def plain_span_def span_bytes_def
        link_total_def admission_within_def controls_within_def micron_limits)
qed

section \<open>Nothing left out silently\<close>

text \<open>The page without the limits on lines, rows, fragments and links: each line gives the row \<^verbatim>\<open>parse_line\<close> makes of it.\<close>

fun page_rows :: "rstr list \<Rightarrow> (rstr, rstr) btree_map \<Rightarrow> ParserState \<Rightarrow> RenderRow list" where
  "page_rows [] m st = []"
| "page_rows (line # rest) m st =
     (case line_directive line of
        Some (key, val) \<Rightarrow> (case apply_metadata_directive key val st m of (_, st, m) \<Rightarrow> page_rows rest m st)
      | None \<Rightarrow>
          if starts_with (lit ''#!'') line then page_rows rest m st
          else case parse_line line st of
            (None, st) \<Rightarrow> page_rows rest m st
          | (Some row, st) \<Rightarrow> row # page_rows rest m st)"

text \<open>The counters of admission do not reach the rows.\<close>

definition unadmitted :: "ParserState \<Rightarrow> ParserState" where
  "unadmitted st = st\<lparr>mp_fragment_items := 0, mp_span_text_bytes := 0, mp_link_action_items := 0,
     mp_link_action_owned_bytes := 0, mp_limits_applied := False\<rparr>"

definition unadmitted_inline :: "Inline \<Rightarrow> Inline" where
  "unadmitted_inline il = il\<lparr>il_state := unadmitted (il_state il)\<rparr>"

lemma unadmitted_simps [simp]:
  "mp_literal (unadmitted st) = mp_literal st" "mp_depth (unadmitted st) = mp_depth st" "mp_align (unadmitted st) = mp_align st"
  "mp_default_align (unadmitted st) = mp_default_align st" "mp_default_fg (unadmitted st) = mp_default_fg st"
  "mp_default_bg (unadmitted st) = mp_default_bg st" "mp_style (unadmitted st) = mp_style st"
  "mp_control_items (unadmitted st) = mp_control_items st" "mp_control_owned_bytes (unadmitted st) = mp_control_owned_bytes st"
  by (simp_all add: unadmitted_def)

lemma unadmitted_update:
  "(unadmitted st)\<lparr>mp_style := style\<rparr> = unadmitted (st\<lparr>mp_style := style\<rparr>)"
  "(unadmitted st)\<lparr>mp_align := align\<rparr> = unadmitted (st\<lparr>mp_align := align\<rparr>)"
  "(unadmitted st)\<lparr>mp_depth := depth\<rparr> = unadmitted (st\<lparr>mp_depth := depth\<rparr>)"
  "(unadmitted st)\<lparr>mp_literal := b\<rparr> = unadmitted (st\<lparr>mp_literal := b\<rparr>)"
  "(unadmitted st)\<lparr>mp_default_fg := fg\<rparr> = unadmitted (st\<lparr>mp_default_fg := fg\<rparr>)"
  "(unadmitted st)\<lparr>mp_default_bg := bg\<rparr> = unadmitted (st\<lparr>mp_default_bg := bg\<rparr>)"
  "(unadmitted st)\<lparr>mp_default_align := align\<rparr> = unadmitted (st\<lparr>mp_default_align := align\<rparr>)"
  "(unadmitted st)\<lparr>mp_control_items := n\<rparr> = unadmitted (st\<lparr>mp_control_items := n\<rparr>)"
  "(unadmitted st)\<lparr>mp_control_owned_bytes := n\<rparr> = unadmitted (st\<lparr>mp_control_owned_bytes := n\<rparr>)"
  by (simp_all add: unadmitted_def)

lemma unadmitted_inline_simps [simp]:
  "il_fragments (unadmitted_inline il) = il_fragments il" "il_buffer (unadmitted_inline il) = il_buffer il"
  "il_escape (unadmitted_inline il) = il_escape il" "il_style (unadmitted_inline il) = il_style il"
  "il_state (unadmitted_inline il) = unadmitted (il_state il)"
  by (simp_all add: unadmitted_inline_def)

lemmas unadmitted_steps = unadmitted_update unadmitted_inline_def

lemma unadmitted_ops:
  "(unadmitted_inline il)\<lparr>il_escape := b\<rparr> = unadmitted_inline (il\<lparr>il_escape := b\<rparr>)"
  "flush_text (unadmitted_inline il) = unadmitted_inline (flush_text il)"
  "push_text s (unadmitted_inline il) = unadmitted_inline (push_text s il)"
  "push_fragment f (unadmitted_inline il) = unadmitted_inline (push_fragment f il)"
  "set_fg fg (unadmitted_inline il) = unadmitted_inline (set_fg fg il)"
  "set_bg bg (unadmitted_inline il) = unadmitted_inline (set_bg bg il)"
  "toggle_underline (unadmitted_inline il) = unadmitted_inline (toggle_underline il)"
  "toggle_bold (unadmitted_inline il) = unadmitted_inline (toggle_bold il)"
  "toggle_italic (unadmitted_inline il) = unadmitted_inline (toggle_italic il)"
  "reset_style (unadmitted_inline il) = unadmitted_inline (reset_style il)"
  "set_align align (unadmitted_inline il) = unadmitted_inline (set_align align il)"
  by (simp_all add: unadmitted_steps flush_text_def push_text_def push_fragment_def set_fg_def set_bg_def toggle_underline_def
      toggle_bold_def toggle_italic_def reset_style_def set_align_def Let_def)

lemma unadmitted_push_link: "push_link raw parse lhs rhs (unadmitted_inline il) = unadmitted_inline (push_link raw parse lhs rhs il)"
  by (simp add: push_link_def unadmitted_ops split: option.split)

lemma unadmitted_push_control: "push_control raw (unadmitted_inline il) = unadmitted_inline (push_control raw il)"
  by (simp add: push_control_def Let_def unadmitted_ops push_fragment_def unadmitted_steps split: option.split prod.split)

lemma unadmitted_command:
  "inline_command k ks (unadmitted_inline il) = apsnd unadmitted_inline (inline_command k ks il)"
  unfolding inline_command_def if_distrib [where f = "apsnd unadmitted_inline"]
  by (intro if_cong refl; simp add: unadmitted_ops unadmitted_push_link unadmitted_push_control Let_def
      split: list.split option.split prod.split)

lemma unadmitted_loop: "inline_loop cs (unadmitted_inline il) = unadmitted_inline (inline_loop cs il)"
proof (induction cs il rule: inline_loop.induct)
  case (2 c cs il)
  show ?case
  proof (cases "c = BACKSLASH")
    case True
    then show ?thesis using 2(1) by (cases "il_escape il") (simp_all add: unadmitted_ops)
  next
    case False
    note other = False
    show ?thesis
    proof (cases "c \<noteq> chr CHR ''`'' \<or> il_escape il")
      case True
      then show ?thesis using 2(2) other by (simp add: unadmitted_ops)
    next
      case False
      then show ?thesis using 2(3) other
        by (cases cs) (simp_all add: unadmitted_ops unadmitted_command split: prod.split)
    qed
  qed
qed simp

lemma unadmitted_parse_inline:
  "parse_inline_and_controls_with_style line (unadmitted st) style pre_escape
   = apsnd unadmitted (parse_inline_and_controls_with_style line st style pre_escape)"
  "parse_inline_and_controls line (unadmitted st) pre_escape = apsnd unadmitted (parse_inline_and_controls line st pre_escape)"
proof -
  have start: "\<lparr>il_fragments = [], il_buffer = [], il_escape = pre_escape, il_style = style, il_state = unadmitted st\<rparr>
      = unadmitted_inline \<lparr>il_fragments = [], il_buffer = [], il_escape = pre_escape, il_style = style, il_state = st\<rparr>" for style
    by (simp add: unadmitted_inline_def)
  show "parse_inline_and_controls_with_style line (unadmitted st) style pre_escape
     = apsnd unadmitted (parse_inline_and_controls_with_style line st style pre_escape)" for style
    by (simp add: parse_inline_and_controls_with_style_def start unadmitted_loop unadmitted_ops unadmitted_update Let_def)
  then show "parse_inline_and_controls line (unadmitted st) pre_escape
      = apsnd unadmitted (parse_inline_and_controls line st pre_escape)"
    by (simp add: parse_inline_and_controls_def)
qed

lemma unadmitted_rows: "blank_row (unadmitted st) line = blank_row st line" "parse_partial raw (unadmitted st) line = parse_partial raw st line"
  by (simp_all add: blank_row_def parse_partial_def)

lemma unadmitted_content:
  "parse_content line logical pre_escape (unadmitted st) = apsnd unadmitted (parse_content line logical pre_escape st)"
  by (simp add: parse_content_def Let_def unadmitted_parse_inline unadmitted_update split: prod.split)

lemma unadmitted_line: "parse_line line (unadmitted st) = apsnd unadmitted (parse_line line st)"
proof (induction line arbitrary: st rule: length_induct)
  case (1 line)
  have prefixed: "prefix_state logical (unadmitted st) = unadmitted (prefix_state logical st)" for logical
    by (simp add: prefix_state_def coloured_def unadmitted_update split: option.split)
  show ?case
  proof (cases rule: parse_line_cases [where line = line and st = st])
    case content
    then have content': "\<not> mp_literal (unadmitted st)" by simp
    have "parse_line (tl (prefix_rest (line_logical line))) (unadmitted st1) = apsnd unadmitted (parse_line (tl (prefix_rest (line_logical line))) st1)"
      if "resets_depth (prefix_rest (line_logical line))" for st1
      using 1 prefix_rest_shorter [OF content(3) that] by blast
    then show ?thesis
      unfolding parse_line_eqs(6) [OF content refl refl] parse_line_eqs(6) [OF content' content(2-5) refl refl] prefixed
      by (simp add: unadmitted_rows unadmitted_content unadmitted_update split: option.split)
  qed (simp_all add: parse_line_eqs unadmitted_update unadmitted_rows literal_row_def coloured_def)
qed

lemma unadmitted_directive:
  "apply_metadata_directive key val (unadmitted st) m
   = (case apply_metadata_directive key val st m of (applied, st', m') \<Rightarrow> (applied, unadmitted st', m'))"
  by (simp add: apply_metadata_directive_def Let_def unadmitted_update if_distrib [of unadmitted]
      if_distrib [of "case_prod (\<lambda>applied (st', m'). (applied, unadmitted st', m'))"]
      option.case_distrib [of "case_prod (\<lambda>applied (st', m'). (applied, unadmitted st', m'))"]
      cong: if_cong option.case_cong split del: if_split)

lemma unadmitted_admission:
  "unadmitted (snd (admit_link span st)) = unadmitted st"
  "unadmitted (snd (admit_fragments fs st)) = unadmitted st"
proof -
  show link: "unadmitted (snd (admit_link span st)) = unadmitted st" for span st
    by (simp add: admit_link_def unadmitted_def split: option.split)
  show "unadmitted (snd (admit_fragments fs st)) = unadmitted st"
  proof (induction fs arbitrary: st)
    case (Cons fragment rest)
    have update: "unadmitted (st\<lparr>mp_fragment_items := n\<rparr>) = unadmitted st" "unadmitted (st\<lparr>mp_span_text_bytes := n\<rparr>) = unadmitted st"
      "unadmitted (st\<lparr>mp_limits_applied := b\<rparr>) = unadmitted st" for n b st
      by (simp_all add: unadmitted_def)
    note link' = link [where st = "st\<lparr>mp_span_text_bytes := n\<rparr>" for n, unfolded update]
    show ?case
      using Cons.IH link' by (simp add: update Let_def split_beta split: Fragment.split option.split)
  qed simp
qed

lemma admit_row_unlimited:
  assumes "parse_ok p" "parse_line line (pa_state p) = (Some row, st)" "admit_row_fragments row st = (row', st')"
  shows "unadmitted st' = unadmitted st" "\<not> mp_limits_applied st' \<Longrightarrow> row' = row \<and> \<not> mp_limits_applied (pa_state p)"
proof -
  obtain gs where gs: "admit_fragments (rr_fragments row) st = (gs, st')" and row': "row' = row\<lparr>rr_fragments := gs\<rparr>"
    using assms(3) by (auto simp: admit_row_fragments_def split: prod.splits)
  have line: "list_all fragment_ok (rr_fragments row)" "same_admission (pa_state p) st"
    using parse_line_ok [of "pa_state p" line] assms(1,2) by (simp_all add: line_ok_def row_fragments_def parse_ok_def Let_def)
  then have "admission_within st" using assms(1) by (simp add: parse_ok_def Let_def same_admission_def admission_within_def)
  from admit_ok [OF gs line(1) this] show "\<not> mp_limits_applied st' \<Longrightarrow> row' = row \<and> \<not> mp_limits_applied (pa_state p)"
    using line(2) row' by (simp add: same_admission_def)
  show "unadmitted st' = unadmitted st" using unadmitted_admission(2) [of "rr_fragments row" st] gs by simp
qed

lemma parse_lines_unlimited:
  "parse_ok p \<Longrightarrow> \<not> parse_limited (parse_lines ls p) \<Longrightarrow>
   \<not> parse_limited p \<and> pa_rows (parse_lines ls p) = pa_rows p @ page_rows ls (pa_metadata p) (unadmitted (pa_state p))"
proof (induction ls arbitrary: p)
  case (Cons line rest)
  have same_limit: "mp_limits_applied st = mp_limits_applied (pa_state p)" if "parse_line line (pa_state p) = (row, st)" for row st
    using parse_line_ok [of "pa_state p" line] Cons.prems(1) that by (simp add: parse_ok_def Let_def line_ok_def same_admission_def)
  note unadmitted = unadmitted_line [of line "pa_state p"]
  show ?case
  proof (cases rule: parse_lines_cases [where line = line and rest = rest and p = p])
    case long
    have "parse_ok (p\<lparr>pa_limits_applied := True\<rparr>)" using Cons.prems by (simp add: parse_ok_def)
    with Cons.IH [OF this] Cons.prems(2) long(2) show ?thesis by (simp add: parse_limited_def)
  next
    case (directive key val)
    obtain applied st m where step: "apply_metadata_directive key val (pa_state p) (pa_metadata p) = (applied, st, m)"
      by (cases "apply_metadata_directive key val (pa_state p) (pa_metadata p)")
    have "mp_limits_applied st = mp_limits_applied (pa_state p)"
      using apply_metadata_directive_ok [OF _ step] Cons.prems(1)
      by (simp add: parse_ok_def Let_def same_counters_def same_admission_def)
    moreover have "apply_directive key val p = p\<lparr>pa_state := st, pa_metadata := m, pa_limits_applied := pa_limits_applied p \<or> \<not> applied\<rparr>"
      using step by (simp add: apply_directive_def)
    ultimately show ?thesis
      using Cons.IH [OF apply_directive_ok [OF Cons.prems(1), of key val]] Cons.prems(2) directive(1) step
      unfolding directive(2) by (auto simp: parse_limited_def unadmitted_directive)
  next
    case (silent st)
    then show ?thesis
      using Cons.IH [OF parse_ok_line(1) [OF Cons.prems(1) silent(3)]] Cons.prems(2) same_limit [OF silent(3)]
      by (simp add: parse_limited_def unadmitted)
  next
    case (row row st row' st')
    note admitted = admit_row_unlimited [OF Cons.prems(1) row(3,5)]
    have "page_rows (line # rest) (pa_metadata p) (unadmitted (pa_state p)) = row # page_rows rest (pa_metadata p) (unadmitted st)"
      using row(1,2,3) by (simp add: unadmitted)
    moreover have later: "\<not> parse_limited (p\<lparr>pa_state := st', pa_rows := pa_rows p @ [row']\<rparr>)
        \<and> pa_rows (parse_lines (line # rest) p) = (pa_rows p @ [row']) @ page_rows rest (pa_metadata p) (unadmitted st')"
      using Cons.IH [OF parse_row_ok [OF Cons.prems(1) row(3,4,5)]] Cons.prems(2) unfolding row(6) by simp
    moreover have "row' = row" "\<not> mp_limits_applied (pa_state p)" using admitted(2) later by (simp_all add: parse_limited_def)
    ultimately show ?thesis using admitted(1) by (simp add: parse_limited_def del: page_rows.simps parse_lines.simps)
  next
    case comment
    then show ?thesis using Cons.IH [OF Cons.prems(1)] Cons.prems(2) by simp
  next
    case (full row st)
    then show ?thesis using Cons.prems(2) unfolding full(2) by (simp add: parse_limited_def)
  qed
qed simp

text \<open>
  C15: a page that is not marked as limited is the page of the unlimited parser, row for row; a page that is
  marked ends with the truncation notice. So no line, row, fragment or link goes missing silently.
\<close>

theorem micron_no_silent_truncation:
  "if doc_limits_applied (parse_micron markup)
   then (\<exists>st. last (doc_rows (parse_micron markup)) = limit_notice_row st) \<and> doc_rows (parse_micron markup) \<noteq> []
   else doc_rows (parse_micron markup) = page_rows (str_lines markup) [] parser_state_default"
proof -
  define p where "p = parse_lines (str_lines markup) parse_start"
  have "unadmitted (pa_state parse_start) = parser_state_default"
    by (simp add: unadmitted_def parse_start_def parser_state_default_def)
  then have "\<not> parse_limited p \<Longrightarrow> pa_rows p = page_rows (str_lines markup) [] parser_state_default"
    using parse_lines_unlimited [OF parse_start_ok, of "str_lines markup"] by (simp add: p_def) (simp add: parse_start_def)
  then show ?thesis unfolding parse_micron_start Let_def p_def [symmetric] by auto
qed

section \<open>Text that comes out as it was written\<close>

definition escape_text :: "rstr \<Rightarrow> rstr" where
  "escape_text s = concat (map (\<lambda>c. if c = chr CHR ''`'' \<or> c = BACKSLASH then [BACKSLASH, c] else [c]) s)"

lemma escape_text_simps:
  "escape_text [] = []"
  "escape_text (c # s) = (if c = chr CHR ''`'' \<or> c = BACKSLASH then [BACKSLASH, c] else [c]) @ escape_text s"
  by (simp_all add: escape_text_def)

lemma push_text_append [simp]: "push_text t (push_text s il) = push_text (s @ t) il" "push_text [] il = il"
  by (simp_all add: push_text_def)

lemma inline_loop_escape: "\<not> il_escape il \<Longrightarrow> inline_loop (escape_text s) il = push_text s il"
proof (induction s arbitrary: il)
  case (Cons c s)
  have kept: "push_text [c] (il\<lparr>il_escape := False\<rparr>) = push_text [c] il" using Cons.prems by (cases il) (simp add: push_text_def)
  have one: "inline_loop (escape_text s) (push_text [c] il) = push_text (c # s) il"
    using Cons.IH [of "push_text [c] il"] Cons.prems by (simp add: push_text_def)
  have "chr CHR ''`'' \<noteq> BACKSLASH" by (simp add: chr_def BACKSLASH_def)
  then show ?case
    using one kept Cons.prems by (auto simp: escape_text_simps)
qed (simp add: escape_text_simps)

lemma text_of_autolink: "text_of (autolink_lxmf s style) = s"
proof (induction s style rule: autolink_lxmf.induct)
  case (1 s style)
  show ?case
  proof (cases "split_at_pattern (lit ''lxmf@'') s")
    case None
    then show ?thesis by (simp add: autolink_lxmf.simps [of s] plain_span_def)
  next
    case (Some pair)
    obtain prior candidate where pair: "pair = (prior, candidate)" by fastforce
    note IH = 1 [OF Some [unfolded pair] refl refl]
    have "prior @ candidate = s" using split_at_pattern_Some Some pair by blast
    then show ?thesis using IH by (auto simp: autolink_lxmf.simps [of s] Some pair plain_span_def Let_def)
  qed
qed


definition escape_literal :: "rstr \<Rightarrow> rstr" where
  "escape_literal line = (if line = lit ''`='' then BACKSLASH # lit ''`='' else line)"

definition literal_line :: "rstr \<Rightarrow> bool" where
  "literal_line line \<longleftrightarrow> line \<noteq> BACKSLASH # lit ''`='' \<and> line_directive line = None \<and> \<not> starts_with (lit ''#!'') line"

lemma plain_marks: "line_directive (lit ''`='') = None" "\<not> starts_with (lit ''#!'') (lit ''`='')"
  "line_directive (BACKSLASH # lit ''`='') = None" "\<not> starts_with (lit ''#!'') (BACKSLASH # lit ''`='')"
  by code_simp+

lemma literal_rows:
  "list_all literal_line ls \<Longrightarrow> mp_literal st \<Longrightarrow>
   page_rows (map escape_literal ls @ rest) m st = map (\<lambda>line. literal_row (escape_literal line) st) ls @ page_rows rest m st"
proof (induction ls)
  case (Cons line ls)
  have "escape_literal line \<noteq> lit ''`=''" by (simp add: escape_literal_def BACKSLASH_def lit_def chr_def)
  moreover have "line_directive (escape_literal line) = None" "\<not> starts_with (lit ''#!'') (escape_literal line)"
    using Cons.prems plain_marks by (simp_all add: escape_literal_def literal_line_def)
  ultimately show ?case using Cons by (simp add: parse_line_eqs)
qed simp

text \<open>
  between two \<^verbatim>\<open>`=\<close> lines the page shows each line as it is, one unlinked span in the style of the page,
  with \<^verbatim>\<open>`=\<close> itself written as \<^verbatim>\<open>\`=\<close>, and continues after the block as if it were not there, for lines
  that are neither directives nor \<^verbatim>\<open>#!\<close> comments.
\<close>

theorem micron_literal_block:
  assumes "\<not> mp_literal st" "list_all literal_line ls"
  shows "\<exists>rows. page_rows (lit ''`='' # map escape_literal ls @ lit ''`='' # rest) m st = rows @ page_rows rest m st
     \<and> map rr_fragments rows = map (\<lambda>line. [plain_span line (mp_style st)]) ls"
proof -
  define st1 where "st1 = st\<lparr>mp_literal := True\<rparr>"
  have "st1\<lparr>mp_literal := False\<rparr> = st" "mp_literal st1" "mp_style st1 = mp_style st"
    using assms(1) by (cases st; simp add: st1_def)+
  moreover have "rr_fragments (literal_row (escape_literal line) st1) = [plain_span line (mp_style st1)]" if "literal_line line" for line
    using that by (auto simp: literal_row_def escape_literal_def literal_line_def lit_def)
  ultimately show ?thesis
    using literal_rows [OF assms(2), of st1 "lit ''`='' # rest" m] assms
    by (auto simp: parse_line_eqs plain_marks list_all_iff simp flip: st1_def
        intro!: exI [of _ "map (\<lambda>line. literal_row (escape_literal line) st1) ls"])
qed

theorem micron_literal_block_witness:
  "\<exists>rows. page_rows (lit ''`='' # map escape_literal [lit ''>a'', lit ''`=''] @ lit ''`='' # [lit ''b'']) [] parser_state_default
       = rows @ page_rows [lit ''b''] [] parser_state_default
     \<and> map rr_fragments rows = [[plain_span (lit ''>a'') text_style_default], [plain_span (lit ''`='') text_style_default]]"
proof -
  have "list_all literal_line [lit ''>a'', lit ''`='']" by code_simp
  then show ?thesis
    using micron_literal_block [of parser_state_default "[lit ''>a'', lit ''`='']" "[lit ''b'']" "[]"]
    by (simp add: parser_state_default_def)
qed

text \<open>
  a line of a literal block that looks like a directive is not shown: it is taken as one before the state
  of the block is looked at, and sets the default colour of the page.
\<close>

theorem literal_block_swallows_directives:
  "doc_rows (parse_micron (lit ''`='' @ [10] @ lit ''fg=123'' @ [10] @ lit ''`='')) = []
   \<and> doc_metadata (parse_micron (lit ''`='' @ [10] @ lit ''fg=123'' @ [10] @ lit ''`='')) = [(lit ''fg'', lit ''123'')]"
  by code_simp

text \<open>
  the colours of a heading stay on after its line: the next line of plain text is written in them.
\<close>

theorem heading_colours_leak:
  "map (map (\<lambda>s. (sp_text s, ts_fg (sp_style s), ts_bg (sp_style s))) \<circ> spans_of \<circ> rr_fragments)
     (doc_rows (parse_micron (lit ''>A'' @ [10] @ lit ''b'')))
   = [[(lit ''A'', Some (lit ''222''), Some (lit ''bbb''))], [(lit ''b'', Some (lit ''222''), Some (lit ''bbb''))]]"
  by code_simp

end
