(* ===== verification/Browser_Partials.thy ===== *)
theory Browser_Partials
  imports Micron_Parser "HOL-Library.Code_Target_Nat"
begin

text \<open>
  Partials of a page (\<^verbatim>\<open>browser/partials.rs\<close>): lines that are filled by content fetched separately. The
  hash of a line is computed by SHA-256, and the refresh interval by \<^verbatim>\<open>f64\<close> parsing and \<^verbatim>\<open>max(1.0)\<close>; both are
  parameters, and no code reads the interval here.
\<close>

definition PARTIAL_ID_MAX_BYTES :: nat where "PARTIAL_ID_MAX_BYTES = 256"
definition PARTIAL_SPEC_MAX_ITEMS :: nat where "PARTIAL_SPEC_MAX_ITEMS = 256"
definition PARTIAL_SPECS_MAX_BYTES :: nat where "PARTIAL_SPECS_MAX_BYTES = 1024 * 1024"

type_synonym f64 = u64

text \<open>\<^verbatim>\<open>value.parse::<f64>().ok().map(|value| value.max(1.0))\<close> and the digest of bytes.\<close>

record PartialEnv =
  pe_refresh :: "rstr \<Rightarrow> f64 option"
  pe_sha256 :: "bytes \<Rightarrow> bytes"

record PartialSpec =
  ps_slot :: rstr
  ps_line_index :: nat
  ps_target :: rstr
  ps_refresh_secs :: "f64 option"
  ps_fields :: "rstr list"
  ps_id :: "rstr option"
  ps_loop_count :: "u32 option"
  ps_remaining :: "u32 option"

record PartialDescriptor =
  pd_target :: rstr
  pd_refresh_secs :: "f64 option"
  pd_fields :: "rstr list"
  pd_id :: "rstr option"
  pd_loop_count :: "u32 option"

definition partial_descriptor_default :: PartialDescriptor where
  "partial_descriptor_default = \<lparr>pd_target = [], pd_refresh_secs = None, pd_fields = [], pd_id = None, pd_loop_count = None\<rparr>"

definition partial_loop_count :: "rstr \<Rightarrow> u32 option" where
  "partial_loop_count val = map_option (\<lambda>count. word_of_int (max count 0)) (parse_i64 val)"

text \<open>The loop over the fields, with their number and bytes so far.\<close>

fun partial_fields :: "rstr list \<Rightarrow> nat \<Rightarrow> nat \<Rightarrow> PartialDescriptor \<Rightarrow> PartialDescriptor option" where
  "partial_fields [] field_items field_bytes d = Some d"
| "partial_fields (field # rest) field_items field_bytes d =
     (if field_items \<ge> MICRON_LINK_MAX_FIELDS \<or> str_len field > MICRON_LINK_FIELD_MAX_BYTES then None
      else
        case usize_checked_add field_bytes (str_len field) of
          None \<Rightarrow> None
        | Some field_bytes \<Rightarrow>
            if field_bytes > MICRON_LINK_FIELDS_MAX_BYTES then None
            else
              case strip_prefix (lit ''pid='') field of
                Some val \<Rightarrow>
                  if str_len val > PARTIAL_ID_MAX_BYTES then None
                  else partial_fields rest (field_items + 1) field_bytes (d\<lparr>pd_id := Some val\<rparr>)
              | None \<Rightarrow>
                  (case strip_prefix (lit ''loop='') field of
                     Some val \<Rightarrow> partial_fields rest (field_items + 1) field_bytes (d\<lparr>pd_loop_count := partial_loop_count val\<rparr>)
                   | None \<Rightarrow> partial_fields rest (field_items + 1) field_bytes (d\<lparr>pd_fields := pd_fields d @ [field]\<rparr>)))"

definition try_parse_partial_descriptor :: "PartialEnv \<Rightarrow> rstr \<Rightarrow> PartialDescriptor option" where
  "try_parse_partial_descriptor env raw =
     (let descriptor = takeWhile (\<lambda>c. c \<noteq> chr CHR ''}'') raw in
      if str_len descriptor > MICRON_LINK_RAW_MAX_BYTES then None
      else
        let parts = str_split (\<lambda>c. c = chr CHR ''`'') descriptor;
            part = (\<lambda>i. if i < length parts then Some (parts ! i) else None);
            target = parts ! 0 in
        if target = [] \<or> str_len target > MICRON_LINK_TARGET_MAX_BYTES then None
        else
          let d = partial_descriptor_default\<lparr>pd_target := target,
                pd_refresh_secs := (case part 1 of None \<Rightarrow> None | Some val \<Rightarrow> if val = [] then None else pe_refresh env val)\<rparr> in
          case part 2 of
            None \<Rightarrow> Some d
          | Some raw_fields \<Rightarrow>
              partial_fields (filter (\<lambda>field. field \<noteq> []) (str_split (\<lambda>c. c = chr CHR ''|'') raw_fields)) 0 0 d)"

definition parse_partial_descriptor :: "PartialEnv \<Rightarrow> rstr \<Rightarrow> PartialDescriptor" where
  "parse_partial_descriptor env raw =
     (case try_parse_partial_descriptor env raw of None \<Rightarrow> partial_descriptor_default | Some d \<Rightarrow> d)"

definition line_hash :: "PartialEnv \<Rightarrow> rstr \<Rightarrow> rstr" where
  "line_hash env line = take 8 (lower_hex (pe_sha256 env (encode_utf8 line)))"

definition partial_slot :: "PartialEnv \<Rightarrow> PartialDescriptor \<Rightarrow> nat \<Rightarrow> rstr \<Rightarrow> rstr" where
  "partial_slot env parsed line_index line =
     (case pd_id parsed of None \<Rightarrow> lit ''partial'' | Some i \<Rightarrow> i) @ lit '':'' @ show_num line_index @ lit '':'' @ line_hash env line"

definition partial_spec :: "PartialEnv \<Rightarrow> PartialDescriptor \<Rightarrow> nat \<Rightarrow> rstr \<Rightarrow> PartialSpec" where
  "partial_spec env parsed line_index line =
     \<lparr>ps_slot = partial_slot env parsed line_index line, ps_line_index = line_index, ps_target = pd_target parsed,
      ps_refresh_secs = pd_refresh_secs parsed, ps_fields = pd_fields parsed, ps_id = pd_id parsed,
      ps_loop_count = pd_loop_count parsed, ps_remaining = pd_loop_count parsed\<rparr>"

text \<open>The loop over the numbered lines, with the specifications and bytes retained so far.\<close>

fun collect_specs :: "PartialEnv \<Rightarrow> (nat \<times> rstr) list \<Rightarrow> PartialSpec list \<Rightarrow> nat \<Rightarrow> PartialSpec list" where
  "collect_specs env [] specs retained_bytes = specs"
| "collect_specs env ((line_index, line) # rest) specs retained_bytes =
     (case strip_prefix (lit ''`{'') line of
        None \<Rightarrow> collect_specs env rest specs retained_bytes
      | Some raw \<Rightarrow>
          (case try_parse_partial_descriptor env raw of
             None \<Rightarrow> collect_specs env rest specs retained_bytes
           | Some parsed \<Rightarrow>
               if length specs \<ge> PARTIAL_SPEC_MAX_ITEMS then specs
               else
                 case usize_checked_add retained_bytes (str_len raw) of
                   None \<Rightarrow> specs
                 | Some next_bytes \<Rightarrow>
                     if next_bytes > PARTIAL_SPECS_MAX_BYTES then specs
                     else collect_specs env rest (specs @ [partial_spec env parsed line_index line]) next_bytes))"

definition extract_partial_specs :: "PartialEnv \<Rightarrow> rstr \<Rightarrow> PartialSpec list" where
  "extract_partial_specs env markup = collect_specs env (enumerate 0 (str_lines markup)) [] 0"

definition strip_partial_document_headers :: "rstr \<Rightarrow> rstr" where
  "strip_partial_document_headers content =
     (case strip_prefix (lit ''#!'') content of
        None \<Rightarrow> content
      | Some rest \<Rightarrow>
          (case split_once 10 rest of
             None \<Rightarrow> if starts_with (lit ''c='') rest then [] else content
           | Some (header, remainder) \<Rightarrow> if starts_with (lit ''c='') header then remainder else content))"

text \<open>The specifications by line, a later one in place of an earlier one, and what a line becomes.\<close>

definition specs_by_line :: "PartialSpec list \<Rightarrow> (nat, PartialSpec) btree_map" where
  "specs_by_line specs = fold (\<lambda>spec. bt_insert (ps_line_index spec) spec) specs []"

definition compose_line :: "PartialSpec list \<Rightarrow> (rstr, rstr) btree_map \<Rightarrow> nat \<Rightarrow> rstr \<Rightarrow> rstr list" where
  "compose_line specs contents line_index line =
     (case bt_get (specs_by_line specs) line_index of
        None \<Rightarrow> [line]
      | Some spec \<Rightarrow>
          (case bt_get contents (ps_slot spec) of
             Some content \<Rightarrow> str_lines (strip_partial_document_headers content)
           | None \<Rightarrow> [lit ''[loading '' @ (case ps_id spec of None \<Rightarrow> ps_target spec | Some i \<Rightarrow> i) @ lit '']'']))"

definition compose_markup_with_partials :: "rstr \<Rightarrow> PartialSpec list \<Rightarrow> (rstr, rstr) btree_map \<Rightarrow> rstr" where
  "compose_markup_with_partials base_markup specs contents =
     (if specs = [] then base_markup
      else join_lines (concat (map (\<lambda>(i, line). compose_line specs contents i line) (enumerate 0 (str_lines base_markup)))))"

section \<open>What is collected\<close>

definition spec_of_line :: "PartialEnv \<Rightarrow> rstr list \<Rightarrow> PartialSpec \<Rightarrow> bool" where
  "spec_of_line env lines spec \<longleftrightarrow>
     (\<exists>raw parsed. ps_line_index spec < length lines \<and> lines ! ps_line_index spec = lit ''`{'' @ raw
        \<and> try_parse_partial_descriptor env raw = Some parsed
        \<and> spec = partial_spec env parsed (ps_line_index spec) (lines ! ps_line_index spec))"

lemma strip_prefix_Some: "strip_prefix p s = Some rest \<longleftrightarrow> s = p @ rest"
  by (auto simp: strip_prefix_def) (metis append_take_drop_id)

definition spec_bytes :: "rstr list \<Rightarrow> PartialSpec \<Rightarrow> nat" where
  "spec_bytes lines spec = str_len (drop 2 (lines ! ps_line_index spec))"

definition specs_ok :: "PartialEnv \<Rightarrow> rstr list \<Rightarrow> nat \<Rightarrow> PartialSpec list \<Rightarrow> bool" where
  "specs_ok env lines k specs \<longleftrightarrow>
     list_all (spec_of_line env lines) specs \<and> sorted_wrt (<) (map ps_line_index specs)
     \<and> list_all (\<lambda>spec. ps_line_index spec < k) specs \<and> length specs \<le> PARTIAL_SPEC_MAX_ITEMS
     \<and> sum_list (map (spec_bytes lines) specs) \<le> PARTIAL_SPECS_MAX_BYTES"

lemma specs_ok_mono: "specs_ok env lines k specs \<Longrightarrow> k \<le> l \<Longrightarrow> specs_ok env lines l specs"
  by (auto simp: specs_ok_def list_all_iff)

lemma specs_ok_snoc:
  assumes "specs_ok env lines k specs" "k < length lines" "lines ! k = lit ''`{'' @ raw"
    "try_parse_partial_descriptor env raw = Some parsed" "length specs < PARTIAL_SPEC_MAX_ITEMS"
    "sum_list (map (spec_bytes lines) specs) + str_len raw \<le> PARTIAL_SPECS_MAX_BYTES"
  shows "specs_ok env lines (Suc k) (specs @ [partial_spec env parsed k (lines ! k)])"
  using assms
  by (auto simp: specs_ok_def sorted_wrt_append spec_of_line_def partial_spec_def spec_bytes_def list_all_iff lit_def
      intro: less_SucI)

lemma collect_specs_ok:
  "lines = front @ rest \<Longrightarrow> specs_ok env lines (length front) specs \<Longrightarrow>
   specs_ok env lines (length lines)
     (collect_specs env (enumerate (length front) rest) specs (sum_list (map (spec_bytes lines) specs)))"
proof (induction rest arbitrary: front specs)
  case Nil
  then show ?case by simp
next
  case (Cons line rest)
  have lines: "lines = (front @ [line]) @ rest" "lines ! length front = line" "length front < length lines"
    using Cons.prems(1) by simp_all
  note skip = Cons.IH [OF lines(1), of specs] specs_ok_mono [OF Cons.prems(2)]
  show ?case
  proof (cases "strip_prefix (lit ''`{'') line")
    case None
    then show ?thesis using skip by simp
  next
    case (Some raw)
    note raw = Some
    show ?thesis
    proof (cases "try_parse_partial_descriptor env raw")
      case None
      then show ?thesis using skip raw by simp
    next
      case (Some parsed)
      have line: "lines ! length front = lit ''`{'' @ raw" using raw lines(2) by (simp add: strip_prefix_Some)
      define specs' where "specs' = specs @ [partial_spec env parsed (length front) line]"
      have bytes: "sum_list (map (spec_bytes lines) specs') = sum_list (map (spec_bytes lines) specs) + str_len raw"
        using line by (simp add: specs'_def spec_bytes_def partial_spec_def lit_def)
      have "specs_ok env lines (length (front @ [line])) specs'" if "length specs < PARTIAL_SPEC_MAX_ITEMS"
        "sum_list (map (spec_bytes lines) specs) + str_len raw \<le> PARTIAL_SPECS_MAX_BYTES"
        using specs_ok_snoc [OF Cons.prems(2) lines(3) line Some that] by (simp add: specs'_def lines(2))
      then show ?thesis
        using Cons.IH [OF lines(1), of specs'] specs_ok_mono [OF Cons.prems(2), of "length lines"] raw Some lines(3)
        by (auto simp: bytes usize_checked_add_def simp flip: specs'_def)
    qed
  qed
qed

text \<open>A slot names its line: the number of the line stands between its last two colons.\<close>

lemma no_colon: "c \<in> set (line_hash env line) \<Longrightarrow> c \<noteq> chr CHR '':''" "c \<in> set (show_num n) \<Longrightarrow> c \<noteq> chr CHR '':''"
proof -
  have hex: "hex_char n \<noteq> chr CHR '':''" if "n < 16" for n using that by (auto simp: hex_char_def chr_def)
  have "unat b div 16 < 16" for b :: u8 using unsigned_less [of b, where ?'a = nat] by simp
  then have digits: "hex_char (unat b div 16) \<noteq> chr CHR '':''" "hex_char (unat b mod 16) \<noteq> chr CHR '':''" for b :: u8
    by (intro hex; simp)+
  show "c \<in> set (line_hash env line) \<Longrightarrow> c \<noteq> chr CHR '':''"
    by (auto simp: line_hash_def lower_hex_def digits digits [symmetric] dest!: in_set_takeD)
  show "c \<in> set (show_num n) \<Longrightarrow> c \<noteq> chr CHR '':''"
    using show_num_digits [of c n] by (auto simp: is_ascii_digit_def chr_def)
qed

lemma last_field_unique:
  fixes x :: rchar
  assumes "a @ x # b = a' @ x # b'" "x \<notin> set b" "x \<notin> set b'"
  shows "a = a' \<and> b = b'"
proof -
  have "rev b @ x # rev a = rev b' @ x # rev a'" using arg_cong [OF assms(1), of rev] by simp
  moreover have "x \<notin> set (rev b)" "x \<notin> set (rev b')" using assms(2,3) by simp_all
  ultimately have "split_once x (rev b @ x # rev a) = Some (rev b, rev a)" "split_once x (rev b @ x # rev a) = Some (rev b', rev a')"
    by (simp_all only: split_once_Some) simp_all
  then show ?thesis by simp
qed

lemma slot_line:
  assumes "partial_slot env d i line = partial_slot env d' j line'"
  shows "i = j"
proof -
  define front where "front = (\<lambda>d :: PartialDescriptor. case pd_id d of None \<Rightarrow> lit ''partial'' | Some s \<Rightarrow> s)"
  have slot: "partial_slot env d i line = (front d @ chr CHR '':'' # show_num i) @ chr CHR '':'' # line_hash env line" for d i line
    by (simp add: partial_slot_def front_def lit_def)
  have "front d @ chr CHR '':'' # show_num i = front d' @ chr CHR '':'' # show_num j"
    using assms no_colon(1) unfolding slot by (blast dest: last_field_unique)
  then have "show_num i = show_num j" using no_colon(2) by (blast dest: last_field_unique)
  then show ?thesis by (simp add: show_num_inj)
qed

lemma spec_slots_distinct: "specs_ok env lines k specs \<Longrightarrow> distinct (map ps_slot specs)"
proof -
  assume ok: "specs_ok env lines k specs"
  have "i = j" if "i < length specs" "j < length specs" "ps_slot (specs ! i) = ps_slot (specs ! j)" for i j
  proof -
    have "spec_of_line env lines (specs ! i)" "spec_of_line env lines (specs ! j)"
      using ok that(1,2) by (auto simp: specs_ok_def list_all_length)
    then obtain d d' where "ps_slot (specs ! i) = partial_slot env d (ps_line_index (specs ! i)) (lines ! ps_line_index (specs ! i))"
      "ps_slot (specs ! j) = partial_slot env d' (ps_line_index (specs ! j)) (lines ! ps_line_index (specs ! j))"
      unfolding spec_of_line_def partial_spec_def by (metis PartialSpec.select_convs(1))
    then have "ps_line_index (specs ! i) = ps_line_index (specs ! j)" using that(3) slot_line by metis
    moreover have "distinct (map ps_line_index specs)" using ok by (auto simp: specs_ok_def strict_sorted_iff)
    ultimately show ?thesis using that(1,2) by (simp add: distinct_conv_nth) metis
  qed
  then show ?thesis by (simp add: distinct_conv_nth) metis
qed

lemma extract_specs_ok: "specs_ok env (str_lines markup) (length (str_lines markup)) (extract_partial_specs env markup)"
  using collect_specs_ok [of "str_lines markup" "[]" "str_lines markup" env "[]"]
  by (simp add: extract_partial_specs_def specs_ok_def)

text \<open>
  the partials of a page are at most 256, from distinct lines in order, with at most 1 MiB of
  descriptors in all; each is what its line describes, and no two share a slot, whatever ids the page
  gives them.
\<close>

theorem partial_specs_bounded:
  "let specs = extract_partial_specs env markup; lines = str_lines markup in
   length specs \<le> PARTIAL_SPEC_MAX_ITEMS \<and> sum_list (map (spec_bytes lines) specs) \<le> PARTIAL_SPECS_MAX_BYTES
   \<and> list_all (spec_of_line env lines) specs \<and> sorted_wrt (<) (map ps_line_index specs) \<and> distinct (map ps_slot specs)"
  using extract_specs_ok [of env markup] spec_slots_distinct by (auto simp: specs_ok_def Let_def)

section \<open>Composition\<close>

lemma bt_get_specs_by_line:
  assumes "distinct (map ps_line_index specs)" "spec \<in> set specs"
  shows "bt_get (specs_by_line specs) (ps_line_index spec) = Some spec"
proof -
  have other: "bt_get (fold (\<lambda>spec. bt_insert (ps_line_index spec) spec) ss m) i = bt_get m i"
    if "bt_ok m" "i \<notin> ps_line_index ` set ss" for ss m i
    using that by (induction ss arbitrary: m) (auto simp: bt_ok_insert bt_get_insert)
  have "bt_get (fold (\<lambda>spec. bt_insert (ps_line_index spec) spec) ss m) (ps_line_index spec) = Some spec"
    if "bt_ok m" "distinct (map ps_line_index ss)" "spec \<in> set ss" for ss m
    using that by (induction ss arbitrary: m) (auto simp: bt_ok_insert bt_get_insert other)
  then show ?thesis using assms by (simp add: specs_by_line_def)
qed

lemma specs_by_line_mem: "bt_get (specs_by_line specs) i = Some spec \<Longrightarrow> spec \<in> set specs \<and> ps_line_index spec = i"
proof -
  have "bt_get (fold (\<lambda>spec. bt_insert (ps_line_index spec) spec) ss m) i = Some spec \<Longrightarrow> bt_ok m \<Longrightarrow>
      bt_get m i = Some spec \<or> spec \<in> set ss \<and> ps_line_index spec = i" for ss m
    by (induction ss arbitrary: m) (force simp: bt_ok_insert bt_get_insert split: if_splits)+
  then show "bt_get (specs_by_line specs) i = Some spec \<Longrightarrow> spec \<in> set specs \<and> ps_line_index spec = i"
    by (fastforce simp: specs_by_line_def)
qed

text \<open>
  C28: fetched content fills the line of its partial and nothing else: the page composed after it arrives is the
  page composed before with that one line replaced by the lines of the content, its cache header removed.
\<close>

theorem partial_fills_its_line:
  assumes "specs = extract_partial_specs env markup" "spec \<in> set specs" "bt_ok contents"
  shows "compose_markup_with_partials markup specs (bt_insert (ps_slot spec) content contents)
     = join_lines (concat (map (\<lambda>(i, line).
         if i = ps_line_index spec then str_lines (strip_partial_document_headers content)
         else compose_line specs contents i line) (enumerate 0 (str_lines markup))))"
proof -
  have ok: "sorted_wrt (<) (map ps_line_index specs)" "distinct (map ps_slot specs)"
    using extract_specs_ok [of env markup] spec_slots_distinct by (auto simp: assms(1) specs_ok_def)
  have filled: "compose_line specs (bt_insert (ps_slot spec) content contents) i line
      = (if i = ps_line_index spec then str_lines (strip_partial_document_headers content) else compose_line specs contents i line)" for i line
  proof (cases "i = ps_line_index spec")
    case True
    have "distinct (map ps_line_index specs)" using ok(1) by (simp add: strict_sorted_iff)
    then show ?thesis
      using True bt_get_specs_by_line [OF _ assms(2)] assms(3) by (simp add: compose_line_def bt_get_insert)
  next
    case False
    have "ps_slot s \<noteq> ps_slot spec" if "bt_get (specs_by_line specs) i = Some s" for s
      using specs_by_line_mem [OF that] False ok(2) assms(2) by (auto simp: distinct_map dest: inj_onD)
    then show ?thesis
      using False assms(3) by (simp add: compose_line_def bt_get_insert split: option.split)
  qed
  moreover have "specs \<noteq> []" using assms(2) by auto
  ultimately show ?thesis unfolding compose_markup_with_partials_def filled by simp
qed

theorem partial_fills_its_line_witness:
  "let markup = lit ''`{slot}'' @ [10] @ lit ''end'';
       env = \<lparr>pe_refresh = (\<lambda>_. None), pe_sha256 = (\<lambda>bs. bs)\<rparr>;
       specs = extract_partial_specs env markup in
   compose_markup_with_partials markup specs (bt_insert (ps_slot (hd specs)) (lit ''#!c=0'' @ [10] @ lit ''a'') [])
   = lit ''a'' @ [10] @ lit ''end''"
proof -
  define markup where "markup = lit ''`{slot}'' @ [10] @ lit ''end''"
  define env where "env = \<lparr>pe_refresh = (\<lambda>_. None), pe_sha256 = (\<lambda>bs. bs)\<rparr>"
  define specs where "specs = extract_partial_specs env markup"
  have "specs \<noteq> []" unfolding specs_def env_def markup_def by code_simp
  then have "hd specs \<in> set specs" by simp
  from partial_fills_its_line [OF specs_def this, of "[]" "lit ''#!c=0'' @ [10] @ lit ''a''"]
  have "compose_markup_with_partials markup specs (bt_insert (ps_slot (hd specs)) (lit ''#!c=0'' @ [10] @ lit ''a'') [])
      = join_lines (concat (map (\<lambda>(i, line).
          if i = ps_line_index (hd specs) then str_lines (strip_partial_document_headers (lit ''#!c=0'' @ [10] @ lit ''a''))
          else compose_line specs [] i line) (enumerate 0 (str_lines markup))))" by simp
  also have "\<dots> = lit ''a'' @ [10] @ lit ''end''" unfolding specs_def env_def markup_def by code_simp
  finally show ?thesis by (simp add: specs_def env_def markup_def)
qed

end
