(* ===== verification/Browser_Page.thy ===== *)
theory Browser_Page
  imports Rust_Str
begin

text \<open>
  Pages and addresses of the browser (\<^verbatim>\<open>browser/page.rs\<close>): what a page may retain, checked with a
  stack of pending metadata values, and addresses of the form \<^verbatim>\<open>destination:path\<close>. The check is shown
  equal to a recursive description of the pages it admits.
\<close>

definition DEFAULT_PATH :: rstr where "DEFAULT_PATH = lit ''/page/index.mu''"
definition BROWSER_PAGE_URL_MAX_BYTES :: nat where "BROWSER_PAGE_URL_MAX_BYTES = 8 * 1024"
definition BROWSER_PAGE_TITLE_MAX_BYTES :: nat where "BROWSER_PAGE_TITLE_MAX_BYTES = 16 * 1024"
definition BROWSER_PAGE_MARKUP_MAX_BYTES :: nat where "BROWSER_PAGE_MARKUP_MAX_BYTES = 4 * 1024 * 1024"
definition BROWSER_PAGE_METADATA_MAX_ITEMS :: nat where "BROWSER_PAGE_METADATA_MAX_ITEMS = 64"
definition BROWSER_PAGE_METADATA_KEY_MAX_BYTES :: nat where "BROWSER_PAGE_METADATA_KEY_MAX_BYTES = 256"
definition BROWSER_PAGE_METADATA_SCALAR_MAX_BYTES :: nat where "BROWSER_PAGE_METADATA_SCALAR_MAX_BYTES = 4 * 1024 * 1024"
definition BROWSER_PAGE_METADATA_MAX_OWNED_BYTES :: nat where "BROWSER_PAGE_METADATA_MAX_OWNED_BYTES = 16 * 1024 * 1024"
definition BROWSER_PAGE_METADATA_MAX_VALUES :: nat where "BROWSER_PAGE_METADATA_MAX_VALUES = 128 * 1024"
definition BROWSER_PAGE_METADATA_MAX_CONTAINER_ITEMS :: nat where "BROWSER_PAGE_METADATA_MAX_CONTAINER_ITEMS = 64 * 1024"
definition BROWSER_PAGE_METADATA_MAX_DEPTH :: nat where "BROWSER_PAGE_METADATA_MAX_DEPTH = 32"
definition BROWSER_PAGE_REQUEST_MAX_ITEMS :: nat where "BROWSER_PAGE_REQUEST_MAX_ITEMS = 128"
definition BROWSER_PAGE_REQUEST_KEY_MAX_BYTES :: nat where "BROWSER_PAGE_REQUEST_KEY_MAX_BYTES = 256"
definition BROWSER_PAGE_REQUEST_VALUE_MAX_BYTES :: nat where "BROWSER_PAGE_REQUEST_VALUE_MAX_BYTES = 64 * 1024"
definition BROWSER_PAGE_REQUEST_MAX_OWNED_BYTES :: nat where "BROWSER_PAGE_REQUEST_MAX_OWNED_BYTES = 4 * 1024 * 1024"

section \<open>Pages\<close>

text \<open>\<^verbatim>\<open>serde_json::Value\<close>; a number is its digits, which no code here reads.\<close>

datatype Json = JNull | JBool bool | JNumber rstr | JString rstr | JArray "Json list" | JObject "(rstr \<times> Json) list"

datatype PageSource = SourceCache | SourceNetwork | SourceMock

record BrowserPage =
  bp_url :: rstr
  bp_markup :: rstr
  bp_title :: rstr
  bp_source :: PageSource
  bp_metadata :: "(rstr, Json) btree_map"
  bp_request_data :: "(rstr, rstr) btree_map option"

definition mock_home :: "rstr \<Rightarrow> BrowserPage" where
  "mock_home url = \<lparr>bp_url = url,
     bp_markup = lit ''>OMENbrowser_rs'' @ [10] @ lit ''Mock runtime is active.'' @ [10]
       @ lit ''`[Messages`lxmf@0011223344556677]'',
     bp_title = lit ''Mock Node'', bp_source = SourceMock, bp_metadata = [], bp_request_data = None\<rparr>"

definition validate_len :: "string \<Rightarrow> nat \<Rightarrow> nat \<Rightarrow> string + unit" where
  "validate_len label actual maximum =
     (if actual > maximum then Inl (label @ '' exceeds '' @ show_nat maximum @ '' bytes'') else Inr ())"

definition add_bounded :: "nat \<Rightarrow> nat \<Rightarrow> nat \<Rightarrow> string \<Rightarrow> string + nat" where
  "add_bounded owned added maximum label =
     (case usize_checked_add owned added of
        None \<Rightarrow> Inl (label @ '' byte accounting overflow'')
      | Some owned \<Rightarrow>
          if owned > maximum then Inl (label @ '' exceeds '' @ show_nat maximum @ '' owned bytes'') else Inr owned)"

text \<open>One key of the metadata or of an object: its length and its share of the bytes.\<close>

definition metadata_key :: "string \<Rightarrow> rstr \<Rightarrow> nat \<Rightarrow> string + nat" where
  "metadata_key label key owned =
     and_then (validate_len label (str_len key) BROWSER_PAGE_METADATA_KEY_MAX_BYTES) (\<lambda>_.
       add_bounded owned (str_len key) BROWSER_PAGE_METADATA_MAX_OWNED_BYTES ''page metadata'')"

text \<open>The keys of a map in order, with the values pushed on the stack, whose top is the head of the list.\<close>

fun push_entries :: "string \<Rightarrow> nat \<Rightarrow> (rstr \<times> Json) list \<Rightarrow> nat \<Rightarrow> (Json \<times> nat) list \<Rightarrow> string + nat \<times> (Json \<times> nat) list" where
  "push_entries label depth [] owned pending = Inr (owned, pending)"
| "push_entries label depth ((key, item) # items) owned pending =
     and_then (metadata_key label key owned) (\<lambda>owned. push_entries label depth items owned ((item, depth) # pending))"

fun json_size :: "Json \<Rightarrow> nat" where
  "json_size (JArray items) = 1 + sum_list (map json_size items)"
| "json_size (JObject items) = 1 + sum_list (map (\<lambda>(_, item). json_size item) items)"
| "json_size _ = 1"

definition pending_size :: "(Json \<times> nat) list \<Rightarrow> nat" where
  "pending_size pending = sum_list (map (json_size \<circ> fst) pending)"

lemma push_entries_size:
  "push_entries label depth items owned pending = Inr (owned', pending') \<Longrightarrow>
   pending_size pending' = sum_list (map (\<lambda>(_, item). json_size item) items) + pending_size pending"
  by (induction items arbitrary: owned pending)
    (auto simp: pending_size_def and_then_def split: sum.splits)

text \<open>The loop \<^verbatim>\<open>while let Some((value, depth)) = pending.pop()\<close>.\<close>

function validate_pending :: "(Json \<times> nat) list \<Rightarrow> nat \<Rightarrow> nat \<Rightarrow> string + unit" where
  "validate_pending [] owned seen = Inr ()"
| "validate_pending ((v, depth) # pending) owned seen =
     (if depth > BROWSER_PAGE_METADATA_MAX_DEPTH
      then Inl (''page metadata exceeds depth '' @ show_nat BROWSER_PAGE_METADATA_MAX_DEPTH)
      else
        let seen = usize_saturating_add seen 1 in
        if seen > BROWSER_PAGE_METADATA_MAX_VALUES
        then Inl (''page metadata exceeds '' @ show_nat BROWSER_PAGE_METADATA_MAX_VALUES @ '' values'')
        else
          case v of
            JString s \<Rightarrow>
              (case and_then (validate_len ''page metadata scalar'' (str_len s) BROWSER_PAGE_METADATA_SCALAR_MAX_BYTES) (\<lambda>_.
                 add_bounded owned (str_len s) BROWSER_PAGE_METADATA_MAX_OWNED_BYTES ''page metadata'') of
                 Inl e \<Rightarrow> Inl e
               | Inr owned \<Rightarrow> validate_pending pending owned seen)
          | JArray items \<Rightarrow>
              if length items > BROWSER_PAGE_METADATA_MAX_CONTAINER_ITEMS
              then Inl (''page metadata array exceeds '' @ show_nat BROWSER_PAGE_METADATA_MAX_CONTAINER_ITEMS @ '' items'')
              else validate_pending (rev (map (\<lambda>item. (item, depth + 1)) items) @ pending) owned seen
          | JObject items \<Rightarrow>
              if length items > BROWSER_PAGE_METADATA_MAX_CONTAINER_ITEMS
              then Inl (''page metadata object exceeds '' @ show_nat BROWSER_PAGE_METADATA_MAX_CONTAINER_ITEMS @ '' items'')
              else
                (case push_entries ''page metadata object key'' (depth + 1) items owned pending of
                   Inl e \<Rightarrow> Inl e
                 | Inr (owned, pending) \<Rightarrow> validate_pending pending owned seen)
          | _ \<Rightarrow> validate_pending pending owned seen)"
  by pat_completeness auto
termination
  by (relation "measure (\<lambda>(pending, _, _). pending_size pending)")
    (auto dest!: push_entries_size simp: pending_size_def comp_def simp flip: rev_map)

fun validate_request :: "(rstr \<times> rstr) list \<Rightarrow> nat \<Rightarrow> string + nat" where
  "validate_request [] owned = Inr owned"
| "validate_request ((key, val) # rest) owned =
     and_then (validate_len ''page request key'' (str_len key) BROWSER_PAGE_REQUEST_KEY_MAX_BYTES) (\<lambda>_.
       and_then (validate_len ''page request value'' (str_len val) BROWSER_PAGE_REQUEST_VALUE_MAX_BYTES) (\<lambda>_.
         and_then (add_bounded owned (usize_saturating_add (str_len key) (str_len val))
             BROWSER_PAGE_REQUEST_MAX_OWNED_BYTES ''page request data'') (\<lambda>owned.
           validate_request rest owned)))"

definition validate_retained :: "BrowserPage \<Rightarrow> string + unit" where
  "validate_retained page =
     and_then (validate_len ''page URL'' (str_len (bp_url page)) BROWSER_PAGE_URL_MAX_BYTES) (\<lambda>_.
       and_then (validate_len ''page title'' (str_len (bp_title page)) BROWSER_PAGE_TITLE_MAX_BYTES) (\<lambda>_.
         and_then (validate_len ''page markup'' (str_len (bp_markup page)) BROWSER_PAGE_MARKUP_MAX_BYTES) (\<lambda>_.
           if length (bp_metadata page) > BROWSER_PAGE_METADATA_MAX_ITEMS
           then Inl (''page metadata exceeds '' @ show_nat BROWSER_PAGE_METADATA_MAX_ITEMS @ '' entries'')
           else
             and_then (push_entries ''page metadata key'' 1 (bp_metadata page) 0 []) (\<lambda>(owned, pending).
               and_then (validate_pending pending owned 0) (\<lambda>_.
                 case bp_request_data page of
                   None \<Rightarrow> Inr ()
                 | Some request_data \<Rightarrow>
                     if length request_data > BROWSER_PAGE_REQUEST_MAX_ITEMS
                     then Inl (''page request data exceeds '' @ show_nat BROWSER_PAGE_REQUEST_MAX_ITEMS @ '' entries'')
                     else and_then (validate_request request_data 0) (\<lambda>_. Inr ()))))))"

section \<open>Addresses\<close>

record BrowserAddress =
  ba_destination :: rstr
  ba_path :: rstr

definition normalize_path :: "rstr \<Rightarrow> rstr" where
  "normalize_path path = (if starts_with (lit ''/'') path then path else lit ''/'' @ path)"

definition parse_with_current :: "rstr \<Rightarrow> rstr option \<Rightarrow> BrowserAddress option" where
  "parse_with_current input current_destination =
     (case split_once (chr CHR '':'') (str_trimmed input) of
        None \<Rightarrow> None
      | Some (destination, path) \<Rightarrow>
          Option.bind (if destination = [] then current_destination else Some destination) (\<lambda>destination.
            if destination = [] then None
            else Some \<lparr>ba_destination = destination,
                   ba_path = normalize_path (if path = [] then DEFAULT_PATH else path)\<rparr>))"

definition address_parse :: "rstr \<Rightarrow> BrowserAddress option" where
  "address_parse input = parse_with_current input None"

definition address_url :: "BrowserAddress \<Rightarrow> rstr" where
  "address_url a = ba_destination a @ lit '':'' @ ba_path a"

section \<open>What a page may retain\<close>

fun json_height :: "Json \<Rightarrow> nat" where
  "json_height (JArray items) = 1 + foldr max (map json_height items) 0"
| "json_height (JObject items) = 1 + foldr max (map (\<lambda>(_, item). json_height item) items) 0"
| "json_height _ = 1"

fun json_owned :: "Json \<Rightarrow> nat" where
  "json_owned (JString s) = str_len s"
| "json_owned (JArray items) = sum_list (map json_owned items)"
| "json_owned (JObject items) = sum_list (map (\<lambda>(key, item). str_len key + json_owned item) items)"
| "json_owned _ = 0"

fun json_fits :: "Json \<Rightarrow> bool" where
  "json_fits (JString s) \<longleftrightarrow> str_len s \<le> BROWSER_PAGE_METADATA_SCALAR_MAX_BYTES"
| "json_fits (JArray items) \<longleftrightarrow> length items \<le> BROWSER_PAGE_METADATA_MAX_CONTAINER_ITEMS \<and> list_all json_fits items"
| "json_fits (JObject items) \<longleftrightarrow> length items \<le> BROWSER_PAGE_METADATA_MAX_CONTAINER_ITEMS
     \<and> list_all (\<lambda>(key, item). str_len key \<le> BROWSER_PAGE_METADATA_KEY_MAX_BYTES \<and> json_fits item) items"
| "json_fits _ \<longleftrightarrow> True"

lemmas page_limits =
  BROWSER_PAGE_URL_MAX_BYTES_def BROWSER_PAGE_TITLE_MAX_BYTES_def BROWSER_PAGE_MARKUP_MAX_BYTES_def
  BROWSER_PAGE_METADATA_MAX_ITEMS_def BROWSER_PAGE_METADATA_KEY_MAX_BYTES_def BROWSER_PAGE_METADATA_SCALAR_MAX_BYTES_def
  BROWSER_PAGE_METADATA_MAX_OWNED_BYTES_def BROWSER_PAGE_METADATA_MAX_VALUES_def
  BROWSER_PAGE_METADATA_MAX_CONTAINER_ITEMS_def BROWSER_PAGE_METADATA_MAX_DEPTH_def BROWSER_PAGE_REQUEST_MAX_ITEMS_def
  BROWSER_PAGE_REQUEST_KEY_MAX_BYTES_def BROWSER_PAGE_REQUEST_VALUE_MAX_BYTES_def BROWSER_PAGE_REQUEST_MAX_OWNED_BYTES_def

lemma validate_len_Inr [simp]: "validate_len label actual maximum = Inr u \<longleftrightarrow> actual \<le> maximum"
  by (simp add: validate_len_def)

lemma add_bounded_Inr: "maximum < 2 ^ 64 \<Longrightarrow> add_bounded owned added maximum label = Inr n \<longleftrightarrow> n = owned + added \<and> n \<le> maximum"
  by (auto simp: add_bounded_def usize_checked_add_def)

lemma metadata_key_Inr:
  "metadata_key label key owned = Inr n \<longleftrightarrow>
   str_len key \<le> BROWSER_PAGE_METADATA_KEY_MAX_BYTES \<and> n = owned + str_len key \<and> n \<le> BROWSER_PAGE_METADATA_MAX_OWNED_BYTES"
  by (auto simp: metadata_key_def add_bounded_Inr page_limits)

lemma push_entries_Inr:
  "owned \<le> BROWSER_PAGE_METADATA_MAX_OWNED_BYTES \<Longrightarrow>
   push_entries label depth items owned pending = Inr (owned', pending') \<longleftrightarrow>
   list_all (\<lambda>(key, _). str_len key \<le> BROWSER_PAGE_METADATA_KEY_MAX_BYTES) items
   \<and> owned' = owned + sum_list (map (\<lambda>(key, _). str_len key) items) \<and> owned' \<le> BROWSER_PAGE_METADATA_MAX_OWNED_BYTES
   \<and> pending' = rev (map (\<lambda>(_, item). (item, depth)) items) @ pending"
  by (induction items arbitrary: owned pending) (auto simp: metadata_key_Inr)

definition pending_owned :: "(Json \<times> nat) list \<Rightarrow> nat" where
  "pending_owned pending = sum_list (map (json_owned \<circ> fst) pending)"

definition pending_fits :: "(Json \<times> nat) list \<Rightarrow> bool" where
  "pending_fits pending \<longleftrightarrow>
     list_all (\<lambda>(v, depth). depth + json_height v \<le> BROWSER_PAGE_METADATA_MAX_DEPTH + 1 \<and> json_fits v) pending"

lemma pending_simps:
  "pending_owned [] = 0" "pending_owned ((v, d) # p) = json_owned v + pending_owned p"
  "pending_owned (p @ q) = pending_owned p + pending_owned q" "pending_owned (rev p) = pending_owned p"
  "pending_size [] = 0" "pending_size ((v, d) # p) = json_size v + pending_size p"
  "pending_size (p @ q) = pending_size p + pending_size q" "pending_size (rev p) = pending_size p"
  "pending_fits []" "pending_fits ((v, d) # p) \<longleftrightarrow> d + json_height v \<le> BROWSER_PAGE_METADATA_MAX_DEPTH + 1 \<and> json_fits v \<and> pending_fits p"
  "pending_fits (p @ q) \<longleftrightarrow> pending_fits p \<and> pending_fits q" "pending_fits (rev p) = pending_fits p"
  by (auto simp: pending_owned_def pending_size_def pending_fits_def rev_map simp flip: rev_map)

lemma foldr_max_le: "foldr max ns (0 :: nat) \<le> m \<longleftrightarrow> list_all (\<lambda>n. n \<le> m) ns"
  by (induction ns) auto

lemma pending_children:
  "pending_fits (map (\<lambda>item. (item, d)) items) \<longleftrightarrow>
   d + foldr max (map json_height items) 0 \<le> BROWSER_PAGE_METADATA_MAX_DEPTH + 1 \<and> list_all json_fits items"
  if "d \<le> BROWSER_PAGE_METADATA_MAX_DEPTH + 1"
proof -
  have "d + n \<le> BROWSER_PAGE_METADATA_MAX_DEPTH + 1 \<longleftrightarrow> n \<le> BROWSER_PAGE_METADATA_MAX_DEPTH + 1 - d" for n using that by linarith
  then show ?thesis by (simp add: pending_fits_def foldr_max_le list_all_iff) auto
qed

lemma pending_totals:
  "pending_owned (map (\<lambda>item. (item, d)) items) = sum_list (map json_owned items)"
  "pending_size (map (\<lambda>item. (item, d)) items) = sum_list (map json_size items)"
  by (simp_all add: pending_owned_def pending_size_def comp_def)

lemma json_size_pos: "0 < json_size v"
  by (cases v) simp_all

text \<open>The stack loop accepts exactly what fits.\<close>

lemma validate_pending_exact:
  "seen \<le> BROWSER_PAGE_METADATA_MAX_VALUES \<Longrightarrow> owned \<le> BROWSER_PAGE_METADATA_MAX_OWNED_BYTES \<Longrightarrow>
   validate_pending pending owned seen = Inr () \<longleftrightarrow>
   pending_fits pending \<and> seen + pending_size pending \<le> BROWSER_PAGE_METADATA_MAX_VALUES
   \<and> owned + pending_owned pending \<le> BROWSER_PAGE_METADATA_MAX_OWNED_BYTES"
proof (induction "pending_size pending" arbitrary: pending owned seen rule: less_induct)
  case less
  note seen_le = less(2) and owned_le = less(3)
  show ?case
  proof (cases pending)
    case (Cons entry rest)
    obtain v depth where entry: "entry = (v, depth)" by fastforce
    have IH: "validate_pending p o' s' = Inr () \<longleftrightarrow> pending_fits p \<and> s' + pending_size p \<le> BROWSER_PAGE_METADATA_MAX_VALUES
        \<and> o' + pending_owned p \<le> BROWSER_PAGE_METADATA_MAX_OWNED_BYTES"
      if "pending_size p < json_size v + pending_size rest" "s' \<le> BROWSER_PAGE_METADATA_MAX_VALUES"
        "o' \<le> BROWSER_PAGE_METADATA_MAX_OWNED_BYTES" for p o' s'
      using less(1) [of p s' o'] that by (simp add: Cons entry pending_simps)
    have seen: "usize_saturating_add seen 1 = seen + 1" using seen_le by (simp add: usize_saturating_add_def page_limits)
    note step = validate_pending.simps(2) [of v depth rest owned seen, unfolded Let_def seen, folded and_then_def]
    show ?thesis
    proof (cases "depth \<le> BROWSER_PAGE_METADATA_MAX_DEPTH \<and> seen + 1 \<le> BROWSER_PAGE_METADATA_MAX_VALUES")
      case False
      have "1 \<le> json_height v" by (cases v) simp_all
      then show ?thesis
        using False json_size_pos [of v] unfolding Cons entry unfolding step by (auto simp: pending_simps)
    next
      case True
      have max: "BROWSER_PAGE_METADATA_MAX_OWNED_BYTES < 2 ^ 64" by (simp add: page_limits)
      show ?thesis
      proof (cases v)
        case (JString s)
        show ?thesis
          using True owned_le IH [of rest "seen + 1" "owned + str_len s"] unfolding Cons entry unfolding step unfolding JString
          by (auto simp: pending_simps add_bounded_Inr [OF max])
      next
        case (JArray items)
        show ?thesis
          using True owned_le IH [of "rev (map (\<lambda>item. (item, depth + 1)) items) @ rest" "seen + 1" owned]
          unfolding Cons entry unfolding step unfolding JArray
          by (auto simp: pending_simps pending_children pending_totals)
      next
        case (JObject items)
        define owned' where "owned' = owned + sum_list (map (\<lambda>(key, _). str_len key) items)"
        define pending' where "pending' = rev (map (\<lambda>item. (item, depth + 1)) (map snd items)) @ rest"
        define keys_fit where "keys_fit \<longleftrightarrow> list_all (\<lambda>(key, _). str_len key \<le> BROWSER_PAGE_METADATA_KEY_MAX_BYTES) items"
        have pushed: "push_entries ''page metadata object key'' (depth + 1) items owned rest = Inr (o', p') \<longleftrightarrow>
            keys_fit \<and> o' = owned' \<and> owned' \<le> BROWSER_PAGE_METADATA_MAX_OWNED_BYTES \<and> p' = pending'" for o' p'
          by (auto simp: push_entries_Inr [OF owned_le] owned'_def pending'_def keys_fit_def comp_def case_prod_beta)
        have size': "pending_size pending' = sum_list (map (\<lambda>(_, item). json_size item) items) + pending_size rest"
          and owned_eq: "owned' + pending_owned pending' = owned + (json_owned v + pending_owned rest)"
          unfolding JObject owned'_def pending'_def pending_simps pending_totals
          by (simp_all add: comp_def case_prod_unfold sum_list_addf)
        have "depth + 1 \<le> BROWSER_PAGE_METADATA_MAX_DEPTH + 1" using True by simp
        note children = pending_children [OF this, of "map snd items"]
        have fits': "keys_fit \<and> length items \<le> BROWSER_PAGE_METADATA_MAX_CONTAINER_ITEMS \<and> pending_fits pending' \<longleftrightarrow>
            depth + json_height v \<le> BROWSER_PAGE_METADATA_MAX_DEPTH + 1 \<and> json_fits v \<and> pending_fits rest"
          unfolding JObject keys_fit_def pending'_def pending_simps children
          by (auto simp: comp_def case_prod_unfold list_all_iff)
        have "validate_pending pending owned seen = Inr () \<longleftrightarrow>
            length items \<le> BROWSER_PAGE_METADATA_MAX_CONTAINER_ITEMS \<and> keys_fit \<and> owned' \<le> BROWSER_PAGE_METADATA_MAX_OWNED_BYTES
            \<and> validate_pending pending' owned' (seen + 1) = Inr ()"
          using True pushed unfolding Cons entry unfolding step unfolding JObject by (auto simp: not_less)
        moreover have "validate_pending pending' owned' (seen + 1) = Inr () \<longleftrightarrow> pending_fits pending'
            \<and> seen + 1 + pending_size pending' \<le> BROWSER_PAGE_METADATA_MAX_VALUES
            \<and> owned + (json_owned v + pending_owned rest) \<le> BROWSER_PAGE_METADATA_MAX_OWNED_BYTES"
          if "owned' \<le> BROWSER_PAGE_METADATA_MAX_OWNED_BYTES"
          using IH [OF _ _ that, of pending' "seen + 1"] True size' owned_eq by (simp add: JObject)
        moreover have "seen + pending_size pending = seen + 1 + pending_size pending'"
          by (simp add: Cons entry pending_simps JObject size')
        moreover have "owned' \<le> owned + (json_owned v + pending_owned rest)" using owned_eq by linarith
        ultimately show ?thesis using fits' unfolding Cons entry pending_simps by auto
      qed (use IH [of rest "seen + 1" owned] True owned_le in \<open>unfold Cons entry; unfold step; auto simp: pending_simps\<close>)+
    qed
  qed (use seen_le owned_le in \<open>simp add: pending_simps\<close>)
qed

definition request_fits :: "(rstr \<times> rstr) list \<Rightarrow> bool" where
  "request_fits data \<longleftrightarrow>
     list_all (\<lambda>(key, val). str_len key \<le> BROWSER_PAGE_REQUEST_KEY_MAX_BYTES \<and> str_len val \<le> BROWSER_PAGE_REQUEST_VALUE_MAX_BYTES) data
     \<and> sum_list (map (\<lambda>(key, val). str_len key + str_len val) data) \<le> BROWSER_PAGE_REQUEST_MAX_OWNED_BYTES"

lemma validate_request_exact:
  "owned \<le> BROWSER_PAGE_REQUEST_MAX_OWNED_BYTES \<Longrightarrow>
   (\<exists>n. validate_request data owned = Inr n) \<longleftrightarrow>
   list_all (\<lambda>(key, val). str_len key \<le> BROWSER_PAGE_REQUEST_KEY_MAX_BYTES \<and> str_len val \<le> BROWSER_PAGE_REQUEST_VALUE_MAX_BYTES) data
   \<and> owned + sum_list (map (\<lambda>(key, val). str_len key + str_len val) data) \<le> BROWSER_PAGE_REQUEST_MAX_OWNED_BYTES"
proof (induction data arbitrary: owned)
  case (Cons entry rest)
  obtain key val where entry: "entry = (key, val)" by fastforce
  have exact: "usize_saturating_add (str_len key) (str_len val) = str_len key + str_len val"
    if "str_len key \<le> BROWSER_PAGE_REQUEST_KEY_MAX_BYTES" "str_len val \<le> BROWSER_PAGE_REQUEST_VALUE_MAX_BYTES"
    using that by (simp add: usize_saturating_add_def page_limits)
  have max: "BROWSER_PAGE_REQUEST_MAX_OWNED_BYTES < 2 ^ 64" by (simp add: page_limits)
  show ?case
    using Cons.IH [of "owned + (str_len key + str_len val)"] exact
    by (auto simp: entry add_bounded_Inr [OF max])
qed simp

definition page_admitted :: "BrowserPage \<Rightarrow> bool" where
  "page_admitted page \<longleftrightarrow>
     str_len (bp_url page) \<le> BROWSER_PAGE_URL_MAX_BYTES \<and> str_len (bp_title page) \<le> BROWSER_PAGE_TITLE_MAX_BYTES
     \<and> str_len (bp_markup page) \<le> BROWSER_PAGE_MARKUP_MAX_BYTES \<and> length (bp_metadata page) \<le> BROWSER_PAGE_METADATA_MAX_ITEMS
     \<and> list_all (\<lambda>(key, v). str_len key \<le> BROWSER_PAGE_METADATA_KEY_MAX_BYTES \<and> json_fits v
          \<and> json_height v \<le> BROWSER_PAGE_METADATA_MAX_DEPTH) (bp_metadata page)
     \<and> sum_list (map (\<lambda>(key, v). str_len key + json_owned v) (bp_metadata page)) \<le> BROWSER_PAGE_METADATA_MAX_OWNED_BYTES
     \<and> sum_list (map (\<lambda>(_, v). json_size v) (bp_metadata page)) \<le> BROWSER_PAGE_METADATA_MAX_VALUES
     \<and> (case bp_request_data page of None \<Rightarrow> True
          | Some data \<Rightarrow> length data \<le> BROWSER_PAGE_REQUEST_MAX_ITEMS \<and> request_fits data)"

lemma validate_retained_exact: "validate_retained page = Inr () \<longleftrightarrow> page_admitted page"
proof -
  define owned where "owned = sum_list (map (\<lambda>(key, _). str_len key) (bp_metadata page))"
  define pending where "pending = rev (map (\<lambda>(_, v). (v, 1 :: nat)) (bp_metadata page))"
  have pushed: "push_entries ''page metadata key'' 1 (bp_metadata page) 0 [] = Inr (o', p') \<longleftrightarrow>
      list_all (\<lambda>(key, _). str_len key \<le> BROWSER_PAGE_METADATA_KEY_MAX_BYTES) (bp_metadata page)
      \<and> o' = owned \<and> owned \<le> BROWSER_PAGE_METADATA_MAX_OWNED_BYTES \<and> p' = pending" for o' p'
    by (auto simp: push_entries_Inr owned_def pending_def)
  have totals: "pending_size pending = sum_list (map (\<lambda>(_, v). json_size v) (bp_metadata page))"
    "owned + pending_owned pending = sum_list (map (\<lambda>(key, v). str_len key + json_owned v) (bp_metadata page))"
    "pending_fits pending \<longleftrightarrow> list_all (\<lambda>(_, v). json_height v \<le> BROWSER_PAGE_METADATA_MAX_DEPTH \<and> json_fits v) (bp_metadata page)"
    unfolding pending_def pending_simps
    by (simp_all add: owned_def pending_size_def pending_owned_def pending_fits_def list_all_iff case_prod_unfold comp_def sum_list_addf)
  have request: "(\<exists>n. validate_request data 0 = Inr n) \<longleftrightarrow> request_fits data" for data
    by (simp add: validate_request_exact request_fits_def)
  have walk: "owned \<le> BROWSER_PAGE_METADATA_MAX_OWNED_BYTES \<Longrightarrow> validate_pending pending owned 0 = Inr () \<longleftrightarrow>
      pending_fits pending \<and> pending_size pending \<le> BROWSER_PAGE_METADATA_MAX_VALUES
      \<and> owned + pending_owned pending \<le> BROWSER_PAGE_METADATA_MAX_OWNED_BYTES"
    by (simp add: validate_pending_exact)
  have metadata: "(\<exists>o' p'. push_entries ''page metadata key'' 1 (bp_metadata page) 0 [] = Inr (o', p') \<and> validate_pending p' o' 0 = Inr ())
      \<longleftrightarrow> list_all (\<lambda>(key, v). str_len key \<le> BROWSER_PAGE_METADATA_KEY_MAX_BYTES \<and> json_fits v
            \<and> json_height v \<le> BROWSER_PAGE_METADATA_MAX_DEPTH) (bp_metadata page)
        \<and> owned + pending_owned pending \<le> BROWSER_PAGE_METADATA_MAX_OWNED_BYTES \<and> pending_size pending \<le> BROWSER_PAGE_METADATA_MAX_VALUES"
  proof (cases "owned \<le> BROWSER_PAGE_METADATA_MAX_OWNED_BYTES")
    case True
    then show ?thesis unfolding pushed by (auto simp: walk totals(3) list_all_iff)
  qed (unfold pushed, auto)
  show ?thesis
    using metadata
    by (auto simp: validate_retained_def page_admitted_def totals(1,2) request not_less split: option.split)
qed

text \<open>
  C27: the retention check of a page, which walks its metadata with a stack, succeeds exactly for the pages
  whose address, title and markup are short enough, whose metadata trees are at most 32 levels deep with at
  most 131072 values and 16 MiB of strings and keys in all and every string, key and container within its
  own limit, and whose request data is within its limits.
\<close>

theorem page_retention_exact: "validate_retained page = Inr () \<longleftrightarrow> page_admitted page"
  by (rule validate_retained_exact)

section \<open>Canonical addresses\<close>

lemma trim_both_ends:
  assumes "trim_both p xs \<noteq> []"
  shows "\<not> p (hd (trim_both p xs))" "\<not> p (last (trim_both p xs))"
proof -
  define ys where "ys = dropWhile p xs"
  have ne: "dropWhile p (rev ys) \<noteq> []" and eq: "trim_both p xs = rev (dropWhile p (rev ys))"
    using assms by (auto simp: trim_both_def ys_def)
  show "\<not> p (last (trim_both p xs))" using hd_dropWhile [OF ne] by (simp add: eq last_rev)
  have "ys \<noteq> []" using ne by auto
  then have "\<not> p (hd ys)" using hd_dropWhile [of p xs] by (simp add: ys_def)
  moreover have "last (dropWhile p (rev ys)) = hd ys"
    using ne by (metis dropWhile_append last_append last_rev rev_rev_ident takeWhile_dropWhile_id)
  ultimately show "\<not> p (hd (trim_both p xs))" by (simp add: eq hd_rev)
qed

lemma trim_both_fixed: "xs \<noteq> [] \<Longrightarrow> \<not> p (hd xs) \<Longrightarrow> \<not> p (last xs) \<Longrightarrow> trim_both p xs = xs"
proof -
  assume "xs \<noteq> []" "\<not> p (hd xs)" "\<not> p (last xs)"
  then have "dropWhile p xs = xs" "dropWhile p (rev xs) = rev xs" by (simp_all add: dropWhile_eq_self_iff hd_rev)
  then show ?thesis by (simp add: trim_both_def)
qed

definition canonical_address :: "BrowserAddress \<Rightarrow> bool" where
  "canonical_address a \<longleftrightarrow>
     ba_destination a \<noteq> [] \<and> chr CHR '':'' \<notin> set (ba_destination a) \<and> \<not> white_space (hd (ba_destination a))
     \<and> starts_with (lit ''/'') (ba_path a) \<and> \<not> white_space (last (ba_path a))"

lemma address_parse_canonical:
  assumes "address_parse input = Some a"
  shows "canonical_address a"
proof -
  obtain destination path where parts: "str_trimmed input = destination @ chr CHR '':'' # path" "chr CHR '':'' \<notin> set destination"
      "destination \<noteq> []" "a = \<lparr>ba_destination = destination, ba_path = normalize_path (if path = [] then DEFAULT_PATH else path)\<rparr>"
    using assms by (auto simp: address_parse_def parse_with_current_def split_once_Some split: option.splits if_splits bind_splits)
  note ends = trim_both_ends [of white_space input, folded str_trimmed_def, unfolded parts(1)]
  have "\<not> white_space (last path)" if "path \<noteq> []" using ends(2) that by simp
  then have "\<not> white_space (last (normalize_path (if path = [] then DEFAULT_PATH else path)))"
    by (simp add: normalize_path_def DEFAULT_PATH_def lit_def chr_def white_space_def)
  moreover have "\<not> white_space (hd destination)" using ends(1) parts(3) by simp
  ultimately show ?thesis
    using parts(2,3) by (simp add: parts(4) canonical_address_def normalize_path_def starts_with_def lit_def)
qed

lemma canonical_address_url:
  assumes "canonical_address a"
  shows "address_parse (address_url a) = Some a"
proof -
  have path: "ba_path a \<noteq> []" "starts_with (lit ''/'') (ba_path a)"
    using assms by (auto simp: canonical_address_def starts_with_def lit_def)
  have "str_trimmed (address_url a) = address_url a"
    unfolding str_trimmed_def using assms path(1)
    by (intro trim_both_fixed) (simp_all add: address_url_def canonical_address_def)
  moreover have "split_once (chr CHR '':'') (address_url a) = Some (ba_destination a, ba_path a)"
    using assms by (simp add: split_once_Some address_url_def canonical_address_def lit_def)
  ultimately show ?thesis
    using assms path by (simp add: address_parse_def parse_with_current_def normalize_path_def canonical_address_def)
qed

text \<open>
  the URL of a parsed address parses to the same address, so a resolved link, a history entry and a cache
  key all name one page; the destination is not empty and holds no colon, and the path starts with a slash.
\<close>

theorem address_roundtrip:
  assumes "address_parse input = Some a"
  shows "address_parse (address_url a) = Some a \<and> ba_destination a \<noteq> [] \<and> chr CHR '':'' \<notin> set (ba_destination a)
     \<and> starts_with (lit ''/'') (ba_path a)"
  using canonical_address_url [OF address_parse_canonical [OF assms]] address_parse_canonical [OF assms]
  by (simp add: canonical_address_def)

theorem address_roundtrip_witness:
  "address_parse (address_url \<lparr>ba_destination = lit ''node'', ba_path = lit ''/page/a:b''\<rparr>)
     = Some \<lparr>ba_destination = lit ''node'', ba_path = lit ''/page/a:b''\<rparr>"
proof -
  have "address_parse (lit '' node:page/a:b '') = Some \<lparr>ba_destination = lit ''node'', ba_path = lit ''/page/a:b''\<rparr>"
    by code_simp
  from address_roundtrip [OF this] show ?thesis by simp
qed

end
