(* ===== verification/Page_Cache.thy ===== *)
theory Page_Cache
  imports Browser_Page
begin

text \<open>
  The page cache of the browser (\<^verbatim>\<open>browser/cache.rs\<close>): an index of cached pages in memory, one file per
  page and a saved copy of the index. File operations may fail, and a removal that fails is ignored, as the
  source does. JSON encoding of records and SHA-256 are parameters.
\<close>

definition DEFAULT_CACHE_SECONDS :: nat where "DEFAULT_CACHE_SECONDS = 12 * 60 * 60"
definition PAGE_CACHE_MAX_ITEMS :: nat where "PAGE_CACHE_MAX_ITEMS = 256"
definition PAGE_CACHE_MAX_BYTES :: nat where "PAGE_CACHE_MAX_BYTES = 64 * 1024 * 1024"
definition PAGE_CACHE_MAX_RECORD_BYTES :: nat where "PAGE_CACHE_MAX_RECORD_BYTES = 5 * 1024 * 1024"

record CacheRecord =
  cr_key :: rstr
  cr_title :: rstr
  cr_markup :: rstr
  cr_metadata :: "(rstr, Json) btree_map"
  cr_created_at :: nat
  cr_expires_at :: nat

record CacheIndexEntry =
  ce_key :: rstr
  ce_created_at :: nat
  ce_expires_at :: nat
  ce_bytes :: nat
  ce_sequence :: nat

record CacheIndex =
  ci_entries :: "(rstr, CacheIndexEntry) btree_map"
  ci_total_bytes :: nat
  ci_next_sequence :: nat

definition cache_index_default :: CacheIndex where
  "cache_index_default = \<lparr>ci_entries = [], ci_total_bytes = 0, ci_next_sequence = 0\<rparr>"

text \<open>
  The cache with its directory: the files by name, and the index file as the index it holds when it can be
  read. A panic while the index is locked poisons the lock.
\<close>

record PageCache =
  pc_index :: CacheIndex
  pc_poisoned :: bool
  pc_files :: "(rstr, bytes) btree_map"
  pc_saved :: "CacheIndex option"

text \<open>\<^verbatim>\<open>serde_json\<close> for records, and the digest.\<close>

record CacheEnv =
  cv_encode :: "CacheRecord \<Rightarrow> bytes"
  cv_decode :: "bytes \<Rightarrow> CacheRecord option"
  cv_sha256 :: "bytes \<Rightarrow> bytes"

text \<open>Which file operations of a call succeed.\<close>

record CacheFaults =
  cf_write :: bool
  cf_replace :: bool
  cf_save :: bool
  cf_read :: bool
  cf_remove :: "rstr \<Rightarrow> bool"

datatype CacheError = CacheBrowserError string | CacheIoError

definition u64_saturating_add :: "nat \<Rightarrow> nat \<Rightarrow> nat" where
  "u64_saturating_add a b = min (a + b) (2 ^ 64 - 1)"

definition cache_hash :: "CacheEnv \<Rightarrow> rstr \<Rightarrow> rstr" where
  "cache_hash env key = lower_hex (cv_sha256 env (encode_utf8 key))"

definition path_for_hash :: "rstr \<Rightarrow> rstr" where
  "path_for_hash hash = hash @ lit ''.mu''"

definition remove_file :: "CacheFaults \<Rightarrow> rstr \<Rightarrow> (rstr, bytes) btree_map \<Rightarrow> (rstr, bytes) btree_map" where
  "remove_file f name files = (if cf_remove f name then bt_remove name files else files)"

definition remove_index_entry_file :: "CacheFaults \<Rightarrow> rstr \<Rightarrow> bool \<Rightarrow> PageCache \<Rightarrow> PageCache" where
  "remove_index_entry_file f hash remove_the_file c =
     (let index = pc_index c;
          index = (case bt_get (ci_entries index) hash of
            None \<Rightarrow> index
          | Some entry \<Rightarrow> index\<lparr>ci_entries := bt_remove hash (ci_entries index), ci_total_bytes := ci_total_bytes index - ce_bytes entry\<rparr>) in
      c\<lparr>pc_index := index,
        pc_files := (if remove_the_file then remove_file f (path_for_hash hash) (pc_files c) else pc_files c)\<rparr>)"

fun min_by_key :: "('a \<Rightarrow> 'k :: linorder) \<Rightarrow> 'a list \<Rightarrow> 'a option" where
  "min_by_key key [] = None"
| "min_by_key key (x # xs) =
     (case min_by_key key xs of
        None \<Rightarrow> Some x
      | Some y \<Rightarrow> if key x \<le> key y then Some x else Some y)"

definition oldest_entry :: "rstr option \<Rightarrow> (rstr, CacheIndexEntry) btree_map \<Rightarrow> rstr option" where
  "oldest_entry protected entries =
     map_option fst (min_by_key (\<lambda>(hash, entry). (ce_sequence entry, ce_created_at entry, hash))
       (filter (\<lambda>(hash, _). protected \<noteq> Some hash) entries))"

lemma min_by_key_mem: "min_by_key key xs = Some x \<Longrightarrow> x \<in> set xs \<and> (\<forall>y\<in>set xs. key x \<le> key y)"
proof (induction xs arbitrary: x)
  case (Cons y ys)
  show ?case
  proof (cases "min_by_key key ys")
    case None
    then show ?thesis using Cons.prems by (cases ys) (auto split: option.splits if_splits)
  next
    case (Some z)
    then show ?thesis using Cons.IH [OF Some] Cons.prems by (auto split: if_splits)
  qed
qed simp

lemma min_by_key_None [simp]: "min_by_key key xs = None \<longleftrightarrow> xs = []"
  by (cases xs) (auto split: option.splits)

lemma oldest_entry_mem: "oldest_entry protected entries = Some hash \<Longrightarrow> hash \<in> fst ` set entries \<and> protected \<noteq> Some hash"
  by (auto simp: oldest_entry_def dest!: min_by_key_mem) force

lemma bt_get_key: "hash \<in> fst ` set m \<Longrightarrow> \<exists>v. bt_get m hash = Some v"
  by (induction m) force+

lemma length_bt_remove: "bt_get m k = Some v \<Longrightarrow> length (bt_remove k m) < length m"
  unfolding bt_remove_def bt_retain_def by (intro length_filter_less [OF bt_get_SomeD]) auto

function enforce_budget :: "CacheFaults \<Rightarrow> rstr option \<Rightarrow> PageCache \<Rightarrow> PageCache" where
  "enforce_budget f protected c =
     (if length (ci_entries (pc_index c)) > PAGE_CACHE_MAX_ITEMS \<or> ci_total_bytes (pc_index c) > PAGE_CACHE_MAX_BYTES then
        case oldest_entry protected (ci_entries (pc_index c)) of
          None \<Rightarrow> c
        | Some hash \<Rightarrow> enforce_budget f protected (remove_index_entry_file f hash True c)
      else c)"
  by pat_completeness auto
termination
proof (relation "measure (\<lambda>(_, _, c). length (ci_entries (pc_index c)))")
  fix f protected and c :: PageCache and hash
  assume "oldest_entry protected (ci_entries (pc_index c)) = Some hash"
  then obtain v where "bt_get (ci_entries (pc_index c)) hash = Some v" using oldest_entry_mem bt_get_key by metis
  then show "((f, protected, remove_index_entry_file f hash True c), (f, protected, c))
      \<in> measure (\<lambda>(_, _, c). length (ci_entries (pc_index c)))"
    by (simp add: remove_index_entry_file_def Let_def length_bt_remove)
qed simp

declare enforce_budget.simps [simp del]

definition save_index :: "CacheFaults \<Rightarrow> PageCache \<Rightarrow> (CacheError + unit) \<times> PageCache" where
  "save_index f c = (if cf_save f then (Inr (), c\<lparr>pc_saved := Some (pc_index c)\<rparr>) else (Inl CacheIoError, c))"

definition lock_index :: "PageCache \<Rightarrow> CacheError + unit" where
  "lock_index c = (if pc_poisoned c then Inl (CacheBrowserError ''page cache index lock poisoned'') else Inr ())"

definition cache_delete :: "CacheEnv \<Rightarrow> CacheFaults \<Rightarrow> rstr \<Rightarrow> PageCache \<Rightarrow> (CacheError + unit) \<times> PageCache" where
  "cache_delete env f key c =
     (case lock_index c of
        Inl e \<Rightarrow> (Inl e, c)
      | Inr _ \<Rightarrow> save_index f (remove_index_entry_file f (cache_hash env key) True c))"

definition cache_store :: "CacheEnv \<Rightarrow> CacheFaults \<Rightarrow> nat \<Rightarrow> rstr \<Rightarrow> rstr \<Rightarrow> nat \<Rightarrow> rstr \<Rightarrow> (rstr, Json) btree_map \<Rightarrow>
    PageCache \<Rightarrow> (CacheError + rstr option) \<times> PageCache" where
  "cache_store env f now key markup ttl_seconds title metadata c =
     (if ttl_seconds = 0 then
        (case cache_delete env f key c of
           (Inl e, c) \<Rightarrow> (Inl e, c)
         | (Inr _, c) \<Rightarrow> (Inr None, c))
      else
        let rec = \<lparr>cr_key = key, cr_title = title, cr_markup = markup, cr_metadata = metadata, cr_created_at = now,
              cr_expires_at = u64_saturating_add now ttl_seconds\<rparr>;
            raw = cv_encode env rec in
        if length raw > PAGE_CACHE_MAX_RECORD_BYTES
        then (Inl (CacheBrowserError (''cache record exceeds '' @ show_nat PAGE_CACHE_MAX_RECORD_BYTES @ '' byte limit'')), c)
        else
          case lock_index c of
            Inl e \<Rightarrow> (Inl e, c)
          | Inr _ \<Rightarrow>
              let hash = cache_hash env key;
                  path = path_for_hash hash;
                  sequence = u64_saturating_add (ci_next_sequence (pc_index c)) 1;
                  c = c\<lparr>pc_index := (pc_index c)\<lparr>ci_next_sequence := sequence\<rparr>\<rparr> in
              if \<not> cf_write f \<or> \<not> cf_replace f then (Inl CacheIoError, c)
              else
                let c = c\<lparr>pc_files := bt_insert path raw (pc_files c)\<rparr>;
                    c = remove_index_entry_file f hash False c;
                    index = pc_index c;
                    index = index\<lparr>ci_total_bytes := u64_saturating_add (ci_total_bytes index) (length raw),
                      ci_entries := bt_insert hash \<lparr>ce_key = key, ce_created_at = now, ce_expires_at = cr_expires_at rec,
                          ce_bytes = length raw, ce_sequence = sequence\<rparr> (ci_entries index)\<rparr>;
                    c = enforce_budget f (Some hash) (c\<lparr>pc_index := index\<rparr>) in
                (case save_index f c of
                   (Inl e, c) \<Rightarrow> (Inl e, c)
                 | (Inr _, c) \<Rightarrow> (Inr (Some path), c)))"

text \<open>What \<^verbatim>\<open>load\<close> does with a record it cannot use.\<close>

definition discard_entry :: "CacheFaults \<Rightarrow> rstr \<Rightarrow> PageCache \<Rightarrow> (CacheError + CacheRecord option) \<times> PageCache" where
  "discard_entry f hash c =
     (case save_index f (remove_index_entry_file f hash True c) of
        (Inl e, c) \<Rightarrow> (Inl e, c)
      | (Inr _, c) \<Rightarrow> (Inr None, c))"

text \<open>The clock is read when the entry is found and again when the record has been read.\<close>

definition cache_load :: "CacheEnv \<Rightarrow> CacheFaults \<Rightarrow> nat \<Rightarrow> nat \<Rightarrow> rstr \<Rightarrow> PageCache \<Rightarrow> (CacheError + CacheRecord option) \<times> PageCache" where
  "cache_load env f now later key c =
     (let hash = cache_hash env key in
      case lock_index c of
        Inl e \<Rightarrow> (Inl e, c)
      | Inr _ \<Rightarrow>
          (case bt_get (ci_entries (pc_index c)) hash of
             None \<Rightarrow> (Inr None, c)
           | Some entry \<Rightarrow>
               if ce_key entry \<noteq> key \<or> now > ce_expires_at entry then discard_entry f hash c
               else
                 case bt_get (pc_files c) (path_for_hash hash) of
                   None \<Rightarrow> discard_entry f hash c
                 | Some raw \<Rightarrow>
                     if length raw > PAGE_CACHE_MAX_RECORD_BYTES then discard_entry f hash c
                     else if length raw \<noteq> ce_bytes entry then discard_entry f hash c
                     else if \<not> cf_read f then (Inl CacheIoError, c)
                     else
                       case cv_decode env raw of
                         None \<Rightarrow> discard_entry f hash c
                       | Some rec \<Rightarrow>
                           if cr_key rec = key \<and> cr_expires_at rec = ce_expires_at entry \<and> later \<le> cr_expires_at rec
                           then (Inr (Some rec), c)
                           else discard_entry f hash c))"

definition cache_clean :: "CacheFaults \<Rightarrow> nat \<Rightarrow> PageCache \<Rightarrow> (CacheError + unit) \<times> PageCache" where
  "cache_clean f now c =
     (case lock_index c of
        Inl e \<Rightarrow> (Inl e, c)
      | Inr _ \<Rightarrow>
          let stale = map fst (filter (\<lambda>(hash, entry). now > ce_expires_at entry \<or> bt_get (pc_files c) (path_for_hash hash) = None)
                (ci_entries (pc_index c)));
              c = foldl (\<lambda>c hash. remove_index_entry_file f hash True c) c stale in
          save_index f (enforce_budget f None c))"

section \<open>Opening the cache\<close>

text \<open>\<^verbatim>\<open>path.extension() == Some("mu")\<close> for a file name.\<close>

definition has_mu_extension :: "rstr \<Rightarrow> bool" where
  "has_mu_extension name \<longleftrightarrow> length name > 3 \<and> ends_with (lit ''.mu'') name"

text \<open>One directory entry of the rebuild; a rename that fails leaves the file where it is.\<close>

definition rebuild_entry :: "CacheEnv \<Rightarrow> CacheFaults \<Rightarrow> nat \<Rightarrow> rstr \<Rightarrow> PageCache \<Rightarrow> PageCache" where
  "rebuild_entry env f now name c =
     (if \<not> has_mu_extension name then c
      else
        case bt_get (pc_files c) name of
          None \<Rightarrow> c
        | Some raw \<Rightarrow>
            let drop_file = c\<lparr>pc_files := remove_file f name (pc_files c)\<rparr> in
            if length raw > PAGE_CACHE_MAX_RECORD_BYTES then drop_file
            else if \<not> cf_read f then c
            else
              case cv_decode env raw of
                None \<Rightarrow> drop_file
              | Some rec \<Rightarrow>
                  if now > cr_expires_at rec then drop_file
                  else
                    let hash = cache_hash env (cr_key rec);
                        canonical = path_for_hash hash in
                    if name \<noteq> canonical \<and> bt_get (pc_files c) canonical \<noteq> None then drop_file
                    else if name \<noteq> canonical \<and> \<not> cf_replace f then c
                    else
                      let files = (if name = canonical then pc_files c else bt_insert canonical raw (bt_remove name (pc_files c)));
                          index = pc_index c;
                          sequence = u64_saturating_add (ci_next_sequence index) 1 in
                      c\<lparr>pc_files := files,
                        pc_index := index\<lparr>ci_total_bytes := u64_saturating_add (ci_total_bytes index) (length raw),
                          ci_next_sequence := sequence,
                          ci_entries := bt_insert hash \<lparr>ce_key = cr_key rec, ce_created_at = cr_created_at rec,
                              ce_expires_at = cr_expires_at rec, ce_bytes = length raw, ce_sequence = sequence\<rparr> (ci_entries index)\<rparr>\<rparr>)"

text \<open>The names of the directory come in the order \<^verbatim>\<open>read_dir\<close> gives them.\<close>

definition load_or_rebuild_index :: "CacheEnv \<Rightarrow> CacheFaults \<Rightarrow> nat \<Rightarrow> rstr list \<Rightarrow> PageCache \<Rightarrow> (CacheError + unit) \<times> PageCache" where
  "load_or_rebuild_index env f now listing c =
     (case pc_saved c of
        Some index \<Rightarrow> (Inr (), c\<lparr>pc_index := index\<rparr>)
      | None \<Rightarrow>
          save_index f (enforce_budget f None
            (foldl (\<lambda>c name. rebuild_entry env f now name c) (c\<lparr>pc_index := cache_index_default\<rparr>) listing)))"

definition page_cache_new :: "CacheEnv \<Rightarrow> CacheFaults \<Rightarrow> nat \<Rightarrow> rstr list \<Rightarrow> PageCache \<Rightarrow> (CacheError + unit) \<times> PageCache" where
  "page_cache_new env f now listing c =
     (case load_or_rebuild_index env f now listing (c\<lparr>pc_poisoned := False\<rparr>) of
        (Inl e, c) \<Rightarrow> (Inl e, c)
      | (Inr _, c) \<Rightarrow> cache_clean f now c)"

fun ttl_of_lines :: "rstr list \<Rightarrow> nat" where
  "ttl_of_lines [] = DEFAULT_CACHE_SECONDS"
| "ttl_of_lines (line # rest) =
     (let trimmed = str_trimmed line in
      case (case strip_prefix (lit ''#!'') trimmed of None \<Rightarrow> strip_prefix (lit ''#'') trimmed | Some directive \<Rightarrow> Some directive) of
        None \<Rightarrow> if trimmed = [] then ttl_of_lines rest else DEFAULT_CACHE_SECONDS
      | Some directive \<Rightarrow>
          (case split_once (chr CHR ''='') directive of
             None \<Rightarrow> ttl_of_lines rest
           | Some (key, val) \<Rightarrow>
               if str_trimmed key = lit ''c''
               then (case parse_usize (str_trimmed val) of None \<Rightarrow> DEFAULT_CACHE_SECONDS | Some seconds \<Rightarrow> seconds)
               else ttl_of_lines rest))"

definition cache_ttl_for_markup :: "rstr \<Rightarrow> nat" where
  "cache_ttl_for_markup markup = ttl_of_lines (str_lines markup)"

end
