(* ===== verification/Browser_Session.thy ===== *)
theory Browser_Session
  imports Browser_Partials Page_Cache
begin

text \<open>
  A browser session (\<^verbatim>\<open>browser/session.rs\<close>): the current page and its parsed document, form fields, partials
  and the navigation history. Fetching is a parameter of each call that fetches, with the faults of the
  cache; the MicronPlus and OmenChat block lowerings of a page and the JSON text of request data are
  parameters of the session. An index out of range is the error \<open>AppPanic\<close>.
\<close>

definition BROWSER_HISTORY_MAX_ITEMS :: nat where "BROWSER_HISTORY_MAX_ITEMS = 512"
definition BROWSER_HISTORY_MAX_OWNED_BYTES :: nat where "BROWSER_HISTORY_MAX_OWNED_BYTES = 1024 * 1024"

datatype AppError = AppIo | AppSettings rstr | AppRuntime rstr | AppUnsupported rstr | AppBrowser rstr | AppMicron rstr | AppPanic

record BrowserSession =
  bs_current_page :: "BrowserPage option"
  bs_current_document :: "Document option"
  bs_history :: "rstr list"
  bs_history_index :: int
  bs_field_values :: "(rstr, rstr) btree_map"
  bs_partials :: "PartialSpec list"
  bs_generation :: nat
  bs_partial_base_markup :: "rstr option"
  bs_partial_contents :: "(rstr, rstr) btree_map"
  bs_micronplus_enabled :: bool
  bs_trusted_micronplus_nodes :: "rstr list option"
  bs_cache :: "PageCache option"
  bs_runtime :: bool
  bs_downloads_dir :: "rstr option"
  bs_operation_id :: "rstr option"

text \<open>What \<^verbatim>\<open>plugins::micronplus\<close> makes of a page: its layout and tree, when not empty, and the lowered markup.\<close>

record MicronPlus =
  mi_layout :: "rstr + Json option"
  mi_tree :: "rstr + Json option"
  mi_markup :: rstr
  mi_diagnostics :: "rstr list"

record BrowserEnv =
  be_partials :: PartialEnv
  be_cache :: CacheEnv
  be_has_micronplus :: "rstr \<Rightarrow> bool"
  be_micronplus :: "rstr \<Rightarrow> MicronPlus"
  be_omenchat :: "rstr \<Rightarrow> rstr"
  be_json :: "(rstr, rstr) btree_map \<Rightarrow> rstr"

definition browser_error :: "string \<Rightarrow> AppError" where
  "browser_error message = AppBrowser (lit message)"

section \<open>Form fields\<close>

definition bounded_field_value_is_admitted :: "(rstr, rstr) btree_map \<Rightarrow> rstr \<Rightarrow> rstr \<Rightarrow> bool" where
  "bounded_field_value_is_admitted field_map name val \<longleftrightarrow>
     \<not> (name = [] \<or> str_len name > MICRON_CONTROL_NAME_MAX_BYTES \<or> str_len val > MICRON_CONTROL_VALUE_MAX_BYTES
        \<or> bt_get field_map name = None \<and> length field_map \<ge> MICRON_CONTROL_MAX_ITEMS)
     \<and> (let retained_bytes = foldl (\<lambda>bytes (k, v). if k = name then bytes
              else usize_saturating_add bytes (usize_saturating_add (str_len k) (str_len v))) 0 field_map in
        case Option.bind (usize_checked_add retained_bytes (str_len name)) (\<lambda>bytes. usize_checked_add bytes (str_len val)) of
          None \<Rightarrow> False
        | Some bytes \<Rightarrow> bytes \<le> MICRON_CONTROL_MAX_OWNED_BYTES)"

definition insert_bounded_field_value :: "rstr \<Rightarrow> rstr \<Rightarrow> (rstr, rstr) btree_map \<Rightarrow> bool \<times> (rstr, rstr) btree_map" where
  "insert_bounded_field_value name val field_map =
     (if bounded_field_value_is_admitted field_map name val then (True, bt_insert name val field_map) else (False, field_map))"

definition sync_fragment :: "(rstr, rstr) btree_map \<Rightarrow> Fragment \<Rightarrow> Fragment" where
  "sync_fragment field_map fragment =
     (case fragment of
        Span span \<Rightarrow> Span span
      | Control control \<Rightarrow>
          if fc_kind control = lit ''field'' then
            (case bt_get field_map (fc_name control) of
               Some val \<Rightarrow> Control (control\<lparr>fc_value := val\<rparr>)
             | None \<Rightarrow> Control control)
          else if fc_kind control \<in> {lit ''checkbox'', lit ''radio''} then
            Control (control\<lparr>fc_prechecked := (bt_get field_map (fc_name control) = Some (fc_value control))\<rparr>)
          else Control control)"

definition sync_document_control_state :: "BrowserSession \<Rightarrow> BrowserSession" where
  "sync_document_control_state s =
     s\<lparr>bs_current_document := map_option (\<lambda>document.
         document\<lparr>doc_rows := map (\<lambda>row. row\<lparr>rr_fragments := map (sync_fragment (bs_field_values s)) (rr_fragments row)\<rparr>)
           (doc_rows document)\<rparr>) (bs_current_document s)\<rparr>"

definition document_fragments :: "Document \<Rightarrow> Fragment list" where
  "document_fragments document = concat (map rr_fragments (doc_rows document))"

definition interactive_controls :: "BrowserSession \<Rightarrow> FieldControl list" where
  "interactive_controls s =
     (case bs_current_document s of
        None \<Rightarrow> []
      | Some document \<Rightarrow>
          List.map_filter (\<lambda>fragment. case fragment of Control control \<Rightarrow> Some control | Span _ \<Rightarrow> None) (document_fragments document))"

definition available_links :: "BrowserSession \<Rightarrow> LinkAction list" where
  "available_links s =
     (case bs_current_document s of
        None \<Rightarrow> []
      | Some document \<Rightarrow>
          List.map_filter (\<lambda>fragment. case fragment of Span span \<Rightarrow> sp_link span | Control _ \<Rightarrow> None) (document_fragments document))"

definition refresh_control :: "(rstr, rstr) btree_map \<Rightarrow> FieldControl \<Rightarrow> (rstr, rstr) btree_map \<Rightarrow> (rstr, rstr) btree_map" where
  "refresh_control existing control field_map =
     (if fc_kind control = lit ''field'' then
        snd (insert_bounded_field_value (fc_name control)
          (case bt_get existing (fc_name control) of Some val \<Rightarrow> val | None \<Rightarrow> fc_value control) field_map)
      else if fc_kind control \<in> {lit ''checkbox'', lit ''radio''} \<and> fc_prechecked control then
        snd (insert_bounded_field_value (fc_name control) (fc_value control) field_map)
      else field_map)"

definition refresh_field_values :: "BrowserSession \<Rightarrow> BrowserSession" where
  "refresh_field_values s =
     (case bs_current_document s of
        None \<Rightarrow> s\<lparr>bs_field_values := []\<rparr>
      | Some _ \<Rightarrow>
          sync_document_control_state
            (s\<lparr>bs_field_values := fold (refresh_control (bs_field_values s)) (interactive_controls s) []\<rparr>))"

definition set_field_value :: "rstr \<Rightarrow> rstr \<Rightarrow> BrowserSession \<Rightarrow> bool \<times> BrowserSession" where
  "set_field_value name val s =
     (case insert_bounded_field_value name val (bs_field_values s) of
        (False, _) \<Rightarrow> (False, s)
      | (True, field_map) \<Rightarrow> (True, sync_document_control_state (s\<lparr>bs_field_values := field_map\<rparr>)))"

definition can_set_field_value :: "rstr \<Rightarrow> rstr \<Rightarrow> BrowserSession \<Rightarrow> bool" where
  "can_set_field_value name val s \<longleftrightarrow> bounded_field_value_is_admitted (bs_field_values s) name val"

definition apply_field_values :: "(rstr, rstr) btree_map \<Rightarrow> BrowserSession \<Rightarrow> BrowserSession" where
  "apply_field_values vals s =
     sync_document_control_state
       (s\<lparr>bs_field_values := fold (\<lambda>(name, val) field_map.
           if bt_get field_map name \<noteq> None then snd (insert_bounded_field_value name val field_map) else field_map)
         vals (bs_field_values s)\<rparr>)"

definition toggle_control :: "rstr \<Rightarrow> rstr \<Rightarrow> BrowserSession \<Rightarrow> bool \<times> BrowserSession" where
  "toggle_control name val s =
     (case find (\<lambda>control. fc_name control = name \<and> fc_value control = val) (interactive_controls s) of
        None \<Rightarrow> (False, s)
      | Some control \<Rightarrow>
          if fc_kind control = lit ''checkbox'' then
            if bt_get (bs_field_values s) name = Some val then
              (True, sync_document_control_state (s\<lparr>bs_field_values := bt_remove name (bs_field_values s)\<rparr>))
            else set_field_value name val s
          else if fc_kind control = lit ''radio'' then set_field_value name val s
          else (False, s))"

definition build_request_data :: "rstr list \<Rightarrow> BrowserSession \<Rightarrow> (rstr, rstr) btree_map" where
  "build_request_data names s =
     (let include_all = (lit ''*'' \<in> set names);
          variables = List.map_filter (split_once (chr CHR ''='')) names;
          named_fields = filter (\<lambda>field. split_once (chr CHR ''='') field = None \<and> field \<noteq> lit ''*'') names;
          data = fold (\<lambda>(key, val). bt_insert (lit ''var_'' @ key) val) variables [];
          data = (if include_all
            then fold (\<lambda>(name, val). bt_insert (lit ''field_'' @ name) val) (bs_field_values s) data else data) in
      fold (\<lambda>field. bt_insert (lit ''field_'' @ field)
          (case bt_get (bs_field_values s) field of Some val \<Rightarrow> val | None \<Rightarrow> [])) named_fields data)"

section \<open>Addresses\<close>

definition current_url :: "BrowserSession \<Rightarrow> rstr option" where
  "current_url s = map_option bp_url (bs_current_page s)"

definition current_destination :: "BrowserSession \<Rightarrow> rstr option" where
  "current_destination s = Option.bind (current_url s) (\<lambda>url. map_option ba_destination (address_parse url))"

definition is_clearweb_url :: "rstr \<Rightarrow> bool" where
  "is_clearweb_url url \<longleftrightarrow>
     (let lowered = to_ascii_lowercase (str_trimmed url) in
      starts_with (lit ''http://'') lowered \<or> starts_with (lit ''https://'') lowered)"

text \<open>\<^verbatim>\<open>rsplit_once('/')\<close>: what precedes the last slash.\<close>

definition before_last_slash :: "rstr \<Rightarrow> rstr option" where
  "before_last_slash path = map_option (\<lambda>(_, front). rev front) (split_once (chr CHR ''/'') (rev path))"

definition resolve_url :: "rstr \<Rightarrow> BrowserSession \<Rightarrow> rstr option" where
  "resolve_url input s =
     (if is_clearweb_url input then Some input
      else
        case address_parse input of
          Some address \<Rightarrow> Some (address_url address)
        | None \<Rightarrow>
            Option.bind (current_destination s) (\<lambda>destination.
              if starts_with (lit '':'') input then map_option address_url (parse_with_current input (Some destination))
              else if starts_with (lit ''/'') input then Some (destination @ lit '':'' @ input)
              else
                Option.bind (Option.bind (current_url s) address_parse) (\<lambda>current.
                  let parent = (case before_last_slash (ba_path current) of
                        Some front \<Rightarrow> if front = [] then lit ''/'' else front
                      | None \<Rightarrow> lit ''/'');
                      separator = (if ends_with (lit ''/'') parent then [] else lit ''/'') in
                  Some (destination @ lit '':'' @ parent @ separator @ input))))"

definition is_download_url :: "rstr \<Rightarrow> BrowserSession \<Rightarrow> bool" where
  "is_download_url url s \<longleftrightarrow>
     \<not> is_clearweb_url url
     \<and> (case Option.bind (resolve_url url s) address_parse of
          None \<Rightarrow> False
        | Some address \<Rightarrow>
            let path = str_trimmed (ba_path address) in
            path \<noteq> [] \<and> path \<noteq> lit ''/'' \<and> \<not> ends_with (lit ''/'') path \<and> \<not> ends_with (lit ''.mu'') (to_ascii_lowercase path))"

section \<open>The history\<close>

definition navigation_history_owned_bytes :: "rstr list \<Rightarrow> nat" where
  "navigation_history_owned_bytes history = foldl (\<lambda>owned url. usize_saturating_add owned (str_len url)) 0 history"

text \<open>The entries left when the loop has removed the oldest ones; \<open>None\<close> would be an index out of range.\<close>

fun trim_loop :: "rstr list \<Rightarrow> nat \<Rightarrow> rstr list option" where
  "trim_loop history owned =
     (if length history > BROWSER_HISTORY_MAX_ITEMS \<or> owned > BROWSER_HISTORY_MAX_OWNED_BYTES then
        case history of
          [] \<Rightarrow> None
        | url # rest \<Rightarrow> trim_loop rest (owned - str_len url)
      else Some history)"

declare trim_loop.simps [simp del]

definition int_clamp :: "int \<Rightarrow> int \<Rightarrow> int \<Rightarrow> int" where
  "int_clamp x low high = (if x < low then low else if x > high then high else x)"

definition trim_live_navigation_history :: "rstr list \<Rightarrow> int \<Rightarrow> (rstr list \<times> int) option" where
  "trim_live_navigation_history history index =
     map_option (\<lambda>kept.
         let index = index - int (length history - length kept) in
         (kept, if kept = [] then -1 else int_clamp index 0 (int (length kept - 1))))
       (trim_loop history (navigation_history_owned_bytes history))"

text \<open>The sides of the window that grows around the selected entry: whether a side has been given up.\<close>

record Window =
  w_left :: nat
  w_right :: nat
  w_items :: nat
  w_owned :: nat
  w_left_shut :: bool
  w_right_shut :: bool

definition window_left_open :: "Window \<Rightarrow> bool" where
  "window_left_open w \<longleftrightarrow> \<not> w_left_shut w \<and> w_left w > 0"

definition window_right_open :: "rstr list \<Rightarrow> Window \<Rightarrow> bool" where
  "window_right_open history w \<longleftrightarrow> \<not> w_right_shut w \<and> w_right w + 1 < length history"

definition window_fits :: "rstr list \<Rightarrow> nat \<Rightarrow> Window \<Rightarrow> bool" where
  "window_fits history candidate w \<longleftrightarrow>
     str_len (history ! candidate) \<le> BROWSER_PAGE_URL_MAX_BYTES
     \<and> usize_saturating_add (w_owned w) (str_len (history ! candidate)) \<le> BROWSER_HISTORY_MAX_OWNED_BYTES"

definition grow_left :: "rstr list \<Rightarrow> Window \<Rightarrow> bool \<times> Window" where
  "grow_left history w =
     (if \<not> window_left_open w then (False, w)
      else if window_fits history (w_left w - 1) w then
        (True, w\<lparr>w_left := w_left w - 1, w_owned := w_owned w + str_len (history ! (w_left w - 1)), w_items := w_items w + 1\<rparr>)
      else (False, w\<lparr>w_left_shut := True\<rparr>))"

definition grow_right :: "rstr list \<Rightarrow> Window \<Rightarrow> bool \<times> Window" where
  "grow_right history w =
     (if \<not> window_right_open history w then (False, w)
      else if window_fits history (w_right w + 1) w then
        (True, w\<lparr>w_right := w_right w + 1, w_owned := w_owned w + str_len (history ! (w_right w + 1)), w_items := w_items w + 1\<rparr>)
      else (False, w\<lparr>w_right_shut := True\<rparr>))"

lemma grow_shrinks:
  "grow_left history w = (True, w') \<Longrightarrow> w_left w' < w_left w \<and> w_right w' = w_right w"
  "grow_right history w = (True, w') \<Longrightarrow> w_left w' = w_left w \<and> w_right w' = w_right w + 1 \<and> w_right w' < length history"
  "grow_left history w = (False, w') \<Longrightarrow> w_left w' = w_left w \<and> w_right w' = w_right w"
  "grow_right history w = (False, w') \<Longrightarrow> w_left w' = w_left w \<and> w_right w' = w_right w"
  by (auto simp: grow_left_def grow_right_def window_left_open_def window_right_open_def split: if_splits)

function window_loop :: "rstr list \<Rightarrow> Window \<Rightarrow> Window" where
  "window_loop history w =
     (if w_items w < BROWSER_HISTORY_MAX_ITEMS \<and> (window_left_open w \<or> window_right_open history w) then
        case grow_left history w of (left_admitted, w1) \<Rightarrow>
          if w_items w1 \<ge> BROWSER_HISTORY_MAX_ITEMS then w1
          else
            case grow_right history w1 of (right_admitted, w2) \<Rightarrow>
              if left_admitted \<or> right_admitted then window_loop history w2 else w2
      else w)"
  by pat_completeness auto
termination
proof (relation "measure (\<lambda>(history, w). w_left w + (length history - w_right w))")
  fix history w left_admitted w1 right_admitted w2
  assume "(left_admitted, w1) = grow_left history w" "(right_admitted, w2) = grow_right history w1" "left_admitted \<or> right_admitted"
  then show "((history, w2), (history, w)) \<in> measure (\<lambda>(history, w). w_left w + (length history - w_right w))"
    using grow_shrinks [of history w w1] grow_shrinks [of history w1 w2]
    by (cases left_admitted; cases right_admitted) auto
qed simp

declare window_loop.simps [simp del]

definition admit_restored_navigation_history :: "rstr list \<Rightarrow> int \<Rightarrow> AppError + rstr list \<times> int" where
  "admit_restored_navigation_history history index =
     (if history = [] then Inr ([], -1)
      else
        let selected = nat (int_clamp index 0 (int (length history - 1))) in
        if str_len (history ! selected) > BROWSER_PAGE_URL_MAX_BYTES
        then Inl (browser_error (''selected browser history URL exceeds '' @ show_nat BROWSER_PAGE_URL_MAX_BYTES @ '' bytes''))
        else
          let w = window_loop history \<lparr>w_left = selected, w_right = selected, w_items = 1, w_owned = str_len (history ! selected),
                w_left_shut = False, w_right_shut = False\<rparr> in
          Inr (take (w_right w + 1 - w_left w) (drop (w_left w) history), int (selected - w_left w)))"

section \<open>Pages\<close>

definition micronplus_allowed_for_url :: "rstr \<Rightarrow> BrowserSession \<Rightarrow> bool" where
  "micronplus_allowed_for_url url s \<longleftrightarrow>
     bs_micronplus_enabled s
     \<and> (case bs_trusted_micronplus_nodes s of
          None \<Rightarrow> True
        | Some trusted_nodes \<Rightarrow>
            (case address_parse url of None \<Rightarrow> False | Some address \<Rightarrow> ba_destination address \<in> set trusted_nodes))"

definition micronplus_allowed_for_page :: "BrowserPage \<Rightarrow> BrowserSession \<Rightarrow> bool" where
  "micronplus_allowed_for_page page s \<longleftrightarrow> micronplus_allowed_for_url (bp_url page) s"

definition micronplus_allowed_for_current_page :: "BrowserSession \<Rightarrow> bool" where
  "micronplus_allowed_for_current_page s \<longleftrightarrow>
     (case bs_current_page s of None \<Rightarrow> False | Some page \<Rightarrow> micronplus_allowed_for_page page s)"

definition set_micronplus_policy :: "bool \<Rightarrow> rstr list option \<Rightarrow> BrowserSession \<Rightarrow> BrowserSession" where
  "set_micronplus_policy enabled trusted_nodes s =
     s\<lparr>bs_micronplus_enabled := enabled, bs_trusted_micronplus_nodes := trusted_nodes\<rparr>"

definition default_request_data :: "rstr \<Rightarrow> BrowserSession \<Rightarrow> (rstr, rstr) btree_map" where
  "default_request_data url s =
     (if micronplus_allowed_for_url url s then
        fold (\<lambda>(key, val). bt_insert (lit key) (lit val))
          [(''var_micronplus_plugin_enabled'', ''1''), (''var_micronplus_version'', ''1''), (''var_client'', ''omenbrowser'')] []
      else [])"

definition cache_key :: "BrowserEnv \<Rightarrow> rstr \<Rightarrow> (rstr, rstr) btree_map option \<Rightarrow> rstr" where
  "cache_key env url request_data =
     (case request_data of
        Some data \<Rightarrow> if data = [] then url else url @ lit ''::request::'' @ be_json env data
      | None \<Rightarrow> url)"

definition metadata_set :: "string \<Rightarrow> Json option \<Rightarrow> BrowserPage \<Rightarrow> BrowserPage" where
  "metadata_set key val page =
     page\<lparr>bp_metadata := (case val of None \<Rightarrow> bt_remove (lit key) (bp_metadata page)
       | Some v \<Rightarrow> bt_insert (lit key) v (bp_metadata page))\<rparr>"

definition micronplus_source :: "BrowserEnv \<Rightarrow> BrowserPage \<Rightarrow> BrowserSession \<Rightarrow> rstr option" where
  "micronplus_source env page s =
     (if micronplus_allowed_for_page page s then
        case bt_get (bp_metadata page) (lit ''micronplus_source'') of
          Some (JString source) \<Rightarrow>
            if be_has_micronplus env source then Some source
            else if be_has_micronplus env (bp_markup page) then Some (bp_markup page) else None
        | _ \<Rightarrow> if be_has_micronplus env (bp_markup page) then Some (bp_markup page) else None
      else None)"

definition lower_micronplus :: "BrowserEnv \<Rightarrow> rstr \<Rightarrow> BrowserPage \<Rightarrow> BrowserPage" where
  "lower_micronplus env source page =
     (let m = be_micronplus env source;
          found = (\<lambda>r. case r of Inr (Some v) \<Rightarrow> Some v | _ \<Rightarrow> None);
          complaint = (\<lambda>r. case r of Inl e \<Rightarrow> [e] | Inr _ \<Rightarrow> []);
          diagnostics = remdups_adj (sort (complaint (mi_layout m) @ complaint (mi_tree m) @ mi_diagnostics m));
          page = metadata_set ''micronplus_source'' (Some (JString source)) page;
          page = metadata_set ''micronplus_layout'' (found (mi_layout m)) page;
          page = metadata_set ''micronplus_tree'' (found (mi_tree m)) page;
          page = metadata_set ''micronplus_diagnostics'' (if diagnostics = [] then None else Some (JArray (map JString diagnostics))) page in
      page\<lparr>bp_markup := mi_markup m\<rparr>)"

definition normalize_page :: "BrowserEnv \<Rightarrow> BrowserPage \<Rightarrow> BrowserSession \<Rightarrow> AppError + BrowserPage" where
  "normalize_page env page s =
     (case validate_retained page of
        Inl e \<Rightarrow> Inl (browser_error e)
      | Inr _ \<Rightarrow>
          let page = (case micronplus_source env page s of
                Some source \<Rightarrow> lower_micronplus env source page
              | None \<Rightarrow> metadata_set ''micronplus_diagnostics'' None (metadata_set ''micronplus_tree'' None
                  (metadata_set ''micronplus_layout'' None (metadata_set ''micronplus_source'' None page))));
              page = page\<lparr>bp_markup := be_omenchat env (bp_markup page)\<rparr> in
          (case validate_retained page of
             Inl e \<Rightarrow> Inl (browser_error e)
           | Inr _ \<Rightarrow> Inr page))"

definition update_page_state :: "BrowserEnv \<Rightarrow> BrowserPage \<Rightarrow> BrowserSession \<Rightarrow> (AppError + unit) \<times> BrowserSession" where
  "update_page_state env page s =
     (case normalize_page env page s of
        Inl e \<Rightarrow> (Inl e, s)
      | Inr page \<Rightarrow>
          (Inr (), refresh_field_values
            (s\<lparr>bs_current_document := Some (parse_micron (bp_markup page)),
               bs_partials := extract_partial_specs (be_partials env) (bp_markup page),
               bs_partial_base_markup := Some (bp_markup page), bs_partial_contents := [],
               bs_current_page := Some page, bs_generation := bs_generation s + 1\<rparr>)))"

definition history_at :: "BrowserSession \<Rightarrow> int \<Rightarrow> rstr option" where
  "history_at s index = (if 0 \<le> index \<and> index < int (length (bs_history s)) then Some (bs_history s ! nat index) else None)"

definition set_page_and_history :: "BrowserEnv \<Rightarrow> BrowserPage \<Rightarrow> bool \<Rightarrow> BrowserSession \<Rightarrow> (AppError + unit) \<times> BrowserSession" where
  "set_page_and_history env page add_history s =
     (case update_page_state env page s of
        (Inl e, s) \<Rightarrow> (Inl e, s)
      | (Inr _, s) \<Rightarrow>
          if add_history \<and> (bs_history_index s < 0 \<or> history_at s (bs_history_index s) \<noteq> Some (bp_url page)) then
            let history = take (nat (max (bs_history_index s + 1) 0)) (bs_history s) @ [bp_url page] in
            (case trim_live_navigation_history history (bs_history_index s + 1) of
               None \<Rightarrow> (Inl AppPanic, s)
             | Some (history, index) \<Rightarrow> (Inr (), s\<lparr>bs_history := history, bs_history_index := index\<rparr>))
          else (Inr (), s))"

definition session_blank :: BrowserSession where
  "session_blank = \<lparr>bs_current_page = None, bs_current_document = None, bs_history = [], bs_history_index = -1,
     bs_field_values = [], bs_partials = [], bs_generation = 0, bs_partial_base_markup = None, bs_partial_contents = [],
     bs_micronplus_enabled = True, bs_trusted_micronplus_nodes = None, bs_cache = None, bs_runtime = False,
     bs_downloads_dir = None, bs_operation_id = None\<rparr>"

definition session_new :: "BrowserEnv \<Rightarrow> rstr \<Rightarrow> BrowserSession option" where
  "session_new env start_url =
     (case update_page_state env (mock_home start_url) session_blank of
        (Inl _, _) \<Rightarrow> None
      | (Inr _, s) \<Rightarrow> Some s)"

definition with_runtime :: "BrowserEnv \<Rightarrow> rstr \<Rightarrow> PageCache \<Rightarrow> rstr \<Rightarrow> BrowserSession option" where
  "with_runtime env start_url cache downloads_dir =
     map_option (\<lambda>s. s\<lparr>bs_runtime := True, bs_cache := Some cache, bs_downloads_dir := Some downloads_dir\<rparr>) (session_new env start_url)"

definition set_operation_id :: "rstr option \<Rightarrow> BrowserSession \<Rightarrow> BrowserSession" where
  "set_operation_id operation_id s = s\<lparr>bs_operation_id := operation_id\<rparr>"

definition replace_runtime :: "BrowserSession \<Rightarrow> BrowserSession" where
  "replace_runtime s = s\<lparr>bs_runtime := True\<rparr>"

definition restore_page :: "BrowserEnv \<Rightarrow> BrowserPage \<Rightarrow> rstr list \<Rightarrow> int \<Rightarrow> BrowserSession \<Rightarrow> (AppError + unit) \<times> BrowserSession" where
  "restore_page env page history index s =
     (case admit_restored_navigation_history history index of
        Inl e \<Rightarrow> (Inl e, s)
      | Inr (history, index) \<Rightarrow>
          (case update_page_state env page s of
             (Inl e, s) \<Rightarrow> (Inl e, s)
           | (Inr _, s) \<Rightarrow> (Inr (), s\<lparr>bs_history := history, bs_history_index := index\<rparr>)))"

definition restore_navigation :: "BrowserEnv \<Rightarrow> rstr \<Rightarrow> rstr \<Rightarrow> rstr list \<Rightarrow> int \<Rightarrow> BrowserSession \<Rightarrow> (AppError + unit) \<times> BrowserSession" where
  "restore_navigation env url title history index s =
     restore_page env ((mock_home url)\<lparr>bp_title := title\<rparr>) history index s"

definition apply_partial_content :: "BrowserEnv \<Rightarrow> rstr \<Rightarrow> rstr \<Rightarrow> BrowserSession \<Rightarrow> (AppError + BrowserPage) \<times> BrowserSession" where
  "apply_partial_content env slot content s =
     (if str_len content > BROWSER_PAGE_MARKUP_MAX_BYTES
      then (Inl (browser_error (''partial content exceeds '' @ show_nat BROWSER_PAGE_MARKUP_MAX_BYTES @ '' bytes'')), s)
      else
        case bs_current_page s of
          None \<Rightarrow> (Inl (browser_error ''no page available for partial composition''), s)
        | Some current \<Rightarrow>
            let layout = bt_get (bp_metadata current) (lit ''micronplus_layout'');
                tree = bt_get (bp_metadata current) (lit ''micronplus_tree'');
                contents = bt_insert slot content (bs_partial_contents s);
                base_markup = (case bs_partial_base_markup s of Some markup \<Rightarrow> markup | None \<Rightarrow> bp_markup current);
                markup = compose_markup_with_partials base_markup (bs_partials s) contents;
                next_page = metadata_set ''micronplus_source'' None (current\<lparr>bp_markup := markup, bp_source := SourceNetwork\<rparr>) in
            (case normalize_page env next_page s of
               Inl e \<Rightarrow> (Inl e, s)
             | Inr page \<Rightarrow>
                 let page = metadata_set ''micronplus_tree'' tree (metadata_set ''micronplus_layout'' layout page) in
                 (case validate_retained page of
                    Inl e \<Rightarrow> (Inl (browser_error e), s)
                  | Inr _ \<Rightarrow>
                      (Inr page, refresh_field_values
                        (s\<lparr>bs_partial_contents := contents, bs_current_document := Some (parse_micron (bp_markup page)),
                           bs_current_page := Some page\<rparr>)))))"

section \<open>Opening pages\<close>

text \<open>What the surroundings do during one call: the page the network returns, the faults of the cache and its clock.\<close>

record OpenCall =
  oc_fetch :: "rstr \<Rightarrow> (rstr, rstr) btree_map option \<Rightarrow> rstr option \<Rightarrow> AppError + BrowserPage"
  oc_delete_faults :: CacheFaults
  oc_load_faults :: CacheFaults
  oc_store_faults :: CacheFaults
  oc_now :: nat
  oc_later :: nat
  oc_stored_at :: nat

fun cache_error :: "CacheError \<Rightarrow> AppError" where
  "cache_error (CacheBrowserError message) = browser_error message"
| "cache_error CacheIoError = AppIo"

definition session_cache_load :: "BrowserEnv \<Rightarrow> OpenCall \<Rightarrow> rstr \<Rightarrow> BrowserSession \<Rightarrow> (AppError + CacheRecord option) \<times> BrowserSession" where
  "session_cache_load env call key s =
     (case bs_cache s of
        None \<Rightarrow> (Inr None, s)
      | Some cache \<Rightarrow>
          (case cache_load (be_cache env) (oc_load_faults call) (oc_now call) (oc_later call) key cache of
             (Inl e, cache) \<Rightarrow> (Inl (cache_error e), s\<lparr>bs_cache := Some cache\<rparr>)
           | (Inr found, cache) \<Rightarrow> (Inr found, s\<lparr>bs_cache := Some cache\<rparr>)))"

definition session_cache_store :: "BrowserEnv \<Rightarrow> OpenCall \<Rightarrow> rstr \<Rightarrow> BrowserPage \<Rightarrow> BrowserSession \<Rightarrow> (AppError + unit) \<times> BrowserSession" where
  "session_cache_store env call key page s =
     (case bs_cache s of
        None \<Rightarrow> (Inr (), s)
      | Some cache \<Rightarrow>
          (case cache_store (be_cache env) (oc_store_faults call) (oc_stored_at call) key (bp_markup page)
              (cache_ttl_for_markup (bp_markup page)) (bp_title page) (bp_metadata page) cache of
             (Inl e, cache) \<Rightarrow> (Inl (cache_error e), s\<lparr>bs_cache := Some cache\<rparr>)
           | (Inr _, cache) \<Rightarrow> (Inr (), s\<lparr>bs_cache := Some cache\<rparr>)))"

text \<open>The end of \<^verbatim>\<open>open\<close>: the page is normalised, shown and returned.\<close>

definition show_page :: "BrowserEnv \<Rightarrow> BrowserPage \<Rightarrow> bool \<Rightarrow> BrowserSession \<Rightarrow> (AppError + BrowserPage) \<times> BrowserSession" where
  "show_page env page add_history s =
     (case normalize_page env page s of
        Inl e \<Rightarrow> (Inl e, s)
      | Inr page \<Rightarrow>
          (case set_page_and_history env page add_history s of
             (Inl e, s) \<Rightarrow> (Inl e, s)
           | (Inr _, s) \<Rightarrow> (Inr page, s)))"

definition address_error :: "rstr \<Rightarrow> AppError option" where
  "address_error resolved =
     (if str_len resolved > BROWSER_PAGE_URL_MAX_BYTES
      then Some (browser_error (''browser address exceeds '' @ show_nat BROWSER_PAGE_URL_MAX_BYTES @ '' bytes''))
      else if is_clearweb_url resolved
      then Some (AppBrowser (lit ''clearweb URLs require explicit external open: '' @ resolved))
      else if ends_with (lit ''/file'') resolved \<or> split_at_pattern (lit ''/file/'') resolved \<noteq> None
      then Some (browser_error ''use download() for file URLs'')
      else None)"

definition merge_request_data :: "(rstr, rstr) btree_map \<Rightarrow> (rstr, rstr) btree_map option \<Rightarrow> (rstr, rstr) btree_map option" where
  "merge_request_data defaults explicit =
     (let merged = (case explicit of None \<Rightarrow> defaults | Some data \<Rightarrow> fold (\<lambda>(key, val). bt_insert key val) data defaults) in
      if merged = [] then None else Some merged)"

definition open_fetched :: "BrowserEnv \<Rightarrow> OpenCall \<Rightarrow> rstr \<Rightarrow> rstr \<Rightarrow> (rstr, rstr) btree_map option \<Rightarrow> bool \<Rightarrow> BrowserSession \<Rightarrow>
    (AppError + BrowserPage) \<times> BrowserSession" where
  "open_fetched env call resolved key request_data add_history s =
     (if \<not> bs_runtime s then (Inl (browser_error ''browser session has no runtime''), s)
      else
        case oc_fetch call resolved (merge_request_data (default_request_data resolved s) request_data) (bs_operation_id s) of
          Inl e \<Rightarrow> (Inl e, s)
        | Inr page \<Rightarrow>
            (case validate_retained page of
               Inl e \<Rightarrow> (Inl (browser_error e), s)
             | Inr _ \<Rightarrow>
                 (case (if request_data = None then session_cache_store env call key page s else (Inr (), s)) of
                    (Inl e, s) \<Rightarrow> (Inl e, s)
                  | (Inr _, s) \<Rightarrow> show_page env page add_history s)))"

definition session_open :: "BrowserEnv \<Rightarrow> OpenCall \<Rightarrow> rstr \<Rightarrow> (rstr, rstr) btree_map option \<Rightarrow> bool \<Rightarrow> bool \<Rightarrow> BrowserSession \<Rightarrow>
    (AppError + BrowserPage) \<times> BrowserSession" where
  "session_open env call url request_data add_history use_cache s =
     (case resolve_url url s of
        None \<Rightarrow> (Inl (AppBrowser (lit ''invalid address: '' @ url)), s)
      | Some resolved \<Rightarrow>
          (case address_error resolved of
             Some e \<Rightarrow> (Inl e, s)
           | None \<Rightarrow>
               let key = cache_key env resolved (Some (default_request_data resolved s)) in
               (case (if request_data = None \<and> use_cache then session_cache_load env call key s else (Inr None, s)) of
                  (Inl e, s) \<Rightarrow> (Inl e, s)
                | (Inr (Some rec), s) \<Rightarrow>
                    show_page env \<lparr>bp_url = resolved, bp_markup = cr_markup rec, bp_title = cr_title rec, bp_source = SourceCache,
                      bp_metadata = cr_metadata rec, bp_request_data = None\<rparr> add_history s
                | (Inr None, s) \<Rightarrow> open_fetched env call resolved key request_data add_history s)))"

definition fetch_fragment :: "BrowserEnv \<Rightarrow> OpenCall \<Rightarrow> rstr \<Rightarrow> (rstr, rstr) btree_map option \<Rightarrow> BrowserSession \<Rightarrow> AppError + BrowserPage" where
  "fetch_fragment env call url request_data s =
     (case resolve_url url s of
        None \<Rightarrow> Inl (AppBrowser (lit ''invalid fragment address: '' @ url))
      | Some resolved \<Rightarrow>
          if \<not> bs_runtime s then Inl (browser_error ''browser session has no runtime'')
          else
            case oc_fetch call resolved (merge_request_data (default_request_data resolved s) request_data) (bs_operation_id s) of
              Inl e \<Rightarrow> Inl e
            | Inr page \<Rightarrow> (case validate_retained page of Inl e \<Rightarrow> Inl (browser_error e) | Inr _ \<Rightarrow> Inr page))"

text \<open>\<^verbatim>\<open>history[index as usize]\<close>, then \<^verbatim>\<open>open\<close>.\<close>

definition open_history :: "BrowserEnv \<Rightarrow> OpenCall \<Rightarrow> bool \<Rightarrow> BrowserSession \<Rightarrow> (AppError + BrowserPage option) \<times> BrowserSession" where
  "open_history env call use_cache s =
     (case history_at s (bs_history_index s) of
        None \<Rightarrow> (Inl AppPanic, s)
      | Some url \<Rightarrow>
          (case session_open env call url None False use_cache s of
             (Inl e, s) \<Rightarrow> (Inl e, s)
           | (Inr page, s) \<Rightarrow> (Inr (Some page), s)))"

definition session_back :: "BrowserEnv \<Rightarrow> OpenCall \<Rightarrow> BrowserSession \<Rightarrow> (AppError + BrowserPage option) \<times> BrowserSession" where
  "session_back env call s =
     (if bs_history_index s \<le> 0 then (Inr None, s)
      else open_history env call True (s\<lparr>bs_history_index := bs_history_index s - 1\<rparr>))"

definition session_forward :: "BrowserEnv \<Rightarrow> OpenCall \<Rightarrow> BrowserSession \<Rightarrow> (AppError + BrowserPage option) \<times> BrowserSession" where
  "session_forward env call s =
     (if bs_history_index s + 1 \<ge> int (length (bs_history s)) then (Inr None, s)
      else open_history env call True (s\<lparr>bs_history_index := bs_history_index s + 1\<rparr>))"

definition session_reload :: "BrowserEnv \<Rightarrow> OpenCall \<Rightarrow> BrowserSession \<Rightarrow> (AppError + BrowserPage option) \<times> BrowserSession" where
  "session_reload env call s =
     (if bs_history_index s < 0 then (Inr None, s)
      else
        case history_at s (bs_history_index s) of
          None \<Rightarrow> (Inl AppPanic, s)
        | Some url \<Rightarrow>
            (case bs_cache s of
               None \<Rightarrow> open_history env call False s
             | Some cache \<Rightarrow>
                 (case cache_delete (be_cache env) (oc_delete_faults call) (cache_key env url None) cache of
                    (Inl e, cache) \<Rightarrow> (Inl (cache_error e), s\<lparr>bs_cache := Some cache\<rparr>)
                  | (Inr _, cache) \<Rightarrow> open_history env call False (s\<lparr>bs_cache := Some cache\<rparr>))))"

definition open_link :: "BrowserEnv \<Rightarrow> OpenCall \<Rightarrow> LinkAction \<Rightarrow> BrowserSession \<Rightarrow> (AppError + BrowserPage option) \<times> BrowserSession" where
  "open_link env call link s =
     (if starts_with (lit ''lxmf@'') (la_target link) \<or> starts_with (lit ''lxmf.delivery@'') (la_target link)
         \<or> starts_with (lit ''p:'') (la_target link)
      then (Inr None, s)
      else
        let request_data = (if la_fields link = [] then None else Some (build_request_data (la_fields link) s)) in
        (case session_open env call (la_target link) request_data True (request_data = None) s of
           (Inl e, s) \<Rightarrow> (Inl e, s)
         | (Inr page, s) \<Rightarrow> (Inr (Some page), s)))"

text \<open>A download is handed to the runtime, a parameter here, with the resolved address.\<close>

definition session_download :: "(rstr \<Rightarrow> rstr \<Rightarrow> rstr option \<Rightarrow> AppError + 'file) \<Rightarrow> rstr \<Rightarrow> BrowserSession \<Rightarrow> AppError + 'file" where
  "session_download download_file url s =
     (case resolve_url url s of
        None \<Rightarrow> Inl (AppBrowser (lit ''invalid download address: '' @ url))
      | Some resolved \<Rightarrow>
          if \<not> bs_runtime s then Inl (browser_error ''browser session has no runtime'')
          else
            (case bs_downloads_dir s of
               None \<Rightarrow> Inl (browser_error ''browser session has no downloads directory'')
             | Some downloads_dir \<Rightarrow> download_file resolved downloads_dir (bs_operation_id s)))"

definition try_apply_page :: "BrowserEnv \<Rightarrow> BrowserPage \<Rightarrow> bool \<Rightarrow> BrowserSession \<Rightarrow> (AppError + unit) \<times> BrowserSession" where
  "try_apply_page env page add_history s = set_page_and_history env page add_history s"

end
