(* ===== verification/Browser_History.thy ===== *)
theory Browser_History
  imports Browser_Session
begin

text \<open>
  The navigation history of a browser session: the two ways it is kept within 512 addresses and 1 MiB (the
  oldest go when a page is visited; a window around the selected one is kept when a history is restored),
  and the list with a position in it as a trail of past and future pages.
\<close>

lemmas history_limits = BROWSER_HISTORY_MAX_ITEMS_def BROWSER_HISTORY_MAX_OWNED_BYTES_def BROWSER_PAGE_URL_MAX_BYTES_def

definition history_bytes :: "rstr list \<Rightarrow> nat" where
  "history_bytes history = sum_list (map str_len history)"

definition history_fits :: "rstr list \<Rightarrow> bool" where
  "history_fits history \<longleftrightarrow> length history \<le> BROWSER_HISTORY_MAX_ITEMS \<and> history_bytes history \<le> BROWSER_HISTORY_MAX_OWNED_BYTES"

lemma history_bytes_simps [simp]:
  "history_bytes [] = 0" "history_bytes (url # history) = str_len url + history_bytes history"
  "history_bytes (xs @ ys) = history_bytes xs + history_bytes ys"
  by (simp_all add: history_bytes_def)

lemma history_fits_suffix: "history_fits (xs @ ys) \<Longrightarrow> history_fits ys"
  by (simp add: history_fits_def)

lemma owned_bytes_exact: "history_bytes history < 2 ^ 64 \<Longrightarrow> navigation_history_owned_bytes history = history_bytes history"
proof -
  have "foldl (\<lambda>owned url. usize_saturating_add owned (str_len url)) n history = n + history_bytes history"
    if "n + history_bytes history < 2 ^ 64" for n
    using that by (induction history arbitrary: n) (auto simp: usize_saturating_add_def)
  then show "history_bytes history < 2 ^ 64 \<Longrightarrow> ?thesis" by (simp add: navigation_history_owned_bytes_def)
qed

section \<open>Forgetting the oldest\<close>

text \<open>The longest part of a history up to its newest entry that is within the limits.\<close>

fun newest_that_fit :: "rstr list \<Rightarrow> rstr list" where
  "newest_that_fit [] = []"
| "newest_that_fit (url # history) = (if history_fits (url # history) then url # history else newest_that_fit history)"

lemma newest_that_fit_suffix: "\<exists>dropped. history = dropped @ newest_that_fit history"
  by (induction history) (auto intro: exI [where x = "_ # _"])

lemma newest_that_fit_fits: "history_fits (newest_that_fit history)"
  by (induction history) (simp_all add: history_fits_def)

lemma newest_that_fit_longest:
  "history = dropped @ kept \<Longrightarrow> history_fits kept \<Longrightarrow> length kept \<le> length (newest_that_fit history)"
proof (induction history arbitrary: dropped)
  case (Cons url history)
  then show ?case by (cases dropped) auto
qed simp

lemma newest_that_fit_id: "history_fits history \<Longrightarrow> newest_that_fit history = history"
  by (cases history) auto

lemma newest_that_fit_last:
  assumes "str_len url \<le> BROWSER_PAGE_URL_MAX_BYTES"
  shows "\<exists>kept. newest_that_fit (history @ [url]) = kept @ [url]"
proof -
  have "length [url] \<le> length (newest_that_fit (history @ [url]))"
    by (rule newest_that_fit_longest [OF refl]) (use assms in \<open>simp add: history_fits_def history_limits\<close>)
  moreover obtain dropped where "history @ [url] = dropped @ newest_that_fit (history @ [url])"
    using newest_that_fit_suffix by blast
  ultimately show ?thesis
    by (metis append_butlast_last_id last_appendR last_snoc length_0_conv list.size(3) not_less_eq_eq One_nat_def length_Cons zero_le)
qed

lemma trim_loop_newest: "trim_loop history (history_bytes history) = Some (newest_that_fit history)"
proof (induction history)
  case Nil
  then show ?case by (simp add: trim_loop.simps)
next
  case (Cons url history)
  then show ?case by (auto simp: trim_loop.simps [of "url # history"] history_fits_def not_le)
qed

lemma trim_live_newest:
  assumes "history_bytes history < 2 ^ 64"
  shows "trim_live_navigation_history history index =
     (let kept = newest_that_fit history in
      Some (kept, if kept = [] then -1 else int_clamp (index - int (length history - length kept)) 0 (int (length kept - 1))))"
  by (simp add: trim_live_navigation_history_def owned_bytes_exact [OF assms] trim_loop_newest Let_def)

text \<open>
  C22: the loop that trims the history after a visit always ends, without running past the end of the list: it
  keeps the longest run of newest addresses within the two limits.
\<close>

theorem history_trim_terminates:
  assumes "history_bytes history < 2 ^ 64"
  shows "\<exists>kept dropped. trim_loop history (navigation_history_owned_bytes history) = Some kept
    \<and> history = dropped @ kept \<and> length kept \<le> BROWSER_HISTORY_MAX_ITEMS \<and> history_bytes kept \<le> BROWSER_HISTORY_MAX_OWNED_BYTES
    \<and> (\<forall>longer shorter. history = shorter @ longer \<and> length longer > length kept \<longrightarrow>
         length longer > BROWSER_HISTORY_MAX_ITEMS \<or> history_bytes longer > BROWSER_HISTORY_MAX_OWNED_BYTES)"
proof -
  obtain dropped where "history = dropped @ newest_that_fit history" using newest_that_fit_suffix by blast
  moreover have "\<not> history_fits longer" if "history = shorter @ longer" "length longer > length (newest_that_fit history)"
    for longer shorter using newest_that_fit_longest that by fastforce
  ultimately show ?thesis
    using newest_that_fit_fits [of history]
    by (auto simp: owned_bytes_exact [OF assms] trim_loop_newest history_fits_def not_le)
qed

theorem history_trim_terminates_witness:
  "\<exists>kept. trim_loop (replicate 513 (lit ''n:/a'')) (navigation_history_owned_bytes (replicate 513 (lit ''n:/a''))) = Some kept"
proof -
  have "str_len (lit ''n:/a'') = 4" by code_simp
  then have "history_bytes (replicate 513 (lit ''n:/a'')) < 2 ^ 64" by (simp add: history_bytes_def sum_list_replicate)
  from history_trim_terminates [OF this] show ?thesis by blast
qed

section \<open>Restoring a window\<close>

text \<open>The addresses from one index up to, but without, another.\<close>

definition history_slice :: "rstr list \<Rightarrow> nat \<Rightarrow> nat \<Rightarrow> rstr list" where
  "history_slice history l r = take (r - l) (drop l history)"

lemma history_slice_left: "0 < l \<Longrightarrow> l < r \<Longrightarrow> r \<le> length history \<Longrightarrow> history_slice history (l - 1) r = history ! (l - 1) # history_slice history l r"
  using Cons_nth_drop_Suc [of "l - 1" history] by (simp add: history_slice_def Suc_diff_le flip: take_Suc_Cons)

lemma history_slice_right: "l \<le> r \<Longrightarrow> r < length history \<Longrightarrow> history_slice history l (Suc r) = history_slice history l r @ [history ! r]"
  by (simp add: history_slice_def Suc_diff_le take_Suc_conv_app_nth)

lemma length_history_slice [simp]: "r \<le> length history \<Longrightarrow> length (history_slice history l r) = r - l"
  by (simp add: history_slice_def)

text \<open>Whether an address may join the kept ones.\<close>

definition may_join :: "rstr \<Rightarrow> rstr list \<Rightarrow> bool" where
  "may_join url kept \<longleftrightarrow> str_len url \<le> BROWSER_PAGE_URL_MAX_BYTES \<and> history_bytes kept + str_len url \<le> BROWSER_HISTORY_MAX_OWNED_BYTES"

definition window_ok :: "rstr list \<Rightarrow> nat \<Rightarrow> Window \<Rightarrow> bool" where
  "window_ok history selected w \<longleftrightarrow>
     w_left w \<le> selected \<and> selected \<le> w_right w \<and> w_right w < length history
     \<and> w_items w = w_right w + 1 - w_left w \<and> w_items w \<le> BROWSER_HISTORY_MAX_ITEMS
     \<and> w_owned w = history_bytes (history_slice history (w_left w) (w_right w + 1))
     \<and> w_owned w \<le> BROWSER_HISTORY_MAX_OWNED_BYTES
     \<and> (\<forall>url\<in>set (history_slice history (w_left w) (w_right w + 1)). str_len url \<le> BROWSER_PAGE_URL_MAX_BYTES)
     \<and> (w_left_shut w \<longrightarrow> 0 < w_left w \<and> \<not> window_fits history (w_left w - 1) w)
     \<and> (w_right_shut w \<longrightarrow> w_right w + 1 < length history \<and> \<not> window_fits history (w_right w + 1) w)"

lemma window_fits_exact:
  "window_fits history i w \<longleftrightarrow>
     str_len (history ! i) \<le> BROWSER_PAGE_URL_MAX_BYTES \<and> w_owned w + str_len (history ! i) \<le> BROWSER_HISTORY_MAX_OWNED_BYTES"
  by (auto simp: window_fits_def usize_saturating_add_def history_limits)

lemma grow_left_ok:
  assumes "window_ok history selected w" "w_items w < BROWSER_HISTORY_MAX_ITEMS" "grow_left history w = (admitted, w')"
  shows "window_ok history selected w' \<and> (\<not> admitted \<longrightarrow> \<not> window_left_open w')"
proof (cases "window_left_open w \<and> window_fits history (w_left w - 1) w")
  case True
  define l r where "l = w_left w" and "r = w_right w + 1"
  have bounds: "0 < l" "l < r" "r \<le> length history" "l \<le> selected" "selected < r"
    using assms(1) True by (auto simp: window_ok_def window_left_open_def l_def r_def)
  have w': "admitted" "w' = w\<lparr>w_left := l - 1, w_owned := w_owned w + str_len (history ! (l - 1)), w_items := w_items w + 1\<rparr>"
    using True assms(3) by (auto simp: grow_left_def l_def)
  show ?thesis
    using assms(1,2) True bounds history_slice_left [of l r history]
    by (auto simp: window_ok_def w' window_left_open_def window_fits_exact l_def r_def)
next
  case False
  then show ?thesis
    using assms(1,3) by (auto simp: grow_left_def window_ok_def window_left_open_def window_fits_exact split: if_splits)
qed

lemma grow_right_ok:
  assumes "window_ok history selected w" "w_items w < BROWSER_HISTORY_MAX_ITEMS" "grow_right history w = (admitted, w')"
  shows "window_ok history selected w' \<and> (\<not> admitted \<longrightarrow> \<not> window_right_open history w')"
proof (cases "window_right_open history w \<and> window_fits history (w_right w + 1) w")
  case True
  define l r where "l = w_left w" and "r = w_right w + 1"
  have bounds: "l < r" "r < length history" "l \<le> selected" "selected < r"
    using assms(1) True by (auto simp: window_ok_def window_right_open_def l_def r_def)
  have w': "admitted" "w' = w\<lparr>w_right := r, w_owned := w_owned w + str_len (history ! r), w_items := w_items w + 1\<rparr>"
    using True assms(3) by (auto simp: grow_right_def r_def)
  show ?thesis
    using assms(1,2) True bounds history_slice_right [of l r history]
    by (auto simp: window_ok_def w' window_right_open_def window_fits_exact l_def r_def)
next
  case False
  then show ?thesis
    using assms(1,3) by (auto simp: grow_right_def window_ok_def window_right_open_def window_fits_exact split: if_splits)
qed

text \<open>A window that cannot grow any more.\<close>

definition window_done :: "rstr list \<Rightarrow> Window \<Rightarrow> bool" where
  "window_done history w \<longleftrightarrow> w_items w \<ge> BROWSER_HISTORY_MAX_ITEMS \<or> \<not> window_left_open w \<and> \<not> window_right_open history w"

lemma window_loop_ok:
  "window_ok history selected w \<Longrightarrow>
   window_ok history selected (window_loop history w) \<and> window_done history (window_loop history w)"
proof (induction history w rule: window_loop.induct)
  case (1 history w)
  obtain left_admitted w1 where left: "grow_left history w = (left_admitted, w1)" by fastforce
  obtain right_admitted w2 where right: "grow_right history w1 = (right_admitted, w2)" by fastforce
  have step: "window_loop history w =
     (if w_items w < BROWSER_HISTORY_MAX_ITEMS \<and> (window_left_open w \<or> window_right_open history w) then
        if w_items w1 \<ge> BROWSER_HISTORY_MAX_ITEMS then w1
        else if left_admitted \<or> right_admitted then window_loop history w2 else w2
      else w)"
    by (subst window_loop.simps) (simp only: left right prod.case)
  show ?case
  proof (cases "w_items w < BROWSER_HISTORY_MAX_ITEMS \<and> (window_left_open w \<or> window_right_open history w)")
    case False
    then show ?thesis using 1(2) by (auto simp: step window_done_def)
  next
    case more: True
    note ok1 = grow_left_ok [OF 1(2) conjunct1 [OF more] left]
    show ?thesis
    proof (cases "w_items w1 \<ge> BROWSER_HISTORY_MAX_ITEMS")
      case True
      then show ?thesis using ok1 by (simp add: step more window_done_def)
    next
      case False
      then have ok2: "window_ok history selected w2 \<and> (\<not> right_admitted \<longrightarrow> \<not> window_right_open history w2)"
        using grow_right_ok [OF conjunct1 [OF ok1] _ right] by simp
      have kept: "window_left_open w2 \<longleftrightarrow> window_left_open w1" if "\<not> right_admitted"
        using that right by (auto simp: grow_right_def window_left_open_def split: if_splits)
      show ?thesis
      proof (cases "left_admitted \<or> right_admitted")
        case True
        then show ?thesis
          using 1(1) [OF more left [symmetric] _ right [symmetric]] ok2 False by (simp add: step more)
      next
        case none: False
        then show ?thesis using ok1 ok2 kept False by (simp add: step more window_done_def)
      qed
    qed
  qed
qed

lemma restored_window:
  assumes "history \<noteq> []" "selected = nat (int_clamp index 0 (int (length history - 1)))"
  shows "if str_len (history ! selected) > BROWSER_PAGE_URL_MAX_BYTES
    then \<exists>message. admit_restored_navigation_history history index = Inl (AppBrowser message)
    else \<exists>older kept newer. admit_restored_navigation_history history index = Inr (kept, int (selected - length older))
      \<and> history = older @ kept @ newer \<and> length older \<le> selected \<and> selected < length older + length kept
      \<and> history_fits kept \<and> (\<forall>url\<in>set kept. str_len url \<le> BROWSER_PAGE_URL_MAX_BYTES)
      \<and> (length kept = BROWSER_HISTORY_MAX_ITEMS
         \<or> (older = [] \<or> \<not> may_join (last older) kept) \<and> (newer = [] \<or> \<not> may_join (hd newer) kept))"
proof (cases "str_len (history ! selected) > BROWSER_PAGE_URL_MAX_BYTES")
  case True
  then show ?thesis
    using assms by (simp add: admit_restored_navigation_history_def browser_error_def)
next
  case False
  define start where "start = \<lparr>w_left = selected, w_right = selected, w_items = 1, w_owned = str_len (history ! selected),
      w_left_shut = False, w_right_shut = False\<rparr>"
  define w where "w = window_loop history start"
  define l r where "l = w_left w" and "r = w_right w + 1"
  have "selected < length history"
    using assms by (cases history) (auto simp: int_clamp_def nat_less_iff)
  then have "window_ok history selected start"
    using False history_slice_right [of selected selected history]
    by (simp add: window_ok_def start_def history_limits history_slice_def)
  then have ok: "window_ok history selected w" and finished: "window_done history w"
    unfolding w_def by (simp_all add: window_loop_ok)
  have bounds: "l \<le> selected" "selected < r" "r \<le> length history" using ok by (auto simp: window_ok_def l_def r_def)
  define older kept newer where "older = take l history" and "kept = history_slice history l r" and "newer = drop r history"
  have parts: "history = older @ kept @ newer"
    using bounds unfolding older_def kept_def newer_def history_slice_def
    by (metis append_take_drop_id drop_drop le_add_diff_inverse2 le_trans less_imp_le)
  have lengths: "length older = l" "length kept = r - l" using bounds by (simp_all add: older_def kept_def)
  have result: "admit_restored_navigation_history history index = Inr (kept, int (selected - length older))"
    using assms(1) False lengths
    unfolding admit_restored_navigation_history_def Let_def assms(2) [symmetric] start_def [symmetric] w_def [symmetric]
    by (simp add: kept_def history_slice_def l_def r_def)
  have joins: "may_join (history ! i) kept \<longleftrightarrow> window_fits history i w" for i
    using ok by (simp add: window_fits_exact may_join_def window_ok_def kept_def l_def r_def)
  have last: "last older = history ! (l - 1)" if "older \<noteq> []"
    using that bounds lengths by (metis One_nat_def last_conv_nth nth_append diff_less length_greater_0_conv parts zero_less_one)
  have hd: "hd newer = history ! r" if "newer \<noteq> []"
    using that by (simp add: newer_def hd_drop_conv_nth)
  have "length kept = BROWSER_HISTORY_MAX_ITEMS
      \<or> (older = [] \<or> \<not> may_join (last older) kept) \<and> (newer = [] \<or> \<not> may_join (hd newer) kept)"
    using finished ok last hd lengths joins
    by (auto simp: window_done_def window_ok_def window_left_open_def window_right_open_def l_def r_def newer_def older_def)
  moreover have "history_fits kept" "\<forall>url\<in>set kept. str_len url \<le> BROWSER_PAGE_URL_MAX_BYTES"
    using ok lengths by (auto simp: history_fits_def window_ok_def kept_def l_def r_def)
  moreover have "length older \<le> selected" "selected < length older + length kept" using bounds lengths by simp_all
  ultimately show ?thesis unfolding if_not_P [OF False] using result parts by blast
qed

text \<open>
  C21: a restored history is a window of the stored one around the selected address, with that address still
  selected. It is within both limits and made of addresses of at most 8 KiB, and it cannot be extended: it has
  512 entries, or the next address on each side is missing, too long or over the byte limit. It is refused
  exactly when the selected address is too long.
\<close>

theorem restored_history_window:
  assumes "history \<noteq> []" "selected = nat (int_clamp index 0 (int (length history - 1)))"
  shows "if str_len (history ! selected) > BROWSER_PAGE_URL_MAX_BYTES
    then \<exists>message. admit_restored_navigation_history history index = Inl (AppBrowser message)
    else \<exists>older kept newer. admit_restored_navigation_history history index = Inr (kept, int (selected - length older))
      \<and> history = older @ kept @ newer \<and> length older \<le> selected \<and> selected < length older + length kept
      \<and> history_fits kept \<and> (\<forall>url\<in>set kept. str_len url \<le> BROWSER_PAGE_URL_MAX_BYTES)
      \<and> (length kept = BROWSER_HISTORY_MAX_ITEMS
         \<or> (older = [] \<or> \<not> may_join (last older) kept) \<and> (newer = [] \<or> \<not> may_join (hd newer) kept))"
  using assms by (rule restored_window)

theorem restored_history_window_witness:
  "\<exists>older kept newer. admit_restored_navigation_history [lit ''n:/a'', lit ''n:/b'', lit ''n:/c''] 7 = Inr (kept, int (2 - length older))
     \<and> [lit ''n:/a'', lit ''n:/b'', lit ''n:/c''] = older @ kept @ newer"
proof -
  have "\<not> str_len ([lit ''n:/a'', lit ''n:/b'', lit ''n:/c''] ! 2) > BROWSER_PAGE_URL_MAX_BYTES" by code_simp
  moreover have "2 = nat (int_clamp 7 0 (int (length [lit ''n:/a'', lit ''n:/b'', lit ''n:/c''] - 1)))" by code_simp
  ultimately show ?thesis
    using restored_history_window [of "[lit ''n:/a'', lit ''n:/b'', lit ''n:/c'']" 2 7] by (simp only: if_False) blast
qed

end
