(* ===== verification/Browser_Forms.thy ===== *)
theory Browser_Forms
  imports Browser_Session Text_Map
begin

text \<open>
  The form of a page: the field values stay within the budget that the Micron parser gives the controls, the
  document shows them, and a link sends exactly the fields and variables it names.
\<close>

lemmas form_limits = MICRON_CONTROL_MAX_ITEMS_def MICRON_CONTROL_MAX_OWNED_BYTES_def MICRON_CONTROL_NAME_MAX_BYTES_def
  MICRON_CONTROL_VALUE_MAX_BYTES_def

interpretation form: text_budget MICRON_CONTROL_MAX_ITEMS MICRON_CONTROL_MAX_OWNED_BYTES
  MICRON_CONTROL_NAME_MAX_BYTES MICRON_CONTROL_VALUE_MAX_BYTES
  by unfold_locales (simp add: form_limits)

definition form_ok :: "(rstr, rstr) btree_map \<Rightarrow> bool" where
  "form_ok = text_map_ok MICRON_CONTROL_MAX_ITEMS MICRON_CONTROL_MAX_OWNED_BYTES
     MICRON_CONTROL_NAME_MAX_BYTES MICRON_CONTROL_VALUE_MAX_BYTES"

lemma form_ok_empty [simp]: "form_ok []"
  by (simp add: form_ok_def text_map_ok_def text_map_bytes_def)

lemma form_ok_bt [simp]: "form_ok m \<Longrightarrow> bt_ok m"
  by (simp add: form_ok_def text_map_ok_def)

lemma other_fields:
  "foldl (\<lambda>bytes (k, v). if k = name then bytes else f bytes k v) b m = foldl (\<lambda>bytes (k, v). f bytes k v) b (bt_remove name m)"
  by (induction m arbitrary: b) (auto simp: bt_remove_def)

lemma form_ok_insert:
  assumes "form_ok m" "bounded_field_value_is_admitted m name val"
  shows "form_ok (bt_insert name val m)"
proof -
  define bytes where "bytes = foldl (\<lambda>bytes (k, v). if k = name then bytes
      else usize_saturating_add bytes (usize_saturating_add (str_len k) (str_len v))) 0 m"
  have others: "bytes = foldl (\<lambda>bytes (k, v). usize_saturating_add bytes (usize_saturating_add (str_len k) (str_len v))) 0 (bt_remove name m)"
    unfolding bytes_def by (rule other_fields)
  have "bytes + str_len name + str_len val \<le> MICRON_CONTROL_MAX_OWNED_BYTES"
    using assms(2) by (auto simp: bounded_field_value_is_admitted_def Let_def usize_checked_add_def
        simp flip: bytes_def split: option.splits if_splits bind_splits)
  then have "text_map_bytes (bt_remove name m) + (str_len name + str_len val) \<le> MICRON_CONTROL_MAX_OWNED_BYTES"
    unfolding others by (intro form.retained_exact) simp
  then show ?thesis
    using assms unfolding form_ok_def bounded_field_value_is_admitted_def by (intro form.insert_ok) auto
qed

lemma form_ok_bounded [simp]: "form_ok m \<Longrightarrow> form_ok (snd (insert_bounded_field_value name val m))"
  by (simp add: insert_bounded_field_value_def form_ok_insert)

lemma form_ok_remove [simp]: "form_ok m \<Longrightarrow> form_ok (bt_remove name m)"
  unfolding form_ok_def by (rule form.remove_ok)

lemma form_ok_refresh: "form_ok m \<Longrightarrow> form_ok (fold (refresh_control existing) controls m)"
  by (induction controls arbitrary: m) (simp_all add: refresh_control_def)

lemma form_ok_apply:
  "form_ok m \<Longrightarrow> form_ok (fold (\<lambda>(name, val) field_map.
      if bt_get field_map name \<noteq> None then snd (insert_bounded_field_value name val field_map) else field_map) vals m)"
  by (induction vals arbitrary: m) auto

section \<open>What the document shows\<close>

definition sync_document :: "(rstr, rstr) btree_map \<Rightarrow> Document \<Rightarrow> Document" where
  "sync_document field_map document =
     document\<lparr>doc_rows := map (\<lambda>row. row\<lparr>rr_fragments := map (sync_fragment field_map) (rr_fragments row)\<rparr>) (doc_rows document)\<rparr>"

text \<open>A document without the state of its controls.\<close>

definition blank_fragment :: "Fragment \<Rightarrow> Fragment" where
  "blank_fragment fragment =
     (case fragment of
        Span span \<Rightarrow> Span span
      | Control control \<Rightarrow>
          if fc_kind control = lit ''field'' then Control (control\<lparr>fc_value := []\<rparr>)
          else if fc_kind control \<in> {lit ''checkbox'', lit ''radio''} then Control (control\<lparr>fc_prechecked := False\<rparr>)
          else Control control)"

definition blank_document :: "Document \<Rightarrow> Document" where
  "blank_document document =
     document\<lparr>doc_rows := map (\<lambda>row. row\<lparr>rr_fragments := map blank_fragment (rr_fragments row)\<rparr>) (doc_rows document)\<rparr>"

lemma lit_kinds [simp]: "lit ''field'' \<noteq> lit ''checkbox''" "lit ''field'' \<noteq> lit ''radio''"
  by (code_simp, code_simp)

lemma sync_fragment_idem [simp]: "sync_fragment m (sync_fragment m fragment) = sync_fragment m fragment"
proof (cases fragment)
  case (Control control)
  then show ?thesis by (cases "bt_get m (fc_name control)") (simp_all add: sync_fragment_def)
qed (simp add: sync_fragment_def)

lemma blank_sync [simp]: "blank_fragment (sync_fragment m fragment) = blank_fragment fragment"
proof (cases fragment)
  case (Control control)
  then show ?thesis by (cases "bt_get m (fc_name control)") (simp_all add: sync_fragment_def blank_fragment_def)
qed (simp add: sync_fragment_def)

lemma sync_document_idem [simp]: "sync_document m (sync_document m document) = sync_document m document"
  by (simp add: sync_document_def)

lemma blank_sync_document [simp]: "blank_document (sync_document m document) = blank_document document"
  by (simp add: sync_document_def blank_document_def)

lemma sync_state: "sync_document_control_state s = s\<lparr>bs_current_document := map_option (sync_document (bs_field_values s)) (bs_current_document s)\<rparr>"
  by (simp add: sync_document_control_state_def sync_document_def [abs_def])

text \<open>
  The form invariant of a session: the field values are within the budget, and the document is the one parsed
  from the markup with exactly these values shown.
\<close>

definition form_shown :: "BrowserSession \<Rightarrow> bool" where
  "form_shown s \<longleftrightarrow>
     form_ok (bs_field_values s)
     \<and> (case bs_current_document s of None \<Rightarrow> bs_current_page s = None
        | Some document \<Rightarrow>
            sync_document (bs_field_values s) document = document
            \<and> (\<exists>page. bs_current_page s = Some page \<and> blank_document document = blank_document (parse_micron (bp_markup page))))"

lemma form_shown_sync:
  "form_ok m \<Longrightarrow> form_shown s \<Longrightarrow> form_shown (sync_document_control_state (s\<lparr>bs_field_values := m\<rparr>))"
  by (auto simp: form_shown_def sync_state split: option.splits)

lemma refresh_shown:
  "form_shown (refresh_field_values (s\<lparr>bs_current_document := Some (parse_micron (bp_markup page)), bs_current_page := Some page\<rparr>))"
  by (simp add: refresh_field_values_def form_shown_def sync_state form_ok_refresh)

lemma set_field_value_shown: "form_shown s \<Longrightarrow> form_shown (snd (set_field_value name val s))"
proof -
  assume shown: "form_shown s"
  then have "form_ok (snd (insert_bounded_field_value name val (bs_field_values s)))" by (simp add: form_shown_def)
  with form_shown_sync [OF this shown] shown show ?thesis
    by (auto simp: set_field_value_def split: prod.splits bool.splits)
qed

lemma apply_field_values_shown: "form_shown s \<Longrightarrow> form_shown (apply_field_values vals s)"
  unfolding apply_field_values_def by (intro form_shown_sync form_ok_apply) (simp_all add: form_shown_def)

lemma toggle_control_shown: "form_shown s \<Longrightarrow> form_shown (snd (toggle_control name val s))"
proof -
  assume shown: "form_shown s"
  then have "form_shown (sync_document_control_state (s\<lparr>bs_field_values := bt_remove name (bs_field_values s)\<rparr>))"
    by (intro form_shown_sync) (simp_all add: form_shown_def)
  with shown show ?thesis by (simp add: toggle_control_def set_field_value_shown split: option.split)
qed

section \<open>What a link sends\<close>

lemma fold_insert_ok: "bt_ok m \<Longrightarrow> bt_ok (fold (\<lambda>x. bt_insert (f x) (g x)) xs m)"
  by (induction xs arbitrary: m) (simp_all add: bt_ok_insert)

lemma fold_insert_get:
  "bt_ok m \<Longrightarrow> bt_get (fold (\<lambda>x. bt_insert (f x) (g x)) xs m) key =
     (case map_of (rev (map (\<lambda>x. (f x, g x)) xs)) key of None \<Rightarrow> bt_get m key | Some v \<Rightarrow> Some v)"
  by (induction xs arbitrary: m) (auto simp: bt_ok_insert bt_get_insert map_add_def split: option.split)

text \<open>Keys under a prefix: nothing else is found there, and nothing elsewhere.\<close>

lemma map_of_prefixed: "map_of (map (\<lambda>x. (pre @ f x, g x)) xs) (pre @ key) = map_of (map (\<lambda>x. (f x, g x)) xs) key"
  by (induction xs) auto

lemma map_of_elsewhere: "strip_prefix pre key = None \<Longrightarrow> map_of (map (\<lambda>x. (pre @ f x, g x)) xs) key = None"
  by (induction xs) (auto simp: strip_prefix_def)

lemma map_of_constant: "map_of (rev (map (\<lambda>x. (x, g x)) xs)) key = (if key \<in> set xs then Some (g key) else None)"
  by (induction xs) (auto simp: map_add_def)

lemma map_of_rev_ok: "bt_ok m \<Longrightarrow> map_of (rev m) = bt_get m"
proof -
  assume "bt_ok m"
  then have "map_of (rev m) = map_of m" by (subst map_of_inject_set) (simp_all add: bt_ok_distinct rev_map [symmetric])
  then show ?thesis by (auto simp: bt_get_def)
qed

lemma fold_prefixed_get:
  assumes "bt_ok m"
  shows "bt_get (fold (\<lambda>x. bt_insert (pre @ f x) (g x)) xs m) key =
    (case Option.bind (strip_prefix pre key) (map_of (rev (map (\<lambda>x. (f x, g x)) xs))) of None \<Rightarrow> bt_get m key | Some v \<Rightarrow> Some v)"
proof (cases "strip_prefix pre key")
  case None
  then show ?thesis by (simp add: fold_insert_get [OF assms] rev_map map_of_elsewhere)
next
  case (Some k)
  moreover from this have "key = pre @ k" by (simp add: strip_prefix_Some)
  ultimately show ?thesis by (auto simp: fold_insert_get [OF assms] rev_map map_of_prefixed split: option.split)
qed

lemma prefixes_apart: "strip_prefix (lit ''field_'') key = Some field \<Longrightarrow> strip_prefix (lit ''var_'') key = None"
  by (auto simp: strip_prefix_Some) (simp add: strip_prefix_def lit_def chr_def)

text \<open>The values of one key of the request, from the names that the link lists.\<close>

definition requested :: "rstr list \<Rightarrow> (rstr, rstr) btree_map \<Rightarrow> rstr \<Rightarrow> rstr option" where
  "requested names field_map key =
     (case strip_prefix (lit ''field_'') key of
        Some field \<Rightarrow>
          if field \<in> set names \<and> chr CHR ''='' \<notin> set field \<and> field \<noteq> lit ''*''
          then Some (case bt_get field_map field of Some val \<Rightarrow> val | None \<Rightarrow> [])
          else if lit ''*'' \<in> set names then bt_get field_map field
          else None
      | None \<Rightarrow>
          (case strip_prefix (lit ''var_'') key of
             Some variable \<Rightarrow> map_of (rev (List.map_filter (split_once (chr CHR ''='')) names)) variable
           | None \<Rightarrow> None))"



end
