(* ===== verification/Page_Cache_Invariant.thy ===== *)
theory Page_Cache_Invariant
  imports Page_Cache "HOL-Library.Code_Target_Nat"
begin

text \<open>
  What the page cache promises: the index stays within its budget with exact accounting in every reachable
  state, whichever file operations fail; eviction takes the oldest pages first; a stored page is found again
  until it expires, and only a fresh page of the asked address is ever returned.
\<close>

section \<open>Accounting\<close>

definition index_ok :: "CacheEnv \<Rightarrow> CacheIndex \<Rightarrow> bool" where
  "index_ok env index \<longleftrightarrow>
     bt_ok (ci_entries index) \<and> ci_total_bytes index = bt_sum ce_bytes (ci_entries index)
     \<and> (\<forall>hash entry. bt_get (ci_entries index) hash = Some entry \<longrightarrow>
          hash = cache_hash env (ce_key entry) \<and> ce_bytes entry \<le> PAGE_CACHE_MAX_RECORD_BYTES)"

definition index_bounded :: "CacheIndex \<Rightarrow> bool" where
  "index_bounded index \<longleftrightarrow> length (ci_entries index) \<le> PAGE_CACHE_MAX_ITEMS \<and> ci_total_bytes index \<le> PAGE_CACHE_MAX_BYTES"

lemmas cache_limits = PAGE_CACHE_MAX_ITEMS_def PAGE_CACHE_MAX_BYTES_def PAGE_CACHE_MAX_RECORD_BYTES_def

lemma remove_entry_index:
  "pc_index (remove_index_entry_file f hash b c) =
     (case bt_get (ci_entries (pc_index c)) hash of
        None \<Rightarrow> pc_index c
      | Some entry \<Rightarrow> (pc_index c)\<lparr>ci_entries := bt_remove hash (ci_entries (pc_index c)),
            ci_total_bytes := ci_total_bytes (pc_index c) - ce_bytes entry\<rparr>)"
  by (simp add: remove_index_entry_file_def Let_def split: option.split)

lemma remove_entry_entries [simp]:
  "ci_entries (pc_index (remove_index_entry_file f hash b c)) = bt_remove hash (ci_entries (pc_index c))"
  by (simp add: remove_entry_index bt_remove_absent split: option.split)

lemma remove_entry_keeps [simp]:
  "pc_poisoned (remove_index_entry_file f hash b c) = pc_poisoned c"
  "pc_saved (remove_index_entry_file f hash b c) = pc_saved c"
  "ci_next_sequence (pc_index (remove_index_entry_file f hash b c)) = ci_next_sequence (pc_index c)"
  by (simp_all add: remove_index_entry_file_def Let_def split: option.split)

lemma index_ok_remove:
  assumes "index_ok env (pc_index c)"
  shows "index_ok env (pc_index (remove_index_entry_file f hash b c))"
    and "index_bounded (pc_index c) \<Longrightarrow> index_bounded (pc_index (remove_index_entry_file f hash b c))"
proof -
  have ok: "bt_ok (ci_entries (pc_index c))" "ci_total_bytes (pc_index c) = bt_sum ce_bytes (ci_entries (pc_index c))"
    using assms by (simp_all add: index_ok_def)
  have total: "ci_total_bytes (pc_index (remove_index_entry_file f hash b c)) = bt_sum ce_bytes (bt_remove hash (ci_entries (pc_index c)))"
    using bt_sum_remove [OF ok(1), of ce_bytes hash] ok(2)
    by (cases "bt_get (ci_entries (pc_index c)) hash") (simp_all add: remove_entry_index bt_remove_absent)
  show "index_ok env (pc_index (remove_index_entry_file f hash b c))"
    using assms total by (simp add: index_ok_def bt_ok_remove bt_get_remove)
  have "length (bt_remove hash (ci_entries (pc_index c))) \<le> length (ci_entries (pc_index c))"
    by (simp add: bt_remove_def length_bt_retain)
  moreover have "bt_sum ce_bytes (bt_remove hash (ci_entries (pc_index c))) \<le> bt_sum ce_bytes (ci_entries (pc_index c))"
    by (simp add: bt_remove_def bt_sum_retain_le)
  ultimately show "index_bounded (pc_index c) \<Longrightarrow> index_bounded (pc_index (remove_index_entry_file f hash b c))"
    using ok(2) total by (simp add: index_bounded_def)
qed

text \<open>What eviction leaves: everything within the budget, in the order of the keys of eviction.\<close>

definition eviction_key :: "rstr \<Rightarrow> CacheIndexEntry \<Rightarrow> nat \<times> nat \<times> rstr" where
  "eviction_key hash entry = (ce_sequence entry, ce_created_at entry, hash)"

definition evicted_from :: "CacheFaults \<Rightarrow> rstr option \<Rightarrow> PageCache \<Rightarrow> PageCache \<Rightarrow> bool" where
  "evicted_from f protected c c' \<longleftrightarrow>
     (\<forall>hash. bt_get (ci_entries (pc_index c')) hash \<in> {None, bt_get (ci_entries (pc_index c)) hash})
     \<and> (\<forall>hash. protected = Some hash \<longrightarrow> bt_get (ci_entries (pc_index c')) hash = bt_get (ci_entries (pc_index c)) hash)
     \<and> (\<forall>hash entry hash' entry'.
          bt_get (ci_entries (pc_index c)) hash = Some entry \<and> bt_get (ci_entries (pc_index c')) hash = None
          \<and> bt_get (ci_entries (pc_index c')) hash' = Some entry' \<and> protected \<noteq> Some hash' \<longrightarrow>
          eviction_key hash entry \<le> eviction_key hash' entry')
     \<and> (bt_ok (pc_files c) \<longrightarrow> bt_ok (pc_files c') \<and> (\<forall>hash. bt_get (ci_entries (pc_index c')) hash \<noteq> None \<longrightarrow>
          bt_get (pc_files c') (path_for_hash hash) = bt_get (pc_files c) (path_for_hash hash)))
     \<and> pc_poisoned c' = pc_poisoned c \<and> pc_saved c' = pc_saved c \<and> ci_next_sequence (pc_index c') = ci_next_sequence (pc_index c)"

lemma path_for_hash_inj [simp]: "path_for_hash a = path_for_hash b \<longleftrightarrow> a = b"
  by (simp add: path_for_hash_def)

lemma evicted_from_refl: "evicted_from f protected c c"
  by (auto simp: evicted_from_def)

lemma oldest_entry_least:
  assumes "oldest_entry protected entries = Some hash" "bt_ok entries"
  obtains entry where "bt_get entries hash = Some entry" "protected \<noteq> Some hash"
    "\<And>hash' entry'. bt_get entries hash' = Some entry' \<Longrightarrow> protected \<noteq> Some hash' \<Longrightarrow> eviction_key hash entry \<le> eviction_key hash' entry'"
proof -
  obtain entry where "min_by_key (\<lambda>(hash, entry). (ce_sequence entry, ce_created_at entry, hash))
      (filter (\<lambda>(hash, _). protected \<noteq> Some hash) entries) = Some (hash, entry)"
    using assms(1) by (auto simp: oldest_entry_def)
  from min_by_key_mem [OF this] show thesis
    using that [of entry] assms(2) by (fastforce simp: eviction_key_def bt_get_eq_Some)
qed

lemma evicted_from_remove:
  assumes "oldest_entry protected (ci_entries (pc_index c)) = Some hash" "index_ok env (pc_index c)"
    and "evicted_from f protected (remove_index_entry_file f hash True c) c'"
  shows "evicted_from f protected c c'"
proof -
  define d where "d = remove_index_entry_file f hash True c"
  have ok: "bt_ok (ci_entries (pc_index c))" using assms(2) by (simp add: index_ok_def)
  obtain entry where oldest: "bt_get (ci_entries (pc_index c)) hash = Some entry" "protected \<noteq> Some hash"
    "\<And>hash' entry'. bt_get (ci_entries (pc_index c)) hash' = Some entry' \<Longrightarrow> protected \<noteq> Some hash' \<Longrightarrow>
       eviction_key hash entry \<le> eviction_key hash' entry'"
    using oldest_entry_least [OF assms(1) ok] by metis
  have get: "bt_get (ci_entries (pc_index d)) h = (if h = hash then None else bt_get (ci_entries (pc_index c)) h)" for h
    using ok by (simp add: d_def bt_get_remove)
  have files: "bt_ok (pc_files d)" "h \<noteq> hash \<Longrightarrow> bt_get (pc_files d) (path_for_hash h) = bt_get (pc_files c) (path_for_hash h)"
    if "bt_ok (pc_files c)" for h
    using that by (simp_all add: d_def remove_index_entry_file_def remove_file_def bt_ok_remove bt_get_remove Let_def)
  have rest: "evicted_from f protected d c'" using assms(3) by (simp add: d_def)
  have subset: "bt_get (ci_entries (pc_index c')) h \<in> {None, bt_get (ci_entries (pc_index c)) h}" for h
    using rest get [of h] by (auto simp: evicted_from_def split: if_splits)
  have gone: "bt_get (ci_entries (pc_index c')) hash = None" using rest get [of hash] by (auto simp: evicted_from_def)
  have order: "eviction_key h e \<le> eviction_key h' e'"
    if "bt_get (ci_entries (pc_index c)) h = Some e" "bt_get (ci_entries (pc_index c')) h = None"
      "bt_get (ci_entries (pc_index c')) h' = Some e'" "protected \<noteq> Some h'" for h e h' e'
  proof (cases "h = hash")
    case True
    moreover have "bt_get (ci_entries (pc_index c)) h' = Some e'" using subset [of h'] that(3) by auto
    ultimately show ?thesis using oldest(1,3) that(1,4) by auto
  next
    case False
    then show ?thesis using rest get [of h] that unfolding evicted_from_def by metis
  qed
  have kept: "bt_get (ci_entries (pc_index c')) h = bt_get (ci_entries (pc_index c)) h" if "protected = Some h" for h
    using rest get [of h] oldest(2) that by (auto simp: evicted_from_def)
  have kept_files: "bt_ok (pc_files c') \<and> (\<forall>h. bt_get (ci_entries (pc_index c')) h \<noteq> None \<longrightarrow>
      bt_get (pc_files c') (path_for_hash h) = bt_get (pc_files c) (path_for_hash h))" if "bt_ok (pc_files c)"
  proof -
    note dir = files [OF that]
    have "bt_get (pc_files c') (path_for_hash h) = bt_get (pc_files c) (path_for_hash h)"
      if "bt_get (ci_entries (pc_index c')) h \<noteq> None" for h
    proof -
      have "h \<noteq> hash" using gone that by auto
      then show ?thesis using rest dir that by (simp add: evicted_from_def)
    qed
    then show ?thesis using rest dir(1) by (auto simp: evicted_from_def)
  qed
  have "pc_poisoned c' = pc_poisoned c \<and> pc_saved c' = pc_saved c \<and> ci_next_sequence (pc_index c') = ci_next_sequence (pc_index c)"
    using rest by (simp add: evicted_from_def d_def)
  then show ?thesis using subset order kept kept_files unfolding evicted_from_def by blast
qed

text \<open>A protected page alone is within the budget, so the loop always ends within it.\<close>

lemma unprotected_left:
  assumes "index_ok env index" "oldest_entry protected (ci_entries index) = None"
  shows "index_bounded index"
proof -
  have "list_all (\<lambda>(hash, _). protected = Some hash) (ci_entries index)"
    using assms(2) by (auto simp: oldest_entry_def filter_empty_conv list_all_iff)
  moreover have "distinct (map fst (ci_entries index))" using assms(1) by (simp add: index_ok_def bt_ok_distinct)
  ultimately have "ci_entries index = [] \<or> (\<exists>hash entry. ci_entries index = [(hash, entry)])"
    by (cases "ci_entries index"; cases "tl (ci_entries index)") (auto simp: list_all_iff)
  then consider "ci_entries index = []" | hash entry where "ci_entries index = [(hash, entry)]" by blast
  then show ?thesis
  proof cases
    case 2
    have "bt_get (ci_entries index) hash = Some entry" by (simp add: 2)
    then have "ce_bytes entry \<le> PAGE_CACHE_MAX_RECORD_BYTES" using assms(1) by (simp add: index_ok_def)
    moreover have "ci_total_bytes index = ce_bytes entry" using assms(1) 2 by (simp add: index_ok_def)
    ultimately show ?thesis using 2 by (simp add: index_bounded_def cache_limits)
  qed (use assms(1) in \<open>simp add: index_ok_def index_bounded_def\<close>)
qed

lemma enforce_budget_ok:
  "index_ok env (pc_index c) \<Longrightarrow>
   index_ok env (pc_index (enforce_budget f protected c)) \<and> index_bounded (pc_index (enforce_budget f protected c))
   \<and> evicted_from f protected c (enforce_budget f protected c)"
proof (induction f protected c rule: enforce_budget.induct)
  case (1 f protected c)
  show ?case
  proof (cases "length (ci_entries (pc_index c)) > PAGE_CACHE_MAX_ITEMS \<or> ci_total_bytes (pc_index c) > PAGE_CACHE_MAX_BYTES")
    case True
    show ?thesis
    proof (cases "oldest_entry protected (ci_entries (pc_index c))")
      case None
      then show ?thesis
        using True 1(2) unprotected_left [OF 1(2) None] by (simp add: enforce_budget.simps [of f protected c] evicted_from_refl)
    next
      case (Some hash)
      have step: "enforce_budget f protected c = enforce_budget f protected (remove_index_entry_file f hash True c)"
        using True Some by (subst enforce_budget.simps) simp
      note IH = 1(1) [OF True Some index_ok_remove(1) [OF 1(2)]]
      then show ?thesis using evicted_from_remove [OF Some 1(2)] unfolding step by blast
    qed
  next
    case False
    then show ?thesis using 1(2) by (subst (1 2 3) enforce_budget.simps) (simp add: index_bounded_def evicted_from_refl not_less)
  qed
qed

section \<open>Operations\<close>

definition cache_ok :: "CacheEnv \<Rightarrow> PageCache \<Rightarrow> bool" where
  "cache_ok env c \<longleftrightarrow>
     index_ok env (pc_index c) \<and> index_bounded (pc_index c) \<and> bt_ok (pc_files c)
     \<and> (case pc_saved c of None \<Rightarrow> True | Some index \<Rightarrow> index_ok env index \<and> index_bounded index)"

lemma cache_ok_save: "cache_ok env c \<Longrightarrow> cache_ok env (snd (save_index f c))"
  by (simp add: save_index_def cache_ok_def)

lemma bt_ok_remove_file: "bt_ok files \<Longrightarrow> bt_ok (remove_file f name files)"
  by (simp add: remove_file_def bt_ok_remove)

lemma cache_ok_remove: "cache_ok env c \<Longrightarrow> cache_ok env (remove_index_entry_file f hash b c)"
  using index_ok_remove [of env c f hash b]
  by (auto simp: cache_ok_def) (simp add: remove_index_entry_file_def Let_def bt_ok_remove_file)

lemma cache_ok_discard: "cache_ok env c \<Longrightarrow> cache_ok env (snd (discard_entry f hash c))"
  using cache_ok_save [OF cache_ok_remove, of env c f f hash True]
  by (auto simp: discard_entry_def split: prod.split sum.split)

lemma cache_ok_delete: "cache_ok env c \<Longrightarrow> cache_ok env (snd (cache_delete env f key c))"
  using cache_ok_save [OF cache_ok_remove] by (simp add: cache_delete_def split: sum.split)

lemma cache_ok_load: "cache_ok env c \<Longrightarrow> cache_ok env (snd (cache_load env f now later key c))"
  using cache_ok_discard by (simp add: cache_load_def Let_def split: sum.split option.split)

lemma cache_ok_enforce:
  "index_ok env (pc_index c) \<Longrightarrow> bt_ok (pc_files c) \<Longrightarrow> pc_saved c = saved \<Longrightarrow>
   (case saved of None \<Rightarrow> True | Some index \<Rightarrow> index_ok env index \<and> index_bounded index) \<Longrightarrow>
   cache_ok env (enforce_budget f protected c)"
  using enforce_budget_ok [of env c f protected] by (simp add: cache_ok_def evicted_from_def)

lemma cache_ok_clean: "cache_ok env c \<Longrightarrow> cache_ok env (snd (cache_clean f now c))"
proof -
  assume ok: "cache_ok env c"
  have removed: "cache_ok env (foldl (\<lambda>c hash. remove_index_entry_file f hash True c) c hashes)" if "cache_ok env c" for c hashes
    using that by (induction hashes arbitrary: c) (simp_all add: cache_ok_remove)
  have "cache_ok env (enforce_budget f None d)" if "cache_ok env d" for d
    using that by (intro cache_ok_enforce) (auto simp: cache_ok_def)
  then show ?thesis using ok removed [OF ok] by (simp add: cache_clean_def Let_def cache_ok_save split: sum.split)
qed

text \<open>The cache between the insertion of a page and the eviction that follows it.\<close>

definition inserted :: "CacheEnv \<Rightarrow> CacheFaults \<Rightarrow> nat \<Rightarrow> CacheRecord \<Rightarrow> PageCache \<Rightarrow> PageCache" where
  "inserted env f now rec c =
     (let raw = cv_encode env rec;
          hash = cache_hash env (cr_key rec);
          sequence = u64_saturating_add (ci_next_sequence (pc_index c)) 1;
          c = c\<lparr>pc_index := (pc_index c)\<lparr>ci_next_sequence := sequence\<rparr>, pc_files := bt_insert (path_for_hash hash) raw (pc_files c)\<rparr>;
          c = remove_index_entry_file f hash False c;
          index = pc_index c in
      c\<lparr>pc_index := index\<lparr>ci_total_bytes := u64_saturating_add (ci_total_bytes index) (length raw),
          ci_entries := bt_insert hash \<lparr>ce_key = cr_key rec, ce_created_at = now, ce_expires_at = cr_expires_at rec,
              ce_bytes = length raw, ce_sequence = sequence\<rparr> (ci_entries index)\<rparr>\<rparr>)"

lemma inserted_ok:
  assumes "cache_ok env c" "length (cv_encode env rec) \<le> PAGE_CACHE_MAX_RECORD_BYTES"
  shows "index_ok env (pc_index (inserted env f now rec c))" "bt_ok (pc_files (inserted env f now rec c))"
    "pc_saved (inserted env f now rec c) = pc_saved c" "pc_poisoned (inserted env f now rec c) = pc_poisoned c"
    "bt_get (pc_files (inserted env f now rec c)) (path_for_hash (cache_hash env (cr_key rec))) = Some (cv_encode env rec)"
    "bt_get (ci_entries (pc_index (inserted env f now rec c))) (cache_hash env (cr_key rec))
       = Some \<lparr>ce_key = cr_key rec, ce_created_at = now, ce_expires_at = cr_expires_at rec,
           ce_bytes = length (cv_encode env rec), ce_sequence = u64_saturating_add (ci_next_sequence (pc_index c)) 1\<rparr>"
proof -
  define hash where "hash = cache_hash env (cr_key rec)"
  define d where "d = remove_index_entry_file f hash False (c\<lparr>pc_index := (pc_index c)\<lparr>ci_next_sequence :=
      u64_saturating_add (ci_next_sequence (pc_index c)) 1\<rparr>, pc_files := bt_insert (path_for_hash hash) (cv_encode env rec) (pc_files c)\<rparr>)"
  have c: "index_ok env (pc_index c)" "index_bounded (pc_index c)" "bt_ok (pc_files c)" using assms(1) by (simp_all add: cache_ok_def)
  have ok: "index_ok env (pc_index d)" "index_bounded (pc_index d)"
    unfolding d_def using c(1,2)
    by (intro index_ok_remove(1) index_ok_remove(2) [of env]; simp add: index_ok_def index_bounded_def)+
  have absent: "bt_get (ci_entries (pc_index d)) hash = None"
    using c(1) by (simp add: d_def bt_get_remove index_ok_def)
  have "ci_total_bytes (pc_index d) + length (cv_encode env rec) < 2 ^ 64"
    using ok(2) assms(2) by (simp add: index_bounded_def cache_limits)
  then have "u64_saturating_add (ci_total_bytes (pc_index d)) (length (cv_encode env rec))
      = ci_total_bytes (pc_index d) + length (cv_encode env rec)" by (simp add: u64_saturating_add_def)
  moreover define entry where "entry = \<lparr>ce_key = cr_key rec, ce_created_at = now, ce_expires_at = cr_expires_at rec,
      ce_bytes = length (cv_encode env rec), ce_sequence = u64_saturating_add (ci_next_sequence (pc_index c)) 1\<rparr>"
  ultimately have "pc_index (inserted env f now rec c) = (pc_index d)\<lparr>ci_total_bytes := ci_total_bytes (pc_index d) + ce_bytes entry,
      ci_entries := bt_insert hash entry (ci_entries (pc_index d))\<rparr>"
    unfolding inserted_def Let_def hash_def [symmetric] d_def [symmetric] entry_def by simp
  moreover have "hash = cache_hash env (ce_key entry)" "ce_bytes entry \<le> PAGE_CACHE_MAX_RECORD_BYTES"
    using assms(2) by (simp_all add: entry_def hash_def)
  ultimately show "index_ok env (pc_index (inserted env f now rec c))"
    using ok(1) bt_sum_insert [of "ci_entries (pc_index d)" ce_bytes hash] absent
    by (simp add: index_ok_def bt_ok_insert bt_get_insert)
  show "bt_ok (pc_files (inserted env f now rec c))" "pc_saved (inserted env f now rec c) = pc_saved c"
    "pc_poisoned (inserted env f now rec c) = pc_poisoned c"
    "bt_get (pc_files (inserted env f now rec c)) (path_for_hash (cache_hash env (cr_key rec))) = Some (cv_encode env rec)"
    using c(3) by (simp_all add: inserted_def Let_def remove_index_entry_file_def bt_ok_insert bt_get_insert split: option.split)
  show "bt_get (ci_entries (pc_index (inserted env f now rec c))) (cache_hash env (cr_key rec))
       = Some \<lparr>ce_key = cr_key rec, ce_created_at = now, ce_expires_at = cr_expires_at rec,
           ce_bytes = length (cv_encode env rec), ce_sequence = u64_saturating_add (ci_next_sequence (pc_index c)) 1\<rparr>"
    using c(1) by (simp add: inserted_def Let_def bt_get_insert bt_ok_remove index_ok_def)
qed

definition stored_record :: "nat \<Rightarrow> rstr \<Rightarrow> rstr \<Rightarrow> nat \<Rightarrow> rstr \<Rightarrow> (rstr, Json) btree_map \<Rightarrow> CacheRecord" where
  "stored_record now key markup ttl_seconds title metadata =
     \<lparr>cr_key = key, cr_title = title, cr_markup = markup, cr_metadata = metadata, cr_created_at = now,
      cr_expires_at = u64_saturating_add now ttl_seconds\<rparr>"

lemma cache_store_cases:
  assumes "cache_store env f now key markup ttl title metadata c = (result, c')" "ttl \<noteq> 0"
  defines "rec \<equiv> stored_record now key markup ttl title metadata"
  obtains (refused) e where "result = Inl e" "c' = c"
  | (failed) "result = Inl CacheIoError" "c' = c\<lparr>pc_index := (pc_index c)\<lparr>ci_next_sequence :=
        u64_saturating_add (ci_next_sequence (pc_index c)) 1\<rparr>\<rparr>"
  | (stored) "length (cv_encode env rec) \<le> PAGE_CACHE_MAX_RECORD_BYTES" "\<not> pc_poisoned c"
      "c' = snd (save_index f (enforce_budget f (Some (cache_hash env key)) (inserted env f now rec c)))"
      "result = (if cf_save f then Inr (Some (path_for_hash (cache_hash env key))) else Inl CacheIoError)"
proof -
  have key: "cr_key rec = key" by (simp add: rec_def stored_record_def)
  note step = assms(1) [unfolded cache_store_def Let_def, folded stored_record_def, folded rec_def]
  consider "length (cv_encode env rec) > PAGE_CACHE_MAX_RECORD_BYTES \<or> pc_poisoned c"
    | "length (cv_encode env rec) \<le> PAGE_CACHE_MAX_RECORD_BYTES" "\<not> pc_poisoned c" "\<not> cf_write f \<or> \<not> cf_replace f"
    | "length (cv_encode env rec) \<le> PAGE_CACHE_MAX_RECORD_BYTES" "\<not> pc_poisoned c" "cf_write f" "cf_replace f" by fastforce
  then show thesis
  proof cases
    case 1
    then show thesis using step assms(2) by (auto simp: lock_index_def intro: refused split: if_splits)
  next
    case 2
    then show thesis using step assms(2) by (intro failed) (auto simp: lock_index_def)
  next
    case 3
    then show thesis using step assms(2)
      by (intro stored) (auto simp: lock_index_def inserted_def Let_def key save_index_def)
  qed
qed

lemma cache_ok_store: "cache_ok env c \<Longrightarrow> cache_ok env (snd (cache_store env f now key markup ttl title metadata c))"
proof (cases "ttl = 0")
  case True
  assume "cache_ok env c"
  then show ?thesis using True cache_ok_delete [of env c f key] by (auto simp: cache_store_def split: prod.split sum.split)
next
  case False
  assume ok: "cache_ok env c"
  obtain result c' where step: "cache_store env f now key markup ttl title metadata c = (result, c')" by fastforce
  from step False show ?thesis
  proof (cases rule: cache_store_cases)
    case stored
    then show ?thesis
      using inserted_ok [OF ok stored(1)] ok step
      by (auto simp: cache_ok_def [of env c] intro!: cache_ok_save cache_ok_enforce)
  qed (use ok step in \<open>simp_all add: cache_ok_def index_ok_def index_bounded_def\<close>)
qed

section \<open>Rebuilding the index\<close>

text \<open>
  While the directory is read, what is left of the listing is still in the directory, and no page of the
  index is among it.
\<close>

definition rebuild_ok :: "CacheEnv \<Rightarrow> rstr list \<Rightarrow> PageCache \<Rightarrow> bool" where
  "rebuild_ok env listing c \<longleftrightarrow>
     bt_ok (pc_files c) \<and> distinct listing \<and> (\<forall>name\<in>set listing. bt_get (pc_files c) name \<noteq> None)
     \<and> index_ok env (pc_index c) \<and> (\<forall>hash. bt_get (ci_entries (pc_index c)) hash \<noteq> None \<longrightarrow>
          bt_get (pc_files c) (path_for_hash hash) \<noteq> None \<and> path_for_hash hash \<notin> set listing)
     \<and> ci_total_bytes (pc_index c) + sum_list (map (\<lambda>_. PAGE_CACHE_MAX_RECORD_BYTES) listing) < 2 ^ 64"

lemma rebuild_skip: "rebuild_ok env (name # rest) c \<Longrightarrow> rebuild_ok env rest c"
  by (auto simp: rebuild_ok_def)

lemma rebuild_drop:
  assumes "rebuild_ok env (name # rest) c"
  shows "rebuild_ok env rest (c\<lparr>pc_files := remove_file f name (pc_files c)\<rparr>)"
proof -
  have get: "bt_get (remove_file f name (pc_files c)) other = (if other = name \<and> cf_remove f name then None else bt_get (pc_files c) other)" for other
    using assms by (simp add: remove_file_def bt_get_remove rebuild_ok_def)
  show ?thesis using assms get by (auto simp: rebuild_ok_def bt_ok_remove_file)
qed

lemma rebuild_insert:
  assumes "rebuild_ok env (name # rest) c" "bt_get (pc_files c) name = Some raw" "length raw \<le> PAGE_CACHE_MAX_RECORD_BYTES"
    "hash = cache_hash env (ce_key entry)" "ce_bytes entry = length raw"
    "name = path_for_hash hash \<or> bt_get (pc_files c) (path_for_hash hash) = None"
    "files = (if name = path_for_hash hash then pc_files c else bt_insert (path_for_hash hash) raw (bt_remove name (pc_files c)))"
  shows "rebuild_ok env rest (c\<lparr>pc_files := files, pc_index := (pc_index c)\<lparr>ci_total_bytes :=
      u64_saturating_add (ci_total_bytes (pc_index c)) (length raw), ci_next_sequence := sequence,
      ci_entries := bt_insert hash entry (ci_entries (pc_index c))\<rparr>\<rparr>)"
proof -
  have ok: "bt_ok (pc_files c)" "index_ok env (pc_index c)" "name \<notin> set rest" using assms(1) by (simp_all add: rebuild_ok_def)
  have entries: "bt_ok (ci_entries (pc_index c))" using ok(2) by (simp add: index_ok_def)
  have absent: "bt_get (ci_entries (pc_index c)) hash = None"
    using assms(1,6) by (cases "bt_get (ci_entries (pc_index c)) hash") (auto simp: rebuild_ok_def)
  have sum_fits: "ci_total_bytes (pc_index c) + length raw + sum_list (map (\<lambda>_. PAGE_CACHE_MAX_RECORD_BYTES) rest) < 2 ^ 64"
    using assms(1,3) by (simp add: rebuild_ok_def)
  then have added: "u64_saturating_add (ci_total_bytes (pc_index c)) (length raw) = ci_total_bytes (pc_index c) + length raw"
    by (simp add: u64_saturating_add_def)
  have get: "bt_get files other = (if other = path_for_hash hash then Some raw else if other = name then None else bt_get (pc_files c) other)" for other
    using assms(2,7) ok(1) by (auto simp: bt_get_insert bt_ok_remove bt_get_remove)
  have fresh: "path_for_hash hash \<notin> set rest" using assms(1,6) ok(3) by (auto simp: rebuild_ok_def)
  have "bt_ok files" using assms(7) ok(1) by (simp add: bt_ok_insert bt_ok_remove)
  moreover have "index_ok env ((pc_index c)\<lparr>ci_total_bytes := ci_total_bytes (pc_index c) + length raw,
      ci_next_sequence := sequence, ci_entries := bt_insert hash entry (ci_entries (pc_index c))\<rparr>)"
    using ok(2) absent assms(3,4,5) bt_sum_insert [OF entries, of ce_bytes hash entry]
    by (simp add: index_ok_def bt_ok_insert bt_get_insert)
  ultimately show ?thesis
    using assms(1) sum_fits ok(3) fresh entries unfolding added
    by (auto simp: rebuild_ok_def get bt_get_insert)
qed

lemma rebuild_entry_ok: "rebuild_ok env (name # rest) c \<Longrightarrow> rebuild_ok env rest (rebuild_entry env f now name c)"
proof -
  assume ok: "rebuild_ok env (name # rest) c"
  note skip = rebuild_skip [OF ok] and dropped = rebuild_drop [OF ok, of f]
  have inserted: "rebuild_ok env rest (c\<lparr>pc_files := (if name = path_for_hash (cache_hash env (cr_key rec)) then pc_files c
          else bt_insert (path_for_hash (cache_hash env (cr_key rec))) raw (bt_remove name (pc_files c))),
        pc_index := (pc_index c)\<lparr>ci_total_bytes := u64_saturating_add (ci_total_bytes (pc_index c)) (length raw),
          ci_next_sequence := sequence,
          ci_entries := bt_insert (cache_hash env (cr_key rec)) \<lparr>ce_key = cr_key rec, ce_created_at = cr_created_at rec,
              ce_expires_at = cr_expires_at rec, ce_bytes = length raw, ce_sequence = sequence\<rparr> (ci_entries (pc_index c))\<rparr>\<rparr>)"
    if "bt_get (pc_files c) name = Some raw" "length raw \<le> PAGE_CACHE_MAX_RECORD_BYTES"
      "\<not> (name \<noteq> path_for_hash (cache_hash env (cr_key rec)) \<and> bt_get (pc_files c) (path_for_hash (cache_hash env (cr_key rec))) \<noteq> None)"
    for raw rec sequence
    by (rule rebuild_insert [OF ok that(1,2)]) (use that(3) in auto)
  show ?thesis
  proof (cases "\<not> has_mu_extension name \<or> bt_get (pc_files c) name = None")
    case True
    then show ?thesis using skip by (auto simp: rebuild_entry_def)
  next
    case False
    then obtain raw where raw: "has_mu_extension name" "bt_get (pc_files c) name = Some raw" by auto
    consider "length raw > PAGE_CACHE_MAX_RECORD_BYTES \<or> \<not> cf_read f \<or> cv_decode env raw = None"
      | rec where "length raw \<le> PAGE_CACHE_MAX_RECORD_BYTES" "cf_read f" "cv_decode env raw = Some rec" by fastforce
    then show ?thesis
    proof cases
      case 1
      then show ?thesis using raw skip dropped by (auto simp: rebuild_entry_def Let_def)
    next
      case (2 rec)
      define canonical where "canonical = path_for_hash (cache_hash env (cr_key rec))"
      define c' where "c' = c\<lparr>pc_files := (if name = canonical then pc_files c else bt_insert canonical raw (bt_remove name (pc_files c))),
          pc_index := (pc_index c)\<lparr>ci_total_bytes := u64_saturating_add (ci_total_bytes (pc_index c)) (length raw),
            ci_next_sequence := u64_saturating_add (ci_next_sequence (pc_index c)) 1,
            ci_entries := bt_insert (cache_hash env (cr_key rec)) \<lparr>ce_key = cr_key rec, ce_created_at = cr_created_at rec,
                ce_expires_at = cr_expires_at rec, ce_bytes = length raw,
                ce_sequence = u64_saturating_add (ci_next_sequence (pc_index c)) 1\<rparr> (ci_entries (pc_index c))\<rparr>\<rparr>"
      have "rebuild_ok env rest c'" if "\<not> (name \<noteq> canonical \<and> bt_get (pc_files c) canonical \<noteq> None)"
        using inserted [OF raw(2) 2(1), of rec] that unfolding c'_def canonical_def by blast
      moreover have "rebuild_entry env f now name c =
          (if now > cr_expires_at rec then c\<lparr>pc_files := remove_file f name (pc_files c)\<rparr>
           else if name \<noteq> canonical \<and> bt_get (pc_files c) canonical \<noteq> None then c\<lparr>pc_files := remove_file f name (pc_files c)\<rparr>
           else if name \<noteq> canonical \<and> \<not> cf_replace f then c else c')"
        using raw 2 by (simp add: rebuild_entry_def Let_def canonical_def c'_def)
      ultimately show ?thesis using skip dropped by simp
    qed
  qed
qed

lemma rebuild_all_ok: "rebuild_ok env listing c \<Longrightarrow> rebuild_ok env [] (foldl (\<lambda>c name. rebuild_entry env f now name c) c listing)"
  by (induction listing arbitrary: c) (simp_all add: rebuild_entry_ok)

lemma rebuild_keeps: "pc_saved (foldl (\<lambda>c name. rebuild_entry env f now name c) c listing) = pc_saved c"
proof (induction listing arbitrary: c)
  case (Cons name listing)
  have "pc_saved (rebuild_entry env f now name c) = pc_saved c"
    unfolding rebuild_entry_def Let_def by (auto split: option.split)
  then show ?case using Cons by simp
qed simp

lemma cache_ok_new:
  assumes "cache_ok env c" "distinct listing" "\<forall>name\<in>set listing. bt_get (pc_files c) name \<noteq> None" "length listing < 2 ^ 40"
  shows "cache_ok env (snd (page_cache_new env f now listing c))"
proof -
  have ok: "cache_ok env (c\<lparr>pc_poisoned := False\<rparr>)" using assms(1) by (simp add: cache_ok_def)
  have "cache_ok env (snd (load_or_rebuild_index env f now listing (c\<lparr>pc_poisoned := False\<rparr>)))"
  proof (cases "pc_saved c")
    case (Some index)
    then show ?thesis using assms(1) by (simp add: load_or_rebuild_index_def cache_ok_def)
  next
    case None
    define d where "d = c\<lparr>pc_poisoned := False, pc_index := cache_index_default\<rparr>"
    have "sum_list (map (\<lambda>_. PAGE_CACHE_MAX_RECORD_BYTES) listing) = length listing * PAGE_CACHE_MAX_RECORD_BYTES"
      by (simp add: sum_list_triv)
    then have "rebuild_ok env listing d"
      using assms by (simp add: d_def rebuild_ok_def cache_ok_def cache_index_default_def index_ok_def cache_limits)
    from rebuild_all_ok [OF this, of f now]
    have rebuilt: "index_ok env (pc_index (foldl (\<lambda>c name. rebuild_entry env f now name c) d listing))"
      "bt_ok (pc_files (foldl (\<lambda>c name. rebuild_entry env f now name c) d listing))" by (simp_all add: rebuild_ok_def)
    have "cache_ok env (enforce_budget f None (foldl (\<lambda>c name. rebuild_entry env f now name c) d listing))"
      by (rule cache_ok_enforce [OF rebuilt refl]) (simp add: rebuild_keeps d_def None)
    then show ?thesis using None by (simp add: load_or_rebuild_index_def cache_ok_save flip: d_def)
  qed
  then show ?thesis
    using cache_ok_clean by (auto simp: page_cache_new_def split: prod.split sum.split)
qed

section \<open>Every reachable cache\<close>

text \<open>
  A cache starts with a directory and no index, and changes by the operations, with any faults and at any
  times; a panic elsewhere may poison the lock. A directory is listed as the names in it, each once.
\<close>

inductive cache_reachable :: "CacheEnv \<Rightarrow> PageCache \<Rightarrow> bool" for env where
  empty: "bt_ok files \<Longrightarrow> cache_reachable env \<lparr>pc_index = cache_index_default, pc_poisoned = False, pc_files = files, pc_saved = None\<rparr>"
| new: "cache_reachable env c \<Longrightarrow> distinct listing \<Longrightarrow> \<forall>name\<in>set listing. bt_get (pc_files c) name \<noteq> None \<Longrightarrow>
    length listing < 2 ^ 40 \<Longrightarrow> cache_reachable env (snd (page_cache_new env f now listing c))"
| store: "cache_reachable env c \<Longrightarrow> cache_reachable env (snd (cache_store env f now key markup ttl title metadata c))"
| load: "cache_reachable env c \<Longrightarrow> cache_reachable env (snd (cache_load env f now later key c))"
| delete: "cache_reachable env c \<Longrightarrow> cache_reachable env (snd (cache_delete env f key c))"
| clean: "cache_reachable env c \<Longrightarrow> cache_reachable env (snd (cache_clean f now c))"
| poison: "cache_reachable env c \<Longrightarrow> cache_reachable env (c\<lparr>pc_poisoned := True\<rparr>)"

lemma reachable_ok: "cache_reachable env c \<Longrightarrow> cache_ok env c"
proof (induction rule: cache_reachable.induct)
  case (empty files)
  then show ?case by (simp add: cache_ok_def index_ok_def index_bounded_def cache_index_default_def)
next
  case (poison c)
  then show ?case by (simp add: cache_ok_def)
qed (simp_all add: cache_ok_new cache_ok_store cache_ok_load cache_ok_delete cache_ok_clean)

definition sample_env :: CacheEnv where
  "sample_env = \<lparr>cv_encode = (\<lambda>rec. encode_utf8 (cr_markup rec)),
     cv_decode = (\<lambda>bs. if bs = encode_utf8 (lit ''m'') then Some (stored_record 100 (lit ''k'') (lit ''m'') 60 (lit ''t'') []) else None),
     cv_sha256 = (\<lambda>bs. bs)\<rparr>"

definition sample_faults :: CacheFaults where
  "sample_faults = \<lparr>cf_write = True, cf_replace = True, cf_save = True, cf_read = True, cf_remove = (\<lambda>_. True)\<rparr>"

definition sample_cache :: PageCache where
  "sample_cache = \<lparr>pc_index = cache_index_default, pc_poisoned = False, pc_files = [], pc_saved = None\<rparr>"

lemma sample_reachable: "cache_reachable sample_env sample_cache"
  unfolding sample_cache_def by (rule cache_reachable.empty) simp

text \<open>
  C19: in every reachable state of the page cache the index holds at most 256 pages of at most 64 MiB in all,
  its byte count is the sum over its entries, and each entry is filed under the hash of its own key,
  whichever file operations failed.
\<close>

theorem page_cache_bounded:
  assumes "cache_reachable env c"
  shows "length (ci_entries (pc_index c)) \<le> PAGE_CACHE_MAX_ITEMS \<and> ci_total_bytes (pc_index c) \<le> PAGE_CACHE_MAX_BYTES
    \<and> ci_total_bytes (pc_index c) = bt_sum ce_bytes (ci_entries (pc_index c))
    \<and> (\<forall>hash entry. bt_get (ci_entries (pc_index c)) hash = Some entry \<longrightarrow> hash = cache_hash env (ce_key entry))"
  using reachable_ok [OF assms] by (simp add: cache_ok_def index_ok_def index_bounded_def)

theorem page_cache_bounded_witness:
  "length (ci_entries (pc_index (snd (cache_store sample_env sample_faults 100 (lit ''k'') (lit ''m'') 60 (lit ''t'') [] sample_cache))))
   \<le> PAGE_CACHE_MAX_ITEMS"
  using page_cache_bounded [OF cache_reachable.store [OF sample_reachable]] by blast

lemma stored_page_found:
  assumes "cache_reachable env c" "cv_decode env (cv_encode env (stored_record now key markup ttl title metadata))
      = Some (stored_record now key markup ttl title metadata)"
    and "cache_store env f now key markup ttl title metadata c = (Inr (Some path), c')"
    and "t \<le> now + ttl" "t' \<le> now + ttl" "now + ttl < 2 ^ 64" "cf_read f'"
  shows "cache_load env f' t t' key c' = (Inr (Some (stored_record now key markup ttl title metadata)), c')
    \<and> (\<forall>old entry kept entry'. bt_get (ci_entries (pc_index c)) old = Some entry \<and> bt_get (ci_entries (pc_index c')) old = None
         \<and> bt_get (ci_entries (pc_index c')) kept = Some entry' \<and> kept \<noteq> cache_hash env key \<longrightarrow>
         eviction_key old entry \<le> eviction_key kept entry')"
proof -
  define rec where "rec = stored_record now key markup ttl title metadata"
  define hash where "hash = cache_hash env key"
  define d where "d = inserted env f now rec c"
  define e where "e = enforce_budget f (Some hash) d"
  have ok: "cache_ok env c" using assms(1) by (rule reachable_ok)
  have rec: "cr_key rec = key" "cr_expires_at rec = now + ttl"
    using assms(6) by (simp_all add: rec_def stored_record_def u64_saturating_add_def)
  have "ttl \<noteq> 0"
  proof
    assume "ttl = 0"
    then show False using assms(3) by (simp add: cache_store_def split: prod.splits sum.splits)
  qed
  with assms(3) have stored: "length (cv_encode env rec) \<le> PAGE_CACHE_MAX_RECORD_BYTES" "\<not> pc_poisoned c"
      "c' = snd (save_index f e)" "cf_save f"
    unfolding rec_def d_def e_def hash_def by (cases rule: cache_store_cases; simp split: if_splits)+
  have c': "pc_index c' = pc_index e" "pc_files c' = pc_files e" "pc_poisoned c' = pc_poisoned e"
    using stored(3,4) by (simp_all add: save_index_def)
  note ins = inserted_ok [OF ok stored(1), of f now, folded d_def, unfolded rec, folded hash_def]
  have evicted: "evicted_from f (Some hash) d e"
    unfolding e_def using enforce_budget_ok [OF ins(1)] by simp
  have found: "bt_get (ci_entries (pc_index e)) hash = bt_get (ci_entries (pc_index d)) hash"
    "bt_get (pc_files e) (path_for_hash hash) = bt_get (pc_files d) (path_for_hash hash)" "\<not> pc_poisoned e"
    using evicted ins(2,4,6) stored(2) by (simp_all add: evicted_from_def)
  have "cache_load env f' t t' key c' = (Inr (Some rec), c')"
    using found ins(5,6) assms(2,4,5,7) rec stored(1) unfolding cache_load_def Let_def hash_def [symmetric] c'
    by (simp add: lock_index_def c'(3) flip: rec_def)
  moreover have "eviction_key old entry \<le> eviction_key kept entry'"
    if "bt_get (ci_entries (pc_index c)) old = Some entry" "bt_get (ci_entries (pc_index e)) old = None"
      "bt_get (ci_entries (pc_index e)) kept = Some entry'" "kept \<noteq> hash" for old entry kept entry'
  proof -
    have "old \<noteq> hash" using that(2) found(1) ins(6) by auto
    then have "bt_get (ci_entries (pc_index d)) old = Some entry"
      using that(1) ok by (simp add: d_def inserted_def Let_def rec hash_def cache_ok_def index_ok_def bt_get_insert bt_ok_remove bt_get_remove)
    then show ?thesis using evicted that(2-4) unfolding evicted_from_def by fastforce
  qed
  ultimately show ?thesis by (auto simp: c' rec_def hash_def)
qed



text \<open>
  C26: a load returns only a record of the asked key that has not expired, and then leaves the cache as it was;
  when a load finds nothing, a later load of the key finds nothing either until it is stored again.
\<close>

theorem page_cache_fresh:
  assumes "cache_reachable env c" "cache_load env f now later key c = (Inr found, c')"
  shows "(case found of
       Some rec \<Rightarrow> cr_key rec = key \<and> later \<le> cr_expires_at rec \<and> now \<le> cr_expires_at rec \<and> c' = c
     | None \<Rightarrow> fst (cache_load env f' now' later' key c') = Inr None)"
proof -
  have ok: "bt_ok (ci_entries (pc_index c))" using reachable_ok [OF assms(1)] by (simp add: cache_ok_def index_ok_def)
  have gone: "fst (cache_load env f' now' later' key c') = Inr None"
    if "bt_get (ci_entries (pc_index c')) (cache_hash env key) = None" "\<not> pc_poisoned c'"
    using that by (simp add: cache_load_def lock_index_def)
  have discarded: "bt_get (ci_entries (pc_index c')) (cache_hash env key) = None" "pc_poisoned c' = pc_poisoned c"
    if "discard_entry f (cache_hash env key) c = (Inr None, c')"
    using that ok by (auto simp: discard_entry_def save_index_def bt_get_remove split: if_splits)
  have some: "discard_entry f hash c \<noteq> (Inr (Some rec), c')" for hash rec
    by (auto simp: discard_entry_def split: prod.split sum.split)
  have unlocked: "\<not> pc_poisoned c" using assms(2) by (auto simp: cache_load_def lock_index_def Let_def split: if_splits)
  show ?thesis
  proof (cases found)
    case None
    then show ?thesis
      using assms(2) gone discarded unlocked
      by (auto simp: cache_load_def Let_def lock_index_def split: option.splits if_splits)
  next
    case (Some rec)
    then show ?thesis
      using assms(2) some unlocked
      by (auto simp: cache_load_def Let_def lock_index_def split: option.splits if_splits)
  qed
qed

theorem page_cache_fresh_witness:
  "fst (cache_load sample_env sample_faults 9 9 (lit ''k'') sample_cache) = Inr None"
proof -
  have "cache_load sample_env sample_faults 5 6 (lit ''k'') sample_cache = (Inr None, sample_cache)"
    by (simp add: cache_load_def lock_index_def sample_cache_def cache_index_default_def)
  from page_cache_fresh [OF sample_reachable this] show ?thesis by simp
qed

end
