(* ===== verification/Browser_Navigation.thy ===== *)
theory Browser_Navigation
  imports Browser_History Browser_Forms Page_Cache_Invariant
begin

text \<open>
  What a browser session keeps through every operation, with the page cache underneath: a history with a valid
  position, an admitted page, the form that its document shows. Each operation that opens a page either
  fails and changes only the cache, or shows a page.
\<close>

section \<open>What each step keeps\<close>

lemma refresh_keeps [simp]:
  "bs_history (refresh_field_values s) = bs_history s" "bs_history_index (refresh_field_values s) = bs_history_index s"
  "bs_cache (refresh_field_values s) = bs_cache s" "bs_current_page (refresh_field_values s) = bs_current_page s"
  "bs_partials (refresh_field_values s) = bs_partials s" "bs_partial_base_markup (refresh_field_values s) = bs_partial_base_markup s"
  "bs_micronplus_enabled (refresh_field_values s) = bs_micronplus_enabled s"
  "bs_trusted_micronplus_nodes (refresh_field_values s) = bs_trusted_micronplus_nodes s" "bs_runtime (refresh_field_values s) = bs_runtime s"
  by (simp_all add: refresh_field_values_def sync_state split: option.split)

lemma validate_retained_cases: "validate_retained page = Inr () \<or> (\<exists>message. validate_retained page = Inl message)"
  by (cases "validate_retained page") simp_all

lemma metadata_set_keeps [simp]:
  "bp_url (metadata_set key v page) = bp_url page" "bp_markup (metadata_set key v page) = bp_markup page"
  "bp_title (metadata_set key v page) = bp_title page" "bp_request_data (metadata_set key v page) = bp_request_data page"
  "bp_source (metadata_set key v page) = bp_source page"
  by (simp_all add: metadata_set_def)

lemma lower_micronplus_keeps [simp]: "bp_url (lower_micronplus env source page) = bp_url page"
  by (simp add: lower_micronplus_def Let_def)

lemma normalize_page_Inr:
  assumes "normalize_page env page s = Inr p"
  shows "bp_url p = bp_url page" "page_admitted page" "page_admitted p"
proof -
  have valid: "validate_retained page = Inr ()"
    using assms validate_retained_cases [of page] by (auto simp: normalize_page_def)
  with assms have "validate_retained p = Inr ()"
    using validate_retained_cases [of p] by (auto simp: normalize_page_def Let_def split: sum.splits)
  with valid show "page_admitted page" "page_admitted p" by (simp_all add: validate_retained_exact)
  show "bp_url p = bp_url page"
    using assms valid by (auto simp: normalize_page_def Let_def split: sum.splits option.splits)
qed

lemma normalize_page_error: "normalize_page env page s = Inl e \<Longrightarrow> e \<noteq> AppPanic"
  by (auto simp: normalize_page_def Let_def browser_error_def split: sum.splits)

text \<open>The session that shows a normalised page.\<close>

definition showing :: "BrowserEnv \<Rightarrow> BrowserPage \<Rightarrow> BrowserSession \<Rightarrow> BrowserSession" where
  "showing env page s = refresh_field_values
     (s\<lparr>bs_current_document := Some (parse_micron (bp_markup page)), bs_partials := extract_partial_specs (be_partials env) (bp_markup page),
        bs_partial_base_markup := Some (bp_markup page), bs_partial_contents := [],
        bs_current_page := Some page, bs_generation := bs_generation s + 1\<rparr>)"

lemma update_page_state_eq:
  "update_page_state env page s =
     (case normalize_page env page s of Inl e \<Rightarrow> (Inl e, s) | Inr p \<Rightarrow> (Inr (), showing env p s))"
  by (simp add: update_page_state_def showing_def split: sum.split)

lemma showing_keeps [simp]:
  "bs_history (showing env page s) = bs_history s" "bs_history_index (showing env page s) = bs_history_index s"
  "bs_cache (showing env page s) = bs_cache s" "bs_current_page (showing env page s) = Some page"
  "bs_partials (showing env page s) = extract_partial_specs (be_partials env) (bp_markup page)"
  "bs_partial_base_markup (showing env page s) = Some (bp_markup page)"
  "bs_micronplus_enabled (showing env page s) = bs_micronplus_enabled s"
  "bs_trusted_micronplus_nodes (showing env page s) = bs_trusted_micronplus_nodes s" "bs_runtime (showing env page s) = bs_runtime s"
  by (simp_all add: showing_def)

lemma showing_form: "form_shown (showing env page s)"
  by (simp add: showing_def refresh_field_values_def form_shown_def sync_state form_ok_refresh)

section \<open>The history of a session\<close>

definition position_ok :: "rstr list \<Rightarrow> int \<Rightarrow> bool" where
  "position_ok history index \<longleftrightarrow> (if history = [] then index = -1 else 0 \<le> index \<and> index < int (length history))"

definition history_ok :: "BrowserSession \<Rightarrow> bool" where
  "history_ok s \<longleftrightarrow> history_fits (bs_history s) \<and> (\<forall>url\<in>set (bs_history s). str_len url \<le> BROWSER_PAGE_URL_MAX_BYTES)
     \<and> position_ok (bs_history s) (bs_history_index s)"

text \<open>The history after a visit: the pages up to the present one and the new one, as many as fit.\<close>

definition visited :: "rstr \<Rightarrow> BrowserSession \<Rightarrow> rstr list" where
  "visited url s = newest_that_fit (take (nat (bs_history_index s + 1)) (bs_history s) @ [url])"

lemma history_at_none: "history_ok s \<Longrightarrow> bs_history_index s < 0 \<Longrightarrow> history_at s (bs_history_index s) = None"
  by (simp add: history_at_def)

lemma visit_step:
  assumes "history_ok s" "str_len url \<le> BROWSER_PAGE_URL_MAX_BYTES"
  shows "trim_live_navigation_history (take (nat (max (bs_history_index s + 1) 0)) (bs_history s) @ [url]) (bs_history_index s + 1)
    = Some (visited url s, int (length (visited url s)) - 1)"
proof -
  define history where "history = take (nat (bs_history_index s + 1)) (bs_history s)"
  have "history_bytes (take n h) \<le> history_bytes h" for n h
    using history_bytes_simps(3) [of "take n h" "drop n h"] by simp
  from this [of "nat (bs_history_index s + 1)" "bs_history s"] have "history_bytes history \<le> BROWSER_HISTORY_MAX_OWNED_BYTES"
    using assms(1) by (simp add: history_def history_ok_def history_fits_def)
  then have bytes: "history_bytes (history @ [url]) < 2 ^ 64" using assms(2) by (simp add: history_limits)
  obtain kept where kept: "newest_that_fit (history @ [url]) = kept @ [url]" using newest_that_fit_last [OF assms(2)] by blast
  obtain dropped where "history @ [url] = dropped @ kept @ [url]" using newest_that_fit_suffix [of "history @ [url]"] kept by auto
  then have "length history = length dropped + length kept" by simp
  moreover have "bs_history_index s + 1 = int (length history)"
    using assms(1) by (auto simp: history_def history_ok_def position_ok_def split: if_splits)
  moreover have "take (nat (max (bs_history_index s + 1) 0)) (bs_history s) = history" by (simp add: history_def max_def)
  ultimately show ?thesis
    unfolding visited_def history_def [symmetric] by (simp add: trim_live_newest [OF bytes] kept int_clamp_def Let_def)
qed

lemma history_ok_visited:
  assumes "history_ok s" "str_len url \<le> BROWSER_PAGE_URL_MAX_BYTES" "bs_history s' = visited url s"
    "bs_history_index s' = int (length (visited url s)) - 1"
  shows "history_ok s'"
proof -
  define history where "history = take (nat (bs_history_index s + 1)) (bs_history s) @ [url]"
  obtain dropped where suffix: "history = dropped @ visited url s"
    using newest_that_fit_suffix [of history] by (auto simp: visited_def history_def)
  obtain kept where "visited url s = kept @ [url]" using newest_that_fit_last [OF assms(2)] by (auto simp: visited_def)
  moreover have "set (visited url s) \<subseteq> set history" by (subst suffix) simp
  then have "set (visited url s) \<subseteq> insert url (set (bs_history s))" using set_take_subset by (fastforce simp: history_def)
  ultimately show ?thesis
    using assms newest_that_fit_fits [of history]
    by (auto simp: history_ok_def position_ok_def history_def simp flip: visited_def)
qed

text \<open>The session after a page has been shown, with the visit entered in the history when it is one.\<close>

definition visiting :: "BrowserEnv \<Rightarrow> BrowserPage \<Rightarrow> rstr \<Rightarrow> bool \<Rightarrow> BrowserSession \<Rightarrow> BrowserSession" where
  "visiting env page url add_history s =
     (if add_history \<and> history_at s (bs_history_index s) \<noteq> Some url
      then (showing env page s)\<lparr>bs_history := visited url s, bs_history_index := int (length (visited url s)) - 1\<rparr>
      else showing env page s)"

lemma set_page_and_history_eq:
  assumes "history_ok s"
  shows "set_page_and_history env page add_history s =
     (case normalize_page env page s of
        Inl e \<Rightarrow> (Inl e, s)
      | Inr p \<Rightarrow> (Inr (), visiting env p (bp_url page) add_history s))"
proof (cases "normalize_page env page s")
  case (Inr p)
  have "str_len (bp_url page) \<le> BROWSER_PAGE_URL_MAX_BYTES"
    using normalize_page_Inr(2) [OF Inr] by (simp add: page_admitted_def)
  moreover have "history_at (showing env p s) i = history_at s i" for i by (simp add: history_at_def)
  ultimately show ?thesis
    using history_at_none [OF assms] visit_step [OF assms, of "bp_url page"]
    by (auto simp: set_page_and_history_def visiting_def update_page_state_eq Inr Let_def)
qed (simp add: set_page_and_history_def update_page_state_eq)

lemma show_page_eq:
  assumes "history_ok s"
  shows "show_page env page add_history s =
     (case normalize_page env page s of
        Inl e \<Rightarrow> (Inl e, s)
      | Inr p \<Rightarrow> (case normalize_page env p s of
            Inl e \<Rightarrow> (Inl e, s)
          | Inr q \<Rightarrow> (Inr p, visiting env q (bp_url p) add_history s)))"
  by (simp add: show_page_def set_page_and_history_eq [OF assms] split: sum.split)

lemma visiting_keeps [simp]:
  "bs_cache (visiting env page url add_history s) = bs_cache s" "bs_current_page (visiting env page url add_history s) = Some page"
  "bs_partials (visiting env page url add_history s) = extract_partial_specs (be_partials env) (bp_markup page)"
  "bs_partial_base_markup (visiting env page url add_history s) = Some (bp_markup page)"
  "bs_micronplus_enabled (visiting env page url add_history s) = bs_micronplus_enabled s"
  "bs_trusted_micronplus_nodes (visiting env page url add_history s) = bs_trusted_micronplus_nodes s"
  "bs_runtime (visiting env page url add_history s) = bs_runtime s"
  by (simp_all add: visiting_def)

lemma visiting_form: "form_shown (visiting env page url add_history s)"
  using showing_form [of env page s] by (auto simp: visiting_def form_shown_def split: option.splits)

lemma visiting_history:
  assumes "history_ok s" "str_len url \<le> BROWSER_PAGE_URL_MAX_BYTES"
  shows "history_ok (visiting env page url add_history s)"
  using assms history_ok_visited [OF assms] by (simp add: visiting_def) (simp add: history_ok_def)

section \<open>What a session keeps\<close>

definition session_ok :: "BrowserEnv \<Rightarrow> BrowserSession \<Rightarrow> bool" where
  "session_ok env s \<longleftrightarrow>
     history_ok s \<and> form_shown s \<and> pred_option page_admitted (bs_current_page s)
     \<and> bs_partials s = (case bs_partial_base_markup s of None \<Rightarrow> [] | Some markup \<Rightarrow> extract_partial_specs (be_partials env) markup)
     \<and> pred_option (cache_reachable (be_cache env)) (bs_cache s)"

lemma session_ok_historyD: "session_ok env s \<Longrightarrow> history_ok s"
  by (simp add: session_ok_def)

lemma session_ok_visiting:
  "session_ok env s \<Longrightarrow> page_admitted page \<Longrightarrow> str_len url \<le> BROWSER_PAGE_URL_MAX_BYTES \<Longrightarrow>
   session_ok env (visiting env page url add_history s)"
  by (simp add: session_ok_def visiting_history visiting_form)

lemma session_ok_cache:
  "session_ok env s \<Longrightarrow> pred_option (cache_reachable (be_cache env)) c \<Longrightarrow> session_ok env (s\<lparr>bs_cache := c\<rparr>)"
  by (auto simp: session_ok_def history_ok_def form_shown_def split: option.splits)

lemma session_ok_form:
  "session_ok env s \<Longrightarrow> form_shown s' \<Longrightarrow> bs_history s' = bs_history s \<Longrightarrow> bs_history_index s' = bs_history_index s \<Longrightarrow>
   bs_current_page s' = bs_current_page s \<Longrightarrow> bs_partials s' = bs_partials s \<Longrightarrow> bs_partial_base_markup s' = bs_partial_base_markup s \<Longrightarrow>
   bs_cache s' = bs_cache s \<Longrightarrow> session_ok env s'"
  by (simp add: session_ok_def history_ok_def)

text \<open>The cache steps of a session are steps of the cache, and never panic.\<close>

lemma session_cache_load_step:
  assumes "session_cache_load env call key s = (r, s')"
  obtains c where "s' = s\<lparr>bs_cache := c\<rparr>" "r \<noteq> Inl AppPanic"
    "pred_option (cache_reachable (be_cache env)) (bs_cache s) \<longrightarrow> pred_option (cache_reachable (be_cache env)) c"
proof (cases "bs_cache s")
  case None
  then show thesis using assms that [of None] by (auto simp: session_cache_load_def)
next
  case (Some cache)
  obtain result c where load: "cache_load (be_cache env) (oc_load_faults call) (oc_now call) (oc_later call) key cache = (result, c)"
    by fastforce
  have "cache_reachable (be_cache env) c" if "cache_reachable (be_cache env) cache"
    using cache_reachable.load [OF that, of "oc_load_faults call" "oc_now call" "oc_later call" key] by (simp add: load)
  moreover have "cache_error e \<noteq> AppPanic" for e by (cases e) (simp_all add: browser_error_def)
  ultimately show thesis
    using assms that [of "Some c"] by (cases result) (auto simp: session_cache_load_def Some load)
qed

lemma session_cache_store_step:
  assumes "session_cache_store env call key page s = (r, s')"
  obtains c where "s' = s\<lparr>bs_cache := c\<rparr>" "r \<noteq> Inl AppPanic"
    "pred_option (cache_reachable (be_cache env)) (bs_cache s) \<longrightarrow> pred_option (cache_reachable (be_cache env)) c"
proof (cases "bs_cache s")
  case None
  then show thesis using assms that [of None] by (auto simp: session_cache_store_def)
next
  case (Some cache)
  obtain result c where store: "cache_store (be_cache env) (oc_store_faults call) (oc_stored_at call) key (bp_markup page)
      (cache_ttl_for_markup (bp_markup page)) (bp_title page) (bp_metadata page) cache = (result, c)" by fastforce
  have "cache_reachable (be_cache env) c" if "cache_reachable (be_cache env) cache"
    using cache_reachable.store [OF that, of "oc_store_faults call" "oc_stored_at call" key "bp_markup page"
        "cache_ttl_for_markup (bp_markup page)" "bp_title page" "bp_metadata page"] by (simp add: store)
  moreover have "cache_error e \<noteq> AppPanic" for e by (cases e) (simp_all add: browser_error_def)
  ultimately show thesis
    using assms that [of "Some c"] by (cases result) (auto simp: session_cache_store_def Some store)
qed

section \<open>Opening a page\<close>

text \<open>A network that answers with a page or with an error of its own.\<close>

definition calm :: "OpenCall \<Rightarrow> bool" where
  "calm call \<longleftrightarrow> (\<forall>url data operation. oc_fetch call url data operation \<noteq> Inl AppPanic)"

text \<open>
  The two outcomes of an operation that opens a page: it fails and only the cache has changed, or a page is
  shown in a session that differs only in its cache.
\<close>

definition open_failed :: "BrowserEnv \<Rightarrow> BrowserSession \<Rightarrow> AppError \<Rightarrow> BrowserSession \<Rightarrow> bool" where
  "open_failed env s e s' \<longleftrightarrow> e \<noteq> AppPanic \<and> (\<exists>c. s' = s\<lparr>bs_cache := c\<rparr>
     \<and> (pred_option (cache_reachable (be_cache env)) (bs_cache s) \<longrightarrow> pred_option (cache_reachable (be_cache env)) c))"

definition open_shown :: "BrowserEnv \<Rightarrow> bool \<Rightarrow> BrowserSession \<Rightarrow> BrowserPage \<Rightarrow> BrowserSession \<Rightarrow> bool" where
  "open_shown env add_history s page s' \<longleftrightarrow> page_admitted page \<and> (\<exists>c q. normalize_page env page (s\<lparr>bs_cache := c\<rparr>) = Inr q
     \<and> s' = visiting env q (bp_url page) add_history (s\<lparr>bs_cache := c\<rparr>)
     \<and> (pred_option (cache_reachable (be_cache env)) (bs_cache s) \<longrightarrow> pred_option (cache_reachable (be_cache env)) c))"

definition opened :: "BrowserEnv \<Rightarrow> bool \<Rightarrow> BrowserSession \<Rightarrow> AppError + BrowserPage \<Rightarrow> BrowserSession \<Rightarrow> bool" where
  "opened env add_history s r s' \<longleftrightarrow>
     (case r of Inl e \<Rightarrow> open_failed env s e s' | Inr page \<Rightarrow> open_shown env add_history s page s')"

lemma opened_after_cache:
  assumes "opened env add_history (s\<lparr>bs_cache := c\<rparr>) r s'"
    "pred_option (cache_reachable (be_cache env)) (bs_cache s) \<longrightarrow> pred_option (cache_reachable (be_cache env)) c"
  shows "opened env add_history s r s'"
  using assms by (auto simp: opened_def open_failed_def open_shown_def split: sum.splits)

lemma history_ok_cache [simp]: "history_ok (s\<lparr>bs_cache := c\<rparr>) = history_ok s"
  by (simp add: history_ok_def)

lemma opened_error: "e \<noteq> AppPanic \<Longrightarrow> opened env add_history s (Inl e) s"
  by (auto simp: opened_def open_failed_def intro: exI [of _ "bs_cache s"])

lemma opened_show_page:
  assumes "history_ok s" "show_page env page add_history s = (r, s')"
  shows "opened env add_history s r s'"
proof -
  note steps = assms(2) [unfolded show_page_eq [OF assms(1)]]
  show ?thesis
  proof (cases "normalize_page env page s")
    case (Inl e)
    then show ?thesis using steps opened_error [OF normalize_page_error [OF Inl]] by simp
  next
    case first: (Inr p)
    show ?thesis
    proof (cases "normalize_page env p s")
      case (Inl e)
      then show ?thesis using steps first opened_error [OF normalize_page_error [OF Inl]] by simp
    next
      case (Inr q)
      then have "r = Inr p" "s' = visiting env q (bp_url p) add_history s" using steps first by simp_all
      then show ?thesis
        using Inr normalize_page_Inr(3) [OF first]
        by (auto simp: opened_def open_shown_def intro!: exI [of _ "bs_cache s"] exI [of _ q])
    qed
  qed
qed

lemma opened_fetched:
  assumes "history_ok s" "calm call" "open_fetched env call resolved key request_data add_history s = (r, s')"
  shows "opened env add_history s r s'"
proof (cases "bs_runtime s")
  case False
  then show ?thesis using assms(3) by (auto simp: open_fetched_def browser_error_def intro: opened_error)
next
  case running: True
  show ?thesis
  proof (cases "oc_fetch call resolved (merge_request_data (default_request_data resolved s) request_data) (bs_operation_id s)")
    case (Inl e)
    then have "e \<noteq> AppPanic" using assms(2) by (auto simp: calm_def)
    from opened_error [OF this] show ?thesis using assms(3) running Inl by (simp add: open_fetched_def)
  next
    case (Inr page)
    show ?thesis
    proof (cases "validate_retained page")
      case (Inl message)
      then show ?thesis using assms(3) running Inr by (auto simp: open_fetched_def browser_error_def intro: opened_error)
    next
      case valid: (Inr u)
      obtain r1 s1 where stored: "(if request_data = None then session_cache_store env call key page s else (Inr (), s)) = (r1, s1)" by fastforce
      have result: "(r, s') = (case r1 of Inl e \<Rightarrow> (Inl e, s1) | Inr _ \<Rightarrow> show_page env page add_history s1)"
        using assms(3) running Inr valid stored by (simp add: open_fetched_def split: sum.splits)
      obtain c where c: "s1 = s\<lparr>bs_cache := c\<rparr>" "r1 \<noteq> Inl AppPanic"
        "pred_option (cache_reachable (be_cache env)) (bs_cache s) \<longrightarrow> pred_option (cache_reachable (be_cache env)) c"
      proof (cases "request_data = None")
        case True
        then show thesis using stored session_cache_store_step that by (metis (full_types))
      next
        case False
        then show thesis using stored that [of "bs_cache s"] by auto
      qed
      have "opened env add_history s1 r s'"
        using result assms(1) c opened_error opened_show_page [of s1] by (cases r1) auto
      then show ?thesis unfolding c(1) using c(3) by (rule opened_after_cache)
    qed
  qed
qed

lemma address_error_calm: "address_error resolved = Some e \<Longrightarrow> e \<noteq> AppPanic"
  by (auto simp: address_error_def browser_error_def split: if_splits)

lemma session_open_opened:
  assumes "history_ok s" "calm call" "session_open env call url request_data add_history use_cache s = (r, s')"
  shows "opened env add_history s r s'"
proof (cases "resolve_url url s")
  case None
  then show ?thesis using assms(3) by (auto simp: session_open_def intro: opened_error)
next
  case (Some resolved)
  show ?thesis
  proof (cases "address_error resolved")
    case error: (Some e)
    then show ?thesis using assms(3) Some address_error_calm by (auto simp: session_open_def intro: opened_error)
  next
    case None
    define key where "key = cache_key env resolved (Some (default_request_data resolved s))"
    obtain r1 s1 where loaded: "(if request_data = None \<and> use_cache then session_cache_load env call key s else (Inr None, s)) = (r1, s1)"
      by fastforce
    have result: "(r, s') = (case r1 of Inl e \<Rightarrow> (Inl e, s1)
        | Inr (Some rec) \<Rightarrow> show_page env \<lparr>bp_url = resolved, bp_markup = cr_markup rec, bp_title = cr_title rec, bp_source = SourceCache,
            bp_metadata = cr_metadata rec, bp_request_data = None\<rparr> add_history s1
        | Inr None \<Rightarrow> open_fetched env call resolved key request_data add_history s1)"
      using assms(3) by (cases r1) (auto simp: session_open_def Some None Let_def loaded simp flip: key_def split: option.splits)
    obtain c where c: "s1 = s\<lparr>bs_cache := c\<rparr>" "r1 \<noteq> Inl AppPanic"
      "pred_option (cache_reachable (be_cache env)) (bs_cache s) \<longrightarrow> pred_option (cache_reachable (be_cache env)) c"
    proof (cases "request_data = None \<and> use_cache")
      case True
      then show thesis using loaded session_cache_load_step that by (metis (full_types))
    next
      case False
      then show thesis using loaded that [of "bs_cache s"] by auto
    qed
    have "opened env add_history s1 r s'"
      using result assms(1,2) c opened_error opened_show_page [of s1] opened_fetched [of s1]
      by (auto split: sum.splits option.splits)
    then show ?thesis unfolding c(1) using c(3) by (rule opened_after_cache)
  qed
qed

lemma session_ok_opened:
  assumes "session_ok env s" "opened env add_history s r s'"
  shows "session_ok env s'"
proof (cases r)
  case (Inl e)
  then obtain c where "s' = s\<lparr>bs_cache := c\<rparr>" "pred_option (cache_reachable (be_cache env)) c"
    using assms by (auto simp: opened_def open_failed_def session_ok_def)
  then show ?thesis using session_ok_cache [OF assms(1)] by simp
next
  case (Inr page)
  then obtain c q where q: "page_admitted page" "normalize_page env page (s\<lparr>bs_cache := c\<rparr>) = Inr q"
      "s' = visiting env q (bp_url page) add_history (s\<lparr>bs_cache := c\<rparr>)" "pred_option (cache_reachable (be_cache env)) c"
    using assms by (auto simp: opened_def open_shown_def session_ok_def)
  have "session_ok env (s\<lparr>bs_cache := c\<rparr>)" using assms(1) q(4) by (rule session_ok_cache)
  then show ?thesis
    unfolding q(3) using q(1) normalize_page_Inr(3) [OF q(2)] by (intro session_ok_visiting) (simp_all add: page_admitted_def)
qed

text \<open>Going to an entry of the history: the operations that return an optional page.\<close>

definition went :: "BrowserEnv \<Rightarrow> bool \<Rightarrow> BrowserSession \<Rightarrow> AppError + BrowserPage option \<Rightarrow> BrowserSession \<Rightarrow> bool" where
  "went env add_history s r s' \<longleftrightarrow> (\<exists>r0. r = map_sum id Some r0 \<and> opened env add_history s r0 s')"

lemma open_history_went:
  assumes "history_ok s" "0 \<le> bs_history_index s" "calm call" "open_history env call use_cache s = (r, s')"
  shows "went env False s r s'"
proof -
  have "history_at s (bs_history_index s) \<noteq> None"
    using assms(1,2) by (auto simp: history_at_def history_ok_def position_ok_def split: if_splits)
  then obtain url where url: "history_at s (bs_history_index s) = Some url" by blast
  obtain r0 s0 where open0: "session_open env call url None False use_cache s = (r0, s0)" by fastforce
  have "r = map_sum id Some r0" "s' = s0" using assms(4) by (cases r0; simp add: open_history_def url open0)+
  then show ?thesis using session_open_opened [OF assms(1,3) open0] by (auto simp: went_def)
qed

lemma back_went:
  assumes "history_ok s" "calm call" "session_back env call s = (r, s')"
  shows "if bs_history_index s \<le> 0 then r = Inr None \<and> s' = s
    else went env False (s\<lparr>bs_history_index := bs_history_index s - 1\<rparr>) r s'"
  using assms(3) open_history_went [of "s\<lparr>bs_history_index := bs_history_index s - 1\<rparr>" call env True r s'] assms(1,2)
  by (auto simp: session_back_def history_ok_def position_ok_def split: if_splits)

lemma forward_went:
  assumes "history_ok s" "calm call" "session_forward env call s = (r, s')"
  shows "if bs_history_index s + 1 \<ge> int (length (bs_history s)) then r = Inr None \<and> s' = s
    else went env False (s\<lparr>bs_history_index := bs_history_index s + 1\<rparr>) r s'"
  using assms(3) open_history_went [of "s\<lparr>bs_history_index := bs_history_index s + 1\<rparr>" call env True r s'] assms(1,2)
  by (auto simp: session_forward_def history_ok_def position_ok_def split: if_splits)

lemma went_after_cache:
  "went env add_history (s\<lparr>bs_cache := c\<rparr>) r s' \<Longrightarrow>
   pred_option (cache_reachable (be_cache env)) (bs_cache s) \<longrightarrow> pred_option (cache_reachable (be_cache env)) c \<Longrightarrow>
   went env add_history s r s'"
  using opened_after_cache unfolding went_def by blast

lemma reload_went:
  assumes "history_ok s" "calm call" "session_reload env call s = (r, s')"
  shows "if bs_history_index s < 0 then r = Inr None \<and> s' = s else went env False s r s'"
proof (cases "bs_history_index s < 0")
  case True
  then show ?thesis using assms(3) by (simp add: session_reload_def)
next
  case False
  then have "history_at s (bs_history_index s) \<noteq> None"
    using assms(1) by (auto simp: history_at_def history_ok_def position_ok_def split: if_splits)
  then obtain url where url: "history_at s (bs_history_index s) = Some url" by blast
  show ?thesis
  proof (cases "bs_cache s")
    case None
    then show ?thesis
      using assms(3) False url open_history_went [OF assms(1) _ assms(2), of env False r s'] by (simp add: session_reload_def)
  next
    case (Some cache)
    obtain d c where deleted: "cache_delete (be_cache env) (oc_delete_faults call) (cache_key env url None) cache = (d, c)" by fastforce
    have reached: "pred_option (cache_reachable (be_cache env)) (bs_cache s) \<longrightarrow> pred_option (cache_reachable (be_cache env)) (Some c)"
      using cache_reachable.delete [of "be_cache env" cache "oc_delete_faults call" "cache_key env url None"] deleted Some by simp
    have "went env False (s\<lparr>bs_cache := Some c\<rparr>) r s'"
    proof (cases d)
      case (Inl e)
      then have "r = map_sum id Some (Inl (cache_error e))" "s' = s\<lparr>bs_cache := Some c\<rparr>"
        using assms(3) False url Some deleted by (simp_all add: session_reload_def)
      moreover have "cache_error e \<noteq> AppPanic" by (cases e) (simp_all add: browser_error_def)
      ultimately show ?thesis using opened_error unfolding went_def by blast
    next
      case (Inr u)
      then have "open_history env call False (s\<lparr>bs_cache := Some c\<rparr>) = (r, s')"
        using assms(3) False url Some deleted by (simp add: session_reload_def)
      then show ?thesis using open_history_went [of "s\<lparr>bs_cache := Some c\<rparr>"] assms(1,2) False by simp
    qed
    from went_after_cache [OF this reached] show ?thesis using False by simp
  qed
qed

lemma open_link_went:
  assumes "history_ok s" "calm call" "open_link env call link s = (r, s')"
  shows "r = Inr None \<and> s' = s \<or> went env True s r s'"
proof -
  define data where "data = (if la_fields link = [] then None else Some (build_request_data (la_fields link) s))"
  obtain r0 s0 where open0: "session_open env call (la_target link) data True (data = None) s = (r0, s0)" by fastforce
  have "r = Inr None \<and> s' = s \<or> r = map_sum id Some r0 \<and> s' = s0"
    using assms(3) open0 by (cases r0) (auto simp: open_link_def Let_def data_def split: if_splits)
  then show ?thesis using session_open_opened [OF assms(1,2) open0] by (auto simp: went_def)
qed

section \<open>Every reachable session\<close>

text \<open>
  A session is made for a start address, with or without a network and a cache, and changes by its
  operations, whatever the network returns and whichever cache files fail. The cache is shared: other
  sessions may change it in between.
\<close>

inductive session_reachable :: "BrowserEnv \<Rightarrow> BrowserSession \<Rightarrow> bool" for env where
  new: "session_new env start_url = Some s \<Longrightarrow> session_reachable env s"
| with_runtime: "with_runtime env start_url cache dir = Some s \<Longrightarrow> cache_reachable (be_cache env) cache \<Longrightarrow> session_reachable env s"
| shared_cache: "session_reachable env s \<Longrightarrow> bs_cache s = Some cache \<Longrightarrow> cache_reachable (be_cache env) cache' \<Longrightarrow>
    session_reachable env (s\<lparr>bs_cache := Some cache'\<rparr>)"
| open_page: "session_reachable env s \<Longrightarrow> calm call \<Longrightarrow>
    session_reachable env (snd (session_open env call url request_data add_history use_cache s))"
| go_back: "session_reachable env s \<Longrightarrow> calm call \<Longrightarrow> session_reachable env (snd (session_back env call s))"
| go_forward: "session_reachable env s \<Longrightarrow> calm call \<Longrightarrow> session_reachable env (snd (session_forward env call s))"
| reload: "session_reachable env s \<Longrightarrow> calm call \<Longrightarrow> session_reachable env (snd (session_reload env call s))"
| open_link: "session_reachable env s \<Longrightarrow> calm call \<Longrightarrow> session_reachable env (snd (open_link env call link s))"
| apply_page: "session_reachable env s \<Longrightarrow> session_reachable env (snd (try_apply_page env page add_history s))"
| restore_page: "session_reachable env s \<Longrightarrow> session_reachable env (snd (restore_page env page history index s))"
| restore_navigation: "session_reachable env s \<Longrightarrow> session_reachable env (snd (restore_navigation env url title history index s))"
| partial: "session_reachable env s \<Longrightarrow> session_reachable env (snd (apply_partial_content env slot content s))"
| set_field: "session_reachable env s \<Longrightarrow> session_reachable env (snd (set_field_value name val s))"
| apply_fields: "session_reachable env s \<Longrightarrow> session_reachable env (apply_field_values vals s)"
| toggle: "session_reachable env s \<Longrightarrow> session_reachable env (snd (toggle_control name val s))"
| policy: "session_reachable env s \<Longrightarrow> session_reachable env (set_micronplus_policy enabled trusted s)"
| operation: "session_reachable env s \<Longrightarrow> session_reachable env (set_operation_id operation s)"
| runtime: "session_reachable env s \<Longrightarrow> session_reachable env (replace_runtime s)"

lemma session_ok_blank: "session_ok env session_blank"
  by (simp add: session_ok_def session_blank_def history_ok_def position_ok_def history_fits_def form_shown_def)

lemma session_ok_showing: "session_ok env s \<Longrightarrow> page_admitted page \<Longrightarrow> session_ok env (showing env page s)"
  using session_ok_visiting [of env s page "[]" False] by (simp add: visiting_def str_len_def)

lemma session_ok_update: "session_ok env s \<Longrightarrow> session_ok env (snd (update_page_state env page s))"
  by (auto simp: update_page_state_eq normalize_page_Inr intro: session_ok_showing split: sum.split)

lemma session_ok_new: "session_new env start_url = Some s \<Longrightarrow> session_ok env s"
  using session_ok_update [OF session_ok_blank, of env "mock_home start_url"]
  by (auto simp: session_new_def split: prod.splits sum.splits)

lemma session_ok_went: "session_ok env s \<Longrightarrow> went env add_history s r s' \<Longrightarrow> session_ok env s'"
  using session_ok_opened by (auto simp: went_def)

lemma session_ok_index: "session_ok env s \<Longrightarrow> position_ok (bs_history s) index \<Longrightarrow> session_ok env (s\<lparr>bs_history_index := index\<rparr>)"
  by (auto simp: session_ok_def history_ok_def form_shown_def split: option.splits)

lemma session_ok_history:
  "session_ok env s \<Longrightarrow> history_fits history \<Longrightarrow> \<forall>url\<in>set history. str_len url \<le> BROWSER_PAGE_URL_MAX_BYTES \<Longrightarrow>
   position_ok history index \<Longrightarrow> session_ok env (s\<lparr>bs_history := history, bs_history_index := index\<rparr>)"
  by (auto simp: session_ok_def history_ok_def form_shown_def split: option.splits)

lemma session_ok_back:
  assumes "session_ok env s" "calm call"
  shows "session_ok env (snd (session_back env call s))" "session_ok env (snd (session_forward env call s))"
    "session_ok env (snd (session_reload env call s))"
proof -
  have ok: "history_ok s" using assms(1) by (simp add: session_ok_def)
  have moved: "session_ok env (s\<lparr>bs_history_index := i\<rparr>)" if "0 \<le> i" "i < int (length (bs_history s))" for i
    using that assms(1) by (intro session_ok_index) (auto simp: position_ok_def)
  have range: "bs_history_index s < int (length (bs_history s))" using ok by (auto simp: history_ok_def position_ok_def split: if_splits)
  show "session_ok env (snd (session_back env call s))"
    using back_went [OF ok assms(2) prod.collapse [symmetric], of env] assms(1) moved [of "bs_history_index s - 1"] range session_ok_went
    by (auto split: if_splits)
  show "session_ok env (snd (session_forward env call s))"
    using forward_went [OF ok assms(2) prod.collapse [symmetric], of env] assms(1) moved [of "bs_history_index s + 1"] ok session_ok_went
    by (auto simp: history_ok_def position_ok_def split: if_splits)
  show "session_ok env (snd (session_reload env call s))"
    using reload_went [OF ok assms(2) prod.collapse [symmetric], of env] assms(1) session_ok_went by (auto split: if_splits)
qed

lemma restored_ok:
  assumes "admit_restored_navigation_history history index = Inr (kept, i)"
  shows "history_fits kept \<and> (\<forall>url\<in>set kept. str_len url \<le> BROWSER_PAGE_URL_MAX_BYTES) \<and> position_ok kept i"
proof (cases "history = []")
  case True
  then show ?thesis
    using assms by (simp add: admit_restored_navigation_history_def history_fits_def position_ok_def)
next
  case False
  define selected where "selected = nat (int_clamp index 0 (int (length history - 1)))"
  have short: "\<not> str_len (history ! selected) > BROWSER_PAGE_URL_MAX_BYTES"
    using restored_window [OF False selected_def] assms by auto
  obtain older kept' newer where "admit_restored_navigation_history history index = Inr (kept', int (selected - length older))"
      "history = older @ kept' @ newer" "length older \<le> selected" "selected < length older + length kept'" "history_fits kept'"
      "\<forall>url\<in>set kept'. str_len url \<le> BROWSER_PAGE_URL_MAX_BYTES"
    using restored_window [OF False selected_def] unfolding if_not_P [OF short] by blast
  then show ?thesis using assms by (auto simp: position_ok_def)
qed

lemma session_ok_irrelevant [simp]:
  "session_ok env (s\<lparr>bs_runtime := running\<rparr>) = session_ok env s"
  "session_ok env (s\<lparr>bs_downloads_dir := dir\<rparr>) = session_ok env s"
  "session_ok env (s\<lparr>bs_operation_id := operation\<rparr>) = session_ok env s"
  "session_ok env (s\<lparr>bs_micronplus_enabled := enabled\<rparr>) = session_ok env s"
  "session_ok env (s\<lparr>bs_trusted_micronplus_nodes := trusted\<rparr>) = session_ok env s"
  by (simp_all add: session_ok_def history_ok_def form_shown_def cong: option.case_cong)

lemma session_ok_restore: "session_ok env s \<Longrightarrow> session_ok env (snd (restore_page env page history index s))"
  by (auto simp: restore_page_def update_page_state_eq session_ok_showing normalize_page_Inr restored_ok
      intro!: session_ok_history split: sum.split prod.split)

lemma apply_partial_outcome:
  assumes "apply_partial_content env slot content s = (r, s')"
  shows "(\<exists>e. r = Inl e \<and> e \<noteq> AppPanic \<and> s' = s)
    \<or> (\<exists>page. r = Inr page \<and> page_admitted page \<and> s' = refresh_field_values (s\<lparr>bs_partial_contents := bt_insert slot content (bs_partial_contents s),
         bs_current_document := Some (parse_micron (bp_markup page)), bs_current_page := Some page\<rparr>))"
proof (cases "str_len content > BROWSER_PAGE_MARKUP_MAX_BYTES \<or> bs_current_page s = None")
  case True
  then show ?thesis using assms by (auto simp: apply_partial_content_def browser_error_def split: if_splits)
next
  case False
  then obtain current where current: "bs_current_page s = Some current" by blast
  define composed where "composed = metadata_set ''micronplus_source'' None (current\<lparr>bp_markup := compose_markup_with_partials
      (case bs_partial_base_markup s of Some markup \<Rightarrow> markup | None \<Rightarrow> bp_markup current) (bs_partials s)
      (bt_insert slot content (bs_partial_contents s)), bp_source := SourceNetwork\<rparr>)"
  show ?thesis
  proof (cases "normalize_page env composed s")
    case (Inl e)
    then have "r = Inl e" "s' = s"
      using assms False by (simp_all add: apply_partial_content_def current Let_def flip: composed_def)
    then show ?thesis using normalize_page_error [OF Inl] by simp
  next
    case (Inr normal)
    define page where "page = metadata_set ''micronplus_tree'' (bt_get (bp_metadata current) (lit ''micronplus_tree''))
        (metadata_set ''micronplus_layout'' (bt_get (bp_metadata current) (lit ''micronplus_layout'')) normal)"
    have step: "(r, s') = (case validate_retained page of Inl e \<Rightarrow> (Inl (browser_error e), s)
        | Inr _ \<Rightarrow> (Inr page, refresh_field_values (s\<lparr>bs_partial_contents := bt_insert slot content (bs_partial_contents s),
            bs_current_document := Some (parse_micron (bp_markup page)), bs_current_page := Some page\<rparr>)))"
      using assms False Inr by (simp add: apply_partial_content_def current Let_def page_def flip: composed_def cong: sum.case_cong)
    show ?thesis
    proof (cases "validate_retained page")
      case valid: (Inr u)
      then have "page_admitted page" by (simp add: validate_retained_exact)
      with valid step show ?thesis by simp
    qed (use step in \<open>simp add: browser_error_def\<close>)
  qed
qed

lemma session_ok_partial:
  assumes "session_ok env s"
  shows "session_ok env (snd (apply_partial_content env slot content s))"
proof -
  have "session_ok env (refresh_field_values (s\<lparr>bs_partial_contents := contents,
      bs_current_document := Some (parse_micron (bp_markup page)), bs_current_page := Some page\<rparr>))" if "page_admitted page" for contents page
    using assms that refresh_shown [of page "s\<lparr>bs_partial_contents := contents\<rparr>"] by (simp add: session_ok_def history_ok_def)
  then show ?thesis
    using apply_partial_outcome [OF prod.collapse [symmetric], of env slot content s] assms by metis
qed

lemma session_reachable_ok: "session_reachable env s \<Longrightarrow> session_ok env s"
proof (induction rule: session_reachable.induct)
  case (new start_url s)
  then show ?case by (rule session_ok_new)
next
  case (with_runtime start_url cache dir s)
  then obtain s0 where new: "session_new env start_url = Some s0"
      "s = s0\<lparr>bs_runtime := True, bs_cache := Some cache, bs_downloads_dir := Some dir\<rparr>" by (auto simp: with_runtime_def)
  have "session_ok env (s0\<lparr>bs_runtime := True, bs_cache := Some cache\<rparr>)"
    using session_ok_new [OF new(1)] with_runtime(2) by (intro session_ok_cache) simp_all
  then show ?case by (simp add: new(2))
next
  case (shared_cache s cache cache')
  then show ?case by (intro session_ok_cache) simp_all
next
  case (open_page s call url request_data add_history use_cache)
  show ?case
    by (rule session_ok_opened [OF open_page.IH session_open_opened [OF session_ok_historyD [OF open_page.IH] open_page.hyps(2)
          prod.collapse [symmetric]]])
next
  case (open_link s call link)
  show ?case
    using open_link_went [OF session_ok_historyD [OF open_link.IH] open_link.hyps(2) prod.collapse [symmetric]]
      session_ok_went [OF open_link.IH] open_link.IH by metis
next
  case (apply_page s page add_history)
  show ?case
  proof (cases "normalize_page env page s")
    case (Inr p)
    then show ?thesis
      using session_ok_visiting [OF apply_page.IH normalize_page_Inr(3) [OF Inr]] normalize_page_Inr(2) [OF Inr]
      by (simp add: try_apply_page_def set_page_and_history_eq [OF session_ok_historyD [OF apply_page.IH]] page_admitted_def)
  qed (simp add: try_apply_page_def set_page_and_history_eq [OF session_ok_historyD [OF apply_page.IH]] apply_page.IH)
next
  case (set_field s name val)
  then show ?case
    by (intro session_ok_form [OF set_field.IH set_field_value_shown])
      (auto simp: session_ok_def set_field_value_def sync_state split: prod.split bool.split)
next
  case (apply_fields s vals)
  then show ?case
    by (intro session_ok_form [OF apply_fields.IH apply_field_values_shown]) (auto simp: session_ok_def apply_field_values_def sync_state)
next
  case (toggle s name val)
  then show ?case
    by (intro session_ok_form [OF toggle.IH toggle_control_shown])
      (auto simp: session_ok_def toggle_control_def set_field_value_def sync_state split: option.split prod.split bool.split)
qed (simp_all add: session_ok_back session_ok_restore restore_navigation_def session_ok_partial set_micronplus_policy_def
    set_operation_id_def replace_runtime_def)

text \<open>A page without MicronPlus and OmenChat blocks is kept as it is but for the metadata of the MicronPlus plugin.\<close>

definition plain_env :: BrowserEnv where
  "plain_env = \<lparr>be_partials = \<lparr>pe_refresh = (\<lambda>_. None), pe_sha256 = (\<lambda>_. [])\<rparr>, be_cache = sample_env, be_has_micronplus = (\<lambda>_. False),
     be_micronplus = (\<lambda>source. \<lparr>mi_layout = Inr None, mi_tree = Inr None, mi_markup = source, mi_diagnostics = []\<rparr>),
     be_omenchat = (\<lambda>markup. markup), be_json = (\<lambda>_. [])\<rparr>"

definition offline :: OpenCall where
  "offline = \<lparr>oc_fetch = (\<lambda>_ _ _. Inl (AppRuntime [])), oc_delete_faults = sample_faults, oc_load_faults = sample_faults,
     oc_store_faults = sample_faults, oc_now = 0, oc_later = 0, oc_stored_at = 0\<rparr>"

lemma calm_offline: "calm offline"
  by (simp add: calm_def offline_def)

lemma plain_normalize:
  assumes "be_has_micronplus env = (\<lambda>_. False)" "be_omenchat env = (\<lambda>markup. markup)" "page_admitted page" "bp_metadata page = []"
  shows "normalize_page env page s = Inr page"
proof -
  have valid: "validate_retained page = Inr ()" using assms(3) by (simp add: validate_retained_exact)
  have none: "metadata_set key None page = page" for key by (simp add: metadata_set_def assms(4) bt_remove_def)
  have "micronplus_source env page s = None" by (simp add: micronplus_source_def assms(1,4))
  then show ?thesis by (simp add: normalize_page_def valid none Let_def assms(2))
qed

lemma mock_home_admitted: "page_admitted (mock_home (lit ''mock.node:/''))"
  by code_simp

lemma plain_session_new: "fst (update_page_state plain_env (mock_home (lit ''mock.node:/'')) session_blank) = Inr ()"
  using plain_normalize [of plain_env, OF _ _ mock_home_admitted]
  by (simp add: update_page_state_eq plain_env_def mock_home_def [of "lit ''mock.node:/''"])

definition plain_session :: BrowserSession where
  "plain_session = snd (update_page_state plain_env (mock_home (lit ''mock.node:/'')) session_blank)"

lemma plain_session_reachable: "session_reachable plain_env plain_session"
  using plain_session_new by (intro session_reachable.new [of _ "lit ''mock.node:/''"])
    (auto simp: session_new_def plain_session_def split: prod.split sum.split)

text \<open>
  C9: whatever a session does, its history has at most 512 addresses of at most 1 MiB and a valid position, its
  form stays within the limits of the controls, its document is its page's with exactly the form values
  shown, its page is within the retention limits, its partials are those of the page as it was loaded, and
  the cache keeps its own limits.
\<close>

theorem browser_session_invariant:
  assumes "session_reachable env s"
  shows "length (bs_history s) \<le> BROWSER_HISTORY_MAX_ITEMS \<and> history_bytes (bs_history s) \<le> BROWSER_HISTORY_MAX_OWNED_BYTES
    \<and> (if bs_history s = [] then bs_history_index s = -1 else 0 \<le> bs_history_index s \<and> bs_history_index s < int (length (bs_history s)))
    \<and> form_ok (bs_field_values s)
    \<and> (\<forall>document. bs_current_document s = Some document \<longrightarrow> sync_document (bs_field_values s) document = document
        \<and> (\<exists>page. bs_current_page s = Some page \<and> blank_document document = blank_document (parse_micron (bp_markup page))))
    \<and> (\<forall>page. bs_current_page s = Some page \<longrightarrow> page_admitted page)
    \<and> bs_partials s = (case bs_partial_base_markup s of None \<Rightarrow> [] | Some markup \<Rightarrow> extract_partial_specs (be_partials env) markup)
    \<and> (\<forall>cache. bs_cache s = Some cache \<longrightarrow> cache_ok (be_cache env) cache)"
proof -
  have "session_ok env s" using assms by (rule session_reachable_ok)
  then show ?thesis
    by (auto simp: session_ok_def history_ok_def history_fits_def position_ok_def form_shown_def reachable_ok)
qed

theorem browser_session_invariant_witness:
  "length (bs_history (snd (session_open plain_env offline (lit '':/page'') None True True plain_session))) \<le> BROWSER_HISTORY_MAX_ITEMS"
  using browser_session_invariant [OF session_reachable.open_page [OF plain_session_reachable calm_offline]] by blast



end
