(* ===== verification/Browser_Trail.thy ===== *)
theory Browser_Trail
  imports Browser_Navigation
begin

text \<open>
  The history of a session as a trail: the pages behind the present one, the present one and the pages ahead.
\<close>

section \<open>The trail\<close>

text \<open>The pages behind, nearest first, the present one and the pages ahead.\<close>

record Trail =
  behind :: "rstr list"
  here :: "rstr option"
  ahead :: "rstr list"

definition trail_back :: "Trail \<Rightarrow> Trail" where
  "trail_back t =
     (case (behind t, here t) of
        (url # urls, Some present) \<Rightarrow> \<lparr>behind = urls, here = Some url, ahead = present # ahead t\<rparr>
      | _ \<Rightarrow> t)"

definition trail_forward :: "Trail \<Rightarrow> Trail" where
  "trail_forward t =
     (case (ahead t, here t) of
        (url # urls, Some present) \<Rightarrow> \<lparr>behind = present # behind t, here = Some url, ahead = urls\<rparr>
      | _ \<Rightarrow> t)"

text \<open>Visiting another page gives up what is ahead, and forgets what is furthest behind when the limits are reached.\<close>

definition trail_visit :: "rstr \<Rightarrow> Trail \<Rightarrow> Trail" where
  "trail_visit url t =
     (if here t = Some url then t
      else
        let passed = rev (behind t) @ (case here t of None \<Rightarrow> [] | Some present \<Rightarrow> [present]);
            kept = newest_that_fit (passed @ [url]) in
        \<lparr>behind = rev (butlast kept), here = Some url, ahead = []\<rparr>)"

definition trail :: "BrowserSession \<Rightarrow> Trail" where
  "trail s =
     (if bs_history_index s < 0 then \<lparr>behind = [], here = None, ahead = []\<rparr>
      else
        let i = nat (bs_history_index s) in
        \<lparr>behind = rev (take i (bs_history s)), here = Some (bs_history s ! i), ahead = drop (i + 1) (bs_history s)\<rparr>)"

lemma trail_cong: "bs_history s' = bs_history s \<Longrightarrow> bs_history_index s' = bs_history_index s \<Longrightarrow> trail s' = trail s"
  by (simp add: trail_def)

lemma position_nat:
  assumes "history_ok s" "0 \<le> bs_history_index s"
  obtains i where "bs_history_index s = int i" "i < length (bs_history s)"
proof
  show "bs_history_index s = int (nat (bs_history_index s))" using assms(2) by simp
  show "nat (bs_history_index s) < length (bs_history s)"
    using assms by (auto simp: history_ok_def position_ok_def split: if_splits)
qed

lemma trail_at:
  "bs_history_index s = int i \<Longrightarrow>
   trail s = \<lparr>behind = rev (take i (bs_history s)), here = Some (bs_history s ! i), ahead = drop (Suc i) (bs_history s)\<rparr>"
  by (simp add: trail_def)

lemma trail_nowhere: "bs_history_index s < 0 \<Longrightarrow> trail s = \<lparr>behind = [], here = None, ahead = []\<rparr>"
  by (simp add: trail_def)

lemma trail_move_back:
  assumes "history_ok s" "bs_history_index s > 0"
  shows "trail (s\<lparr>bs_history_index := bs_history_index s - 1\<rparr>) = trail_back (trail s)"
proof -
  obtain i where i: "bs_history_index s = int i" "i < length (bs_history s)" "0 < i" using position_nat [OF assms(1)] assms(2) by auto
  then obtain j where j: "i = Suc j" by (cases i) auto
  have "bs_history_index (s\<lparr>bs_history_index := bs_history_index s - 1\<rparr>) = int j" using i(1) j by simp
  from trail_at [OF this] trail_at [OF i(1)] show ?thesis
    using i(2) by (simp add: j trail_back_def take_Suc_conv_app_nth Cons_nth_drop_Suc)
qed

lemma trail_move_forward:
  assumes "history_ok s" "bs_history_index s + 1 < int (length (bs_history s))"
  shows "trail (s\<lparr>bs_history_index := bs_history_index s + 1\<rparr>) = trail_forward (trail s)"
proof -
  have "0 \<le> bs_history_index s" using assms by (auto simp: history_ok_def position_ok_def split: if_splits)
  then obtain i where i: "bs_history_index s = int i" "Suc i < length (bs_history s)" using position_nat [OF assms(1)] assms(2) by auto
  have "drop (Suc i) (bs_history s) = bs_history s ! Suc i # drop (Suc (Suc i)) (bs_history s)" using i(2) by (simp add: Cons_nth_drop_Suc)
  moreover have "bs_history_index (s\<lparr>bs_history_index := bs_history_index s + 1\<rparr>) = int (Suc i)" using i(1) by simp
  ultimately show ?thesis
    using trail_at [of "s\<lparr>bs_history_index := bs_history_index s + 1\<rparr>" "Suc i"] trail_at [OF i(1)] i(2)
    by (simp add: trail_forward_def take_Suc_conv_app_nth)
qed

lemma trail_ends:
  assumes "history_ok s"
  shows "bs_history_index s \<le> 0 \<Longrightarrow> trail_back (trail s) = trail s"
    and "bs_history_index s + 1 \<ge> int (length (bs_history s)) \<Longrightarrow> trail_forward (trail s) = trail s"
proof -
  show "trail_back (trail s) = trail s" if "bs_history_index s \<le> 0"
    using that by (cases "bs_history_index s < 0") (simp_all add: trail_nowhere trail_at [of s 0] trail_back_def)
  show "trail_forward (trail s) = trail s" if long: "bs_history_index s + 1 \<ge> int (length (bs_history s))"
  proof (cases "bs_history_index s < 0")
    case False
    then obtain i where "bs_history_index s = int i" "i < length (bs_history s)" using position_nat [OF assms] by auto
    then show ?thesis using long by (simp add: trail_at trail_forward_def)
  qed (simp add: trail_nowhere trail_forward_def)
qed

lemma trail_visited:
  assumes "history_ok s" "str_len url \<le> BROWSER_PAGE_URL_MAX_BYTES"
  shows "trail (visiting env page url True s) = trail_visit url (trail s)"
proof (cases "history_at s (bs_history_index s) = Some url")
  case True
  then have "here (trail s) = Some url" by (auto simp: history_at_def trail_def Let_def split: if_splits)
  moreover have "trail (showing env page s) = trail s" by (rule trail_cong) simp_all
  ultimately show ?thesis using True by (simp add: visiting_def trail_visit_def)
next
  case False
  have elsewhere: "here (trail s) \<noteq> Some url"
  proof (cases "bs_history_index s < 0")
    case nonneg: False
    then obtain i where "bs_history_index s = int i" "i < length (bs_history s)" using position_nat [OF assms(1)] by auto
    then show ?thesis using False by (simp add: history_at_def trail_at)
  qed (simp add: trail_nowhere)
  have passed: "rev (behind (trail s)) @ (case here (trail s) of None \<Rightarrow> [] | Some present \<Rightarrow> [present])
      = take (nat (bs_history_index s + 1)) (bs_history s)"
  proof (cases "bs_history_index s < 0")
    case nonneg: False
    then obtain i where i: "bs_history_index s = int i" "i < length (bs_history s)" using position_nat [OF assms(1)] by auto
    moreover have "nat (int i + 1) = Suc i" by simp
    ultimately show ?thesis by (simp add: trail_at take_Suc_conv_app_nth)
  qed (simp add: trail_nowhere)
  obtain kept where kept: "visited url s = kept @ [url]" using newest_that_fit_last [OF assms(2)] by (auto simp: visited_def)
  then have "trail (visiting env page url True s) = \<lparr>behind = rev kept, here = Some url, ahead = []\<rparr>"
    using False by (simp add: visiting_def trail_at [where i = "length kept"])
  moreover have "trail_visit url (trail s) = \<lparr>behind = rev (butlast (visited url s)), here = Some url, ahead = []\<rparr>"
    using elsewhere by (simp add: trail_visit_def Let_def passed visited_def)
  ultimately show ?thesis by (simp add: kept)
qed

lemma opened_trail:
  assumes "history_ok s" "opened env add_history s r s'"
  shows "trail s' = (case r of Inr page \<Rightarrow> if add_history then trail_visit (bp_url page) (trail s) else trail s | Inl _ \<Rightarrow> trail s)"
proof (cases r)
  case (Inl e)
  then show ?thesis using assms(2) by (auto simp: opened_def open_failed_def intro: trail_cong)
next
  case (Inr page)
  then obtain c q where q: "page_admitted page" "s' = visiting env q (bp_url page) add_history (s\<lparr>bs_cache := c\<rparr>)"
    using assms(2) by (auto simp: opened_def open_shown_def)
  have same: "trail (s\<lparr>bs_cache := c\<rparr>) = trail s" by (rule trail_cong) simp_all
  show ?thesis
  proof (cases add_history)
    case True
    then show ?thesis
      using q trail_visited [of "s\<lparr>bs_cache := c\<rparr>" "bp_url page" env q] assms(1) by (simp add: Inr same page_admitted_def)
  next
    case False
    have "trail (showing env q (s\<lparr>bs_cache := c\<rparr>)) = trail s" by (rule trail_cong) simp_all
    then show ?thesis using q(2) False by (simp add: Inr visiting_def)
  qed
qed

lemma went_trail: "history_ok s \<Longrightarrow> went env False s r s' \<Longrightarrow> trail s' = trail s"
  using opened_trail [of s env False _ s'] by (auto simp: went_def split: sum.splits)

text \<open>
  C10: seen through the trail of pages behind and ahead, going back, going forward, reloading and opening a page
  are the steps of a browser: back and forward move along the trail even when the page cannot be loaded,
  reloading stays, and a page that is opened becomes the present one, with nothing ahead of it; an address
  that cannot be opened changes nothing.
\<close>

theorem session_refines_trail:
  assumes "session_reachable env s" "calm call"
  shows "trail (snd (session_back env call s)) = trail_back (trail s)
    \<and> trail (snd (session_forward env call s)) = trail_forward (trail s)
    \<and> trail (snd (session_reload env call s)) = trail s
    \<and> (case session_open env call url request_data True use_cache s of
         (Inr page, s') \<Rightarrow> trail s' = trail_visit (bp_url page) (trail s)
       | (Inl _, s') \<Rightarrow> trail s' = trail s)"
proof -
  have ok: "history_ok s" using assms(1) by (intro session_ok_historyD session_reachable_ok)
  have moved: "history_ok (s\<lparr>bs_history_index := i\<rparr>)" if "0 \<le> i" "i < int (length (bs_history s))" for i
    using that ok by (auto simp: history_ok_def position_ok_def)
  have "trail (snd (session_back env call s)) = trail_back (trail s)"
  proof (cases "bs_history_index s \<le> 0")
    case True
    then show ?thesis using back_went [OF ok assms(2) prod.collapse [symmetric], of env] trail_ends(1) [OF ok] by simp
  next
    case False
    then have "history_ok (s\<lparr>bs_history_index := bs_history_index s - 1\<rparr>)"
      using ok by (intro moved) (auto simp: history_ok_def position_ok_def split: if_splits)
    note arrived = went_trail [OF this]
    have "went env False (s\<lparr>bs_history_index := bs_history_index s - 1\<rparr>) (fst (session_back env call s)) (snd (session_back env call s))"
      using back_went [OF ok assms(2) prod.collapse [symmetric], of env] unfolding if_not_P [OF False] .
    from arrived [OF this] show ?thesis using trail_move_back [OF ok] False by simp
  qed
  moreover have "trail (snd (session_forward env call s)) = trail_forward (trail s)"
  proof (cases "bs_history_index s + 1 \<ge> int (length (bs_history s))")
    case True
    then show ?thesis using forward_went [OF ok assms(2) prod.collapse [symmetric], of env] trail_ends(2) [OF ok] by simp
  next
    case False
    then have "history_ok (s\<lparr>bs_history_index := bs_history_index s + 1\<rparr>)"
      using ok by (intro moved) (auto simp: history_ok_def position_ok_def split: if_splits)
    note arrived = went_trail [OF this]
    have "went env False (s\<lparr>bs_history_index := bs_history_index s + 1\<rparr>) (fst (session_forward env call s)) (snd (session_forward env call s))"
      using forward_went [OF ok assms(2) prod.collapse [symmetric], of env] unfolding if_not_P [OF False] .
    from arrived [OF this] show ?thesis using trail_move_forward [OF ok] False by simp
  qed
  moreover have "trail (snd (session_reload env call s)) = trail s"
    using reload_went [OF ok assms(2) prod.collapse [symmetric], of env] went_trail [OF ok] by (auto split: if_splits)
  moreover have "case session_open env call url request_data True use_cache s of
         (Inr page, s') \<Rightarrow> trail s' = trail_visit (bp_url page) (trail s)
       | (Inl _, s') \<Rightarrow> trail s' = trail s"
    using opened_trail [OF ok session_open_opened [OF ok assms(2)], of env url request_data True use_cache]
    by (auto split: prod.split sum.splits)
  ultimately show ?thesis by blast
qed

theorem session_refines_trail_witness:
  "trail (snd (session_back plain_env offline plain_session)) = trail_back (trail plain_session)"
  using session_refines_trail [OF plain_session_reachable calm_offline] by blast

end
