(* ===== verification/Browser_Guarantees.thy ===== *)
theory Browser_Guarantees
  imports Browser_Trail
begin

text \<open>
  Failed navigation keeps the page, links without a colon stay on their node, and a page that was fetched is
  shown again from the cache.
\<close>

section \<open>Failures\<close>

text \<open>
  C25: an address that cannot be opened leaves the session as it was, but for its cache: page, form, partials and
  history stay. Going back to a page that cannot be loaded also keeps the page, but has moved the position:
  the session shows one page and its history says another.
\<close>

theorem failed_navigation_keeps_page:
  assumes "session_reachable env s" "calm call"
  shows "(\<forall>e s'. session_open env call url request_data add_history use_cache s = (Inl e, s') \<longrightarrow> s' = s\<lparr>bs_cache := bs_cache s'\<rparr>)
    \<and> (\<forall>e s'. session_back env call s = (Inl e, s') \<longrightarrow>
         s' = s\<lparr>bs_cache := bs_cache s', bs_history_index := bs_history_index s - 1\<rparr>)"
proof -
  have ok: "history_ok s" using assms(1) by (intro session_ok_historyD session_reachable_ok)
  have "s' = s\<lparr>bs_cache := bs_cache s'\<rparr>" if "session_open env call url request_data add_history use_cache s = (Inl e, s')" for e s'
    using session_open_opened [OF ok assms(2) that] by (auto simp: opened_def open_failed_def)
  moreover have "s' = s\<lparr>bs_cache := bs_cache s', bs_history_index := bs_history_index s - 1\<rparr>"
    if failed: "session_back env call s = (Inl e, s')" for e s'
  proof -
    have "went env False (s\<lparr>bs_history_index := bs_history_index s - 1\<rparr>) (Inl e) s'"
      using back_went [OF ok assms(2) failed] by (simp split: if_splits)
    then obtain r0 where "Inl e = map_sum id Some r0" "opened env False (s\<lparr>bs_history_index := bs_history_index s - 1\<rparr>) r0 s'"
      by (auto simp: went_def)
    then show ?thesis by (cases r0) (auto simp: opened_def open_failed_def)
  qed
  ultimately show ?thesis by blast
qed

theorem failed_navigation_keeps_page_witness:
  "snd (session_open plain_env offline (lit ''http://x'') None True True plain_session)
   = plain_session\<lparr>bs_cache := bs_cache (snd (session_open plain_env offline (lit ''http://x'') None True True plain_session))\<rparr>"
proof -
  have "is_clearweb_url (lit ''http://x'')" by code_simp
  then have "resolve_url (lit ''http://x'') plain_session = Some (lit ''http://x'')" by (simp add: resolve_url_def)
  moreover have "address_error (lit ''http://x'') \<noteq> None" by code_simp
  ultimately obtain e where "session_open plain_env offline (lit ''http://x'') None True True plain_session = (Inl e, plain_session)"
    by (auto simp: session_open_def)
  with failed_navigation_keeps_page [OF plain_session_reachable calm_offline] show ?thesis by fastforce
qed

section \<open>Links\<close>

lemma lowercase_colon: "chr CHR '':'' \<in> set (to_ascii_lowercase text) \<Longrightarrow> chr CHR '':'' \<in> set text"
  by (auto simp: to_ascii_lowercase_def chr_def split: if_splits)

lemma clearweb_colon: "is_clearweb_url url \<Longrightarrow> chr CHR '':'' \<in> set url"
proof -
  assume "is_clearweb_url url"
  then obtain rest where "to_ascii_lowercase (str_trimmed url) = lit ''http://'' @ rest \<or> to_ascii_lowercase (str_trimmed url) = lit ''https://'' @ rest"
    by (auto simp: is_clearweb_url_def Let_def starts_with_def) (metis append_take_drop_id)+
  then have "chr CHR '':'' \<in> set (to_ascii_lowercase (str_trimmed url))" by (auto simp: lit_def)
  then have "chr CHR '':'' \<in> set (str_trimmed url)" by (rule lowercase_colon)
  then show ?thesis by (auto simp: str_trimmed_def trim_both_def dest!: set_dropWhileD)
qed

lemma trim_address:
  assumes "destination \<noteq> []" "\<not> white_space (hd destination)"
  obtains rest' where "str_trimmed (destination @ lit '':'' @ lit ''/'' @ rest) = destination @ lit '':'' @ lit ''/'' @ rest'"
proof -
  define front where "front = destination @ lit '':/''"
  have front: "front \<noteq> []" "\<not> white_space (hd front)" "\<not> white_space (hd (rev front))"
    using assms by (auto simp: front_def lit_def chr_def white_space_def)
  have "dropWhile white_space (front @ rest) = front @ rest" using front by (cases front) auto
  moreover have "dropWhile white_space (rev rest @ rev front) = dropWhile white_space (rev rest) @ rev front"
    using front by (cases "rev front") (auto simp: dropWhile_append)
  ultimately have "str_trimmed (front @ rest) = front @ rev (dropWhile white_space (rev rest))"
    by (simp add: str_trimmed_def trim_both_def)
  then show thesis using that by (simp add: front_def lit_def)
qed

lemma node_address:
  assumes "canonical_address current"
  shows "\<exists>path. address_parse (ba_destination current @ lit '':'' @ lit ''/'' @ rest) = Some \<lparr>ba_destination = ba_destination current, ba_path = path\<rparr>"
proof -
  obtain rest' where trimmed: "str_trimmed (ba_destination current @ lit '':'' @ lit ''/'' @ rest) = ba_destination current @ lit '':'' @ lit ''/'' @ rest'"
    using trim_address assms by (metis canonical_address_def)
  have "split_once (chr CHR '':'') (ba_destination current @ lit '':'' @ lit ''/'' @ rest') = Some (ba_destination current, lit ''/'' @ rest')"
    using assms by (simp add: split_once_Some canonical_address_def lit_def)
  then show ?thesis
    using assms by (simp add: address_parse_def parse_with_current_def trimmed canonical_address_def)
qed

lemma parent_rooted:
  assumes "canonical_address current"
  shows "\<exists>rest. (case before_last_slash (ba_path current) of Some front \<Rightarrow> if front = [] then lit ''/'' else front | None \<Rightarrow> lit ''/'')
    = lit ''/'' @ rest"
proof -
  have "\<exists>rest. front = lit ''/'' @ rest" if front: "before_last_slash (ba_path current) = Some front" "front \<noteq> []" for front
  proof -
    obtain rest where "rev (ba_path current) = rest @ chr CHR ''/'' # rev front"
      using front(1) by (auto simp: before_last_slash_def split_once_Some)
    then have "ba_path current = front @ chr CHR ''/'' # rev rest" by (metis append_Cons append_Nil append_assoc rev.simps(2) rev_append rev_rev_ident)
    then show ?thesis
      using front(2) assms by (cases front) (auto simp: canonical_address_def starts_with_def lit_def)
  qed
  then show ?thesis by (auto simp: lit_def split: option.split)
qed

text \<open>
  C24: a link without a colon never leaves the node of the current page: it resolves, exactly when the current
  page has an address, to an address on the same destination.
\<close>

theorem relative_links_stay_on_node:
  assumes "chr CHR '':'' \<notin> set input"
  shows "case current_destination s of
      None \<Rightarrow> resolve_url input s = None
    | Some destination \<Rightarrow> \<exists>url path. resolve_url input s = Some url
        \<and> address_parse url = Some \<lparr>ba_destination = destination, ba_path = path\<rparr>"
proof -
  have colon: "chr CHR '':'' \<notin> set (str_trimmed input)"
    using assms by (auto simp: str_trimmed_def trim_both_def dest!: set_dropWhileD)
  have "split_once (chr CHR '':'') (str_trimmed input) = None" using colon by (simp add: split_once_None)
  then have relative: "\<not> is_clearweb_url input" "address_parse input = None" "\<not> starts_with (lit '':'') input"
    using assms clearweb_colon [of input]
    by (auto simp: address_parse_def parse_with_current_def) (cases input; simp add: starts_with_def lit_def)
  show ?thesis
  proof (cases "Option.bind (current_url s) address_parse")
    case None
    then show ?thesis using relative by (cases "current_url s") (simp_all add: resolve_url_def current_destination_def)
  next
    case (Some current)
    then have current: "current_destination s = Some (ba_destination current)" "canonical_address current"
      using address_parse_canonical by (auto simp: current_destination_def split: bind_splits)
    note node = node_address [OF current(2)]
    have "\<exists>rest. resolve_url input s = Some (ba_destination current @ lit '':'' @ lit ''/'' @ rest)"
    proof (cases "starts_with (lit ''/'') input")
      case True
      then have "input = lit ''/'' @ drop 1 input" by (cases input) (auto simp: starts_with_def lit_def)
      then show ?thesis using True relative current(1) by (auto simp: resolve_url_def)
    next
      case False
      define parent where "parent = (case before_last_slash (ba_path current) of Some front \<Rightarrow> if front = [] then lit ''/'' else front | None \<Rightarrow> lit ''/'')"
      have "\<exists>rest. parent = lit ''/'' @ rest" unfolding parent_def by (rule parent_rooted [OF current(2)])
      then show ?thesis using False relative current(1) Some by (auto simp: resolve_url_def Let_def parent_def [symmetric])
    qed
    then show ?thesis using node current(1) by auto
  qed
qed

theorem relative_links_stay_on_node_witness:
  "\<exists>url path. resolve_url (lit ''next'') (session_blank\<lparr>bs_current_page := Some (mock_home (lit ''node:/a/b''))\<rparr>) = Some url
     \<and> address_parse url = Some \<lparr>ba_destination = lit ''node'', ba_path = path\<rparr>"
proof -
  have "chr CHR '':'' \<notin> set (lit ''next'')" by code_simp
  moreover have "current_destination (session_blank\<lparr>bs_current_page := Some (mock_home (lit ''node:/a/b''))\<rparr>) = Some (lit ''node'')" by code_simp
  ultimately show ?thesis
    using relative_links_stay_on_node [of "lit ''next''" "session_blank\<lparr>bs_current_page := Some (mock_home (lit ''node:/a/b''))\<rparr>"] by simp
qed

text \<open>
  a link to a path of the current node that contains a colon is taken for an address of another node, whose
  name is the path up to the colon, whatever the current page is.
\<close>

theorem colon_path_leaves_node:
  "resolve_url (lit ''/page/a:b'') s = Some (lit ''/page/a:/b'')
   \<and> address_parse (lit ''/page/a:/b'') = Some \<lparr>ba_destination = lit ''/page/a'', ba_path = lit ''/b''\<rparr>"
proof -
  have "\<not> is_clearweb_url (lit ''/page/a:b'')" by code_simp
  moreover have "map_option address_url (address_parse (lit ''/page/a:b'')) = Some (lit ''/page/a:/b'')" by code_simp
  moreover have "address_parse (lit ''/page/a:/b'') = Some \<lparr>ba_destination = lit ''/page/a'', ba_path = lit ''/b''\<rparr>" by code_simp
  ultimately show ?thesis by (auto simp: resolve_url_def)
qed

section \<open>Pages from the cache\<close>

text \<open>What normalising a page depends on.\<close>

lemma normalize_page_policy:
  assumes "bs_micronplus_enabled s' = bs_micronplus_enabled s" "bs_trusted_micronplus_nodes s' = bs_trusted_micronplus_nodes s"
  shows "normalize_page env page s' = normalize_page env page s" "default_request_data url s' = default_request_data url s"
proof -
  have allowed: "micronplus_allowed_for_url u s' = micronplus_allowed_for_url u s" for u
    using assms by (simp add: micronplus_allowed_for_url_def)
  then have "micronplus_source env page s' = micronplus_source env page s"
    by (simp add: micronplus_source_def micronplus_allowed_for_page_def)
  then show "normalize_page env page s' = normalize_page env page s" unfolding normalize_page_def by (rule ssubst) (rule refl)
  show "default_request_data url s' = default_request_data url s" unfolding default_request_data_def allowed ..
qed

definition from_cache :: "BrowserPage \<Rightarrow> BrowserPage" where
  "from_cache page = page\<lparr>bp_source := SourceCache, bp_request_data := None\<rparr>"

lemma from_cache_admitted: "page_admitted page \<Longrightarrow> page_admitted (from_cache page)"
  by (simp add: page_admitted_def from_cache_def)

lemma from_cache_steps:
  "metadata_set key v (from_cache page) = from_cache (metadata_set key v page)"
  "lower_micronplus env source (from_cache page) = from_cache (lower_micronplus env source page)"
  "micronplus_source env (from_cache page) s = micronplus_source env page s"
  "(from_cache page)\<lparr>bp_markup := markup\<rparr> = from_cache (page\<lparr>bp_markup := markup\<rparr>)"
  "bp_markup (from_cache page) = bp_markup page" "bp_url (from_cache page) = bp_url page"
  by (simp_all add: from_cache_def metadata_set_def lower_micronplus_def Let_def micronplus_source_def micronplus_allowed_for_page_def
      split: option.split Json.split)

lemma normalize_from_cache:
  assumes "normalize_page env page s = Inr p"
  shows "normalize_page env (from_cache page) s = Inr (from_cache p)"
proof -
  define lowered where "lowered = (case micronplus_source env page s of
      Some source \<Rightarrow> lower_micronplus env source page
    | None \<Rightarrow> metadata_set ''micronplus_diagnostics'' None (metadata_set ''micronplus_tree'' None
        (metadata_set ''micronplus_layout'' None (metadata_set ''micronplus_source'' None page))))"
  have p: "p = lowered\<lparr>bp_markup := be_omenchat env (bp_markup lowered)\<rparr>"
    using assms by (simp add: normalize_page_def Let_def split: sum.splits flip: lowered_def)
  have lowered': "(case micronplus_source env (from_cache page) s of
      Some source \<Rightarrow> lower_micronplus env source (from_cache page)
    | None \<Rightarrow> metadata_set ''micronplus_diagnostics'' None (metadata_set ''micronplus_tree'' None
        (metadata_set ''micronplus_layout'' None (metadata_set ''micronplus_source'' None (from_cache page))))) = from_cache lowered"
    by (simp add: lowered_def from_cache_steps split: option.split)
  have "validate_retained (from_cache page) = Inr ()" "validate_retained (from_cache p) = Inr ()"
    using normalize_page_Inr [OF assms] by (simp_all add: validate_retained_exact from_cache_admitted)
  then show ?thesis
    unfolding normalize_page_def Let_def lowered' by (simp add: from_cache_steps p)
qed

lemma cache_store_path:
  "cache_store env f now key markup ttl title metadata c = (Inr found, c') \<Longrightarrow> ttl \<noteq> 0 \<Longrightarrow> \<exists>path. found = Some path"
  by (auto simp: cache_store_def Let_def split: if_splits sum.splits prod.splits)

text \<open>The steps of a fetch that succeeds in a session with a cache.\<close>

lemma fetched_page:
  assumes "history_ok s" "bs_cache s = Some cache" "open_fetched env call resolved key None add_history s = (Inr page, s')"
  obtains fetched found cache' q where
    "\<exists>data operation. oc_fetch call resolved data operation = Inr fetched"
    "cache_store (be_cache env) (oc_store_faults call) (oc_stored_at call) key (bp_markup fetched)
       (cache_ttl_for_markup (bp_markup fetched)) (bp_title fetched) (bp_metadata fetched) cache = (Inr found, cache')"
    "normalize_page env fetched s = Inr page" "normalize_page env page s = Inr q"
    "s' = visiting env q (bp_url page) add_history (s\<lparr>bs_cache := Some cache'\<rparr>)"
proof -
  obtain data fetched where fetch: "oc_fetch call resolved data (bs_operation_id s) = Inr fetched"
      "(case session_cache_store env call key fetched s of (Inl e, s1) \<Rightarrow> (Inl e, s1) | (Inr _, s1) \<Rightarrow> show_page env fetched add_history s1) = (Inr page, s')"
    using assms(3) by (auto simp: open_fetched_def split: if_splits sum.splits)
  obtain found cache' where stored: "cache_store (be_cache env) (oc_store_faults call) (oc_stored_at call) key (bp_markup fetched)
       (cache_ttl_for_markup (bp_markup fetched)) (bp_title fetched) (bp_metadata fetched) cache = (Inr found, cache')"
      "show_page env fetched add_history (s\<lparr>bs_cache := Some cache'\<rparr>) = (Inr page, s')"
    using fetch(2) by (auto simp: session_cache_store_def assms(2) split: prod.splits sum.splits)
  have policy: "normalize_page env p (s\<lparr>bs_cache := Some cache'\<rparr>) = normalize_page env p s" for p
    by (rule normalize_page_policy) simp_all
  obtain q where "normalize_page env fetched s = Inr page" "normalize_page env page s = Inr q"
      "s' = visiting env q (bp_url page) add_history (s\<lparr>bs_cache := Some cache'\<rparr>)"
    using stored(2) assms(1) by (auto simp: show_page_eq policy split: sum.splits)
  with fetch(1) stored(1) that show thesis by blast
qed


text \<open>A session with a cache, and a network with one page.\<close>

definition cached_env :: BrowserEnv where
  "cached_env = plain_env\<lparr>be_cache := \<lparr>cv_encode = (\<lambda>rec. encode_utf8 (cr_markup rec)),
     cv_decode = (\<lambda>bs. if bs = encode_utf8 (lit ''m'') then Some (stored_record 100 (lit ''node:/a'') (lit ''m'') 43200 (lit ''t'') []) else None),
     cv_sha256 = (\<lambda>bs. bs)\<rparr>\<rparr>"

definition cached_page :: BrowserPage where
  "cached_page = \<lparr>bp_url = lit ''node:/a'', bp_markup = lit ''m'', bp_title = lit ''t'', bp_source = SourceNetwork, bp_metadata = [],
     bp_request_data = None\<rparr>"

definition online :: OpenCall where
  "online = offline\<lparr>oc_fetch := (\<lambda>_ _ _. Inr cached_page), oc_stored_at := 100\<rparr>"

definition cached_session :: BrowserSession where
  "cached_session = set_micronplus_policy False None (plain_session\<lparr>bs_runtime := True, bs_cache := Some sample_cache, bs_downloads_dir := Some []\<rparr>)"

lemma cached_normalize: "page_admitted page \<Longrightarrow> bp_metadata page = [] \<Longrightarrow> normalize_page cached_env page s = Inr page"
  by (rule plain_normalize) (simp_all add: cached_env_def plain_env_def)

lemma plain_session_new_env: "session_new cached_env (lit ''mock.node:/'') = Some plain_session"
proof -
  have "update_page_state cached_env (mock_home (lit ''mock.node:/'')) session_blank = update_page_state plain_env (mock_home (lit ''mock.node:/'')) session_blank"
    using cached_normalize [OF mock_home_admitted] plain_normalize [of plain_env, OF _ _ mock_home_admitted]
    by (simp add: update_page_state_eq mock_home_def [of "lit ''mock.node:/''"] showing_def cached_env_def plain_env_def)
  then show ?thesis
    using plain_session_new by (auto simp: session_new_def plain_session_def split: prod.splits sum.splits)
qed

lemma cached_session_reachable: "session_reachable cached_env cached_session"
proof -
  have "cache_reachable (be_cache cached_env) sample_cache" unfolding sample_cache_def by (rule cache_reachable.empty) simp
  then have "session_reachable cached_env (plain_session\<lparr>bs_runtime := True, bs_cache := Some sample_cache, bs_downloads_dir := Some []\<rparr>)"
    by (rule session_reachable.with_runtime [of _ "lit ''mock.node:/''" sample_cache "[]", rotated])
      (simp add: with_runtime_def plain_session_new_env)
  then show ?thesis unfolding cached_session_def by (rule session_reachable.policy)
qed

lemma cached_page_admitted: "page_admitted cached_page"
  by code_simp

lemma cached_key: "cache_key cached_env (lit ''node:/a'') (Some (default_request_data (lit ''node:/a'') cached_session)) = lit ''node:/a''"
  by (simp add: cache_key_def default_request_data_def micronplus_allowed_for_url_def cached_session_def set_micronplus_policy_def)

lemma cached_open: "fst (session_open cached_env online (lit ''node:/a'') None True False cached_session) = Inr cached_page"
proof -
  have "history_ok cached_session" using cached_session_reachable by (intro session_ok_historyD session_reachable_ok)
  then have shown: "fst (show_page cached_env cached_page True (cached_session\<lparr>bs_cache := c\<rparr>)) = Inr cached_page" for c
    using cached_normalize [OF cached_page_admitted] by (simp add: show_page_eq cached_page_def)
  have "\<not> is_clearweb_url (lit ''node:/a'')" by code_simp
  moreover have "address_parse (lit ''node:/a'') = Some \<lparr>ba_destination = lit ''node'', ba_path = lit ''/a''\<rparr>" by code_simp
  moreover have url: "address_url \<lparr>ba_destination = lit ''node'', ba_path = lit ''/a''\<rparr> = lit ''node:/a''" by code_simp
  ultimately have resolve: "resolve_url (lit ''node:/a'') cached_session = Some (lit ''node:/a'')" by (simp add: resolve_url_def)
  have no_error: "address_error (lit ''node:/a'') = None" by code_simp
  have "\<exists>found. fst (cache_store (be_cache cached_env) (oc_store_faults online) (oc_stored_at online) (lit ''node:/a'') (bp_markup cached_page)
      (cache_ttl_for_markup (bp_markup cached_page)) (bp_title cached_page) (bp_metadata cached_page) sample_cache) = Inr found"
    by (rule exI [of _ "Some (path_for_hash (cache_hash (be_cache cached_env) (lit ''node:/a'')))"]) code_simp
  then obtain found c where "cache_store (be_cache cached_env) (oc_store_faults online) (oc_stored_at online) (lit ''node:/a'') (bp_markup cached_page)
      (cache_ttl_for_markup (bp_markup cached_page)) (bp_title cached_page) (bp_metadata cached_page) sample_cache = (Inr found, c)"
    by (metis prod.collapse)
  then have stored: "session_cache_store cached_env online (lit ''node:/a'') cached_page cached_session = (Inr (), cached_session\<lparr>bs_cache := Some c\<rparr>)"
    by (simp add: session_cache_store_def cached_session_def set_micronplus_policy_def)
  have "validate_retained cached_page = Inr ()" using cached_page_admitted by (simp add: validate_retained_exact)
  moreover have "bs_runtime cached_session" by (simp add: cached_session_def set_micronplus_policy_def)
  moreover have "oc_fetch online u d o' = Inr cached_page" for u d o' by (simp add: online_def)
  ultimately show ?thesis
    by (simp add: session_open_def resolve no_error cached_key open_fetched_def stored shown)
qed


end
