(* ===== verification/Spec2Isabelle.thy ===== *)
theory Spec2Isabelle
  imports Durable Rich_Message Nickname_Colours Reactions Pins Message_Revisions Moderation_Audit
    Room_Policy Negotiation Batch_Codec Slow_Mode Channel_Upload Client_Retention Chat_Invitation
    Micron_Document Browser_Guarantees
begin

text \<open>
  A verification library for the Omen browser and its chat system OmenChat. Paths are relative to
  \<^verbatim>\<open>src/src\<close>.

  \<^bold>\<open>The program.\<close> The shared crate \<^verbatim>\<open>server/crates/omenchat-protocol\<close> defines what client and server say to
  each other: frames, the messages of each feature, session negotiation and durable mutations. The server
  (\<^verbatim>\<open>server/src\<close>) admits frames through a MessagePack scanner, limits requests by rate buckets and slow
  mode, and takes uploads through offers, staged channel transfers and a quota-bound cache. The browser
  keeps the state of its chat sessions (\<^verbatim>\<open>chat/model.rs\<close>, \<^verbatim>\<open>chat/client.rs\<close>) from the events and snapshots the
  server sends, parses pages of Micron markup (\<^verbatim>\<open>micron/parser.rs\<close>) and shows them in browser sessions with
  a history, forms, partials and a page cache on disk (\<^verbatim>\<open>browser\<close>).

  \<^bold>\<open>How it is modelled.\<close> Machine integers keep their width as words; \<^verbatim>\<open>usize\<close> and \<^verbatim>\<open>u64\<close> counters are natural
  numbers with the checked, saturating or wrapping arithmetic of a 64-bit target written out. A \<^verbatim>\<open>String\<close> is
  its UTF-8 bytes in the protocol and chat theories, and a list of Unicode scalar values in the
  Micron and browser theories (\<open>Rust_Str\<close>), with lengths counted in bytes. \<^verbatim>\<open>BTreeMap\<close> is a sorted association list
  (\<open>BTree_Map\<close>), with its laws as the locale \<open>ordered_map\<close>. \<^verbatim>\<open>Result\<close> is a sum with the error on the left,
  and an operation on state returns its result with the state after it. Times are natural numbers
  (\<^verbatim>\<open>Instant\<close> in nanoseconds, Unix times in seconds). Loops are structural recursions or \<^verbatim>\<open>function\<close>s with a
  measure, so every definition is total; loops the source itself bounds (32 temporary names, 1000
  upload names) keep the bound of the source as the count of the recursion.

  \<^bold>\<open>Foundations.\<close> \<open>Omen_Prelude\<close> holds the error combinators, byte strings, UTF-8 and list lemmas;
  \<open>BTree_Map\<close> the ordered maps; \<open>Rust_Str\<close> strings of characters; \<open>Text_Map\<close> maps from names to texts with a
  budget (the locale \<open>text_budget\<close>, for the metadata of a page and for its form); \<open>Codec_Contract\<close> the locales
  every message kind is shown to satisfy (an encoder and a decoder that are inverse on the valid messages).

  \<^bold>\<open>Protocol crate.\<close> \<open>Wire_Types\<close> (\<^verbatim>\<open>lib.rs\<close>) and \<open>Wire_Fields\<close> hold frames and the field parsers the modules
  repeat. \<open>Rich_Message\<close>, \<open>Reactions\<close>, \<open>Pins\<close>, \<open>Message_Revisions\<close>, \<open>Moderation_Audit\<close>, \<open>Nickname_Colours\<close>,
  \<open>Room_Policy\<close> and \<open>Channel_Attachment\<close> model the modules of those names; each interprets the codec contract,
  and the properties say which messages are accepted and that they come back as they were sent.
  \<open>Negotiation\<close> characterises capability lists and the round trip of session opening. \<open>Durable\<close> shows that the
  bounded canonical writer hashes the canonical encoding of a request, that the encoding is injective
  (equal hashes mean equal requests or a SHA-256 collision) and that envelopes round trip. SHA-256 is a
  parameter.

  \<^bold>\<open>Server.\<close> \<open>Msgpack\<close> (\<^verbatim>\<open>protocol/codec.rs\<close>) shows that the scanner accepts exactly the complete MessagePack
  values within the limits, against an independent definition of the format; \<open>limits_ok\<close> says the limits fit
  a 64-bit target, as all limits of the source do. \<open>Frame_Codec\<close> adds the conversion of frames to and from
  MessagePack values: frames come back as they were sent, and decoded frames are stable. The reader and
  writer of the \<^verbatim>\<open>rmpv\<close> crate are the parameter \<open>MessagePackLib\<close>, whose laws \<open>Msgpack_Values\<close> shows to hold of a
  reader and a writer of its own. \<open>Batch_Codec\<close> (\<^verbatim>\<open>protocol/batch.rs\<close>) shows that compressed batches
  round trip and that a hostile one is decoded only within its promised length. \<open>Rate_Limit\<close>, \<open>Slow_Mode\<close> and \<open>Pending_Stores\<close>
  (\<^verbatim>\<open>session.rs\<close>, \<^verbatim>\<open>session/slow_mode.rs\<close>) are state machines over reservations, commits, drops and time, with
  bounds, spacing and isolation over every reachable state. \<open>Upload_Cache\<close> (\<^verbatim>\<open>upload.rs\<close>) models the quota plan
  and the write path over a file system whose operations may fail at any point; storing is atomic.
  \<open>Channel_Upload\<close> adds staged transfers; what the SQL store decides (gate, record, planner, publication) is
  a parameter, as are SHA-256 and the faults of the file system.

  \<^bold>\<open>Browser chat.\<close> \<open>Chat_Model\<close>, \<open>Client_History\<close> and \<open>Chat_Client\<close> model the chat state in memory operation by
  operation. \<open>Client_Projections\<close> shows how events and snapshots converge, \<open>Client_Invariant\<close> that every
  operation keeps all limits, and \<open>Client_Retention\<close> that the tables refer to retained messages in every
  reachable state. The in-memory sizes that the accounting reads are the parameter \<open>ChatLayout\<close>.
  \<open>Chat_Invitation\<close> (\<^verbatim>\<open>chat/invitation.rs\<close>) models invitation addresses and their confirmation: addresses round
  trip (with \<open>Utf8_Text\<close>, which relates strings of characters and of bytes), and an invitation whose claimed
  identity conflicts with the directory cannot be confirmed.

  \<^bold>\<open>Micron pages.\<close> \<open>Micron_Parser\<close> models every function of \<^verbatim>\<open>micron/parser.rs\<close>; the character index of the source
  is the rest of the line. \<open>Micron_Document\<close> proves the limits of every parsed page by an invariant
  of the inline loop (the locale \<open>inline_invariant\<close>) and of the loop over lines, that no content is left
  out of a page that is not marked as limited, and that escaped text and literal blocks are shown as written.

  \<^bold>\<open>Browser sessions.\<close> \<open>Browser_Page\<close> (\<^verbatim>\<open>page.rs\<close>) shows that the stack walk over a page's metadata accepts exactly
  the pages within the limits, and that addresses round trip. \<open>Browser_Partials\<close> (\<^verbatim>\<open>partials.rs\<close>) gives each
  partial its own slot and line. \<open>Page_Cache\<close> (\<^verbatim>\<open>cache.rs\<close>) models the cache over a directory whose files may fail;
  \<open>Page_Cache_Invariant\<close> shows the budget, the eviction order and that only fresh pages are found.
  \<open>Browser_Session\<close> (\<^verbatim>\<open>session.rs\<close>) models every operation of a session; \<open>Browser_Forms\<close> its form,
  \<open>Browser_History\<close> the two ways its history is bounded, \<open>Browser_Navigation\<close> the invariant of every reachable
  session with its cache, \<open>Browser_Trail\<close> the refinement of the history to a trail of pages behind and ahead,
  and \<open>Browser_Guarantees\<close> failures, relative links and pages shown again from the cache. The network
  and the faults and clock of the cache are arguments of each call (\<open>OpenCall\<close>); the MicronPlus plugin, the
  lowering of OmenChat blocks, \<^verbatim>\<open>serde_json\<close>, SHA-256 and the parser of floating-point numbers are the
  parameters \<open>BrowserEnv\<close>, \<open>CacheEnv\<close> and \<open>PartialEnv\<close>. An operation that would index out of range returns
  \<open>AppPanic\<close>, which is shown not to happen.

  \<^bold>\<open>Not modelled.\<close> The SQLite stores of server and client (\<^verbatim>\<open>store.rs\<close>, \<^verbatim>\<open>chat/store.rs\<close>) and the handlers that
  are mostly queries; the asynchronous transports and adapters (\<^verbatim>\<open>live.rs\<close>, \<^verbatim>\<open>chat/live.rs\<close>,
  \<^verbatim>\<open>runtime/native\<close>), whose behaviour is that of the Reticulum network library and of the executor; the
  terminal and desktop interfaces (\<^verbatim>\<open>app.rs\<close>, \<^verbatim>\<open>tui.rs\<close>, \<^verbatim>\<open>ui\<close>, \<^verbatim>\<open>desktop\<close>), which are input, layout and drawing;
  configuration and process start-up; the browser's copies of the scanner and of the frame codec
  (\<^verbatim>\<open>msgpack.rs\<close>, \<^verbatim>\<open>chat/codec.rs\<close>), which repeat those of the server.
\<close>

end
